(* ===== verification/Dysco_Prelude.thy ===== *)
theory Dysco_Prelude
  imports Main "HOL-Library.Word" "HOL-Library.Monad_Syntax"
begin

unbundle bit_operations_syntax

text \<open>
  What every component shares: the C integer types, byte order on a little-endian host
  (the module reads the x86 time stamp counter), the serial number comparisons that
  \<^verbatim>\<open>net/tcp.h\<close> offers as \<open>before\<close> and \<open>after\<close>, reads and writes of packet memory, the
  ones' complement value of a word, and the named collections the proofs use.
\<close>

named_theorems heap_simps \<open>reads of the control block stores after a write\<close>
named_theorems frame_simps \<open>fields an operation leaves alone\<close>
named_theorems csum_simps \<open>ones' complement values of rewritten words\<close>

section \<open>Integer types and byte order\<close>

type_synonym u4 = "4 word"
type_synonym u8 = "8 word"
type_synonym u16 = "16 word"
type_synonym u32 = "32 word"
type_synonym u64 = "64 word"
type_synonym addr = nat
type_synonym mem = "nat \<Rightarrow> u8"
type_synonym mac = "u8 list"

definition bswap16 :: "u16 \<Rightarrow> u16" where
  "bswap16 x = push_bit 8 x OR drop_bit 8 x"

definition bswap32 :: "u32 \<Rightarrow> u32" where
  "bswap32 x = push_bit 24 x OR (push_bit 8 x AND 0x00ff0000) OR
     (drop_bit 8 x AND 0x0000ff00) OR drop_bit 24 x"

abbreviation ntohs :: "u16 \<Rightarrow> u16" where "ntohs \<equiv> bswap16"
abbreviation htons :: "u16 \<Rightarrow> u16" where "htons \<equiv> bswap16"
abbreviation ntohl :: "u32 \<Rightarrow> u32" where "ntohl \<equiv> bswap32"
abbreviation htonl :: "u32 \<Rightarrow> u32" where "htonl \<equiv> bswap32"

lemma bswap16_bswap16 [simp]: "bswap16 (bswap16 x) = x"
  by (rule bit_word_eqI) (auto simp: bswap16_def bit_simps)

lemma mask_byte2: "(0x00ff0000::u32) = push_bit 16 (mask 8)"
  by (simp add: mask_eq_exp_minus_1 push_bit_eq_mult)

lemma mask_byte1: "(0x0000ff00::u32) = push_bit 8 (mask 8)"
  by (simp add: mask_eq_exp_minus_1 push_bit_eq_mult)

lemma bit_bswap32:
  "n < 32 \<Longrightarrow> bit (bswap32 x) n \<longleftrightarrow>
     bit x (if n < 8 then 24 + n else if n < 16 then 8 + n
            else if n < 24 then n - 8 else n - 24)"
  unfolding bswap32_def mask_byte2 mask_byte1
  by (auto simp: bit_simps not_less add.commute dest: bit_imp_le_length)

lemma bswap32_bswap32 [simp]: "bswap32 (bswap32 x) = x"
  by (rule bit_word_eqI) (auto simp: bit_bswap32)

lemma bswap16_inj [simp]: "bswap16 x = bswap16 y \<longleftrightarrow> x = y"
  by (metis bswap16_bswap16)

lemma bswap32_inj [simp]: "bswap32 x = bswap32 y \<longleftrightarrow> x = y"
  by (metis bswap32_bswap32)

section \<open>Serial number comparison\<close>

definition before :: "u32 \<Rightarrow> u32 \<Rightarrow> bool" where
  "before seq1 seq2 \<longleftrightarrow> sint (seq1 - seq2) < 0"

definition after :: "u32 \<Rightarrow> u32 \<Rightarrow> bool" where
  "after seq2 seq1 \<longleftrightarrow> before seq1 seq2"

lemma before_irrefl [simp]: "\<not> before s s"
  by (simp add: before_def)

lemma after_irrefl [simp]: "\<not> after s s"
  by (simp add: after_def)

lemma before_shift [simp]: "before (a + d) (b + d) \<longleftrightarrow> before a b"
  by (simp add: before_def)

lemma after_shift [simp]: "after (a + d) (b + d) \<longleftrightarrow> after a b"
  by (simp add: after_def)

section \<open>Reads and writes of packet memory\<close>

text \<open>Unaligned loads and stores of the host, least significant byte first.\<close>

definition get16 :: "mem \<Rightarrow> nat \<Rightarrow> u16" where
  "get16 m i = ucast (m i) OR push_bit 8 (ucast (m (i + 1)))"

definition get32 :: "mem \<Rightarrow> nat \<Rightarrow> u32" where
  "get32 m i = ucast (m i) OR push_bit 8 (ucast (m (i + 1))) OR
     push_bit 16 (ucast (m (i + 2))) OR push_bit 24 (ucast (m (i + 3)))"

definition get_be32 :: "mem \<Rightarrow> nat \<Rightarrow> u32" where
  "get_be32 m i = ntohl (get32 m i)"

definition put16 :: "mem \<Rightarrow> nat \<Rightarrow> u16 \<Rightarrow> mem" where
  "put16 m i w = m(i := ucast w, i + 1 := ucast (drop_bit 8 w))"

definition put32 :: "mem \<Rightarrow> nat \<Rightarrow> u32 \<Rightarrow> mem" where
  "put32 m i w = m(i := ucast w, i + 1 := ucast (drop_bit 8 w),
     i + 2 := ucast (drop_bit 16 w), i + 3 := ucast (drop_bit 24 w))"

lemma get16_put16 [simp]: "get16 (put16 m i w) i = w"
  by (rule bit_word_eqI) (auto simp: get16_def put16_def bit_simps)

lemma get32_put32 [simp]: "get32 (put32 m i w) i = w"
proof (rule bit_word_eqI)
  fix n :: nat
  assume "n < LENGTH(32)"
  then consider "n < 8" | "8 \<le> n" "n < 16" | "16 \<le> n" "n < 24" | "24 \<le> n" "n < 32"
    by fastforce
  then show "bit (get32 (put32 m i w) i) n \<longleftrightarrow> bit w n"
    by cases (auto simp: get32_def put32_def bit_simps)
qed

lemma get32_byte0: "ucast (get32 m i) = m i"
  by (rule bit_word_eqI) (auto simp: get32_def bit_simps dest: bit_imp_le_length)

lemma get32_byte1: "ucast (drop_bit 8 (get32 m i)) = m (i + 1)"
  by (rule bit_word_eqI) (auto simp: get32_def bit_simps dest: bit_imp_le_length)

lemma get32_byte2: "ucast (drop_bit 16 (get32 m i)) = m (i + 2)"
  by (rule bit_word_eqI) (auto simp: get32_def bit_simps dest: bit_imp_le_length)

lemma get32_byte3: "ucast (drop_bit 24 (get32 m i)) = m (i + 3)"
  by (rule bit_word_eqI) (auto simp: get32_def bit_simps dest: bit_imp_le_length)

lemmas get32_bytes = get32_byte0 get32_byte1 get32_byte2 get32_byte3

lemma put32_get32 [simp]: "put32 m i (get32 m i) = m"
  using get32_bytes [of m i] by (simp add: put32_def)

lemma put32_other [simp]: "j < i \<or> i + 3 < j \<Longrightarrow> put32 m i w j = m j"
  by (auto simp: put32_def)

lemma put32_put32 [simp]: "put32 (put32 m i v) i w = put32 m i w"
  by (simp add: put32_def fun_eq_iff)

section \<open>Invariants of step relations\<close>

text \<open>The states a machine reaches, and the rule that an invariant of its steps holds in all of them.\<close>

inductive reach :: "('s \<Rightarrow> bool) \<Rightarrow> ('s \<Rightarrow> 's \<Rightarrow> bool) \<Rightarrow> 's \<Rightarrow> bool" for start step where
  reach_start: "start s \<Longrightarrow> reach start step s"
| reach_step: "reach start step s \<Longrightarrow> step s s' \<Longrightarrow> reach start step s'"

locale invariant_of =
  fixes start :: "'s \<Rightarrow> bool" and step :: "'s \<Rightarrow> 's \<Rightarrow> bool" and inv :: "'s \<Rightarrow> bool"
  assumes start_inv: "start s \<Longrightarrow> inv s"
    and step_inv: "step s s' \<Longrightarrow> inv s \<Longrightarrow> inv s'"
begin

lemma reach_inv: "reach start step s \<Longrightarrow> inv s"
  by (induction rule: reach.induct) (auto intro: start_inv step_inv)

lemma reach_run_inv: "reach start step s \<Longrightarrow> step\<^sup>*\<^sup>* s s' \<Longrightarrow> inv s'"
  by (erule rtranclp_induct [of step s s' inv]) (auto intro: reach_inv step_inv)

end

end
