(* ===== verification/Dysco_Kernel.thy ===== *)
theory Dysco_Kernel
  imports Dysco_Prelude
begin

text \<open>
  The protocol headers, the network device and the socket as the module sees them: the
  fields it reads or writes. Multi-byte header fields hold the value the host loads, so a
  network-order field is read through \<open>ntohs\<close> and \<open>ntohl\<close> exactly where the code does.
\<close>

section \<open>Headers, devices and sockets\<close>

record ethhdr =
  h_dest :: mac
  h_source :: mac
  h_proto :: u16

text \<open>\<open>ip_other\<close> stands for the header bytes the module never touches.\<close>

record iphdr =
  ihl :: u4
  tos :: u8
  tot_len :: u16
  protocol :: u8
  ip_check :: u16
  saddr :: u32
  daddr :: u32
  ip_other :: "u8 list"

record tcphdr =
  th_source :: u16
  th_dest :: u16
  th_seq :: u32
  th_ack_seq :: u32
  doff :: u4
  th_flags :: u8
  window :: u16
  th_check :: u16
  th_urg_ptr :: u16

record udphdr =
  uh_source :: u16
  uh_dest :: u16
  uh_len :: u16
  uh_check :: u16

datatype ip_summed = CHECKSUM_NONE | CHECKSUM_UNNECESSARY | CHECKSUM_COMPLETE | CHECKSUM_PARTIAL

record net_device =
  dev_addr :: mac
  ifindex :: int
  dev_net :: nat
  ifa_addresses :: "u32 list"

abbreviation (input) ETH_P_IP :: u16 where "ETH_P_IP \<equiv> 0x0800"
abbreviation (input) IPPROTO_TCP :: u8 where "IPPROTO_TCP \<equiv> 6"
abbreviation (input) IPPROTO_UDP :: u8 where "IPPROTO_UDP \<equiv> 17"
abbreviation (input) TCPHDR_FIN :: u8 where "TCPHDR_FIN \<equiv> 0x01"
abbreviation (input) TCPHDR_SYN :: u8 where "TCPHDR_SYN \<equiv> 0x02"
abbreviation (input) TCPHDR_ACK :: u8 where "TCPHDR_ACK \<equiv> 0x10"

definition tcp_flag_set :: "tcphdr \<Rightarrow> u8 \<Rightarrow> bool" where
  "tcp_flag_set th f \<longleftrightarrow> th_flags th AND f \<noteq> 0"

text \<open>
  The header lengths in bytes, as the \<open>int\<close> expressions of the code compute them.
\<close>

definition ihl_bytes :: "iphdr \<Rightarrow> int" where
  "ihl_bytes iph = uint (ihl iph) * 4"

definition doff_bytes :: "tcphdr \<Rightarrow> int" where
  "doff_bytes th = uint (doff th) * 4"

abbreviation (input) sizeof_tcphdr :: int where "sizeof_tcphdr \<equiv> 20"

record tcp_sock =
  rcv_wscale :: u4
  rcv_nxt :: u32
  copied_seq :: u32
  snd_wnd :: u32
  snd_nxt :: u32
  snd_una :: u32
  max_window :: u32

end
