(* ===== verification/Dysco_Types.thy ===== *)
theory Dysco_Types
  imports Dysco_Kernel
begin

text \<open>
  The data of \<^verbatim>\<open>kernel/common/dysco.h\<close>: sessions, service chains, the control message, the
  output, input and reconfiguration control blocks, the message codes and the states of a
  connection. Field names carry a prefix per struct (\<open>o_\<close>, \<open>i_\<close>, \<open>r_\<close>, \<open>m_\<close>). A pointer is an
  \<open>addr option\<close> with \<open>None\<close> for NULL. List nodes, locks and padding carry no data and are
  left out.
\<close>

section \<open>Control message codes\<close>

datatype dysco_msg =
    DYSCO_REQUEST_LOCK | DYSCO_ACK_LOCK | DYSCO_NACK_LOCK
  | DYSCO_SYN | DYSCO_SYN_ACK | DYSCO_ACK | DYSCO_FIN | DYSCO_FIN_ACK
  | DYSCO_POLICY | DYSCO_REM_POLICY | DYSCO_CLEAR | DYSCO_CLEAR_ALL | DYSCO_BUFFER_PACKET
  | DYSCO_TCP_SPLICE | DYSCO_COPY_STATE | DYSCO_PUT_STATE | DYSCO_STATE_TRANSFERRED
  | DYSCO_ACK_ACK | DYSCO_GET_MAPPING | DYSCO_GET_REC_TIME

definition all_dysco_msgs :: "dysco_msg list" where
  "all_dysco_msgs =
     [DYSCO_REQUEST_LOCK, DYSCO_ACK_LOCK, DYSCO_NACK_LOCK,
      DYSCO_SYN, DYSCO_SYN_ACK, DYSCO_ACK, DYSCO_FIN, DYSCO_FIN_ACK,
      DYSCO_POLICY, DYSCO_REM_POLICY, DYSCO_CLEAR, DYSCO_CLEAR_ALL, DYSCO_BUFFER_PACKET,
      DYSCO_TCP_SPLICE, DYSCO_COPY_STATE, DYSCO_PUT_STATE, DYSCO_STATE_TRANSFERRED,
      DYSCO_ACK_ACK, DYSCO_GET_MAPPING, DYSCO_GET_REC_TIME]"

text \<open>The enumeration counts from 1; a \<open>switch\<close> on a 16-bit code decodes it.\<close>

fun msg_index :: "dysco_msg \<Rightarrow> dysco_msg list \<Rightarrow> nat" where
  "msg_index m [] = 0"
| "msg_index m (x # xs) = (if x = m then 0 else Suc (msg_index m xs))"

definition msg_code :: "dysco_msg \<Rightarrow> u16" where
  "msg_code m = of_nat (msg_index m all_dysco_msgs + 1)"

definition msg_of_code :: "u16 \<Rightarrow> dysco_msg option" where
  "msg_of_code c = (if 1 \<le> unat c \<and> unat c \<le> length all_dysco_msgs
     then Some (all_dysco_msgs ! (unat c - 1)) else None)"

section \<open>States of a connection\<close>

datatype dysco_state =
    DYSCO_ONE_PATH | DYSCO_ADDING_NEW_PATH | DYSCO_ACCEPTING_NEW_PATH
  | DYSCO_INITIALIZING_NEW_PATH | DYSCO_MANAGING_TWO_PATHS | DYSCO_FINISHING_OLD_PATH
  | DYSCO_UNLOCKED | DYSCO_LOCK_PENDING | DYSCO_LOCKED

abbreviation (input) DYSCO_SYN_SENT :: dysco_state where "DYSCO_SYN_SENT \<equiv> DYSCO_ADDING_NEW_PATH"
abbreviation (input) DYSCO_SYN_RECEIVED :: dysco_state where "DYSCO_SYN_RECEIVED \<equiv> DYSCO_ACCEPTING_NEW_PATH"
abbreviation (input) DYSCO_ESTABLISHED :: dysco_state where "DYSCO_ESTABLISHED \<equiv> DYSCO_INITIALIZING_NEW_PATH"

fun state_code :: "dysco_state \<Rightarrow> nat" where
  "state_code DYSCO_ONE_PATH = 0"
| "state_code DYSCO_ADDING_NEW_PATH = 1"
| "state_code DYSCO_ACCEPTING_NEW_PATH = 2"
| "state_code DYSCO_INITIALIZING_NEW_PATH = 3"
| "state_code DYSCO_MANAGING_TWO_PATHS = 4"
| "state_code DYSCO_FINISHING_OLD_PATH = 5"
| "state_code DYSCO_UNLOCKED = 6"
| "state_code DYSCO_LOCK_PENDING = 7"
| "state_code DYSCO_LOCKED = 8"

lemma state_code_inj: "state_code a = state_code b \<longleftrightarrow> a = b"
  by (cases a; cases b) simp_all

text \<open>Connection states compare by their code, as the \<^verbatim>\<open>__u8\<close> field does.\<close>

instantiation dysco_state :: linorder
begin

definition less_eq_dysco_state :: "dysco_state \<Rightarrow> dysco_state \<Rightarrow> bool" where
  "less_eq_dysco_state a b \<longleftrightarrow> state_code a \<le> state_code b"

definition less_dysco_state :: "dysco_state \<Rightarrow> dysco_state \<Rightarrow> bool" where
  "less_dysco_state a b \<longleftrightarrow> state_code a < state_code b"

instance
  by standard (auto simp: less_eq_dysco_state_def less_dysco_state_def state_code_inj)

end

section \<open>Structures\<close>

record tcp_session =
  sip :: u32
  dip :: u32
  sport :: u16
  dport :: u16

record service_chain =
  sc_len :: u16
  sc_pos :: u16
  sc_hops :: "u32 list"

record control_message =
  m_mtype :: u16
  m_super :: tcp_session
  m_leftSS :: tcp_session
  m_rightSS :: tcp_session
  m_leftA :: u32
  m_rightA :: u32
  m_sport :: u16
  m_dport :: u16
  m_leftIseq :: u32
  m_leftIack :: u32
  m_rightIseq :: u32
  m_rightIack :: u32
  m_seqCutoff :: u32
  m_leftIts :: u32
  m_leftItsr :: u32
  m_leftIws :: u16
  m_leftIwsr :: u16
  m_sackOk :: u16
  m_semantic :: u16
  m_srcMB :: u32
  m_dstMB :: u32

record dysco_cb_out =
  o_dcb_in :: "addr option"
  o_super :: tcp_session
  o_sub :: tcp_session
  o_in_iseq :: u32
  o_in_iack :: u32
  o_out_iseq :: u32
  o_out_iack :: u32
  o_ack_delta :: u32
  o_seq_delta :: u32
  o_seq_cutoff :: u32
  o_ack_cutoff :: u32
  o_my_tp :: "addr option"
  o_other_tp :: "addr option"
  o_sc :: "addr option"
  o_other_path :: "addr option"
  o_ts_in :: u32
  o_ts_out :: u32
  o_ts_delta :: u32
  o_tsr_in :: u32
  o_tsr_out :: u32
  o_tsr_delta :: u32
  o_dysco_tag :: u32
  o_ws_in :: u16
  o_ws_out :: u16
  o_ws_delta :: u16
  o_nh_mac :: mac
  o_state :: dysco_state
  o_old_path :: bool
  o_valid_ack_cut :: bool
  o_use_np_seq :: bool
  o_use_np_ack :: bool
  o_state_t :: bool
  o_free_sc :: bool
  o_ack_add :: bool
  o_seq_add :: bool
  o_sack_ok :: bool
  o_ts_ok :: bool
  o_ts_add :: bool
  o_ws_ok :: bool
  o_tsr_add :: bool
  o_tag_ok :: bool
  o_ack_ctr :: u32

record dysco_cb_in =
  i_dcb_out :: "addr option"
  i_sub :: tcp_session
  i_super :: tcp_session
  i_in_iseq :: u32
  i_in_iack :: u32
  i_out_iseq :: u32
  i_out_iack :: u32
  i_ack_delta :: u32
  i_seq_delta :: u32
  i_ts_in :: u32
  i_ts_out :: u32
  i_ts_delta :: u32
  i_tsr_in :: u32
  i_tsr_out :: u32
  i_tsr_delta :: u32
  i_ws_in :: u16
  i_ws_out :: u16
  i_ws_delta :: u16
  i_two_paths :: bool
  i_ack_add :: bool
  i_seq_add :: bool
  i_sack_ok :: bool
  i_ts_ok :: bool
  i_ts_add :: bool
  i_tsr_add :: bool
  i_ws_ok :: bool
  i_skb_iif :: int

record dysco_cb_reconfig =
  r_super :: tcp_session
  r_leftSS :: tcp_session
  r_rightSS :: tcp_session
  r_sub_out :: tcp_session
  r_sub_in :: tcp_session
  r_old_dcb :: "addr option"
  r_new_dcb :: "addr option"
  r_rec_begin :: "u64 \<times> u64"
  r_rec_end :: "u64 \<times> u64"
  r_leftIseq :: u32
  r_leftIack :: u32
  r_leftIts :: u32
  r_leftItsr :: u32
  r_leftIws :: u16
  r_leftIwsr :: u16
  r_nh_mac :: mac
  r_sack_ok :: u8
  r_rec_done :: bool

text \<open>What \<^verbatim>\<open>kzalloc\<close> returns: all fields zero, NULL or false.\<close>

definition zero_session :: tcp_session where
  "zero_session = \<lparr>sip = 0, dip = 0, sport = 0, dport = 0\<rparr>"

definition zero_mac :: mac where
  "zero_mac = replicate 6 0"

definition zero_cb_out :: dysco_cb_out where
  "zero_cb_out = \<lparr>o_dcb_in = None, o_super = zero_session, o_sub = zero_session,
     o_in_iseq = 0, o_in_iack = 0, o_out_iseq = 0, o_out_iack = 0,
     o_ack_delta = 0, o_seq_delta = 0, o_seq_cutoff = 0, o_ack_cutoff = 0,
     o_my_tp = None, o_other_tp = None, o_sc = None, o_other_path = None,
     o_ts_in = 0, o_ts_out = 0, o_ts_delta = 0, o_tsr_in = 0, o_tsr_out = 0, o_tsr_delta = 0,
     o_dysco_tag = 0, o_ws_in = 0, o_ws_out = 0, o_ws_delta = 0, o_nh_mac = zero_mac,
     o_state = DYSCO_ONE_PATH, o_old_path = False, o_valid_ack_cut = False,
     o_use_np_seq = False, o_use_np_ack = False, o_state_t = False, o_free_sc = False,
     o_ack_add = False, o_seq_add = False, o_sack_ok = False, o_ts_ok = False,
     o_ts_add = False, o_ws_ok = False, o_tsr_add = False, o_tag_ok = False, o_ack_ctr = 0\<rparr>"

definition zero_cb_in :: dysco_cb_in where
  "zero_cb_in = \<lparr>i_dcb_out = None, i_sub = zero_session, i_super = zero_session,
     i_in_iseq = 0, i_in_iack = 0, i_out_iseq = 0, i_out_iack = 0,
     i_ack_delta = 0, i_seq_delta = 0,
     i_ts_in = 0, i_ts_out = 0, i_ts_delta = 0, i_tsr_in = 0, i_tsr_out = 0, i_tsr_delta = 0,
     i_ws_in = 0, i_ws_out = 0, i_ws_delta = 0, i_two_paths = False, i_ack_add = False,
     i_seq_add = False, i_sack_ok = False, i_ts_ok = False, i_ts_add = False,
     i_tsr_add = False, i_ws_ok = False, i_skb_iif = 0\<rparr>"

definition rev_session :: "tcp_session \<Rightarrow> tcp_session" where
  "rev_session ss = \<lparr>sip = dip ss, dip = sip ss, sport = dport ss, dport = sport ss\<rparr>"

text \<open>The five-tuple of a packet, as the lookups of the data path build it.\<close>

definition pkt_session :: "iphdr \<Rightarrow> tcphdr \<Rightarrow> tcp_session" where
  "pkt_session ip t = \<lparr>sip = saddr ip, dip = daddr ip, sport = th_source t, dport = th_dest t\<rparr>"

lemma rev_session_rev_session [simp]: "rev_session (rev_session ss) = ss"
  by (simp add: rev_session_def)

lemma rev_session_inj [simp]: "rev_session a = rev_session b \<longleftrightarrow> a = b"
  by (metis rev_session_rev_session)

lemma msg_of_code_msg_code: "msg_of_code (msg_code m) = Some m"
  by (cases m) (simp_all add: msg_of_code_def msg_code_def all_dysco_msgs_def)

abbreviation (input) NOSTATE_TRANSFER :: u16 where "NOSTATE_TRANSFER \<equiv> 0"
abbreviation (input) STATE_TRANSFER :: u16 where "STATE_TRANSFER \<equiv> 1"
abbreviation (input) DYSCO_SERVER_PORT :: u16 where "DYSCO_SERVER_PORT \<equiv> 2016"
abbreviation (input) DYSCO_MANAGEMENT_PORT :: u16 where "DYSCO_MANAGEMENT_PORT \<equiv> 2017"
abbreviation (input) DYSCO_TCP_OPTION :: u8 where "DYSCO_TCP_OPTION \<equiv> 253"
abbreviation (input) DYSCO_TCP_OPTION_LEN :: nat where "DYSCO_TCP_OPTION_LEN \<equiv> 8"
abbreviation (input) ETHER_HDR_LEN :: u32 where "ETHER_HDR_LEN \<equiv> 14"
abbreviation (input) UDP_HDR_LEN :: nat where "UDP_HDR_LEN \<equiv> 8"
abbreviation (input) RUDP_HDR_LEN :: nat where "RUDP_HDR_LEN \<equiv> 9"

text \<open>Sizes of the structures, in bytes: \<open>SC_MEM_SZ\<close> of a chain and of the other structs.\<close>

definition SC_MEM_SZ :: "u16 \<Rightarrow> nat" where
  "SC_MEM_SZ len = 4 + unat len * 4"

abbreviation (input) sizeof_tcp_session :: nat where "sizeof_tcp_session \<equiv> 12"
abbreviation (input) sizeof_control_message :: nat where "sizeof_control_message \<equiv> 94"
abbreviation (input) sizeof_mapping :: nat where "sizeof_mapping \<equiv> 24"

end
