(* ===== verification/Dysco_State.thy ===== *)
theory Dysco_State
  imports Dysco_Types "HOL-Library.AList"
begin

text \<open>
  The packet buffer, the kernel services the module calls (the parameter \<open>kapi\<close>), the state
  of the module with its stores of control blocks, the hash tables, and the small operations
  of \<^verbatim>\<open>dysco.h\<close> on them: lookups and port allocation.
\<close>

section \<open>Socket buffers\<close>

text \<open>
  \<open>tdata\<close> is the buffer memory that follows the fixed part of the TCP header: option
  bytes, then payload, then whatever lies beyond the tail. \<open>tail\<close> is the offset of the
  tail in it and \<open>skb_len\<close> the length field of the buffer. A UDP control packet uses \<open>uh\<close>
  and \<open>cmsg\<close> instead; a packet is read through one of the two views only, chosen by the
  protocol field of the IP header.
\<close>

record skb =
  eth :: ethhdr
  iph :: iphdr
  th :: tcphdr
  tdata :: mem
  tail :: int
  skb_len :: u32
  tailroom :: nat
  uh :: udphdr
  cmsg :: control_message
  ip_summed :: ip_summed
  skb_csum :: u32
  csum_valid :: bool
  skb_iif :: int
  skb_mark :: u32
  skb_dev :: net_device
  pkt_loopback :: bool
  transport_set :: bool

text \<open>
  \<^verbatim>\<open>skb_put\<close> extends the data area at the tail and panics when there is no room;
  \<^verbatim>\<open>skb_trim\<close> cuts the buffer to a length and does nothing when it is already shorter.
\<close>

definition skb_put :: "skb \<Rightarrow> nat \<Rightarrow> (int \<times> skb) option" where
  "skb_put b n = (if n \<le> tailroom b
     then Some (tail b, b\<lparr>tail := tail b + int n, skb_len := skb_len b + of_nat n,
                         tailroom := tailroom b - n\<rparr>)
     else None)"

definition skb_trim :: "skb \<Rightarrow> u32 \<Rightarrow> skb" where
  "skb_trim b n = (if n < skb_len b
     then b\<lparr>tail := tail b - int (unat (skb_len b - n)), skb_len := n,
            tailroom := tailroom b + unat (skb_len b - n)\<rparr>
     else b)"

section \<open>Kernel services\<close>

text \<open>
  Code outside the repository is a parameter: every definition that calls one of these
  services takes a \<open>kapi\<close>; what the module relies on is stated by predicates over it, as
  hypotheses of the theorems that need them.
  \<^item> \<open>k_alloc n\<close>: whether the \<open>n\<close>-th memory allocation succeeds;
  \<^item> \<open>k_junk_in a\<close>, \<open>k_junk_rcb a\<close>, \<open>k_junk_pos a\<close>, \<open>k_junk_tag a\<close>: what the memory at address \<open>a\<close> holds
    when \<^verbatim>\<open>kmalloc\<close> returns it without clearing it; \<open>k_junk_out a\<close>: what a control block
    on the stack holds before it is assigned (\<open>a\<close> is the next free address, to tell calls apart);
  \<^item> \<open>k_csum_fold\<close>, \<open>k_csum_unfold\<close>, \<open>k_ip_fast_csum\<close>, \<open>k_csum_tcp\<close> (the checksum over a TCP
    header, its first \<open>n\<close> following bytes, and a pseudo header sum), \<open>k_csum_bytes\<close>
    (\<^verbatim>\<open>csum_partial\<close> over plain bytes), \<open>k_csum_udp\<close>, \<open>k_csum_tcpudp_nofold\<close>,
    \<open>k_tcp_v4_check\<close>, \<open>k_inet_replace4\<close> and \<open>k_inet_replace2\<close>: the checksum library;
  \<^item> \<open>k_route\<close>: the route lookup; with a route it gives its gateway (0 for a destination that is
    reached directly) and the source address, \<open>None\<close> stands for the error pointer it answers otherwise;
  \<^item> \<open>k_neigh\<close>: the neighbour table; \<open>k_bpf\<close>: running a BPF filter; \<open>k_bpf_create\<close>: compiling one;
  \<^item> \<open>k_established\<close>: the lookup of an established socket;
  \<^item> \<open>k_now\<close>: the clock.
\<close>

record kapi =
  k_alloc :: "nat \<Rightarrow> bool"
  k_junk_in :: "addr \<Rightarrow> dysco_cb_in"
  k_junk_rcb :: "addr \<Rightarrow> dysco_cb_reconfig"
  k_junk_out :: "addr \<Rightarrow> dysco_cb_out"
  k_junk_pos :: "addr \<Rightarrow> u16"
  k_junk_tag :: "nat \<Rightarrow> u32"
  k_csum_fold :: "u32 \<Rightarrow> u16"
  k_csum_unfold :: "u16 \<Rightarrow> u32"
  k_ip_fast_csum :: "iphdr \<Rightarrow> u16"
  k_csum_tcp :: "tcphdr \<Rightarrow> mem \<Rightarrow> int \<Rightarrow> u32 \<Rightarrow> u32"
  k_csum_bytes :: "u8 list \<Rightarrow> u32 \<Rightarrow> u32"
  k_csum_udp :: "udphdr \<Rightarrow> control_message \<Rightarrow> u16 \<Rightarrow> u32 \<Rightarrow> u32"
  k_csum_tcpudp_nofold :: "u32 \<Rightarrow> u32 \<Rightarrow> int \<Rightarrow> u8 \<Rightarrow> u32 \<Rightarrow> u32"
  k_tcp_v4_check :: "int \<Rightarrow> u32 \<Rightarrow> u32 \<Rightarrow> u32 \<Rightarrow> u16"
  k_inet_replace4 :: "u16 \<Rightarrow> ip_summed \<Rightarrow> u32 \<Rightarrow> u32 \<Rightarrow> u32 \<Rightarrow> bool \<Rightarrow> u16 \<times> u32"
  k_inet_replace2 :: "u16 \<Rightarrow> ip_summed \<Rightarrow> u32 \<Rightarrow> u16 \<Rightarrow> u16 \<Rightarrow> bool \<Rightarrow> u16 \<times> u32"
  k_route :: "nat \<Rightarrow> int \<Rightarrow> u32 \<Rightarrow> u8 \<Rightarrow> u32 \<Rightarrow> (u32 \<times> u32) option"
  k_neigh :: "u32 \<Rightarrow> mac option"
  k_bpf :: "nat \<Rightarrow> skb \<Rightarrow> bool"
  k_bpf_create :: "u8 list \<Rightarrow> nat option"
  k_established :: "nat option \<Rightarrow> u32 \<Rightarrow> u16 \<Rightarrow> u32 \<Rightarrow> u16 \<Rightarrow> int \<Rightarrow> addr option"
  k_now :: "nat \<Rightarrow> u64 \<times> u64"

section \<open>Module state\<close>

text \<open>
  \<open>dysco_hashes\<close> holds the tables of one network namespace. A hash table is the list of its
  nodes with the key each had when it was inserted, newest first: an insertion links at the
  head of a bucket without a duplicate check, a lookup returns the first match, a removal
  unlinks one node.
\<close>

type_synonym 'k htable = "('k \<times> addr) list"

definition ht_lookup :: "'k htable \<Rightarrow> 'k \<Rightarrow> addr option" where
  "ht_lookup t k = map_of t k"

definition ht_insert :: "'k \<Rightarrow> addr \<Rightarrow> 'k htable \<Rightarrow> 'k htable" where
  "ht_insert k p t = (k, p) # t"

definition ht_remove :: "'k \<Rightarrow> addr \<Rightarrow> 'k htable \<Rightarrow> 'k htable" where
  "ht_remove k p t = remove1 (k, p) t"

record dysco_policies =
  p_filter :: nat
  p_sc :: addr

record dysco_hashes =
  net_ns :: "nat option"
  nl_sk :: bool
  policies :: "dysco_policies list"
  dysco_tag :: u32
  hash_out :: "tcp_session htable"
  hash_in :: "tcp_session htable"
  hash_pen :: "tcp_session htable"
  hash_pen_tag :: "u32 htable"
  hash_reconfig :: "tcp_session htable"

record rewrite_stats =
  tcp_sack_rewrites :: u64
  tcp_ts_rewrites :: u64
  tcp_tsr_rewrites :: u64

text \<open>
  The state of a step in one namespace: the stores (a freed or never allocated address holds
  \<open>None\<close>), the allocation counters, the tables of the namespace and the module's globals.
\<close>

record dstate =
  outs :: "addr \<rightharpoonup> dysco_cb_out"
  ins :: "addr \<rightharpoonup> dysco_cb_in"
  rcbs :: "addr \<rightharpoonup> dysco_cb_reconfig"
  scs :: "addr \<rightharpoonup> service_chain"
  socks :: "addr \<rightharpoonup> tcp_sock"
  next_addr :: addr
  n_alloc :: nat
  ticks :: nat
  dh :: dysco_hashes
  alloc_ports :: u32
  stats :: rewrite_stats
  dev_measurement :: "int option"

text \<open>
  Every operation that follows a pointer returns an \<open>option\<close>: \<open>None\<close> is a kernel fault, the
  dereference of NULL, of freed memory or of an uninitialised pointer, a double free, or a
  buffer overrun panic.
\<close>

section \<open>Stores\<close>

definition set_out :: "addr \<Rightarrow> dysco_cb_out \<Rightarrow> dstate \<Rightarrow> dstate" where
  "set_out p c s = s\<lparr>outs := (outs s)(p \<mapsto> c)\<rparr>"

definition set_in :: "addr \<Rightarrow> dysco_cb_in \<Rightarrow> dstate \<Rightarrow> dstate" where
  "set_in p c s = s\<lparr>ins := (ins s)(p \<mapsto> c)\<rparr>"

definition set_rcb :: "addr \<Rightarrow> dysco_cb_reconfig \<Rightarrow> dstate \<Rightarrow> dstate" where
  "set_rcb p c s = s\<lparr>rcbs := (rcbs s)(p \<mapsto> c)\<rparr>"

definition set_sc :: "addr \<Rightarrow> service_chain \<Rightarrow> dstate \<Rightarrow> dstate" where
  "set_sc p c s = s\<lparr>scs := (scs s)(p \<mapsto> c)\<rparr>"

definition bump :: "dstate \<Rightarrow> dstate" where
  "bump s = s\<lparr>n_alloc := Suc (n_alloc s), next_addr := Suc (next_addr s)\<rparr>"

text \<open>
  An allocation yields a fresh address, or NULL when the kernel refuses it; the memory is
  given its first contents by the caller's store operation.
\<close>

definition alloc_out :: "kapi \<Rightarrow> dysco_cb_out \<Rightarrow> dstate \<Rightarrow> addr option \<times> dstate" where
  "alloc_out K c s = (if k_alloc K (n_alloc s)
     then (Some (next_addr s), set_out (next_addr s) c (bump s)) else (None, bump s))"

definition alloc_in :: "kapi \<Rightarrow> dysco_cb_in \<Rightarrow> dstate \<Rightarrow> addr option \<times> dstate" where
  "alloc_in K c s = (if k_alloc K (n_alloc s)
     then (Some (next_addr s), set_in (next_addr s) c (bump s)) else (None, bump s))"

definition alloc_rcb :: "kapi \<Rightarrow> dysco_cb_reconfig \<Rightarrow> dstate \<Rightarrow> addr option \<times> dstate" where
  "alloc_rcb K c s = (if k_alloc K (n_alloc s)
     then (Some (next_addr s), set_rcb (next_addr s) c (bump s)) else (None, bump s))"

definition alloc_sc :: "kapi \<Rightarrow> service_chain \<Rightarrow> dstate \<Rightarrow> addr option \<times> dstate" where
  "alloc_sc K c s = (if k_alloc K (n_alloc s)
     then (Some (next_addr s), set_sc (next_addr s) c (bump s)) else (None, bump s))"

definition free_out :: "addr \<Rightarrow> dstate \<Rightarrow> dstate option" where
  "free_out p s = (if outs s p = None then None else Some (s\<lparr>outs := (outs s)(p := None)\<rparr>))"

definition free_in :: "addr \<Rightarrow> dstate \<Rightarrow> dstate option" where
  "free_in p s = (if ins s p = None then None else Some (s\<lparr>ins := (ins s)(p := None)\<rparr>))"

definition free_rcb :: "addr \<Rightarrow> dstate \<Rightarrow> dstate option" where
  "free_rcb p s = (if rcbs s p = None then None else Some (s\<lparr>rcbs := (rcbs s)(p := None)\<rparr>))"

definition free_sc :: "addr \<Rightarrow> dstate \<Rightarrow> dstate option" where
  "free_sc p s = (if scs s p = None then None else Some (s\<lparr>scs := (scs s)(p := None)\<rparr>))"

definition map_dh :: "(dysco_hashes \<Rightarrow> dysco_hashes) \<Rightarrow> dstate \<Rightarrow> dstate" where
  "map_dh f s = s\<lparr>dh := f (dh s)\<rparr>"

text \<open>
  The whole module: the state a step works on, the table of namespaces and the cache of
  prepared tables for new namespaces. \<open>in_ns\<close> runs a step in one namespace.
\<close>

record mstate =
  core :: dstate
  ns_hash_table :: "(nat \<times> dysco_hashes) list"
  ns_hashes :: "dysco_hashes list"
  tot_namespaces :: u32

definition in_ns :: "nat \<Rightarrow> dysco_hashes \<Rightarrow> (dstate \<Rightarrow> ('r \<times> dstate) option) \<Rightarrow> mstate
    \<Rightarrow> ('r \<times> mstate) option" where
  "in_ns ns h f m = do {
     (r, s) \<leftarrow> f ((core m)\<lparr>dh := h\<rparr>);
     Some (r, m\<lparr>core := s, ns_hash_table := AList.update ns (dh s) (ns_hash_table m)\<rparr>)
   }"

end
