(* ===== verification/Dysco_Base.thy ===== *)
theory Dysco_Base
  imports Dysco_State
begin

text \<open>
  The inline functions of \<^verbatim>\<open>dysco.h\<close> that keep state: namespace lookup, the lookup of a
  reversed session and the port allocator, with the two interfaces the other components rely
  on: a table of nodes (\<open>node_table\<close>) and a source of fresh values (\<open>fresh_source\<close>).
\<close>

section \<open>Tables of nodes\<close>

text \<open>
  What a client of a hash table relies on. Nothing is promised about the key just unlinked:
  an older node with the same key may come to light.
\<close>

locale node_table =
  fixes lookup :: "'t \<Rightarrow> 'k \<Rightarrow> 'v option"
    and link :: "'k \<Rightarrow> 'v \<Rightarrow> 't \<Rightarrow> 't"
    and unlink :: "'k \<Rightarrow> 'v \<Rightarrow> 't \<Rightarrow> 't"
    and nodes :: "'t \<Rightarrow> 'v set"
  assumes lookup_link_same: "lookup (link k p t) k = Some p"
    and lookup_link_other: "k \<noteq> k' \<Longrightarrow> lookup (link k p t) k' = lookup t k'"
    and lookup_unlink_other: "k \<noteq> k' \<Longrightarrow> lookup (unlink k p t) k' = lookup t k'"
    and unlink_link: "unlink k p (link k p t) = t"
    and lookup_nodes: "lookup t k = Some p \<Longrightarrow> p \<in> nodes t"
    and nodes_link: "nodes (link k p t) = insert p (nodes t)"
    and nodes_unlink: "nodes (unlink k p t) \<subseteq> nodes t"
begin

lemma lookup_link: "lookup (link k p t) k' = (if k = k' then Some p else lookup t k')"
  by (simp add: lookup_link_same lookup_link_other)

lemma valid_link: "V p \<Longrightarrow> \<forall>q \<in> nodes t. V q \<Longrightarrow> \<forall>q \<in> nodes (link k p t). V q"
  by (simp add: nodes_link)

lemma valid_unlink: "\<forall>q \<in> nodes t. V q \<Longrightarrow> \<forall>q \<in> nodes (unlink k p t). V q"
  using nodes_unlink by blast

lemma valid_lookup: "\<forall>q \<in> nodes t. V q \<Longrightarrow> lookup t k = Some p \<Longrightarrow> V p"
  using lookup_nodes by blast

lemma link_unlink_invisible: "lookup (unlink k p (link k p t)) k' = lookup t k'"
  by (simp add: unlink_link)

end

definition ht_nodes :: "'k htable \<Rightarrow> addr set" where
  "ht_nodes t = snd ` set t"

interpretation tbl: node_table ht_lookup ht_insert ht_remove ht_nodes
proof unfold_locales
  fix t :: "'a htable" and k k' p
  show "ht_lookup (ht_insert k p t) k = Some p"
    by (simp add: ht_lookup_def ht_insert_def)
  show "k \<noteq> k' \<Longrightarrow> ht_lookup (ht_insert k p t) k' = ht_lookup t k'"
    by (simp add: ht_lookup_def ht_insert_def)
  show "k \<noteq> k' \<Longrightarrow> ht_lookup (ht_remove k p t) k' = ht_lookup t k'"
    by (induction t) (auto simp: ht_lookup_def ht_remove_def)
  show "ht_remove k p (ht_insert k p t) = t"
    by (simp add: ht_remove_def ht_insert_def)
  show "ht_lookup t k = Some p \<Longrightarrow> p \<in> ht_nodes t"
    by (force simp: ht_lookup_def ht_nodes_def dest: map_of_SomeD)
  show "ht_nodes (ht_insert k p t) = insert p (ht_nodes t)"
    by (simp add: ht_nodes_def ht_insert_def)
  show "ht_nodes (ht_remove k p t) \<subseteq> ht_nodes t"
    using set_remove1_subset by (force simp: ht_nodes_def ht_remove_def)
qed

section \<open>Fresh values\<close>

text \<open>
  A counter that loses one unit of rank per draw, and whose output determines the rank,
  never repeats an output while rank is left.
\<close>

locale fresh_source =
  fixes draw :: "'s \<Rightarrow> 'o \<times> 's"
    and rank :: "'s \<Rightarrow> nat"
    and ok :: "'s \<Rightarrow> bool"
  assumes ok_draw: "ok s \<Longrightarrow> 0 < rank s \<Longrightarrow> ok (snd (draw s))"
    and rank_draw: "ok s \<Longrightarrow> 0 < rank s \<Longrightarrow> rank (snd (draw s)) = rank s - 1"
    and draw_inj: "ok s \<Longrightarrow> ok t \<Longrightarrow> 0 < rank s \<Longrightarrow> 0 < rank t \<Longrightarrow>
        fst (draw s) = fst (draw t) \<Longrightarrow> rank s = rank t"
begin

primrec draws :: "nat \<Rightarrow> 's \<Rightarrow> 'o list" where
  "draws 0 s = []"
| "draws (Suc n) s = fst (draw s) # draws n (snd (draw s))"

lemma draws_later:
  "ok s \<Longrightarrow> n \<le> rank s \<Longrightarrow> x \<in> set (draws n s) \<Longrightarrow>
     \<exists>t. ok t \<and> 0 < rank t \<and> rank t \<le> rank s \<and> x = fst (draw t)"
proof (induction n arbitrary: s)
  case 0
  then show ?case by simp
next
  case (Suc n)
  have pos: "0 < rank s" using Suc.prems by simp
  show ?case
  proof (cases "x = fst (draw s)")
    case True
    with Suc.prems pos show ?thesis by blast
  next
    case False
    with Suc.prems have "x \<in> set (draws n (snd (draw s)))" by simp
    with Suc.IH [of "snd (draw s)"] Suc.prems pos ok_draw rank_draw show ?thesis
      by fastforce
  qed
qed

lemma distinct_draws: "ok s \<Longrightarrow> n \<le> rank s \<Longrightarrow> distinct (draws n s)"
proof (induction n arbitrary: s)
  case 0
  then show ?case by simp
next
  case (Suc n)
  have pos: "0 < rank s" and n: "n \<le> rank (snd (draw s))" and ok': "ok (snd (draw s))"
    using Suc.prems rank_draw ok_draw by auto
  have "fst (draw s) \<notin> set (draws n (snd (draw s)))"
  proof
    assume "fst (draw s) \<in> set (draws n (snd (draw s)))"
    from draws_later [OF ok' n this] obtain t where
      "ok t" "0 < rank t" "rank t \<le> rank (snd (draw s))" "fst (draw s) = fst (draw t)"
      by blast
    with draw_inj [OF Suc.prems(1) \<open>ok t\<close> pos] rank_draw [OF Suc.prems(1) pos] pos
    show False by simp
  qed
  with Suc.IH [OF ok' n] show ?case by simp
qed

end

section \<open>Port allocation\<close>

definition allocate_neighbor_port :: "dstate \<Rightarrow> u16" where
  "allocate_neighbor_port s = htons (ucast (drop_bit 16 (alloc_ports s)))"

definition allocate_local_port :: "dstate \<Rightarrow> u16 \<times> dstate" where
  "allocate_local_port s = (
     let lport = ucast (alloc_ports s AND 0xffff) :: u16;
         ap = alloc_ports s - 1
     in (htons lport,
         s\<lparr>alloc_ports := (if lport = 10001 then ap - 10001 else ap)\<rparr>))"

text \<open>The callers draw the two ports of a subsession one after the other.\<close>

definition alloc_port_pair :: "dstate \<Rightarrow> (u16 \<times> u16) \<times> dstate" where
  "alloc_port_pair s = (let (l, s') = allocate_local_port s
     in ((l, allocate_neighbor_port s'), s'))"

definition port_hi :: "dstate \<Rightarrow> nat" where
  "port_hi s = unat (alloc_ports s) div 65536"

definition port_lo :: "dstate \<Rightarrow> nat" where
  "port_lo s = unat (alloc_ports s) mod 65536"

definition ports_ok :: "dstate \<Rightarrow> bool" where
  "ports_ok s \<longleftrightarrow> 10001 \<le> port_lo s"

definition ports_left :: "dstate \<Rightarrow> nat" where
  "ports_left s = port_hi s * 55535 + (port_lo s - 10001)"

text \<open>The value \<open>alloc_ports\<close> starts with: destination ports from 10000 down, source ports from 65535.\<close>

definition initial_ports :: u32 where
  "initial_ports = 0x2710ffff"

lemma low_mask16: "(0xffff::u32) = mask 16" by (simp add: mask_eq_exp_minus_1)

lemma unat_and_ffff: "unat ((x::u32) AND 0xffff) = unat x mod 65536"
  unfolding low_mask16 by (simp add: unsigned_take_bit_eq take_bit_eq_mod unat_mod_distrib flip: take_bit_eq_mask)

lemma unat_u16_of_u32: "unat (ucast (x::u32) :: u16) = unat x mod 65536"
  by (simp add: unsigned_ucast_eq take_bit_eq_mod)

lemma unat_hi: "unat (ucast (drop_bit 16 (x::u32)) :: u16) = unat x div 65536"
proof -
  have "unat x < 2^32" using unsigned_less[of x] by simp
  then have "unat x div 65536 < 65536" by (simp add: div_less_iff_less_mult)
  then show ?thesis by (simp add: unat_u16_of_u32 unat_drop_bit_eq drop_bit_eq_div unat_div_distrib)
qed

lemma local_port: "unat (ntohs (fst (allocate_local_port s))) = port_lo s"
  by (simp add: allocate_local_port_def port_lo_def Let_def unat_u16_of_u32 unat_and_ffff)

lemma neighbor_port: "unat (ntohs (allocate_neighbor_port s)) = port_hi s"
  by (simp add: allocate_neighbor_port_def port_hi_def unat_hi)


lemma lport_eq: "(ucast (alloc_ports s AND 0xffff) :: u16) = 10001 \<longleftrightarrow> port_lo s = 10001"
proof -
  have "(ucast (alloc_ports s AND 0xffff) :: u16) = 10001 \<longleftrightarrow> unat (ucast (alloc_ports s AND 0xffff) :: u16) = unat (10001::u16)"
    by (simp only: word_unat_eq_iff)
  then show ?thesis by (simp add: port_lo_def unat_u16_of_u32 unat_and_ffff)
qed

lemma port_split: "unat (alloc_ports s) = port_hi s * 65536 + port_lo s"
  by (simp add: port_hi_def port_lo_def)

lemma alloc_ports_next: "ports_ok s \<Longrightarrow> 0 < ports_left s \<Longrightarrow> 
   unat (alloc_ports (snd (allocate_local_port s))) = 
   (if port_lo s = 10001 then unat (alloc_ports s) - 10002 else unat (alloc_ports s) - 1)"
proof -
  assume a: "ports_ok s" "0 < ports_left s"
  let ?a = "alloc_ports s"
  have lo: "10001 \<le> port_lo s" using a by (simp add: ports_ok_def)
  have 1: "1 \<le> unat ?a" using lo by (simp add: port_split)
  have 2: "10002 \<le> unat ?a" if "port_lo s = 10001"
    using a(2) that by (simp add: ports_left_def port_split)
  have s1: "unat (?a - 1) = unat ?a - 1" using 1 by (simp add: unat_sub word_le_nat_alt)
  have s2: "unat (?a - 1 - 10001) = unat ?a - 10002" if "port_lo s = 10001"
    using 2[OF that] s1 by (simp add: unat_sub word_le_nat_alt)
  show ?thesis using s1 s2 lport_eq[of s]
    by (simp add: allocate_local_port_def Let_def)
qed

lemma port_next: assumes "ports_ok s" "0 < ports_left s"
  shows "port_lo (snd (allocate_local_port s)) = (if port_lo s = 10001 then 65535 else port_lo s - 1)"
    "port_hi (snd (allocate_local_port s)) = (if port_lo s = 10001 then port_hi s - 1 else port_hi s)"
proof -
  let ?t = "snd (allocate_local_port s)"
  have lo: "10001 \<le> port_lo s" "port_lo s < 65536" using assms by (auto simp: ports_ok_def port_lo_def)
  have r: "unat (alloc_ports ?t) = (if port_lo s = 10001 then (port_hi s - 1) * 65536 + 65535 else port_hi s * 65536 + (port_lo s - 1))"
  proof (cases "port_lo s = 10001")
    case True
    then have "0 < port_hi s" using assms(2) by (simp add: ports_left_def)
    then show ?thesis using alloc_ports_next[OF assms] True by (cases "port_hi s") (simp_all add: port_split)
  next
    case False then show ?thesis using alloc_ports_next[OF assms] lo by (simp add: port_split)
  qed
  show "port_lo ?t = (if port_lo s = 10001 then 65535 else port_lo s - 1)"
  proof -
    have "port_lo s - 1 < 65536" using lo by simp
    then have "(port_hi s * 65536 + (port_lo s - 1)) mod 65536 = port_lo s - 1"
      by (simp only: mod_mult_self3 mod_less)
    then show ?thesis unfolding port_lo_def[of ?t] r by simp
  qed
  show "port_hi ?t = (if port_lo s = 10001 then port_hi s - 1 else port_hi s)"
  proof -
    have "port_lo s - 1 < 65536" using lo by simp
    then have "(port_hi s * 65536 + (port_lo s - 1)) div 65536 = port_hi s"
      by (simp only: div_mult_self3 div_less)
    then show ?thesis unfolding port_hi_def[of ?t] r by simp
  qed
qed

lemma ports_step: assumes "ports_ok s" "0 < ports_left s"
  shows "ports_ok (snd (allocate_local_port s))" "ports_left (snd (allocate_local_port s)) = ports_left s - 1"
proof -
  have lo: "10001 \<le> port_lo s" "port_lo s < 65536" using assms by (auto simp: ports_ok_def port_lo_def)
  show "ports_ok (snd (allocate_local_port s))" using port_next(1)[OF assms] lo by (auto simp: ports_ok_def)
  have h: "port_lo s = 10001 \<Longrightarrow> 0 < port_hi s" using assms(2) by (simp add: ports_left_def)
  show "ports_left (snd (allocate_local_port s)) = ports_left s - 1"
    using port_next[OF assms] lo h by (cases "port_hi s") (auto simp: ports_left_def)
qed

lemma port_pair_values: assumes "ports_ok s" "0 < ports_left s"
  shows "unat (ntohs (fst (fst (alloc_port_pair s)))) = port_lo s"
   "unat (ntohs (snd (fst (alloc_port_pair s)))) = (ports_left s - 1) div 55535"
proof -
  have lo: "10001 \<le> port_lo s" "port_lo s < 65536" using assms by (auto simp: ports_ok_def port_lo_def)
  show "unat (ntohs (fst (fst (alloc_port_pair s)))) = port_lo s"
    by (simp add: alloc_port_pair_def split_beta local_port)
  have h: "port_lo s = 10001 \<Longrightarrow> 0 < port_hi s" using assms(2) by (simp add: ports_left_def)
  have "unat (ntohs (snd (fst (alloc_port_pair s)))) = port_hi (snd (allocate_local_port s))"
    by (simp add: alloc_port_pair_def split_beta neighbor_port)
  also have "\<dots> = (ports_left s - 1) div 55535"
  proof (cases "port_lo s = 10001")
    case True
    then obtain h where "port_hi s = Suc h" using h by (cases "port_hi s") auto
    then show ?thesis using True port_next(2)[OF assms] by (simp add: ports_left_def)
  next
    case False
    have "ports_left s - 1 = port_hi s * 55535 + (port_lo s - 10002)" using lo False by (simp add: ports_left_def)
    moreover have "port_lo s - 10002 < 55535" using lo by simp
    ultimately show ?thesis using False port_next(2)[OF assms] by simp
  qed
  finally show "unat (ntohs (snd (fst (alloc_port_pair s)))) = (ports_left s - 1) div 55535" .
qed

lemma port_pair_determines_left: assumes "ports_ok s" "0 < ports_left s" "ports_ok t" "0 < ports_left t"
  "fst (alloc_port_pair s) = fst (alloc_port_pair t)" shows "ports_left s = ports_left t"
proof -
  let ?v = "ports_left s - 1" and ?w = "ports_left t - 1"
  have l: "port_lo s = port_lo t" and d: "?v div 55535 = ?w div 55535"
    using port_pair_values[OF assms(1,2)] port_pair_values[OF assms(3,4)] assms(5) by simp_all
  have lo: "10001 \<le> port_lo s" "port_lo s < 65536" "10001 \<le> port_lo t" 
   using assms by (auto simp: ports_ok_def port_lo_def)
  have m: "ports_left s mod 55535 = port_lo s - 10001" "ports_left t mod 55535 = port_lo t - 10001"
    unfolding ports_left_def using lo l by (simp_all only: mod_mult_self3 mod_less)
  from m l have mm: "ports_left s mod 55535 = ports_left t mod 55535" by simp
  obtain v w where s: "ports_left s = Suc v" "ports_left t = Suc w"
    using assms(2,4) gr0_implies_Suc by metis
  have "v mod 55535 = w mod 55535"
    using mm unfolding s by (auto simp: mod_Suc split: if_splits)
  moreover have "v div 55535 = w div 55535" using d s by simp
  ultimately have "v = w" by (metis div_mult_mod_eq)
  then show ?thesis using s by simp
qed

interpretation ports: fresh_source alloc_port_pair ports_left ports_ok
proof unfold_locales
  fix s t :: dstate
  show "ports_ok s \<Longrightarrow> 0 < ports_left s \<Longrightarrow> ports_ok (snd (alloc_port_pair s))"
    using ports_step(1) by (simp add: alloc_port_pair_def split_beta)
  show "ports_ok s \<Longrightarrow> 0 < ports_left s \<Longrightarrow> ports_left (snd (alloc_port_pair s)) = ports_left s - 1"
    using ports_step(2) by (simp add: alloc_port_pair_def split_beta)
  show "ports_ok s \<Longrightarrow> ports_ok t \<Longrightarrow> 0 < ports_left s \<Longrightarrow> 0 < ports_left t \<Longrightarrow>
      fst (alloc_port_pair s) = fst (alloc_port_pair t) \<Longrightarrow> ports_left s = ports_left t"
    by (rule port_pair_determines_left)
qed

text \<open>The port pairs of the next \<open>n\<close> subsessions.\<close>

primrec port_pairs :: "nat \<Rightarrow> dstate \<Rightarrow> (u16 \<times> u16) list" where
  "port_pairs 0 s = []"
| "port_pairs (Suc n) s = fst (alloc_port_pair s) # port_pairs n (snd (alloc_port_pair s))"

lemma port_pairs_draws: "port_pairs n s = ports.draws n s"
  by (induction n arbitrary: s) simp_all

lemma local_port_above: "ports_ok s \<Longrightarrow> 0 < ports_left s \<Longrightarrow>
    10000 < unat (ntohs (fst (fst (alloc_port_pair s))))"
  using port_pair_values(1) [of s] by (simp add: ports_ok_def)

lemma initial_ports_left:
  "alloc_ports s = initial_ports \<Longrightarrow> ports_ok s \<and> ports_left s = 555405534"
  by (simp add: ports_ok_def ports_left_def port_hi_def port_lo_def initial_ports_def)

section \<open>Namespaces and reversed lookup\<close>

definition dysco_get_hashes :: "mstate \<Rightarrow> nat \<Rightarrow> dysco_hashes option" where
  "dysco_get_hashes m ns = map_of (ns_hash_table m) ns"

text \<open>The older version walks the list of namespaces and stops at the first match.\<close>

fun dysco_get_hashes_list :: "dysco_hashes list \<Rightarrow> nat \<Rightarrow> dysco_hashes option" where
  "dysco_get_hashes_list [] ns = None"
| "dysco_get_hashes_list (h # hs) ns =
     (if net_ns h = Some ns then Some h else dysco_get_hashes_list hs ns)"

definition look_out :: "tcp_session \<Rightarrow> dstate \<Rightarrow> addr option" where
  "look_out k s = ht_lookup (hash_out (dh s)) k"

definition look_in :: "tcp_session \<Rightarrow> dstate \<Rightarrow> addr option" where
  "look_in k s = ht_lookup (hash_in (dh s)) k"

text \<open>
  A lookup hashes the key and compares it with the key field each node of the bucket holds
  now. Only the keys of pending blocks change while a block is linked
  (\<open>dysco_update_five_tuple\<close>): such a block is in the bucket of its old key and no longer
  matches it.
\<close>

definition key_current :: "dstate \<Rightarrow> tcp_session \<times> addr \<Rightarrow> bool" where
  "key_current s n = (case outs s (snd n) of Some c \<Rightarrow> o_super c = fst n | None \<Rightarrow> True)"

definition look_pen :: "tcp_session \<Rightarrow> dstate \<Rightarrow> addr option" where
  "look_pen k s = ht_lookup (filter (key_current s) (hash_pen (dh s))) k"

definition look_pen_tag :: "u32 \<Rightarrow> dstate \<Rightarrow> addr option" where
  "look_pen_tag k s = ht_lookup (hash_pen_tag (dh s)) k"

definition look_reconfig :: "tcp_session \<Rightarrow> dstate \<Rightarrow> addr option" where
  "look_reconfig k s = ht_lookup (hash_reconfig (dh s)) k"

definition link_out :: "tcp_session \<Rightarrow> addr \<Rightarrow> dstate \<Rightarrow> dstate" where
  "link_out k p = map_dh (\<lambda>h. h\<lparr>hash_out := ht_insert k p (hash_out h)\<rparr>)"

definition link_in :: "tcp_session \<Rightarrow> addr \<Rightarrow> dstate \<Rightarrow> dstate" where
  "link_in k p = map_dh (\<lambda>h. h\<lparr>hash_in := ht_insert k p (hash_in h)\<rparr>)"

definition link_pen :: "tcp_session \<Rightarrow> addr \<Rightarrow> dstate \<Rightarrow> dstate" where
  "link_pen k p = map_dh (\<lambda>h. h\<lparr>hash_pen := ht_insert k p (hash_pen h)\<rparr>)"

definition link_pen_tag :: "u32 \<Rightarrow> addr \<Rightarrow> dstate \<Rightarrow> dstate" where
  "link_pen_tag k p = map_dh (\<lambda>h. h\<lparr>hash_pen_tag := ht_insert k p (hash_pen_tag h)\<rparr>)"

definition link_reconfig :: "tcp_session \<Rightarrow> addr \<Rightarrow> dstate \<Rightarrow> dstate" where
  "link_reconfig k p = map_dh (\<lambda>h. h\<lparr>hash_reconfig := ht_insert k p (hash_reconfig h)\<rparr>)"

definition unlink_pen :: "tcp_session \<Rightarrow> addr \<Rightarrow> dstate \<Rightarrow> dstate" where
  "unlink_pen k p = map_dh (\<lambda>h. h\<lparr>hash_pen := ht_remove k p (hash_pen h)\<rparr>)"

definition unlink_pen_tag :: "u32 \<Rightarrow> addr \<Rightarrow> dstate \<Rightarrow> dstate" where
  "unlink_pen_tag k p = map_dh (\<lambda>h. h\<lparr>hash_pen_tag := ht_remove k p (hash_pen_tag h)\<rparr>)"

definition unlink_reconfig :: "tcp_session \<Rightarrow> addr \<Rightarrow> dstate \<Rightarrow> dstate" where
  "unlink_reconfig k p = map_dh (\<lambda>h. h\<lparr>hash_reconfig := ht_remove k p (hash_reconfig h)\<rparr>)"

definition dysco_lookup_out_rev :: "tcp_session \<Rightarrow> dstate \<Rightarrow> addr option" where
  "dysco_lookup_out_rev ss s =
     look_out \<lparr>sip = dip ss, dip = sip ss, sport = dport ss, dport = sport ss\<rparr> s"

section \<open>Reads after writes\<close>

text \<open>
  The tables and the stores do not interfere; these equations resolve every read of a state
  that a sequence of store and table operations built.
\<close>

lemmas store_defs = set_out_def set_in_def set_rcb_def set_sc_def bump_def map_dh_def
lemmas look_defs = look_out_def look_in_def look_pen_def look_pen_tag_def look_reconfig_def
lemmas link_defs = link_out_def link_in_def link_pen_def link_pen_tag_def link_reconfig_def
  unlink_pen_def unlink_pen_tag_def unlink_reconfig_def

lemma outs_set [simp]:
  "outs (set_out p c s) = (outs s)(p \<mapsto> c)" "outs (set_in p i s) = outs s"
  "outs (set_rcb p r s) = outs s" "outs (set_sc p x s) = outs s" "outs (bump s) = outs s"
  "outs (map_dh f s) = outs s"
  by (simp_all add: store_defs)

lemma ins_set [simp]:
  "ins (set_in p i s) = (ins s)(p \<mapsto> i)" "ins (set_out p c s) = ins s"
  "ins (set_rcb p r s) = ins s" "ins (set_sc p x s) = ins s" "ins (bump s) = ins s"
  "ins (map_dh f s) = ins s"
  by (simp_all add: store_defs)

lemma rcbs_set [simp]:
  "rcbs (set_rcb p r s) = (rcbs s)(p \<mapsto> r)" "rcbs (set_out p c s) = rcbs s"
  "rcbs (set_in p i s) = rcbs s" "rcbs (set_sc p x s) = rcbs s" "rcbs (bump s) = rcbs s"
  "rcbs (map_dh f s) = rcbs s"
  by (simp_all add: store_defs)

lemma scs_set [simp]:
  "scs (set_sc p x s) = (scs s)(p \<mapsto> x)" "scs (set_out p c s) = scs s"
  "scs (set_in p i s) = scs s" "scs (set_rcb p r s) = scs s" "scs (bump s) = scs s"
  "scs (map_dh f s) = scs s"
  by (simp_all add: store_defs)

lemma dh_set [simp]:
  "dh (set_out p c s) = dh s" "dh (set_in p i s) = dh s" "dh (set_rcb p r s) = dh s"
  "dh (set_sc p x s) = dh s" "dh (bump s) = dh s" "dh (map_dh f s) = f (dh s)"
  by (simp_all add: store_defs)

lemma counters_set [simp]:
  "next_addr (set_out p c s) = next_addr s" "next_addr (set_in p i s) = next_addr s"
  "next_addr (set_rcb p r s) = next_addr s" "next_addr (set_sc p x s) = next_addr s"
  "next_addr (bump s) = Suc (next_addr s)" "next_addr (map_dh f s) = next_addr s"
  "n_alloc (set_out p c s) = n_alloc s" "n_alloc (set_in p i s) = n_alloc s"
  "n_alloc (set_rcb p r s) = n_alloc s" "n_alloc (set_sc p x s) = n_alloc s"
  "n_alloc (bump s) = Suc (n_alloc s)" "n_alloc (map_dh f s) = n_alloc s"
  by (simp_all add: store_defs)

lemma ports_set [simp]:
  "alloc_ports (set_out p c s) = alloc_ports s" "alloc_ports (set_in p i s) = alloc_ports s"
  "alloc_ports (set_rcb p r s) = alloc_ports s" "alloc_ports (set_sc p x s) = alloc_ports s"
  "alloc_ports (bump s) = alloc_ports s" "alloc_ports (map_dh f s) = alloc_ports s"
  by (simp_all add: store_defs)

lemma socks_set [simp]:
  "socks (set_out p c s) = socks s" "socks (set_in p i s) = socks s" "socks (set_rcb p r s) = socks s"
  "socks (set_sc p x s) = socks s" "socks (bump s) = socks s" "socks (map_dh f s) = socks s"
  by (simp_all add: store_defs)

lemma link_stores [simp]:
  "outs (link_out k p s) = outs s" "ins (link_out k p s) = ins s" "rcbs (link_out k p s) = rcbs s"
  "scs (link_out k p s) = scs s" "socks (link_out k p s) = socks s" "next_addr (link_out k p s) = next_addr s"
  "n_alloc (link_out k p s) = n_alloc s" "alloc_ports (link_out k p s) = alloc_ports s"
  "outs (link_in k p s) = outs s" "ins (link_in k p s) = ins s" "rcbs (link_in k p s) = rcbs s"
  "scs (link_in k p s) = scs s" "socks (link_in k p s) = socks s" "next_addr (link_in k p s) = next_addr s"
  "n_alloc (link_in k p s) = n_alloc s" "alloc_ports (link_in k p s) = alloc_ports s"
  "outs (link_pen k p s) = outs s" "ins (link_pen k p s) = ins s" "rcbs (link_pen k p s) = rcbs s"
  "scs (link_pen k p s) = scs s" "socks (link_pen k p s) = socks s" "next_addr (link_pen k p s) = next_addr s"
  "n_alloc (link_pen k p s) = n_alloc s" "alloc_ports (link_pen k p s) = alloc_ports s"
  "outs (link_pen_tag t p s) = outs s" "ins (link_pen_tag t p s) = ins s" "rcbs (link_pen_tag t p s) = rcbs s"
  "scs (link_pen_tag t p s) = scs s" "socks (link_pen_tag t p s) = socks s" "next_addr (link_pen_tag t p s) = next_addr s"
  "n_alloc (link_pen_tag t p s) = n_alloc s" "alloc_ports (link_pen_tag t p s) = alloc_ports s"
  "outs (link_reconfig k p s) = outs s" "ins (link_reconfig k p s) = ins s" "rcbs (link_reconfig k p s) = rcbs s"
  "scs (link_reconfig k p s) = scs s" "socks (link_reconfig k p s) = socks s" "next_addr (link_reconfig k p s) = next_addr s"
  "n_alloc (link_reconfig k p s) = n_alloc s" "alloc_ports (link_reconfig k p s) = alloc_ports s"
  "outs (unlink_pen k p s) = outs s" "ins (unlink_pen k p s) = ins s" "rcbs (unlink_pen k p s) = rcbs s"
  "scs (unlink_pen k p s) = scs s" "socks (unlink_pen k p s) = socks s" "next_addr (unlink_pen k p s) = next_addr s"
  "n_alloc (unlink_pen k p s) = n_alloc s" "alloc_ports (unlink_pen k p s) = alloc_ports s"
  "outs (unlink_pen_tag t p s) = outs s" "ins (unlink_pen_tag t p s) = ins s" "rcbs (unlink_pen_tag t p s) = rcbs s"
  "scs (unlink_pen_tag t p s) = scs s" "socks (unlink_pen_tag t p s) = socks s" "next_addr (unlink_pen_tag t p s) = next_addr s"
  "n_alloc (unlink_pen_tag t p s) = n_alloc s" "alloc_ports (unlink_pen_tag t p s) = alloc_ports s"
  "outs (unlink_reconfig k p s) = outs s" "ins (unlink_reconfig k p s) = ins s" "rcbs (unlink_reconfig k p s) = rcbs s"
  "scs (unlink_reconfig k p s) = scs s" "socks (unlink_reconfig k p s) = socks s" "next_addr (unlink_reconfig k p s) = next_addr s"
  "n_alloc (unlink_reconfig k p s) = n_alloc s" "alloc_ports (unlink_reconfig k p s) = alloc_ports s"
  by (simp_all add: link_defs store_defs)

text \<open>Each table operation changes one table.\<close>

lemma link_tables [simp]:
  "hash_out (dh (link_out k p s)) = ht_insert k p (hash_out (dh s))"
  "hash_in (dh (link_out k p s)) = hash_in (dh s)"
  "hash_pen (dh (link_out k p s)) = hash_pen (dh s)"
  "hash_pen_tag (dh (link_out k p s)) = hash_pen_tag (dh s)"
  "hash_reconfig (dh (link_out k p s)) = hash_reconfig (dh s)"
  "policies (dh (link_out k p s)) = policies (dh s)"
  "hash_out (dh (link_in k p s)) = hash_out (dh s)"
  "hash_in (dh (link_in k p s)) = ht_insert k p (hash_in (dh s))"
  "hash_pen (dh (link_in k p s)) = hash_pen (dh s)"
  "hash_pen_tag (dh (link_in k p s)) = hash_pen_tag (dh s)"
  "hash_reconfig (dh (link_in k p s)) = hash_reconfig (dh s)"
  "policies (dh (link_in k p s)) = policies (dh s)"
  "hash_out (dh (link_pen k p s)) = hash_out (dh s)"
  "hash_in (dh (link_pen k p s)) = hash_in (dh s)"
  "hash_pen (dh (link_pen k p s)) = ht_insert k p (hash_pen (dh s))"
  "hash_pen_tag (dh (link_pen k p s)) = hash_pen_tag (dh s)"
  "hash_reconfig (dh (link_pen k p s)) = hash_reconfig (dh s)"
  "policies (dh (link_pen k p s)) = policies (dh s)"
  "hash_out (dh (link_pen_tag t p s)) = hash_out (dh s)"
  "hash_in (dh (link_pen_tag t p s)) = hash_in (dh s)"
  "hash_pen (dh (link_pen_tag t p s)) = hash_pen (dh s)"
  "hash_pen_tag (dh (link_pen_tag t p s)) = ht_insert t p (hash_pen_tag (dh s))"
  "hash_reconfig (dh (link_pen_tag t p s)) = hash_reconfig (dh s)"
  "policies (dh (link_pen_tag t p s)) = policies (dh s)"
  "hash_out (dh (link_reconfig k p s)) = hash_out (dh s)"
  "hash_in (dh (link_reconfig k p s)) = hash_in (dh s)"
  "hash_pen (dh (link_reconfig k p s)) = hash_pen (dh s)"
  "hash_pen_tag (dh (link_reconfig k p s)) = hash_pen_tag (dh s)"
  "hash_reconfig (dh (link_reconfig k p s)) = ht_insert k p (hash_reconfig (dh s))"
  "policies (dh (link_reconfig k p s)) = policies (dh s)"
  "hash_out (dh (unlink_pen k p s)) = hash_out (dh s)"
  "hash_in (dh (unlink_pen k p s)) = hash_in (dh s)"
  "hash_pen (dh (unlink_pen k p s)) = ht_remove k p (hash_pen (dh s))"
  "hash_pen_tag (dh (unlink_pen k p s)) = hash_pen_tag (dh s)"
  "hash_reconfig (dh (unlink_pen k p s)) = hash_reconfig (dh s)"
  "policies (dh (unlink_pen k p s)) = policies (dh s)"
  "hash_out (dh (unlink_pen_tag t p s)) = hash_out (dh s)"
  "hash_in (dh (unlink_pen_tag t p s)) = hash_in (dh s)"
  "hash_pen (dh (unlink_pen_tag t p s)) = hash_pen (dh s)"
  "hash_pen_tag (dh (unlink_pen_tag t p s)) = ht_remove t p (hash_pen_tag (dh s))"
  "hash_reconfig (dh (unlink_pen_tag t p s)) = hash_reconfig (dh s)"
  "policies (dh (unlink_pen_tag t p s)) = policies (dh s)"
  "hash_out (dh (unlink_reconfig k p s)) = hash_out (dh s)"
  "hash_in (dh (unlink_reconfig k p s)) = hash_in (dh s)"
  "hash_pen (dh (unlink_reconfig k p s)) = hash_pen (dh s)"
  "hash_pen_tag (dh (unlink_reconfig k p s)) = hash_pen_tag (dh s)"
  "hash_reconfig (dh (unlink_reconfig k p s)) = ht_remove k p (hash_reconfig (dh s))"
  "policies (dh (unlink_reconfig k p s)) = policies (dh s)"
  by (simp_all add: link_defs)

text \<open>The state right after the module is loaded, in a namespace with no policy.\<close>

definition fresh_hashes :: "nat option \<Rightarrow> dysco_hashes" where
  "fresh_hashes ns = \<lparr>net_ns = ns, nl_sk = True, policies = [], dysco_tag = 0,
     hash_out = [], hash_in = [], hash_pen = [], hash_pen_tag = [], hash_reconfig = []\<rparr>"

definition fresh_dstate :: dstate where
  "fresh_dstate = \<lparr>outs = Map.empty, ins = Map.empty, rcbs = Map.empty, scs = Map.empty,
     socks = Map.empty, next_addr = 1, n_alloc = 0, ticks = 0, dh = fresh_hashes (Some 0),
     alloc_ports = initial_ports,
     stats = \<lparr>tcp_sack_rewrites = 0, tcp_ts_rewrites = 0, tcp_tsr_rewrites = 0\<rparr>,
     dev_measurement = None\<rparr>"

text \<open>
  C37. The pairs of local and neighbour ports that the module hands to its subsessions are
  pairwise distinct for the first 555405534 subsessions after loading, and no local port is
  10000 or below, which is what the comment on \<open>alloc_ports\<close> claims ("more than 400M
  sessions", "never use a source port 10000 or smaller").
\<close>

theorem port_pairs_fresh:
  assumes "alloc_ports s = initial_ports" and "n \<le> 555405534"
  shows "distinct (port_pairs n s) \<and> list_all (\<lambda>(l, r). 10000 < unat (ntohs l)) (port_pairs n s)"
proof -
  have ok: "ports_ok s" and n: "n \<le> ports_left s"
    using initial_ports_left [OF assms(1)] assms(2) by simp_all
  have "10000 < unat (ntohs (fst x))" if "x \<in> set (port_pairs n s)" for x
    using ports.draws_later [OF ok n] that local_port_above
    by (fastforce simp: port_pairs_draws)
  then show ?thesis
    using ports.distinct_draws [OF ok n] by (fastforce simp: port_pairs_draws list_all_iff)
qed

theorem port_pairs_fresh_witness:
  "distinct (port_pairs 3 fresh_dstate) \<and>
   list_all (\<lambda>(l, r). 10000 < unat (ntohs l)) (port_pairs 3 fresh_dstate)"
  by (rule port_pairs_fresh) (simp_all add: fresh_dstate_def)

end
