(* ===== verification/Dysco_Checksum.thy ===== *)
theory Dysco_Checksum
  imports Dysco_Base
begin

text \<open>
  The incremental checksum updates of \<^verbatim>\<open>dysco.h\<close>. A checksum stores the complement of a
  ones' complement sum; arithmetic on it is arithmetic modulo 65535. \<open>oc\<close> is the value of a
  word in that arithmetic. The library functions \<open>csum_fold\<close> and \<open>csum_unfold\<close> are
  parameters; \<open>csum_laws\<close> states what their documentation promises: unfolding widens, folding
  keeps the ones' complement value and complements.
\<close>

section \<open>Updates\<close>

text \<open>Folding a 64-bit partial sum to 32 bits, as both functions do in two steps.\<close>

definition fold64 :: "u64 \<Rightarrow> u32" where
  "fold64 p = (
     let p1 = (p AND 0xffffffff) + drop_bit 32 p
     in ucast ((p1 AND 0xffffffff) + drop_bit 32 p1))"

definition dysco_csum_replace4 :: "kapi \<Rightarrow> u16 \<Rightarrow> u32 \<Rightarrow> u32 \<Rightarrow> u16" where
  "dysco_csum_replace4 K s frm to = (
     let unfolded = NOT (k_csum_unfold K s);
         partial = ucast (NOT frm) + ucast to + ucast unfolded
     in k_csum_fold K (fold64 partial))"

definition dysco_csum_replace2 :: "kapi \<Rightarrow> u16 \<Rightarrow> u16 \<Rightarrow> u16 \<Rightarrow> u16" where
  "dysco_csum_replace2 K s frm to = dysco_csum_replace4 K s (ucast frm) (ucast to)"

text \<open>
  The update for a word covered by the transport checksum, which may be part of the pseudo
  header; it returns the new checksum and the new \<open>skb->csum\<close>.
\<close>

definition dysco_inet_proto_csum_replace4 ::
    "kapi \<Rightarrow> u16 \<Rightarrow> ip_summed \<Rightarrow> u32 \<Rightarrow> u32 \<Rightarrow> u32 \<Rightarrow> bool \<Rightarrow> u16 \<times> u32" where
  "dysco_inet_proto_csum_replace4 K s summed csum frm to pseudohdr = (
     if summed \<noteq> CHECKSUM_PARTIAL then
       let cpartial = ucast (NOT frm) + ucast to;
           unfolded = NOT (k_csum_unfold K s);
           partial = cpartial + ucast unfolded;
           s' = k_csum_fold K (fold64 partial)
       in (s',
           if summed = CHECKSUM_COMPLETE \<and> pseudohdr
           then NOT (fold64 (cpartial + ucast (NOT csum))) else csum)
     else if pseudohdr then
       let unfolded = k_csum_unfold K s;
           partial = ucast (NOT frm) + ucast to + ucast unfolded
       in (NOT (k_csum_fold K (fold64 partial)), csum)
     else (s, csum))"

text \<open>The same update and the library's own one, applied to the TCP checksum of a packet.\<close>

definition set_csum :: "u16 \<times> u32 \<Rightarrow> skb \<Rightarrow> skb" where
  "set_csum sc b = b\<lparr>th := (th b)\<lparr>th_check := fst sc\<rparr>, skb_csum := snd sc\<rparr>"

definition dysco_th_csum4 :: "kapi \<Rightarrow> u32 \<Rightarrow> u32 \<Rightarrow> bool \<Rightarrow> skb \<Rightarrow> skb" where
  "dysco_th_csum4 K frm to pseudohdr b = set_csum (dysco_inet_proto_csum_replace4 K
     (th_check (th b)) (ip_summed b) (skb_csum b) frm to pseudohdr) b"

definition inet_th_csum4 :: "kapi \<Rightarrow> u32 \<Rightarrow> u32 \<Rightarrow> bool \<Rightarrow> skb \<Rightarrow> skb" where
  "inet_th_csum4 K frm to pseudohdr b = set_csum (k_inet_replace4 K
     (th_check (th b)) (ip_summed b) (skb_csum b) frm to pseudohdr) b"

definition inet_th_csum2 :: "kapi \<Rightarrow> u16 \<Rightarrow> u16 \<Rightarrow> bool \<Rightarrow> skb \<Rightarrow> skb" where
  "inet_th_csum2 K frm to pseudohdr b = set_csum (k_inet_replace2 K
     (th_check (th b)) (ip_summed b) (skb_csum b) frm to pseudohdr) b"

section \<open>Ones' complement arithmetic\<close>

definition oc :: "'a::len word \<Rightarrow> int" where
  "oc w = uint w mod 65535"

definition csum_laws :: "kapi \<Rightarrow> bool" where
  "csum_laws K \<longleftrightarrow>
     (\<forall>s. k_csum_unfold K s = ucast s) \<and>
     (\<forall>x. oc (NOT (k_csum_fold K x)) = oc x)"

text \<open>
  The documented effect of the library's own updates on a checksum that is held in full:
  the word \<open>from\<close> is taken out of the sum and \<open>to\<close> is put in. While the checksum is left to
  the hardware (\<open>CHECKSUM_PARTIAL\<close>) only the words of the pseudo header count.
\<close>

definition inet_laws :: "kapi \<Rightarrow> bool" where
  "inet_laws K \<longleftrightarrow>
     (\<forall>s sm c f t p. sm \<noteq> CHECKSUM_PARTIAL \<longrightarrow>
        oc (NOT (fst (k_inet_replace4 K s sm c f t p))) =
          (oc (NOT s) - oc f + oc t) mod 65535) \<and>
     (\<forall>s sm c f t p. sm \<noteq> CHECKSUM_PARTIAL \<longrightarrow>
        oc (NOT (fst (k_inet_replace2 K s sm c f t p))) =
          (oc (NOT s) - oc f + oc t) mod 65535)"

lemma uint_not16: "uint (NOT (x::u16)) = 65535 - uint x"
proof -
  have "NOT x = - 1 - x" by (simp add: not_eq_complement)
  moreover have "uint (- 1 - x) = uint (-1 :: u16) - uint x"
    by (subst uint_sub_lem[symmetric]) (simp add: word_order.extremum flip: word_le_def)
  ultimately show ?thesis by (simp add: unsigned_minus_1_eq_mask mask_eq_exp_minus_1)
qed

lemma uint_not32: "uint (NOT (x::u32)) = 4294967295 - uint x"
proof -
  have "NOT x = - 1 - x" by (simp add: not_eq_complement)
  moreover have "uint (- 1 - x) = uint (-1 :: u32) - uint x"
    by (subst uint_sub_lem[symmetric]) (simp add: word_order.extremum flip: word_le_def)
  ultimately show ?thesis by (simp add: unsigned_minus_1_eq_mask mask_eq_exp_minus_1)
qed

lemma low_mask32: "(0xffffffff::u64) = mask 32" by (simp add: mask_eq_exp_minus_1)

lemma uint_lo: "uint ((p::u64) AND 0xffffffff) = uint p mod 4294967296"
  unfolding low_mask32 by (simp add: unsigned_take_bit_eq take_bit_eq_mod uint_mod_distrib flip: take_bit_eq_mask)

lemma uint_hi: "uint (drop_bit 32 (p::u64)) = uint p div 4294967296"
  by (simp add: unsigned_drop_bit_eq drop_bit_eq_div uint_div_distrib)

lemma uint_add64: "uint (a::u64) + uint b < 18446744073709551616 \<Longrightarrow> uint (a + b) = uint a + uint b"
  using uint_add_lem[of a b] by simp

lemma uint_u64_of_u32 [simp]: "uint (ucast (x::u32) :: u64) = uint x"
  by (simp add: unsigned_ucast_eq take_bit_int_eq_self_iff) (use uint_bounded[of x] in simp)

lemma u32_bound: "uint (x::u32) < 4294967296" "0 \<le> uint x" using uint_bounded[of x] by simp_all

lemma split32: fixes P :: int
  obtains q r where "q = P div 4294967296" "r = P mod 4294967296" "P = 4294967296 * q + r" "0 \<le> r" "r < 4294967296"
proof (rule that [OF refl refl])
  show "P = 4294967296 * (P div 4294967296) + P mod 4294967296" by (simp only: mult_div_mod_eq)
  show "0 \<le> P mod 4294967296" "P mod 4294967296 < 4294967296" by simp_all
qed

lemma fold_step_eq: "uint ((p AND 0xffffffff) + drop_bit 32 (p::u64)) = uint p mod 4294967296 + uint p div 4294967296"
proof -
  obtain q r where q: "q = uint p div 4294967296" "r = uint p mod 4294967296" "uint p = 4294967296 * q + r" "0 \<le> r" "r < 4294967296"
    by (rule split32)
  have "uint p < 18446744073709551616" using uint_bounded[of p] by simp
  then have "r + q < 18446744073709551616" using q(3-5) by linarith
  then have "uint (p AND 0xffffffff) + uint (drop_bit 32 p) < 18446744073709551616"
    by (simp only: uint_lo uint_hi q(1,2))
  from uint_add64 [OF this] show ?thesis by (simp only: uint_lo uint_hi)
qed

lemma mod_split: "(P mod 4294967296 + P div 4294967296) mod 65535 = (P::int) mod 65535"
proof -
  obtain q r where q: "q = P div 4294967296" "r = P mod 4294967296" "P = 4294967296 * q + r"
    by (rule split32)
  have "P = (r + q) + 65535 * (65537 * q)" using q(3) by linarith
  then show ?thesis unfolding q(1,2)[symmetric] by (metis mod_mult_self2)
qed

lemma fold64_value: assumes "uint p < 12884901888" shows "uint (fold64 p) mod 65535 = uint p mod 65535"
proof -
  let ?P = "uint p" let ?p1 = "(p AND 0xffffffff) + drop_bit 32 p"
  let ?p2 = "(?p1 AND 0xffffffff) + drop_bit 32 ?p1"
  have 1: "uint ?p1 = ?P mod 4294967296 + ?P div 4294967296" by (rule fold_step_eq)
  have 2: "uint ?p2 = uint ?p1 mod 4294967296 + uint ?p1 div 4294967296" by (rule fold_step_eq)
  obtain q r where q: "q = ?P div 4294967296" "r = ?P mod 4294967296" "?P = 4294967296 * q + r" "0 \<le> r" "r < 4294967296"
    by (rule split32)
  obtain u v where u: "u = uint ?p1 div 4294967296" "v = uint ?p1 mod 4294967296" "uint ?p1 = 4294967296 * u + v" "0 \<le> v" "v < 4294967296"
    by (rule split32)
  have q2: "q < 3" using q assms by linarith
  have e: "4294967296 * u + v = r + q" using 1 u(3) q(1,2) by simp
  have b2: "v + u < 4294967296"
  proof (cases "u \<le> 0")
    case True then show ?thesis using u(5) by linarith
  next
    case False then show ?thesis using e q(4,5) q2 u(4) by linarith
  qed
  have "uint (fold64 p) = uint ?p2"
    proof -
    have "uint ?p2 < 4294967296" using b2 by (simp only: 2 u(1,2))
    then have "take_bit 32 (uint ?p2) = uint ?p2" by (simp add: take_bit_int_eq_self_iff)
    then show ?thesis unfolding fold64_def Let_def unsigned_ucast_eq by simp
  qed
  then show ?thesis by (simp only: 2 1 mod_split)
qed

lemma oc_not16: "oc (NOT (x::u16)) = (- uint x) mod 65535"
proof -
  have "65535 - uint x = - uint x + 65535 * 1" by simp
  then show ?thesis unfolding oc_def uint_not16 by (metis mod_mult_self2)
qed

lemma oc_not32: "oc (NOT (x::u32)) = (- uint x) mod 65535"
  unfolding oc_def uint_not32 
proof -
  have "4294967295 - uint x = - uint x + 65535 * 65537" by simp
  then show "(4294967295 - uint x) mod 65535 = - uint x mod 65535" by (metis mod_mult_self2)
qed

lemma uint_u32_of_u16 [simp]: "uint (ucast (x::u16) :: u32) = uint x"
  by (simp add: unsigned_ucast_eq take_bit_int_eq_self_iff) (use uint_bounded[of x] in simp)

lemma uint_three: "uint (ucast (a::u32) + ucast (b::u32) + ucast (c::u32) :: u64) = uint a + uint b + uint c"
proof -
  have 1: "uint (ucast a + ucast b :: u64) = uint a + uint b"
    using u32_bound[of a] u32_bound[of b] by (subst uint_add64) simp_all
  then show ?thesis
    using u32_bound[of a] u32_bound[of b] u32_bound[of c] by (subst uint_add64) (simp_all add: 1)
qed

lemma fold64_three: "uint (fold64 (ucast (a::u32) + ucast (b::u32) + ucast (c::u32))) mod 65535 = (uint a + uint b + uint c) mod 65535"
  using fold64_value[of "ucast a + ucast b + ucast c"] u32_bound[of a] u32_bound[of b] u32_bound[of c]
  unfolding uint_three by linarith

lemma mod_add3: "(a mod m + b mod m + c) mod m = (a + b + c) mod (m::int)"
  by (metis mod_add_eq mod_add_left_eq)

lemma oc_mod [simp]: "oc w mod 65535 = oc w" by (simp add: oc_def)

lemma oc_fold3: "oc (fold64 (ucast (NOT (a::u32)) + ucast (b::u32) + ucast (c::u32))) = (- oc a + oc b + oc c) mod 65535"
proof -
  have "oc (fold64 (ucast (NOT a) + ucast b + ucast c)) = (oc (NOT a) + oc b + oc c) mod 65535"
    unfolding oc_def fold64_three by (simp add: mod_simps mod_add3)
  moreover have "oc (NOT a) = (- oc a) mod 65535" unfolding oc_not32 by (simp add: oc_def mod_minus_eq)
  ultimately show ?thesis by (metis add.assoc mod_add_left_eq)
qed

lemma csum_replace4_oc: assumes "csum_laws K"
  shows "oc (NOT (dysco_csum_replace4 K s f t)) = (oc (NOT s) - oc f + oc t) mod 65535"
proof -
  have u: "k_csum_unfold K s = ucast s" and f: "\<And>x. oc (NOT (k_csum_fold K x)) = oc x"
    using assms by (simp_all add: csum_laws_def)
  have "oc (NOT (ucast s :: u32)) = oc (NOT s)" by (simp add: oc_not32 oc_not16)
  then show ?thesis
    unfolding dysco_csum_replace4_def Let_def f u oc_fold3 by (simp add: algebra_simps)
qed

lemma csum_replace2_oc: assumes "csum_laws K"
  shows "oc (NOT (dysco_csum_replace2 K s f t)) = (oc (NOT s) - oc f + oc t) mod 65535"
  unfolding dysco_csum_replace2_def csum_replace4_oc[OF assms] by (simp add: oc_def)

lemma proto_replace4_oc: assumes "csum_laws K" "sm \<noteq> CHECKSUM_PARTIAL"
  shows "oc (NOT (fst (dysco_inet_proto_csum_replace4 K s sm c f t p))) = (oc (NOT s) - oc f + oc t) mod 65535"
  using csum_replace4_oc[OF assms(1), of s f t] assms(2)
  by (simp add: dysco_inet_proto_csum_replace4_def dysco_csum_replace4_def Let_def)

lemmas csum_oc [csum_simps] = csum_replace4_oc csum_replace2_oc proto_replace4_oc

lemma proto_replace4_partial_oc:
  assumes "csum_laws K"
  shows "oc (fst (dysco_inet_proto_csum_replace4 K s CHECKSUM_PARTIAL c f t True)) =
      (oc s - oc f + oc t) mod 65535"
proof -
  have u: "k_csum_unfold K s = ucast s" and f: "\<And>x. oc (NOT (k_csum_fold K x)) = oc x"
    using assms by (simp_all add: csum_laws_def)
  have "oc (ucast s :: u32) = oc s" by (simp add: oc_def)
  then have "oc (fold64 (ucast (NOT f) + ucast t + ucast (ucast s :: u32))) =
      (- oc f + oc t + oc s) mod 65535"
    using oc_fold3 [of f t "ucast s"] by simp
  then show ?thesis
    by (simp add: dysco_inet_proto_csum_replace4_def Let_def u f) (simp add: algebra_simps)
qed

lemma proto_replace4_complete_oc:
  "oc (snd (dysco_inet_proto_csum_replace4 K s CHECKSUM_COMPLETE c f t True)) =
      (oc c + oc f - oc t) mod 65535"
proof -
  let ?x = "fold64 (ucast (NOT f) + ucast t + ucast (NOT c))"
  have "oc (NOT ?x) = (- oc ?x) mod 65535"
    unfolding oc_not32 by (simp add: oc_def mod_minus_eq)
  also have "\<dots> = (- (- oc f + oc t + oc (NOT c))) mod 65535"
    unfolding oc_fold3 by (simp only: mod_minus_eq)
  also have "- (- oc f + oc t + oc (NOT c)) = oc f - oc t - (- uint c) mod 65535"
    unfolding oc_not32 by simp
  also have "\<dots> mod 65535 = (oc f - oc t - (- uint c)) mod 65535"
    by (rule mod_diff_right_eq)
  also have "\<dots> = (oc f - oc t + uint c mod 65535) mod 65535"
    by (simp add: mod_add_right_eq)
  also have "\<dots> = (oc c + oc f - oc t) mod 65535"
    by (simp add: oc_def algebra_simps)
  finally show ?thesis
    by (simp add: dysco_inet_proto_csum_replace4_def Let_def)
qed

section \<open>What the updates leave alone\<close>

lemmas th_csum_defs = dysco_th_csum4_def inet_th_csum4_def inet_th_csum2_def

lemma set_csum_frame [simp]:
  "eth (set_csum c b) = eth b" "iph (set_csum c b) = iph b" "tdata (set_csum c b) = tdata b"
  "tail (set_csum c b) = tail b" "ip_summed (set_csum c b) = ip_summed b"
  "skb_len (set_csum c b) = skb_len b" "tailroom (set_csum c b) = tailroom b"
  "skb_dev (set_csum c b) = skb_dev b" "skb_csum (set_csum c b) = snd c"
  "th_source (th (set_csum c b)) = th_source (th b)"
  "th_dest (th (set_csum c b)) = th_dest (th b)"
  "th_seq (th (set_csum c b)) = th_seq (th b)"
  "th_ack_seq (th (set_csum c b)) = th_ack_seq (th b)"
  "doff (th (set_csum c b)) = doff (th b)" "th_flags (th (set_csum c b)) = th_flags (th b)"
  "window (th (set_csum c b)) = window (th b)"
  "th_urg_ptr (th (set_csum c b)) = th_urg_ptr (th b)"
  "th_check (th (set_csum c b)) = fst c"
  by (simp_all add: set_csum_def)

section \<open>A checksum library that satisfies the laws\<close>

text \<open>
  A concrete instance of the parameter, for the witnesses: allocation always succeeds, the
  checksum services compute with the ones' complement values themselves, every address is
  reached directly from \<open>10.0.0.1\<close>, and there are no filters or sockets.
\<close>

definition ref_replace :: "u16 \<Rightarrow> ip_summed \<Rightarrow> u32 \<Rightarrow> int \<Rightarrow> int \<Rightarrow> bool \<Rightarrow> u16 \<times> u32" where
  "ref_replace s sm c f t p =
     (if sm = CHECKSUM_PARTIAL then (s, c)
      else (NOT (word_of_int ((oc (NOT s) - f + t) mod 65535)), c))"

definition ref_kapi :: kapi where
  "ref_kapi = \<lparr>k_alloc = (\<lambda>_. True),
     k_junk_in = (\<lambda>_. zero_cb_in),
     k_junk_rcb = (\<lambda>_. \<lparr>r_super = zero_session, r_leftSS = zero_session,
       r_rightSS = zero_session, r_sub_out = zero_session, r_sub_in = zero_session,
       r_old_dcb = None, r_new_dcb = None, r_rec_begin = (0, 0), r_rec_end = (0, 0),
       r_leftIseq = 0, r_leftIack = 0, r_leftIts = 0, r_leftItsr = 0, r_leftIws = 0,
       r_leftIwsr = 0, r_nh_mac = zero_mac, r_sack_ok = 0, r_rec_done = False\<rparr>),
     k_junk_out = (\<lambda>_. zero_cb_out),
     k_junk_pos = (\<lambda>_. 0),
     k_junk_tag = (\<lambda>_. 0),
     k_csum_fold = (\<lambda>x. NOT (word_of_int (uint x mod 65535))),
     k_csum_unfold = ucast,
     k_ip_fast_csum = (\<lambda>ip. NOT (word_of_int ((oc (saddr ip) + oc (daddr ip)) mod 65535))),
     k_csum_tcp = (\<lambda>t m n p. p),
     k_csum_bytes = (\<lambda>bs p. p),
     k_csum_udp = (\<lambda>u m n p. p),
     k_csum_tcpudp_nofold = (\<lambda>sa da n pr c. c),
     k_tcp_v4_check = (\<lambda>n sa da c. 0),
     k_inet_replace4 = (\<lambda>s sm c f t p. ref_replace s sm c (oc f) (oc t) p),
     k_inet_replace2 = (\<lambda>s sm c f t p. ref_replace s sm c (oc f) (oc t) p),
     k_route = (\<lambda>ns iif mark ts d. Some (0, 0x0100000a)),
     k_neigh = (\<lambda>ip. Some [2, 0, 0, 0, 0, 1]),
     k_bpf = (\<lambda>f b. False),
     k_bpf_create = (\<lambda>bs. Some 0),
     k_established = (\<lambda>ns a p b q iif. None),
     k_now = (\<lambda>t. (of_nat t, 0))\<rparr>"

lemma oc_word_of_int_mod: "oc (word_of_int (x mod 65535) :: u16) = x mod 65535"
proof -
  have "x mod 65535 < 65536" by (rule less_trans [of _ 65535]) simp_all
  then have "uint (word_of_int (x mod 65535) :: u16) = x mod 65535"
    by (simp add: uint_word_of_int)
  then show ?thesis by (simp add: oc_def)
qed

lemma ref_csum_laws: "csum_laws ref_kapi"
  by (simp add: csum_laws_def ref_kapi_def oc_word_of_int_mod) (simp add: oc_def)

lemma ref_inet_laws: "inet_laws ref_kapi"
  by (simp add: inet_laws_def ref_kapi_def ref_replace_def oc_word_of_int_mod)

text \<open>Packets for the witnesses.\<close>

definition ref_dev :: net_device where
  "ref_dev = \<lparr>dev_addr = [2, 0, 0, 0, 0, 2], ifindex = 1, dev_net = 0, ifa_addresses = [0x0200000a]\<rparr>"

definition ref_th :: "u4 \<Rightarrow> u8 \<Rightarrow> tcphdr" where
  "ref_th d f = \<lparr>th_source = htons 5000, th_dest = htons 80, th_seq = htonl 1000,
     th_ack_seq = htonl 2000, doff = d, th_flags = f, window = htons 4096, th_check = 0,
     th_urg_ptr = 0\<rparr>"

text \<open>A TCP segment with \<open>n\<close> bytes of payload from \<open>10.0.0.1\<close> to \<open>10.0.0.2\<close>.\<close>

definition ref_skb :: "u4 \<Rightarrow> u8 \<Rightarrow> mem \<Rightarrow> nat \<Rightarrow> skb" where
  "ref_skb d f m n = \<lparr>
     eth = \<lparr>h_dest = [2, 0, 0, 0, 0, 2], h_source = [2, 0, 0, 0, 0, 1], h_proto = htons ETH_P_IP\<rparr>,
     iph = \<lparr>ihl = 5, tos = 0, tot_len = htons (of_nat (20 + 4 * unat d + n)),
       protocol = IPPROTO_TCP, ip_check = 0, saddr = 0x0100000a, daddr = 0x0200000a,
       ip_other = []\<rparr>,
     th = ref_th d f, tdata = m, tail = 4 * int (unat d) - 20 + int n,
     skb_len = of_nat (20 + 4 * unat d + n), tailroom = 100,
     uh = \<lparr>uh_source = 0, uh_dest = 0, uh_len = 0, uh_check = 0\<rparr>,
     cmsg = \<lparr>m_mtype = 0, m_super = zero_session, m_leftSS = zero_session,
       m_rightSS = zero_session, m_leftA = 0, m_rightA = 0, m_sport = 0, m_dport = 0,
       m_leftIseq = 0, m_leftIack = 0, m_rightIseq = 0, m_rightIack = 0, m_seqCutoff = 0,
       m_leftIts = 0, m_leftItsr = 0, m_leftIws = 0, m_leftIwsr = 0, m_sackOk = 0,
       m_semantic = 0, m_srcMB = 0, m_dstMB = 0\<rparr>,
     ip_summed = CHECKSUM_NONE, skb_csum = 0, csum_valid = False, skb_iif = 1, skb_mark = 0,
     skb_dev = ref_dev, pkt_loopback = False, transport_set = True\<rparr>"

definition mem_of :: "u8 list \<Rightarrow> mem" where
  "mem_of bs i = (if i < length bs then bs ! i else 0)"

section \<open>Correctness of the updates\<close>

text \<open>
  Incremental checksum update: for every old checksum and every pair of words, the checksum
  computed from the old one stands for the old sum without the old word and with the new
  one, in ones' complement arithmetic (modulo 65535), for 4-byte and for 2-byte words.
\<close>

theorem csum_replace_correct:
  assumes "csum_laws K"
  shows "oc (NOT (dysco_csum_replace4 K s f t)) = (oc (NOT s) - oc f + oc t) mod 65535 \<and>
    oc (NOT (dysco_csum_replace2 K s f' t')) = (oc (NOT s) - oc f' + oc t') mod 65535"
  using assms by (simp add: csum_replace4_oc csum_replace2_oc)

theorem csum_replace_correct_witness:
  "oc (NOT (dysco_csum_replace4 ref_kapi 0x1234 0x0100000a 0x0200000a)) =
     (oc (NOT (0x1234 :: u16)) - oc (0x0100000a :: u32) + oc (0x0200000a :: u32)) mod 65535 \<and>
   oc (NOT (dysco_csum_replace2 ref_kapi 0x1234 7 9)) =
     (oc (NOT (0x1234 :: u16)) - oc (7 :: u16) + oc (9 :: u16)) mod 65535"
  by (rule csum_replace_correct [OF ref_csum_laws])

text \<open>
  C36. The module's own update of a transport checksum agrees with the kernel's
  \<open>inet_proto_csum_replace4\<close> whenever the checksum is held in full; while the hardware is to
  complete it, only words of the pseudo header count, and the running sum of the packet
  moves by the difference of the words.
\<close>

theorem inet_proto_csum_correct:
  assumes "csum_laws K" and "inet_laws K" and "sm \<noteq> CHECKSUM_PARTIAL"
  shows "oc (NOT (fst (dysco_inet_proto_csum_replace4 K s sm c f t p))) =
      oc (NOT (fst (k_inet_replace4 K s sm c f t p))) \<and>
    oc (fst (dysco_inet_proto_csum_replace4 K s CHECKSUM_PARTIAL c f t True)) =
      (oc s - oc f + oc t) mod 65535 \<and>
    fst (dysco_inet_proto_csum_replace4 K s CHECKSUM_PARTIAL c f t False) = s \<and>
    oc (snd (dysco_inet_proto_csum_replace4 K s CHECKSUM_COMPLETE c f t True)) =
      (oc c + oc f - oc t) mod 65535"
  using assms proto_replace4_oc [OF assms(1,3)] proto_replace4_partial_oc [OF assms(1)]
    proto_replace4_complete_oc
  by (simp add: inet_laws_def dysco_inet_proto_csum_replace4_def)

theorem inet_proto_csum_correct_witness:
  "oc (NOT (fst (dysco_inet_proto_csum_replace4 ref_kapi 5 CHECKSUM_COMPLETE 6 7 8 True))) =
      oc (NOT (fst (k_inet_replace4 ref_kapi 5 CHECKSUM_COMPLETE 6 7 8 True))) \<and>
    oc (fst (dysco_inet_proto_csum_replace4 ref_kapi 5 CHECKSUM_PARTIAL 6 7 8 True)) =
      (oc (5 :: u16) - oc (7 :: u32) + oc (8 :: u32)) mod 65535 \<and>
    fst (dysco_inet_proto_csum_replace4 ref_kapi 5 CHECKSUM_PARTIAL 6 7 8 False) = 5 \<and>
    oc (snd (dysco_inet_proto_csum_replace4 ref_kapi 5 CHECKSUM_COMPLETE 6 7 8 True)) =
      (oc (6 :: u32) + oc (7 :: u32) - oc (8 :: u32)) mod 65535"
  by (rule inet_proto_csum_correct [OF ref_csum_laws ref_inet_laws]) simp

end
