(* ===== verification/Dysco_Options.thy ===== *)
theory Dysco_Options
  imports Dysco_Checksum
begin

text \<open>
  TCP options (\<^verbatim>\<open>kernel/common/dysco_tcp.c\<close>, the timestamp search of \<^verbatim>\<open>dysco.h\<close> and the
  SACK translation of \<^verbatim>\<open>dysco_output.c\<close>). The five functions share one loop over the option
  bytes, \<open>tcp_options\<close>; each supplies what it does with an option. Positions are offsets into
  the memory after the fixed TCP header.
\<close>

abbreviation (input) TCPOPT_EOL :: u8 where "TCPOPT_EOL \<equiv> 0"
abbreviation (input) TCPOPT_NOP :: u8 where "TCPOPT_NOP \<equiv> 1"
abbreviation (input) TCPOPT_WINDOW :: u8 where "TCPOPT_WINDOW \<equiv> 3"
abbreviation (input) TCPOPT_SACK_PERM :: u8 where "TCPOPT_SACK_PERM \<equiv> 4"
abbreviation (input) TCPOPT_SACK :: u8 where "TCPOPT_SACK \<equiv> 5"
abbreviation (input) TCPOPT_TIMESTAMP :: u8 where "TCPOPT_TIMESTAMP \<equiv> 8"
abbreviation (input) TCPOLEN_WINDOW :: int where "TCPOLEN_WINDOW \<equiv> 3"
abbreviation (input) TCPOLEN_SACK_PERM :: int where "TCPOLEN_SACK_PERM \<equiv> 2"
abbreviation (input) TCPOLEN_TIMESTAMP :: int where "TCPOLEN_TIMESTAMP \<equiv> 10"
abbreviation (input) TCPOLEN_SACK_BASE :: int where "TCPOLEN_SACK_BASE \<equiv> 2"
abbreviation (input) TCPOLEN_SACK_PERBLOCK :: int where "TCPOLEN_SACK_PERBLOCK \<equiv> 8"

section \<open>The option loop\<close>

text \<open>
  \<open>rd\<close> reads a byte, \<open>h opcode opsize ptr\<close> treats one option whose body starts at \<open>ptr\<close> and
  says whether to return at once. The result tells whether the loop ran to its end
  (\<open>True\<close>) or was left by a \<open>return\<close>.
\<close>

function tcp_options :: "('s \<Rightarrow> nat \<Rightarrow> u8) \<Rightarrow> (u8 \<Rightarrow> int \<Rightarrow> nat \<Rightarrow> 's \<Rightarrow> bool \<times> 's)
    \<Rightarrow> nat \<Rightarrow> int \<Rightarrow> 's \<Rightarrow> bool \<times> 's" where
  "tcp_options rd h ptr len s =
     (if len \<le> 0 then (True, s)
      else let opcode = rd s ptr in
        if opcode = TCPOPT_EOL then (False, s)
        else if opcode = TCPOPT_NOP then tcp_options rd h (ptr + 1) (len - 1) s
        else let opsize = uint (rd s (ptr + 1)) in
          if opsize < 2 then (False, s)
          else if opsize > len then (False, s)
          else let (stop, s') = h opcode opsize (ptr + 2) s in
            if stop then (False, s')
            else tcp_options rd h (ptr + 2 + nat (opsize - 2)) (len - opsize) s')"
  by pat_completeness auto
termination
  by (relation "measure (\<lambda>(rd, h, ptr, len, s). nat len)") auto

declare tcp_options.simps [simp del]

definition opt_len :: "tcphdr \<Rightarrow> int" where
  "opt_len t = doff_bytes t - sizeof_tcphdr"

section \<open>Searching the timestamp option\<close>

definition ts_option_handler :: "u8 \<Rightarrow> int \<Rightarrow> nat \<Rightarrow> nat option \<Rightarrow> bool \<times> nat option" where
  "ts_option_handler opcode opsize ptr r =
     (if opcode = TCPOPT_TIMESTAMP \<and> opsize = TCPOLEN_TIMESTAMP then (True, Some ptr)
      else (False, r))"

definition dysco_get_ts_option :: "tcphdr \<Rightarrow> mem \<Rightarrow> nat option" where
  "dysco_get_ts_option t m = snd (tcp_options (\<lambda>_. m) ts_option_handler 0 (opt_len t) None)"

section \<open>Options of SYN segments\<close>

definition clip_wscale :: "u8 \<Rightarrow> u16" where
  "clip_wscale w = (if 14 < w then 14 else ucast w)"

definition syn_opt_r :: "tcphdr \<Rightarrow> mem \<Rightarrow> u8 \<Rightarrow> int \<Rightarrow> nat \<Rightarrow> dysco_cb_in \<Rightarrow> bool \<times> dysco_cb_in" where
  "syn_opt_r t m opcode opsize ptr cb = (False,
     if opcode = TCPOPT_WINDOW then
       (if opsize = TCPOLEN_WINDOW then
          cb\<lparr>i_ws_ok := True, i_ws_delta := 0,
             i_ws_in := clip_wscale (m ptr), i_ws_out := clip_wscale (m ptr)\<rparr>
        else cb)
     else if opcode = TCPOPT_TIMESTAMP then
       (if opsize = TCPOLEN_TIMESTAMP \<and> tcp_flag_set t TCPHDR_ACK then
          cb\<lparr>i_ts_ok := True,
             i_ts_in := get_be32 m ptr, i_ts_out := get_be32 m ptr,
             i_tsr_in := get_be32 m (ptr + 4), i_tsr_out := get_be32 m (ptr + 4),
             i_ts_delta := 0, i_tsr_delta := 0\<rparr>
        else cb)
     else if opcode = TCPOPT_SACK_PERM then
       (if opsize = TCPOLEN_SACK_PERM then cb\<lparr>i_sack_ok := True\<rparr> else cb)
     else cb)"

definition dysco_parse_tcp_syn_opt_r :: "tcphdr \<Rightarrow> mem \<Rightarrow> dysco_cb_in \<Rightarrow> dysco_cb_in" where
  "dysco_parse_tcp_syn_opt_r t m cb =
     snd (tcp_options (\<lambda>_. m) (syn_opt_r t m) 0 (opt_len t) (cb\<lparr>i_sack_ok := False\<rparr>))"

text \<open>
  The output side also looks for the Dysco tag; it loads the four bytes at the start of the
  option body.
\<close>

definition syn_opt_s :: "tcphdr \<Rightarrow> mem \<Rightarrow> u8 \<Rightarrow> int \<Rightarrow> nat \<Rightarrow> dysco_cb_out \<Rightarrow> bool \<times> dysco_cb_out" where
  "syn_opt_s t m opcode opsize ptr cb = (False,
     if opcode = TCPOPT_WINDOW then
       (if opsize = TCPOLEN_WINDOW then
          cb\<lparr>o_ws_ok := True, o_ws_delta := 0,
             o_ws_in := clip_wscale (m ptr), o_ws_out := clip_wscale (m ptr)\<rparr>
        else cb)
     else if opcode = TCPOPT_TIMESTAMP then
       (if opsize = TCPOLEN_TIMESTAMP \<and> tcp_flag_set t TCPHDR_ACK then
          cb\<lparr>o_ts_ok := True,
             o_ts_in := get_be32 m ptr, o_ts_out := get_be32 m ptr,
             o_tsr_in := get_be32 m (ptr + 4), o_tsr_out := get_be32 m (ptr + 4),
             o_ts_delta := 0, o_tsr_delta := 0\<rparr>
        else cb)
     else if opcode = TCPOPT_SACK_PERM then
       (if opsize = TCPOLEN_SACK_PERM then cb\<lparr>o_sack_ok := True\<rparr> else cb)
     else if opcode = DYSCO_TCP_OPTION then
       cb\<lparr>o_tag_ok := True, o_dysco_tag := get32 m ptr\<rparr>
     else cb)"

definition dysco_parse_tcp_syn_opt_s :: "tcphdr \<Rightarrow> mem \<Rightarrow> dysco_cb_out \<Rightarrow> dysco_cb_out" where
  "dysco_parse_tcp_syn_opt_s t m cb =
     snd (tcp_options (\<lambda>_. m) (syn_opt_s t m) 0 (opt_len t) (cb\<lparr>o_sack_ok := False\<rparr>))"

section \<open>The Dysco tag\<close>

text \<open>
  The layout of the option as it is written: kind, length, two bytes of padding, the tag in
  host order. A tail that lies inside the headers cannot be written to and counts as a fault.
\<close>

definition put_tag_option :: "mem \<Rightarrow> nat \<Rightarrow> u32 \<Rightarrow> mem" where
  "put_tag_option m p tag = put32 (put16 (m(p := DYSCO_TCP_OPTION,
     p + 1 := of_nat DYSCO_TCP_OPTION_LEN)) (p + 2) 0) (p + 4) tag"

definition dysco_insert_tag :: "skb \<Rightarrow> dstate \<Rightarrow> (skb \<times> dstate) option" where
  "dysco_insert_tag b s = do {
     let tag = dysco_tag (dh s);
     let s1 = map_dh (\<lambda>h. h\<lparr>dysco_tag := dysco_tag h + 1\<rparr>) s;
     (p, b1) \<leftarrow> skb_put b DYSCO_TCP_OPTION_LEN;
     if p < 0 then None else
     Some (b1\<lparr>tdata := put_tag_option (tdata b1) (nat p) tag,
              th := (th b1)\<lparr>doff := doff (th b1) + 2\<rparr>,
              iph := (iph b1)\<lparr>tot_len := htons (ntohs (tot_len (iph b1)) + 8)\<rparr>\<rparr>, s1)
   }"

section \<open>SACK blocks\<close>

definition shift_edge :: "u32 \<Rightarrow> bool \<Rightarrow> u32 \<Rightarrow> u32" where
  "shift_edge delta add e =
     (if add then htonl (ntohl e + delta) else htonl (ntohl e - delta))"

definition count_sack :: "rewrite_stats \<Rightarrow> rewrite_stats" where
  "count_sack st = st\<lparr>tcp_sack_rewrites := tcp_sack_rewrites st + 1\<rparr>"

function sack_blocks :: "kapi \<Rightarrow> u32 \<Rightarrow> bool \<Rightarrow> nat \<Rightarrow> int \<Rightarrow> skb \<times> rewrite_stats
    \<Rightarrow> skb \<times> rewrite_stats" where
  "sack_blocks K delta add lptr blen (b, st) =
     (if 0 < blen then
        let left = get32 (tdata b) lptr;
            right = get32 (tdata b) (lptr + 4);
            new_l = shift_edge delta add left;
            new_r = shift_edge delta add right;
            b1 = dysco_th_csum4 K left new_l False b;
            b2 = dysco_th_csum4 K right new_r False b1;
            b3 = b2\<lparr>tdata := put32 (put32 (tdata b2) lptr new_l) (lptr + 4) new_r\<rparr>
        in sack_blocks K delta add (lptr + 8) (blen - 8) (b3, count_sack st)
      else (b, st))"
  by pat_completeness auto
termination
  by (relation "measure (\<lambda>(K, delta, add, lptr, blen, b, st). nat blen)") auto

declare sack_blocks.simps [simp del]

definition is_sack :: "u8 \<Rightarrow> int \<Rightarrow> bool" where
  "is_sack opcode opsize \<longleftrightarrow> opcode = TCPOPT_SACK \<and>
     TCPOLEN_SACK_BASE + TCPOLEN_SACK_PERBLOCK \<le> opsize \<and>
     (opsize - TCPOLEN_SACK_BASE) mod TCPOLEN_SACK_PERBLOCK = 0"

definition sack_handler :: "kapi \<Rightarrow> u32 \<Rightarrow> bool \<Rightarrow> u8 \<Rightarrow> int \<Rightarrow> nat \<Rightarrow> skb \<times> rewrite_stats
    \<Rightarrow> bool \<times> (skb \<times> rewrite_stats)" where
  "sack_handler K delta add opcode opsize ptr bs =
     (False, if is_sack opcode opsize then sack_blocks K delta add ptr (opsize - 2) bs else bs)"

definition dysco_tcp_sack :: "kapi \<Rightarrow> u32 \<Rightarrow> bool \<Rightarrow> skb \<times> rewrite_stats \<Rightarrow> skb \<times> rewrite_stats" where
  "dysco_tcp_sack K delta add bs =
     snd (tcp_options (\<lambda>bs. tdata (fst bs)) (sack_handler K delta add) 0
       (opt_len (th (fst bs))) bs)"

text \<open>
  The variant that sums the old and the new edges and updates the checksum once, after the
  loop. A \<open>return\<close> inside the loop leaves the checksum as it is.
\<close>

record sack_acc =
  sa_skb :: skb
  sa_stats :: rewrite_stats
  sa_fix :: bool
  sa_from64 :: u64
  sa_to64 :: u64

function sack_blocks_csum :: "u32 \<Rightarrow> bool \<Rightarrow> nat \<Rightarrow> int \<Rightarrow> sack_acc \<Rightarrow> sack_acc" where
  "sack_blocks_csum delta add lptr blen a =
     (if 0 < blen then
        let b = sa_skb a;
            left = get32 (tdata b) lptr;
            right = get32 (tdata b) (lptr + 4);
            new_l = shift_edge delta add left;
            new_r = shift_edge delta add right;
            a1 = (if ip_summed b \<noteq> CHECKSUM_PARTIAL then
                    a\<lparr>sa_fix := True, sa_from64 := sa_from64 a + ucast left + ucast right,
                      sa_to64 := sa_to64 a + ucast new_l + ucast new_r\<rparr>
                  else a);
            b' = b\<lparr>tdata := put32 (put32 (tdata b) lptr new_l) (lptr + 4) new_r\<rparr>
        in sack_blocks_csum delta add (lptr + 8) (blen - 8)
             (a1\<lparr>sa_skb := b', sa_stats := count_sack (sa_stats a)\<rparr>)
      else a)"
  by pat_completeness auto
termination
  by (relation "measure (\<lambda>(delta, add, lptr, blen, a). nat blen)") auto

declare sack_blocks_csum.simps [simp del]

definition sack_csum_handler :: "u32 \<Rightarrow> bool \<Rightarrow> u8 \<Rightarrow> int \<Rightarrow> nat \<Rightarrow> sack_acc \<Rightarrow> bool \<times> sack_acc" where
  "sack_csum_handler delta add opcode opsize ptr a =
     (False, if is_sack opcode opsize then sack_blocks_csum delta add ptr (opsize - 2) a else a)"

definition dysco_tcp_sack_csum :: "kapi \<Rightarrow> u32 \<Rightarrow> bool \<Rightarrow> skb \<times> rewrite_stats
    \<Rightarrow> skb \<times> rewrite_stats" where
  "dysco_tcp_sack_csum K delta add bs = (
     let a0 = \<lparr>sa_skb = fst bs, sa_stats = snd bs, sa_fix = False, sa_from64 = 0, sa_to64 = 0\<rparr>;
         (finished, a) = tcp_options (\<lambda>a. tdata (sa_skb a)) (sack_csum_handler delta add) 0
           (opt_len (th (fst bs))) a0
     in if finished \<and> sa_fix a
        then (dysco_th_csum4 K (fold64 (sa_from64 a)) (fold64 (sa_to64 a)) False (sa_skb a), sa_stats a)
        else (sa_skb a, sa_stats a))"

section \<open>Facts on the option loop\<close>

lemma tcp_options_end [simp]: "len \<le> 0 \<Longrightarrow> tcp_options rd h p len s = (True, s)"
  by (simp add: tcp_options.simps)

text \<open>
  The four ways a round of the loop goes: it is left, it skips a byte of padding, the handler
  returns, or the handler lets the loop go on behind the option.
\<close>

definition opt_leaves :: "u8 \<Rightarrow> u8 \<Rightarrow> int \<Rightarrow> bool" where
  "opt_leaves k l len \<longleftrightarrow> k = TCPOPT_EOL \<or> k \<noteq> TCPOPT_NOP \<and> (uint l < 2 \<or> len < uint l)"

lemma unat_ge_uint: "numeral k \<le> unat w \<longleftrightarrow> numeral k \<le> uint w"
  unfolding of_nat_le_iff [where 'a = int, symmetric] by simp

lemma tcp_options_leave:
  "0 < len \<Longrightarrow> opt_leaves (rd s p) (rd s (p + 1)) len \<Longrightarrow> tcp_options rd h p len s = (False, s)"
  by (subst tcp_options.simps) (auto simp: opt_leaves_def Let_def)

lemma tcp_options_nop:
  "0 < len \<Longrightarrow> rd s p = TCPOPT_NOP \<Longrightarrow>
     tcp_options rd h p len s = tcp_options rd h (p + 1) (len - 1) s"
  by (subst tcp_options.simps) (simp add: Let_def)

lemma tcp_options_opt:
  assumes "0 < len" and "\<not> opt_leaves (rd s p) (rd s (p + 1)) len" and "rd s p \<noteq> TCPOPT_NOP"
  shows "tcp_options rd h p len s = (let sz = uint (rd s (p + 1)) in
     case h (rd s p) sz (p + 2) s of (stop, s') \<Rightarrow>
       if stop then (False, s') else tcp_options rd h (p + unat (rd s (p + 1))) (len - sz) s')"
proof -
  have two: "2 \<le> uint (rd s (p + 1))" using assms by (auto simp: opt_leaves_def)
  define n where "n = nat (uint (rd s (p + 1)) - 2)"
  have u: "uint (rd s (Suc p)) = int n + 2" using two by (simp add: n_def)
  then have "unat (rd s (Suc p)) = n + 2"
    by (metis nat_int of_nat_add of_nat_numeral unsigned_of_nat nat_uint_eq)
  then show ?thesis
    using assms u by (subst tcp_options.simps) (simp add: opt_leaves_def Let_def split_beta)
qed

lemma opt_size: "\<not> opt_leaves k l len \<Longrightarrow> k \<noteq> TCPOPT_NOP \<Longrightarrow> 2 \<le> uint l \<and> uint l \<le> len \<and> k \<noteq> TCPOPT_EOL"
  by (auto simp: opt_leaves_def)

lemma tcp_options_induct [case_names fin leave nop opt]:
  assumes "\<And>p len s. len \<le> 0 \<Longrightarrow> P p len s"
    and "\<And>p len s. 0 < len \<Longrightarrow> opt_leaves (rd s p) (rd s (p + 1)) len \<Longrightarrow> P p len s"
    and "\<And>p len s. 0 < len \<Longrightarrow> rd s p = TCPOPT_NOP \<Longrightarrow> P (p + 1) (len - 1) s \<Longrightarrow> P p len s"
    and "\<And>p len s. 0 < len \<Longrightarrow> \<not> opt_leaves (rd s p) (rd s (p + 1)) len \<Longrightarrow> rd s p \<noteq> TCPOPT_NOP \<Longrightarrow>
        (\<And>s'. P (p + unat (rd s (p + 1))) (len - uint (rd s (p + 1))) s') \<Longrightarrow> P p len s"
  shows "P p (len :: int) s"
proof (induction "nat len" arbitrary: p len s rule: less_induct)
  case (less len p s)
  consider "len \<le> 0" | "0 < len" "opt_leaves (rd s p) (rd s (p + 1)) len"
    | "0 < len" "rd s p = TCPOPT_NOP"
    | "0 < len" "\<not> opt_leaves (rd s p) (rd s (p + 1)) len" "rd s p \<noteq> TCPOPT_NOP" by fastforce
  then show ?case
  proof cases
    case 3
    then have "P (p + 1) (len - 1) s" using less by simp
    with 3 show ?thesis by (rule assms(3))
  next
    case 4
    then have "nat (len - uint (rd s (p + 1))) < nat len" using opt_size by fastforce
    then show ?thesis using assms(4) [OF 4] less by blast
  qed (use assms in blast)+
qed

text \<open>An invariant of the handler is an invariant of the loop.\<close>

lemma tcp_options_inv:
  assumes "\<And>opc sz q s. P s \<Longrightarrow> P (snd (h opc sz q s))"
  shows "P s \<Longrightarrow> P (snd (tcp_options rd h p len s))"
proof (induction p len s rule: tcp_options_induct [where rd = rd])
  case (opt p len s)
  obtain stop s' where st: "h (rd s p) (uint (rd s (p + 1))) (p + 2) s = (stop, s')" by fastforce
  have "P s'" using assms [OF opt.prems, of "rd s p" "uint (rd s (p + 1))" "p + 2"] st by simp
  then show ?case using opt.IH opt.hyps st by (simp add: tcp_options_opt)
qed (simp_all add: tcp_options_leave tcp_options_nop)

text \<open>
  The loop reads only bytes of the option area, apart from the length byte of an option
  whose kind is the last byte; that byte never changes the result.
\<close>

definition same_bytes :: "nat \<Rightarrow> nat \<Rightarrow> mem \<Rightarrow> mem \<Rightarrow> bool" where
  "same_bytes p q m m' \<longleftrightarrow> (\<forall>i. p \<le> i \<and> i < q \<longrightarrow> m i = m' i)"

lemma same_bytes_mono: "same_bytes p q m m' \<Longrightarrow> p \<le> p' \<Longrightarrow> q' \<le> q \<Longrightarrow> same_bytes p' q' m m'"
  by (auto simp: same_bytes_def)

lemma opt_leaves_one: "opt_leaves k l 1 \<longleftrightarrow> k \<noteq> TCPOPT_NOP"
  by (auto simp: opt_leaves_def)

lemma tcp_options_local:
  assumes "\<And>opc sz q s. 2 \<le> sz \<Longrightarrow> p \<le> q \<Longrightarrow> int q + sz - 2 \<le> int p + len \<Longrightarrow> h opc sz q s = h' opc sz q s"
    and "same_bytes p (p + nat len) m m'"
  shows "tcp_options (\<lambda>_. m) h p len s = tcp_options (\<lambda>_. m') h' p len s"
  using assms
proof (induction p len s rule: tcp_options_induct [where rd = "\<lambda>_. m"])
  case (leave p len s)
  then have "m' p = m p" and "1 < len \<Longrightarrow> m' (p + 1) = m (p + 1)" by (simp_all add: same_bytes_def)
  moreover have "1 < len \<or> len = 1" using leave by linarith
  ultimately have "opt_leaves (m' p) (m' (p + 1)) len"
    using leave(2) by (auto simp: opt_leaves_one)
  then show ?case using leave by (simp add: tcp_options_leave)
next
  case (nop p len s)
  have "m' p = m p" "same_bytes (p + 1) (p + 1 + nat (len - 1)) m m'"
    using nop by (auto simp: same_bytes_def)
  then show ?case using nop by (simp add: tcp_options_nop)
next
  case (opt p len s)
  let ?sz = "uint (m (p + 1))"
  have sz: "2 \<le> ?sz" "?sz \<le> len" using opt_size opt.hyps(2,3) by auto
  then have b: "m' p = m p" "m' (p + 1) = m (p + 1)" using opt.prems(2) by (simp_all add: same_bytes_def)
  have hh: "h (m p) ?sz (p + 2) s = h' (m p) ?sz (p + 2) s" using opt.prems(1) sz by simp
  have "tcp_options (\<lambda>_. m) h (p + unat (m (p + 1))) (len - ?sz) s' =
        tcp_options (\<lambda>_. m') h' (p + unat (m (p + 1))) (len - ?sz) s'" for s'
  proof (rule opt.IH)
    have "int (unat (m (p + 1)) + nat (len - ?sz)) = len" using sz by simp
    then have "p + unat (m (p + 1)) + nat (len - ?sz) = p + nat len" by linarith
    then show "same_bytes (p + unat (m (p + 1))) (p + unat (m (p + 1)) + nat (len - ?sz)) m m'"
      using opt.prems(2) by (simp add: same_bytes_mono)
    show "h opc z q s = h' opc z q s" if "2 \<le> z" "p + unat (m (p + 1)) \<le> q"
      "int q + z - 2 \<le> int (p + unat (m (p + 1))) + (len - ?sz)" for opc z q s
      using that opt.prems(1) sz by simp
  qed
  then show ?case using opt.hyps b hh by (simp add: tcp_options_opt Let_def split_beta)
qed simp

text \<open>A loop on a concrete state follows the loop on an abstraction of it.\<close>

lemma tcp_options_hom:
  assumes "\<And>s. rd' (f s) = rd s"
    and "\<And>opc sz q s. h' opc sz q (f s) = map_prod id f (h opc sz q s)"
  shows "tcp_options rd' h' p len (f s) = map_prod id f (tcp_options rd h p len s)"
proof (induction p len s rule: tcp_options_induct [where rd = rd])
  case (opt p len s)
  then show ?case
    using assms by (simp add: tcp_options_opt Let_def split_beta)
qed (simp_all add: tcp_options_leave tcp_options_nop assms)

section \<open>What the parsers see\<close>

lemma get32_same: "same_bytes p (p + 4) m m' \<Longrightarrow> get32 m p = get32 m' p"
  by (simp add: same_bytes_def get32_def)

lemma get_be32_same: "same_bytes p (p + 4) m m' \<Longrightarrow> get_be32 m p = get_be32 m' p"
  by (simp add: get_be32_def get32_same)

lemma syn_opt_r_same:
  assumes "same_bytes q (q + nat (sz - 2)) m m'"
  shows "syn_opt_r t m opc sz q cb = syn_opt_r t m' opc sz q cb"
proof -
  have "sz = 3 \<Longrightarrow> m q = m' q" using assms by (simp add: same_bytes_def)
  moreover have "sz = 10 \<Longrightarrow> get_be32 m q = get_be32 m' q \<and> get_be32 m (q + 4) = get_be32 m' (q + 4)"
    using assms by (auto intro!: get_be32_same elim: same_bytes_mono)
  ultimately show ?thesis by (auto simp: syn_opt_r_def)
qed

text \<open>
  The parser of incoming SYN options reads nothing outside the option area of the segment:
  two segments with the same header and the same option bytes give the same control block,
  whatever follows the options. So truncated or malformed options cannot make the parser leak
  or depend on bytes beyond the header.
\<close>

theorem parse_syn_opt_r_local:
  assumes "same_bytes 0 (nat (opt_len t)) m m'"
  shows "dysco_parse_tcp_syn_opt_r t m cb = dysco_parse_tcp_syn_opt_r t m' cb"
proof -
  have "tcp_options (\<lambda>_. m) (syn_opt_r t m) 0 (opt_len t) c =
        tcp_options (\<lambda>_. m') (syn_opt_r t m') 0 (opt_len t) c" for c
  proof (rule tcp_options_local)
    show "syn_opt_r t m opc sz q s = syn_opt_r t m' opc sz q s"
      if "2 \<le> sz" "int q + sz - 2 \<le> int 0 + opt_len t" for opc sz q s
      using that assms by (intro syn_opt_r_same) (auto elim!: same_bytes_mono)
  qed (use assms in simp)
  then show ?thesis by (simp add: dysco_parse_tcp_syn_opt_r_def)
qed

theorem parse_syn_opt_r_local_witness:
  "dysco_parse_tcp_syn_opt_r (ref_th 6 TCPHDR_SYN) (mem_of [3, 3, 7, 0]) zero_cb_in =
   dysco_parse_tcp_syn_opt_r (ref_th 6 TCPHDR_SYN) (mem_of [3, 3, 7, 0, 99]) zero_cb_in"
proof (rule parse_syn_opt_r_local)
  have "nat (opt_len (ref_th 6 TCPHDR_SYN)) = 4"
    by (simp add: opt_len_def doff_bytes_def ref_th_def)
  then show "same_bytes 0 (nat (opt_len (ref_th 6 TCPHDR_SYN))) (mem_of [3, 3, 7, 0])
      (mem_of [3, 3, 7, 0, 99])"
    by (auto simp: same_bytes_def mem_of_def less_Suc_eq numeral_eq_Suc)
qed

lemma clip_wscale_le: "clip_wscale w \<le> 14"
proof -
  have "w \<le> 14 \<Longrightarrow> (ucast w :: u16) \<le> 14"
    by (simp add: word_le_nat_alt unsigned_ucast_eq) (meson le_trans take_bit_nat_less_eq_self)
  then show ?thesis by (auto simp: clip_wscale_def not_less)
qed

text \<open>
  Whatever options a SYN carries, a window scale the parsers store is at most 14, the
  largest shift TCP allows, so the later shifts of the 16-bit window are defined.
\<close>

theorem parsed_wscale_bounded:
  "i_ws_in (dysco_parse_tcp_syn_opt_r t m cb) \<le> max 14 (i_ws_in cb) \<and>
   i_ws_out (dysco_parse_tcp_syn_opt_r t m cb) \<le> max 14 (i_ws_out cb) \<and>
   o_ws_in (dysco_parse_tcp_syn_opt_s t m c) \<le> max 14 (o_ws_in c) \<and>
   o_ws_out (dysco_parse_tcp_syn_opt_s t m c) \<le> max 14 (o_ws_out c)"
proof -
  have r: "i_ws_in x \<le> max 14 (i_ws_in cb) \<and> i_ws_out x \<le> max 14 (i_ws_out cb)"
    if "x = dysco_parse_tcp_syn_opt_r t m cb" for x
    unfolding that dysco_parse_tcp_syn_opt_r_def
    by (rule tcp_options_inv [where P = "\<lambda>x. i_ws_in x \<le> max 14 (i_ws_in cb) \<and> i_ws_out x \<le> max 14 (i_ws_out cb)"])
      (auto simp: syn_opt_r_def clip_wscale_le le_max_iff_disj)
  have s: "o_ws_in x \<le> max 14 (o_ws_in c) \<and> o_ws_out x \<le> max 14 (o_ws_out c)"
    if "x = dysco_parse_tcp_syn_opt_s t m c" for x
    unfolding that dysco_parse_tcp_syn_opt_s_def
    by (rule tcp_options_inv [where P = "\<lambda>x. o_ws_in x \<le> max 14 (o_ws_in c) \<and> o_ws_out x \<le> max 14 (o_ws_out c)"])
      (auto simp: syn_opt_s_def clip_wscale_le le_max_iff_disj)
  show ?thesis using r s by blast
qed

section \<open>Options as data\<close>

text \<open>The reference view: options as a list, their wire encoding, and what they mean.\<close>

datatype tcp_opt = Nop | Opt u8 "u8 list"

fun wf_opt :: "tcp_opt \<Rightarrow> bool" where
  "wf_opt Nop = True"
| "wf_opt (Opt k bs) = (k \<noteq> TCPOPT_EOL \<and> k \<noteq> TCPOPT_NOP \<and> length bs \<le> 253)"

fun encode_opt :: "tcp_opt \<Rightarrow> u8 list" where
  "encode_opt Nop = [TCPOPT_NOP]"
| "encode_opt (Opt k bs) = k # of_nat (length bs + 2) # bs"

definition encode_opts :: "tcp_opt list \<Rightarrow> u8 list" where
  "encode_opts os = concat (map encode_opt os)"

definition holds :: "mem \<Rightarrow> nat \<Rightarrow> u8 list \<Rightarrow> bool" where
  "holds m p bs \<longleftrightarrow> (\<forall>i < length bs. m (p + i) = bs ! i)"

lemma holds_Cons: "holds m p (b # bs) \<longleftrightarrow> m p = b \<and> holds m (p + 1) bs"
  by (simp add: holds_def All_less_Suc2)

lemma holds_Nil: "holds m p []"
  by (simp add: holds_def)

lemma holds_append: "holds m p (as @ bs) \<longleftrightarrow> holds m p as \<and> holds m (p + length as) bs"
  by (induction as arbitrary: p) (simp_all add: holds_Cons, simp add: holds_def)

text \<open>The loop over well-formed options is the handler folded over the list.\<close>

fun run_opts :: "(u8 \<Rightarrow> int \<Rightarrow> nat \<Rightarrow> 's \<Rightarrow> bool \<times> 's) \<Rightarrow> nat \<Rightarrow> tcp_opt list \<Rightarrow> 's \<Rightarrow> bool \<times> 's" where
  "run_opts h p [] s = (True, s)"
| "run_opts h p (Nop # os) s = run_opts h (p + 1) os s"
| "run_opts h p (Opt k bs # os) s = (case h k (int (length bs) + 2) (p + 2) s of
     (stop, s') \<Rightarrow> if stop then (False, s') else run_opts h (p + 2 + length bs) os s')"

lemma tcp_options_run:
  "list_all wf_opt os \<Longrightarrow> holds m p (encode_opts os) \<Longrightarrow>
     tcp_options (\<lambda>_. m) h p (int (length (encode_opts os))) s = run_opts h p os s"
proof (induction h p os s rule: run_opts.induct)
  case (1 h p s)
  then show ?case by (simp add: encode_opts_def)
next
  case (2 h p os s)
  then show ?case by (simp add: encode_opts_def holds_Cons tcp_options_nop)
next
  case (3 h p k bs os s)
  then have m: "m p = k" "m (p + 1) = of_nat (length bs + 2)"
    "holds m (p + 2 + length bs) (encode_opts os)"
    and len: "length bs \<le> 253" and k: "k \<noteq> 0" "k \<noteq> 1"
    by (simp_all add: encode_opts_def holds_Cons holds_append add.assoc)
  have sz: "unat (m (p + 1)) = length bs + 2"
    unfolding m(2) unat_of_nat using len by simp
  moreover have "uint (m (p + 1)) = int (unat (m (p + 1)))" by simp
  ultimately have isz: "uint (m (p + 1)) = int (length bs) + 2" by linarith
  have "tcp_options (\<lambda>_. m) h p (int (length (encode_opts (Opt k bs # os)))) s =
    (case h k (int (length bs) + 2) (p + 2) s of (stop, s') \<Rightarrow>
       if stop then (False, s')
       else tcp_options (\<lambda>_. m) h (p + 2 + length bs) (int (length (encode_opts os))) s')"
    using m k isz sz by (subst tcp_options_opt) (simp_all add: opt_leaves_def encode_opts_def Let_def add.assoc split_beta)
  then show ?case using 3 m(3) by (auto split: prod.splits)
qed

text \<open>What an option of a SYN means for the input block.\<close>

definition opt_meaning_r :: "bool \<Rightarrow> tcp_opt \<Rightarrow> dysco_cb_in \<Rightarrow> dysco_cb_in" where
  "opt_meaning_r ack x cb = (case x of
     Opt k bs \<Rightarrow>
       if k = TCPOPT_WINDOW \<and> length bs = 1 then
         cb\<lparr>i_ws_ok := True, i_ws_delta := 0,
            i_ws_in := clip_wscale (bs ! 0), i_ws_out := clip_wscale (bs ! 0)\<rparr>
       else if k = TCPOPT_TIMESTAMP \<and> length bs = 8 \<and> ack then
         cb\<lparr>i_ts_ok := True,
            i_ts_in := get_be32 (mem_of bs) 0, i_ts_out := get_be32 (mem_of bs) 0,
            i_tsr_in := get_be32 (mem_of bs) 4, i_tsr_out := get_be32 (mem_of bs) 4,
            i_ts_delta := 0, i_tsr_delta := 0\<rparr>
       else if k = TCPOPT_SACK_PERM \<and> bs = [] then cb\<lparr>i_sack_ok := True\<rparr>
       else cb
   | Nop \<Rightarrow> cb)"

lemma get_be32_holds:
  assumes "holds m p bs" and "i + 4 \<le> length bs"
  shows "get_be32 m (p + i) = get_be32 (mem_of bs) i"
proof -
  have "m (p + j) = mem_of bs j" if "j < length bs" for j
    using assms(1) that by (simp add: holds_def mem_of_def)
  from this [of i] this [of "i + 1"] this [of "i + 2"] this [of "i + 3"] assms(2)
  show ?thesis by (simp add: get_be32_def get32_def add.assoc)
qed

lemma syn_opt_r_meaning:
  assumes "holds m q bs"
  shows "syn_opt_r t m k (int (length bs) + 2) q cb =
    (False, opt_meaning_r (tcp_flag_set t TCPHDR_ACK) (Opt k bs) cb)"
proof -
  have "length bs = 1 \<Longrightarrow> m q = bs ! 0" using assms by (auto simp: holds_def)
  moreover have "length bs = 8 \<Longrightarrow> get_be32 m q = get_be32 (mem_of bs) 0 \<and>
      get_be32 m (q + 4) = get_be32 (mem_of bs) 4"
    using get_be32_holds [OF assms, of 0] get_be32_holds [OF assms, of 4] by simp
  ultimately show ?thesis by (auto simp: syn_opt_r_def opt_meaning_r_def)
qed

lemma run_syn_opt_r:
  "list_all wf_opt os \<Longrightarrow> holds m p (encode_opts os) \<Longrightarrow>
     snd (run_opts (syn_opt_r t m) p os cb) =
       fold (opt_meaning_r (tcp_flag_set t TCPHDR_ACK)) os cb"
proof (induction "syn_opt_r t m" p os cb rule: run_opts.induct)
  case (2 p os s)
  then show ?case by (simp add: encode_opts_def holds_Cons opt_meaning_r_def)
next
  case (3 p k bs os s)
  then have "holds m (p + 2) bs" "holds m (p + 2 + length bs) (encode_opts os)"
    by (simp_all add: encode_opts_def holds_Cons holds_append add.assoc)
  then show ?case using 3 by (auto simp: syn_opt_r_meaning)
qed simp

text \<open>
  C39. The byte loop of the SYN parser implements its reference meaning: on the wire encoding of
  any list of well-formed options it yields the control block obtained by applying the
  meaning of each option in order (window scale, timestamps of a SYN-ACK, SACK permitted;
  everything else is skipped).
\<close>

theorem parse_syn_opt_r_meaning:
  assumes "list_all wf_opt os" and "holds m 0 (encode_opts os)"
    and "opt_len t = int (length (encode_opts os))"
  shows "dysco_parse_tcp_syn_opt_r t m cb =
    fold (opt_meaning_r (tcp_flag_set t TCPHDR_ACK)) os (cb\<lparr>i_sack_ok := False\<rparr>)"
  by (simp add: dysco_parse_tcp_syn_opt_r_def assms(3) tcp_options_run [OF assms(1,2)]
    run_syn_opt_r [OF assms(1,2)])

theorem parse_syn_opt_r_meaning_witness:
  "dysco_parse_tcp_syn_opt_r (ref_th 6 TCPHDR_SYN) (mem_of [3, 3, 7, 1]) zero_cb_in =
    fold (opt_meaning_r (tcp_flag_set (ref_th 6 TCPHDR_SYN) TCPHDR_ACK)) [Opt 3 [7], Nop]
      (zero_cb_in\<lparr>i_sack_ok := False\<rparr>)"
  by (rule parse_syn_opt_r_meaning)
    (simp_all add: encode_opts_def holds_Cons mem_of_def opt_len_def doff_bytes_def ref_th_def,
      simp add: holds_def)

text \<open>The timestamp search finds the body of an option that lies in the option area.\<close>

lemma ts_handler_miss:
  "\<not> (k = TCPOPT_TIMESTAMP \<and> sz = TCPOLEN_TIMESTAMP) \<Longrightarrow> ts_option_handler k sz q r = (False, r)"
  by (auto simp: ts_option_handler_def)

lemma ts_option_found:
  assumes "snd (tcp_options (\<lambda>_. m) ts_option_handler p len r) = Some q" and "r = None"
  shows "p + 2 \<le> q \<and> int q + 8 \<le> int p + len \<and> m (q - 2) = TCPOPT_TIMESTAMP \<and> m (q - 1) = 10"
  using assms
proof (induction p len r rule: tcp_options_induct [where rd = "\<lambda>_. m"])
  case (opt p len s)
  have sz: "2 \<le> uint (m (p + 1))" "uint (m (p + 1)) \<le> len" using opt_size opt.hyps(2,3) by auto
  show ?case
  proof (cases "m p = TCPOPT_TIMESTAMP \<and> uint (m (p + 1)) = 10")
    case True
    then have "m (p + 1) = 10" by (simp add: word_uint_eq_iff)
    then show ?thesis using opt True sz
      by (auto simp: tcp_options_opt ts_option_handler_def Let_def)
  next
    case False
    then have "snd (tcp_options (\<lambda>_. m) ts_option_handler (p + unat (m (p + 1)))
        (len - uint (m (p + 1))) s) = Some q"
      using opt.hyps opt.prems(1) by (simp add: tcp_options_opt ts_handler_miss Let_def)
    from opt.IH [OF this opt.prems(2)] sz show ?thesis by simp
  qed
qed (simp_all add: tcp_options_leave tcp_options_nop)

text \<open>
  The timestamp search returns only positions inside the header: the option's kind and
  length bytes precede the position and its eight body bytes end within the option area.
  The rewrites of the timestamps therefore never touch the payload.
\<close>

theorem get_ts_option_in_header:
  assumes "dysco_get_ts_option t m = Some q"
  shows "2 \<le> q \<and> int q + 8 \<le> opt_len t \<and> m (q - 2) = TCPOPT_TIMESTAMP \<and> m (q - 1) = 10"
  using ts_option_found [OF assms [unfolded dysco_get_ts_option_def] refl] by simp

theorem get_ts_option_in_header_witness:
  "2 \<le> (4::nat) \<and> int 4 + 8 \<le> opt_len (ref_th 8 TCPHDR_ACK) \<and>
   mem_of [1, 1, 8, 10] (4 - 2) = TCPOPT_TIMESTAMP \<and> mem_of [1, 1, 8, 10] (4 - 1) = 10"
proof (rule get_ts_option_in_header)
  have "opt_len (ref_th 8 TCPHDR_ACK) = 12" by (simp add: opt_len_def doff_bytes_def ref_th_def)
  then show "dysco_get_ts_option (ref_th 8 TCPHDR_ACK) (mem_of [1, 1, 8, 10]) = Some 4"
    by (simp add: dysco_get_ts_option_def tcp_options.simps mem_of_def ts_option_handler_def Let_def)
qed

section \<open>SACK blocks\<close>

text \<open>What the translation does to the option memory, apart from checksum and counter.\<close>

fun shift_mem :: "u32 \<Rightarrow> bool \<Rightarrow> nat \<Rightarrow> nat \<Rightarrow> mem \<Rightarrow> mem" where
  "shift_mem delta add p 0 m = m"
| "shift_mem delta add p (Suc n) m = shift_mem delta add (p + 8) n
     (put32 (put32 m p (shift_edge delta add (get32 m p)))
       (p + 4) (shift_edge delta add (get32 m (p + 4))))"

definition sack_mem_handler :: "u32 \<Rightarrow> bool \<Rightarrow> u8 \<Rightarrow> int \<Rightarrow> nat \<Rightarrow> mem \<Rightarrow> bool \<times> mem" where
  "sack_mem_handler delta add opcode opsize ptr m =
     (False, if is_sack opcode opsize then shift_mem delta add ptr (nat ((opsize - 2) div 8)) m else m)"

definition sack_mem :: "u32 \<Rightarrow> bool \<Rightarrow> nat \<Rightarrow> int \<Rightarrow> mem \<Rightarrow> mem" where
  "sack_mem delta add p len m = snd (tcp_options id (sack_mem_handler delta add) p len m)"

lemma tdata_th_csum4 [simp]: "tdata (dysco_th_csum4 K f t p b) = tdata b"
  by (simp add: dysco_th_csum4_def)

lemma sack_blocks_mem:
  "tdata (fst (sack_blocks K delta add p (8 * int n) (b, st))) = shift_mem delta add p n (tdata b)"
proof (induction n arbitrary: p b st)
  case (Suc n)
  have "8 * int (Suc n) - 8 = 8 * int n" by simp
  then show ?case using Suc by (subst sack_blocks.simps) (simp add: Let_def)
qed (simp add: sack_blocks.simps)

lemma sack_blocks_csum_mem:
  "tdata (sa_skb (sack_blocks_csum delta add p (8 * int n) a)) = shift_mem delta add p n (tdata (sa_skb a))"
proof (induction n arbitrary: p a)
  case (Suc n)
  have "8 * int (Suc n) - 8 = 8 * int n" by simp
  then show ?case using Suc by (subst sack_blocks_csum.simps) (simp add: Let_def)
qed (simp add: sack_blocks_csum.simps)

lemma is_sack_blocks: "is_sack k sz \<Longrightarrow> \<exists>n. sz - 2 = 8 * int n \<and> nat ((sz - 2) div 8) = n \<and> 0 < n"
  unfolding is_sack_def
  by (rule exI [of _ "nat ((sz - 2) div 8)"]) (auto simp: mod_eq_0_iff_dvd)

lemma dysco_tcp_sack_mem:
  "tdata (fst (dysco_tcp_sack K delta add (b, st))) =
     sack_mem delta add 0 (opt_len (th b)) (tdata b)"
proof -
  have h: "sack_mem_handler delta add opc sz q (tdata (fst bs)) =
      map_prod id (\<lambda>bs. tdata (fst bs)) (sack_handler K delta add opc sz q bs)" for opc sz q bs
  proof (cases "is_sack opc sz")
    case True
    then obtain n where "sz - 2 = 8 * int n" "nat ((sz - 2) div 8) = n"
      using is_sack_blocks by blast
    then show ?thesis using True sack_blocks_mem [of K delta add q n "fst bs" "snd bs"]
      by (simp add: sack_mem_handler_def sack_handler_def)
  qed (simp add: sack_mem_handler_def sack_handler_def)
  have "tcp_options id (sack_mem_handler delta add) p len (tdata (fst bs)) =
      map_prod id (\<lambda>bs. tdata (fst bs)) (tcp_options (\<lambda>bs. tdata (fst bs)) (sack_handler K delta add) p len bs)"
    for p len bs
    by (rule tcp_options_hom [where f = "\<lambda>bs. tdata (fst bs)"]) (simp_all add: h)
  from this [of 0 "opt_len (th b)" "(b, st)"] show ?thesis
    by (simp add: sack_mem_def dysco_tcp_sack_def)
qed

lemma get32_put32_other: "j + 4 \<le> i \<or> i + 4 \<le> j \<Longrightarrow> get32 (put32 m i w) j = get32 m j"
  by (auto simp: get32_def)

lemma put32_comm: "i + 4 \<le> j \<Longrightarrow> put32 (put32 m i v) j w = put32 (put32 m j w) i v"
  by (auto simp: put32_def fun_eq_iff)

lemma shift_edge_inv: "shift_edge d (\<not> a) (shift_edge d a e) = e"
  by (cases a) (simp_all add: shift_edge_def)

text \<open>A memory function that stays above an address commutes with writes below it.\<close>

definition above :: "nat \<Rightarrow> (mem \<Rightarrow> mem) \<Rightarrow> bool" where
  "above p F \<longleftrightarrow> (\<forall>m i. i < p \<longrightarrow> F m i = m i) \<and>
     (\<forall>m j w. j + 4 \<le> p \<longrightarrow> F (put32 m j w) = put32 (F m) j w)"

lemma above_mono: "above q F \<Longrightarrow> p \<le> q \<Longrightarrow> above p F"
  by (simp add: above_def)

lemma above_comp: "above p F \<Longrightarrow> above p G \<Longrightarrow> above p (\<lambda>m. F (G m))"
  by (simp add: above_def)

lemma above_get: "above p F \<Longrightarrow> i < p \<Longrightarrow> F m i = m i"
  by (simp add: above_def)

lemma above_get32: "above p F \<Longrightarrow> j + 4 \<le> p \<Longrightarrow> get32 (F m) j = get32 m j"
  by (simp add: above_def get32_def)

lemma above_put32: "above p F \<Longrightarrow> j + 4 \<le> p \<Longrightarrow> F (put32 m j w) = put32 (F m) j w"
  by (simp add: above_def)

lemma above_shift_mem: "above p (shift_mem d a p n)"
proof (induction n arbitrary: p)
  case (Suc n)
  let ?S = "shift_mem d a (p + 8) n"
  have S: "above p ?S" using above_mono [OF Suc] by simp
  have "shift_mem d a p (Suc n) (put32 m j w) = put32 (shift_mem d a p (Suc n) m) j w"
    if "j + 4 \<le> p" for m j w
  proof -
    have "put32 (put32 (put32 m j w) p x) (p + 4) y = put32 (put32 (put32 m p x) (p + 4) y) j w" for x y
      using that put32_comm [of j p m w x] put32_comm [of j "p + 4" "put32 m p x" w y] by simp
    then show ?thesis using that by (simp add: get32_put32_other above_put32 [OF S])
  qed
  moreover have "shift_mem d a p (Suc n) m i = m i" if "i < p" for m i
    using that by (simp add: above_get [OF S])
  ultimately show ?case by (simp add: above_def)
qed (simp add: above_def)

lemma above_shift_comm:
  "above p F \<Longrightarrow> q + 8 * n \<le> p \<Longrightarrow> F (shift_mem d a q n m) = shift_mem d a q n (F m)"
  by (induction n arbitrary: q m) (simp_all add: above_put32 above_get32)

lemma put32_pair_put: "put32 (put32 (put32 (put32 m p x) (p + 4) y) p v) (p + 4) w = put32 (put32 m p v) (p + 4) w"
  by (simp add: put32_def fun_eq_iff)

lemma put32_pair_get: "put32 (put32 (put32 (put32 m p x) (p + 4) y) p (get32 m p)) (p + 4) (get32 m (p + 4)) = m"
  by (simp add: put32_pair_put)

lemma shift_mem_inv: "shift_mem d (\<not> a) p n (shift_mem d a p n m) = m"
proof (induction n arbitrary: p m)
  case (Suc n)
  let ?S = "shift_mem d a (p + 8) n"
  let ?x = "shift_edge d a (get32 m p)" and ?y = "shift_edge d a (get32 m (p + 4))"
  have S: "above (p + 8) ?S" by (rule above_shift_mem)
  have "?S (put32 (put32 m p ?x) (p + 4) ?y) = put32 (put32 (?S m) p ?x) (p + 4) ?y"
    by (simp add: above_put32 [OF S])
  then show ?case
    using Suc above_get32 [OF S, of p m] above_get32 [OF S, of "p + 4" m]
      put32_pair_get [of "?S m" p ?x ?y]
    by (simp add: get32_put32_other shift_edge_inv)
qed simp

lemma sack_mem_end: "len \<le> 0 \<Longrightarrow> sack_mem d a p len m = m"
  by (simp add: sack_mem_def)

lemma sack_mem_leave: "0 < len \<Longrightarrow> opt_leaves (m p) (m (p + 1)) len \<Longrightarrow> sack_mem d a p len m = m"
  by (simp add: sack_mem_def tcp_options_leave)

lemma sack_mem_nop: "0 < len \<Longrightarrow> m p = TCPOPT_NOP \<Longrightarrow> sack_mem d a p len m = sack_mem d a (p + 1) (len - 1) m"
  by (simp add: sack_mem_def tcp_options_nop)

lemma sack_mem_opt:
  "0 < len \<Longrightarrow> \<not> opt_leaves (m p) (m (p + 1)) len \<Longrightarrow> m p \<noteq> TCPOPT_NOP \<Longrightarrow>
     sack_mem d a p len m = sack_mem d a (p + unat (m (p + 1))) (len - uint (m (p + 1)))
       (snd (sack_mem_handler d a (m p) (uint (m (p + 1))) (p + 2) m))"
  by (simp add: sack_mem_def tcp_options_opt sack_mem_handler_def Let_def)

lemma sack_body:
  assumes "is_sack k (uint l)"
  obtains n where "nat ((uint l - 2) div 8) = n" "2 + 8 * n = unat l"
proof -
  obtain n where n: "uint l - 2 = 8 * int n" "nat ((uint l - 2) div 8) = n"
    using is_sack_blocks assms by blast
  have "uint l = int (unat l)" by simp
  then have "2 + 8 * n = unat l" using n(1) by linarith
  with n(2) show ?thesis by (rule that)
qed

lemma sack_handler_shift:
  assumes "2 \<le> unat l"
  shows "\<exists>n. 2 + 8 * n \<le> unat l \<and>
    (\<forall>d a q m. snd (sack_mem_handler d a k (uint l) q m) = shift_mem d a q n m)"
proof (cases "is_sack k (uint l)")
  case True
  then obtain n where "nat ((uint l - 2) div 8) = n" "2 + 8 * n = unat l" by (rule sack_body)
  with True show ?thesis by (intro exI [of _ n]) (simp add: sack_mem_handler_def)
next
  case False
  with assms show ?thesis by (intro exI [of _ 0]) (simp add: sack_mem_handler_def)
qed

lemma above_sack_mem: "above p (sack_mem d a p len)"
proof -
  have get: "i < p \<Longrightarrow> sack_mem d a p len m i = m i"
    and put: "j + 4 \<le> p \<Longrightarrow> sack_mem d a p len (put32 m j w) = put32 (sack_mem d a p len m) j w"
    for m i j w
  proof (induction p len m rule: tcp_options_induct [where rd = "\<lambda>m. m"])
    case (fin p len s)
    { case 1 then show ?case using fin by (simp add: sack_mem_end) }
    { case 2 then show ?case using fin by (simp add: sack_mem_end) }
  next
    case (leave p len m)
    { case 1 then show ?case using leave by (simp add: sack_mem_leave) }
    { case 2 then show ?case using leave by (simp add: sack_mem_leave) }
  next
    case (nop p len m)
    { case 1 then show ?case using nop by (simp add: sack_mem_nop) }
    { case 2 then show ?case using nop by (simp add: sack_mem_nop) }
  next
    case (opt p len m)
    let ?l = "m (p + 1)"
    have sz: "2 \<le> unat ?l" using opt_size [OF opt.hyps(2,3)] by (simp add: unat_ge_uint)
    obtain n where n: "2 + 8 * n \<le> unat ?l"
      "\<And>d a q m'. snd (sack_mem_handler d a (m p) (uint ?l) q m') = shift_mem d a q n m'"
      using sack_handler_shift [OF sz, of "m p"] by blast
    have step: "sack_mem d a p len m' = sack_mem d a (p + unat ?l) (len - uint ?l) (shift_mem d a (p + 2) n m')"
      if "m' p = m p" "m' (p + 1) = ?l" for m'
      using opt.hyps that n(2) by (simp add: sack_mem_opt)
    have S: "above p (shift_mem d a (p + 2) n)" using above_mono [OF above_shift_mem] by simp
    { case 1 then show ?case using opt.IH(1) sz above_get [OF S, of i m] by (simp add: step) }
    { case 2
      then have "put32 m j w p = m p" "put32 m j w (p + 1) = ?l" by simp_all
      then show ?case using opt.IH(2) 2 sz above_put32 [OF S, of j m w] by (simp add: step) }
  qed
  show ?thesis by (simp add: above_def get put)
qed

lemma sack_mem_inv: "sack_mem d (\<not> a) p len (sack_mem d a p len m) = m"
proof (induction p len m rule: tcp_options_induct [where rd = "\<lambda>m. m"])
  case (nop p len m)
  then show ?case using above_get [OF above_sack_mem, of p "p + 1" d a "len - 1" m]
    by (simp add: sack_mem_nop)
next
  case (opt p len m)
  let ?l = "m (p + 1)"
  let ?F = "sack_mem d a (p + unat ?l) (len - uint ?l)"
  have sz: "2 \<le> unat ?l" using opt_size [OF opt.hyps(2,3)] by (simp add: unat_ge_uint)
  obtain n where n: "2 + 8 * n \<le> unat ?l"
    "\<And>d a q m'. snd (sack_mem_handler d a (m p) (uint ?l) q m') = shift_mem d a q n m'"
    using sack_handler_shift [OF sz, of "m p"] by blast
  have F: "above (p + unat ?l) ?F" by (rule above_sack_mem)
  have S: "above (p + 2) (shift_mem d a (p + 2) n)" by (rule above_shift_mem)
  define M where "M = sack_mem d a p len m"
  have r: "M = shift_mem d a (p + 2) n (?F m)"
    using opt.hyps above_shift_comm [OF F, of "p + 2" n] n by (simp add: M_def sack_mem_opt)
  have b: "M p = m p" "M (p + 1) = ?l"
    using sz above_get [OF F, of p m] above_get [OF F, of "p + 1" m]
      above_get [OF S, of p "?F m"] above_get [OF S, of "p + 1" "?F m"] by (simp_all add: r)
  have "sack_mem d (\<not> a) p len M =
      sack_mem d (\<not> a) (p + unat ?l) (len - uint ?l) (shift_mem d (\<not> a) (p + 2) n M)"
    using opt.hyps b n by (simp add: sack_mem_opt)
  also have "shift_mem d (\<not> a) (p + 2) n M = ?F m"
    by (simp add: r shift_mem_inv)
  finally show ?case using opt.IH [of m] by (simp add: M_def)
qed (simp_all add: sack_mem_end sack_mem_leave)

lemma th_sack_blocks: "doff (th (fst (sack_blocks K delta add p len bs))) = doff (th (fst bs))"
proof (induction "nat len" arbitrary: p len bs rule: less_induct)
  case (less len p bs)
  obtain b st where bs: "bs = (b, st)" by fastforce
  show ?case
    using less unfolding bs by (subst sack_blocks.simps) (simp add: Let_def dysco_th_csum4_def)
qed

lemma opt_len_sack: "opt_len (th (fst (dysco_tcp_sack K delta add bs))) = opt_len (th (fst bs))"
proof -
  have "doff (th (fst (dysco_tcp_sack K delta add bs))) = doff (th (fst bs))"
    unfolding dysco_tcp_sack_def
    by (rule tcp_options_inv [where P = "\<lambda>x. doff (th (fst x)) = doff (th (fst bs))"])
      (simp_all add: sack_handler_def th_sack_blocks)
  then show ?thesis by (simp add: opt_len_def doff_bytes_def)
qed

section \<open>The translated edges\<close>

text \<open>
  The reference view of a translation: the body of a SACK option is a sequence of edges, each a
  32-bit number with its most significant byte first, and every edge is moved by the delta.
\<close>

definition be_val :: "u8 \<Rightarrow> u8 \<Rightarrow> u8 \<Rightarrow> u8 \<Rightarrow> u32" where
  "be_val b3 b2 b1 b0 = push_bit 24 (ucast b3) OR push_bit 16 (ucast b2) OR push_bit 8 (ucast b1) OR ucast b0"

definition be_bytes :: "u32 \<Rightarrow> u8 list" where
  "be_bytes w = [ucast (drop_bit 24 w), ucast (drop_bit 16 w), ucast (drop_bit 8 w), ucast w]"

fun shift_edges :: "u32 \<Rightarrow> bool \<Rightarrow> u8 list \<Rightarrow> u8 list" where
  "shift_edges d a (b3 # b2 # b1 # b0 # bs) =
     be_bytes (if a then be_val b3 b2 b1 b0 + d else be_val b3 b2 b1 b0 - d) @ shift_edges d a bs"
| "shift_edges d a bs = bs"

fun shift_opt :: "u32 \<Rightarrow> bool \<Rightarrow> tcp_opt \<Rightarrow> tcp_opt" where
  "shift_opt d a Nop = Nop"
| "shift_opt d a (Opt k bs) = Opt k (if k = TCPOPT_SACK \<and> bs \<noteq> [] \<and> 8 dvd length bs then shift_edges d a bs else bs)"

lemma length_shift_edges [simp]: "length (shift_edges d a bs) = length bs"
  by (induction d a bs rule: shift_edges.induct) (simp_all add: be_bytes_def)

lemma length_encode_shift [simp]: "length (encode_opt (shift_opt d a x)) = length (encode_opt x)"
  by (cases x) simp_all

lemma length_encode_shifts [simp]: "length (encode_opts (map (shift_opt d a) os)) = length (encode_opts os)"
  by (induction os) (simp_all add: encode_opts_def)

lemma ntohl_get32: "ntohl (get32 m p) = be_val (m p) (m (p + 1)) (m (p + 2)) (m (p + 3))"
proof (rule bit_word_eqI)
  fix n :: nat
  assume "n < LENGTH(32)"
  then consider "n < 8" | "8 \<le> n" "n < 16" | "16 \<le> n" "n < 24" | "24 \<le> n" "n < 32"
    by fastforce
  then show "bit (ntohl (get32 m p)) n \<longleftrightarrow> bit (be_val (m p) (m (p + 1)) (m (p + 2)) (m (p + 3))) n"
    by cases (auto simp: bit_bswap32 get32_def be_val_def bit_simps dest: bit_imp_le_length)
qed

lemma put32_htonl: "holds (put32 m p (htonl w)) p (be_bytes w)"
proof -
  have b: "ucast (htonl w) = (ucast (drop_bit 24 w) :: u8)" "ucast (drop_bit 8 (htonl w)) = (ucast (drop_bit 16 w) :: u8)"
    "ucast (drop_bit 16 (htonl w)) = (ucast (drop_bit 8 w) :: u8)" "ucast (drop_bit 24 (htonl w)) = (ucast w :: u8)"
    by (rule bit_word_eqI, auto simp: bit_simps bit_bswap32 dest: bit_imp_le_length)+
  show ?thesis by (simp add: be_bytes_def put32_def holds_Cons b) (simp add: holds_def)
qed

lemma holds_cong: "(\<And>i. p \<le> i \<Longrightarrow> i < p + length bs \<Longrightarrow> m' i = m i) \<Longrightarrow> holds m' p bs = holds m p bs"
  by (simp add: holds_def)

lemma shift_edge_be:
  assumes "holds m p [b3, b2, b1, b0]"
  shows "shift_edge d a (get32 m p) = htonl (if a then be_val b3 b2 b1 b0 + d else be_val b3 b2 b1 b0 - d)"
proof -
  have "m p = b3" "m (p + 1) = b2" "m (p + 2) = b1" "m (p + 3) = b0"
    using assms by (simp_all add: holds_Cons eval_nat_numeral)
  then show ?thesis using ntohl_get32 [of m p] by (simp add: shift_edge_def)
qed

lemma shift_mem_edges:
  "holds m p bs \<Longrightarrow> length bs = 8 * n \<Longrightarrow> holds (shift_mem d a p n m) p (shift_edges d a bs) \<and>
     (\<forall>i. i < p \<or> p + 8 * n \<le> i \<longrightarrow> shift_mem d a p n m i = m i)"
proof (induction n arbitrary: p m bs)
  case (Suc n)
  then have "length bs = Suc (Suc (Suc (Suc (Suc (Suc (Suc (Suc (8 * n))))))))" by simp
  then obtain b7 b6 b5 b4 b3 b2 b1 b0 cs where bs: "bs = b7 # b6 # b5 # b4 # b3 # b2 # b1 # b0 # cs" "length cs = 8 * n"
    unfolding length_Suc_conv by blast
  have h: "holds m p [b7, b6, b5, b4]" "holds m (p + 4) [b3, b2, b1, b0]" "holds m (p + 8) cs"
    using Suc.prems(1) unfolding bs(1) by (simp_all add: holds_Cons holds_Nil eval_nat_numeral)
  let ?x = "if a then be_val b7 b6 b5 b4 + d else be_val b7 b6 b5 b4 - d"
  let ?y = "if a then be_val b3 b2 b1 b0 + d else be_val b3 b2 b1 b0 - d"
  let ?m = "put32 (put32 m p (htonl ?x)) (p + 4) (htonl ?y)"
  have m: "holds ?m (p + 8) cs" using h(3) by (subst holds_cong) auto
  note IH = Suc.IH [OF m bs(2)]
  have s: "shift_mem d a p (Suc n) m = shift_mem d a (p + 8) n ?m"
    by (simp add: shift_edge_be [OF h(1)] shift_edge_be [OF h(2)])
  have l: "length (be_bytes w) = 4" for w by (simp add: be_bytes_def)
  have "holds (shift_mem d a p (Suc n) m) p (be_bytes ?x)"
    unfolding s using IH put32_htonl [of m p ?x] by (subst holds_cong [where m = "put32 m p (htonl ?x)"]) (auto simp: l)
  moreover have "holds (shift_mem d a p (Suc n) m) (p + 4) (be_bytes ?y)"
    unfolding s using IH put32_htonl [of "put32 m p (htonl ?x)" "p + 4" ?y] by (subst holds_cong [where m = ?m]) (auto simp: l)
  moreover have "holds (shift_mem d a p (Suc n) m) (p + 8) (shift_edges d a cs)" unfolding s using IH by simp
  moreover have "shift_mem d a p (Suc n) m i = m i" if "i < p \<or> p + 8 * Suc n \<le> i" for i
    unfolding s using IH that by auto
  ultimately show ?case by (auto simp: bs(1) holds_append l add.assoc)
qed (cases bs, simp_all)

lemma is_sack_length:
  "is_sack k (int (length bs) + 2) \<longleftrightarrow> k = TCPOPT_SACK \<and> bs \<noteq> [] \<and> 8 dvd length bs"
proof -
  have "(int (length bs) mod 8 = 0) = (8 dvd length bs)"
    unfolding mod_eq_0_iff_dvd by (metis int_dvd_int_iff of_nat_numeral)
  moreover have "8 \<le> length bs" if "8 dvd length bs" "bs \<noteq> []"
    using that by (simp add: dvd_imp_le)
  ultimately show ?thesis by (auto simp: is_sack_def)
qed

text \<open>The whole loop on an option area: the options translated one by one, nothing else written.\<close>

lemma sack_mem_options:
  "list_all wf_opt os \<Longrightarrow> holds m p (encode_opts os) \<Longrightarrow>
     holds (sack_mem d a p (int (length (encode_opts os))) m) p (encode_opts (map (shift_opt d a) os)) \<and>
     (\<forall>i. i < p \<or> p + length (encode_opts os) \<le> i \<longrightarrow> sack_mem d a p (int (length (encode_opts os))) m i = m i)"
proof (induction os arbitrary: p m)
  case Nil
  then show ?case by (simp add: encode_opts_def sack_mem_end holds_def)
next
  case (Cons x os)
  show ?case
  proof (cases x)
    case Nop
    then have 1: "m p = TCPOPT_NOP" "holds m (p + 1) (encode_opts os)" using Cons.prems(2) by (simp_all add: encode_opts_def holds_Cons)
    have s: "sack_mem d a p (int (length (encode_opts (x # os)))) m = sack_mem d a (p + 1) (int (length (encode_opts os))) m"
      using Nop 1(1) by (simp add: encode_opts_def sack_mem_nop)
    show ?thesis using Cons.IH [OF _ 1(2)] Cons.prems(1) Nop 1(1)
      unfolding s by (simp add: encode_opts_def holds_Cons)
  next
    case (Opt k bs)
    then have len: "length bs \<le> 253" and k: "k \<noteq> TCPOPT_EOL" "k \<noteq> TCPOPT_NOP" and wf: "list_all wf_opt os"
      using Cons.prems(1) by simp_all
    have h: "m p = k" "m (p + 1) = of_nat (length bs + 2)" "holds m (p + 2) bs" "holds m (p + 2 + length bs) (encode_opts os)"
      using Cons.prems(2) Opt by (simp_all add: encode_opts_def holds_Cons holds_append add.assoc)
    have sz: "unat (m (p + 1)) = length bs + 2" unfolding h(2) unat_of_nat using len by simp
    moreover have "uint (m (p + 1)) = int (unat (m (p + 1)))" by simp
    ultimately have isz: "uint (m (p + 1)) = int (length bs) + 2" by linarith
    let ?q = "p + 2 + length bs"
    define m1 where "m1 = snd (sack_mem_handler d a k (int (length bs) + 2) (p + 2) m)"
    have s: "sack_mem d a p (int (length (encode_opts (x # os)))) m = sack_mem d a ?q (int (length (encode_opts os))) m1"
      using h(1) isz sz k Opt by (subst sack_mem_opt) (simp_all add: encode_opts_def opt_leaves_def m1_def add.assoc)
    let ?bs = "if k = TCPOPT_SACK \<and> bs \<noteq> [] \<and> 8 dvd length bs then shift_edges d a bs else bs"
    have m1: "holds m1 (p + 2) ?bs" "i < p + 2 \<or> ?q \<le> i \<Longrightarrow> m1 i = m i" for i
    proof -
      have "holds m1 (p + 2) ?bs \<and> (\<forall>i. i < p + 2 \<or> ?q \<le> i \<longrightarrow> m1 i = m i)"
      proof (cases "is_sack k (int (length bs) + 2)")
        case True
        then obtain n where n: "length bs = 8 * n" by (auto simp: is_sack_length)
        then have "m1 = shift_mem d a (p + 2) n m" using True by (simp add: m1_def sack_mem_handler_def)
        moreover have "?bs = shift_edges d a bs" using True unfolding is_sack_length by simp
        ultimately show ?thesis using shift_mem_edges [OF h(3) n, of d a] n by simp
      next
        case False
        then have "m1 = m" by (simp add: m1_def sack_mem_handler_def)
        moreover have "?bs = bs" using False unfolding is_sack_length by auto
        ultimately show ?thesis using h(3) by simp
      qed
      then show "holds m1 (p + 2) ?bs" "i < p + 2 \<or> ?q \<le> i \<Longrightarrow> m1 i = m i" by blast+
    qed
    have "holds m1 ?q (encode_opts os)" using h(4) m1(2) by (subst holds_cong) auto
    note IH = Cons.IH [OF wf this]
    let ?M = "sack_mem d a ?q (int (length (encode_opts os))) m1"
    have "?M p = k" "?M (p + 1) = of_nat (length ?bs + 2)" using IH m1(2) h(1,2) by simp_all
    moreover have "holds ?M (p + 2) ?bs"
    proof -
      have "length ?bs = length bs" by simp
      then have "holds ?M (p + 2) ?bs = holds m1 (p + 2) ?bs" using IH by (intro holds_cong) simp
      then show ?thesis using m1(1) by blast
    qed
    moreover have "holds ?M (p + 2 + length ?bs) (encode_opts (map (shift_opt d a) os))" using IH by simp
    moreover have "encode_opts (map (shift_opt d a) (x # os)) = k # of_nat (length ?bs + 2) # ?bs @ encode_opts (map (shift_opt d a) os)"
      using Opt by (simp add: encode_opts_def)
    moreover have "?M i = m i" if "i < p \<or> p + length (encode_opts (x # os)) \<le> i" for i
      using that IH m1(2) Opt by (auto simp: encode_opts_def)
    ultimately show ?thesis unfolding s by (simp add: holds_Cons holds_append add.assoc)
  qed
qed

text \<open>
  C40. What the translation of the SACK blocks does to a segment, and that it can be undone. When the
  option area holds well-formed options, it holds the same options afterwards, except that in
  each SACK option of complete blocks every edge, left and right, read as a number with its most
  significant byte first, is moved by the delta in the direction asked for and written back the
  same way; no byte behind the options is touched. Translating back restores every byte of the
  packet, for any option area, well-formed or not.
\<close>

theorem sack_roundtrip:
  assumes "list_all wf_opt os" and "holds (tdata (fst bs)) 0 (encode_opts os)"
    and "opt_len (th (fst bs)) = int (length (encode_opts os))"
  shows "holds (tdata (fst (dysco_tcp_sack K d a bs))) 0 (encode_opts (map (shift_opt d a) os)) \<and>
    (\<forall>i. length (encode_opts os) \<le> i \<longrightarrow> tdata (fst (dysco_tcp_sack K d a bs)) i = tdata (fst bs) i) \<and>
    tdata (fst (dysco_tcp_sack K' d (\<not> a) (dysco_tcp_sack K d a bs'))) = tdata (fst bs')"
proof -
  have "tdata (fst (dysco_tcp_sack K d a bs)) = sack_mem d a 0 (opt_len (th (fst bs))) (tdata (fst bs))"
    using dysco_tcp_sack_mem [of K d a "fst bs" "snd bs"] by simp
  then have "holds (tdata (fst (dysco_tcp_sack K d a bs))) 0 (encode_opts (map (shift_opt d a) os)) \<and>
    (\<forall>i. length (encode_opts os) \<le> i \<longrightarrow> tdata (fst (dysco_tcp_sack K d a bs)) i = tdata (fst bs) i)"
    using sack_mem_options [OF assms(1,2), of d a] assms(3) by simp
  moreover have "tdata (fst (dysco_tcp_sack K' d (\<not> a) (dysco_tcp_sack K d a bs'))) = tdata (fst bs')"
    using opt_len_sack [of K d a bs'] dysco_tcp_sack_mem [of K d a "fst bs'" "snd bs'"]
      dysco_tcp_sack_mem [of K' d "\<not> a" "fst (dysco_tcp_sack K d a bs')" "snd (dysco_tcp_sack K d a bs')"]
    by (simp add: sack_mem_inv)
  ultimately show ?thesis by blast
qed

text \<open>One block from 1000 to 2000, moved up by 300: the edges are 1300 and 2300.\<close>

theorem sack_roundtrip_witness:
  "holds (tdata (fst (dysco_tcp_sack ref_kapi 300 True (ref_skb 8 0 (mem_of [1, 1, 5, 10, 0, 0, 3, 232, 0, 0, 7, 208]) 0,
      \<lparr>tcp_sack_rewrites = 0, tcp_ts_rewrites = 0, tcp_tsr_rewrites = 0\<rparr>)))) 0 [1, 1, 5, 10, 0, 0, 5, 20, 0, 0, 8, 252]"
proof -
  let ?bs = "(ref_skb 8 0 (mem_of [1, 1, 5, 10, 0, 0, 3, 232, 0, 0, 7, 208]) 0, \<lparr>tcp_sack_rewrites = 0, tcp_ts_rewrites = 0, tcp_tsr_rewrites = 0\<rparr>)"
  let ?os = "[Nop, Nop, Opt 5 [0, 0, 3, 232, 0, 0, 7, 208]]"
  have "holds (tdata (fst ?bs)) 0 (encode_opts ?os)" "opt_len (th (fst ?bs)) = int (length (encode_opts ?os))"
    by (simp_all add: encode_opts_def holds_Cons mem_of_def opt_len_def doff_bytes_def ref_th_def ref_skb_def)
      (simp add: holds_def)
  then have "holds (tdata (fst (dysco_tcp_sack ref_kapi 300 True ?bs))) 0 (encode_opts (map (shift_opt 300 True) ?os))"
    using sack_roundtrip [of ?os ?bs ref_kapi 300 True] by simp
  moreover have "encode_opts (map (shift_opt 300 True) ?os) = [1, 1, 5, 10, 0, 0, 5, 20, 0, 0, 8, 252]" by code_simp
  ultimately show ?thesis by simp
qed

lemma sack_variants_agree:
  "tdata (fst (dysco_tcp_sack_csum K delta add bs)) = tdata (fst (dysco_tcp_sack K delta add bs))"
proof -
  have h: "sack_mem_handler delta add opc sz q (tdata (sa_skb a)) =
      map_prod id (\<lambda>a. tdata (sa_skb a)) (sack_csum_handler delta add opc sz q a)" for opc sz q a
  proof (cases "is_sack opc sz")
    case True
    then obtain n where "sz - 2 = 8 * int n" "nat ((sz - 2) div 8) = n"
      using is_sack_blocks by blast
    then show ?thesis using True sack_blocks_csum_mem [of delta add q n a]
      by (simp add: sack_mem_handler_def sack_csum_handler_def)
  qed (simp add: sack_mem_handler_def sack_csum_handler_def)
  have "tcp_options id (sack_mem_handler delta add) p len (tdata (sa_skb a)) =
      map_prod id (\<lambda>a. tdata (sa_skb a))
        (tcp_options (\<lambda>a. tdata (sa_skb a)) (sack_csum_handler delta add) p len a)" for p len a
    by (rule tcp_options_hom [where f = "\<lambda>a. tdata (sa_skb a)"]) (simp_all add: h)
  from this [of 0 "opt_len (th (fst bs))"
      "\<lparr>sa_skb = fst bs, sa_stats = snd bs, sa_fix = False, sa_from64 = 0, sa_to64 = 0\<rparr>"]
    dysco_tcp_sack_mem [of K delta add "fst bs" "snd bs"]
  show ?thesis
    by (auto simp: dysco_tcp_sack_csum_def sack_mem_def Let_def split: prod.splits)
qed

text \<open>
  The two SACK translations write the same bytes: both shift each edge of each complete
  SACK option (\<open>sack_mem\<close>) and nothing else.
\<close>

theorem sack_csum_same_bytes:
  "tdata (fst (dysco_tcp_sack_csum K delta add bs)) = sack_mem delta add 0 (opt_len (th (fst bs))) (tdata (fst bs)) \<and>
   tdata (fst (dysco_tcp_sack K delta add bs)) = sack_mem delta add 0 (opt_len (th (fst bs))) (tdata (fst bs))"
  by (cases bs) (simp add: sack_variants_agree dysco_tcp_sack_mem)

section \<open>The tag as it is read back\<close>

lemma get32_tag: "get32 (put_tag_option m p tag) (p + 2) = push_bit 16 tag"
proof (rule bit_word_eqI)
  fix n :: nat
  assume "n < LENGTH(32)"
  then consider "n < 8" | "8 \<le> n" "n < 16" | "16 \<le> n" "n < 24" | "24 \<le> n" "n < 32"
    by fastforce
  then show "bit (get32 (put_tag_option m p tag) (p + 2)) n \<longleftrightarrow> bit (push_bit 16 tag) n"
    by cases (auto simp: get32_def put_tag_option_def put32_def put16_def bit_simps)
qed

lemma push16_fixed: "push_bit 16 (t :: u32) = t \<longleftrightarrow> t = 0"
proof
  assume t: "push_bit 16 t = t"
  have low: "\<not> bit t n" if "n < 16" for n
  proof -
    have "\<not> bit (push_bit 16 t) n" using that by (simp add: bit_simps)
    then show ?thesis unfolding t .
  qed
  have "\<not> bit t n" if "n < 32" for n
  proof (cases "n < 16")
    case False
    then have "bit (push_bit 16 t) n \<longleftrightarrow> bit t (n - 16)" using that by (simp add: bit_simps)
    then show ?thesis using low [of "n - 16"] that unfolding t by simp
  qed (rule low)
  then show "t = 0" by (intro bit_word_eqI) simp
qed simp

text \<open>
  The tag that \<open>dysco_insert_tag\<close> writes is not the tag the output side reads: the parser
  loads the padding and the low half of the tag, so what it finds is the tag shifted by 16
  bits, and it equals the tag only when the tag is 0.
\<close>

theorem tag_read_back_shifted:
  "o_dysco_tag (snd (syn_opt_s t (put_tag_option m p tag) DYSCO_TCP_OPTION 8 (p + 2) cb)) = push_bit 16 tag \<and>
   (o_dysco_tag (snd (syn_opt_s t (put_tag_option m p tag) DYSCO_TCP_OPTION 8 (p + 2) cb)) = tag) = (tag = 0)"
  using get32_tag [of m p tag] by (simp add: syn_opt_s_def push16_fixed)

text \<open>
  Unlike the input parser, the output parser reads beyond the option area: a Dysco option
  of length 2 at the end of the options makes the tag come from the bytes of the payload.
\<close>

theorem parse_syn_opt_s_reads_payload:
  "same_bytes 0 (nat (opt_len (ref_th 6 TCPHDR_SYN))) (mem_of [1, 1, 253, 2]) (mem_of [1, 1, 253, 2, 7]) \<and>
   o_dysco_tag (dysco_parse_tcp_syn_opt_s (ref_th 6 TCPHDR_SYN) (mem_of [1, 1, 253, 2]) zero_cb_out) = 0 \<and>
   o_dysco_tag (dysco_parse_tcp_syn_opt_s (ref_th 6 TCPHDR_SYN) (mem_of [1, 1, 253, 2, 7]) zero_cb_out) = 7"
proof -
  have l: "opt_len (ref_th 6 TCPHDR_SYN) = 4"
    by (simp add: opt_len_def doff_bytes_def ref_th_def)
  have "same_bytes 0 4 (mem_of [1, 1, 253, 2]) (mem_of [1, 1, 253, 2, 7])"
    by (auto simp: same_bytes_def mem_of_def less_Suc_eq numeral_eq_Suc)
  with l show ?thesis
    by (simp add: dysco_parse_tcp_syn_opt_s_def tcp_options.simps syn_opt_s_def mem_of_def Let_def
      get32_def)
qed

end
