(* ===== verification/Dysco_Rewrite.thy ===== *)
theory Dysco_Rewrite
  imports Dysco_Options
begin

text \<open>
  Header rewriting of the data path (\<^verbatim>\<open>dysco_input.c\<close> and \<^verbatim>\<open>dysco_output.c\<close>): sequence and
  acknowledgment numbers, timestamps, receive window, addresses and ports, with the checksum
  updates. The code of the two directions differs in the control block it reads, so each
  rewrite is one operation on a packet (the \<open>th_\<close> and \<open>ts_\<close> definitions) and one wrapper
  per direction that tests the fields of the block. The packet travels with the counters of
  rewritten options.
\<close>

section \<open>One field of a packet\<close>

definition th_shift_seq :: "kapi \<Rightarrow> u32 \<Rightarrow> bool \<Rightarrow> skb \<Rightarrow> skb" where
  "th_shift_seq K delta add b = (
     let new = shift_edge delta add (th_seq (th b));
         b1 = dysco_th_csum4 K (th_seq (th b)) new False b
     in b1\<lparr>th := (th b1)\<lparr>th_seq := new\<rparr>\<rparr>)"

definition th_shift_ack :: "kapi \<Rightarrow> u32 \<Rightarrow> bool \<Rightarrow> skb \<Rightarrow> skb" where
  "th_shift_ack K delta add b = (
     let new = shift_edge delta add (th_ack_seq (th b));
         b1 = dysco_th_csum4 K (th_ack_seq (th b)) new False b
     in b1\<lparr>th := (th b1)\<lparr>th_ack_seq := new\<rparr>\<rparr>)"

definition ts_shift :: "kapi \<Rightarrow> nat \<Rightarrow> u32 \<Rightarrow> bool \<Rightarrow> skb \<Rightarrow> skb" where
  "ts_shift K ptr delta add b = (
     let old = get32 (tdata b) ptr;
         new = shift_edge delta add old;
         b1 = dysco_th_csum4 K old new False b
     in b1\<lparr>tdata := put32 (tdata b1) ptr new\<rparr>)"

text \<open>A shift by a scale above 31 is undefined in C; here it clears the window.\<close>

definition rescale_window :: "u16 \<Rightarrow> u16 \<Rightarrow> u16 \<Rightarrow> u16" where
  "rescale_window ws_in ws_out w = (
     let wnd = ucast (ntohs w) :: u32;
         wnd1 = push_bit (unat ws_in) wnd;
         wnd2 = drop_bit (unat ws_out) wnd1
     in htons (ucast wnd2))"

definition th_rescale :: "kapi \<Rightarrow> u16 \<Rightarrow> u16 \<Rightarrow> skb \<Rightarrow> skb" where
  "th_rescale K ws_in ws_out b = (
     let new = rescale_window ws_in ws_out (window (th b));
         b1 = inet_th_csum2 K (window (th b)) new False b
     in b1\<lparr>th := (th b1)\<lparr>window := new\<rparr>\<rparr>)"

definition count_ts :: "rewrite_stats \<Rightarrow> rewrite_stats" where
  "count_ts st = st\<lparr>tcp_ts_rewrites := tcp_ts_rewrites st + 1\<rparr>"

definition count_tsr :: "rewrite_stats \<Rightarrow> rewrite_stats" where
  "count_tsr st = st\<lparr>tcp_tsr_rewrites := tcp_tsr_rewrites st + 1\<rparr>"

text \<open>The timestamp option: value at its body, echo reply four bytes further.\<close>

definition ts_rewrite :: "kapi \<Rightarrow> u32 \<Rightarrow> bool \<Rightarrow> u32 \<Rightarrow> bool \<Rightarrow> skb \<times> rewrite_stats
    \<Rightarrow> skb \<times> rewrite_stats" where
  "ts_rewrite K ts_delta ts_add tsr_delta tsr_add bs = (
     case dysco_get_ts_option (th (fst bs)) (tdata (fst bs)) of
       None \<Rightarrow> bs
     | Some ptr \<Rightarrow>
         let bs1 = (if ts_delta \<noteq> 0
               then (ts_shift K ptr ts_delta ts_add (fst bs), count_ts (snd bs)) else bs)
         in (if tsr_delta \<noteq> 0
               then (ts_shift K (ptr + 4) tsr_delta tsr_add (fst bs1), count_tsr (snd bs1))
               else bs1))"

text \<open>
  Addresses and ports with incremental checksums. \<open>add_carry\<close> is the end-around carry the
  code writes out; \<open>csum_ip4\<close> updates the IP header checksum.
\<close>

definition add_carry :: "u32 \<Rightarrow> u32 \<Rightarrow> u32" where
  "add_carry a b = (let s = a + b in s + (if b > s then 1 else 0))"

definition csum_ip4 :: "kapi \<Rightarrow> u32 \<Rightarrow> u32 \<Rightarrow> skb \<Rightarrow> skb" where
  "csum_ip4 K frm to b =
     b\<lparr>iph := (iph b)\<lparr>ip_check := dysco_csum_replace4 K (ip_check (iph b)) frm to\<rparr>\<rparr>"

definition put_addrs :: "u32 \<Rightarrow> u32 \<Rightarrow> skb \<Rightarrow> skb" where
  "put_addrs sa da b = b\<lparr>iph := (iph b)\<lparr>saddr := sa, daddr := da\<rparr>\<rparr>"

definition th_put_source :: "kapi \<Rightarrow> u16 \<Rightarrow> skb \<Rightarrow> skb" where
  "th_put_source K p b = (let b1 = inet_th_csum2 K (th_source (th b)) p False b
     in b1\<lparr>th := (th b1)\<lparr>th_source := p\<rparr>\<rparr>)"

definition th_put_dest :: "kapi \<Rightarrow> u16 \<Rightarrow> skb \<Rightarrow> skb" where
  "th_put_dest K p b = (let b1 = inet_th_csum2 K (th_dest (th b)) p False b
     in b1\<lparr>th := (th b1)\<lparr>th_dest := p\<rparr>\<rparr>)"

definition put_mac :: "mac \<Rightarrow> skb \<Rightarrow> skb" where
  "put_mac nh b = b\<lparr>eth := (eth b)\<lparr>h_dest := nh, h_source := dev_addr (skb_dev b)\<rparr>\<rparr>"

section \<open>Input direction\<close>

definition dysco_in_rewrite_seq :: "kapi \<Rightarrow> dysco_cb_in \<Rightarrow> skb \<Rightarrow> skb" where
  "dysco_in_rewrite_seq K c b =
     (if i_seq_delta c \<noteq> 0 then th_shift_seq K (i_seq_delta c) (i_seq_add c) b else b)"

definition dysco_in_rewrite_ack :: "kapi \<Rightarrow> dysco_cb_in \<Rightarrow> skb \<times> rewrite_stats
    \<Rightarrow> skb \<times> rewrite_stats" where
  "dysco_in_rewrite_ack K c bs = (if i_ack_delta c \<noteq> 0 then
     let bs1 = (if i_sack_ok c then dysco_tcp_sack K (i_ack_delta c) (i_ack_add c) bs else bs)
     in (th_shift_ack K (i_ack_delta c) (i_ack_add c) (fst bs1), snd bs1)
     else bs)"

definition dysco_in_rewrite_ts :: "kapi \<Rightarrow> dysco_cb_in \<Rightarrow> skb \<times> rewrite_stats
    \<Rightarrow> skb \<times> rewrite_stats" where
  "dysco_in_rewrite_ts K c bs =
     ts_rewrite K (i_ts_delta c) (i_ts_add c) (i_tsr_delta c) (i_tsr_add c) bs"

definition dysco_in_rewrite_rcv_wnd :: "kapi \<Rightarrow> dysco_cb_in \<Rightarrow> skb \<Rightarrow> skb" where
  "dysco_in_rewrite_rcv_wnd K c b =
     (if i_ws_delta c \<noteq> 0 then th_rescale K (i_ws_in c) (i_ws_out c) b else b)"

text \<open>
  The rewrite that computes both checksums from scratch. When the hardware is to complete
  the checksum the code declares it verified instead.
\<close>

definition csum_ip_scratch :: "kapi \<Rightarrow> skb \<Rightarrow> skb" where
  "csum_ip_scratch K b = b\<lparr>iph := (iph b)\<lparr>ip_check := k_ip_fast_csum K ((iph b)\<lparr>ip_check := 0\<rparr>)\<rparr>\<rparr>"

definition tcp_seg_len :: "iphdr \<Rightarrow> int" where
  "tcp_seg_len ip = uint (ntohs (tot_len ip)) - ihl_bytes ip"

definition csum_tcp_scratch :: "kapi \<Rightarrow> skb \<Rightarrow> u16" where
  "csum_tcp_scratch K b = (
     let n = tcp_seg_len (iph b) in
     k_csum_fold K (k_csum_tcp K ((th b)\<lparr>th_check := 0\<rparr>) (tdata b) (n - sizeof_tcphdr)
       (k_csum_tcpudp_nofold K (saddr (iph b)) (daddr (iph b)) n IPPROTO_TCP 0)))"

definition put_session :: "tcp_session \<Rightarrow> skb \<Rightarrow> skb" where
  "put_session ss b = b\<lparr>iph := (iph b)\<lparr>daddr := dip ss, saddr := sip ss\<rparr>,
     th := (th b)\<lparr>th_source := sport ss, th_dest := dport ss\<rparr>\<rparr>"

definition dysco_in_hdr_rewrite :: "kapi \<Rightarrow> dysco_cb_in \<Rightarrow> skb \<Rightarrow> skb" where
  "dysco_in_hdr_rewrite K c b = (
     let b1 = csum_ip_scratch K (put_session (i_super c) b) in
     if ip_summed b1 \<noteq> CHECKSUM_UNNECESSARY then
       (if ip_summed b1 = CHECKSUM_PARTIAL then b1\<lparr>ip_summed := CHECKSUM_UNNECESSARY\<rparr>
        else b1\<lparr>th := (th b1)\<lparr>th_check := csum_tcp_scratch K b1\<rparr>\<rparr>)
     else b1)"

text \<open>
  The incremental rewrite. The last comparison of the address sum reads \<open>sub.dip\<close> where the
  output direction reads the address it has just added.
\<close>

definition in_addr_sum :: "dysco_cb_in \<Rightarrow> u32" where
  "in_addr_sum c = (let to = sip (i_super c) + dip (i_super c)
     in to + (if dip (i_sub c) > to then 1 else 0))"

definition in_put_tuple :: "kapi \<Rightarrow> dysco_cb_in \<Rightarrow> skb \<Rightarrow> skb" where
  "in_put_tuple K c b = (
     let frm = add_carry (saddr (iph b)) (daddr (iph b));
         to = in_addr_sum c;
         b1 = csum_ip4 K frm to b;
         b2 = put_addrs (sip (i_super c)) (dip (i_super c)) b1;
         b3 = inet_th_csum4 K frm to True b2
     in th_put_dest K (dport (i_super c)) (th_put_source K (sport (i_super c)) b3))"

definition dysco_in_hdr_rewrite_csum :: "kapi \<Rightarrow> dysco_cb_in \<Rightarrow> skb \<times> rewrite_stats
    \<Rightarrow> skb \<times> rewrite_stats" where
  "dysco_in_hdr_rewrite_csum K c bs = (
     let b1 = dysco_in_rewrite_seq K c (in_put_tuple K c (fst bs));
         bs2 = dysco_in_rewrite_ack K c (b1, snd bs);
         bs3 = (if i_ts_ok c then dysco_in_rewrite_ts K c bs2 else bs2)
     in if i_ws_ok c then (dysco_in_rewrite_rcv_wnd K c (fst bs3), snd bs3) else bs3)"

section \<open>Output direction\<close>

definition dysco_fix_tcp_ip_csum :: "kapi \<Rightarrow> skb \<Rightarrow> skb" where
  "dysco_fix_tcp_ip_csum K b = (
     let b1 = csum_ip_scratch K b in
     if ip_summed b1 \<noteq> CHECKSUM_PARTIAL
     then b1\<lparr>th := (th b1)\<lparr>th_check := csum_tcp_scratch K b1\<rparr>,
             ip_summed := CHECKSUM_UNNECESSARY\<rparr>
     else b1\<lparr>th := (th b1)\<lparr>th_check := NOT (k_tcp_v4_check K (tcp_seg_len (iph b1))
             (saddr (iph b1)) (daddr (iph b1)) 0)\<rparr>\<rparr>)"

definition dysco_remove_tag :: "skb \<Rightarrow> skb" where
  "dysco_remove_tag b = (
     let b1 = b\<lparr>th := (th b)\<lparr>doff := doff (th b) - 2\<rparr>,
                iph := (iph b)\<lparr>tot_len := htons (ntohs (tot_len (iph b)) - 8)\<rparr>\<rparr>
     in skb_trim b1 (skb_len b1 - of_nat DYSCO_TCP_OPTION_LEN))"

definition dysco_out_hdr_rewrite :: "dysco_cb_out \<Rightarrow> skb \<Rightarrow> skb" where
  "dysco_out_hdr_rewrite c b = put_mac (o_nh_mac c) (put_session (o_sub c) b)"

definition out_put_tuple :: "kapi \<Rightarrow> dysco_cb_out \<Rightarrow> skb \<Rightarrow> skb" where
  "out_put_tuple K c b = (
     let frm = add_carry (saddr (iph b)) (daddr (iph b));
         to = add_carry (sip (o_sub c)) (dip (o_sub c));
         b1 = csum_ip4 K frm to b;
         b2 = put_addrs (sip (o_sub c)) (dip (o_sub c)) b1;
         b3 = inet_th_csum4 K frm to True b2
     in th_put_dest K (dport (o_sub c)) (th_put_source K (sport (o_sub c)) b3))"

definition dysco_out_hdr_rewrite_csum :: "kapi \<Rightarrow> dysco_cb_out \<Rightarrow> skb \<Rightarrow> skb" where
  "dysco_out_hdr_rewrite_csum K c b = put_mac (o_nh_mac c) (out_put_tuple K c b)"

definition dysco_out_rewrite_seq :: "kapi \<Rightarrow> dysco_cb_out \<Rightarrow> skb \<Rightarrow> skb" where
  "dysco_out_rewrite_seq K c b =
     (if o_seq_delta c \<noteq> 0 then th_shift_seq K (o_seq_delta c) (o_seq_add c) b else b)"

definition dysco_out_rewrite_ack :: "kapi \<Rightarrow> dysco_cb_out \<Rightarrow> skb \<times> rewrite_stats
    \<Rightarrow> skb \<times> rewrite_stats" where
  "dysco_out_rewrite_ack K c bs = (if o_ack_delta c \<noteq> 0 then
     let bs1 = (if o_sack_ok c then dysco_tcp_sack K (o_ack_delta c) (o_ack_add c) bs else bs)
     in (th_shift_ack K (o_ack_delta c) (o_ack_add c) (fst bs1), snd bs1)
     else bs)"

definition dysco_out_rewrite_ts :: "kapi \<Rightarrow> dysco_cb_out \<Rightarrow> skb \<times> rewrite_stats
    \<Rightarrow> skb \<times> rewrite_stats" where
  "dysco_out_rewrite_ts K c bs =
     ts_rewrite K (o_ts_delta c) (o_ts_add c) (o_tsr_delta c) (o_tsr_add c) bs"

definition dysco_out_rewrite_rcv_wnd :: "kapi \<Rightarrow> dysco_cb_out \<Rightarrow> skb \<Rightarrow> skb" where
  "dysco_out_rewrite_rcv_wnd K c b =
     (if o_ws_delta c \<noteq> 0 then th_rescale K (o_ws_in c) (o_ws_out c) b else b)"

text \<open>The rewrites of \<open>dysco_out_translate\<close> after a reconfiguration.\<close>

definition out_rewrites :: "kapi \<Rightarrow> dysco_cb_out \<Rightarrow> skb \<times> rewrite_stats \<Rightarrow> skb \<times> rewrite_stats" where
  "out_rewrites K c bs = (
     let bs2 = dysco_out_rewrite_ack K c (dysco_out_rewrite_seq K c (fst bs), snd bs);
         bs3 = (if o_ts_ok c then dysco_out_rewrite_ts K c bs2 else bs2)
     in if o_ws_ok c then (dysco_out_rewrite_rcv_wnd K c (fst bs3), snd bs3) else bs3)"

end
