(* ===== verification/Dysco_Input.thy ===== *)
theory Dysco_Input
  imports Dysco_Rewrite
begin

text \<open>
  The input path of TCP packets (\<^verbatim>\<open>dysco_input.c\<close>): the service chain of a SYN payload, the
  control blocks a first SYN creates, the initial numbers a SYN-ACK brings, and the handling
  of two active paths. Pointers are addresses of control blocks; a step returns \<open>None\<close> for a
  kernel fault. The UDP branch and the entry points are in \<open>Dysco_Datapath\<close>.
\<close>

datatype rx_result = RX_HANDLER_CONSUMED | RX_HANDLER_PASS

section \<open>The service chain in a SYN payload\<close>

text \<open>
  The payload starts where the data offset says; \<open>get_syn_packet\<close> reads it as a
  \<open>struct syn_packet\<close>. A data offset that points into the fixed header would read the header
  as payload and is left out of the model (\<open>None\<close>).
\<close>

definition th_data :: "tcphdr \<Rightarrow> nat option" where
  "th_data t = (if opt_len t < 0 then None else Some (nat (opt_len t)))"

definition get_session :: "mem \<Rightarrow> nat \<Rightarrow> tcp_session" where
  "get_session m p = \<lparr>sip = get32 m p, dip = get32 m (p + 4),
     sport = get16 m (p + 8), dport = get16 m (p + 10)\<rparr>"

definition get_hops :: "mem \<Rightarrow> nat \<Rightarrow> nat \<Rightarrow> u32 list" where
  "get_hops m p n = map (\<lambda>i. get32 m (p + 4 * i)) [0..<n]"

definition get_chain :: "mem \<Rightarrow> nat \<Rightarrow> service_chain" where
  "get_chain m p = \<lparr>sc_len = get16 m p, sc_pos = get16 m (p + 2),
     sc_hops = get_hops m (p + 4) (unat (get16 m p))\<rparr>"

definition get_syn_packet :: "mem \<Rightarrow> nat \<Rightarrow> tcp_session \<times> service_chain" where
  "get_syn_packet m p = (get_session m p, get_chain m (p + sizeof_tcp_session))"

definition dysco_remove_sc :: "skb \<Rightarrow> skb option" where
  "dysco_remove_sc b = do {
     p \<leftarrow> th_data (th b);
     let sc_memsz = sizeof_tcp_session + SC_MEM_SZ (sc_len (snd (get_syn_packet (tdata b) p)));
     let b1 = skb_trim b (skb_len b - of_nat sc_memsz);
     Some (b1\<lparr>iph := (iph b1)\<lparr>tot_len := htons (ucast (skb_len b1))\<rparr>\<rparr>)
   }"

section \<open>Control blocks of a first SYN\<close>

text \<open>The pending block: the rest of the chain for the middlebox to send on.\<close>

definition dysco_insert_pending :: "kapi \<Rightarrow> tcp_session \<times> service_chain \<Rightarrow> dstate
    \<Rightarrow> (bool \<times> dstate) option" where
  "dysco_insert_pending K sp s = (
     let c = zero_cb_out\<lparr>o_super := fst sp\<rparr> in
     case alloc_out K c s of
       (None, s1) \<Rightarrow> Some (False, s1)
     | (Some p, s1) \<Rightarrow>
         let len = sc_len (snd sp) - 1;
             chain = \<lparr>sc_len = len, sc_pos = k_junk_pos K (next_addr s1),
               sc_hops = take (unat len) (tl (sc_hops (snd sp)))\<rparr> in
         (case alloc_sc K chain s1 of
            (None, s2) \<Rightarrow> do { s3 \<leftarrow> free_out p s2; Some (False, s3) }
          | (Some q, s2) \<Rightarrow>
              let c1 = c\<lparr>o_sc := Some q, o_free_sc := True\<rparr>;
                  s3 = set_out p c1 s2
              in Some (True, link_pen_tag (o_dysco_tag c1) p (link_pen (o_super c1) p s3))))"

definition cb_in_reverse :: "tcp_session \<Rightarrow> skb \<Rightarrow> mac \<Rightarrow> dysco_cb_out" where
  "cb_in_reverse ss b mac = zero_cb_out\<lparr>
     o_super := \<lparr>sip = dip ss, dip = sip ss, sport = dport ss, dport = sport ss\<rparr>,
     o_sub := \<lparr>sip = daddr (iph b), dip = saddr (iph b),
               sport = th_dest (th b), dport = th_source (th b)\<rparr>,
     o_in_iack := ntohl (th_seq (th b)), o_out_iack := ntohl (th_seq (th b)),
     o_other_path := None, o_old_path := False, o_valid_ack_cut := False,
     o_use_np_seq := False, o_use_np_ack := False, o_ack_cutoff := 0, o_ack_ctr := 0,
     o_state := DYSCO_ONE_PATH, o_nh_mac := mac\<rparr>"

definition dysco_insert_cb_in_reverse :: "kapi \<Rightarrow> tcp_session \<Rightarrow> skb \<Rightarrow> mac \<Rightarrow> dstate
    \<Rightarrow> addr option \<times> dstate" where
  "dysco_insert_cb_in_reverse K ss b mac s = alloc_out K (cb_in_reverse ss b mac) s"

definition cb_input :: "tcp_session \<Rightarrow> skb \<Rightarrow> dysco_cb_in" where
  "cb_input ss b = zero_cb_in\<lparr>
     i_sub := \<lparr>sip = saddr (iph b), dip = daddr (iph b),
               sport = th_source (th b), dport = th_dest (th b)\<rparr>,
     i_super := ss, i_two_paths := False, i_skb_iif := skb_iif b,
     i_seq_delta := 0, i_ack_delta := 0\<rparr>"

definition dysco_insert_cb_input :: "kapi \<Rightarrow> skb \<Rightarrow> tcp_session \<times> service_chain \<Rightarrow> mac \<Rightarrow> dstate
    \<Rightarrow> (addr option \<times> dstate) option" where
  "dysco_insert_cb_input K b sp mac s = (
     case alloc_in K (cb_input (fst sp) b) s of
       (None, s1) \<Rightarrow> Some (None, s1)
     | (Some p, s1) \<Rightarrow>
        (case dysco_insert_cb_in_reverse K (fst sp) b mac s1 of
           (None, s2) \<Rightarrow> do { s3 \<leftarrow> free_in p s2; Some (None, s3) }
         | (Some q, s2) \<Rightarrow> do {
             (ok, s3) \<leftarrow> (if 1 < sc_len (snd sp) then dysco_insert_pending K sp s2
                           else Some (True, s2));
             if \<not> ok then do {
               s4 \<leftarrow> free_in p s3;
               s5 \<leftarrow> free_out q s4;
               Some (None, s5)
             } else do {
               ci \<leftarrow> ins s3 p;
               co \<leftarrow> outs s3 q;
               let s4 = set_in p (ci\<lparr>i_dcb_out := Some q\<rparr>) s3;
               let s5 = set_out q (co\<lparr>o_dcb_in := Some p\<rparr>) s4;
               Some (Some p, link_out (o_super co) q (link_in (i_sub ci) p s5))
             }
           }))"

definition dysco_lookup_input :: "skb \<Rightarrow> dstate \<Rightarrow> addr option" where
  "dysco_lookup_input b s = look_in \<lparr>sip = saddr (iph b), dip = daddr (iph b),
     sport = th_source (th b), dport = th_dest (th b)\<rparr> s"

text \<open>The first SYN of a session: only one that carries a payload is for the module.\<close>

definition dysco_rx_initiation_new :: "kapi \<Rightarrow> skb \<Rightarrow> dstate \<Rightarrow> (rx_result \<times> skb \<times> dstate) option" where
  "dysco_rx_initiation_new K b s = (
     if doff_bytes (th b) < tcp_seg_len (iph b) then do {
       p \<leftarrow> th_data (th b);
       let sp = get_syn_packet (tdata b) p;
       (r, s1) \<leftarrow> dysco_insert_cb_input K b sp (h_source (eth b)) s;
       (case r of
          None \<Rightarrow> Some (RX_HANDLER_CONSUMED, b, s1)
        | Some q \<Rightarrow> do {
            b1 \<leftarrow> dysco_remove_sc b;
            ci \<leftarrow> ins s1 q;
            let ci1 = dysco_parse_tcp_syn_opt_r (th b1) (tdata b1) ci;
            (b2, s2) \<leftarrow> dysco_insert_tag b1 (set_in q ci1 s1);
            Some (RX_HANDLER_PASS, dysco_in_hdr_rewrite K ci1 b2, s2)
          })
     } else Some (RX_HANDLER_PASS, b, s))"

section \<open>The numbers of a SYN-ACK\<close>

definition set_ack_number_in :: "tcphdr \<Rightarrow> dysco_cb_in \<Rightarrow> dysco_cb_in" where
  "set_ack_number_in t c = c\<lparr>
     i_in_iseq := ntohl (th_seq t), i_out_iseq := ntohl (th_seq t),
     i_in_iack := ntohl (th_ack_seq t) - 1, i_out_iack := ntohl (th_ack_seq t) - 1,
     i_seq_delta := 0, i_ack_delta := 0\<rparr>"

definition set_ack_number_cb_out :: "tcphdr \<Rightarrow> dysco_cb_out \<Rightarrow> dysco_cb_out" where
  "set_ack_number_cb_out t c = c\<lparr>
     o_out_iack := ntohl (th_seq t), o_in_iack := ntohl (th_seq t),
     o_out_iseq := ntohl (th_ack_seq t) - 1, o_in_iseq := ntohl (th_ack_seq t) - 1\<rparr>"

definition copy_options_out :: "dysco_cb_in \<Rightarrow> dysco_cb_out \<Rightarrow> dysco_cb_out" where
  "copy_options_out i c = (
     let c1 = (if i_ts_ok i then c\<lparr>o_ts_ok := True,
           o_tsr_out := i_ts_in i, o_tsr_in := i_ts_in i,
           o_ts_out := i_tsr_in i, o_ts_in := i_tsr_in i,
           o_ts_delta := 0, o_tsr_delta := 0\<rparr> else c)
     in if \<not> i_sack_ok i then c1\<lparr>o_sack_ok := False\<rparr> else c1)"

definition dysco_set_ack_number_out :: "skb \<Rightarrow> addr \<Rightarrow> dstate \<Rightarrow> dstate option" where
  "dysco_set_ack_number_out b p s = do {
     ci \<leftarrow> ins s p;
     let ci1 = set_ack_number_in (th b) ci;
     let s1 = set_in p ci1 s;
     (case look_out \<lparr>sip = dip (i_super ci1), dip = sip (i_super ci1),
           sport = dport (i_super ci1), dport = sport (i_super ci1)\<rparr> s1 of
        None \<Rightarrow> Some s1
      | Some q \<Rightarrow> do {
          co \<leftarrow> outs s1 q;
          let ci2 = dysco_parse_tcp_syn_opt_r (th b) (tdata b) ci1;
          Some (set_out q (copy_options_out ci2 (set_ack_number_cb_out (th b) co)) (set_in p ci2 s1))
        })
   }"

definition dysco_set_zero_window :: "kapi \<Rightarrow> skb \<Rightarrow> skb" where
  "dysco_set_zero_window K b = (let b1 = inet_th_csum2 K (window (th b)) 0 False b
     in b1\<lparr>th := (th b1)\<lparr>window := 0\<rparr>\<rparr>)"

section \<open>Two active paths\<close>

text \<open>
  An acknowledgment that covers everything sent on the old path ends the old path for data:
  the sender uses only the new path from then on.
\<close>

definition old_path_acked :: "dysco_cb_out \<Rightarrow> u32 \<Rightarrow> bool" where
  "old_path_acked c ack \<longleftrightarrow> \<not> after (o_seq_cutoff c) ack"

definition end_two_paths :: "addr \<Rightarrow> dstate \<Rightarrow> dstate option" where
  "end_two_paths p s = do { ci \<leftarrow> ins s p; Some (set_in p (ci\<lparr>i_two_paths := False\<rparr>) s) }"

definition dysco_in_two_paths_ack :: "tcphdr \<Rightarrow> addr \<Rightarrow> dstate \<Rightarrow> dstate option" where
  "dysco_in_two_paths_ack t p s = do {
     let ack_seq = ntohl (th_ack_seq t);
     ci \<leftarrow> ins s p;
     (case i_dcb_out ci of
        None \<Rightarrow> Some s
      | Some q \<Rightarrow> do {
          co \<leftarrow> outs s q;
          if o_old_path co then
            (if o_state_t co then
               (if o_state co = DYSCO_ESTABLISHED then end_two_paths p s else Some s)
             else if old_path_acked co ack_seq
             then end_two_paths p (set_out q (co\<lparr>o_use_np_seq := True\<rparr>) s)
             else Some s)
          else (case o_other_path co of
              None \<Rightarrow> Some s
            | Some q' \<Rightarrow> do {
                old \<leftarrow> outs s q';
                if o_state_t old \<and> o_state old = DYSCO_ESTABLISHED then end_two_paths p s
                else if old_path_acked old ack_seq
                then end_two_paths p (set_out q' (old\<lparr>o_use_np_seq := True\<rparr>) s)
                else Some s
              })
        })
   }"

text \<open>
  Data on the new path, seen by an anchor before the control message, bounds the
  acknowledgments that still belong to the old path.
\<close>

definition new_path_seq :: "dysco_cb_out \<Rightarrow> u32 \<Rightarrow> u32" where
  "new_path_seq c seq = (if o_in_iack c < o_out_iack c
     then seq - (o_out_iack c - o_in_iack c) else seq + (o_in_iack c - o_out_iack c))"

definition lower_ack_cutoff :: "u32 \<Rightarrow> dysco_cb_out \<Rightarrow> dysco_cb_out" where
  "lower_ack_cutoff seq old = (if o_valid_ack_cut old
     then (if before seq (o_ack_cutoff old) then old\<lparr>o_ack_cutoff := seq\<rparr> else old)
     else old\<lparr>o_ack_cutoff := seq, o_valid_ack_cut := True\<rparr>)"

definition dysco_in_two_paths_data_seg :: "tcphdr \<Rightarrow> addr \<Rightarrow> dstate \<Rightarrow> (bool \<times> dstate) option" where
  "dysco_in_two_paths_data_seg t p s = do {
     ci \<leftarrow> ins s p;
     (case i_dcb_out ci of
        None \<Rightarrow> Some (False, s)
      | Some q \<Rightarrow> do {
          co \<leftarrow> outs s q;
          if \<not> o_old_path co then
            (case o_other_path co of
               None \<Rightarrow> Some (False, s)
             | Some q' \<Rightarrow> do {
                 old \<leftarrow> outs s q';
                 if o_state old = DYSCO_SYN_SENT \<or> o_state old = DYSCO_SYN_RECEIVED
                 then Some (True, set_out q'
                        (lower_ack_cutoff (new_path_seq co (ntohl (th_seq t))) old) s)
                 else Some (True, s)
               })
          else Some (True, s)
        })
   }"

section \<open>The TCP branch of the input hook\<close>

text \<open>The length of the segment's data, as the code truncates it to 16 bits.\<close>

definition seg_sz :: "skb \<Rightarrow> u16" where
  "seg_sz b = of_int (uint (ntohs (tot_len (iph b))) - ihl_bytes (iph b) - doff_bytes (th b))"

definition with_stats :: "(skb \<times> rewrite_stats \<Rightarrow> skb \<times> rewrite_stats) \<Rightarrow> skb \<Rightarrow> dstate
    \<Rightarrow> skb \<times> dstate" where
  "with_stats f b s = (let (b', st) = f (b, stats s) in (b', s\<lparr>stats := st\<rparr>))"

definition in_rewrite_step :: "kapi \<Rightarrow> addr \<Rightarrow> skb \<Rightarrow> dstate \<Rightarrow> (rx_result \<times> skb \<times> dstate) option" where
  "in_rewrite_step K p b s = do {
     ci \<leftarrow> ins s p;
     let (b1, s1) = with_stats (dysco_in_hdr_rewrite_csum K ci) b s;
     Some (RX_HANDLER_PASS, b1, s1)
   }"

definition dysco_input_syn :: "kapi \<Rightarrow> addr \<Rightarrow> skb \<Rightarrow> dstate \<Rightarrow> (rx_result \<times> skb \<times> dstate) option" where
  "dysco_input_syn K p b s = (
     if tcp_flag_set (th b) TCPHDR_ACK then do {
       ci \<leftarrow> ins s p;
       s1 \<leftarrow> dysco_set_ack_number_out b p (set_in p (ci\<lparr>i_skb_iif := skb_iif b\<rparr>) s);
       in_rewrite_step K p b s1
     } else do {
       b1 \<leftarrow> dysco_remove_sc b;
       (b2, s1) \<leftarrow> dysco_insert_tag b1 s;
       ci \<leftarrow> ins s1 p;
       Some (RX_HANDLER_PASS, dysco_in_hdr_rewrite K ci b2, s1)
     })"

definition dysco_input_tcp :: "kapi \<Rightarrow> skb \<Rightarrow> dstate \<Rightarrow> (rx_result \<times> skb \<times> dstate) option" where
  "dysco_input_tcp K b s = (
     case dysco_lookup_input b s of
       None \<Rightarrow> if tcp_flag_set (th b) TCPHDR_SYN then dysco_rx_initiation_new K b s
               else Some (RX_HANDLER_PASS, b, s)
     | Some p \<Rightarrow>
        if tcp_flag_set (th b) TCPHDR_SYN then dysco_input_syn K p b s
        else do {
          ci \<leftarrow> ins s p;
          (go, s1) \<leftarrow> (if i_two_paths ci then
              (if 0 < seg_sz b then dysco_in_two_paths_data_seg (th b) p s
               else do { s1 \<leftarrow> dysco_in_two_paths_ack (th b) p s; Some (True, s1) })
            else Some (True, s));
          if \<not> go then Some (RX_HANDLER_PASS, b, s1) else in_rewrite_step K p b s1
        })"

end
