(* ===== verification/Dysco_Output.thy ===== *)
theory Dysco_Output
  imports Dysco_Input
begin

text \<open>
  The output path of TCP packets (\<^verbatim>\<open>dysco_output.c\<close>): choosing between the old and the new
  path during a reconfiguration, sending the service chain in a SYN, creating control blocks
  from a policy, packets that leave a middlebox, and the throttled window of a splice.
\<close>

text \<open>\<open>NETDEV_TX_OK\<close>: the packet was consumed; \<open>TX_CONTINUE\<close> is the code's \<open>1\<close>, go on sending.\<close>

datatype tx_result = NETDEV_TX_OK | TX_CONTINUE

section \<open>Old and new path\<close>

definition dysco_pick_path_seq :: "addr \<Rightarrow> u32 \<Rightarrow> dstate \<Rightarrow> addr option" where
  "dysco_pick_path_seq p seq s = do {
     c \<leftarrow> outs s p;
     if o_state_t c then (if o_state c = DYSCO_ESTABLISHED then o_other_path c else Some p)
     else if o_use_np_seq c then o_other_path c
     else if \<not> before seq (o_seq_cutoff c) then o_other_path c
     else Some p
   }"

text \<open>
  An acknowledgment at or beyond the cutoff is sent on the old path with its number capped
  at the cutoff, and counted; from the second one on the new path is used.
\<close>

definition cap_ack :: "kapi \<Rightarrow> u32 \<Rightarrow> skb \<Rightarrow> skb" where
  "cap_ack K cutoff b = (
     let new = htonl cutoff;
         b1 = inet_th_csum4 K (th_ack_seq (th b)) new False b
     in b1\<lparr>th := (th b1)\<lparr>th_ack_seq := new\<rparr>\<rparr>)"

definition count_old_ack :: "dysco_cb_out \<Rightarrow> dysco_cb_out" where
  "count_old_ack c = (let n = o_ack_ctr c + 1; c1 = c\<lparr>o_ack_ctr := n\<rparr>
     in if 1 < n then c1\<lparr>o_use_np_ack := True\<rparr> else c1)"

definition dysco_pick_path_ack :: "kapi \<Rightarrow> addr \<Rightarrow> skb \<Rightarrow> dstate \<Rightarrow> (addr \<times> skb \<times> dstate) option" where
  "dysco_pick_path_ack K p b s = do {
     c \<leftarrow> outs s p;
     let ack = ntohl (th_ack_seq (th b));
     if o_state_t c then
       (if o_state c = DYSCO_ESTABLISHED then do { q \<leftarrow> o_other_path c; Some (q, b, s) }
        else Some (p, b, s))
     else if o_valid_ack_cut c then
       (if o_use_np_ack c then do { q \<leftarrow> o_other_path c; Some (q, b, s) }
        else if \<not> after (o_ack_cutoff c) ack then
          (if tcp_flag_set (th b) TCPHDR_FIN then do { q \<leftarrow> o_other_path c; Some (q, b, s) }
           else Some (p, cap_ack K (o_ack_cutoff c) b, set_out p (count_old_ack c) s))
        else Some (p, b, s))
     else Some (p, b, s)
   }"

definition record_cutoff :: "u32 \<Rightarrow> dysco_cb_out \<Rightarrow> dysco_cb_out" where
  "record_cutoff seq c = (if after seq (o_seq_cutoff c) then c\<lparr>o_seq_cutoff := seq\<rparr> else c)"

text \<open>The critical section of \<open>dysco_out_translate\<close> when there are two paths.\<close>

definition out_choose_path :: "kapi \<Rightarrow> addr \<Rightarrow> skb \<Rightarrow> dstate \<Rightarrow> (addr \<times> skb \<times> dstate) option" where
  "out_choose_path K p b s = do {
     c \<leftarrow> outs s p;
     let seq = ntohl (th_seq (th b)) + ucast (seg_sz b);
     if o_state c = DYSCO_ESTABLISHED then
       (if 0 < seg_sz b then do { q \<leftarrow> dysco_pick_path_seq p seq s; Some (q, b, s) }
        else dysco_pick_path_ack K p b s)
     else if o_state c = DYSCO_SYN_SENT then
       (if 0 < seg_sz b then Some (p, b, set_out p (record_cutoff seq c) s)
        else dysco_pick_path_ack K p b s)
     else if o_state c = DYSCO_SYN_RECEIVED then
       (if 0 < seg_sz b then do { q \<leftarrow> dysco_pick_path_seq p seq s; Some (q, b, s) }
        else dysco_pick_path_ack K p b s)
     else Some (p, b, s)
   }"

definition dysco_out_translate :: "kapi \<Rightarrow> addr \<Rightarrow> skb \<Rightarrow> dstate \<Rightarrow> (skb \<times> dstate) option" where
  "dysco_out_translate K p b s = do {
     c \<leftarrow> outs s p;
     let seq = ntohl (th_seq (th b)) + ucast (seg_sz b);
     if o_other_path c = None then
       let c1 = (if 0 < seg_sz b then record_cutoff seq c else c)
       in Some (dysco_out_hdr_rewrite_csum K c1 b, set_out p c1 s)
     else do {
       (q, b1, s1) \<leftarrow> out_choose_path K p b s;
       d \<leftarrow> outs s1 q;
       let (b2, s2) = with_stats (out_rewrites K d) b1 s1;
       Some (dysco_out_hdr_rewrite_csum K d b2, s2)
     }
   }"

section \<open>Sending the service chain\<close>

text \<open>The bytes of a session and a chain as \<^verbatim>\<open>memcpy\<close> writes them at offset \<open>p\<close>.\<close>

definition put_session_bytes :: "mem \<Rightarrow> nat \<Rightarrow> tcp_session \<Rightarrow> mem" where
  "put_session_bytes m p ss = put16 (put16 (put32 (put32 m p (sip ss)) (p + 4) (dip ss))
     (p + 8) (sport ss)) (p + 10) (dport ss)"

fun put_hops :: "mem \<Rightarrow> nat \<Rightarrow> u32 list \<Rightarrow> mem" where
  "put_hops m p [] = m"
| "put_hops m p (h # hs) = put_hops (put32 m p h) (p + 4) hs"

definition put_chain_bytes :: "mem \<Rightarrow> nat \<Rightarrow> service_chain \<Rightarrow> mem" where
  "put_chain_bytes m p sc = put_hops (put16 (put16 m p (sc_len sc)) (p + 2) (sc_pos sc))
     (p + 4) (take (unat (sc_len sc)) (sc_hops sc))"

definition mem_bytes :: "mem \<Rightarrow> nat \<Rightarrow> nat \<Rightarrow> u8 list" where
  "mem_bytes m p n = map m [p..<p + n]"

text \<open>
  A chain shorter than its length field would be read past its end, and a tail inside the
  headers cannot be written to: both are faults.
\<close>

definition dysco_add_sc :: "kapi \<Rightarrow> skb \<Rightarrow> dysco_cb_out \<Rightarrow> dstate \<Rightarrow> (bool \<times> skb) option" where
  "dysco_add_sc K b c s = do {
     a \<leftarrow> o_sc c;
     sc \<leftarrow> scs s a;
     let syn_memsz = sizeof_tcp_session + SC_MEM_SZ (sc_len sc);
     if syn_memsz > tailroom b then Some (False, b)
     else do {
       (pos, b1) \<leftarrow> skb_put b syn_memsz;
       if pos < 0 \<or> length (sc_hops sc) < unat (sc_len sc) then None else do {
         let p = nat pos;
         let m = put_chain_bytes (put_session_bytes (tdata b1) p (o_super c))
                   (p + sizeof_tcp_session) sc;
         let old_len = tot_len (iph b1);
         let new_len = htons (ucast (skb_len b1 - ETHER_HDR_LEN));
         let b2 = b1\<lparr>tdata := m, iph := (iph b1)\<lparr>tot_len := new_len,
             ip_check := dysco_csum_replace2 K (ip_check (iph b1)) old_len new_len\<rparr>\<rparr>;
         Some (True, if ip_summed b2 \<noteq> CHECKSUM_PARTIAL
           then b2\<lparr>th := (th b2)\<lparr>th_check := k_csum_fold K (k_csum_bytes K
                  (mem_bytes m p syn_memsz) (NOT (k_csum_unfold K (th_check (th b2)))))\<rparr>\<rparr>
           else b2)
       }
     }
   }"

definition dysco_out_tx_init :: "kapi \<Rightarrow> skb \<Rightarrow> dysco_cb_out \<Rightarrow> dstate \<Rightarrow> (tx_result \<times> skb) option" where
  "dysco_out_tx_init K b c s = do {
     (ok, b1) \<leftarrow> dysco_add_sc K b c s;
     Some (if \<not> ok then (NETDEV_TX_OK, b1) else (TX_CONTINUE, dysco_fix_tcp_ip_csum K b1))
   }"

section \<open>Policies and routes\<close>

fun match_policies :: "kapi \<Rightarrow> skb \<Rightarrow> dysco_policies list \<Rightarrow> addr option" where
  "match_policies K b [] = None"
| "match_policies K b (d # ds) = (if k_bpf K (p_filter d) b then Some (p_sc d)
     else match_policies K b ds)"

definition dysco_match_policy :: "kapi \<Rightarrow> skb \<Rightarrow> dstate \<Rightarrow> addr option" where
  "dysco_match_policy K b s = match_policies K b (policies (dh s))"

definition dysco_same_subnet :: "u32 \<Rightarrow> u32 \<Rightarrow> u32 \<Rightarrow> bool" where
  "dysco_same_subnet ip1 ip2 nmask \<longleftrightarrow> ip1 AND nmask = ip2 AND nmask"

text \<open>
  The test \<^verbatim>\<open>if (rt)\<close> does not see the error pointer that a failed lookup answers: it is handed to
  \<^verbatim>\<open>rt_nexthop\<close>, which reads the gateway through it, so without a route the step is a fault.
\<close>

definition dysco_route :: "kapi \<Rightarrow> skb \<Rightarrow> u32 \<Rightarrow> (u32 \<times> u32) option" where
  "dysco_route K b d = k_route K (dev_net (skb_dev b)) (ifindex (skb_dev b)) (skb_mark b) (tos (iph b)) d"

definition dysco_arp :: "kapi \<Rightarrow> skb \<Rightarrow> dysco_cb_out \<Rightarrow> dysco_cb_out option" where
  "dysco_arp K b c = do {
     (gw, src) \<leftarrow> dysco_route K b (dip (o_sub c));
     let nh = (if gw \<noteq> 0 then gw else dip (o_sub c));
     let c1 = c\<lparr>o_sub := (o_sub c)\<lparr>sip := src\<rparr>\<rparr>;
     Some (case k_neigh K nh of None \<Rightarrow> c1 | Some ha \<Rightarrow> c1\<lparr>o_nh_mac := ha\<rparr>)
   }"

lemma dysco_arp_result:
  "dysco_arp K b c = Some c1 \<Longrightarrow> \<exists>src mac. c1 = c\<lparr>o_sub := (o_sub c)\<lparr>sip := src\<rparr>, o_nh_mac := mac\<rparr>"
  by (cases c) (auto simp: dysco_arp_def Let_def split: option.splits bind_splits prod.splits)

lemma dysco_arp_route: "dysco_arp K b c = None \<longleftrightarrow> dysco_route K b (dip (o_sub c)) = None"
  by (auto simp: dysco_arp_def Let_def split: bind_splits prod.splits)

text \<open>The source and destination ports of a new subsession.\<close>

definition draw_ports :: "dysco_cb_out \<Rightarrow> dstate \<Rightarrow> dysco_cb_out \<times> dstate" where
  "draw_ports c s = (let ((l, r), s1) = alloc_port_pair s
     in (c\<lparr>o_sub := (o_sub c)\<lparr>sport := l, dport := r\<rparr>\<rparr>, s1))"

definition dysco_create_cb_out :: "kapi \<Rightarrow> skb \<Rightarrow> addr \<Rightarrow> dstate \<Rightarrow> (addr option \<times> dstate) option" where
  "dysco_create_cb_out K b a s = (
     let c = zero_cb_out\<lparr>o_sc := Some a, o_super := pkt_session (iph b) (th b)\<rparr> in
     case alloc_out K c s of
       (None, s1) \<Rightarrow> Some (None, s1)
     | (Some p, s1) \<Rightarrow> do {
         sc \<leftarrow> scs s1 a;
         if sc_len sc \<noteq> 0 then (case sc_hops sc of
             [] \<Rightarrow> None
           | h # hs \<Rightarrow> do {
               c1 \<leftarrow> dysco_arp K b (c\<lparr>o_sub := (o_sub c)\<lparr>dip := h\<rparr>\<rparr>);
               let (c2, s2) = draw_ports c1 s1;
               Some (Some p, set_out p c2 s2)
             })
         else do { s2 \<leftarrow> free_out p s1; Some (None, s2) }
       })"

section \<open>Control blocks of the two directions\<close>

definition cb_out_reverse :: "addr \<Rightarrow> dysco_cb_out \<Rightarrow> bool \<Rightarrow> dysco_cb_in" where
  "cb_out_reverse p c two_paths = zero_cb_in\<lparr>
     i_sub := \<lparr>sip = dip (o_sub c), dip = sip (o_sub c),
               sport = dport (o_sub c), dport = sport (o_sub c)\<rparr>,
     i_super := \<lparr>sip = dip (o_super c), dip = sip (o_super c),
                 sport = dport (o_super c), dport = sport (o_super c)\<rparr>,
     i_in_iack := o_out_iseq c, i_out_iack := o_out_iseq c,
     i_in_iseq := o_out_iack c, i_out_iseq := o_out_iack c,
     i_seq_delta := 0, i_ack_delta := 0,
     i_ts_ok := o_ts_ok c,
     i_ts_in := o_tsr_in c, i_ts_out := o_tsr_in c, i_ts_delta := 0,
     i_tsr_in := o_ts_in c, i_tsr_out := o_ts_in c, i_tsr_delta := 0,
     i_ws_ok := o_ws_ok c, i_ws_in := o_ws_in c, i_ws_out := o_ws_in c, i_ws_delta := 0,
     i_sack_ok := o_sack_ok c, i_two_paths := two_paths, i_dcb_out := Some p\<rparr>"

definition dysco_insert_cb_out_reverse :: "kapi \<Rightarrow> addr \<Rightarrow> bool \<Rightarrow> dstate
    \<Rightarrow> (addr option \<times> dstate) option" where
  "dysco_insert_cb_out_reverse K p two_paths s = do {
     c \<leftarrow> outs s p;
     let ci = cb_out_reverse p c two_paths;
     (case alloc_in K ci s of
        (None, s1) \<Rightarrow> Some (None, s1)
      | (Some q, s1) \<Rightarrow>
          Some (Some q, link_in (i_sub ci) q (set_out p (c\<lparr>o_dcb_in := Some q\<rparr>) s1)))
   }"

definition dysco_insert_cb_out :: "kapi \<Rightarrow> addr \<Rightarrow> bool \<Rightarrow> dstate \<Rightarrow> dstate option" where
  "dysco_insert_cb_out K p two_paths s = do {
     c \<leftarrow> outs s p;
     (r, s1) \<leftarrow> dysco_insert_cb_out_reverse K p two_paths (link_out (o_super c) p s);
     c1 \<leftarrow> outs s1 p;
     Some (set_out p (c1\<lparr>o_dcb_in := r\<rparr>) s1)
   }"

definition dysco_out_lookup :: "skb \<Rightarrow> dstate \<Rightarrow> addr option" where
  "dysco_out_lookup b s = look_out (pkt_session (iph b) (th b)) s"

section \<open>Packets that leave a middlebox\<close>

definition dysco_lookup_pending :: "skb \<Rightarrow> dstate \<Rightarrow> addr option" where
  "dysco_lookup_pending b s = look_pen (pkt_session (iph b) (th b)) s"

text \<open>The block on the stack is only partly initialised before the options are parsed into it.\<close>

definition tag_aux :: "kapi \<Rightarrow> skb \<Rightarrow> dstate \<Rightarrow> dysco_cb_out" where
  "tag_aux K b s = (let junk = k_junk_out K (next_addr s)
     in dysco_parse_tcp_syn_opt_s (th b) (tdata b)
          (junk\<lparr>o_tag_ok := False, o_sub := (o_sub junk)\<lparr>sip := 0, sport := 0\<rparr>\<rparr>))"

definition dysco_lookup_pen_tag :: "kapi \<Rightarrow> skb \<Rightarrow> dstate \<Rightarrow> (addr option \<times> dstate) option" where
  "dysco_lookup_pen_tag K b s = (
     let aux = tag_aux K b s in
     if o_tag_ok aux then
       (case look_pen_tag (o_dysco_tag aux) s of
          None \<Rightarrow> Some (None, s)
        | Some p \<Rightarrow> do {
            c \<leftarrow> outs s p;
            Some (Some p, set_out p (c\<lparr>
              o_ws_ok := o_ws_ok aux, o_ws_delta := 0,
              o_ws_in := o_ws_in aux, o_ws_out := o_ws_in aux,
              o_ts_ok := o_ts_ok aux, o_ts_delta := 0,
              o_ts_in := o_ts_in aux, o_ts_out := o_ts_in aux,
              o_sack_ok := o_sack_ok aux,
              o_tag_ok := True, o_dysco_tag := o_dysco_tag aux\<rparr>) s)
          })
     else Some (None, s))"

definition dysco_update_five_tuple :: "skb \<Rightarrow> addr \<Rightarrow> dstate \<Rightarrow> dstate option" where
  "dysco_update_five_tuple b p s = do {
     c \<leftarrow> outs s p;
     Some (set_out p (c\<lparr>o_super := pkt_session (iph b) (th b)\<rparr>) s)
   }"

definition dysco_out_handle_mb :: "kapi \<Rightarrow> addr \<Rightarrow> skb \<Rightarrow> dstate \<Rightarrow> (skb \<times> dstate) option" where
  "dysco_out_handle_mb K p b s = do {
     c \<leftarrow> outs s p;
     let s1 = unlink_pen_tag (o_dysco_tag c) p (unlink_pen (o_super c) p s);
     a \<leftarrow> o_sc c;
     sc \<leftarrow> scs s1 a;
     c1 \<leftarrow> (if sc_len sc \<noteq> 0 then (case sc_hops sc of
              [] \<Rightarrow> None
            | h # hs \<Rightarrow> dysco_arp K b (c\<lparr>o_sub := (o_sub c)\<lparr>dip := h\<rparr>\<rparr>))
          else Some c);
     let (c2, s2) = draw_ports c1 s1;
     let c3 = dysco_parse_tcp_syn_opt_s (th b) (tdata b)
           (c2\<lparr>o_out_iseq := ntohl (th_seq (th b)), o_in_iseq := ntohl (th_seq (th b))\<rparr>);
     s3 \<leftarrow> dysco_insert_cb_out K p False (set_out p c3 s2);
     d \<leftarrow> outs s3 p;
     let b1 = dysco_out_hdr_rewrite d b;
     let b2 = (if o_tag_ok d then dysco_remove_tag b1 else b1);
     (ok, b3) \<leftarrow> dysco_add_sc K b2 d s3;
     Some (dysco_fix_tcp_ip_csum K b3, s3)
   }"

section \<open>SYN segments\<close>

definition out_syn_numbers :: "tcphdr \<Rightarrow> dysco_cb_out \<Rightarrow> dysco_cb_out" where
  "out_syn_numbers t c = c\<lparr>
     o_in_iseq := ntohl (th_seq t), o_out_iseq := ntohl (th_seq t),
     o_in_iack := ntohl (th_ack_seq t) - 1, o_out_iack := ntohl (th_ack_seq t) - 1\<rparr>"

definition out_syn_reverse :: "dysco_cb_out \<Rightarrow> dysco_cb_in \<Rightarrow> dysco_cb_in" where
  "out_syn_reverse c i = (
     let i1 = i\<lparr>i_in_iseq := o_out_iack c, i_out_iseq := o_out_iack c,
           i_in_iack := o_out_iseq c, i_out_iack := o_out_iseq c,
           i_seq_delta := 0, i_ack_delta := 0\<rparr>;
         i2 = (if o_ts_ok c then i1\<lparr>i_ts_ok := True,
             i_ts_in := o_tsr_out c, i_ts_out := o_tsr_out c,
             i_tsr_in := o_ts_out c, i_tsr_out := o_ts_out c,
             i_ts_delta := 0, i_tsr_delta := 0\<rparr>
           else i1\<lparr>i_ts_ok := False\<rparr>)
     in if \<not> o_sack_ok c then i2\<lparr>i_sack_ok := False\<rparr> else i2)"

definition out_syn_ack :: "kapi \<Rightarrow> addr \<Rightarrow> dysco_cb_out \<Rightarrow> skb \<Rightarrow> dstate
    \<Rightarrow> (tx_result \<times> skb \<times> dstate) option" where
  "out_syn_ack K p c b s = (
     case look_in \<lparr>sip = dip (o_sub c), dip = sip (o_sub c),
            sport = dport (o_sub c), dport = sport (o_sub c)\<rparr> s of
       None \<Rightarrow> Some (TX_CONTINUE, b, s)
     | Some q \<Rightarrow> do {
         i \<leftarrow> ins s q;
         let c1 = out_syn_numbers (th b) c;
         Some (TX_CONTINUE, dysco_out_hdr_rewrite_csum K c1 b,
               set_in q (out_syn_reverse c1 i) (set_out p c1 s))
       })"

definition out_syn_first :: "kapi \<Rightarrow> addr \<Rightarrow> dysco_cb_out \<Rightarrow> skb \<Rightarrow> dstate
    \<Rightarrow> (tx_result \<times> skb \<times> dstate) option" where
  "out_syn_first K p c b s = do {
     c1 \<leftarrow> (if take 4 (o_nh_mac c) = replicate 4 0 then dysco_arp K b c else Some c);
     (r, b1) \<leftarrow> dysco_out_tx_init K (dysco_out_hdr_rewrite c1 b) c1 s;
     Some (r, b1, set_out p c1 s)
   }"

definition out_syn_known :: "kapi \<Rightarrow> addr \<Rightarrow> skb \<Rightarrow> dstate \<Rightarrow> (tx_result \<times> skb \<times> dstate) option" where
  "out_syn_known K p b s = do {
     c \<leftarrow> outs s p;
     let c1 = dysco_parse_tcp_syn_opt_s (th b) (tdata b) (c\<lparr>o_seq_cutoff := ntohl (th_seq (th b))\<rparr>);
     let s1 = set_out p c1 s;
     if tcp_flag_set (th b) TCPHDR_ACK then out_syn_ack K p c1 b s1 else out_syn_first K p c1 b s1
   }"

definition dysco_out_syn :: "kapi \<Rightarrow> addr option \<Rightarrow> skb \<Rightarrow> dstate
    \<Rightarrow> (tx_result \<times> skb \<times> dstate) option" where
  "dysco_out_syn K po b s = (case po of
       Some p \<Rightarrow> out_syn_known K p b s
     | None \<Rightarrow> (case dysco_match_policy K b s of
          None \<Rightarrow> Some (TX_CONTINUE, b, s)
        | Some a \<Rightarrow> do {
            (r, s1) \<leftarrow> dysco_create_cb_out K b a s;
            (case r of
               None \<Rightarrow> Some (TX_CONTINUE, b, s1)
             | Some p \<Rightarrow> do {
                 s2 \<leftarrow> dysco_insert_cb_out K p False s1;
                 let s3 = (if dev_measurement s2 = None
                   then s2\<lparr>dev_measurement := Some (ifindex (skb_dev b))\<rparr> else s2);
                 out_syn_known K p b s3
               })
          }))"

section \<open>The window of a splice\<close>

abbreviation (input) MAX_WND_REC :: u32 where "MAX_WND_REC \<equiv> 16 * 1024"

text \<open>Bytes received and not yet read; after a wrap the code subtracts the other socket's counter.\<close>

definition splice_rcv_buf :: "tcp_sock \<Rightarrow> tcp_sock \<Rightarrow> u32" where
  "splice_rcv_buf my other = (if copied_seq my \<le> rcv_nxt my
     then rcv_nxt my - copied_seq my
     else ucast ((ucast (rcv_nxt my) :: u64) + (4294967296 - ucast (copied_seq other))))"

definition splice_window :: "tcp_sock \<Rightarrow> tcp_sock \<Rightarrow> u16 \<Rightarrow> u16" where
  "splice_window my other w = (
     let wscale = unat (rcv_wscale my);
         old_wnd = push_bit wscale (ucast (ntohs w)) :: u32;
         rcv_buf = splice_rcv_buf my other;
         snd_wnd' = snd_wnd other;
         new1 = (if rcv_buf > snd_wnd' then 0
                 else if snd_wnd' - rcv_buf < old_wnd then snd_wnd' - rcv_buf else old_wnd);
         new2 = (if wscale = 0 then 0 else new1);
         new_wnd = (if rcv_buf > MAX_WND_REC then 0
                    else if MAX_WND_REC > old_wnd then old_wnd else MAX_WND_REC)
     in htons (ucast (drop_bit wscale new_wnd)))"

definition put_window :: "kapi \<Rightarrow> u16 \<Rightarrow> skb \<Rightarrow> skb" where
  "put_window K new b = (let b1 = inet_th_csum2 K (window (th b)) new False b
     in b1\<lparr>th := (th b1)\<lparr>window := new\<rparr>\<rparr>)"

definition dysco_fix_rcv_window :: "kapi \<Rightarrow> dysco_cb_out \<Rightarrow> skb \<Rightarrow> dstate \<Rightarrow> skb option" where
  "dysco_fix_rcv_window K c b s = (
     if window (th b) = 0 then Some b
     else do {
       my \<leftarrow> Option.bind (o_my_tp c) (socks s);
       other \<leftarrow> Option.bind (o_other_tp c) (socks s);
       Some (put_window K (splice_window my other (window (th b))) b)
     })"

definition splice_snd_buf :: "tcp_sock \<Rightarrow> u32" where
  "splice_snd_buf other = (if snd_una other \<le> snd_nxt other
     then snd_nxt other - snd_una other
     else ucast ((ucast (snd_nxt other) :: u64) + (4294967296 - ucast (snd_una other))))"

definition dysco_fix_rcv_window_old :: "kapi \<Rightarrow> dysco_cb_out \<Rightarrow> skb \<Rightarrow> dstate \<Rightarrow> skb option" where
  "dysco_fix_rcv_window_old K c b s = (
     if window (th b) = 0 then Some b
     else do {
       my \<leftarrow> Option.bind (o_my_tp c) (socks s);
       other \<leftarrow> Option.bind (o_other_tp c) (socks s);
       let wscale = unat (rcv_wscale my);
       let old_wnd = (push_bit wscale (ucast (ntohs (window (th b)))) :: u32);
       let tot_buf = splice_snd_buf other + splice_rcv_buf my other;
       Some (if max_window other \<le> tot_buf then put_window K 0 b
             else if max_window other - tot_buf < old_wnd
             then put_window K (htons (ucast (drop_bit wscale (max_window other - tot_buf)))) b
             else b)
     })"

section \<open>The TCP branch of the output hook\<close>

definition dysco_output_known :: "kapi \<Rightarrow> addr option \<Rightarrow> skb \<Rightarrow> dstate
    \<Rightarrow> (tx_result \<times> skb \<times> dstate) option" where
  "dysco_output_known K po b s = (
     if tcp_flag_set (th b) TCPHDR_SYN then dysco_out_syn K po b s
     else (case po of
       None \<Rightarrow> Some (TX_CONTINUE, b, s)
     | Some p \<Rightarrow> do {
         c \<leftarrow> outs s p;
         b1 \<leftarrow> (if o_my_tp c \<noteq> None \<and> tcp_flag_set (th b) TCPHDR_ACK \<and> \<not> o_state_t c
               then dysco_fix_rcv_window K c b s else Some b);
         (b2, s1) \<leftarrow> dysco_out_translate K p b1 s;
         Some (TX_CONTINUE, b2, s1)
       }))"

definition dysco_output_tcp :: "kapi \<Rightarrow> skb \<Rightarrow> dstate \<Rightarrow> (tx_result \<times> skb \<times> dstate) option" where
  "dysco_output_tcp K b s = (
     case dysco_out_lookup b s of
       Some p \<Rightarrow> dysco_output_known K (Some p) b s
     | None \<Rightarrow> (case dysco_lookup_pending b s of
          Some p \<Rightarrow> do { (b1, s1) \<leftarrow> dysco_out_handle_mb K p b s; Some (TX_CONTINUE, b1, s1) }
        | None \<Rightarrow> do {
            (r, s1) \<leftarrow> dysco_lookup_pen_tag K b s;
            (case r of
               Some p \<Rightarrow> do {
                 s2 \<leftarrow> dysco_update_five_tuple b p s1;
                 (b1, s3) \<leftarrow> dysco_out_handle_mb K p b s2;
                 Some (TX_CONTINUE, b1, s3)
               }
             | None \<Rightarrow> dysco_output_known K None b s1)
          }))"

end
