(* ===== verification/Dysco_Control_Out.thy ===== *)
theory Dysco_Control_Out
  imports Dysco_Output
begin

text \<open>
  Control messages that leave a host (\<^verbatim>\<open>dysco_control_output.c\<close>): the reconfiguration block
  and the new path a \<open>DYSCO_SYN\<close> creates, the cutoffs a \<open>DYSCO_SYN_ACK\<close> and a \<open>DYSCO_ACK\<close>
  carry, and the sockets a splice records. A message is part of the packet, so a step may
  change the packet. The result of a handler is \<open>TX_CONTINUE\<close> for the code's 1 and
  \<open>NETDEV_TX_OK\<close> for its 0.
\<close>

abbreviation (input) dysco_control_port :: u16 where "dysco_control_port \<equiv> htons DYSCO_SERVER_PORT"
abbreviation (input) dysco_mgm_port :: u16 where "dysco_mgm_port \<equiv> htons DYSCO_MANAGEMENT_PORT"

definition map_cmsg :: "(control_message \<Rightarrow> control_message) \<Rightarrow> skb \<Rightarrow> skb" where
  "map_cmsg f b = b\<lparr>cmsg := f (cmsg b)\<rparr>"

definition dysco_fix_udp_checksum :: "kapi \<Rightarrow> skb \<Rightarrow> skb" where
  "dysco_fix_udp_checksum K b = (
     let u = (uh b)\<lparr>uh_check := 0\<rparr>;
         udp_len = ntohs (uh_len u);
         pseudo = k_csum_tcpudp_nofold K (saddr (iph b)) (daddr (iph b)) (uint udp_len) IPPROTO_UDP 0
     in b\<lparr>uh := u\<lparr>uh_check := k_csum_fold K (k_csum_udp K u (cmsg b) udp_len pseudo)\<rparr>,
          ip_summed := CHECKSUM_UNNECESSARY\<rparr>)"

text \<open>The clock: reading it moves time on.\<close>

definition getnstimeofday :: "kapi \<Rightarrow> dstate \<Rightarrow> (u64 \<times> u64) \<times> dstate" where
  "getnstimeofday K s = (k_now K (ticks s), s\<lparr>ticks := Suc (ticks s)\<rparr>)"

section \<open>The reconfiguration block\<close>

definition rcb_from_msg :: "control_message \<Rightarrow> iphdr \<Rightarrow> ethhdr \<Rightarrow> u16 \<times> u16 \<Rightarrow> u64 \<times> u64
    \<Rightarrow> dysco_cb_reconfig \<Rightarrow> dysco_cb_reconfig" where
  "rcb_from_msg m ip e prts now r = r\<lparr>
     r_rec_begin := now, r_rec_done := False,
     r_super := m_leftSS m,
     r_sub_out := \<lparr>sip = saddr ip, dip = daddr ip, sport = fst prts, dport = snd prts\<rparr>,
     r_leftIseq := ntohl (m_leftIseq m), r_leftIack := ntohl (m_leftIack m),
     r_leftIts := ntohl (m_leftIts m), r_leftItsr := ntohl (m_leftItsr m),
     r_leftIws := ntohs (m_leftIws m), r_leftIwsr := ntohs (m_leftIwsr m),
     r_sack_ok := ucast (ntohs (m_sackOk m)), r_nh_mac := h_dest e\<rparr>"

definition dysco_insert_cb_control :: "kapi \<Rightarrow> skb \<Rightarrow> dstate \<Rightarrow> addr option \<times> skb \<times> dstate" where
  "dysco_insert_cb_control K b s = (
     case alloc_rcb K (k_junk_rcb K (next_addr s)) s of
       (None, s1) \<Rightarrow> (None, b, s1)
     | (Some p, s1) \<Rightarrow>
         let (now, s2) = getnstimeofday K s1;
             (prts, s3) = alloc_port_pair s2;
             r = rcb_from_msg (cmsg b) (iph b) (eth b) prts now (k_junk_rcb K (next_addr s));
             b1 = map_cmsg (\<lambda>m. m\<lparr>m_sport := sport (r_sub_out r),
                                  m_dport := dport (r_sub_out r)\<rparr>) b
         in (Some p, dysco_fix_udp_checksum K b1, link_reconfig (r_super r) p (set_rcb p r s3)))"

section \<open>A middlebox between the anchors\<close>

definition cb_out_of_rcb :: "dysco_cb_reconfig \<Rightarrow> dysco_cb_out" where
  "cb_out_of_rcb r = zero_cb_out\<lparr>
     o_super := r_super r, o_sub := r_sub_out r,
     o_out_iseq := r_leftIseq r, o_in_iseq := r_leftIseq r,
     o_out_iack := r_leftIack r, o_in_iack := r_leftIack r,
     o_ts_out := r_leftIts r, o_ts_in := r_leftIts r,
     o_tsr_out := r_leftItsr r, o_tsr_in := r_leftItsr r,
     o_ws_out := r_leftIws r, o_ws_in := r_leftIws r,
     o_sack_ok := bit (r_sack_ok r) 0, o_nh_mac := r_nh_mac r\<rparr>"

definition dysco_control_insert_out :: "kapi \<Rightarrow> skb \<Rightarrow> addr \<Rightarrow> dstate \<Rightarrow> dstate option" where
  "dysco_control_insert_out K b rp s = do {
     r \<leftarrow> rcbs s rp;
     (case alloc_out K zero_cb_out s of
        (None, s1) \<Rightarrow> Some s1
      | (Some p, s1) \<Rightarrow> do {
          c \<leftarrow> dysco_arp K b (cb_out_of_rcb r);
          s2 \<leftarrow> dysco_insert_cb_out K p False (set_out p c s1);
          c1 \<leftarrow> outs s2 p;
          q \<leftarrow> o_dcb_in c1;
          i \<leftarrow> ins s2 q;
          Some (set_in q (i\<lparr>i_ts_in := o_tsr_out c1, i_ts_out := o_tsr_out c1,
                            i_tsr_in := o_ts_out c1, i_tsr_out := o_ts_out c1\<rparr>) s2)
        })
   }"

section \<open>Switching to the new path\<close>

definition dysco_replace_cb_rightA :: "kapi \<Rightarrow> skb \<Rightarrow> dstate \<Rightarrow> (skb \<times> dstate) option" where
  "dysco_replace_cb_rightA K b s = (
     case look_reconfig (m_super (cmsg b)) s of
       None \<Rightarrow> Some (b, s)
     | Some rp \<Rightarrow> do {
         r \<leftarrow> rcbs s rp;
         po \<leftarrow> r_old_dcb r;
         old \<leftarrow> outs s po;
         let s1 = set_out po (old\<lparr>o_old_path := True, o_state := DYSCO_SYN_RECEIVED,
                                  o_other_path := r_new_dcb r\<rparr>) s;
         pn \<leftarrow> r_new_dcb r;
         new \<leftarrow> outs s1 pn;
         let cutoff = (if o_seq_add new then o_seq_cutoff old + o_seq_delta new
                       else o_seq_cutoff old - o_seq_delta new);
         Some (dysco_fix_udp_checksum K (map_cmsg (\<lambda>m. m\<lparr>m_seqCutoff := htonl cutoff\<rparr>) b), s1)
       })"

definition dysco_replace_cb_leftA :: "kapi \<Rightarrow> addr \<Rightarrow> skb \<Rightarrow> dstate \<Rightarrow> (skb \<times> dstate) option" where
  "dysco_replace_cb_leftA K rp b s = do {
     r \<leftarrow> rcbs s rp;
     po \<leftarrow> r_old_dcb r;
     old \<leftarrow> outs s po;
     let old1 = (if o_state old = DYSCO_SYN_SENT then old\<lparr>o_state := DYSCO_ESTABLISHED\<rparr> else old);
     let s1 = set_out po old1 s;
     let b1 = dysco_fix_udp_checksum K
           (map_cmsg (\<lambda>m. m\<lparr>m_seqCutoff := htonl (o_seq_cutoff old1)\<rparr>) b);
     let s2 = (if r_rec_done r then s1
               else let (now, s') = getnstimeofday K s1
                    in set_rcb rp (r\<lparr>r_rec_end := now, r_rec_done := True\<rparr>) s');
     Some (b1, s2)
   }"

section \<open>DYSCO_SYN\<close>

text \<open>What a retransmitted message is filled with, and what the first one is.\<close>

definition msg_from_rcb :: "dysco_cb_reconfig \<Rightarrow> control_message \<Rightarrow> control_message" where
  "msg_from_rcb r m = m\<lparr>
     m_leftIseq := htonl (r_leftIseq r), m_leftIack := htonl (r_leftIack r),
     m_leftIts := htonl (r_leftIts r), m_leftItsr := htonl (r_leftItsr r),
     m_leftIws := htons (r_leftIws r), m_leftIwsr := htons (r_leftIwsr r),
     m_sackOk := htons (ucast (r_sack_ok r)),
     m_sport := sport (r_sub_out r), m_dport := dport (r_sub_out r)\<rparr>"

definition msg_from_cb_out :: "dysco_cb_out \<Rightarrow> dysco_cb_in \<Rightarrow> control_message \<Rightarrow> control_message" where
  "msg_from_cb_out c i m = m\<lparr>
     m_leftIseq := htonl (o_in_iseq c), m_leftIack := htonl (o_in_iack c),
     m_leftIts := htonl (o_ts_in c), m_leftItsr := htonl (o_tsr_in c),
     m_leftIws := htons (o_ws_in c), m_leftIwsr := htons (i_ws_in i),
     m_sackOk := htons (if o_sack_ok c then 1 else 0)\<rparr>"

text \<open>The control block of the new path at the left anchor.\<close>

definition leftA_new_cb :: "kapi \<Rightarrow> skb \<Rightarrow> dysco_cb_reconfig \<Rightarrow> dysco_cb_out option" where
  "leftA_new_cb K b r = dysco_arp K b ((cb_out_of_rcb r)\<lparr>
     o_ts_ok := (r_leftIts r \<noteq> 0), o_ws_ok := (r_leftIws r \<noteq> 0)\<rparr>)"

definition leftA_mark_old :: "addr \<Rightarrow> addr \<Rightarrow> bool \<Rightarrow> dstate \<Rightarrow> dstate option" where
  "leftA_mark_old po pn transfer s = do {
     old \<leftarrow> outs s po;
     let old1 = old\<lparr>o_old_path := True\<rparr>;
     let old2 = (if transfer then old1\<lparr>o_state_t := True\<rparr> else old1);
     q \<leftarrow> o_dcb_in old2;
     i \<leftarrow> ins s q;
     Some (set_out po (old2\<lparr>o_state := DYSCO_SYN_SENT, o_other_path := Some pn\<rparr>)
       (set_in q (i\<lparr>i_two_paths := True\<rparr>) s))
   }"

definition control_output_syn_leftA :: "kapi \<Rightarrow> skb \<Rightarrow> dstate \<Rightarrow> (tx_result \<times> skb \<times> dstate) option" where
  "control_output_syn_leftA K b s = (
     case look_out (m_leftSS (cmsg b)) s of
       None \<Rightarrow> Some (NETDEV_TX_OK, b, s)
     | Some po \<Rightarrow> do {
         old \<leftarrow> outs s po;
         q \<leftarrow> o_dcb_in old;
         i \<leftarrow> ins s q;
         let (ro, b1, s1) = dysco_insert_cb_control K (map_cmsg (msg_from_cb_out old i) b) s;
         (case ro of
            None \<Rightarrow> Some (NETDEV_TX_OK, b1, s1)
          | Some rp \<Rightarrow>
             (case alloc_out K zero_cb_out s1 of
                (None, s2) \<Rightarrow> Some (NETDEV_TX_OK, b1, s2)
              | (Some pn, s2) \<Rightarrow> do {
                  r \<leftarrow> rcbs s2 rp;
                  let s3 = set_rcb rp (r\<lparr>r_old_dcb := Some po\<rparr>) s2;
                  new \<leftarrow> leftA_new_cb K b1 r;
                  (qn, s4) \<leftarrow> dysco_insert_cb_out_reverse K pn True
                                (set_out pn (new\<lparr>o_other_path := Some po\<rparr>) s3);
                  new1 \<leftarrow> outs s4 pn;
                  s5 \<leftarrow> leftA_mark_old po pn (ntohs (m_semantic (cmsg b1)) = STATE_TRANSFER)
                          (set_out pn (new1\<lparr>o_dcb_in := qn\<rparr>) s4);
                  Some (TX_CONTINUE, b1, s5)
                }))
       })"

definition dysco_control_output_syn :: "kapi \<Rightarrow> skb \<Rightarrow> dstate \<Rightarrow> (tx_result \<times> skb \<times> dstate) option" where
  "dysco_control_output_syn K b s = (
     let ro = look_reconfig (m_super (cmsg b)) s in
     if saddr (iph b) = m_leftA (cmsg b) then
       (case ro of
          Some rp \<Rightarrow> do {
            r \<leftarrow> rcbs s rp;
            Some (TX_CONTINUE, dysco_fix_udp_checksum K (map_cmsg (msg_from_rcb r) b), s)
          }
        | None \<Rightarrow> control_output_syn_leftA K b s)
     else do {
       again \<leftarrow> (case ro of None \<Rightarrow> Some False
                 | Some rp \<Rightarrow> do { r \<leftarrow> rcbs s rp; Some (sip (r_sub_out r) \<noteq> 0) });
       if again then Some (TX_CONTINUE, b, s)
       else (case dysco_insert_cb_control K b s of
           (None, b1, s1) \<Rightarrow> Some (NETDEV_TX_OK, b1, s1)
         | (Some rp, b1, s1) \<Rightarrow> do {
             s2 \<leftarrow> dysco_control_insert_out K b1 rp s1;
             Some (TX_CONTINUE, b1, s2)
           })
     })"

section \<open>The sockets of a splice\<close>

definition cb_iif :: "dysco_cb_out \<Rightarrow> dstate \<Rightarrow> int option" where
  "cb_iif c s = do { q \<leftarrow> o_dcb_in c; i \<leftarrow> ins s q; Some (i_skb_iif i) }"

definition dysco_ctl_save_rcv_window :: "kapi \<Rightarrow> control_message \<Rightarrow> dstate
    \<Rightarrow> (tx_result \<times> dstate) option" where
  "dysco_ctl_save_rcv_window K m s = (
     case dysco_lookup_out_rev (m_leftSS m) s of
       None \<Rightarrow> Some (NETDEV_TX_OK, s)
     | Some pl \<Rightarrow> do {
         left \<leftarrow> outs s pl;
         if o_my_tp left \<noteq> None then Some (TX_CONTINUE, s)
         else (case look_out (m_rightSS m) s of
             None \<Rightarrow> Some (NETDEV_TX_OK, s)
           | Some pr \<Rightarrow> do {
               right \<leftarrow> outs s pr;
               liif \<leftarrow> cb_iif left s;
               let l = m_leftSS m;
               (case k_established K (net_ns (dh s)) (sip l) (sport l) (dip l) (ntohs (dport l)) liif of
                  None \<Rightarrow> Some (NETDEV_TX_OK, s)
                | Some my_sk \<Rightarrow> do {
                    riif \<leftarrow> cb_iif right s;
                    let r = m_rightSS m;
                    (case k_established K (net_ns (dh s)) (dip r) (dport r) (sip r)
                            (ntohs (sport r)) riif of
                       None \<Rightarrow> Some (NETDEV_TX_OK, s)
                     | Some other_sk \<Rightarrow> do {
                         let s1 = set_out pl (left\<lparr>o_other_tp := Some other_sk,
                                                   o_my_tp := Some my_sk\<rparr>) s;
                         right1 \<leftarrow> outs s1 pr;
                         Some (TX_CONTINUE, set_out pr (right1\<lparr>o_other_tp := Some my_sk,
                                                               o_my_tp := Some other_sk\<rparr>) s1)
                       })
                  })
             })
       })"

section \<open>The handler\<close>

definition is_control_len :: "udphdr \<Rightarrow> bool" where
  "is_control_len u \<longleftrightarrow> UDP_HDR_LEN + RUDP_HDR_LEN + sizeof_control_message \<le> unat (ntohs (uh_len u))"

definition control_output_ack :: "kapi \<Rightarrow> skb \<Rightarrow> dstate \<Rightarrow> (skb \<times> dstate) option" where
  "control_output_ack K b s = (
     case look_reconfig (m_super (cmsg b)) s of
       None \<Rightarrow> Some (b, s)
     | Some rp \<Rightarrow>
         if ntohs (m_semantic (cmsg b)) = STATE_TRANSFER then Some (b, s)
         else if saddr (iph b) = m_leftA (cmsg b) then do {
           r \<leftarrow> rcbs s rp;
           po \<leftarrow> r_old_dcb r;
           old \<leftarrow> outs s po;
           if \<not> o_state_t old then dysco_replace_cb_leftA K rp b s else Some (b, s)
         } else Some (b, s))"

definition control_output_msg :: "kapi \<Rightarrow> skb \<Rightarrow> dstate \<Rightarrow> (tx_result \<times> skb \<times> dstate) option" where
  "control_output_msg K b s = (
     case msg_of_code (m_mtype (cmsg b)) of
       Some DYSCO_SYN \<Rightarrow> dysco_control_output_syn K b s
     | Some DYSCO_SYN_ACK \<Rightarrow>
         if saddr (iph b) = m_rightA (cmsg b)
         then do { (b1, s1) \<leftarrow> dysco_replace_cb_rightA K b s; Some (TX_CONTINUE, b1, s1) }
         else Some (TX_CONTINUE, b, s)
     | Some DYSCO_ACK \<Rightarrow> do { (b1, s1) \<leftarrow> control_output_ack K b s; Some (TX_CONTINUE, b1, s1) }
     | _ \<Rightarrow> Some (TX_CONTINUE, b, s))"

definition dysco_control_output :: "kapi \<Rightarrow> skb \<Rightarrow> dstate \<Rightarrow> (tx_result \<times> skb \<times> dstate) option" where
  "dysco_control_output K b s = (
     if \<not> (uh_dest (uh b) = dysco_control_port \<or> uh_source (uh b) = dysco_control_port \<or>
           uh_dest (uh b) = dysco_mgm_port) then Some (TX_CONTINUE, b, s)
     else if \<not> is_control_len (uh b) then Some (TX_CONTINUE, b, s)
     else if saddr (iph b) \<notin> set (ifa_addresses (skb_dev b)) then Some (TX_CONTINUE, b, s)
     else if uh_dest (uh b) = dysco_mgm_port
     then do { (r, s1) \<leftarrow> dysco_ctl_save_rcv_window K (cmsg b) s; Some (r, b, s1) }
     else control_output_msg K b s)"

end
