(* ===== verification/Dysco_Control_In.thy ===== *)
theory Dysco_Control_In
  imports Dysco_Control_Out
begin

text \<open>
  Control messages that enter a host (\<^verbatim>\<open>dysco_control_input.c\<close>): the blocks a \<open>DYSCO_SYN\<close>
  creates at a middlebox and at the right anchor, the translation deltas computed there, and
  the cutoffs and state changes the later messages bring. A handler's result is \<open>True\<close> for
  the code's 1 and \<open>False\<close> for its 0 (no memory); the caller ignores it.
\<close>

section \<open>The reconfiguration block\<close>

definition rcb_from_syn :: "control_message \<Rightarrow> iphdr \<Rightarrow> dysco_cb_reconfig \<Rightarrow> dysco_cb_reconfig" where
  "rcb_from_syn m ip r = r\<lparr>
     r_super := m_super m, r_leftSS := m_leftSS m, r_rightSS := m_rightSS m,
     r_sub_in := \<lparr>sip = saddr ip, dip = daddr ip, sport = m_sport m, dport = m_dport m\<rparr>,
     r_sub_out := (r_sub_out r)\<lparr>sip := 0\<rparr>,
     r_leftIseq := ntohl (m_leftIseq m), r_leftIack := ntohl (m_leftIack m),
     r_leftIts := ntohl (m_leftIts m), r_leftItsr := ntohl (m_leftItsr m),
     r_leftIws := ntohs (m_leftIws m), r_leftIwsr := ntohs (m_leftIwsr m),
     r_sack_ok := ucast (ntohs (m_sackOk m))\<rparr>"

definition dysco_insert_rcb_control_input :: "kapi \<Rightarrow> skb \<Rightarrow> dstate \<Rightarrow> addr option \<times> dstate" where
  "dysco_insert_rcb_control_input K b s = (
     let r = rcb_from_syn (cmsg b) (iph b) (k_junk_rcb K (next_addr s)) in
     case alloc_rcb K r s of
       (None, s1) \<Rightarrow> (None, s1)
     | (Some p, s1) \<Rightarrow> (Some p, link_reconfig (r_super r) p s1))"

section \<open>The new blocks\<close>

definition build_cb_out :: "skb \<Rightarrow> dysco_cb_reconfig \<Rightarrow> dysco_cb_out" where
  "build_cb_out b r = zero_cb_out\<lparr>
     o_super := \<lparr>sip = dip (r_super r), dip = sip (r_super r),
                 sport = dport (r_super r), dport = sport (r_super r)\<rparr>,
     o_sub := \<lparr>sip = daddr (iph b), dip = saddr (iph b),
               sport = dport (r_sub_in r), dport = sport (r_sub_in r)\<rparr>,
     o_out_iseq := r_leftIack r, o_in_iseq := r_leftIack r,
     o_out_iack := r_leftIseq r, o_in_iack := r_leftIseq r,
     o_nh_mac := h_source (eth b)\<rparr>"

definition dysco_build_cb_in_reverse :: "kapi \<Rightarrow> skb \<Rightarrow> dysco_cb_reconfig \<Rightarrow> dstate
    \<Rightarrow> addr option \<times> dstate" where
  "dysco_build_cb_in_reverse K b r s = alloc_out K (build_cb_out b r) s"

definition cb_in_of_rcb :: "skb \<Rightarrow> dysco_cb_reconfig \<Rightarrow> dysco_cb_in \<Rightarrow> dysco_cb_in" where
  "cb_in_of_rcb b r c = c\<lparr>i_sub := r_sub_in r, i_in_iseq := r_leftIseq r,
     i_in_iack := r_leftIack r, i_two_paths := False, i_skb_iif := skb_iif b\<rparr>"

section \<open>Deltas\<close>

text \<open>
  A difference is stored as a magnitude and a direction: \<open>delta_mag\<close> and \<open>delta_add\<close> for the
  32-bit counters, \<open>ws_mag\<close> for the window scales, whose direction is not kept.
\<close>

definition delta_mag :: "u32 \<Rightarrow> u32 \<Rightarrow> u32" where
  "delta_mag vin vout = (if vin < vout then vout - vin else vin - vout)"

definition delta_add :: "u32 \<Rightarrow> u32 \<Rightarrow> bool" where
  "delta_add vin vout \<longleftrightarrow> vin < vout"

definition ws_mag :: "u16 \<Rightarrow> u16 \<Rightarrow> u16" where
  "ws_mag vin vout = (if vin < vout then vout - vin else vin - vout)"

definition deltas_out_nums :: "dysco_cb_out \<Rightarrow> dysco_cb_out \<Rightarrow> dysco_cb_out" where
  "deltas_out_nums old c = (let c1 = c\<lparr>o_in_iseq := o_in_iseq old, o_in_iack := o_in_iack old\<rparr>
     in c1\<lparr>o_seq_delta := delta_mag (o_in_iseq c1) (o_out_iseq c1),
           o_seq_add := delta_add (o_in_iseq c1) (o_out_iseq c1),
           o_ack_delta := delta_mag (o_in_iack c1) (o_out_iack c1),
           o_ack_add := delta_add (o_in_iack c1) (o_out_iack c1)\<rparr>)"

definition deltas_out_ts :: "dysco_cb_out \<Rightarrow> dysco_cb_reconfig \<Rightarrow> dysco_cb_out \<Rightarrow> dysco_cb_out" where
  "deltas_out_ts old r c = (if r_leftIts r \<noteq> 0 then c\<lparr>
       o_ts_ok := True, o_ts_in := o_ts_in old, o_ts_out := r_leftItsr r,
       o_ts_delta := delta_mag (o_ts_in old) (r_leftItsr r),
       o_ts_add := delta_add (o_ts_in old) (r_leftItsr r),
       o_tsr_in := o_tsr_in old, o_tsr_out := r_leftIts r,
       o_tsr_delta := delta_mag (o_tsr_in old) (r_leftIts r),
       o_tsr_add := delta_add (o_tsr_in old) (r_leftIts r)\<rparr>
     else c)"

definition deltas_out_ws :: "dysco_cb_out \<Rightarrow> dysco_cb_reconfig \<Rightarrow> dysco_cb_out \<Rightarrow> dysco_cb_out" where
  "deltas_out_ws old r c = (if r_leftIwsr r \<noteq> 0 then c\<lparr>
       o_ws_ok := True, o_ws_in := o_ws_in old, o_ws_out := r_leftIwsr r,
       o_ws_delta := ws_mag (o_ws_in old) (r_leftIwsr r)\<rparr>
     else c\<lparr>o_ws_ok := False\<rparr>)"

definition dysco_compute_deltas_out :: "dysco_cb_out \<Rightarrow> dysco_cb_out \<Rightarrow> dysco_cb_reconfig
    \<Rightarrow> dysco_cb_out" where
  "dysco_compute_deltas_out c old r =
     (deltas_out_ws old r (deltas_out_ts old r (deltas_out_nums old c)))
       \<lparr>o_sack_ok := bit (r_sack_ok r) 0\<rparr>"

definition deltas_in_nums :: "dysco_cb_out \<Rightarrow> dysco_cb_in \<Rightarrow> dysco_cb_in" where
  "deltas_in_nums old c = (let c1 = c\<lparr>i_out_iseq := o_in_iack old, i_out_iack := o_in_iseq old\<rparr>
     in c1\<lparr>i_seq_delta := delta_mag (i_in_iseq c1) (i_out_iseq c1),
           i_seq_add := delta_add (i_in_iseq c1) (i_out_iseq c1),
           i_ack_delta := delta_mag (i_in_iack c1) (i_out_iack c1),
           i_ack_add := delta_add (i_in_iack c1) (i_out_iack c1)\<rparr>)"

text \<open>The timestamps of the old path come from its input block, which is read only here.\<close>

definition deltas_in_ts :: "dysco_cb_out \<Rightarrow> dstate \<Rightarrow> dysco_cb_reconfig \<Rightarrow> dysco_cb_in
    \<Rightarrow> dysco_cb_in option" where
  "deltas_in_ts old s r c = (if r_leftIts r \<noteq> 0 then do {
       q \<leftarrow> o_dcb_in old;
       oi \<leftarrow> ins s q;
       Some (c\<lparr>i_ts_ok := True, i_ts_in := r_leftIts r, i_ts_out := i_ts_out oi,
         i_ts_delta := delta_mag (r_leftIts r) (i_ts_out oi),
         i_ts_add := delta_add (r_leftIts r) (i_ts_out oi),
         i_tsr_in := r_leftItsr r, i_tsr_out := i_tsr_out oi,
         i_tsr_delta := delta_mag (r_leftItsr r) (i_tsr_out oi),
         i_tsr_add := delta_add (r_leftItsr r) (i_tsr_out oi)\<rparr>)
     } else Some (c\<lparr>i_ts_ok := False\<rparr>))"

definition deltas_in_ws :: "dysco_cb_out \<Rightarrow> dysco_cb_reconfig \<Rightarrow> dysco_cb_in \<Rightarrow> dysco_cb_in" where
  "deltas_in_ws old r c = (if r_leftIws r \<noteq> 0 then c\<lparr>
       i_ws_ok := True, i_ws_in := r_leftIws r, i_ws_out := o_ws_in old,
       i_ws_delta := ws_mag (r_leftIws r) (o_ws_in old)\<rparr>
     else c\<lparr>i_ws_ok := False\<rparr>)"

definition dysco_compute_deltas_in :: "dysco_cb_in \<Rightarrow> dysco_cb_out \<Rightarrow> dstate \<Rightarrow> dysco_cb_reconfig
    \<Rightarrow> dysco_cb_in option" where
  "dysco_compute_deltas_in c old s r = do {
     c1 \<leftarrow> deltas_in_ts old s r (deltas_in_nums old c);
     Some ((deltas_in_ws old r c1)\<lparr>i_sack_ok := bit (r_sack_ok r) 0\<rparr>)
   }"

section \<open>DYSCO_SYN\<close>

text \<open>
  The right anchor looks up the session being replaced. When it does not know it, the input
  block is freed and the reconfiguration block unlinked; the output block is left behind.
\<close>

definition dysco_control_config_rightA :: "addr \<Rightarrow> control_message \<Rightarrow> addr \<Rightarrow> addr \<Rightarrow> dstate
    \<Rightarrow> (bool \<times> dstate) option" where
  "dysco_control_config_rightA rp m pi po s = do {
     r \<leftarrow> rcbs s rp;
     (case look_out \<lparr>sip = dip (m_rightSS m), dip = sip (m_rightSS m),
            sport = dport (m_rightSS m), dport = sport (m_rightSS m)\<rparr> s of
        None \<Rightarrow> do { s1 \<leftarrow> free_in pi s; Some (False, unlink_reconfig (r_super r) rp s1) }
      | Some po' \<Rightarrow> do {
          old \<leftarrow> outs s po';
          i \<leftarrow> ins s pi;
          i1 \<leftarrow> dysco_compute_deltas_in (i\<lparr>i_super := m_rightSS m\<rparr>) old s r;
          c \<leftarrow> outs s po;
          let c1 = dysco_compute_deltas_out c old r;
          let s1 = set_in pi (i1\<lparr>i_two_paths := True\<rparr>)
                (set_out po (c1\<lparr>o_other_path := Some po'\<rparr>) s);
          let s2 = set_rcb rp (r\<lparr>r_old_dcb := Some po', r_new_dcb := Some po\<rparr>) s1;
          old1 \<leftarrow> outs s2 po';
          Some (True, if ntohs (m_semantic m) = STATE_TRANSFER
            then set_out po' (old1\<lparr>o_state_t := True\<rparr>) s2 else s2)
        })
   }"

definition plain_cb_in :: "dysco_cb_reconfig \<Rightarrow> dysco_cb_in \<Rightarrow> dysco_cb_in" where
  "plain_cb_in r c = (
     let c1 = c\<lparr>i_super := r_super r, i_out_iseq := r_leftIseq r, i_out_iack := r_leftIack r,
           i_seq_delta := 0, i_ack_delta := 0\<rparr>;
         c2 = (if r_leftIts r \<noteq> 0 then c1\<lparr>i_ts_in := r_leftIts r, i_ts_out := r_leftIts r,
             i_ts_delta := 0, i_ts_ok := True\<rparr> else c1\<lparr>i_ts_ok := False\<rparr>);
         c3 = (if r_leftIws r \<noteq> 0 then c2\<lparr>i_ws_in := r_leftIws r, i_ws_out := r_leftIws r,
             i_ws_delta := 0, i_ws_ok := True\<rparr> else c2\<lparr>i_ws_ok := False\<rparr>)
     in c3\<lparr>i_sack_ok := bit (r_sack_ok r) 0\<rparr>)"

definition dysco_control_reconfig_in :: "kapi \<Rightarrow> skb \<Rightarrow> addr \<Rightarrow> dstate \<Rightarrow> (bool \<times> dstate) option" where
  "dysco_control_reconfig_in K b rp s = do {
     r \<leftarrow> rcbs s rp;
     (case alloc_in K (cb_in_of_rcb b r (k_junk_in K (next_addr s))) s of
        (None, s1) \<Rightarrow> Some (False, unlink_reconfig (r_super r) rp s1)
      | (Some pi, s1) \<Rightarrow>
         (case dysco_build_cb_in_reverse K b r s1 of
            (None, s2) \<Rightarrow> do { s3 \<leftarrow> free_in pi s2; Some (False, unlink_reconfig (r_super r) rp s3) }
          | (Some po, s2) \<Rightarrow> do {
              c \<leftarrow> outs s2 po;
              i \<leftarrow> ins s2 pi;
              let s3 = set_in pi (i\<lparr>i_dcb_out := Some po\<rparr>)
                    (set_out po (c\<lparr>o_dcb_in := Some pi\<rparr>) s2);
              (ok, s4) \<leftarrow> (if daddr (iph b) = m_rightA (cmsg b)
                 then dysco_control_config_rightA rp (cmsg b) pi po s3
                 else do {
                   i1 \<leftarrow> ins s3 pi;
                   c1 \<leftarrow> outs s3 po;
                   let s4 = set_in pi (plain_cb_in r i1)
                         (set_out po (c1\<lparr>o_sack_ok := bit (r_sack_ok r) 0\<rparr>) s3);
                   Some (True, link_out (o_super c1) po s4)
                 });
              if \<not> ok then Some (False, s4)
              else do { i2 \<leftarrow> ins s4 pi; Some (True, link_in (i_sub i2) pi s4) }
            }))
   }"

definition control_input_syn :: "kapi \<Rightarrow> skb \<Rightarrow> dstate \<Rightarrow> (bool \<times> dstate) option" where
  "control_input_syn K b s = (
     case look_reconfig (m_super (cmsg b)) s of
       Some rp \<Rightarrow> Some (True, s)
     | None \<Rightarrow> (case dysco_insert_rcb_control_input K b s of
          (None, s1) \<Rightarrow> Some (False, s1)
        | (Some rp, s1) \<Rightarrow> dysco_control_reconfig_in K b rp s1))"

section \<open>The other messages\<close>

text \<open>
  The first component of a result tells whether the handler leaves the \<open>switch\<close> by
  \<open>return\<close>, so that the checksum fields of the packet stay as they are.
\<close>

definition control_input_syn_ack :: "skb \<Rightarrow> dstate \<Rightarrow> (bool \<times> dstate) option" where
  "control_input_syn_ack b s = (
     if daddr (iph b) = m_leftA (cmsg b) then
       (case look_out (m_leftSS (cmsg b)) s of
          None \<Rightarrow> Some (True, s)
        | Some p \<Rightarrow> do {
            c \<leftarrow> outs s p;
            if o_state c = DYSCO_ESTABLISHED then Some (False, s)
            else Some (False, set_out p (c\<lparr>o_ack_cutoff := ntohl (m_seqCutoff (cmsg b)),
                                           o_valid_ack_cut := True\<rparr>) s)
          })
     else Some (False, s))"

definition control_input_ack :: "skb \<Rightarrow> dstate \<Rightarrow> (bool \<times> dstate) option" where
  "control_input_ack b s = (
     case look_reconfig (m_super (cmsg b)) s of
       None \<Rightarrow> Some (False, s)
     | Some rp \<Rightarrow>
         if m_rightA (cmsg b) = daddr (iph b) then do {
           r \<leftarrow> rcbs s rp;
           (case r_old_dcb r of
              None \<Rightarrow> Some (False, s)
            | Some po \<Rightarrow> do {
                old \<leftarrow> outs s po;
                (case o_other_path old of
                   None \<Rightarrow> Some (False, s)
                 | Some pn \<Rightarrow> do {
                     new \<leftarrow> outs s pn;
                     let cutoff = new_path_seq new (ntohl (m_seqCutoff (cmsg b)));
                     if o_state old = DYSCO_ESTABLISHED then Some (True, s)
                     else if \<not> o_state_t old
                     then Some (False, set_out po (old\<lparr>o_ack_cutoff := cutoff,
                            o_valid_ack_cut := True, o_state := DYSCO_ESTABLISHED\<rparr>) s)
                     else Some (False, s)
                   })
              })
         } else Some (False, s))"

definition control_input_transferred :: "kapi \<Rightarrow> skb \<Rightarrow> dstate \<Rightarrow> (bool \<times> skb \<times> dstate) option" where
  "control_input_transferred K b s = (
     case look_reconfig (m_super (cmsg b)) s of
       None \<Rightarrow> Some (True, b, s)
     | Some rp \<Rightarrow>
         if daddr (iph b) = m_leftA (cmsg b)
         then do { (b1, s1) \<leftarrow> dysco_replace_cb_leftA K rp b s; Some (False, b1, s1) }
         else if daddr (iph b) = m_rightA (cmsg b) then do {
           r \<leftarrow> rcbs s rp;
           po \<leftarrow> r_old_dcb r;
           c \<leftarrow> outs s po;
           Some (False, b, set_out po (c\<lparr>o_state := DYSCO_ESTABLISHED\<rparr>) s)
         } else Some (False, b, s))"

definition mark_verified :: "skb \<Rightarrow> skb" where
  "mark_verified b = b\<lparr>skb_csum := 0, csum_valid := True, ip_summed := CHECKSUM_UNNECESSARY\<rparr>"

definition leave_switch :: "bool \<Rightarrow> skb \<Rightarrow> skb" where
  "leave_switch returned b = (if returned then b else mark_verified b)"

definition dysco_control_input :: "kapi \<Rightarrow> skb \<Rightarrow> dstate \<Rightarrow> (bool \<times> skb \<times> dstate) option" where
  "dysco_control_input K b s = (
     if \<not> (uh_dest (uh b) = dysco_control_port \<or> uh_source (uh b) = dysco_control_port)
     then Some (True, b, s)
     else if \<not> is_control_len (uh b) then Some (True, b, s)
     else (case msg_of_code (m_mtype (cmsg b)) of
       Some DYSCO_SYN \<Rightarrow> do { (ok, s1) \<leftarrow> control_input_syn K b s; Some (ok, b, s1) }
     | Some DYSCO_SYN_ACK \<Rightarrow> do {
         (ret, s1) \<leftarrow> control_input_syn_ack b s; Some (True, leave_switch ret b, s1) }
     | Some DYSCO_ACK \<Rightarrow> do {
         (ret, s1) \<leftarrow> control_input_ack b s; Some (True, leave_switch ret b, s1) }
     | Some DYSCO_STATE_TRANSFERRED \<Rightarrow> do {
         (ret, b1, s1) \<leftarrow> control_input_transferred K b s;
         Some (True, leave_switch ret b1, s1) }
     | _ \<Rightarrow> Some (True, mark_verified b, s)))"

end
