(* ===== verification/Dysco_Datapath.thy ===== *)
theory Dysco_Datapath
  imports Dysco_Control_In
begin

text \<open>
  The entry points of the module for packets: \<open>dysco_input\<close> and \<open>dysco_output\<close> find the
  tables of the packet's namespace and branch on the protocol; \<open>dysco_handle_frame\<close> is the
  receive handler of a device and \<open>dysco_nf_in\<close>, \<open>dysco_nf_out\<close> are the Netfilter hooks
  (\<^verbatim>\<open>nf/d.c\<close>).
\<close>

section \<open>Input\<close>

definition input_ns :: "kapi \<Rightarrow> skb \<Rightarrow> dstate \<Rightarrow> ((rx_result \<times> skb) \<times> dstate) option" where
  "input_ns K b s = (
     if protocol (iph b) = IPPROTO_UDP then do {
       (ok, b1, s1) \<leftarrow> dysco_control_input K b s;
       Some ((RX_HANDLER_PASS, b1), s1)
     } else if protocol (iph b) \<noteq> IPPROTO_TCP then Some ((RX_HANDLER_PASS, b), s)
     else do {
       (r, b1, s1) \<leftarrow> dysco_input_tcp K b s;
       Some ((r, b1), s1)
     })"

definition dysco_input :: "kapi \<Rightarrow> skb \<Rightarrow> mstate \<Rightarrow> ((rx_result \<times> skb) \<times> mstate) option" where
  "dysco_input K b m = (
     if ntohs (h_proto (eth b)) \<noteq> ETH_P_IP then Some ((RX_HANDLER_PASS, b), m)
     else (case dysco_get_hashes m (dev_net (skb_dev b)) of
         None \<Rightarrow> Some ((RX_HANDLER_PASS, b), m)
       | Some h \<Rightarrow> in_ns (dev_net (skb_dev b)) h (input_ns K b) m))"

text \<open>
  The receive handler visits every address of the device; the input step may rewrite the
  destination the next comparison reads. \<open>share\<close> is \<^verbatim>\<open>skb_share_check\<close>, which gives the packet
  itself, a private copy of it, or nothing when there is no memory.
\<close>

definition is_valid_ether_addr :: "mac \<Rightarrow> bool" where
  "is_valid_ether_addr a \<longleftrightarrow> \<not> bit (hd a) 0 \<and> list_ex (\<lambda>x. x \<noteq> 0) a"

fun input_for_ifa :: "kapi \<Rightarrow> u32 list \<Rightarrow> skb \<Rightarrow> mstate \<Rightarrow> ((rx_result \<times> skb) \<times> mstate) option" where
  "input_for_ifa K [] b m = Some ((RX_HANDLER_PASS, b), m)"
| "input_for_ifa K (a # as) b m = (
     if daddr (iph b) = a then
       (case dysco_input K b m of
          None \<Rightarrow> None
        | Some ((r, b1), m1) \<Rightarrow>
            if r = RX_HANDLER_CONSUMED then Some ((RX_HANDLER_CONSUMED, b1), m1)
            else input_for_ifa K as b1 m1)
     else input_for_ifa K as b m)"

definition dysco_handle_frame :: "kapi \<Rightarrow> (skb \<Rightarrow> skb option) \<Rightarrow> skb \<Rightarrow> mstate
    \<Rightarrow> ((rx_result \<times> skb) \<times> mstate) option" where
  "dysco_handle_frame K share b m = (
     if pkt_loopback b then Some ((RX_HANDLER_PASS, b), m)
     else if \<not> is_valid_ether_addr (h_source (eth b)) then Some ((RX_HANDLER_CONSUMED, b), m)
     else (case share b of
         None \<Rightarrow> Some ((RX_HANDLER_CONSUMED, b), m)
       | Some b1 \<Rightarrow> input_for_ifa K (ifa_addresses (skb_dev b1)) b1 m))"

section \<open>Output\<close>

definition output_ns :: "kapi \<Rightarrow> skb \<Rightarrow> dstate \<Rightarrow> ((tx_result \<times> skb) \<times> dstate) option" where
  "output_ns K b s = (
     if protocol (iph b) = IPPROTO_UDP then do {
       (r, b1, s1) \<leftarrow> dysco_control_output K b s;
       Some ((r, b1), s1)
     } else if protocol (iph b) \<noteq> IPPROTO_TCP then Some ((TX_CONTINUE, b), s)
     else do {
       (r, b1, s1) \<leftarrow> dysco_output_tcp K b s;
       Some ((r, b1), s1)
     })"

definition dysco_output :: "kapi \<Rightarrow> skb \<Rightarrow> mstate \<Rightarrow> ((tx_result \<times> skb) \<times> mstate) option" where
  "dysco_output K b m = (
     if ntohs (h_proto (eth b)) \<noteq> ETH_P_IP then Some ((TX_CONTINUE, b), m)
     else let b1 = (if transport_set b then b else b\<lparr>transport_set := True\<rparr>) in
       (case dysco_get_hashes m (dev_net (skb_dev b1)) of
          None \<Rightarrow> Some ((TX_CONTINUE, b1), m)
        | Some h \<Rightarrow> in_ns (dev_net (skb_dev b1)) h (output_ns K b1) m))"

section \<open>Netfilter hooks\<close>

datatype nf_verdict = NF_ACCEPT | NF_DROP

definition dysco_nf_in :: "kapi \<Rightarrow> skb \<Rightarrow> mstate \<Rightarrow> ((nf_verdict \<times> skb) \<times> mstate) option" where
  "dysco_nf_in K b m = (
     if daddr (iph b) \<in> set (ifa_addresses (skb_dev b)) then do {
       ((r, b1), m1) \<leftarrow> dysco_input K b m;
       Some ((if r = RX_HANDLER_CONSUMED then NF_DROP else NF_ACCEPT, b1), m1)
     } else Some ((NF_ACCEPT, b), m))"

text \<open>The Ethernet header is put back in front of the packet for the duration of the call.\<close>

definition dysco_nf_out :: "kapi \<Rightarrow> skb \<Rightarrow> mstate \<Rightarrow> ((nf_verdict \<times> skb) \<times> mstate) option" where
  "dysco_nf_out K b m = do {
     let b1 = b\<lparr>skb_len := skb_len b + ETHER_HDR_LEN,
                eth := (eth b)\<lparr>h_proto := htons ETH_P_IP\<rparr>\<rparr>;
     ((r, b2), m1) \<leftarrow> dysco_output K b1 m;
     let b3 = b2\<lparr>skb_len := skb_len b2 - ETHER_HDR_LEN\<rparr>;
     Some ((if r = TX_CONTINUE then NF_ACCEPT else NF_DROP, b3), m1)
   }"

end
