(* ===== verification/Dysco_Main.thy ===== *)
theory Dysco_Main
  imports Dysco_Datapath
begin

text \<open>
  The management of the module (\<^verbatim>\<open>dysco_main.c\<close>): policies of a namespace, the reports the
  user-space daemon asks for over netlink, and the life of the tables from the cache of
  prepared namespaces to their destruction.
\<close>

section \<open>Policies\<close>

text \<open>
  The payload of a policy message: chain length (a signed \<^verbatim>\<open>short\<close>), padding, hops, filter
  length, filter instructions of eight bytes. A negative length asks for a huge block, which
  the allocator refuses, except \<open>-1\<close>: the size is then 0, the allocator returns a non-NULL
  pointer to no memory, and the write of the length through it is a fault.
\<close>

definition chain_from_msg :: "kapi \<Rightarrow> mem \<Rightarrow> dstate \<Rightarrow> service_chain" where
  "chain_from_msg K m s = \<lparr>sc_len = get16 m 0, sc_pos = k_junk_pos K (next_addr s),
     sc_hops = get_hops m 4 (unat (get16 m 0))\<rparr>"

definition filter_from_msg :: "mem \<Rightarrow> u8 list" where
  "filter_from_msg m = (let p = 4 + 4 * unat (get16 m 0)
     in mem_bytes m (p + 2) (8 * unat (get16 m p)))"

definition dysco_add_policy :: "kapi \<Rightarrow> mem \<Rightarrow> dstate \<Rightarrow> dstate option" where
  "dysco_add_policy K m s = (
     let len = sint (get16 m 0) in
     if len < -1 then Some (bump s)
     else if len = -1 then
       (if k_alloc K (n_alloc (bump s)) then None else Some (bump (bump s)))
     else (case alloc_sc K (chain_from_msg K m s) s of
         (None, s1) \<Rightarrow> Some s1
       | (Some a, s1) \<Rightarrow>
           if \<not> k_alloc K (n_alloc s1) then free_sc a (bump s1)
           else (case k_bpf_create K (filter_from_msg m) of
               None \<Rightarrow> free_sc a (bump s1)
             | Some f \<Rightarrow> Some (map_dh (\<lambda>h. h\<lparr>policies :=
                 \<lparr>p_filter = f, p_sc = a\<rparr> # policies h\<rparr>) (bump s1)))))"

text \<open>The loop of \<open>dysco_del_policies\<close>: take the first policy off the list and free it.\<close>

function dysco_del_policies :: "dstate \<Rightarrow> dstate option" where
  "dysco_del_policies s = (case policies (dh s) of
       [] \<Rightarrow> Some s
     | d # ds \<Rightarrow> (case free_sc (p_sc d) (map_dh (\<lambda>h. h\<lparr>policies := ds\<rparr>) s) of
          None \<Rightarrow> None
        | Some s1 \<Rightarrow> dysco_del_policies s1))"
  by pat_completeness auto
termination
  by (relation "measure (\<lambda>s. length (policies (dh s)))")
    (auto simp: free_sc_def split: if_splits)

declare dysco_del_policies.simps [simp del]

definition dysco_clear_all :: "mstate \<Rightarrow> mstate" where
  "dysco_clear_all m = m"

section \<open>Reports\<close>

text \<open>
  A walk over a table is what the library's iterator yields: a node, a note that the table
  was resized, or an error; it may also fail to start.
\<close>

datatype walk_event = Walk_node addr | Walk_again | Walk_stop

datatype walk = Walk_failed int | Walk "walk_event list"

text \<open>
  \<open>rd\<close> reads the record of a node, \<open>rsz\<close> is its size and \<open>buf_size\<close> the room. The result is
  the records in the order they were appended and whether the room ran out. Reading a freed
  node is a fault.
\<close>

fun walk_records :: "(addr \<Rightarrow> 'r option) \<Rightarrow> int \<Rightarrow> int \<Rightarrow> walk_event list \<Rightarrow> 'r list
    \<Rightarrow> ('r list \<times> bool) option" where
  "walk_records rd rsz buf_size [] acc = Some (acc, False)"
| "walk_records rd rsz buf_size (Walk_again # es) acc = walk_records rd rsz buf_size es acc"
| "walk_records rd rsz buf_size (Walk_stop # es) acc = Some (acc, False)"
| "walk_records rd rsz buf_size (Walk_node p # es) acc = (case rd p of
     None \<Rightarrow> None
   | Some r \<Rightarrow>
       (let acc1 = acc @ [r] in
        if buf_size < rsz * (int (length acc1) + 1) then Some (acc1, True)
        else walk_records rd rsz buf_size es acc1))"

type_synonym dysco_mapping = "tcp_session \<times> tcp_session"

definition dysco_walk_hash_table :: "(addr \<Rightarrow> dysco_mapping option) \<Rightarrow> int \<Rightarrow> int \<Rightarrow> walk
    \<Rightarrow> (int + dysco_mapping list \<times> bool) option" where
  "dysco_walk_hash_table rd rsz buf_size w = (case w of
     Walk_failed e \<Rightarrow> Some (Inl e)
   | Walk es \<Rightarrow> map_option Inr (walk_records rd rsz buf_size es []))"

text \<open>
  The pair of sessions at the offset of \<open>super\<close> in an output block. In an input block the
  same offset holds \<open>sub\<close>, then \<open>super\<close>.
\<close>

definition mapping_out :: "dstate \<Rightarrow> addr \<Rightarrow> dysco_mapping option" where
  "mapping_out s p = map_option (\<lambda>c. (o_super c, o_sub c)) (outs s p)"

definition mapping_in :: "dstate \<Rightarrow> addr \<Rightarrow> dysco_mapping option" where
  "mapping_in s p = map_option (\<lambda>c. (i_sub c, i_super c)) (ins s p)"

abbreviation (input) MAX_NETLINK_MSG :: int where "MAX_NETLINK_MSG \<equiv> 64 * 1024"

record mapping_reply =
  mr_len :: u16
  mr_out :: u16
  mr_vector :: "dysco_mapping list"

text \<open>
  The reply, or \<open>None\<close> inside when nothing is sent. \<open>len\<close> and \<open>out\<close> travel in network order
  and are 16 bits wide.
\<close>

definition dysco_get_mapping :: "kapi \<Rightarrow> walk \<Rightarrow> walk \<Rightarrow> dstate
    \<Rightarrow> (mapping_reply option \<times> dstate) option" where
  "dysco_get_mapping K w_out w_in s = (
     let s1 = bump s in
     if \<not> k_alloc K (n_alloc s) then Some (None, s1)
     else do {
       let buf_size = MAX_NETLINK_MSG - 4;
       r1 \<leftarrow> dysco_walk_hash_table (mapping_out s1) (int sizeof_mapping) buf_size w_out;
       (case r1 of
          Inl e \<Rightarrow> Some (None, s1)
        | Inr (outs', no_room) \<Rightarrow>
            if no_room then
              Some (Some \<lparr>mr_len = htons (of_nat (length outs')),
                          mr_out = htons (of_nat (length outs')), mr_vector = outs'\<rparr>, s1)
            else do {
              r2 \<leftarrow> dysco_walk_hash_table (mapping_in s1) (int sizeof_mapping)
                      (buf_size - int (length outs') * int sizeof_mapping) w_in;
              (case r2 of
                 Inl e \<Rightarrow> Some (None, s1)
               | Inr (ins', no_room') \<Rightarrow>
                   Some (Some \<lparr>mr_len = htons (of_nat (length outs' + length ins')),
                               mr_out = htons (of_nat (length outs')),
                               mr_vector = outs' @ ins'\<rparr>, s1))
            })
     })"

text \<open>Reconfiguration times: session and duration in nanoseconds, network byte order left out.\<close>

abbreviation (input) REC_SIZE :: int where "REC_SIZE \<equiv> 20"

definition rec_time :: "dysco_cb_reconfig \<Rightarrow> u64" where
  "rec_time r = (fst (r_rec_end r) - fst (r_rec_begin r)) * 1000000000 +
     (snd (r_rec_end r) - snd (r_rec_begin r))"

fun walk_rec :: "dstate \<Rightarrow> int \<Rightarrow> walk_event list \<Rightarrow> (tcp_session \<times> u64) list
    \<Rightarrow> (tcp_session \<times> u64) list option" where
  "walk_rec s buf_size [] acc = Some acc"
| "walk_rec s buf_size (e # es) acc = (
     if \<not> REC_SIZE < buf_size then Some acc
     else (case e of
         Walk_again \<Rightarrow> walk_rec s buf_size es acc
       | Walk_stop \<Rightarrow> Some acc
       | Walk_node p \<Rightarrow> (case rcbs s p of
            None \<Rightarrow> None
          | Some r \<Rightarrow> walk_rec s (buf_size - REC_SIZE) es (acc @ [(r_super r, rec_time r)]))))"

definition dysco_walk_rec_table :: "dstate \<Rightarrow> walk \<Rightarrow> (int + (tcp_session \<times> u64) list) option" where
  "dysco_walk_rec_table s w = (case w of
     Walk_failed e \<Rightarrow> Some (Inl e)
   | Walk es \<Rightarrow> map_option Inr (walk_rec s (MAX_NETLINK_MSG - 4) es []))"

record rec_reply =
  rr_len :: u16
  rr_vector :: "(tcp_session \<times> u64) list"

definition dysco_get_rec_time :: "kapi \<Rightarrow> walk \<Rightarrow> dstate \<Rightarrow> (rec_reply option \<times> dstate) option" where
  "dysco_get_rec_time K w s = (
     let s1 = bump s in
     if \<not> k_alloc K (n_alloc s) then Some (None, s1)
     else do {
       r \<leftarrow> dysco_walk_rec_table s1 w;
       (case r of
          Inl e \<Rightarrow> Some (None, s1)
        | Inr v \<Rightarrow> Some (Some \<lparr>rr_len = htons (of_nat (length v)), rr_vector = v\<rparr>, s1))
     })"

section \<open>Messages of the daemon\<close>

datatype nl_reply = Reply_none | Reply_mapping mapping_reply | Reply_rec rec_reply

definition user_kernel_ns :: "kapi \<Rightarrow> u16 \<Rightarrow> mem \<Rightarrow> walk \<Rightarrow> walk \<Rightarrow> walk \<Rightarrow> dstate
    \<Rightarrow> (nl_reply \<times> dstate) option" where
  "user_kernel_ns K ty payload w_out w_in w_rec s = (case msg_of_code ty of
     Some DYSCO_POLICY \<Rightarrow> map_option (Pair Reply_none) (dysco_add_policy K payload s)
   | Some DYSCO_REM_POLICY \<Rightarrow> map_option (Pair Reply_none) (dysco_del_policies s)
   | Some DYSCO_GET_MAPPING \<Rightarrow> do {
       (r, s1) \<leftarrow> dysco_get_mapping K w_out w_in s;
       Some (case r of None \<Rightarrow> Reply_none | Some x \<Rightarrow> Reply_mapping x, s1) }
   | Some DYSCO_GET_REC_TIME \<Rightarrow> do {
       (r, s1) \<leftarrow> dysco_get_rec_time K w_rec s;
       Some (case r of None \<Rightarrow> Reply_none | Some x \<Rightarrow> Reply_rec x, s1) }
   | _ \<Rightarrow> Some (Reply_none, s))"

definition dysco_user_kernel_com :: "kapi \<Rightarrow> nat \<Rightarrow> u16 \<Rightarrow> mem \<Rightarrow> walk \<Rightarrow> walk \<Rightarrow> walk \<Rightarrow> mstate
    \<Rightarrow> (nl_reply \<times> mstate) option" where
  "dysco_user_kernel_com K ns ty payload w_out w_in w_rec m = (case dysco_get_hashes m ns of
     None \<Rightarrow> Some (Reply_none, m)
   | Some h \<Rightarrow> in_ns ns h (user_kernel_ns K ty payload w_out w_in w_rec) m)"

section \<open>Creating the tables of a namespace\<close>

text \<open>
  Every initialisation may fail; the error labels of the code are the functions of the same
  name, which record what they release. The trace shows that nothing is lost.
\<close>

datatype table = T_out | T_in | T_pen | T_reconfig | T_pen_tag
datatype table_op = Init table | Destroy table | Kfree_hashes

definition draw_alloc :: "kapi \<Rightarrow> dstate \<Rightarrow> bool \<times> dstate" where
  "draw_alloc K s = (k_alloc K (n_alloc s), bump s)"

definition free_nh_aux :: "table_op list \<Rightarrow> table_op list" where
  "free_nh_aux tr = tr @ [Kfree_hashes]"

definition free_hash_out :: "table_op list \<Rightarrow> table_op list" where
  "free_hash_out tr = free_nh_aux (tr @ [Destroy T_out])"

definition free_hash_in :: "table_op list \<Rightarrow> table_op list" where
  "free_hash_in tr = free_hash_out (tr @ [Destroy T_in])"

definition free_hash_pen :: "table_op list \<Rightarrow> table_op list" where
  "free_hash_pen tr = free_hash_in (tr @ [Destroy T_pen])"

definition free_hash_tag :: "table_op list \<Rightarrow> table_op list" where
  "free_hash_tag tr = free_hash_pen (tr @ [Destroy T_reconfig])"

definition new_hashes :: "nat option \<Rightarrow> bool \<Rightarrow> u32 \<Rightarrow> dysco_hashes" where
  "new_hashes ns sk tag = \<lparr>net_ns = ns, nl_sk = sk, policies = [], dysco_tag = tag,
     hash_out = [], hash_in = [], hash_pen = [], hash_pen_tag = [], hash_reconfig = []\<rparr>"

definition dysco_create_hashes :: "kapi \<Rightarrow> nat option \<Rightarrow> dstate
    \<Rightarrow> dysco_hashes option \<times> table_op list \<times> dstate" where
  "dysco_create_hashes K ns s0 = (
     let (ok0, s1) = draw_alloc K s0 in if \<not> ok0 then (None, [], s1) else
     let (ok1, s2) = draw_alloc K s1 in if \<not> ok1 then (None, free_nh_aux [], s2) else
     let (ok2, s3) = draw_alloc K s2 in if \<not> ok2 then (None, free_hash_out [Init T_out], s3) else
     let (ok3, s4) = draw_alloc K s3 in
       if \<not> ok3 then (None, free_hash_in [Init T_out, Init T_in], s4) else
     let (ok4, s5) = draw_alloc K s4 in
       if \<not> ok4 then (None, free_hash_pen [Init T_out, Init T_in, Init T_pen], s5) else
     let (ok5, s6) = draw_alloc K s5 in
       if \<not> ok5 then (None, free_hash_tag [Init T_out, Init T_in, Init T_pen, Init T_reconfig], s6) else
     let tr = [Init T_out, Init T_in, Init T_pen, Init T_reconfig, Init T_pen_tag];
         tag = k_junk_tag K (n_alloc s0) in
     case ns of
       None \<Rightarrow> (Some (new_hashes None False tag), tr, s6)
     | Some n \<Rightarrow> let (sk, s7) = draw_alloc K s6 in (Some (new_hashes (Some n) sk tag), tr, s7))"

abbreviation (input) MAX_NAMESPACES :: nat where "MAX_NAMESPACES \<equiv> 20"

text \<open>Filling the cache stops at the first failure; a new entry goes to the front.\<close>

fun fill_cache :: "kapi \<Rightarrow> nat \<Rightarrow> dysco_hashes list \<Rightarrow> dstate \<Rightarrow> dysco_hashes list \<times> dstate" where
  "fill_cache K 0 cache s = (cache, s)"
| "fill_cache K (Suc n) cache s = (case dysco_create_hashes K None s of
     (None, tr, s1) \<Rightarrow> (cache, s1)
   | (Some h, tr, s1) \<Rightarrow> fill_cache K n (h # cache) s1)"

abbreviation (input) init_net :: nat where "init_net \<equiv> 0"

definition dysco_init_hashes :: "kapi \<Rightarrow> mstate \<Rightarrow> mstate" where
  "dysco_init_hashes K m = (
     let (ok, s) = draw_alloc K (core m) in
     if \<not> ok then m\<lparr>core := s\<rparr>
     else let (r, tr, s1) = dysco_create_hashes K (Some init_net) s;
              tab = (case r of None \<Rightarrow> ns_hash_table m
                     | Some h \<Rightarrow> (init_net, h) # ns_hash_table m);
              (cache, s2) = fill_cache K MAX_NAMESPACES (ns_hashes m) s1
          in m\<lparr>core := s2, ns_hash_table := tab, ns_hashes := cache\<rparr>)"

definition dysco_init :: "kapi \<Rightarrow> mstate \<Rightarrow> int \<times> mstate" where
  "dysco_init K m = (0, dysco_init_hashes K (m\<lparr>ns_hashes := []\<rparr>))"

text \<open>A device appears: its namespace gets the first set of prepared tables.\<close>

definition dysco_dev_event :: "kapi \<Rightarrow> bool \<Rightarrow> nat \<Rightarrow> mstate \<Rightarrow> mstate" where
  "dysco_dev_event K post_init ns m = (
     if \<not> post_init then m
     else if dysco_get_hashes m ns \<noteq> None then m
     else (case ns_hashes m of
         [] \<Rightarrow> m
       | h # hs \<Rightarrow>
           let (sk, s) = draw_alloc K (core m)
           in m\<lparr>core := s, ns_hashes := hs, tot_namespaces := tot_namespaces m + 1,
                ns_hash_table := (ns, h\<lparr>net_ns := Some ns, nl_sk := sk\<rparr>) # ns_hash_table m\<rparr>))"

section \<open>Destroying the tables\<close>

definition dysco_free_dcb_out :: "addr \<Rightarrow> dstate \<Rightarrow> dstate option" where
  "dysco_free_dcb_out p s = do {
     c \<leftarrow> outs s p;
     s1 \<leftarrow> (case o_other_path c of None \<Rightarrow> Some s | Some q \<Rightarrow> free_out q s);
     s2 \<leftarrow> (if o_free_sc c then (case o_sc c of None \<Rightarrow> Some s1 | Some a \<Rightarrow> free_sc a s1)
            else Some s1);
     free_out p s2
   }"

text \<open>\<open>rhashtable_free_and_destroy\<close> calls the function once for every node of the table.\<close>

fun free_nodes :: "(addr \<Rightarrow> dstate \<Rightarrow> dstate option) \<Rightarrow> addr list \<Rightarrow> dstate \<Rightarrow> dstate option" where
  "free_nodes f [] s = Some s"
| "free_nodes f (p # ps) s = (case f p s of None \<Rightarrow> None | Some s1 \<Rightarrow> free_nodes f ps s1)"

definition dysco_destroy_hashes :: "dstate \<Rightarrow> dstate option" where
  "dysco_destroy_hashes s = do {
     let h = dh s;
     s1 \<leftarrow> free_nodes dysco_free_dcb_out (map snd (hash_out h)) s;
     s2 \<leftarrow> free_nodes free_in (map snd (hash_in h)) s1;
     s3 \<leftarrow> free_nodes free_out (map snd (hash_pen h)) s2;
     s4 \<leftarrow> free_nodes free_rcb (map snd (hash_reconfig h)) s3;
     s5 \<leftarrow> free_nodes free_out (map snd (hash_pen_tag h)) s4;
     dysco_del_policies s5
   }"

fun destroy_all :: "dysco_hashes list \<Rightarrow> dstate \<Rightarrow> dstate option" where
  "destroy_all [] s = Some s"
| "destroy_all (h # hs) s = (case dysco_destroy_hashes (s\<lparr>dh := h\<rparr>) of
     None \<Rightarrow> None | Some s1 \<Rightarrow> destroy_all hs s1)"

definition dysco_destroy_namespaces :: "mstate \<Rightarrow> mstate option" where
  "dysco_destroy_namespaces m = do {
     s1 \<leftarrow> destroy_all (map snd (ns_hash_table m)) (core m);
     s2 \<leftarrow> destroy_all (ns_hashes m) s1;
     Some (m\<lparr>core := s2, ns_hash_table := [], ns_hashes := []\<rparr>)
   }"

definition dysco_deinit :: "mstate \<Rightarrow> mstate option" where
  "dysco_deinit m = dysco_destroy_namespaces m"

end
