(* ===== verification/Dysco_Chain.thy ===== *)
theory Dysco_Chain
  imports Dysco_Datapath
begin

text \<open>
  How a service chain travels: the bytes \<open>dysco_add_sc\<close> appends to a SYN and what
  \<open>get_syn_packet\<close> reads back, the control blocks a first SYN leaves behind, and the SYN
  that a middlebox sends on.
\<close>

section \<open>Bytes of a chain\<close>

lemma get16_put16_other: "j + 2 \<le> i \<or> i + 2 \<le> j \<Longrightarrow> get16 (put16 m i w) j = get16 m j"
  by (auto simp: get16_def put16_def)

lemma get16_put32_other: "j + 2 \<le> i \<or> i + 4 \<le> j \<Longrightarrow> get16 (put32 m i w) j = get16 m j"
  by (auto simp: get16_def put32_def)

lemma get32_put16_other: "j + 4 \<le> i \<or> i + 2 \<le> j \<Longrightarrow> get32 (put16 m i w) j = get32 m j"
  by (auto simp: get32_def put16_def)

lemmas get_put_other = get16_put16_other get16_put32_other get32_put16_other get32_put32_other

lemma get_put_hops_before:
  "j + 4 \<le> p \<Longrightarrow> get32 (put_hops m p hs) j = get32 m j"
  "j + 2 \<le> p \<Longrightarrow> get16 (put_hops m p hs) j = get16 m j"
  by (induction hs arbitrary: m p) (simp_all add: get_put_other)

lemma get_hops_put_hops: "get_hops (put_hops m p hs) p (length hs) = hs"
proof (induction hs arbitrary: m p)
  case (Cons h hs)
  have "get_hops (put_hops m p (h # hs)) p (length (h # hs)) =
      get32 (put_hops (put32 m p h) (p + 4) hs) p # get_hops (put_hops (put32 m p h) (p + 4) hs) (p + 4) (length hs)"
    by (simp add: get_hops_def upt_conv_Cons map_Suc_upt [symmetric] del: upt_Suc)
      (simp add: comp_def add.assoc add.commute)
  then show ?case using Cons.IH by (simp add: get_put_hops_before)
qed (simp add: get_hops_def)

definition used_hops :: "service_chain \<Rightarrow> u32 list" where
  "used_hops sc = take (unat (sc_len sc)) (sc_hops sc)"

definition chain_ok :: "service_chain \<Rightarrow> bool" where
  "chain_ok sc \<longleftrightarrow> unat (sc_len sc) \<le> length (sc_hops sc)"

lemma length_used_hops: "chain_ok sc \<Longrightarrow> length (used_hops sc) = unat (sc_len sc)"
  by (simp add: used_hops_def chain_ok_def)

lemma get_chain_put:
  assumes "chain_ok sc"
  shows "get_chain (put_chain_bytes m p sc) p = sc\<lparr>sc_hops := used_hops sc\<rparr>"
  using get_hops_put_hops [of _ "p + 4" "used_hops sc"] length_used_hops [OF assms]
  by (simp add: get_chain_def put_chain_bytes_def get_put_hops_before get_put_other flip: used_hops_def)

lemma get_put_chain_before:
  "j + 4 \<le> p \<Longrightarrow> get32 (put_chain_bytes m p sc) j = get32 m j"
  "j + 2 \<le> p \<Longrightarrow> get16 (put_chain_bytes m p sc) j = get16 m j"
  by (simp_all add: put_chain_bytes_def get_put_hops_before get_put_other)

lemma get_session_put: "get_session (put_session_bytes m p ss) p = ss"
  by (simp add: get_session_def put_session_bytes_def get_put_other)

lemma syn_packet_put:
  assumes "chain_ok sc"
  shows "get_syn_packet (put_chain_bytes (put_session_bytes m p ss) (p + sizeof_tcp_session) sc) p =
    (ss, sc\<lparr>sc_hops := used_hops sc\<rparr>)"
  using get_session_put [of m p ss] get_chain_put [OF assms, of _ "p + 12"]
  by (simp add: get_syn_packet_def get_session_def get_put_chain_before)

lemma put_before:
  "i < p \<Longrightarrow> put16 m p w i = m i" "i < p \<Longrightarrow> put32 m p v i = m i"
  by (simp_all add: put16_def put32_def)

lemma put_hops_before: "i < p \<Longrightarrow> put_hops m p hs i = m i"
  by (induction hs arbitrary: m p) (simp_all add: put_before)

lemma put_packet_before: "i < p \<Longrightarrow> put_chain_bytes (put_session_bytes m p ss) (p + n) sc i = m i"
  by (simp add: put_chain_bytes_def put_session_bytes_def put_hops_before put_before)

section \<open>Adding a chain and taking it off\<close>

definition syn_memsz :: "service_chain \<Rightarrow> nat" where
  "syn_memsz sc = sizeof_tcp_session + SC_MEM_SZ (sc_len sc)"

lemma SC_MEM_SZ_bound: "SC_MEM_SZ n \<le> 4 + 262140"
proof -
  have "unat n \<le> 65535" using unsigned_less [of n, where 'a = nat] by simp
  then show ?thesis by (simp add: SC_MEM_SZ_def)
qed

lemma syn_memsz_bound: "16 \<le> syn_memsz sc" "syn_memsz sc < 4294967296"
  using SC_MEM_SZ_bound [of "sc_len sc"] by (simp_all add: syn_memsz_def) (simp add: SC_MEM_SZ_def)

text \<open>The receiver's buffer starts at the IP header.\<close>

definition pull_eth :: "skb \<Rightarrow> skb" where
  "pull_eth b = b\<lparr>skb_len := skb_len b - ETHER_HDR_LEN\<rparr>"

text \<open>What the tail and the length of a buffer with no payload after the options are.\<close>

definition no_payload :: "skb \<Rightarrow> bool" where
  "no_payload b \<longleftrightarrow> tail b = opt_len (th b) \<and> 0 \<le> tail b"

definition sendable :: "service_chain \<Rightarrow> skb \<Rightarrow> bool" where
  "sendable sc b \<longleftrightarrow> chain_ok sc \<and> syn_memsz sc \<le> tailroom b \<and> 14 \<le> unat (skb_len b) \<and>
     unat (skb_len b) + syn_memsz sc < 4294967296"

text \<open>
  \<open>b'\<close> is \<open>b\<close> with the session \<open>ss\<close> and the chain \<open>sc\<close> as its payload: the option bytes are those
  of \<open>b\<close>, and of the other fields only the lengths and the two checksums differ.
\<close>

definition same_packet_but :: "skb \<Rightarrow> skb \<Rightarrow> u16 \<Rightarrow> bool" where
  "same_packet_but b b' len \<longleftrightarrow> (\<exists>m t n r ic tc. (\<forall>i < nat (tail b). m i = tdata b i) \<and>
     b' = b\<lparr>tdata := m, tail := t, skb_len := n, tailroom := r,
       iph := (iph b)\<lparr>tot_len := len, ip_check := ic\<rparr>, th := (th b)\<lparr>th_check := tc\<rparr>\<rparr>)"

lemma same_packet_but_intro:
  assumes "\<And>i. i < nat (tail b) \<Longrightarrow> m i = tdata b i"
  shows "same_packet_but b (b\<lparr>tdata := m, tail := t, skb_len := n, tailroom := r,
     iph := (iph b)\<lparr>tot_len := len, ip_check := ic\<rparr>, th := (th b)\<lparr>th_check := tc\<rparr>\<rparr>) len"
  using assms unfolding same_packet_but_def by blast

lemma same_packet_but_resize:
  assumes "same_packet_but b b' len"
  shows "same_packet_but b (b'\<lparr>tail := t, skb_len := n, tailroom := r, iph := (iph b')\<lparr>tot_len := len'\<rparr>\<rparr>) len'"
proof -
  obtain m t0 n0 r0 ic tc where m: "\<forall>i < nat (tail b). m i = tdata b i" and b': "b' = b\<lparr>tdata := m, tail := t0,
      skb_len := n0, tailroom := r0, iph := (iph b)\<lparr>tot_len := len, ip_check := ic\<rparr>, th := (th b)\<lparr>th_check := tc\<rparr>\<rparr>"
    using assms unfolding same_packet_but_def by blast
  have "b'\<lparr>tail := t, skb_len := n, tailroom := r, iph := (iph b')\<lparr>tot_len := len'\<rparr>\<rparr> =
     b\<lparr>tdata := m, tail := t, skb_len := n, tailroom := r,
       iph := (iph b)\<lparr>tot_len := len', ip_check := ic\<rparr>, th := (th b)\<lparr>th_check := tc\<rparr>\<rparr>"
    by (simp add: b')
  then show ?thesis using m same_packet_but_intro [of b m, where len = len'] by simp
qed

definition carries :: "skb \<Rightarrow> tcp_session \<Rightarrow> service_chain \<Rightarrow> skb \<Rightarrow> bool" where
  "carries b ss sc b' \<longleftrightarrow>
     get_syn_packet (tdata b') (nat (tail b)) = (ss, sc\<lparr>sc_hops := used_hops sc\<rparr>) \<and>
     th_data (th b') = Some (nat (tail b)) \<and> tail b' = tail b + int (syn_memsz sc) \<and>
     skb_len b' = skb_len b + of_nat (syn_memsz sc) \<and> tailroom b' = tailroom b - syn_memsz sc \<and>
     tot_len (iph b') = htons (ucast (skb_len b' - ETHER_HDR_LEN)) \<and>
     same_packet_but b b' (htons (ucast (skb_len b' - ETHER_HDR_LEN)))"

lemma add_sc_carries:
  assumes "o_sc c = Some a" and "scs s a = Some sc" and "no_payload b" and "sendable sc b"
  shows "\<exists>b'. dysco_add_sc K b c s = Some (True, b') \<and> carries b (o_super c) sc b'"
proof -
  have sz: "syn_memsz sc \<le> tailroom b" "chain_ok sc" "0 \<le> tail b" "0 \<le> opt_len (th b)"
    "nat (opt_len (th b)) = nat (tail b)"
    using assms(3,4) by (simp_all add: sendable_def no_payload_def)
  note pkt = syn_packet_put [OF sz(2), of "tdata b" "nat (tail b)" "o_super c"]
  let ?m = "put_chain_bytes (put_session_bytes (tdata b) (nat (tail b)) (o_super c)) (nat (tail b) + sizeof_tcp_session) sc"
  let ?n = "skb_len b + of_nat (syn_memsz sc)"
  let ?len = "htons (ucast (?n - ETHER_HDR_LEN))"
  let ?b = "\<lambda>tc. b\<lparr>tdata := ?m, tail := tail b + int (syn_memsz sc), skb_len := ?n, tailroom := tailroom b - syn_memsz sc,
     iph := (iph b)\<lparr>tot_len := ?len, ip_check := dysco_csum_replace2 K (ip_check (iph b)) (tot_len (iph b)) ?len\<rparr>,
     th := (th b)\<lparr>th_check := tc\<rparr>\<rparr>"
  have car: "carries b (o_super c) sc (?b tc)" for tc
    using sz pkt same_packet_but_intro [of b ?m, where len = ?len]
    by (simp add: carries_def put_packet_before th_data_def opt_len_def doff_bytes_def del: of_nat_add)
  have "\<exists>tc. dysco_add_sc K b c s = Some (True, ?b tc)"
  proof (cases "ip_summed b = CHECKSUM_PARTIAL")
    case True
    have "?b (th_check (th b)) = b\<lparr>tdata := ?m, tail := tail b + int (syn_memsz sc), skb_len := ?n,
        tailroom := tailroom b - syn_memsz sc, iph := (iph b)\<lparr>tot_len := ?len,
          ip_check := dysco_csum_replace2 K (ip_check (iph b)) (tot_len (iph b)) ?len\<rparr>\<rparr>"
      by simp
    then show ?thesis using True assms(1,2) sz
      by (intro exI [of _ "th_check (th b)"]) (simp add: dysco_add_sc_def skb_put_def syn_memsz_def [symmetric] Let_def
          chain_ok_def del: of_nat_add)
  next
    case False
    let ?tc = "k_csum_fold K (k_csum_bytes K (mem_bytes ?m (nat (tail b)) (syn_memsz sc))
       (NOT (k_csum_unfold K (th_check (th b)))))"
    show ?thesis using False assms(1,2) sz
      by (intro exI [of _ ?tc]) (simp add: dysco_add_sc_def skb_put_def syn_memsz_def [symmetric] Let_def
          chain_ok_def del: of_nat_add)
  qed
  then show ?thesis using car by blast
qed

lemma carries_addresses:
  "carries b ss sc b' \<Longrightarrow> saddr (iph b') = saddr (iph b)" "carries b ss sc b' \<Longrightarrow> daddr (iph b') = daddr (iph b)"
  by (auto simp: carries_def same_packet_but_def)

lemma remove_sc_carried:
  assumes "carries b ss sc b'" and "sendable sc b"
  shows "\<exists>b''. dysco_remove_sc (pull_eth b') = Some b'' \<and> skb_len b'' = skb_len b - ETHER_HDR_LEN \<and>
    tail b'' = tail b \<and> tailroom b'' = tailroom b \<and>
    same_packet_but b b'' (htons (ucast (skb_len b - ETHER_HDR_LEN)))"
proof -
  let ?n = "of_nat (syn_memsz sc) :: u32"
  have n: "unat ?n = syn_memsz sc" using syn_memsz_bound by (simp add: unat_of_nat)
  have s14: "unat (skb_len b - 14) = unat (skb_len b) - 14"
    using assms(2) unat_sub [of 14 "skb_len b"] by (simp add: sendable_def word_le_nat_alt)
  have add: "unat (skb_len b - 14 + ?n) = unat (skb_len b) - 14 + syn_memsz sc"
  proof -
    have "unat (skb_len b) + syn_memsz sc - 14 < 4294967296"
      using assms(2) unfolding sendable_def by linarith
    then show ?thesis
      using assms(2) s14 n unat_add_lem [of "skb_len b - 14" ?n] by (simp add: sendable_def)
  qed
  have comm: "skb_len b + ?n - 14 = skb_len b - 14 + ?n" by simp
  have lt: "skb_len b - 14 < skb_len b - 14 + ?n"
    using add s14 syn_memsz_bound(1) [of sc] by (simp add: word_less_nat_alt)
  have len: "skb_len b' - 14 = skb_len b - 14 + ?n" "tail b' = tail b + int (syn_memsz sc)"
    "tailroom b' = tailroom b - syn_memsz sc" "syn_memsz sc \<le> tailroom b"
    "th_data (th b') = Some (nat (tail b))"
    using assms by (simp_all add: carries_def sendable_def)
  have sc: "12 + SC_MEM_SZ (sc_len (snd (get_syn_packet (tdata b') (nat (tail b))))) = syn_memsz sc"
    using assms(1) by (simp add: carries_def syn_memsz_def)
  have same: "same_packet_but b b' (htons (ucast (skb_len b' - ETHER_HDR_LEN)))"
    using assms(1) unfolding carries_def by blast
  let ?len = "htons (ucast (skb_len b - ETHER_HDR_LEN))"
  have "dysco_remove_sc (pull_eth b') = Some (b'\<lparr>tail := tail b, skb_len := skb_len b - ETHER_HDR_LEN,
      tailroom := tailroom b, iph := (iph b')\<lparr>tot_len := ?len\<rparr>\<rparr>)"
    using lt len(1-4) by (simp add: dysco_remove_sc_def pull_eth_def len(5) sc skb_trim_def Let_def n comm del: of_nat_add)
  then show ?thesis using same_packet_but_resize [OF same] by simp
qed

text \<open>
  C4. The service chain of a SYN survives the wire: for a SYN without payload and a chain that
  fits, \<open>dysco_add_sc\<close> appends session and chain where the data offset of the packet points, the
  receiver reads exactly this session and the hops in use, and \<open>dysco_remove_sc\<close> gives back the
  SYN that was sent: the length, the tail and the free room of the buffer as before, every byte
  in front of the tail and every header field as it was, with an IP length field that matches.
  Only the two checksum fields keep what they were for the longer packet; the rewriting that
  follows computes them anew.
\<close>

theorem chain_roundtrip:
  assumes "o_sc c = Some a" and "scs s a = Some sc" and "no_payload b" and "sendable sc b"
  shows "\<exists>b' n b''. dysco_add_sc K b c s = Some (True, b') \<and> th_data (th b') = Some n \<and>
    get_syn_packet (tdata b') n = (o_super c, sc\<lparr>sc_hops := used_hops sc\<rparr>) \<and>
    dysco_remove_sc (pull_eth b') = Some b'' \<and> skb_len b'' = skb_len b - ETHER_HDR_LEN \<and>
    tail b'' = tail b \<and> tailroom b'' = tailroom b \<and>
    same_packet_but b b'' (htons (ucast (skb_len b - ETHER_HDR_LEN)))"
proof -
  obtain b' where b': "dysco_add_sc K b c s = Some (True, b')" "carries b (o_super c) sc b'"
    using add_sc_carries [OF assms] by blast
  moreover from this have "th_data (th b') = Some (nat (tail b))"
    "get_syn_packet (tdata b') (nat (tail b)) = (o_super c, sc\<lparr>sc_hops := used_hops sc\<rparr>)"
    by (simp_all add: carries_def)
  ultimately show ?thesis using remove_sc_carried [OF b'(2) assms(4)] by blast
qed

definition ref_chain :: service_chain where
  "ref_chain = \<lparr>sc_len = 2, sc_pos = 0, sc_hops = [0x0200000a, 0x0300000a, 0x0400000a]\<rparr>"

definition ref_plain_syn :: skb where
  "ref_plain_syn = (ref_skb 5 TCPHDR_SYN (mem_of []) 0)\<lparr>skb_len := 54\<rparr>"

lemma ref_plain_syn_ok: "no_payload ref_plain_syn" "sendable ref_chain ref_plain_syn"
  by (simp_all add: no_payload_def sendable_def ref_plain_syn_def ref_skb_def ref_th_def opt_len_def
      doff_bytes_def chain_ok_def ref_chain_def syn_memsz_def SC_MEM_SZ_def)

theorem chain_roundtrip_witness:
  "\<exists>b' n b''. dysco_add_sc ref_kapi ref_plain_syn (zero_cb_out\<lparr>o_sc := Some 7\<rparr>) (set_sc 7 ref_chain fresh_dstate) =
      Some (True, b') \<and> th_data (th b') = Some n \<and>
    get_syn_packet (tdata b') n = (zero_session, ref_chain\<lparr>sc_hops := [0x0200000a, 0x0300000a]\<rparr>) \<and>
    dysco_remove_sc (pull_eth b') = Some b'' \<and> skb_len b'' = 40 \<and> tail b'' = 0 \<and> tailroom b'' = 100 \<and>
    same_packet_but ref_plain_syn b'' (htons 40)"
  using chain_roundtrip [of "zero_cb_out\<lparr>o_sc := Some 7\<rparr>" 7 "set_sc 7 ref_chain fresh_dstate" ref_chain
      ref_plain_syn ref_kapi, OF _ _ ref_plain_syn_ok]
  by (simp add: zero_cb_out_def used_hops_def ref_chain_def ref_plain_syn_def ref_skb_def)

section \<open>The control blocks of a first SYN\<close>

text \<open>The chain the pending block gets: all hops but this host.\<close>

definition rest_chain :: "kapi \<Rightarrow> addr \<Rightarrow> service_chain \<Rightarrow> service_chain" where
  "rest_chain K a sc = \<lparr>sc_len = sc_len sc - 1, sc_pos = k_junk_pos K a,
     sc_hops = take (unat (sc_len sc - 1)) (tl (sc_hops sc))\<rparr>"

definition pending_cb :: "tcp_session \<Rightarrow> addr \<Rightarrow> dysco_cb_out" where
  "pending_cb ss a = zero_cb_out\<lparr>o_super := ss, o_sc := Some a, o_free_sc := True\<rparr>"

text \<open>The three cases of an insertion: all there, nothing there, or a pending block with its chain.\<close>

lemma insert_pending_cases:
  "dysco_insert_pending K sp s = Some (True, link_pen_tag 0 p (link_pen (fst sp) p (set_out p (pending_cb (fst sp) q)
      (set_sc q (rest_chain K q (snd sp)) (bump (set_out p (zero_cb_out\<lparr>o_super := fst sp\<rparr>) (bump s)))))))
     \<or> (\<exists>s'. dysco_insert_pending K sp s = Some (False, s') \<and> dh s' = dh s \<and> ins s' = ins s \<and> scs s' = scs s \<and>
       rcbs s' = rcbs s \<and> outs s' = (if k_alloc K (n_alloc s) then (outs s)(p := None) else outs s))"
  if "p = next_addr s" and "q = Suc p"
  using that
  by (auto simp: dysco_insert_pending_def alloc_out_def alloc_sc_def free_out_def rest_chain_def
      pending_cb_def Let_def zero_cb_out_def)

definition stores_fresh :: "dstate \<Rightarrow> bool" where
  "stores_fresh s \<longleftrightarrow> (\<forall>a \<ge> next_addr s. outs s a = None \<and> ins s a = None \<and> rcbs s a = None \<and> scs s a = None)"

definition same_heap :: "dstate \<Rightarrow> dstate \<Rightarrow> bool" where
  "same_heap s s' \<longleftrightarrow> outs s' = outs s \<and> ins s' = ins s \<and> scs s' = scs s \<and> rcbs s' = rcbs s \<and> dh s' = dh s"

text \<open>The stored block of a session and its reverse, as lookups find them.\<close>

definition first_syn_linked :: "skb \<Rightarrow> tcp_session \<Rightarrow> mac \<Rightarrow> addr \<Rightarrow> dstate \<Rightarrow> bool" where
  "first_syn_linked b ss mac p s' \<longleftrightarrow> (\<exists>q ci co.
     look_in (pkt_session (iph b) (th b)) s' = Some p \<and> ins s' p = Some ci \<and>
     i_super ci = ss \<and> i_sub ci = pkt_session (iph b) (th b) \<and> i_dcb_out ci = Some q \<and>
     look_out (rev_session ss) s' = Some q \<and> outs s' q = Some co \<and>
     o_super co = rev_session ss \<and> o_sub co = rev_session (pkt_session (iph b) (th b)) \<and>
     o_dcb_in co = Some p \<and> o_other_path co = None \<and> o_nh_mac co = mac)"

definition pending_linked :: "kapi \<Rightarrow> tcp_session \<times> service_chain \<Rightarrow> dstate \<Rightarrow> bool" where
  "pending_linked K sp s' \<longleftrightarrow> (\<exists>p q. look_pen (fst sp) s' = Some p \<and> outs s' p = Some (pending_cb (fst sp) q) \<and>
     scs s' q = Some (rest_chain K q (snd sp)))"

lemma look_pen_head:
  "hash_pen (dh s) = ht_insert k p h \<Longrightarrow> outs s p = Some c \<Longrightarrow> o_super c = k \<Longrightarrow> look_pen k s = Some p"
  by (simp add: look_pen_def ht_insert_def ht_lookup_def key_current_def)

lemma insert_cb_input_cases:
  assumes "stores_fresh s"
  shows "\<exists>r s'. dysco_insert_cb_input K b sp mac s = Some (r, s') \<and>
    (case r of None \<Rightarrow> same_heap s s'
     | Some p \<Rightarrow> first_syn_linked b (fst sp) mac p s' \<and> (1 < sc_len (snd sp) \<longrightarrow> pending_linked K sp s'))"
proof -
  let ?p = "next_addr s" and ?q = "Suc (next_addr s)" and ?pp = "Suc (Suc (next_addr s))"
  let ?pq = "Suc (Suc (Suc (next_addr s)))"
  let ?s1 = "set_in ?p (cb_input (fst sp) b) (bump s)"
  let ?s2 = "set_out ?q (cb_in_reverse (fst sp) b mac) (bump ?s1)"
  let ?ci = "(cb_input (fst sp) b)\<lparr>i_dcb_out := Some ?q\<rparr>"
  let ?co = "(cb_in_reverse (fst sp) b mac)\<lparr>o_dcb_in := Some ?p\<rparr>"
  let ?link = "\<lambda>s3. link_out (o_super ?co) ?q (link_in (i_sub ?ci) ?p (set_out ?q ?co (set_in ?p ?ci s3)))"
  have fr: "outs s a = None" "ins s a = None" "scs s a = None" if "?p \<le> a" for a
    using assms that by (simp_all add: stores_fresh_def)
  have linked: "first_syn_linked b (fst sp) mac ?p (?link s3)" for s3
    unfolding first_syn_linked_def
    by (intro exI [of _ ?q] exI [of _ ?ci] exI [of _ ?co])
      (simp add: look_defs tbl.lookup_link cb_input_def cb_in_reverse_def pkt_session_def rev_session_def zero_cb_out_def)
  show ?thesis
  proof (cases "k_alloc K (n_alloc s) \<and> k_alloc K (Suc (n_alloc s))")
    case False
    then show ?thesis using fr
      by (auto simp: dysco_insert_cb_input_def dysco_insert_cb_in_reverse_def alloc_in_def alloc_out_def
          free_in_def same_heap_def fun_upd_idem)
  next
    case True
    then have step: "dysco_insert_cb_input K b sp mac s = do {
        (ok, s3) \<leftarrow> (if 1 < sc_len (snd sp) then dysco_insert_pending K sp ?s2 else Some (True, ?s2));
        if \<not> ok then do { s4 \<leftarrow> free_in ?p s3; s5 \<leftarrow> free_out ?q s4; Some (None, s5) }
        else do {
          ci \<leftarrow> ins s3 ?p;
          co \<leftarrow> outs s3 ?q;
          let s4 = set_in ?p (ci\<lparr>i_dcb_out := Some ?q\<rparr>) s3;
          let s5 = set_out ?q (co\<lparr>o_dcb_in := Some ?p\<rparr>) s4;
          Some (Some ?p, link_out (o_super co) ?q (link_in (i_sub ci) ?p s5)) } }"
      by (simp add: dysco_insert_cb_input_def dysco_insert_cb_in_reverse_def alloc_in_def alloc_out_def)
    show ?thesis
    proof (cases "1 < sc_len (snd sp)")
      case False
      have "dysco_insert_cb_input K b sp mac s = Some (Some ?p, ?link ?s2)"
        unfolding step using False by simp
      with linked False show ?thesis by fastforce
    next
      case more: True
      let ?s3 = "link_pen_tag 0 ?pp (link_pen (fst sp) ?pp (set_out ?pp (pending_cb (fst sp) ?pq)
        (set_sc ?pq (rest_chain K ?pq (snd sp)) (bump (set_out ?pp (zero_cb_out\<lparr>o_super := fst sp\<rparr>) (bump ?s2))))))"
      have n: "?pp = next_addr ?s2" "?pq = Suc ?pp" by simp_all
      consider (ok) "dysco_insert_pending K sp ?s2 = Some (True, ?s3)"
        | (bad) s3 where "dysco_insert_pending K sp ?s2 = Some (False, s3)" "dh s3 = dh ?s2" "ins s3 = ins ?s2"
          "scs s3 = scs ?s2" "rcbs s3 = rcbs ?s2"
          "outs s3 = (if k_alloc K (n_alloc ?s2) then (outs ?s2)(?pp := None) else outs ?s2)"
        using insert_pending_cases [OF n, of K sp] by blast
      then show ?thesis
      proof cases
        case ok
        have "dysco_insert_cb_input K b sp mac s = Some (Some ?p, ?link ?s3)"
          unfolding step using more ok by simp
        moreover have "pending_linked K sp (?link ?s3)"
        proof -
          have "look_pen (fst sp) (?link ?s3) = Some ?pp"
            by (rule look_pen_head [where h = "hash_pen (dh s)" and c = "pending_cb (fst sp) ?pq"])
              (simp_all add: pending_cb_def)
          then show ?thesis unfolding pending_linked_def
            by (intro exI [of _ ?pp] exI [where x = ?pq]) simp
        qed
        ultimately show ?thesis using linked by fastforce
      next
        case bad
        show ?thesis unfolding step using more bad fr [of ?p] fr [of ?q] fr [of ?pp]
          by (auto simp: free_in_def free_out_def same_heap_def fun_eq_iff)
      qed
    qed
  qed
qed

text \<open>
  C6. A first SYN that carries a chain. \<open>dysco_insert_cb_input\<close> never faults. When it succeeds,
  the subsession of the packet leads to an input block for the session of the payload, the
  reversed session leads to an output block back along the subsession, the two blocks point at
  each other, and if the chain goes on after this host a pending block holds the rest of it.
  When it fails because memory is short, nothing remains: the heap and the tables are as they
  were.
\<close>

theorem first_syn_blocks:
  assumes "stores_fresh s"
  shows "\<exists>r s'. dysco_insert_cb_input K b sp mac s = Some (r, s') \<and>
    (case r of None \<Rightarrow> same_heap s s'
     | Some p \<Rightarrow> first_syn_linked b (fst sp) mac p s' \<and> (1 < sc_len (snd sp) \<longrightarrow> pending_linked K sp s'))"
  using assms by (rule insert_cb_input_cases)

theorem first_syn_blocks_witness:
  "\<exists>r s'. dysco_insert_cb_input ref_kapi ref_plain_syn (zero_session, ref_chain) zero_mac fresh_dstate = Some (r, s') \<and>
    (case r of None \<Rightarrow> same_heap fresh_dstate s'
     | Some p \<Rightarrow> first_syn_linked ref_plain_syn zero_session zero_mac p s' \<and> pending_linked ref_kapi (zero_session, ref_chain) s')"
proof -
  have "stores_fresh fresh_dstate" "1 < sc_len ref_chain"
    by (simp_all add: stores_fresh_def fresh_dstate_def ref_chain_def)
  with first_syn_blocks [of fresh_dstate ref_kapi ref_plain_syn "(zero_session, ref_chain)" zero_mac]
  show ?thesis by (simp cong: option.case_cong)
qed

section \<open>A middlebox sends on\<close>

text \<open>Whether the options of a SYN contain a Dysco tag, as the output side looks for it.\<close>

definition has_tag :: "skb \<Rightarrow> bool" where
  "has_tag b \<longleftrightarrow> snd (tcp_options (\<lambda>_. tdata b)
     (\<lambda>opc sz q ok. (False, ok \<or> opc = DYSCO_TCP_OPTION)) 0 (opt_len (th b)) False)"

lemma parse_tag_ok:
  assumes "\<not> o_tag_ok c"
  shows "o_tag_ok (dysco_parse_tcp_syn_opt_s (th b) (tdata b) c) = has_tag b"
  using tcp_options_hom [where f = o_tag_ok and rd = "\<lambda>_. tdata b" and rd' = "\<lambda>_. tdata b"
      and h = "syn_opt_s (th b) (tdata b)" and h' = "\<lambda>opc sz q ok. (False, ok \<or> opc = DYSCO_TCP_OPTION)"
      and p = 0 and len = "opt_len (th b)" and s = "c\<lparr>o_sack_ok := False\<rparr>"] assms
  by (auto simp: syn_opt_s_def dysco_parse_tcp_syn_opt_s_def has_tag_def)

text \<open>What parsing leaves alone.\<close>

definition same_links :: "dysco_cb_out \<Rightarrow> dysco_cb_out \<Rightarrow> bool" where
  "same_links c c' \<longleftrightarrow> o_super c' = o_super c \<and> o_sub c' = o_sub c \<and> o_sc c' = o_sc c \<and>
     o_nh_mac c' = o_nh_mac c \<and> o_other_path c' = o_other_path c \<and> o_dcb_in c' = o_dcb_in c \<and>
     o_state c' = o_state c \<and> o_free_sc c' = o_free_sc c \<and> o_my_tp c' = o_my_tp c \<and>
     o_other_tp c' = o_other_tp c \<and> o_seq_cutoff c' = o_seq_cutoff c"

lemma parse_s_links: "same_links c (dysco_parse_tcp_syn_opt_s t m c)"
proof -
  have "same_links c (snd (tcp_options (\<lambda>_. m) (syn_opt_s t m) 0 (opt_len t) (c\<lparr>o_sack_ok := False\<rparr>)))"
    by (rule tcp_options_inv [where P = "same_links c"]) (auto simp: same_links_def syn_opt_s_def)
  then show ?thesis by (simp add: dysco_parse_tcp_syn_opt_s_def)
qed

lemma insert_cb_out_result:
  assumes "outs s p = Some c"
  shows "\<exists>r s'. dysco_insert_cb_out K p two s = Some s' \<and> outs s' p = Some (c\<lparr>o_dcb_in := r\<rparr>) \<and>
    look_out (o_super c) s' = Some p \<and> scs s' = scs s"
  using assms
  by (auto simp: dysco_insert_cb_out_def dysco_insert_cb_out_reverse_def alloc_in_def Let_def
      look_defs tbl.lookup_link)

lemma remove_tag_result:
  assumes "no_payload b" and "7 \<le> unat (doff (th b))" and "8 \<le> unat (skb_len b)"
  shows "no_payload (dysco_remove_tag b)" "tailroom (dysco_remove_tag b) = tailroom b + 8"
    "unat (skb_len (dysco_remove_tag b)) = unat (skb_len b) - 8"
proof -
  have l: "unat (skb_len b - 8) = unat (skb_len b) - 8"
    using assms(3) unat_sub [of 8 "skb_len b"] by (simp add: word_le_nat_alt)
  have lt: "skb_len b - 8 < skb_len b" using l assms(3) by (simp add: word_less_nat_alt)
  have d: "uint (doff (th b) - 2) = uint (doff (th b)) - 2"
    using assms(2) uint_sub_lem [of 2 "doff (th b)"] by (simp add: unat_ge_uint)
  have "7 \<le> uint (doff (th b))" using assms(2) by (simp add: unat_ge_uint)
  then show "no_payload (dysco_remove_tag b)" "tailroom (dysco_remove_tag b) = tailroom b + 8"
    "unat (skb_len (dysco_remove_tag b)) = unat (skb_len b) - 8"
    using assms(1) l lt d
    by (simp_all add: dysco_remove_tag_def skb_trim_def Let_def no_payload_def opt_len_def doff_bytes_def)
qed

lemma th_data_cong: "doff t = doff t' \<Longrightarrow> th_data t = th_data t'"
  by (simp add: th_data_def opt_len_def doff_bytes_def)

lemma fix_csum_frame [simp]:
  "tdata (dysco_fix_tcp_ip_csum K b) = tdata b" "th_data (th (dysco_fix_tcp_ip_csum K b)) = th_data (th b)"
  "daddr (iph (dysco_fix_tcp_ip_csum K b)) = daddr (iph b)" "saddr (iph (dysco_fix_tcp_ip_csum K b)) = saddr (iph b)"
  by (auto simp: dysco_fix_tcp_ip_csum_def csum_ip_scratch_def Let_def intro: th_data_cong)

lemma arp_frame:
  assumes "dysco_arp K b c = Some c1"
  shows "dip (o_sub c1) = dip (o_sub c)" "o_super c1 = o_super c" "o_sc c1 = o_sc c" "o_tag_ok c1 = o_tag_ok c"
  using dysco_arp_result [OF assms] by auto

lemma draw_ports_frame:
  "\<exists>c' s'. draw_ports c s = (c', s') \<and> dip (o_sub c') = dip (o_sub c) \<and> o_super c' = o_super c \<and> o_sc c' = o_sc c \<and>
     o_tag_ok c' = o_tag_ok c \<and> scs s' = scs s \<and> outs s' = outs s \<and> dh s' = dh s"
  by (simp add: draw_ports_def alloc_port_pair_def allocate_local_port_def Let_def split_beta)

text \<open>What it takes to send a SYN of a middlebox on: no payload, room, and a plausible length.\<close>

definition resendable :: "service_chain \<Rightarrow> skb \<Rightarrow> bool" where
  "resendable sc b \<longleftrightarrow> no_payload b \<and> chain_ok sc \<and> syn_memsz sc \<le> tailroom b \<and> 22 \<le> unat (skb_len b) \<and>
     unat (skb_len b) + syn_memsz sc < 4294967296 \<and> (has_tag b \<longrightarrow> 7 \<le> unat (doff (th b)))"

lemma hdr_rewrite_frame [simp]:
  "no_payload (dysco_out_hdr_rewrite c b) = no_payload b" "tailroom (dysco_out_hdr_rewrite c b) = tailroom b"
  "skb_len (dysco_out_hdr_rewrite c b) = skb_len b" "doff (th (dysco_out_hdr_rewrite c b)) = doff (th b)"
  "daddr (iph (dysco_out_hdr_rewrite c b)) = dip (o_sub c)"
  by (simp_all add: dysco_out_hdr_rewrite_def put_mac_def put_session_def no_payload_def opt_len_def doff_bytes_def)

lemma strip_tag:
  fixes d
  assumes "resendable sc b"
  defines "b2 \<equiv> (if has_tag b then dysco_remove_tag (dysco_out_hdr_rewrite d b) else dysco_out_hdr_rewrite d b)"
  shows "no_payload b2" "sendable sc b2" "daddr (iph b2) = dip (o_sub d)"
proof -
  let ?b1 = "dysco_out_hdr_rewrite d b"
  have r: "no_payload (dysco_remove_tag ?b1)" "tailroom (dysco_remove_tag ?b1) = tailroom b + 8"
      "unat (skb_len (dysco_remove_tag ?b1)) = unat (skb_len b) - 8" if "has_tag b"
    using remove_tag_result [of ?b1] assms(1) that by (simp_all add: resendable_def)
  show "no_payload b2" using assms(1) r by (auto simp: b2_def resendable_def)
  show "sendable sc b2" using assms(1) r by (auto simp: b2_def resendable_def sendable_def)
  show "daddr (iph b2) = dip (o_sub d)"
    by (simp add: b2_def dysco_remove_tag_def skb_trim_def Let_def)
qed

text \<open>
  C5. One middlebox, one hop: when the application of a host emits a SYN for a session whose
  pending block holds the rest of a chain, and the routing table knows the first hop of this
  rest, \<open>dysco_output_tcp\<close> sends it to that hop, carrying the session and the rest as its payload
  (so the next host finds its own address first), and the session is established at this host:
  the pending block is now the one the output table finds. Together with the pending block of a
  first SYN, each host on the way drops exactly the hop that is itself. Without a route to the
  hop the step is a kernel fault, because the error pointer of the lookup is not recognised.
\<close>

theorem middlebox_sends_on:
  assumes "look_out ss s = None" and "look_pen ss s = Some p" and "outs s p = Some (pending_cb ss a)"
    and "scs s a = Some sc" and "ss = pkt_session (iph b) (th b)"
    and "sc_len sc \<noteq> 0" and "resendable sc b"
  shows "case dysco_route K b (hd (sc_hops sc)) of None \<Rightarrow> dysco_output_tcp K b s = None
    | Some _ \<Rightarrow> \<exists>b' s' n. dysco_output_tcp K b s = Some (TX_CONTINUE, b', s') \<and> daddr (iph b') = hd (sc_hops sc) \<and>
        th_data (th b') = Some n \<and> get_syn_packet (tdata b') n = (ss, sc\<lparr>sc_hops := used_hops sc\<rparr>) \<and>
        look_out ss s' = Some p"
proof -
  have hops: "sc_hops sc \<noteq> []"
    using assms(6,7) by (auto simp: resendable_def chain_ok_def unat_eq_0)
  then obtain h hs where h: "sc_hops sc = h # hs" by (cases "sc_hops sc") auto
  let ?c = "pending_cb ss a"
  let ?s1 = "unlink_pen_tag (o_dysco_tag ?c) p (unlink_pen (o_super ?c) p s)"
  let ?arp = "dysco_arp K b (?c\<lparr>o_sub := (o_sub ?c)\<lparr>dip := h\<rparr>\<rparr>)"
  have mb: "dysco_output_tcp K b s = map_option (\<lambda>(b', s'). (TX_CONTINUE, b', s')) (dysco_out_handle_mb K p b s)"
    using assms(1,2,5) by (cases "dysco_out_handle_mb K p b s")
      (auto simp: dysco_output_tcp_def dysco_out_lookup_def dysco_lookup_pending_def)
  show ?thesis
  proof (cases "dysco_route K b h")
    case None
    then have "?arp = None" by (simp add: dysco_arp_route)
    then have "dysco_out_handle_mb K p b s = None"
      using assms(3,4,6) h by (simp add: dysco_out_handle_mb_def pending_cb_def zero_cb_out_def)
    then show ?thesis using None h mb by simp
  next
    case route: (Some rt)
    then obtain c1 where c1: "?arp = Some c1" using dysco_arp_route [of K b "?c\<lparr>o_sub := (o_sub ?c)\<lparr>dip := h\<rparr>\<rparr>"] by auto
    obtain c2 s2 where c2: "draw_ports c1 ?s1 = (c2, s2)" "dip (o_sub c2) = h" "o_super c2 = ss" "o_sc c2 = Some a"
      "\<not> o_tag_ok c2" "scs s2 = scs s"
      using draw_ports_frame [of c1 ?s1] arp_frame [OF c1] by (auto simp: pending_cb_def zero_cb_out_def)
    let ?c3' = "c2\<lparr>o_out_iseq := ntohl (th_seq (th b)), o_in_iseq := ntohl (th_seq (th b))\<rparr>"
    define c3 where "c3 = dysco_parse_tcp_syn_opt_s (th b) (tdata b) ?c3'"
    have c3: "dip (o_sub c3) = h" "o_super c3 = ss" "o_sc c3 = Some a" "o_tag_ok c3 = has_tag b"
      using parse_s_links [of ?c3' "th b" "tdata b"] parse_tag_ok [of ?c3' b] c2
      by (simp_all add: c3_def same_links_def)
    obtain r s3 where s3: "dysco_insert_cb_out K p False (set_out p c3 s2) = Some s3"
      "outs s3 p = Some (c3\<lparr>o_dcb_in := r\<rparr>)" "look_out ss s3 = Some p" "scs s3 = scs s"
      using insert_cb_out_result [of "set_out p c3 s2" p c3 K False] c3 c2(6) by auto
    let ?d = "c3\<lparr>o_dcb_in := r\<rparr>"
    define b2 where "b2 = (if has_tag b then dysco_remove_tag (dysco_out_hdr_rewrite ?d b) else dysco_out_hdr_rewrite ?d b)"
    have b2: "no_payload b2" "sendable sc b2" "daddr (iph b2) = h"
      using strip_tag [OF assms(7), of ?d] c3(1) by (simp_all add: b2_def)
    obtain b3 where b3: "dysco_add_sc K b2 ?d s3 = Some (True, b3)" "carries b2 ss sc b3"
      using add_sc_carries [of ?d a s3 sc b2 K] b2 c3 s3(4) assms(4) by auto
    have "dysco_out_handle_mb K p b s = Some (dysco_fix_tcp_ip_csum K b3, s3)"
      using assms(3,4,6) h c1 c2(1) s3(1,2) b3(1) c3(4)
      by (simp add: dysco_out_handle_mb_def pending_cb_def zero_cb_out_def Let_def c3_def [symmetric] b2_def [symmetric])
    then have "dysco_output_tcp K b s = Some (TX_CONTINUE, dysco_fix_tcp_ip_csum K b3, s3)"
      using mb by simp
    then show ?thesis using b3(2) s3(3) b2(3) h route carries_addresses [OF b3(2)] by (simp add: carries_def)
  qed
qed

text \<open>A host whose pending block 1 holds a chain of two more hops for the session of the packet.\<close>

definition ref_pending :: dstate where
  "ref_pending = fresh_dstate\<lparr>outs := [1 \<mapsto> pending_cb (pkt_session (iph ref_plain_syn) (th ref_plain_syn)) 7],
     scs := [7 \<mapsto> ref_chain], next_addr := 8,
     dh := (fresh_hashes (Some 0))\<lparr>hash_pen := [(pkt_session (iph ref_plain_syn) (th ref_plain_syn), 1)]\<rparr>\<rparr>"

lemma ref_plain_syn_no_tag: "opt_len (th ref_plain_syn) = 0" "\<not> has_tag ref_plain_syn"
proof -
  show l: "opt_len (th ref_plain_syn) = 0"
    by (simp add: ref_plain_syn_def ref_skb_def ref_th_def opt_len_def doff_bytes_def)
  show "\<not> has_tag ref_plain_syn" unfolding has_tag_def l by (simp add: tcp_options.simps)
qed

theorem middlebox_sends_on_witness:
  "\<exists>b' s' n. dysco_output_tcp ref_kapi ref_plain_syn ref_pending = Some (TX_CONTINUE, b', s') \<and>
    daddr (iph b') = 0x0200000a \<and> th_data (th b') = Some n \<and>
    get_syn_packet (tdata b') n = (pkt_session (iph ref_plain_syn) (th ref_plain_syn),
      ref_chain\<lparr>sc_hops := [0x0200000a, 0x0300000a]\<rparr>) \<and>
    look_out (pkt_session (iph ref_plain_syn) (th ref_plain_syn)) s' = Some 1"
proof -
  let ?ss = "pkt_session (iph ref_plain_syn) (th ref_plain_syn)"
  have "look_out ?ss ref_pending = None" "outs ref_pending 1 = Some (pending_cb ?ss 7)"
    "scs ref_pending 7 = Some ref_chain" "sc_len ref_chain \<noteq> 0"
    by (simp_all add: ref_pending_def look_defs ht_lookup_def fresh_hashes_def ref_chain_def)
  moreover have "look_pen ?ss ref_pending = Some 1"
    by (rule look_pen_head [where h = "[]" and c = "pending_cb ?ss 7"])
      (simp_all add: ref_pending_def ht_insert_def pending_cb_def)
  moreover have "resendable ref_chain ref_plain_syn"
    using ref_plain_syn_ok ref_plain_syn_no_tag(2)
    by (simp add: resendable_def sendable_def) (simp add: ref_plain_syn_def ref_skb_def ref_chain_def syn_memsz_def SC_MEM_SZ_def)
  ultimately show ?thesis
    using middlebox_sends_on [of ?ss ref_pending 1 7 ref_chain ref_plain_syn ref_kapi]
    by (simp add: ref_chain_def used_hops_def dysco_route_def ref_kapi_def)
qed

section \<open>The SYN a host hands to its application\<close>

text \<open>A SYN whose payload is exactly a session and a chain.\<close>

definition chain_payload :: "skb \<Rightarrow> nat \<Rightarrow> bool" where
  "chain_payload b n \<longleftrightarrow> th_data (th b) = Some n \<and>
     tail b = int n + int (syn_memsz (snd (get_syn_packet (tdata b) n))) \<and>
     syn_memsz (snd (get_syn_packet (tdata b) n)) \<le> unat (skb_len b)"

lemma remove_sc_payload:
  assumes "chain_payload b n"
  shows "\<exists>b1. dysco_remove_sc b = Some b1 \<and> tail b1 = int n \<and> 16 \<le> tailroom b1 \<and> th b1 = th b \<and> tdata b1 = tdata b"
proof -
  let ?sc = "snd (get_syn_packet (tdata b) n)"
  let ?m = "of_nat (syn_memsz ?sc) :: u32"
  have m: "unat ?m = syn_memsz ?sc" using syn_memsz_bound by (simp add: unat_of_nat)
  have le: "?m \<le> skb_len b" using assms m by (simp add: chain_payload_def word_le_nat_alt)
  have s: "unat (skb_len b - ?m) = unat (skb_len b) - syn_memsz ?sc" using unat_sub [OF le] m by simp
  have lt: "skb_len b - ?m < skb_len b"
    using s le m syn_memsz_bound(1) [of ?sc] by (simp add: word_less_nat_alt word_le_nat_alt)
  have trim: "skb_trim b (skb_len b - ?m) = b\<lparr>tail := tail b - int (syn_memsz ?sc), skb_len := skb_len b - ?m,
      tailroom := tailroom b + syn_memsz ?sc\<rparr>"
    using lt m by (simp add: skb_trim_def)
  have "dysco_remove_sc b = Some (let b1 = skb_trim b (skb_len b - ?m)
      in b1\<lparr>iph := (iph b1)\<lparr>tot_len := htons (ucast (skb_len b1))\<rparr>\<rparr>)"
    using assms by (simp add: dysco_remove_sc_def chain_payload_def syn_memsz_def Let_def del: of_nat_add)
  then show ?thesis
    using assms syn_memsz_bound(1) [of ?sc] unfolding trim by (simp add: Let_def chain_payload_def)
qed

lemma insert_tag_result:
  assumes "8 \<le> tailroom b" and "tail b = int n"
  shows "\<exists>b1 s1. dysco_insert_tag b s = Some (b1, s1) \<and> tail b1 = int n + 8 \<and> doff (th b1) = doff (th b) + 2"
  using assms by (simp add: dysco_insert_tag_def skb_put_def Let_def)

lemma in_hdr_rewrite_frame:
  "pkt_session (iph (dysco_in_hdr_rewrite K c b)) (th (dysco_in_hdr_rewrite K c b)) = i_super c"
  "tail (dysco_in_hdr_rewrite K c b) = tail b" "doff (th (dysco_in_hdr_rewrite K c b)) = doff (th b)"
  by (simp_all add: dysco_in_hdr_rewrite_def csum_ip_scratch_def put_session_def pkt_session_def Let_def)

lemma parse_r_super: "i_super (dysco_parse_tcp_syn_opt_r t m c) = i_super c"
  unfolding dysco_parse_tcp_syn_opt_r_def
  by (rule tcp_options_inv [where P = "\<lambda>x. i_super x = i_super c"]) (auto simp: syn_opt_r_def)

lemma doff_plus_2:
  assumes "unat (d :: u4) \<le> 13"
  shows "uint (d + 2) = uint d + 2"
proof -
  have "int (unat d) \<le> 13" using assms by linarith
  then have "uint d \<le> 13" by simp
  then show ?thesis using uint_add_lem [of d 2] by simp
qed

text \<open>
  C7. What the application sees of a first SYN that carries exactly a session and a chain:
  \<open>dysco_rx_initiation_new\<close> never faults on it (taking the chain off always leaves room for the
  tag), and unless memory was short the packet it passes up is a SYN of the session in the
  payload, with the tag as its last option and nothing behind it. The header length is right
  if the options leave room for eight bytes more; it is not checked and wraps around otherwise.
\<close>

theorem first_syn_for_application:
  assumes "stores_fresh s" and "chain_payload b n"
    and "doff_bytes (th b) < tcp_seg_len (iph b)"
  shows "\<exists>r b' s'. dysco_rx_initiation_new K b s = Some (r, b', s') \<and>
    (r = RX_HANDLER_CONSUMED \<longrightarrow> same_heap s s') \<and>
    (r = RX_HANDLER_PASS \<longrightarrow> pkt_session (iph b') (th b') = fst (get_syn_packet (tdata b) n) \<and>
      tail b' = int n + 8 \<and> doff (th b') = doff (th b) + 2 \<and>
      (unat (doff (th b)) \<le> 13 \<longrightarrow> no_payload b'))"
proof -
  let ?sp = "get_syn_packet (tdata b) n"
  obtain r0 s1 where 1: "dysco_insert_cb_input K b ?sp (h_source (eth b)) s = Some (r0, s1)"
    "case r0 of None \<Rightarrow> same_heap s s1 | Some p \<Rightarrow> first_syn_linked b (fst ?sp) (h_source (eth b)) p s1 \<and>
      (1 < sc_len (snd ?sp) \<longrightarrow> pending_linked K ?sp s1)"
    using insert_cb_input_cases [OF assms(1)] by blast
  have n: "th_data (th b) = Some n" using assms(2) by (simp add: chain_payload_def)
  show ?thesis
  proof (cases r0)
    case None
    then show ?thesis using 1 n assms(3) by (simp add: dysco_rx_initiation_new_def Let_def)
  next
    case (Some q)
    obtain ci where ci: "ins s1 q = Some ci" "i_super ci = fst ?sp"
      using 1(2) Some by (auto simp: first_syn_linked_def)
    obtain b1 where b1: "dysco_remove_sc b = Some b1" "tail b1 = int n" "16 \<le> tailroom b1" "th b1 = th b"
      using remove_sc_payload [OF assms(2)] by blast
    let ?ci = "dysco_parse_tcp_syn_opt_r (th b1) (tdata b1) ci"
    obtain b2 s2 where b2: "dysco_insert_tag b1 (set_in q ?ci s1) = Some (b2, s2)" "tail b2 = int n + 8"
      "doff (th b2) = doff (th b1) + 2"
      using insert_tag_result [of b1 n "set_in q ?ci s1"] b1 by auto
    let ?b = "dysco_in_hdr_rewrite K ?ci b2"
    have "dysco_rx_initiation_new K b s = Some (RX_HANDLER_PASS, ?b, s2)"
      using 1(1) Some n assms(3) b1(1) ci(1) b2(1) by (simp add: dysco_rx_initiation_new_def Let_def)
    moreover have "pkt_session (iph ?b) (th ?b) = fst ?sp" "tail ?b = int n + 8" "doff (th ?b) = doff (th b) + 2"
      using in_hdr_rewrite_frame [of K ?ci b2] ci(2) b2 b1(4) by (simp_all add: parse_r_super)
    moreover have "no_payload ?b" if "unat (doff (th b)) \<le> 13"
    proof -
      have "int n = uint (doff (th b)) * 4 - 20"
        using n by (auto simp: th_data_def opt_len_def doff_bytes_def split: if_splits)
      then show ?thesis
        using calculation(3,4) doff_plus_2 [OF that] by (simp add: no_payload_def opt_len_def doff_bytes_def)
    qed
    ultimately show ?thesis by blast
  qed
qed

text \<open>The packet of a first hop: the plain SYN with a session and a chain behind the header.\<close>

definition ref_first_syn :: skb where
  "ref_first_syn = pull_eth (snd (the (dysco_add_sc ref_kapi ref_plain_syn (zero_cb_out\<lparr>o_sc := Some 7\<rparr>)
     (set_sc 7 ref_chain fresh_dstate))))"

lemma ref_first_syn_payload: "chain_payload ref_first_syn 0"
proof -
  have l: "opt_len (th ref_plain_syn) = 0" by (rule ref_plain_syn_no_tag(1))
  obtain b' where b': "dysco_add_sc ref_kapi ref_plain_syn (zero_cb_out\<lparr>o_sc := Some 7\<rparr>)
     (set_sc 7 ref_chain fresh_dstate) = Some (True, b')" "carries ref_plain_syn zero_session ref_chain b'"
    using add_sc_carries [of "zero_cb_out\<lparr>o_sc := Some 7\<rparr>" 7 "set_sc 7 ref_chain fresh_dstate" ref_chain
      ref_plain_syn ref_kapi, OF _ _ ref_plain_syn_ok] by (auto simp: zero_cb_out_def)
  have "tail ref_plain_syn = 0" using ref_plain_syn_ok(1) l by (simp add: no_payload_def)
  moreover have "skb_len ref_plain_syn = 54" "syn_memsz ref_chain = 24" "syn_memsz (ref_chain\<lparr>sc_hops := hs\<rparr>) = 24" for hs
    by (simp_all add: ref_plain_syn_def syn_memsz_def SC_MEM_SZ_def ref_chain_def)
  ultimately show ?thesis
    using b' by (simp add: ref_first_syn_def carries_def chain_payload_def pull_eth_def)
qed

lemma ref_first_syn_len: "doff_bytes (th ref_first_syn) < tcp_seg_len (iph ref_first_syn)"
  by code_simp

lemma ref_first_syn_pass: "map_option fst (dysco_rx_initiation_new ref_kapi ref_first_syn fresh_dstate) = Some RX_HANDLER_PASS"
  by code_simp

theorem first_syn_for_application_witness:
  "\<exists>b' s'. dysco_rx_initiation_new ref_kapi ref_first_syn fresh_dstate = Some (RX_HANDLER_PASS, b', s') \<and>
    pkt_session (iph b') (th b') = fst (get_syn_packet (tdata ref_first_syn) 0) \<and>
    tail b' = 8 \<and> doff (th b') = doff (th ref_first_syn) + 2 \<and> no_payload b'"
proof -
  have "stores_fresh fresh_dstate" by (simp add: stores_fresh_def fresh_dstate_def)
  moreover have "unat (doff (th ref_first_syn)) \<le> 13" by code_simp
  ultimately show ?thesis
    using first_syn_for_application [OF _ ref_first_syn_payload ref_first_syn_len, of fresh_dstate ref_kapi]
      ref_first_syn_pass by auto
qed

end
