(* ===== verification/Dysco_Invariant.thy ===== *)
theory Dysco_Invariant
  imports Dysco_Chain Dysco_Main
begin

text \<open>
  The invariant \<open>heap_ok\<close> of the module's state: the tables lead to live blocks, the pointers the
  data path follows are live, and a linked block with two paths is in one of the three states
  of a reconfiguration. The lemmas say which writes keep it, and \<open>post\<close> carries a postcondition
  through the steps of a \<open>do\<close> block. The operations are taken through it in \<open>Dysco_Safety\<close>.
\<close>

section \<open>The invariant\<close>

definition out_nodes :: "dstate \<Rightarrow> addr set" where
  "out_nodes s = ht_nodes (hash_out (dh s)) \<union> ht_nodes (hash_pen (dh s)) \<union> ht_nodes (hash_pen_tag (dh s))"

definition in_nodes :: "dstate \<Rightarrow> addr set" where
  "in_nodes s = ht_nodes (hash_in (dh s))"

definition rec_nodes :: "dstate \<Rightarrow> addr set" where
  "rec_nodes s = ht_nodes (hash_reconfig (dh s))"

text \<open>A block with two paths is in a state \<open>dysco_out_translate\<close> knows.\<close>

definition path_ok :: "dysco_cb_out \<Rightarrow> bool" where
  "path_ok c \<longleftrightarrow> o_other_path c = None \<or>
     o_state c = DYSCO_SYN_SENT \<or> o_state c = DYSCO_SYN_RECEIVED \<or> o_state c = DYSCO_ESTABLISHED"

definition out_closed :: "dstate \<Rightarrow> dysco_cb_out \<Rightarrow> bool" where
  "out_closed s c \<longleftrightarrow> (\<forall>q. o_other_path c = Some q \<longrightarrow> outs s q \<noteq> None) \<and>
     (o_my_tp c \<noteq> None \<longrightarrow> Option.bind (o_my_tp c) (socks s) \<noteq> None \<and> Option.bind (o_other_tp c) (socks s) \<noteq> None)"

definition in_closed :: "dstate \<Rightarrow> dysco_cb_in \<Rightarrow> bool" where
  "in_closed s i \<longleftrightarrow> (\<forall>q. i_dcb_out i = Some q \<longrightarrow> outs s q \<noteq> None)"

definition outs_ok :: "dstate \<Rightarrow> bool" where
  "outs_ok s \<longleftrightarrow> (\<forall>p c. outs s p = Some c \<longrightarrow> p < next_addr s \<and> out_closed s c \<and> (p \<in> out_nodes s \<longrightarrow> path_ok c))"

definition ins_ok :: "dstate \<Rightarrow> bool" where
  "ins_ok s \<longleftrightarrow> (\<forall>p i. ins s p = Some i \<longrightarrow> p < next_addr s \<and> (p \<in> in_nodes s \<longrightarrow> in_closed s i))"

definition nodes_ok :: "dstate \<Rightarrow> bool" where
  "nodes_ok s \<longleftrightarrow> (\<forall>p \<in> out_nodes s. outs s p \<noteq> None) \<and> (\<forall>p \<in> in_nodes s. ins s p \<noteq> None) \<and>
     (\<forall>p \<in> rec_nodes s. rcbs s p \<noteq> None)"

definition fresh_ok :: "dstate \<Rightarrow> bool" where
  "fresh_ok s \<longleftrightarrow> (\<forall>p. rcbs s p \<noteq> None \<or> scs s p \<noteq> None \<longrightarrow> p < next_addr s)"

definition heap_ok :: "dstate \<Rightarrow> bool" where
  "heap_ok s \<longleftrightarrow> outs_ok s \<and> ins_ok s \<and> nodes_ok s \<and> fresh_ok s"

lemmas heap_defs = heap_ok_def outs_ok_def ins_ok_def nodes_ok_def fresh_ok_def
lemmas node_defs = out_nodes_def in_nodes_def rec_nodes_def

lemma heap_okD:
  assumes "heap_ok s"
  shows "outs s p = Some c \<Longrightarrow> p < next_addr s" "outs s p = Some c \<Longrightarrow> out_closed s c"
    "outs s p = Some c \<Longrightarrow> p \<in> out_nodes s \<Longrightarrow> path_ok c"
    "ins s q = Some i \<Longrightarrow> q < next_addr s" "ins s q = Some i \<Longrightarrow> q \<in> in_nodes s \<Longrightarrow> in_closed s i"
    "p \<in> out_nodes s \<Longrightarrow> \<exists>c. outs s p = Some c" "q \<in> in_nodes s \<Longrightarrow> \<exists>i. ins s q = Some i"
    "r \<in> rec_nodes s \<Longrightarrow> \<exists>x. rcbs s r = Some x" "rcbs s r = Some x \<Longrightarrow> r < next_addr s"
    "scs s a = Some y \<Longrightarrow> a < next_addr s"
  using assms by (auto simp: heap_defs)

lemma heap_ok_nodes:
  "heap_ok s \<Longrightarrow> p \<in> out_nodes s \<Longrightarrow> p < next_addr s" "heap_ok s \<Longrightarrow> q \<in> in_nodes s \<Longrightarrow> q < next_addr s"
  using heap_okD by metis+

text \<open>Lookups give nodes.\<close>

lemma look_nodes:
  "look_out k s = Some p \<Longrightarrow> p \<in> out_nodes s" "look_in k s = Some q \<Longrightarrow> q \<in> in_nodes s"
  "look_pen_tag t s = Some p \<Longrightarrow> p \<in> out_nodes s" "look_reconfig k s = Some r \<Longrightarrow> r \<in> rec_nodes s"
  by (auto simp: look_defs node_defs dest: tbl.lookup_nodes)

lemma look_pen_node: "look_pen k s = Some p \<Longrightarrow> p \<in> out_nodes s"
proof -
  assume "look_pen k s = Some p"
  then have "p \<in> ht_nodes (filter (key_current s) (hash_pen (dh s)))"
    unfolding look_pen_def by (rule tbl.lookup_nodes)
  then show ?thesis by (auto simp: ht_nodes_def out_nodes_def)
qed

section \<open>Writes that keep the invariant\<close>

lemma nodes_frame [simp]:
  "out_nodes (set_out p c s) = out_nodes s" "out_nodes (set_in p i s) = out_nodes s"
  "out_nodes (set_rcb p r s) = out_nodes s" "out_nodes (set_sc p x s) = out_nodes s" "out_nodes (bump s) = out_nodes s"
  "in_nodes (set_out p c s) = in_nodes s" "in_nodes (set_in p i s) = in_nodes s"
  "in_nodes (set_rcb p r s) = in_nodes s" "in_nodes (set_sc p x s) = in_nodes s" "in_nodes (bump s) = in_nodes s"
  "rec_nodes (set_out p c s) = rec_nodes s" "rec_nodes (set_in p i s) = rec_nodes s"
  "rec_nodes (set_rcb p r s) = rec_nodes s" "rec_nodes (set_sc p x s) = rec_nodes s" "rec_nodes (bump s) = rec_nodes s"
  by (simp_all add: node_defs)

lemma heap_set_out:
  assumes "heap_ok s" and "p < next_addr s" and "out_closed (set_out p c s) c" and "p \<in> out_nodes s \<Longrightarrow> path_ok c"
  shows "heap_ok (set_out p c s)"
  using assms by (auto simp: heap_defs out_closed_def in_closed_def)

lemma heap_set_in:
  assumes "heap_ok s" and "p < next_addr s" and "p \<in> in_nodes s \<Longrightarrow> in_closed s i"
  shows "heap_ok (set_in p i s)"
  using assms by (auto simp: heap_defs out_closed_def in_closed_def)

lemma heap_set_rcb: "heap_ok s \<Longrightarrow> p < next_addr s \<Longrightarrow> heap_ok (set_rcb p r s)"
  by (auto simp: heap_defs out_closed_def in_closed_def)

lemma heap_set_sc: "heap_ok s \<Longrightarrow> p < next_addr s \<Longrightarrow> heap_ok (set_sc p x s)"
  by (auto simp: heap_defs out_closed_def in_closed_def)

lemma heap_bump: "heap_ok s \<Longrightarrow> heap_ok (bump s)"
  by (auto simp: heap_defs out_closed_def in_closed_def less_Suc_eq)

lemma heap_frame [simp]:
  "heap_ok (s\<lparr>alloc_ports := x\<rparr>) = heap_ok s" "heap_ok (s\<lparr>ticks := n\<rparr>) = heap_ok s"
  "heap_ok (s\<lparr>stats := st\<rparr>) = heap_ok s" "heap_ok (s\<lparr>dev_measurement := d\<rparr>) = heap_ok s"
  "heap_ok (map_dh (\<lambda>h. h\<lparr>dysco_tag := f h\<rparr>) s) = heap_ok s"
  "heap_ok (map_dh (\<lambda>h. h\<lparr>policies := g h\<rparr>) s) = heap_ok s"
  by (simp_all add: heap_defs node_defs out_closed_def in_closed_def map_dh_def)

lemma nodes_insert [simp]:
  "ht_nodes (ht_insert k p t) = insert p (ht_nodes t)"
  by (rule tbl.nodes_link)

lemma nodes_links [simp]:
  "out_nodes (link_out k p s) = insert p (out_nodes s)" "out_nodes (link_pen k p s) = insert p (out_nodes s)"
  "out_nodes (link_pen_tag t p s) = insert p (out_nodes s)" "out_nodes (link_in k p s) = out_nodes s"
  "out_nodes (link_reconfig k p s) = out_nodes s" "out_nodes (unlink_reconfig k p s) = out_nodes s"
  "in_nodes (link_in k p s) = insert p (in_nodes s)" "in_nodes (link_out k p s) = in_nodes s"
  "in_nodes (link_pen k p s) = in_nodes s" "in_nodes (link_pen_tag t p s) = in_nodes s"
  "in_nodes (link_reconfig k p s) = in_nodes s" "in_nodes (unlink_reconfig k p s) = in_nodes s"
  "in_nodes (unlink_pen k p s) = in_nodes s" "in_nodes (unlink_pen_tag t p s) = in_nodes s"
  "rec_nodes (link_reconfig k p s) = insert p (rec_nodes s)" "rec_nodes (link_in k p s) = rec_nodes s"
  "rec_nodes (link_out k p s) = rec_nodes s" "rec_nodes (link_pen k p s) = rec_nodes s"
  "rec_nodes (link_pen_tag t p s) = rec_nodes s" "rec_nodes (unlink_pen k p s) = rec_nodes s"
  "rec_nodes (unlink_pen_tag t p s) = rec_nodes s"
  by (auto simp: node_defs)

lemma nodes_unlinks:
  "out_nodes (unlink_pen k p s) \<subseteq> out_nodes s" "out_nodes (unlink_pen_tag t p s) \<subseteq> out_nodes s"
  "rec_nodes (unlink_reconfig k p s) \<subseteq> rec_nodes s"
  using tbl.nodes_unlink by (fastforce simp: node_defs)+

lemma closed_cong:
  "outs s' = outs s \<Longrightarrow> socks s' = socks s \<Longrightarrow> out_closed s' c = out_closed s c"
  "outs s' = outs s \<Longrightarrow> in_closed s' i = in_closed s i"
  by (simp_all add: out_closed_def in_closed_def)

text \<open>An operation on the tables alone: every node it adds is a good one.\<close>

lemma heap_tables:
  assumes "heap_ok s" and "outs s' = outs s" and "ins s' = ins s" and "rcbs s' = rcbs s" and "scs s' = scs s"
    and "socks s' = socks s" and "next_addr s' = next_addr s"
    and "\<And>p. p \<in> out_nodes s' \<Longrightarrow> p \<in> out_nodes s \<or> (\<exists>c. outs s p = Some c \<and> path_ok c)"
    and "\<And>p. p \<in> in_nodes s' \<Longrightarrow> p \<in> in_nodes s \<or> (\<exists>i. ins s p = Some i \<and> in_closed s i)"
    and "\<And>p. p \<in> rec_nodes s' \<Longrightarrow> p \<in> rec_nodes s \<or> rcbs s p \<noteq> None"
  shows "heap_ok s'"
proof -
  note c = closed_cong(1) [OF assms(2,6)] closed_cong(2) [OF assms(2)]
  have "outs_ok s'" using assms(1,2,7,8) c(1) by (fastforce simp: heap_ok_def outs_ok_def)
  moreover have "ins_ok s'" using assms(1,3,7,9) c(2) by (fastforce simp: heap_ok_def ins_ok_def)
  moreover have "nodes_ok s'" using assms(1-4,8-10) by (fastforce simp: heap_ok_def nodes_ok_def)
  moreover have "fresh_ok s'" using assms(1,4,5,7) by (simp add: heap_ok_def fresh_ok_def)
  ultimately show ?thesis by (simp add: heap_ok_def)
qed

lemma heap_link_out: "heap_ok s \<Longrightarrow> outs s p = Some c \<Longrightarrow> path_ok c \<Longrightarrow> heap_ok (link_out k p s)"
  by (erule heap_tables) auto

lemma heap_link_pen: "heap_ok s \<Longrightarrow> outs s p = Some c \<Longrightarrow> path_ok c \<Longrightarrow> heap_ok (link_pen k p s)"
  by (erule heap_tables) auto

lemma heap_link_pen_tag: "heap_ok s \<Longrightarrow> outs s p = Some c \<Longrightarrow> path_ok c \<Longrightarrow> heap_ok (link_pen_tag t p s)"
  by (erule heap_tables) auto

lemma heap_link_in: "heap_ok s \<Longrightarrow> ins s p = Some i \<Longrightarrow> in_closed s i \<Longrightarrow> heap_ok (link_in k p s)"
  by (erule heap_tables) auto

lemma heap_link_reconfig: "heap_ok s \<Longrightarrow> rcbs s p = Some r \<Longrightarrow> heap_ok (link_reconfig k p s)"
  by (erule heap_tables) auto

lemma heap_unlinks:
  "heap_ok s \<Longrightarrow> heap_ok (unlink_pen k p s)" "heap_ok s \<Longrightarrow> heap_ok (unlink_pen_tag t p s)"
  "heap_ok s \<Longrightarrow> heap_ok (unlink_reconfig k p s)"
  by (erule heap_tables; auto dest: nodes_unlinks [THEN subsetD])+

text \<open>A step that writes fields of a block but not its pointers, and does not leave the three states.\<close>

definition same_ptrs :: "dysco_cb_out \<Rightarrow> dysco_cb_out \<Rightarrow> bool" where
  "same_ptrs c c' \<longleftrightarrow> o_other_path c' = o_other_path c \<and> o_my_tp c' = o_my_tp c \<and> o_other_tp c' = o_other_tp c \<and>
     (path_ok c \<longrightarrow> path_ok c')"

lemma heap_update_out:
  assumes "heap_ok s" and "outs s p = Some c" and "same_ptrs c c'"
  shows "heap_ok (set_out p c' s)"
  using assms heap_okD [OF assms(1)]
  by (intro heap_set_out) (auto simp: same_ptrs_def out_closed_def)

lemma heap_update_in:
  assumes "heap_ok s" and "ins s p = Some i" and "i_dcb_out i' = i_dcb_out i"
  shows "heap_ok (set_in p i' s)"
  using assms heap_okD [OF assms(1)]
  by (intro heap_set_in) (auto simp: in_closed_def)

lemma heap_update_rcb: "heap_ok s \<Longrightarrow> rcbs s p = Some r \<Longrightarrow> heap_ok (set_rcb p r' s)"
  by (blast intro: heap_set_rcb heap_okD(9))

text \<open>Releasing an input block no table knows.\<close>

lemma heap_free_in:
  assumes "heap_ok s" and "free_in p s = Some s'" and "p \<notin> in_nodes s"
  shows "heap_ok s'"
proof -
  have s': "s' = s\<lparr>ins := (ins s)(p := None)\<rparr>" using assms(2) by (simp add: free_in_def split: if_splits)
  have n: "out_nodes s' = out_nodes s" "in_nodes s' = in_nodes s" "rec_nodes s' = rec_nodes s"
    by (simp_all add: s' node_defs)
  have o': "outs s' = outs s" "socks s' = socks s" by (simp_all add: s')
  note c = closed_cong(1) [OF o'] closed_cong(2) [OF o'(1)]
  show ?thesis
    using assms(1,3) n c by (auto simp: heap_defs s')
qed

text \<open>A step after which heap and tables are as before.\<close>

lemma heap_same:
  assumes "heap_ok s" and "outs s' = outs s" and "ins s' = ins s" and "rcbs s' = rcbs s"
    and "\<And>a. scs s' a \<noteq> None \<Longrightarrow> a < next_addr s'"
    and "socks s' = socks s" and "next_addr s \<le> next_addr s'" and "out_nodes s' = out_nodes s"
    and "in_nodes s' = in_nodes s" and "rec_nodes s' = rec_nodes s"
  shows "heap_ok s'"
proof -
  note c = closed_cong(1) [OF assms(2,6)] closed_cong(2) [OF assms(2)]
  have l: "p < next_addr s'" if "p < next_addr s" for p using that assms(7) by simp
  have "outs_ok s'" using assms(1,2,8) c l by (auto simp: heap_ok_def outs_ok_def)
  moreover have "ins_ok s'" using assms(1,3,9) c l by (auto simp: heap_ok_def ins_ok_def)
  moreover have "nodes_ok s'" using assms(1-4,8-10) by (auto simp: heap_ok_def nodes_ok_def)
  moreover have "fresh_ok s'" using assms(1,4,5) l by (auto simp: heap_ok_def fresh_ok_def)
  ultimately show ?thesis by (simp add: heap_ok_def)
qed

lemma heap_links:
  "heap_ok s \<Longrightarrow> outs s p \<noteq> None \<Longrightarrow> path_ok (the (outs s p)) \<Longrightarrow> heap_ok (link_out k p s)"
  "heap_ok s \<Longrightarrow> outs s p \<noteq> None \<Longrightarrow> path_ok (the (outs s p)) \<Longrightarrow> heap_ok (link_pen k p s)"
  "heap_ok s \<Longrightarrow> outs s p \<noteq> None \<Longrightarrow> path_ok (the (outs s p)) \<Longrightarrow> heap_ok (link_pen_tag t p s)"
  "heap_ok s \<Longrightarrow> ins s p \<noteq> None \<Longrightarrow> in_closed s (the (ins s p)) \<Longrightarrow> heap_ok (link_in k p s)"
  "heap_ok s \<Longrightarrow> rcbs s p \<noteq> None \<Longrightarrow> heap_ok (link_reconfig k p s)"
  by (auto intro: heap_link_out heap_link_pen heap_link_pen_tag heap_link_in heap_link_reconfig)

lemmas heap_intros = heap_set_out heap_set_in heap_set_rcb heap_set_sc heap_bump heap_links heap_unlinks

text \<open>Blocks with no other path and no sockets are closed in every state.\<close>

definition plain_out :: "dysco_cb_out \<Rightarrow> bool" where
  "plain_out c \<longleftrightarrow> o_other_path c = None \<and> o_my_tp c = None"

lemma plain_out [simp]: "plain_out c \<Longrightarrow> out_closed s c" "plain_out c \<Longrightarrow> path_ok c"
  by (simp_all add: plain_out_def out_closed_def path_ok_def)

lemma plain_blocks [simp]:
  "plain_out zero_cb_out" "plain_out (zero_cb_out\<lparr>o_super := ss\<rparr>)" "plain_out (pending_cb ss a)"
  "plain_out (cb_in_reverse ss b mac)" "plain_out (build_cb_out b r)" "plain_out (cb_out_of_rcb r)"
  "plain_out (c\<lparr>o_dcb_in := d\<rparr>) = plain_out c"
  "plain_out (c\<lparr>o_sub := ss\<rparr>) = plain_out c" "plain_out (c\<lparr>o_sack_ok := x\<rparr>) = plain_out c"
  by (simp_all add: plain_out_def zero_cb_out_def pending_cb_def cb_in_reverse_def build_cb_out_def
      cb_out_of_rcb_def)

lemma plain_arp: "dysco_arp K b c = Some c1 \<Longrightarrow> plain_out c1 = plain_out c"
  by (auto simp: plain_out_def dest!: dysco_arp_result)

section \<open>Postconditions of fallible steps\<close>

text \<open>
  \<open>post P r\<close>: if the step returns, its result satisfies \<open>P\<close>. The rules follow the structure of
  a \<open>do\<close> block down to its results.
\<close>

definition post :: "('a \<Rightarrow> bool) \<Rightarrow> 'a option \<Rightarrow> bool" where
  "post P r \<longleftrightarrow> (\<forall>x. r = Some x \<longrightarrow> P x)"

lemma postD: "post P r \<Longrightarrow> r = Some x \<Longrightarrow> P x"
  by (simp add: post_def)

lemma post_bind: "(\<And>x. m = Some x \<Longrightarrow> post P (f x)) \<Longrightarrow> post P (Option.bind m f)"
  by (auto simp: post_def bind_eq_Some_conv)

lemma post_prod: "(\<And>a b. x = (a, b) \<Longrightarrow> post P (f a b)) \<Longrightarrow> post P (case x of (a, b) \<Rightarrow> f a b)"
  by (cases x) simp

lemma post_if: "(c \<Longrightarrow> post P x) \<Longrightarrow> (\<not> c \<Longrightarrow> post P y) \<Longrightarrow> post P (if c then x else y)"
  by simp

lemma post_option:
  "(x = None \<Longrightarrow> post P y) \<Longrightarrow> (\<And>a. x = Some a \<Longrightarrow> post P (f a)) \<Longrightarrow> post P (case x of None \<Rightarrow> y | Some a \<Rightarrow> f a)"
  by (cases x) simp_all

lemma post_list:
  "(x = [] \<Longrightarrow> post P y) \<Longrightarrow> (\<And>a as. x = a # as \<Longrightarrow> post P (f a as)) \<Longrightarrow> post P (case x of [] \<Rightarrow> y | a # as \<Rightarrow> f a as)"
  by (cases x) simp_all

lemma post_let: "post P (f e) \<Longrightarrow> post P (Let e f)"
  by simp

lemma post_Some: "P x \<Longrightarrow> post P (Some x)"
  by (simp add: post_def)

lemma post_None: "post P None"
  by (simp add: post_def)

lemmas post_intros = post_bind post_prod post_if post_option post_list post_let post_Some post_None

text \<open>The postcondition shared by all steps: the state that comes back is good.\<close>

abbreviation (input) good1 :: "dstate \<Rightarrow> bool" where "good1 \<equiv> heap_ok"
abbreviation (input) good2 :: "'a \<times> dstate \<Rightarrow> bool" where "good2 \<equiv> \<lambda>(r, s). heap_ok s"
abbreviation (input) good3 :: "'a \<times> 'b \<times> dstate \<Rightarrow> bool" where "good3 \<equiv> \<lambda>(r, b, s). heap_ok s"

end
