(* ===== verification/Dysco_Safety.thy ===== *)
theory Dysco_Safety
  imports Dysco_Invariant
begin

text \<open>
  The module as a state machine: every packet, control message and policy command is a step of
  the relation \<open>dysco_step\<close>. Every operation of the input, output and control paths keeps
  the invariant \<open>heap_ok\<close> of \<open>Dysco_Invariant\<close>, so it holds in every reachable state, and there
  the data path does not fault.
\<close>

section \<open>Input path\<close>

lemma in_closed_more: "in_closed s i \<Longrightarrow> in_closed (set_out p c s) i"
  by (auto simp: in_closed_def)

lemma insert_pending_ok:
  assumes "heap_ok s" and "dysco_insert_pending K sp s = Some (True, s')"
  shows "heap_ok s'"
proof -
  have "s' = link_pen_tag 0 (next_addr s) (link_pen (fst sp) (next_addr s)
      (set_out (next_addr s) (pending_cb (fst sp) (Suc (next_addr s)))
      (set_sc (Suc (next_addr s)) (rest_chain K (Suc (next_addr s)) (snd sp))
        (bump (set_out (next_addr s) (zero_cb_out\<lparr>o_super := fst sp\<rparr>) (bump s))))))"
    using insert_pending_cases [OF refl refl, of K sp s] assms(2) by auto
  then show ?thesis using assms(1) by (simp add: heap_intros)
qed

lemma insert_pending_frame:
  assumes "dysco_insert_pending K sp s = Some (True, s')" and "a < next_addr s"
  shows "outs s' a = outs s a" "ins s' = ins s" "in_nodes s' = in_nodes s"
    "a \<in> out_nodes s' \<longleftrightarrow> a \<in> out_nodes s" "next_addr s \<le> next_addr s'"
  using insert_pending_cases [OF refl refl, of K sp s] assms by auto

lemma same_heap_ok:
  assumes "heap_ok s" and "same_heap s s'" and "socks s' = socks s" and "next_addr s \<le> next_addr s'"
  shows "heap_ok s'"
proof (rule heap_same [OF assms(1)])
  show "scs s' a \<noteq> None \<Longrightarrow> a < next_addr s'" for a
    using heap_okD(10) [OF assms(1), of a] assms(2,4) by (auto simp: same_heap_def)
qed (use assms in \<open>auto simp: same_heap_def node_defs\<close>)

lemma heap_fresh: "heap_ok s \<Longrightarrow> stores_fresh s"
  unfolding stores_fresh_def
  by (metis heap_okD(1,4,9,10) leD not_Some_eq)

lemma free_env:
  "free_in p s = Some s' \<Longrightarrow> socks s' = socks s \<and> next_addr s' = next_addr s"
  "free_out p s = Some s' \<Longrightarrow> socks s' = socks s \<and> next_addr s' = next_addr s"
  "free_sc p s = Some s' \<Longrightarrow> socks s' = socks s \<and> next_addr s' = next_addr s"
  by (auto simp: free_in_def free_out_def free_sc_def split: if_splits)

lemma insert_pending_env:
  "dysco_insert_pending K sp s = Some (ok, s') \<Longrightarrow> socks s' = socks s \<and> next_addr s \<le> next_addr s'"
  by (auto simp: dysco_insert_pending_def alloc_out_def alloc_sc_def Let_def bind_eq_Some_conv
      dest!: free_env split: if_splits)

lemma insert_cb_input_env:
  "dysco_insert_cb_input K b sp mac s = Some (r, s') \<Longrightarrow> socks s' = socks s \<and> next_addr s \<le> next_addr s'"
  by (auto simp: dysco_insert_cb_input_def dysco_insert_cb_in_reverse_def alloc_in_def alloc_out_def Let_def
      bind_eq_Some_conv dest!: free_env insert_pending_env split: if_splits option.splits)

lemma insert_cb_input_ok:
  assumes h: "heap_ok s" and "dysco_insert_cb_input K b sp mac s = Some (r, s')"
  shows "heap_ok s'"
proof (cases r)
  case None
  then have "same_heap s s'"
    using insert_cb_input_cases [OF heap_fresh [OF h], of K b sp mac] assms(2) by auto
  then show ?thesis using same_heap_ok [OF h] insert_cb_input_env [OF assms(2)] by blast
next
  case (Some p)
  let ?p = "next_addr s" and ?q = "Suc (next_addr s)"
  let ?s2 = "set_out ?q (cb_in_reverse (fst sp) b mac) (bump (set_in ?p (cb_input (fst sp) b) (bump s)))"
  have fresh: "?p \<notin> in_nodes s" "?q \<notin> out_nodes s" "?q \<notin> in_nodes s"
    by (auto dest: heap_ok_nodes(1) [OF h] heap_ok_nodes(2) [OF h])
  have h2: "heap_ok ?s2" using h fresh by (intro heap_intros) auto
  let ?fin = "\<lambda>s3 ci co. link_out (o_super co) ?q (link_in (i_sub ci) ?p
        (set_out ?q (co\<lparr>o_dcb_in := Some ?p\<rparr>) (set_in ?p (ci\<lparr>i_dcb_out := Some ?q\<rparr>) s3)))"
  have "\<exists>s3 ci co. (s3 = ?s2 \<or> dysco_insert_pending K sp ?s2 = Some (True, s3)) \<and>
      ins s3 ?p = Some ci \<and> outs s3 ?q = Some co \<and> s' = ?fin s3 ci co"
  proof (cases "1 < sc_len (snd sp)")
    case True
    then show ?thesis using assms(2) Some
      by (auto simp: dysco_insert_cb_input_def dysco_insert_cb_in_reverse_def alloc_in_def alloc_out_def Let_def
          bind_eq_Some_conv split: if_splits)
  next
    case False
    then show ?thesis using assms(2) Some
      by (intro exI [of _ ?s2] exI [of _ "cb_input (fst sp) b"] exI [of _ "cb_in_reverse (fst sp) b mac"])
        (auto simp: dysco_insert_cb_input_def dysco_insert_cb_in_reverse_def alloc_in_def alloc_out_def Let_def
          bind_eq_Some_conv split: if_splits)
  qed
  then obtain s3 where s3: "s3 = ?s2 \<or> dysco_insert_pending K sp ?s2 = Some (True, s3)"
    and s': "\<exists>ci co. ins s3 ?p = Some ci \<and> outs s3 ?q = Some co \<and> s' = ?fin s3 ci co"
    by blast
  have ok3: "heap_ok s3"
    using s3 h2 insert_pending_ok [OF h2, of K sp s3] by blast
  have "outs s3 ?q = outs ?s2 ?q \<and> ins s3 = ins ?s2 \<and> in_nodes s3 = in_nodes ?s2 \<and> next_addr ?s2 \<le> next_addr s3"
    using s3
  proof
    assume "s3 = ?s2" then show ?thesis by blast
  next
    assume i: "dysco_insert_pending K sp ?s2 = Some (True, s3)"
    show ?thesis using insert_pending_frame [OF i, of ?q] by simp
  qed
  then have 3: "outs s3 ?q = Some (cb_in_reverse (fst sp) b mac)" "ins s3 ?p = Some (cb_input (fst sp) b)"
    "?q < next_addr s3" "?p < next_addr s3" "?p \<notin> in_nodes s3"
    using fresh by simp_all
  have s'': "s' = link_out (o_super (cb_in_reverse (fst sp) b mac)) ?q (link_in (i_sub (cb_input (fst sp) b)) ?p
        (set_out ?q ((cb_in_reverse (fst sp) b mac)\<lparr>o_dcb_in := Some ?p\<rparr>)
          (set_in ?p ((cb_input (fst sp) b)\<lparr>i_dcb_out := Some ?q\<rparr>) s3)))"
    using s' 3(1,2) by auto
  show ?thesis unfolding s'' using ok3 3
    by (intro heap_intros) (auto simp: in_closed_def)
qed

lemma insert_tag_ok: "heap_ok s \<Longrightarrow> dysco_insert_tag b s = Some (b', s') \<Longrightarrow> heap_ok s'"
  by (auto simp: dysco_insert_tag_def Let_def bind_eq_Some_conv split: if_splits)

lemma parse_r_dcb: "i_dcb_out (dysco_parse_tcp_syn_opt_r t m c) = i_dcb_out c"
  unfolding dysco_parse_tcp_syn_opt_r_def
  by (rule tcp_options_inv [where P = "\<lambda>x. i_dcb_out x = i_dcb_out c"]) (auto simp: syn_opt_r_def)

lemma rx_initiation_ok:
  assumes "heap_ok s"
  shows "post good3 (dysco_rx_initiation_new K b s)"
proof -
  have "heap_ok s2" if "dysco_insert_cb_input K b sp mac s = Some (Some q, s1)" and "ins s1 q = Some ci"
    and "dysco_insert_tag b1 (set_in q (dysco_parse_tcp_syn_opt_r t m ci) s1) = Some (b2, s2)"
    for sp mac q s1 ci b1 t m b2 s2
    using insert_cb_input_ok [OF assms that(1)] that(2,3) by (blast intro: insert_tag_ok heap_update_in parse_r_dcb)
  then show ?thesis
    unfolding dysco_rx_initiation_new_def
    by (intro post_intros) (auto dest: insert_cb_input_ok [OF assms] simp: assms)
qed

lemma set_ack_number_ok:
  assumes "heap_ok s" and "dysco_set_ack_number_out b p s = Some s'"
  shows "heap_ok s'"
proof -
  obtain ci where ci: "ins s p = Some ci" using assms(2) by (auto simp: dysco_set_ack_number_out_def bind_eq_Some_conv)
  let ?ci = "set_ack_number_in (th b) ci"
  let ?s1 = "set_in p ?ci s"
  have h1: "heap_ok ?s1" using assms(1) ci by (rule heap_update_in) (simp add: set_ack_number_in_def)
  obtain q co where "s' = ?s1 \<or> (outs ?s1 q = Some co \<and> s' = set_out q (copy_options_out
      (dysco_parse_tcp_syn_opt_r (th b) (tdata b) ?ci) (set_ack_number_cb_out (th b) co))
      (set_in p (dysco_parse_tcp_syn_opt_r (th b) (tdata b) ?ci) ?s1))"
    using assms(2) ci by (auto simp: dysco_set_ack_number_out_def Let_def bind_eq_Some_conv split: option.splits)
  moreover have "heap_ok (set_in p (dysco_parse_tcp_syn_opt_r (th b) (tdata b) ?ci) ?s1)"
    using h1 by (rule heap_update_in [where i = ?ci]) (simp_all add: parse_r_dcb)
  moreover have "same_ptrs co (copy_options_out i (set_ack_number_cb_out (th b) co))" for i co
    by (simp add: same_ptrs_def copy_options_out_def set_ack_number_cb_out_def path_ok_def Let_def)
  ultimately show ?thesis using h1 heap_update_out by auto
qed

lemma end_two_paths_ok: "heap_ok s \<Longrightarrow> end_two_paths p s = Some s' \<Longrightarrow> heap_ok s'"
  by (auto simp: end_two_paths_def bind_eq_Some_conv intro: heap_update_in)

lemma same_ptrs_flags [simp]:
  "same_ptrs c (c\<lparr>o_use_np_seq := x\<rparr>)" "same_ptrs c (c\<lparr>o_use_np_ack := x\<rparr>)" "same_ptrs c (c\<lparr>o_ack_ctr := n\<rparr>)"
  "same_ptrs c (c\<lparr>o_seq_cutoff := w\<rparr>)" "same_ptrs c (c\<lparr>o_ack_cutoff := w, o_valid_ack_cut := x\<rparr>)"
  "same_ptrs c (c\<lparr>o_ack_cutoff := w\<rparr>)" "same_ptrs c (c\<lparr>o_dcb_in := d\<rparr>)" "same_ptrs c (c\<lparr>o_state_t := x\<rparr>)"
  "same_ptrs c (c\<lparr>o_super := ss\<rparr>)" "same_ptrs c c"
  "same_ptrs c (c\<lparr>o_ack_cutoff := w, o_valid_ack_cut := x, o_state := DYSCO_ESTABLISHED\<rparr>)"
  "same_ptrs c (c\<lparr>o_state := DYSCO_ESTABLISHED\<rparr>)"
  by (simp_all add: same_ptrs_def path_ok_def)

lemma same_ptrs_steps [simp]:
  "same_ptrs c (record_cutoff e c)" "same_ptrs c (count_old_ack c)" "same_ptrs c (lower_ack_cutoff w c)"
  "same_ptrs c (out_syn_numbers t c)"
  by (simp_all add: record_cutoff_def count_old_ack_def lower_ack_cutoff_def out_syn_numbers_def
      same_ptrs_def path_ok_def Let_def)

lemma same_ptrs_arp: "dysco_arp K b c = Some c1 \<Longrightarrow> same_ptrs c c1"
  by (auto simp: same_ptrs_def path_ok_def dest!: dysco_arp_result)

lemma update_out_end_ok:
  "heap_ok s \<Longrightarrow> outs s q = Some c \<Longrightarrow> same_ptrs c c' \<Longrightarrow> end_two_paths p (set_out q c' s) = Some s' \<Longrightarrow> heap_ok s'"
  by (blast intro: end_two_paths_ok heap_update_out)

lemma two_paths_ack_ok: "heap_ok s \<Longrightarrow> post good1 (dysco_in_two_paths_ack t p s)"
  unfolding dysco_in_two_paths_ack_def
  by (intro post_intros) (auto simp: post_def intro: end_two_paths_ok update_out_end_ok [OF _ _ same_ptrs_flags(1)])

lemma two_paths_data_ok: "heap_ok s \<Longrightarrow> post good2 (dysco_in_two_paths_data_seg t p s)"
  unfolding dysco_in_two_paths_data_seg_def
  by (intro post_intros) (auto intro: heap_update_out)

lemma with_stats_ok: "heap_ok s \<Longrightarrow> with_stats f b s = (b', s') \<Longrightarrow> heap_ok s'"
  by (auto simp: with_stats_def Let_def split: prod.splits)

lemma in_rewrite_step_ok: "heap_ok s \<Longrightarrow> post good3 (in_rewrite_step K p b s)"
  unfolding in_rewrite_step_def by (intro post_intros) (auto dest: with_stats_ok)

lemma input_syn_ok:
  assumes "heap_ok s"
  shows "post good3 (dysco_input_syn K p b s)"
proof -
  have "heap_ok s1" if "ins s p = Some ci" and "dysco_set_ack_number_out b p (set_in p (ci\<lparr>i_skb_iif := n\<rparr>) s) = Some s1"
    for ci n s1
    using heap_update_in [OF assms that(1), of "ci\<lparr>i_skb_iif := n\<rparr>"] that(2) by (auto intro: set_ack_number_ok)
  then show ?thesis
    unfolding dysco_input_syn_def
    by (intro post_intros in_rewrite_step_ok) (auto dest: insert_tag_ok [OF assms])
qed

lemma input_tcp_ok:
  assumes "heap_ok s"
  shows "post good3 (dysco_input_tcp K b s)"
proof -
  have "heap_ok s1" if "(if x then if y then dysco_in_two_paths_data_seg (th b) p s
        else do { s1 \<leftarrow> dysco_in_two_paths_ack (th b) p s; Some (True, s1) } else Some (True, s)) = Some (go, s1)"
    for x y p go s1
    using that assms postD [OF two_paths_data_ok [OF assms]] postD [OF two_paths_ack_ok [OF assms]]
    by (fastforce simp: bind_eq_Some_conv split: if_splits)
  then show ?thesis
    unfolding dysco_input_tcp_def
    by (intro post_intros in_rewrite_step_ok input_syn_ok rx_initiation_ok) (auto simp: assms)
qed

section \<open>Output path\<close>

lemma parse_s_ptrs [simp]: "same_ptrs c (dysco_parse_tcp_syn_opt_s t m c)"
  using parse_s_links [of c t m] by (simp add: same_ptrs_def same_links_def path_ok_def)

lemma same_ptrs_trans: "same_ptrs a b \<Longrightarrow> same_ptrs b c \<Longrightarrow> same_ptrs a c"
  by (auto simp: same_ptrs_def)

lemma same_ptrs_plain: "same_ptrs c c' \<Longrightarrow> plain_out c' = plain_out c"
  by (simp add: same_ptrs_def plain_out_def)

lemma draw_ports_ok:
  assumes "draw_ports c s = (c', s')"
  shows "same_ptrs c c'" "heap_ok s' = heap_ok s" "outs s' = outs s" "ins s' = ins s" "next_addr s' = next_addr s"
    "out_nodes s' = out_nodes s" "out_closed s' d = out_closed s d"
  using assms
  by (auto simp: draw_ports_def alloc_port_pair_def allocate_local_port_def Let_def same_ptrs_def path_ok_def
      out_nodes_def out_closed_def split: if_splits)

lemma pick_seq_live:
  assumes "heap_ok s" and "outs s p = Some c" and "o_other_path c \<noteq> None"
  shows "\<exists>q d. dysco_pick_path_seq p e s = Some q \<and> outs s q = Some d"
proof -
  obtain q d where "o_other_path c = Some q" "outs s q = Some d"
    using assms(3) heap_okD(2) [OF assms(1,2)] by (auto simp: out_closed_def)
  then show ?thesis using assms(2) by (auto simp: dysco_pick_path_seq_def)
qed

lemma pick_ack_live:
  assumes "heap_ok s" and "outs s p = Some c" and "o_other_path c \<noteq> None"
  shows "\<exists>q b' s'. dysco_pick_path_ack K p b s = Some (q, b', s') \<and> outs s' q \<noteq> None \<and> heap_ok s'"
proof -
  obtain q d where q: "o_other_path c = Some q" "outs s q = Some d"
    using assms(3) heap_okD(2) [OF assms(1,2)] by (auto simp: out_closed_def)
  have "heap_ok (set_out p (count_old_ack c) s)" using assms(1,2) by (rule heap_update_out) simp
  then show ?thesis using assms(1,2) q by (simp add: dysco_pick_path_ack_def Let_def)
qed

text \<open>The choice between two paths gives a live block, so the translation never faults.\<close>

lemma choose_path_live:
  assumes "heap_ok s" and "outs s p = Some c" and "o_other_path c \<noteq> None"
  shows "\<exists>q b' s'. out_choose_path K p b s = Some (q, b', s') \<and> outs s' q \<noteq> None \<and> heap_ok s'"
proof -
  have "heap_ok (set_out p (record_cutoff e c) s)" for e
    using assms(1,2) by (rule heap_update_out) simp
  then show ?thesis
    using pick_seq_live [OF assms, of "ntohl (th_seq (th b)) + ucast (seg_sz b)"] pick_ack_live [OF assms, of K b] assms(1,2)
    by (auto simp: out_choose_path_def Let_def)
qed

lemma out_translate_live:
  assumes "heap_ok s" and "outs s p = Some c"
  shows "\<exists>b' s'. dysco_out_translate K p b s = Some (b', s') \<and> heap_ok s'"
proof (cases "o_other_path c")
  case None
  have "heap_ok (set_out p (record_cutoff e c) s)" "heap_ok (set_out p c s)" for e
    using assms by (auto intro: heap_update_out)
  then show ?thesis using None assms(2) by (simp add: dysco_out_translate_def Let_def)
next
  case (Some q)
  then obtain q' b1 s1 d where "out_choose_path K p b s = Some (q', b1, s1)" "outs s1 q' = Some d" "heap_ok s1"
    using choose_path_live [OF assms, of K b] by auto
  then show ?thesis
    using Some assms(2) with_stats_ok [of s1 "out_rewrites K d" b1]
    by (auto simp: dysco_out_translate_def Let_def split: prod.split)
qed

lemma insert_cb_out_reverse_ok:
  assumes "heap_ok s" and "outs s p = Some c" and "dysco_insert_cb_out_reverse K p two s = Some (r, s')"
  shows "heap_ok s'" "outs s' = (outs s)(p \<mapsto> c\<lparr>o_dcb_in := if r = None then o_dcb_in c else r\<rparr>)"
    "out_nodes s' = out_nodes s" "rcbs s' = rcbs s" "next_addr s \<le> next_addr s'"
    "r = Some q \<Longrightarrow> ins s' = (ins s)(q \<mapsto> cb_out_reverse p c two)"
proof -
  let ?n = "next_addr s" and ?i = "cb_out_reverse p c two"
  have cl: "in_closed (set_in ?n ?i (bump s)) ?i"
    using assms(2) by (simp add: in_closed_def cb_out_reverse_def)
  have f: "?n \<notin> in_nodes s" by (auto dest: heap_ok_nodes(2) [OF assms(1)])
  have h1: "heap_ok (set_in ?n ?i (bump s))" using assms(1) f by (intro heap_intros) auto
  have h2: "heap_ok (set_out p (c\<lparr>o_dcb_in := Some ?n\<rparr>) (set_in ?n ?i (bump s)))"
    using h1 by (rule heap_update_out [where c = c]) (simp_all add: assms(2))
  have h3: "heap_ok (link_in (i_sub ?i) ?n (set_out p (c\<lparr>o_dcb_in := Some ?n\<rparr>) (set_in ?n ?i (bump s))))"
    using h2 by (rule heap_links(4)) (simp_all add: in_closed_def cb_out_reverse_def)
  note d = assms(3) [unfolded dysco_insert_cb_out_reverse_def Let_def alloc_in_def assms(2)]
  show "heap_ok s'" using d h3 assms(1) by (auto simp: heap_bump split: if_splits)
  show "outs s' = (outs s)(p \<mapsto> c\<lparr>o_dcb_in := if r = None then o_dcb_in c else r\<rparr>)"
    using d assms(2) by (auto simp: fun_upd_idem_iff split: if_splits)
  show "out_nodes s' = out_nodes s" "rcbs s' = rcbs s" "next_addr s \<le> next_addr s'"
    "r = Some q \<Longrightarrow> ins s' = (ins s)(q \<mapsto> cb_out_reverse p c two)"
    using d by (auto split: if_splits)
qed

lemma insert_cb_out_ok:
  assumes "heap_ok s" and "outs s p = Some c" and "path_ok c" and "dysco_insert_cb_out K p two s = Some s'"
  shows "heap_ok s'" "\<exists>r. outs s' = (outs s)(p \<mapsto> c\<lparr>o_dcb_in := r\<rparr>) \<and> (\<forall>q. r = Some q \<longrightarrow> (\<exists>i. ins s' q = Some i \<and> i_dcb_out i = Some p))"
proof -
  have h: "heap_ok (link_out (o_super c) p s)" using assms(1-3) by (simp add: heap_links)
  obtain r s1 where s1: "dysco_insert_cb_out_reverse K p two (link_out (o_super c) p s) = Some (r, s1)"
    using assms(2,4) by (auto simp: dysco_insert_cb_out_def bind_eq_Some_conv)
  have o: "outs (link_out (o_super c) p s) p = Some c" using assms(2) by simp
  note rev = insert_cb_out_reverse_ok [OF h o s1]
  let ?c1 = "c\<lparr>o_dcb_in := if r = None then o_dcb_in c else r\<rparr>"
  have s': "s' = set_out p (?c1\<lparr>o_dcb_in := r\<rparr>) s1"
    using assms(2,4) s1 rev(2) by (simp add: dysco_insert_cb_out_def)
  have "outs s1 p = Some ?c1" using rev(2) by simp
  then show "heap_ok s'" unfolding s' by (intro heap_update_out [OF rev(1)]) auto
  show "\<exists>r. outs s' = (outs s)(p \<mapsto> c\<lparr>o_dcb_in := r\<rparr>) \<and>
      (\<forall>q. r = Some q \<longrightarrow> (\<exists>i. ins s' q = Some i \<and> i_dcb_out i = Some p))"
    using rev(2,6) by (intro exI [of _ r]) (auto simp: s' cb_out_reverse_def)
qed

lemma heap_free_fresh_out:
  assumes "heap_ok s" and "free_out (next_addr s) (set_out (next_addr s) c (bump s)) = Some s'"
  shows "heap_ok s'"
proof -
  have "outs s (next_addr s) = None" using heap_okD(1) [OF assms(1)] by (cases "outs s (next_addr s)") auto
  moreover have "s' = (set_out (next_addr s) c (bump s))\<lparr>outs := (outs s)(next_addr s := None)\<rparr>"
    using assms(2) by (simp add: free_out_def)
  ultimately have "s' = bump s" by (simp add: fun_upd_idem set_out_def bump_def)
  then show ?thesis using assms(1) by (simp add: heap_bump)
qed

lemma create_cb_out_ok:
  assumes "heap_ok s" and "dysco_create_cb_out K b a s = Some (r, s')"
  shows "heap_ok s'" "r = Some p \<Longrightarrow> \<exists>c. outs s' p = Some c \<and> path_ok c"
proof -
  let ?n = "next_addr s" and ?c = "zero_cb_out\<lparr>o_sc := Some a, o_super := pkt_session (iph b) (th b)\<rparr>"
  have f: "?n \<notin> out_nodes s" by (auto dest: heap_ok_nodes(1) [OF assms(1)])
  have pl: "plain_out ?c" by (simp add: plain_out_def zero_cb_out_def)
  have c1: "plain_out c1" if "dysco_arp K b (?c\<lparr>o_sub := ss\<rparr>) = Some c1" for ss c1
    using pl plain_arp [OF that] by simp
  have h1: "heap_ok (set_out ?n ?c (bump s))"
    using assms(1) pl by (intro heap_intros) auto
  have ok: "heap_ok (set_out ?n c2 s2) \<and> path_ok c2"
    if "dysco_arp K b (?c\<lparr>o_sub := ss\<rparr>) = Some c1" and "draw_ports c1 (set_out ?n ?c (bump s)) = (c2, s2)" for ss c1 c2 s2
  proof -
    note d = draw_ports_ok [OF that(2)]
    have "plain_out c2" using same_ptrs_plain [OF d(1)] c1 [OF that(1)] by simp
    then show ?thesis using d h1 pl by (intro conjI heap_set_out) auto
  qed
  have "heap_ok s' \<and> (r = Some p \<longrightarrow> (\<exists>c. outs s' p = Some c \<and> path_ok c))"
    using assms(2) heap_free_fresh_out [OF assms(1), of ?c] heap_bump [OF assms(1)] ok [OF _ prod.collapse [symmetric]]
    by (auto simp: dysco_create_cb_out_def alloc_out_def Let_def bind_eq_Some_conv split_beta
        split: if_splits list.splits)
  then show "heap_ok s'" "r = Some p \<Longrightarrow> \<exists>c. outs s' p = Some c \<and> path_ok c" by auto
qed

lemma lookup_pen_tag_ok:
  assumes "heap_ok s"
  shows "\<exists>r s'. dysco_lookup_pen_tag K b s = Some (r, s') \<and> heap_ok s' \<and> (\<forall>p. r = Some p \<longrightarrow> p \<in> out_nodes s')"
proof (cases "o_tag_ok (tag_aux K b s)")
  case False then show ?thesis using assms by (simp add: dysco_lookup_pen_tag_def Let_def)
next
  case True
  show ?thesis
  proof (cases "look_pen_tag (o_dysco_tag (tag_aux K b s)) s")
    case None then show ?thesis using True assms by (simp add: dysco_lookup_pen_tag_def Let_def)
  next
    case (Some p)
    then have n: "p \<in> out_nodes s" by (rule look_nodes)
    then obtain c where c: "outs s p = Some c" using heap_okD(6) [OF assms] by blast
    let ?a = "tag_aux K b s"
    let ?c = "c\<lparr>o_ws_ok := o_ws_ok ?a, o_ws_delta := 0, o_ws_in := o_ws_in ?a, o_ws_out := o_ws_in ?a,
        o_ts_ok := o_ts_ok ?a, o_ts_delta := 0, o_ts_in := o_ts_in ?a, o_ts_out := o_ts_in ?a,
        o_sack_ok := o_sack_ok ?a, o_tag_ok := True, o_dysco_tag := o_dysco_tag ?a\<rparr>"
    have "heap_ok (set_out p ?c s)"
      using assms c by (rule heap_update_out) (simp add: same_ptrs_def path_ok_def)
    then show ?thesis using True Some c n by (simp add: dysco_lookup_pen_tag_def Let_def)
  qed
qed

lemma update_five_tuple_ok:
  assumes "heap_ok s" and "dysco_update_five_tuple b p s = Some s'"
  shows "heap_ok s'" "out_nodes s' = out_nodes s"
  using assms by (auto simp: dysco_update_five_tuple_def bind_eq_Some_conv intro: heap_update_out)

lemma out_handle_mb_ok:
  assumes "heap_ok s" and "p \<in> out_nodes s"
  shows "post good2 (dysco_out_handle_mb K p b s)"
proof -
  have main: "heap_ok s3"
    if c: "outs s p = Some c" and d: "draw_ports c1 (unlink_pen_tag t p (unlink_pen k p s)) = (c2, s2)"
      and c1: "same_ptrs c c1" and c3: "same_ptrs c2 c3"
      and i: "dysco_insert_cb_out K p False (set_out p c3 s2) = Some s3" for c c1 c2 s2 c3 s3 t k
  proof -
    note dp = draw_ports_ok [OF d]
    have sp: "same_ptrs c c3" using c1 dp(1) c3 by (blast intro: same_ptrs_trans)
    have h2: "heap_ok s2" using dp(2) assms(1) by (simp add: heap_unlinks)
    have o: "outs s2 p = Some c" using dp(3) c by simp
    have "heap_ok (set_out p c3 s2)" using h2 o sp by (rule heap_update_out)
    moreover have "path_ok c3" using sp heap_okD(3) [OF assms(1) c assms(2)] by (simp add: same_ptrs_def)
    ultimately show ?thesis using insert_cb_out_ok(1) [OF _ _ _ i] by simp
  qed
  have par: "same_ptrs c (dysco_parse_tcp_syn_opt_s t m (c\<lparr>o_out_iseq := v, o_in_iseq := v\<rparr>))" for c v t m
    by (rule same_ptrs_trans [OF _ parse_s_ptrs]) (simp add: same_ptrs_def path_ok_def)
  have arp: "same_ptrs c c1" if "dysco_arp K b (c\<lparr>o_sub := ss\<rparr>) = Some c1" for c c1 ss
    by (rule same_ptrs_trans [OF _ same_ptrs_arp [OF that]]) (simp add: same_ptrs_def path_ok_def)
  show ?thesis
    unfolding dysco_out_handle_mb_def
    by (intro post_intros) (auto split: if_splits list.splits intro: main par arp)
qed

lemma out_syn_known_ok: "heap_ok s \<Longrightarrow> post good3 (out_syn_known K p b s)"
proof -
  assume h: "heap_ok s"
  have 1: "heap_ok (set_out p c' s)" if "outs s p = Some c" and "same_ptrs c c'" for c c'
    using h that by (rule heap_update_out)
  have par: "same_ptrs c (dysco_parse_tcp_syn_opt_s t m (c\<lparr>o_seq_cutoff := v\<rparr>))" for c v t m
    by (rule same_ptrs_trans [OF _ parse_s_ptrs]) simp
  have 2: "post good3 (out_syn_ack K p c1 b (set_out p c1 s))" if "outs s p = Some c" and "same_ptrs c c1" for c c1
  proof -
    have "heap_ok (set_out p c1 s)" using 1 [OF that] .
    moreover have "heap_ok (set_in q (out_syn_reverse c' i) (set_out p (out_syn_numbers t c1) (set_out p c1 s)))"
      if "ins s q = Some i" for q i c' t
    proof (rule heap_update_in [where i = i])
      show "heap_ok (set_out p (out_syn_numbers t c1) (set_out p c1 s))"
        using \<open>heap_ok (set_out p c1 s)\<close> by (rule heap_update_out [where c = c1]) auto
    qed (use that in \<open>auto simp: out_syn_reverse_def Let_def\<close>)
    ultimately show ?thesis unfolding out_syn_ack_def by (intro post_intros) auto
  qed
  have 3: "post good3 (out_syn_first K p c1 b (set_out p c1 s))" if "outs s p = Some c" and "same_ptrs c c1" for c c1
  proof -
    have "heap_ok (set_out p c1 s)" using 1 [OF that] .
    then have "heap_ok (set_out p c2 (set_out p c1 s))"
      if "(if x then dysco_arp K b c1 else Some c1) = Some c2" for x c2
      by (rule heap_update_out [where c = c1]) (use that in \<open>auto intro: same_ptrs_arp split: if_splits\<close>)
    then show ?thesis unfolding out_syn_first_def by (intro post_intros) auto
  qed
  show ?thesis
    unfolding out_syn_known_def by (intro post_intros 2 3) (auto intro: par)
qed

lemma heap_measurement: "heap_ok s \<Longrightarrow> heap_ok (if x then s\<lparr>dev_measurement := d\<rparr> else s)"
  by simp

lemma out_syn_ok: "heap_ok s \<Longrightarrow> post good3 (dysco_out_syn K po b s)"
proof -
  assume h: "heap_ok s"
  have "heap_ok s2" if "dysco_create_cb_out K b a s = Some (Some p, s1)" and "dysco_insert_cb_out K p False s1 = Some s2"
    for a p s1 s2
    using create_cb_out_ok(1) [OF h that(1)] create_cb_out_ok(2) [OF h that(1), of p] insert_cb_out_ok(1) [OF _ _ _ that(2)] by blast
  then show ?thesis
    unfolding dysco_out_syn_def
    by (intro post_intros out_syn_known_ok heap_measurement) (auto dest: create_cb_out_ok(1) [OF h] simp: h)
qed

lemma output_known_ok: "heap_ok s \<Longrightarrow> post good3 (dysco_output_known K po b s)"
proof -
  assume h: "heap_ok s"
  have "heap_ok s1" if "outs s p = Some c" and "dysco_out_translate K p b1 s = Some (b2, s1)" for p c b1 b2 s1
    using out_translate_live [OF h that(1), of K b1] that(2) by simp
  then show ?thesis
    unfolding dysco_output_known_def by (intro post_intros out_syn_ok h) (auto simp: h)
qed

lemma output_tcp_ok: "heap_ok s \<Longrightarrow> post good3 (dysco_output_tcp K b s)"
proof -
  assume h: "heap_ok s"
  have tag: "heap_ok s1 \<and> (\<forall>p. r = Some p \<longrightarrow> p \<in> out_nodes s1)" if "dysco_lookup_pen_tag K b s = Some (r, s1)" for r s1
    using lookup_pen_tag_ok [OF h, of K b] that by auto
  have pen: "heap_ok s1" if "dysco_lookup_pending b s = Some p" and "dysco_out_handle_mb K p b s = Some (b1, s1)" for p b1 s1
    using postD [OF out_handle_mb_ok [OF h look_pen_node] that(2)] that(1) by (simp add: dysco_lookup_pending_def)
  have mb: "heap_ok s3" if "dysco_lookup_pen_tag K b s = Some (Some p, s1)" and "dysco_update_five_tuple b p s1 = Some s2"
    and "dysco_out_handle_mb K p b s2 = Some (b1, s3)" for p s1 s2 b1 s3
  proof -
    have "heap_ok s2" "p \<in> out_nodes s2"
      using update_five_tuple_ok [of s1 b p s2] that(2) tag [OF that(1)] by auto
    then show ?thesis using postD [OF out_handle_mb_ok that(3)] by simp
  qed
  show ?thesis
    unfolding dysco_output_tcp_def
    by (intro post_intros output_known_ok) (auto simp: h dest: tag pen mb)
qed

section \<open>Control messages that leave\<close>

lemma control_now [simp]:
  "getnstimeofday K s = (now, s') \<Longrightarrow> heap_ok s' = heap_ok s"
  by (auto simp: getnstimeofday_def)

lemma insert_cb_control_ok:
  assumes "heap_ok s" and "dysco_insert_cb_control K b s = (r, b', s')"
  shows "heap_ok s'" "outs s' = outs s" "ins s' = ins s" "out_nodes s' = out_nodes s" "socks s' = socks s"
    "next_addr s < next_addr s'"
proof -
  have h: "heap_ok (set_rcb (next_addr s) x (s'\<lparr>alloc_ports := ap\<rparr>))"
    if "heap_ok s'" "next_addr s < next_addr s'" for x s' ap using that by (simp add: heap_set_rcb)
  show "heap_ok s'" using assms
    by (auto simp: dysco_insert_cb_control_def alloc_rcb_def Let_def getnstimeofday_def alloc_port_pair_def
        allocate_local_port_def heap_bump split: if_splits prod.splits intro!: heap_links heap_set_rcb)
  show "outs s' = outs s" "ins s' = ins s" "out_nodes s' = out_nodes s" "socks s' = socks s" "next_addr s < next_addr s'"
    using assms(2)
    by (auto simp: dysco_insert_cb_control_def alloc_rcb_def Let_def getnstimeofday_def alloc_port_pair_def
        allocate_local_port_def out_nodes_def split: if_splits prod.splits)
qed

lemma control_insert_out_ok:
  assumes "heap_ok s"
  shows "post good1 (dysco_control_insert_out K b rp s)"
proof -
  have main: "heap_ok (set_in q (i\<lparr>i_ts_in := a, i_ts_out := b', i_tsr_in := c', i_tsr_out := d\<rparr>) s2)"
    if al: "alloc_out K zero_cb_out s = (Some p, s1)"
      and i: "dysco_insert_cb_out K p False (set_out p c s1) = Some s2" and qi: "ins s2 q = Some i"
      and pl: "plain_out c"
    for p s1 c s2 q i a b' c' d
  proof -
    have s1: "p = next_addr s" "s1 = set_out p zero_cb_out (bump s)"
      using al by (auto simp: alloc_out_def split: if_splits)
    have "heap_ok s1" unfolding s1 using assms by (intro heap_intros) auto
    then have "heap_ok (set_out p c s1)" using pl s1 by (intro heap_set_out) auto
    then have "heap_ok s2" using insert_cb_out_ok(1) [OF _ _ _ i] pl by simp
    then show ?thesis using qi by (rule heap_update_in) simp
  qed
  have none: "heap_ok s1" if "alloc_out K zero_cb_out s = (None, s1)" for s1
    using that assms by (auto simp: alloc_out_def heap_bump split: if_splits)
  show ?thesis
    unfolding dysco_control_insert_out_def
    by (intro post_intros) (auto intro: main none simp: plain_arp)
qed

lemma replace_rightA_ok:
  assumes "heap_ok s"
  shows "post good2 (dysco_replace_cb_rightA K b s)"
proof -
  have "heap_ok (set_out po (old\<lparr>o_old_path := True, o_state := DYSCO_SYN_RECEIVED, o_other_path := Some pn\<rparr>) s)"
    if "outs s po = Some old" and "outs (set_out po (old\<lparr>o_old_path := True, o_state := DYSCO_SYN_RECEIVED,
        o_other_path := Some pn\<rparr>) s) pn = Some new" for po old pn new
    using assms that heap_okD(1,2) [OF assms that(1)]
    by (intro heap_set_out) (auto simp: out_closed_def path_ok_def split: if_splits)
  then show ?thesis
    unfolding dysco_replace_cb_rightA_def by (intro post_intros) (auto simp: assms)
qed

lemma replace_leftA_ok:
  assumes "heap_ok s"
  shows "post good2 (dysco_replace_cb_leftA K rp b s)"
proof -
  have 1: "heap_ok (set_out po (if o_state old = DYSCO_SYN_SENT then old\<lparr>o_state := DYSCO_ESTABLISHED\<rparr> else old) s)"
    if "outs s po = Some old" for po old
    using assms that by (rule heap_update_out) simp
  then have "heap_ok (if r_rec_done r then set_out po c s
      else let (now, s') = getnstimeofday K (set_out po c s) in set_rcb rp (r\<lparr>r_rec_end := now, r_rec_done := True\<rparr>) s')"
    if "outs s po = Some old" and "rcbs s rp = Some r"
      and "c = (if o_state old = DYSCO_SYN_SENT then old\<lparr>o_state := DYSCO_ESTABLISHED\<rparr> else old)" for po old r c
    using that(1,2) 1 [OF that(1)] unfolding that(3) [symmetric]
    by (auto simp: getnstimeofday_def intro: heap_update_rcb)
  then show ?thesis
    unfolding dysco_replace_cb_leftA_def by (intro post_intros) auto
qed

lemma leftA_mark_ok:
  assumes "heap_ok s" and "leftA_mark_old po pn tr s = Some s'" and "outs s pn \<noteq> None"
  shows "heap_ok s'"
proof -
  obtain old q i where o: "outs s po = Some old" and i: "ins s q = Some i"
    and s': "s' = set_out po ((if tr then old\<lparr>o_old_path := True, o_state_t := True\<rparr> else old\<lparr>o_old_path := True\<rparr>)
        \<lparr>o_state := DYSCO_SYN_SENT, o_other_path := Some pn\<rparr>) (set_in q (i\<lparr>i_two_paths := True\<rparr>) s)"
    using assms(2) by (auto simp: leftA_mark_old_def Let_def bind_eq_Some_conv split: if_splits)
  have "heap_ok (set_in q (i\<lparr>i_two_paths := True\<rparr>) s)" using assms(1) i by (rule heap_update_in) simp
  then show ?thesis
    using assms(3) o heap_okD(1,2) [OF assms(1) o]
    unfolding s' by (intro heap_set_out) (auto simp: out_closed_def path_ok_def)
qed

lemma syn_leftA_ok:
  assumes "heap_ok s"
  shows "post good3 (control_output_syn_leftA K b s)"
proof -
  have main: "heap_ok s5"
    if po: "outs s po = Some old" and cc: "dysco_insert_cb_control K b' s = (ro, b1, s1)"
      and al: "alloc_out K zero_cb_out s1 = (Some pn, s2)" and r: "rcbs s2 rp = Some r"
      and ir: "dysco_insert_cb_out_reverse K pn True
          (set_out pn (new\<lparr>o_other_path := Some po\<rparr>) (set_rcb rp r' s2)) = Some (qn, s4)"
      and nw: "leftA_new_cb K b1 r = Some new"
      and new1: "outs s4 pn = Some new1"
      and mk: "leftA_mark_old po pn tr (set_out pn (new1\<lparr>o_dcb_in := qn\<rparr>) s4) = Some s5"
    for po old b' ro b1 s1 pn s2 rp r r' new qn s4 new1 tr s5
  proof -
    note c = insert_cb_control_ok [OF assms cc]
    have s2: "pn = next_addr s1" "s2 = set_out pn zero_cb_out (bump s1)"
      using al by (auto simp: alloc_out_def split: if_splits)
    have f: "pn \<notin> out_nodes s2" using heap_ok_nodes(1) [OF c(1), of pn] s2 by auto
    have h2: "heap_ok s2" unfolding s2 using c(1) by (intro heap_intros) auto
    let ?new = "new\<lparr>o_other_path := Some po\<rparr>"
    have "o_my_tp ?new = None"
      using dysco_arp_result [OF nw [unfolded leftA_new_cb_def]] by (auto simp: cb_out_of_rcb_def zero_cb_out_def)
    moreover have "outs s2 po \<noteq> None" using po c(2) s2(2) by simp
    moreover have h3: "heap_ok (set_rcb rp r' s2)" using h2 r by (rule heap_update_rcb)
    ultimately have h4: "heap_ok (set_out pn ?new (set_rcb rp r' s2))"
      using f s2 by (intro heap_set_out) (auto simp: out_closed_def)
    note rev = insert_cb_out_reverse_ok [OF h4 _ ir, of ?new]
    have "heap_ok s4" by (rule rev(1)) simp
    then have "heap_ok (set_out pn (new1\<lparr>o_dcb_in := qn\<rparr>) s4)" using new1 by (rule heap_update_out) simp
    then show ?thesis using mk by (rule leftA_mark_ok) simp
  qed
  have none: "heap_ok s2" if "dysco_insert_cb_control K b' s = (ro, b1, s1)" and "alloc_out K zero_cb_out s1 = (None, s2)"
    for b' ro b1 s1 s2
    using insert_cb_control_ok(1) [OF assms that(1)] that(2) by (auto simp: alloc_out_def heap_bump split: if_splits)
  show ?thesis
    unfolding control_output_syn_leftA_def
    by (intro post_intros) (auto intro: assms dest: insert_cb_control_ok(1) [OF assms] none elim!: main [rotated -1])
qed

text \<open>
  The sockets the kernel's lookup returns exist. The module keeps their addresses, so this is
  what the data path relies on.
\<close>

definition sockets_exist :: "kapi \<Rightarrow> dstate \<Rightarrow> bool" where
  "sockets_exist K s \<longleftrightarrow> (\<forall>ns a p a' p' d sk. k_established K ns a p a' p' d = Some sk \<longrightarrow> socks s sk \<noteq> None)"

lemma save_rcv_window_ok:
  assumes "heap_ok s" and "sockets_exist K s"
  shows "post good2 (dysco_ctl_save_rcv_window K m s)"
proof -
  have main: "heap_ok (set_out pr (right\<lparr>o_other_tp := Some a, o_my_tp := Some b\<rparr>)
        (set_out pl (left\<lparr>o_other_tp := Some b, o_my_tp := Some a\<rparr>) s))"
    if "outs s pl = Some left" and "outs (set_out pl (left\<lparr>o_other_tp := Some b, o_my_tp := Some a\<rparr>) s) pr = Some right"
      and "k_established K n1 v1 w1 x1 y1 z1 = Some a" and "k_established K n2 v2 w2 x2 y2 z2 = Some b"
    for pl left pr right a b n1 v1 w1 x1 y1 z1 n2 v2 w2 x2 y2 z2
  proof -
    have sk: "socks s a \<noteq> None" "socks s b \<noteq> None"
      using assms(2) that(3,4) unfolding sockets_exist_def by blast+
    have p: "path_ok (c\<lparr>o_other_tp := x, o_my_tp := y\<rparr>) = path_ok c" for c x y by (simp add: path_ok_def)
    have h1: "heap_ok (set_out pl (left\<lparr>o_other_tp := Some b, o_my_tp := Some a\<rparr>) s)"
      using assms(1) sk heap_okD(1-3) [OF assms(1) that(1)]
      by (intro heap_set_out) (auto simp: out_closed_def p)
    show ?thesis
      using sk heap_okD(1-3) [OF h1 that(2)]
      by (intro heap_set_out [OF h1]) (auto simp: out_closed_def p)
  qed
  show ?thesis
    unfolding dysco_ctl_save_rcv_window_def
    by (intro post_intros) (auto simp: assms(1) simp del: fun_upd_apply outs_set intro: main)
qed

lemma control_output_ok:
  assumes "heap_ok s" and "sockets_exist K s"
  shows "post good3 (dysco_control_output K b s)"
proof -
  have syn: "post good3 (dysco_control_output_syn K b s)"
  proof -
    have "heap_ok s2" if "dysco_insert_cb_control K b s = (r, b1, s1)" and "dysco_control_insert_out K b1 rp s1 = Some s2"
      for r b1 s1 rp s2
      using postD [OF control_insert_out_ok [OF insert_cb_control_ok(1) [OF assms(1) that(1)]] that(2)] .
    then show ?thesis
      unfolding dysco_control_output_syn_def Let_def
      by (intro post_intros syn_leftA_ok) (auto simp: assms(1) dest: insert_cb_control_ok(1) [OF assms(1)])
  qed
  have ack: "post good2 (control_output_ack K b s)"
    unfolding control_output_ack_def
    by (intro post_intros replace_leftA_ok) (auto simp: assms(1))
  have "post good3 (control_output_msg K b s)"
  proof (cases "msg_of_code (m_mtype (cmsg b))")
    case None then show ?thesis by (simp add: control_output_msg_def post_Some assms(1))
  next
    case (Some m)
    have 1: "post good3 (do { (b1, s1) \<leftarrow> f; Some (TX_CONTINUE, b1, s1) })" if "post good2 f" for f :: "(skb \<times> dstate) option"
      using postD [OF that] by (intro post_intros) auto
    show ?thesis unfolding control_output_msg_def Some
      by (cases m) (simp_all add: assms(1) syn post_Some 1 ack replace_rightA_ok)
  qed
  then show ?thesis
    unfolding dysco_control_output_def
    by (intro post_intros) (auto simp: assms(1) dest: postD [OF save_rcv_window_ok [OF assms]])
qed

section \<open>Control messages that enter\<close>

lemma deltas_out_ptrs: "same_ptrs c (dysco_compute_deltas_out c old r)"
  by (simp add: dysco_compute_deltas_out_def deltas_out_ws_def deltas_out_ts_def deltas_out_nums_def Let_def
      same_ptrs_def path_ok_def)

lemma deltas_in_parts:
  "i_dcb_out (deltas_in_nums old c) = i_dcb_out c" "i_dcb_out (deltas_in_ws old r c) = i_dcb_out c"
  "deltas_in_ts old s r c = Some c' \<Longrightarrow> i_dcb_out c' = i_dcb_out c"
  by (simp_all add: deltas_in_nums_def Let_def deltas_in_ws_def)
    (auto simp: deltas_in_ts_def bind_eq_Some_conv split: if_splits)

lemma deltas_in_dcb: "dysco_compute_deltas_in c old s r = Some c' \<Longrightarrow> i_dcb_out c' = i_dcb_out c"
  by (auto simp: dysco_compute_deltas_in_def bind_eq_Some_conv deltas_in_parts)

text \<open>A pair of new blocks that no table knows yet.\<close>

definition new_pair :: "addr \<Rightarrow> addr \<Rightarrow> dstate \<Rightarrow> bool" where
  "new_pair pi po s \<longleftrightarrow> pi \<notin> in_nodes s \<and> po \<notin> out_nodes s \<and>
     (\<exists>i c. ins s pi = Some i \<and> i_dcb_out i = Some po \<and> outs s po = Some c \<and> plain_out c)"

lemma config_rightA_ok:
  assumes "heap_ok s" and "new_pair pi po s" and "dysco_control_config_rightA rp m pi po s = Some (ok, s')"
  shows "heap_ok s'" "ok \<Longrightarrow> \<exists>i. ins s' pi = Some i \<and> in_closed s' i"
proof -
  obtain i c where i: "ins s pi = Some i" "i_dcb_out i = Some po" and c: "outs s po = Some c" "plain_out c"
    and n: "pi \<notin> in_nodes s" "po \<notin> out_nodes s"
    using assms(2) by (auto simp: new_pair_def)
  have "heap_ok s' \<and> (ok \<longrightarrow> (\<exists>i. ins s' pi = Some i \<and> in_closed s' i))"
  proof (cases "look_out \<lparr>sip = dip (m_rightSS m), dip = sip (m_rightSS m),
            sport = dport (m_rightSS m), dport = sport (m_rightSS m)\<rparr> s")
    case None
    then have "\<exists>k s1. free_in pi s = Some s1 \<and> s' = unlink_reconfig k rp s1 \<and> \<not> ok"
      using assms(3) by (auto simp: dysco_control_config_rightA_def bind_eq_Some_conv)
    then show ?thesis using heap_free_in [OF assms(1) _ n(1)] heap_unlinks(3) by blast
  next
    case (Some po')
    obtain r old i1 where r: "rcbs s rp = Some r" and old: "outs s po' = Some old"
      and i1: "dysco_compute_deltas_in (i\<lparr>i_super := m_rightSS m\<rparr>) old s r = Some i1"
      using assms(3) Some i c by (auto simp: dysco_control_config_rightA_def bind_eq_Some_conv)
    define c1 where "c1 = (dysco_compute_deltas_out c old r)\<lparr>o_other_path := Some po'\<rparr>"
    define s1 where "s1 = set_rcb rp (r\<lparr>r_old_dcb := Some po', r_new_dcb := Some po\<rparr>)
        (set_in pi (i1\<lparr>i_two_paths := True\<rparr>) (set_out po c1 s))"
    have tp: "o_my_tp c1 = None" using deltas_out_ptrs [of c old r] c(2) by (simp add: c1_def same_ptrs_def plain_out_def)
    have "heap_ok (set_out po c1 s)"
      using assms(1) n(2) tp old heap_okD(1) [OF assms(1) c(1)]
      by (intro heap_set_out) (auto simp: out_closed_def c1_def)
    then have "heap_ok (set_in pi (i1\<lparr>i_two_paths := True\<rparr>) (set_out po c1 s))"
      by (rule heap_update_in [where i = i]) (use i deltas_in_dcb [OF i1] in simp_all)
    then have h1: "heap_ok s1" unfolding s1_def by (rule heap_update_rcb) (simp add: r)
    obtain old1 where old1: "outs s1 po' = Some old1" using old by (cases "po' = po") (auto simp: s1_def)
    have s': "s' = (if ntohs (m_semantic m) = STATE_TRANSFER then set_out po' (old1\<lparr>o_state_t := True\<rparr>) s1 else s1)"
      using assms(3) Some i c r old i1 old1
      by (simp add: dysco_control_config_rightA_def Let_def s1_def c1_def split: if_splits)
    have "heap_ok (set_out po' (old1\<lparr>o_state_t := True\<rparr>) s1)" using h1 old1 by (rule heap_update_out) simp
    moreover have "ins s' pi = Some (i1\<lparr>i_two_paths := True\<rparr>)" unfolding s' by (simp add: s1_def)
    moreover have "in_closed s' (i1\<lparr>i_two_paths := True\<rparr>)"
      using deltas_in_dcb [OF i1] i(2) unfolding s' by (simp add: in_closed_def s1_def)
    ultimately show ?thesis using h1 by (simp add: s')
  qed
  then show "heap_ok s'" "ok \<Longrightarrow> \<exists>i. ins s' pi = Some i \<and> in_closed s' i" by auto
qed

lemma plain_cb_in_dcb [simp]: "i_dcb_out (plain_cb_in r c) = i_dcb_out c"
  by (simp add: plain_cb_in_def Let_def)

text \<open>A middlebox links the pair.\<close>

lemma config_mb_ok:
  assumes "heap_ok s" and "new_pair pi po s" and "ins s pi = Some i" and "outs s po = Some c"
  shows "heap_ok (link_out k po (set_in pi (plain_cb_in r i) (set_out po (c\<lparr>o_sack_ok := x\<rparr>) s)))"
    "in_closed (link_out k po (set_in pi (plain_cb_in r i) (set_out po (c\<lparr>o_sack_ok := x\<rparr>) s))) (plain_cb_in r i)"
proof -
  have p: "plain_out c" "i_dcb_out i = Some po" using assms by (auto simp: new_pair_def)
  have "heap_ok (set_out po (c\<lparr>o_sack_ok := x\<rparr>) s)"
    using assms(1,4) by (rule heap_update_out) (simp add: same_ptrs_def path_ok_def)
  then have "heap_ok (set_in pi (plain_cb_in r i) (set_out po (c\<lparr>o_sack_ok := x\<rparr>) s))"
    by (rule heap_update_in [where i = i]) (simp_all add: assms(3))
  then show "heap_ok (link_out k po (set_in pi (plain_cb_in r i) (set_out po (c\<lparr>o_sack_ok := x\<rparr>) s)))"
    by (rule heap_links(1)) (use p in simp_all)
  show "in_closed (link_out k po (set_in pi (plain_cb_in r i) (set_out po (c\<lparr>o_sack_ok := x\<rparr>) s))) (plain_cb_in r i)"
    using p by (simp add: in_closed_def)
qed

lemma reconfig_in_ok:
  assumes "heap_ok s"
  shows "post good2 (dysco_control_reconfig_in K b rp s)"
proof -
  let ?p = "next_addr s" and ?q = "Suc (next_addr s)"
  have fresh: "?p \<notin> in_nodes s" "?q \<notin> out_nodes s"
    by (auto dest: heap_ok_nodes(1) [OF assms] heap_ok_nodes(2) [OF assms])
  have al_in: "(r = None \<and> s1 = bump s) \<or> (r = Some ?p \<and> s1 = set_in ?p i (bump s))"
    if "alloc_in K i s = (r, s1)" for r i s1
    using that by (auto simp: alloc_in_def split: if_splits)
  have al_out: "(r = None \<and> s2 = bump (set_in ?p i (bump s))) \<or>
      (r = Some ?q \<and> s2 = set_out ?q (build_cb_out b rc) (bump (set_in ?p i (bump s))))"
    if "dysco_build_cb_in_reverse K b rc (set_in ?p i (bump s)) = (r, s2)" for r i s2 rc
    using that by (auto simp: dysco_build_cb_in_reverse_def alloc_out_def split: if_splits)
  have h1: "heap_ok (set_in ?p i (bump s))" for i using assms fresh by (intro heap_intros) auto
  have fail: "heap_ok (unlink_reconfig k rp s3)"
    if "free_in ?p (bump (set_in ?p i (bump s))) = Some s3" for i s3 k
    using heap_free_in [OF heap_bump [OF h1] that] fresh by (simp add: heap_unlinks)
  let ?s3 = "\<lambda>i c. set_in ?p (i\<lparr>i_dcb_out := Some ?q\<rparr>) (set_out ?q (c\<lparr>o_dcb_in := Some ?p\<rparr>)
      (set_out ?q c (bump (set_in ?p i (bump s)))))"
  have h3: "heap_ok (?s3 i (build_cb_out b rc))" "new_pair ?p ?q (?s3 i (build_cb_out b rc))" for i rc
  proof -
    have "heap_ok (set_out ?q (build_cb_out b rc) (bump (set_in ?p i (bump s))))"
      using assms fresh by (intro heap_intros) auto
    then have "heap_ok (set_out ?q ((build_cb_out b rc)\<lparr>o_dcb_in := Some ?p\<rparr>)
        (set_out ?q (build_cb_out b rc) (bump (set_in ?p i (bump s)))))"
      by (rule heap_update_out [where c = "build_cb_out b rc"]) simp_all
    then show "heap_ok (?s3 i (build_cb_out b rc))"
      by (rule heap_set_in) (use fresh in auto)
    show "new_pair ?p ?q (?s3 i (build_cb_out b rc))" using fresh by (simp add: new_pair_def)
  qed
  have good: "heap_ok (link_in k ?p s4)"
    if "dysco_control_config_rightA rp m ?p ?q (?s3 i (build_cb_out b rc)) = Some (True, s4)" for k s4 m i rc
    using config_rightA_ok [OF h3 that] by (auto intro: heap_links(4))
  have bad: "heap_ok s4"
    if "dysco_control_config_rightA rp m ?p ?q (?s3 i (build_cb_out b rc)) = Some (ok, s4)" for ok s4 m i rc
    using config_rightA_ok(1) [OF h3 that] .
  have mb: "heap_ok (link_in k' ?p (link_out k ?q (set_in ?p (plain_cb_in r i) (set_out ?q (c\<lparr>o_sack_ok := x\<rparr>) s3))))"
    if "heap_ok s3" "new_pair ?p ?q s3" "ins s3 ?p = Some i" "outs s3 ?q = Some c" for s3 k' k r i c x
    using config_mb_ok [OF that] by (auto intro!: heap_links(4))
  have mb3: "heap_ok (link_in k' ?p (link_out k ?q (set_in ?p (plain_cb_in r (i\<lparr>i_dcb_out := Some ?q\<rparr>))
        (set_out ?q ((build_cb_out b rc)\<lparr>o_dcb_in := Some ?p, o_sack_ok := x\<rparr>) (?s3 i (build_cb_out b rc))))))"
    for k' k r i rc x
    using mb [OF h3(1) h3(2), of i rc "i\<lparr>i_dcb_out := Some ?q\<rparr>" "(build_cb_out b rc)\<lparr>o_dcb_in := Some ?p\<rparr>"] by simp
  show ?thesis
    unfolding dysco_control_reconfig_in_def
    by (intro post_intros)
      (auto dest!: al_in al_out simp: bind_eq_Some_conv heap_bump heap_unlinks assms h1 mb3
        intro: fail bad good split: if_splits)
qed

lemma control_input_syn_ok:
  assumes "heap_ok s"
  shows "post good2 (control_input_syn K b s)"
proof -
  have "heap_ok s1" if "dysco_insert_rcb_control_input K b s = (r, s1)" for r s1
    using that assms
    by (auto simp: dysco_insert_rcb_control_input_def alloc_rcb_def Let_def heap_bump split: if_splits
        intro!: heap_links heap_set_rcb)
  then show ?thesis
    unfolding control_input_syn_def
    by (intro post_intros reconfig_in_ok) (auto simp: assms)
qed

lemma input_syn_ack_ok: "heap_ok s \<Longrightarrow> post good2 (control_input_syn_ack b s)"
  unfolding control_input_syn_ack_def
  by (intro post_intros) (auto intro: heap_update_out)

lemma input_ack_ok: "heap_ok s \<Longrightarrow> post good2 (control_input_ack b s)"
  unfolding control_input_ack_def
  by (intro post_intros) (auto intro: heap_update_out)

lemma input_transferred_ok: "heap_ok s \<Longrightarrow> post good3 (control_input_transferred K b s)"
  unfolding control_input_transferred_def
  by (intro post_intros) (auto intro: heap_update_out dest: postD [OF replace_leftA_ok])

lemma control_input_ok:
  assumes "heap_ok s"
  shows "post good3 (dysco_control_input K b s)"
proof -
  have 2: "post good3 (do { (r, s1) \<leftarrow> f; Some (g r, h r, s1) })" if "post good2 f"
    for f :: "(bool \<times> dstate) option" and g :: "bool \<Rightarrow> bool" and h :: "bool \<Rightarrow> skb"
    using postD [OF that] by (intro post_intros) auto
  have 3: "post good3 (do { (r, b1, s1) \<leftarrow> f; Some (True, leave_switch r b1, s1) })" if "post good3 f"
    for f :: "(bool \<times> skb \<times> dstate) option"
    using postD [OF that] by (intro post_intros) auto
  have "post good3 (case msg_of_code (m_mtype (cmsg b)) of
       Some DYSCO_SYN \<Rightarrow> do { (ok, s1) \<leftarrow> control_input_syn K b s; Some (ok, b, s1) }
     | Some DYSCO_SYN_ACK \<Rightarrow> do {
         (ret, s1) \<leftarrow> control_input_syn_ack b s; Some (True, leave_switch ret b, s1) }
     | Some DYSCO_ACK \<Rightarrow> do {
         (ret, s1) \<leftarrow> control_input_ack b s; Some (True, leave_switch ret b, s1) }
     | Some DYSCO_STATE_TRANSFERRED \<Rightarrow> do {
         (ret, b1, s1) \<leftarrow> control_input_transferred K b s;
         Some (True, leave_switch ret b1, s1) }
     | _ \<Rightarrow> Some (True, mark_verified b, s))"
  proof (cases "msg_of_code (m_mtype (cmsg b))")
    case None then show ?thesis by (simp add: post_Some assms)
  next
    case (Some m)
    show ?thesis unfolding Some
      by (cases m) (simp_all add: assms post_Some 2 3 control_input_syn_ok input_syn_ack_ok input_ack_ok input_transferred_ok)
  qed
  then show ?thesis
    unfolding dysco_control_input_def by (intro post_if post_Some) (auto simp: assms)
qed

section \<open>Policies\<close>

lemma heap_free_sc:
  assumes "heap_ok s" and "free_sc a s = Some s'"
  shows "heap_ok s'"
proof -
  have "s' = s\<lparr>scs := (scs s)(a := None)\<rparr>" using assms(2) by (simp add: free_sc_def split: if_splits)
  then show ?thesis
    by (intro heap_same [OF assms(1)]) (auto simp: node_defs dest: heap_okD(10) [OF assms(1)] split: if_splits)
qed

lemma add_policy_ok: "heap_ok s \<Longrightarrow> dysco_add_policy K m s = Some s' \<Longrightarrow> heap_ok s'"
  by (auto simp: dysco_add_policy_def alloc_sc_def Let_def heap_bump heap_set_sc split: if_splits option.splits
      elim!: heap_free_sc [rotated])

lemma del_policies_ok: "heap_ok s \<Longrightarrow> dysco_del_policies s = Some s' \<Longrightarrow> heap_ok s'"
proof (induction s rule: dysco_del_policies.induct)
  case (1 s)
  show ?case
  proof (cases "policies (dh s)")
    case Nil then show ?thesis using 1 by (simp add: dysco_del_policies.simps [of s])
  next
    case (Cons d ds)
    let ?s = "map_dh (\<lambda>h. h\<lparr>policies := ds\<rparr>) s"
    obtain s1 where s1: "free_sc (p_sc d) ?s = Some s1" "dysco_del_policies s1 = Some s'"
      using 1(3) Cons by (auto simp: dysco_del_policies.simps [of s] split: option.splits)
    have "heap_ok s1" using heap_free_sc [OF _ s1(1)] 1(2) by simp
    then show ?thesis using 1(1) [OF Cons s1(1)] s1(2) by blast
  qed
qed

section \<open>The module as a state machine\<close>

text \<open>
  One namespace: a packet comes in, a packet goes out, the daemon sends a message. A step that
  faults has no successor.
\<close>

inductive dysco_step :: "kapi \<Rightarrow> dstate \<Rightarrow> dstate \<Rightarrow> bool" for K where
  Receive: "input_ns K b s = Some (r, s') \<Longrightarrow> dysco_step K s s'"
| Send: "output_ns K b s = Some (r, s') \<Longrightarrow> sockets_exist K s \<Longrightarrow> dysco_step K s s'"
| Command: "user_kernel_ns K ty payload w_out w_in w_rec s = Some (r, s') \<Longrightarrow> dysco_step K s s'"

text \<open>What a namespace starts from: no block and empty tables.\<close>

definition no_blocks :: "dstate \<Rightarrow> bool" where
  "no_blocks s \<longleftrightarrow> outs s = Map.empty \<and> ins s = Map.empty \<and> rcbs s = Map.empty \<and> scs s = Map.empty \<and>
     (\<exists>ns sk tag. dh s = new_hashes ns sk tag)"

abbreviation reachable :: "kapi \<Rightarrow> dstate \<Rightarrow> bool" where
  "reachable K \<equiv> reach no_blocks (dysco_step K)"

inductive_cases dysco_stepE: "dysco_step K s s'"

lemma input_ns_ok: "heap_ok s \<Longrightarrow> input_ns K b s = Some (r, s') \<Longrightarrow> heap_ok s'"
  by (auto simp: input_ns_def bind_eq_Some_conv split: if_splits
      dest: postD [OF control_input_ok] postD [OF input_tcp_ok])

lemma output_ns_ok: "heap_ok s \<Longrightarrow> sockets_exist K s \<Longrightarrow> output_ns K b s = Some (r, s') \<Longrightarrow> heap_ok s'"
  by (auto simp: output_ns_def bind_eq_Some_conv split: if_splits
      dest: postD [OF control_output_ok] postD [OF output_tcp_ok])

lemma post_sum:
  "(\<And>a. x = Inl a \<Longrightarrow> post P (f a)) \<Longrightarrow> (\<And>b. x = Inr b \<Longrightarrow> post P (g b)) \<Longrightarrow>
   post P (case x of Inl a \<Rightarrow> f a | Inr b \<Rightarrow> g b)"
  by (cases x) simp_all

lemma reports_ok:
  assumes "heap_ok s"
  shows "post good2 (dysco_get_mapping K w1 w2 s)" "post good2 (dysco_get_rec_time K w1 s)"
  unfolding dysco_get_mapping_def dysco_get_rec_time_def Let_def
  by (intro post_intros post_sum; simp add: heap_bump assms)+

lemma command_ok:
  assumes "heap_ok s" and "user_kernel_ns K ty payload w1 w2 w3 s = Some (r, s')"
  shows "heap_ok s'"
proof (cases "msg_of_code ty")
  case None then show ?thesis using assms by (simp add: user_kernel_ns_def)
next
  case (Some m)
  show ?thesis using assms Some add_policy_ok [OF assms(1)] del_policies_ok [OF assms(1)]
      postD [OF reports_ok(1) [OF assms(1)]] postD [OF reports_ok(2) [OF assms(1)]]
    by (cases m) (auto simp: user_kernel_ns_def bind_eq_Some_conv)
qed

lemma step_ok: "dysco_step K s s' \<Longrightarrow> heap_ok s \<Longrightarrow> heap_ok s'"
  by (erule dysco_stepE) (auto intro: input_ns_ok output_ns_ok command_ok)

lemma start_ok: "no_blocks s \<Longrightarrow> heap_ok s"
proof -
  assume n: "no_blocks s"
  then have "out_nodes s = {}" "in_nodes s = {}" "rec_nodes s = {}"
    by (auto simp: no_blocks_def node_defs new_hashes_def ht_nodes_def)
  then show ?thesis using n by (simp add: no_blocks_def heap_defs)
qed

interpretation module: invariant_of no_blocks "dysco_step K" heap_ok for K
  by unfold_locales (auto intro: start_ok step_ok)

lemmas reachable_ok = module.reach_inv

end
