(* ===== verification/Dysco_Residue.thy ===== *)
theory Dysco_Residue
  imports Dysco_Control_In
begin

text \<open>
  The effect of the rewrites of \<^verbatim>\<open>dysco_input.c\<close> and \<^verbatim>\<open>dysco_output.c\<close> on what a receiver
  computes: \<open>tcp_residue\<close> and \<open>ip_residue\<close> are the ones' complement sums over pseudo header,
  header, data and checksum field, which are zero for a good packet. Every step of a rewrite
  is shown to keep them (the \<open>residue_\<close> and \<open>keeps_\<close> lemmas), and the three cases in which
  the code does not: a wrong carry, a timestamp at an odd offset, and SACK blocks at an odd
  offset (the latter only as the hypothesis \<open>aligned_options\<close>).
\<close>

section \<open>Sums of packet bytes\<close>

lemma split_bytes:
  fixes x :: int
  assumes "0 \<le> x" and "x < 4294967296"
  shows "x = x mod 256 + 256 * (x div 256 mod 256) + 65536 * (x div 65536 mod 256) +
    16777216 * (x div 16777216 mod 256)"
proof -
  define a where "a = x div 256"
  define b where "b = a div 256"
  define c where "c = b div 256"
  have 1: "x = 256 * a + x mod 256" by (simp add: a_def)
  have 2: "a = 256 * b + a mod 256" by (simp add: b_def)
  have 3: "b = 256 * c + b mod 256" by (simp add: c_def)
  have d: "x div 65536 = b" "x div 16777216 = c"
    using zdiv_zmult2_eq [of 256 x 256] zdiv_zmult2_eq [of 256 x 65536]
    by (simp_all add: a_def b_def c_def)
  have "c mod 256 = c"
    using assms unfolding d(2) [symmetric] by (intro mod_pos_pos_trivial) (simp_all add: div_less_iff_less_mult pos_imp_zdiv_nonneg_iff)
  with 1 2 3 show ?thesis unfolding a_def [symmetric] d by linarith
qed

lemma uint_byte: "uint (ucast (drop_bit n (w :: u32)) :: u8) = uint w div 2 ^ n mod 256"
proof -
  have "uint w mod 4294967296 = uint w" using uint_bounded [of w] by simp
  then show ?thesis
    by (simp only: unsigned_ucast_eq unsigned_drop_bit_eq) (simp add: drop_bit_eq_div take_bit_eq_mod)
qed

lemma uint_bytes:
  "uint (w :: u32) = uint (ucast w :: u8) + 256 * uint (ucast (drop_bit 8 w) :: u8) +
     65536 * uint (ucast (drop_bit 16 w) :: u8) + 16777216 * uint (ucast (drop_bit 24 w) :: u8)"
proof -
  have "0 \<le> uint w" "uint w < 4294967296" using uint_bounded [of w] by simp_all
  then have "uint w = uint w mod 256 + 256 * (uint w div 256 mod 256) +
      65536 * (uint w div 65536 mod 256) + 16777216 * (uint w div 16777216 mod 256)"
    by (rule split_bytes)
  moreover have "uint (ucast w :: u8) = uint w mod 256"
    by (simp add: unsigned_ucast_eq take_bit_eq_mod)
  moreover have "uint (ucast (drop_bit 8 w) :: u8) = uint w div 256 mod 256"
    "uint (ucast (drop_bit 16 w) :: u8) = uint w div 65536 mod 256"
    "uint (ucast (drop_bit 24 w) :: u8) = uint w div 16777216 mod 256"
    by (simp_all add: uint_byte)
  ultimately show ?thesis by presburger
qed

text \<open>The 16-bit words of a packet are aligned to even offsets: an odd byte counts 256 times.\<close>

definition byte_wt :: "nat \<Rightarrow> int" where
  "byte_wt i = (if even i then 1 else 256)"

definition data_sum :: "mem \<Rightarrow> nat \<Rightarrow> int" where
  "data_sum m n = (\<Sum>i<n. uint (m i) * byte_wt i)"

lemma data_sum_put:
  assumes "even p" and "p + 4 \<le> n"
  shows "data_sum (put32 m p w) n mod 65535 = (data_sum m n - uint (get32 m p) + uint w) mod 65535"
proof -
  let ?P = "{p, p + 1, p + 2, p + 3}"
  have sub: "?P \<subseteq> {..<n}" using assms by auto
  have split: "data_sum m' n = (\<Sum>i\<in>{..<n} - ?P. uint (m' i) * byte_wt i) +
      (uint (m' p) + 256 * uint (m' (p + 1)) + uint (m' (p + 2)) + 256 * uint (m' (p + 3)))" for m'
    unfolding data_sum_def using sum.subset_diff [OF sub, of "\<lambda>i. uint (m' i) * byte_wt i"] assms(1)
    by (simp add: byte_wt_def)
  have rest: "(\<Sum>i\<in>{..<n} - ?P. uint (put32 m p w i) * byte_wt i) = (\<Sum>i\<in>{..<n} - ?P. uint (m i) * byte_wt i)"
    by (rule sum.cong) (auto simp: put32_def)
  have old: "uint (get32 m p) = uint (m p) + 256 * uint (m (p + 1)) + 65536 * uint (m (p + 2)) + 16777216 * uint (m (p + 3))"
    using uint_bytes [of "get32 m p"] by (simp only: get32_bytes)
  have new: "uint w = uint (put32 m p w p) + 256 * uint (put32 m p w (p + 1)) +
      65536 * uint (put32 m p w (p + 2)) + 16777216 * uint (put32 m p w (p + 3))"
    using uint_bytes [of w] by (simp add: put32_def)
  define d where "d = uint (m (p + 2)) + 256 * uint (m (p + 3)) - uint (put32 m p w (p + 2)) -
    256 * uint (put32 m p w (p + 3))"
  have "data_sum (put32 m p w) n = (data_sum m n - uint (get32 m p) + uint w) + 65535 * d"
    unfolding split [of m] split [of "put32 m p w"] rest old new d_def by simp
  then show ?thesis by (metis mod_mult_self2)
qed

section \<open>The checksums of a segment\<close>

definition th_sum :: "tcphdr \<Rightarrow> int" where
  "th_sum t = uint (th_source t) + uint (th_dest t) + uint (th_seq t) + uint (th_ack_seq t) +
     16 * uint (doff t) + 256 * uint (th_flags t) + uint (window t) + uint (th_urg_ptr t)"

definition pseudo_sum :: "iphdr \<Rightarrow> int" where
  "pseudo_sum ip = uint (saddr ip) + uint (daddr ip) + 256 * uint (protocol ip) +
     uint (htons (of_int (tcp_seg_len ip)))"

definition tcp_sum :: "skb \<Rightarrow> int" where
  "tcp_sum b = pseudo_sum (iph b) + th_sum (th b) + data_sum (tdata b) (nat (tcp_seg_len (iph b) - 20))"

text \<open>What a receiver computes; the segment verifies when it is 0.\<close>

definition tcp_residue :: "skb \<Rightarrow> int" where
  "tcp_residue b = (tcp_sum b + uint (th_check (th b))) mod 65535"

definition ip_sum :: "iphdr \<Rightarrow> int" where
  "ip_sum ip = 64 + uint (ihl ip) + 256 * uint (tos ip) + uint (tot_len ip) +
     256 * uint (protocol ip) + data_sum (mem_of (ip_other ip)) (length (ip_other ip)) +
     uint (saddr ip) + uint (daddr ip)"

definition ip_residue :: "iphdr \<Rightarrow> int" where
  "ip_residue ip = (ip_sum ip + uint (ip_check ip)) mod 65535"

lemma residue_step:
  assumes "oc (NOT (c' :: u16)) = (oc (NOT (c :: u16)) - oc f + oc t) mod 65535"
    and "S' mod 65535 = (S - uint f + uint t) mod 65535"
  shows "(S' + uint c') mod 65535 = (S + uint c) mod 65535"
proof -
  have "(- uint c') mod 65535 = (- uint c - uint f + uint t) mod 65535"
  proof -
    have "(- uint c') mod 65535 = ((- uint c) mod 65535 - uint f mod 65535 + uint t mod 65535) mod 65535"
      using assms(1) unfolding oc_not16 unfolding oc_def .
    also have "\<dots> = (((- uint c) mod 65535 - uint f mod 65535) mod 65535 + uint t) mod 65535"
      by (simp only: mod_add_left_eq mod_add_right_eq)
    also have "\<dots> = (- uint c - uint f + uint t) mod 65535"
      by (simp only: mod_diff_eq mod_add_left_eq)
    finally show ?thesis .
  qed
  then have 1: "65535 dvd (- uint c') - (- uint c - uint f + uint t)"
    by (simp only: mod_eq_dvd_iff)
  have 2: "65535 dvd S' - (S - uint f + uint t)"
    using assms(2) by (simp only: mod_eq_dvd_iff)
  have eq: "(S' + uint c') - (S + uint c) =
      (S' - (S - uint f + uint t)) - ((- uint c') - (- uint c - uint f + uint t))" by simp
  show ?thesis unfolding mod_eq_dvd_iff eq by (rule dvd_diff [OF 2 1])
qed

section \<open>Every rewrite keeps the residue\<close>

text \<open>
  The residue depends on the headers, the bytes of the segment and the checksum; the length
  and the flags of the packet are never changed by a rewrite.
\<close>

definition full_csum :: "kapi \<Rightarrow> skb \<Rightarrow> bool" where
  "full_csum K b \<longleftrightarrow> csum_laws K \<and> inet_laws K \<and> ip_summed b \<noteq> CHECKSUM_PARTIAL"

lemma dysco_csum_step:
  assumes "full_csum K b"
  shows "oc (NOT (th_check (th (dysco_th_csum4 K f t p b)))) = (oc (NOT (th_check (th b))) - oc f + oc t) mod 65535"
  using assms proto_replace4_oc by (simp add: full_csum_def dysco_th_csum4_def)

lemma inet_csum_step:
  assumes "full_csum K b"
  shows "oc (NOT (th_check (th (inet_th_csum4 K f t p b)))) = (oc (NOT (th_check (th b))) - oc f + oc t) mod 65535"
    "oc (NOT (th_check (th (inet_th_csum2 K f' t' p b)))) = (oc (NOT (th_check (th b))) - oc f' + oc t') mod 65535"
  using assms by (simp_all add: full_csum_def inet_th_csum4_def inet_th_csum2_def inet_laws_def)

lemma th_csum_frame [simp]:
  "iph (dysco_th_csum4 K f t p b) = iph b" "iph (inet_th_csum4 K f t p b) = iph b"
  "iph (inet_th_csum2 K f' t' p b) = iph b"
  "tdata (inet_th_csum4 K f t p b) = tdata b" "tdata (inet_th_csum2 K f' t' p b) = tdata b"
  "ip_summed (dysco_th_csum4 K f t p b) = ip_summed b"
  "ip_summed (inet_th_csum4 K f t p b) = ip_summed b" "ip_summed (inet_th_csum2 K f' t' p b) = ip_summed b"
  "th_sum (th (dysco_th_csum4 K f t p b)) = th_sum (th b)"
  "th_sum (th (inet_th_csum4 K f t p b)) = th_sum (th b)"
  "th_sum (th (inet_th_csum2 K f' t' p b)) = th_sum (th b)"
  "doff (th (dysco_th_csum4 K f t p b)) = doff (th b)"
  "doff (th (inet_th_csum4 K f t p b)) = doff (th b)"
  "doff (th (inet_th_csum2 K f' t' p b)) = doff (th b)"
  by (simp_all add: th_csum_defs th_sum_def)

lemma full_csum_frame [simp]:
  "full_csum K (dysco_th_csum4 K' f t p b) = full_csum K b"
  "full_csum K (inet_th_csum4 K' f t p b) = full_csum K b"
  "full_csum K (inet_th_csum2 K' f' t' p b) = full_csum K b"
  by (simp_all add: full_csum_def)

lemma residue_shift_seq: "full_csum K b \<Longrightarrow> tcp_residue (th_shift_seq K d a b) = tcp_residue b"
  unfolding tcp_residue_def th_shift_seq_def Let_def
  by (simp, rule residue_step [OF dysco_csum_step [of K b "th_seq (th b)" "shift_edge d a (th_seq (th b))" False]])
    (simp_all add: tcp_sum_def th_sum_def dysco_th_csum4_def algebra_simps)

lemma residue_shift_ack: "full_csum K b \<Longrightarrow> tcp_residue (th_shift_ack K d a b) = tcp_residue b"
  unfolding tcp_residue_def th_shift_ack_def Let_def
  by (simp, rule residue_step [OF dysco_csum_step [of K b "th_ack_seq (th b)" "shift_edge d a (th_ack_seq (th b))" False]])
    (simp_all add: tcp_sum_def th_sum_def dysco_th_csum4_def algebra_simps)

lemma mod_replace:
  "x' mod m = (x - f + t) mod m \<Longrightarrow> (S - x + x') mod m = (S - f + t) mod (m :: int)"
proof -
  assume "x' mod m = (x - f + t) mod m"
  then have "(S - x + x') mod m = (S - x + (x - f + t)) mod m" by (metis mod_add_right_eq)
  then show ?thesis by (simp add: algebra_simps)
qed

lemma residue_ts_shift:
  assumes "full_csum K b" and "even ptr" and "ptr + 4 \<le> nat (tcp_seg_len (iph b) - 20)"
  shows "tcp_residue (ts_shift K ptr d a b) = tcp_residue b"
proof -
  let ?new = "shift_edge d a (get32 (tdata b) ptr)"
  have "(tcp_sum b - data_sum (tdata b) n + data_sum (put32 (tdata b) ptr ?new) n) mod 65535 =
      (tcp_sum b - uint (get32 (tdata b) ptr) + uint ?new) mod 65535"
    if "n = nat (tcp_seg_len (iph b) - 20)" for n
  proof -
    have "data_sum (put32 (tdata b) ptr ?new) n mod 65535 =
        (data_sum (tdata b) n - uint (get32 (tdata b) ptr) + uint ?new) mod 65535"
      using assms(2,3) that by (intro data_sum_put) simp_all
    then show ?thesis by (rule mod_replace)
  qed
  then show ?thesis
    unfolding tcp_residue_def ts_shift_def Let_def
    by (simp, intro residue_step [OF dysco_csum_step [OF assms(1), of "get32 (tdata b) ptr" ?new False]])
      (simp add: tcp_sum_def)
qed

lemma residue_rescale: "full_csum K b \<Longrightarrow> tcp_residue (th_rescale K i o' b) = tcp_residue b"
  unfolding tcp_residue_def th_rescale_def Let_def
  by (simp, rule residue_step [OF inet_csum_step(2) [of K b "window (th b)" "rescale_window i o' (window (th b))" False]])
    (simp_all add: tcp_sum_def th_sum_def inet_th_csum2_def algebra_simps)

lemma residue_put_window: "full_csum K b \<Longrightarrow> tcp_residue (put_window K w b) = tcp_residue b"
  unfolding tcp_residue_def put_window_def Let_def
  by (simp, rule residue_step [OF inet_csum_step(2) [of K b "window (th b)" w False]])
    (simp_all add: tcp_sum_def th_sum_def inet_th_csum2_def algebra_simps)

lemma residue_cap_ack: "full_csum K b \<Longrightarrow> tcp_residue (cap_ack K w b) = tcp_residue b"
  unfolding tcp_residue_def cap_ack_def Let_def
  by (simp, rule residue_step [OF inet_csum_step(1) [of K b "th_ack_seq (th b)" "htonl w" False]])
    (simp_all add: tcp_sum_def th_sum_def inet_th_csum4_def algebra_simps)

lemma residue_put_source: "full_csum K b \<Longrightarrow> tcp_residue (th_put_source K p b) = tcp_residue b"
  unfolding tcp_residue_def th_put_source_def Let_def
  by (simp, rule residue_step [OF inet_csum_step(2) [of K b "th_source (th b)" p False]])
    (simp_all add: tcp_sum_def th_sum_def inet_th_csum2_def algebra_simps)

lemma residue_put_dest: "full_csum K b \<Longrightarrow> tcp_residue (th_put_dest K p b) = tcp_residue b"
  unfolding tcp_residue_def th_put_dest_def Let_def
  by (simp, rule residue_step [OF inet_csum_step(2) [of K b "th_dest (th b)" p False]])
    (simp_all add: tcp_sum_def th_sum_def inet_th_csum2_def algebra_simps)

text \<open>The carry the code adds makes the 32-bit sum of two words their ones' complement sum.\<close>

lemma add_carry_oc: "uint (add_carry a b) mod 65535 = (uint a + uint b) mod 65535"
proof (cases "uint a + uint b < 4294967296")
  case True
  then have s: "uint (a + b) = uint a + uint b" using uint_add_lem [of a b] by simp
  then have "\<not> b > a + b" by (simp add: word_less_def)
  then show ?thesis using s by (simp add: add_carry_def Let_def)
next
  case False
  have s: "uint (a + b) = uint a + uint b - 4294967296"
    using False uint_bounded [of a] uint_bounded [of b] by (simp add: uint_plus_if')
  then have "b > a + b" using uint_bounded [of a] by (simp add: word_less_def)
  moreover have "uint (a + b + 1) = uint (a + b) + 1"
    using s uint_bounded [of a] uint_bounded [of b] by (simp add: uint_plus_if')
  ultimately have "uint (add_carry a b) = (uint a + uint b) + 65535 * (- 65537)"
    using s by (simp add: add_carry_def Let_def)
  then show ?thesis by (metis mod_mult_self2)
qed

lemma residue_step_mod:
  assumes "oc (NOT (c' :: u16)) = (oc (NOT (c :: u16)) - oc f + oc t) mod 65535"
    and "uint f mod 65535 = F mod 65535" and "uint t mod 65535 = T mod 65535"
  shows "(S - F + T + uint c') mod 65535 = (S + uint c) mod 65535"
proof (rule residue_step [OF assms(1)])
  have "(S - F + T) mod 65535 = (S - F mod 65535 + T mod 65535) mod 65535"
    by (metis mod_add_eq mod_diff_right_eq mod_mod_trivial)
  also have "\<dots> = (S - uint f + uint t) mod 65535"
    unfolding assms(2,3) [symmetric] by (metis mod_add_eq mod_diff_right_eq mod_mod_trivial)
  finally show "(S - F + T) mod 65535 = (S - uint f + uint t) mod 65535" .
qed

lemma addr_frame [simp]:
  "full_csum K (csum_ip4 K' f t b) = full_csum K b" "full_csum K (put_addrs sa da b) = full_csum K b"
  "th (csum_ip4 K' f t b) = th b" "th (put_addrs sa da b) = th b"
  "tdata (csum_ip4 K' f t b) = tdata b" "tdata (put_addrs sa da b) = tdata b"
  by (simp_all add: full_csum_def csum_ip4_def put_addrs_def)

lemma residue_put_addrs:
  assumes "full_csum K b" and "uint t mod 65535 = (uint sa + uint da) mod 65535"
    and "f = add_carry (saddr (iph b)) (daddr (iph b))"
  shows "tcp_residue (inet_th_csum4 K f t True (put_addrs sa da (csum_ip4 K f t b))) = tcp_residue b"
    and "ip_residue (iph (inet_th_csum4 K f t True (put_addrs sa da (csum_ip4 K f t b)))) = ip_residue (iph b)"
proof -
  let ?b = "put_addrs sa da (csum_ip4 K f t b)"
  have f: "uint f mod 65535 = (uint (saddr (iph b)) + uint (daddr (iph b))) mod 65535"
    by (simp add: assms(3) add_carry_oc)
  have c: "oc (NOT (th_check (th (inet_th_csum4 K f t True ?b)))) = (oc (NOT (th_check (th b))) - oc f + oc t) mod 65535"
    using inet_csum_step(1) [of K ?b f t True] assms(1) by simp
  have "tcp_sum (inet_th_csum4 K f t True ?b) =
      tcp_sum b - (uint (saddr (iph b)) + uint (daddr (iph b))) + (uint sa + uint da)"
    by (simp add: tcp_sum_def pseudo_sum_def put_addrs_def csum_ip4_def tcp_seg_len_def ihl_bytes_def)
  then show "tcp_residue (inet_th_csum4 K f t True ?b) = tcp_residue b"
    using residue_step_mod [OF c f assms(2)] by (simp add: tcp_residue_def)
  have i: "oc (NOT (ip_check (iph ?b))) = (oc (NOT (ip_check (iph b))) - oc f + oc t) mod 65535"
    using assms(1) csum_replace4_oc by (simp add: full_csum_def put_addrs_def csum_ip4_def)
  have "ip_sum (iph ?b) = ip_sum (iph b) - (uint (saddr (iph b)) + uint (daddr (iph b))) + (uint sa + uint da)"
    by (simp add: ip_sum_def put_addrs_def csum_ip4_def)
  then show "ip_residue (iph (inet_th_csum4 K f t True ?b)) = ip_residue (iph b)"
    using residue_step_mod [OF i f assms(2)] by (simp add: ip_residue_def)
qed

section \<open>SACK blocks and the residue\<close>

text \<open>The incremental update counts a SACK edge as an aligned word, which it is at even offsets.\<close>

definition sack_even :: "mem \<Rightarrow> nat \<Rightarrow> int \<Rightarrow> bool \<Rightarrow> bool" where
  "sack_even m p len ok = snd (tcp_options (\<lambda>_. m)
     (\<lambda>opc sz q ok. (False, ok \<and> (is_sack opc sz \<longrightarrow> even q))) p len ok)"

lemma shift_mem_beyond: "p + 8 * n \<le> i \<Longrightarrow> shift_mem d a p n m i = m i"
  by (induction n arbitrary: p m) (simp_all add: put32_def)

lemma sack_blocks_residue:
  assumes "full_csum K b" and "even p" and "p + 8 * n \<le> nat (tcp_seg_len (iph b) - 20)"
  shows "tcp_residue (fst (sack_blocks K d a p (8 * int n) (b, st))) = tcp_residue b \<and>
    full_csum K (fst (sack_blocks K d a p (8 * int n) (b, st))) \<and>
    iph (fst (sack_blocks K d a p (8 * int n) (b, st))) = iph b"
  using assms
proof (induction n arbitrary: p b st)
  case (Suc n)
  let ?x = "get32 (tdata b) p" and ?y = "get32 (tdata b) (p + 4)"
  let ?b1 = "ts_shift K p d a b"
  let ?b2 = "ts_shift K (p + 4) d a ?b1"
  have f1: "full_csum K ?b1" "full_csum K ?b2" "iph ?b1 = iph b" "iph ?b2 = iph b"
    using Suc.prems(1) by (simp_all add: ts_shift_def Let_def full_csum_def dysco_th_csum4_def)
  have same: "dysco_th_csum4 K ?y (shift_edge d a ?y) False (dysco_th_csum4 K ?x (shift_edge d a ?x) False b)
      \<lparr>tdata := put32 (put32 (tdata b) p (shift_edge d a ?x)) (p + 4) (shift_edge d a ?y)\<rparr> = ?b2"
    by (simp add: ts_shift_def Let_def get32_put32_other dysco_th_csum4_def set_csum_def)
  have r1: "tcp_residue ?b1 = tcp_residue b" using Suc.prems by (intro residue_ts_shift) simp_all
  have r2: "tcp_residue ?b2 = tcp_residue ?b1"
    using Suc.prems f1 by (intro residue_ts_shift) simp_all
  have len: "8 * int (Suc n) - 8 = 8 * int n" by simp
  have unf: "sack_blocks K d a p (8 * int (Suc n)) (b, st) = sack_blocks K d a (p + 8) (8 * int n) (?b2, count_sack st)"
    by (subst sack_blocks.simps) (simp only: Let_def len same tdata_th_csum4, simp)
  show ?case unfolding unf using Suc.IH [of ?b2 "p + 8"] Suc.prems f1 r1 r2 by simp
qed (simp add: sack_blocks.simps)

lemma sack_even_ok: "sack_even m p len ok \<Longrightarrow> ok"
  using tcp_options_inv [where P = "\<lambda>s. \<not> s" and s = ok and p = p and len = len and rd = "\<lambda>_. m"
      and h = "\<lambda>opc sz q ok. (False, ok \<and> (is_sack opc sz \<longrightarrow> even q))"]
  by (cases ok) (auto simp: sack_even_def)

lemma sack_even_opt:
  assumes "sack_even m p len True" and "0 < len" and "\<not> opt_leaves (m p) (m (p + 1)) len"
    and "m p \<noteq> TCPOPT_NOP"
  shows "sack_even m (p + unat (m (p + 1))) (len - uint (m (p + 1))) True \<and>
    (is_sack (m p) (uint (m (p + 1))) \<longrightarrow> even p)"
proof -
  have "sack_even m (p + unat (m (p + 1))) (len - uint (m (p + 1)))
      (is_sack (m p) (uint (m (p + 1))) \<longrightarrow> even (p + 2))"
    using assms unfolding sack_even_def by (simp add: tcp_options_opt Let_def)
  with sack_even_ok [OF this] show ?thesis by simp
qed

lemma sack_even_same:
  "same_bytes p (p + nat len) m m' \<Longrightarrow> sack_even m p len ok = sack_even m' p len ok"
  unfolding sack_even_def by (subst tcp_options_local) auto

definition keeps_residue :: "kapi \<Rightarrow> skb \<Rightarrow> skb \<Rightarrow> bool" where
  "keeps_residue K b b' \<longleftrightarrow> tcp_residue b' = tcp_residue b \<and> full_csum K b' \<and>
     iph b' = iph b \<and> doff (th b') = doff (th b)"

lemma keeps_residue_refl: "full_csum K b \<Longrightarrow> keeps_residue K b b"
  by (simp add: keeps_residue_def)

lemma keeps_residue_trans: "keeps_residue K b b' \<Longrightarrow> keeps_residue K b' b'' \<Longrightarrow> keeps_residue K b b''"
  by (simp add: keeps_residue_def)

lemma sack_loop_residue:
  assumes "full_csum K (fst bs)" and "sack_even (tdata (fst bs)) p len True"
    and "p + nat len \<le> nat (tcp_seg_len (iph (fst bs)) - 20)"
  shows "keeps_residue K (fst bs) (fst (snd (tcp_options (\<lambda>bs. tdata (fst bs)) (sack_handler K d a) p len bs)))"
  using assms
proof (induction p len bs rule: tcp_options_induct [where rd = "\<lambda>bs. tdata (fst bs)"])
  case (nop p len bs)
  have "sack_even (tdata (fst bs)) (p + 1) (len - 1) True"
    using nop.prems(2) nop.hyps unfolding sack_even_def by (simp add: tcp_options_nop)
  then show ?case using nop by (simp add: tcp_options_nop)
next
  case (opt p len bs)
  let ?m = "tdata (fst bs)" and ?l = "tdata (fst bs) (p + 1)"
  let ?bs = "snd (sack_handler K d a (?m p) (uint ?l) (p + 2) bs)"
  have sz: "2 \<le> unat ?l" "uint ?l \<le> len"
    using opt_size [OF opt.hyps(2,3)] by (simp_all add: unat_ge_uint)
  have ev: "sack_even ?m (p + unat ?l) (len - uint ?l) True" "is_sack (?m p) (uint ?l) \<Longrightarrow> even p"
    using sack_even_opt [OF opt.prems(2) opt.hyps] by simp_all
  have total: "p + unat ?l + nat (len - uint ?l) = p + nat len"
  proof -
    have "int (unat ?l + nat (len - uint ?l)) = len" using sz by simp
    then show ?thesis by linarith
  qed
  have k: "keeps_residue K (fst bs) (fst ?bs) \<and> same_bytes (p + unat ?l) (p + nat len) ?m (tdata (fst ?bs))"
  proof (cases "is_sack (?m p) (uint ?l)")
    case True
    then obtain n where n: "nat ((uint ?l - 2) div 8) = n" "2 + 8 * n = unat ?l" by (rule sack_body)
    have "uint ?l = int (unat ?l)" by simp
    then have u: "uint ?l - 2 = 8 * int n" using n(2) by linarith
    have b: "fst ?bs = fst (sack_blocks K d a (p + 2) (8 * int n) (fst bs, snd bs))"
      using True u by (simp add: sack_handler_def)
    have len: "p + 2 + 8 * n \<le> nat (tcp_seg_len (iph (fst bs)) - 20)"
      using n(2) total opt.prems(3) by linarith
    have "tdata (fst ?bs) = shift_mem d a (p + 2) n ?m" unfolding b by (rule sack_blocks_mem)
    then have "same_bytes (p + unat ?l) (p + nat len) ?m (tdata (fst ?bs))"
      using n(2) shift_mem_beyond [of "p + 2" n _ d a ?m] by (simp add: same_bytes_def)
    moreover have "keeps_residue K (fst bs) (fst ?bs)"
      unfolding b keeps_residue_def
      using sack_blocks_residue [of K "fst bs" "p + 2" n d a "snd bs"] opt.prems(1) ev(2) True len
        th_sack_blocks [of K d a "p + 2" "8 * int n" "(fst bs, snd bs)"] by simp
    ultimately show ?thesis by simp
  next
    case False
    then show ?thesis using opt.prems(1)
      by (simp add: sack_handler_def keeps_residue_refl same_bytes_def)
  qed
  have "keeps_residue K (fst ?bs) (fst (snd (tcp_options (\<lambda>bs. tdata (fst bs)) (sack_handler K d a)
      (p + unat ?l) (len - uint ?l) ?bs)))"
  proof (rule opt.IH)
    show "full_csum K (fst ?bs)" using k by (simp add: keeps_residue_def)
    show "sack_even (tdata (fst ?bs)) (p + unat ?l) (len - uint ?l) True"
    proof -
      have "same_bytes (p + unat ?l) (p + unat ?l + nat (len - uint ?l)) ?m (tdata (fst ?bs))"
        using k by (simp only: total)
      from sack_even_same [OF this] show ?thesis using ev(1) by simp
    qed
    show "p + unat ?l + nat (len - uint ?l) \<le> nat (tcp_seg_len (iph (fst ?bs)) - 20)"
      using k total opt.prems(3) by (simp add: keeps_residue_def)
  qed
  note rest = keeps_residue_trans [OF conjunct1 [OF k] this]
  have "snd (tcp_options (\<lambda>bs. tdata (fst bs)) (sack_handler K d a) p len bs) =
      snd (tcp_options (\<lambda>bs. tdata (fst bs)) (sack_handler K d a) (p + unat ?l) (len - uint ?l) ?bs)"
    using opt.hyps by (simp add: tcp_options_opt sack_handler_def Let_def)
  then show ?case using rest by (simp only:)
qed (simp_all add: tcp_options_leave keeps_residue_refl)

lemma sack_residue:
  assumes "full_csum K (fst bs)" and "sack_even (tdata (fst bs)) 0 (opt_len (th (fst bs))) True"
    and "doff_bytes (th (fst bs)) \<le> tcp_seg_len (iph (fst bs))"
  shows "keeps_residue K (fst bs) (fst (dysco_tcp_sack K d a bs))"
  unfolding dysco_tcp_sack_def using assms
  by (intro sack_loop_residue) (simp_all add: opt_len_def)

section \<open>Whole rewrites\<close>

lemma step_frames [simp]:
  "full_csum K (th_shift_seq K' d a b) = full_csum K b" "iph (th_shift_seq K' d a b) = iph b"
  "doff (th (th_shift_seq K' d a b)) = doff (th b)" "tdata (th_shift_seq K' d a b) = tdata b"
  "full_csum K (th_shift_ack K' d a b) = full_csum K b" "iph (th_shift_ack K' d a b) = iph b"
  "doff (th (th_shift_ack K' d a b)) = doff (th b)" "tdata (th_shift_ack K' d a b) = tdata b"
  "full_csum K (ts_shift K' p d a b) = full_csum K b" "iph (ts_shift K' p d a b) = iph b"
  "doff (th (ts_shift K' p d a b)) = doff (th b)"
  "full_csum K (th_rescale K' i j b) = full_csum K b" "iph (th_rescale K' i j b) = iph b"
  "doff (th (th_rescale K' i j b)) = doff (th b)" "tdata (th_rescale K' i j b) = tdata b"
  "full_csum K (th_put_source K' q b) = full_csum K b" "iph (th_put_source K' q b) = iph b"
  "doff (th (th_put_source K' q b)) = doff (th b)" "tdata (th_put_source K' q b) = tdata b"
  "full_csum K (th_put_dest K' q b) = full_csum K b" "iph (th_put_dest K' q b) = iph b"
  "doff (th (th_put_dest K' q b)) = doff (th b)" "tdata (th_put_dest K' q b) = tdata b"
  "full_csum K (put_mac nh b) = full_csum K b" "iph (put_mac nh b) = iph b" "th (put_mac nh b) = th b"
  "tdata (put_mac nh b) = tdata b"
  by (simp_all add: th_shift_seq_def th_shift_ack_def ts_shift_def th_rescale_def th_put_source_def
      th_put_dest_def put_mac_def Let_def full_csum_def)

lemma residue_put_mac [simp]: "tcp_residue (put_mac nh b) = tcp_residue b"
  by (simp add: tcp_residue_def tcp_sum_def)

lemma keeps_shift_seq: "full_csum K b \<Longrightarrow> keeps_residue K b (th_shift_seq K d a b)"
  by (simp add: keeps_residue_def residue_shift_seq)

lemma keeps_shift_ack: "full_csum K b \<Longrightarrow> keeps_residue K b (th_shift_ack K d a b)"
  by (simp add: keeps_residue_def residue_shift_ack)

lemma keeps_rescale: "full_csum K b \<Longrightarrow> keeps_residue K b (th_rescale K i j b)"
  by (simp add: keeps_residue_def residue_rescale)

text \<open>
  Timestamps at an even offset: four bytes of an odd one straddle the words of the sum.
\<close>

definition ts_even :: "tcphdr \<Rightarrow> mem \<Rightarrow> bool" where
  "ts_even t m = (case dysco_get_ts_option t m of None \<Rightarrow> True | Some q \<Rightarrow> even q)"

text \<open>The options of a packet that the incremental updates count right: complete and aligned.\<close>

definition aligned_options :: "skb \<Rightarrow> bool" where
  "aligned_options b \<longleftrightarrow> doff_bytes (th b) \<le> tcp_seg_len (iph b) \<and>
     sack_even (tdata b) 0 (opt_len (th b)) True \<and> ts_even (th b) (tdata b)"

lemma get_ts_doff: "doff t = doff t' \<Longrightarrow> dysco_get_ts_option t m = dysco_get_ts_option t' m"
  by (simp add: dysco_get_ts_option_def opt_len_def doff_bytes_def)

lemma keeps_ts:
  assumes "full_csum K (fst bs)" and "doff_bytes (th (fst bs)) \<le> tcp_seg_len (iph (fst bs))"
    and "ts_even (th (fst bs)) (tdata (fst bs))"
  shows "keeps_residue K (fst bs) (fst (ts_rewrite K d a d' a' bs))"
proof (cases "dysco_get_ts_option (th (fst bs)) (tdata (fst bs))")
  case None
  then show ?thesis using assms(1) by (simp add: ts_rewrite_def keeps_residue_refl)
next
  case (Some q)
  have q: "even q" "int q + 8 \<le> opt_len (th (fst bs))"
    using assms(3) Some get_ts_option_in_header [OF Some] by (simp_all add: ts_even_def)
  then have n: "q + 8 \<le> nat (tcp_seg_len (iph (fst bs)) - 20)"
    using assms(2) by (simp add: opt_len_def)
  have 1: "keeps_residue K b (ts_shift K q e f b)" if "full_csum K b" "iph b = iph (fst bs)" for b e f
    using that n q(1) residue_ts_shift [of K b q e f] by (simp add: keeps_residue_def)
  have 2: "keeps_residue K b (ts_shift K (q + 4) e f b)" if "full_csum K b" "iph b = iph (fst bs)" for b e f
    using that n q(1) residue_ts_shift [of K b "q + 4" e f] by (simp add: keeps_residue_def)
  show ?thesis
    using 1 [of "fst bs"] 2 [of "fst bs"] 2 [of "ts_shift K q d a (fst bs)"] assms(1)
    by (auto simp: ts_rewrite_def Some Let_def keeps_residue_def)
qed

text \<open>A search that looks at kinds and lengths only is not disturbed by the SACK translation.\<close>

lemma tcp_options_same:
  "same_bytes p (p + nat len) m m' \<Longrightarrow> tcp_options (\<lambda>_. m) h p len s = tcp_options (\<lambda>_. m') h p len s"
  by (rule tcp_options_local) simp_all

lemma options_after_sack:
  "tcp_options (\<lambda>_. sack_mem d a p len m) h p len s = tcp_options (\<lambda>_. m) h p len s"
proof (induction p len m arbitrary: s rule: tcp_options_induct [where rd = "\<lambda>m. m"])
  case (nop p len m)
  have "sack_mem d a p len m p = TCPOPT_NOP"
    using nop.hyps above_get [OF above_sack_mem, of p "p + 1" d a "len - 1" m] by (simp add: sack_mem_nop)
  then show ?case using nop by (simp add: tcp_options_nop sack_mem_nop)
next
  case (opt p len m)
  let ?l = "m (p + 1)"
  let ?F = "sack_mem d a (p + unat ?l) (len - uint ?l)"
  have sz: "2 \<le> unat ?l" "uint ?l \<le> len"
    using opt_size [OF opt.hyps(2,3)] by (simp_all add: unat_ge_uint)
  obtain n where n: "2 + 8 * n \<le> unat ?l"
    "\<And>d a q m'. snd (sack_mem_handler d a (m p) (uint ?l) q m') = shift_mem d a q n m'"
    using sack_handler_shift [OF sz(1), of "m p"] by blast
  define M where "M = sack_mem d a p len m"
  have F: "above (p + unat ?l) ?F" by (rule above_sack_mem)
  have S: "above (p + 2) (shift_mem d a (p + 2) n)" by (rule above_shift_mem)
  have r: "M = shift_mem d a (p + 2) n (?F m)"
    using opt.hyps above_shift_comm [OF F, of "p + 2" n] n by (simp add: M_def sack_mem_opt)
  have b: "M p = m p" "M (p + 1) = ?l"
    using sz above_get [OF F, of p m] above_get [OF F, of "p + 1" m]
      above_get [OF S, of p "?F m"] above_get [OF S, of "p + 1" "?F m"] by (simp_all add: r)
  have "M i = ?F m i" if "p + unat ?l \<le> i" for i
    using that n(1) shift_mem_beyond [of "p + 2" n i d a "?F m"] by (simp add: r)
  then have "same_bytes (p + unat ?l) (p + unat ?l + nat (len - uint ?l)) M (?F m)"
    by (simp add: same_bytes_def)
  then have "tcp_options (\<lambda>_. M) h (p + unat ?l) (len - uint ?l) s' =
      tcp_options (\<lambda>_. m) h (p + unat ?l) (len - uint ?l) s'" for s'
    using opt.IH [of m s'] tcp_options_same by metis
  then show ?case using opt.hyps b unfolding M_def [symmetric]
    by (simp add: tcp_options_opt Let_def split_beta)
qed (simp_all add: sack_mem_end sack_mem_leave)

lemma ts_even_after_sack:
  assumes "ts_even (th b) (tdata b)"
  shows "ts_even (th (fst (dysco_tcp_sack K d a (b, st)))) (tdata (fst (dysco_tcp_sack K d a (b, st))))"
proof -
  have "dysco_get_ts_option (th (fst (dysco_tcp_sack K d a (b, st)))) m = dysco_get_ts_option (th b) m" for m
    using opt_len_sack [of K d a "(b, st)"] by (simp add: dysco_get_ts_option_def)
  then show ?thesis
    using assms by (simp add: ts_even_def dysco_tcp_sack_mem dysco_get_ts_option_def options_after_sack)
qed

text \<open>The acknowledgment, timestamp and window steps that both directions share.\<close>

definition ack_step :: "kapi \<Rightarrow> u32 \<Rightarrow> bool \<Rightarrow> bool \<Rightarrow> skb \<times> rewrite_stats \<Rightarrow> skb \<times> rewrite_stats" where
  "ack_step K d a sack bs = (if d \<noteq> 0 then
     let bs1 = (if sack then dysco_tcp_sack K d a bs else bs)
     in (th_shift_ack K d a (fst bs1), snd bs1) else bs)"

lemma in_ack_step: "dysco_in_rewrite_ack K c = ack_step K (i_ack_delta c) (i_ack_add c) (i_sack_ok c)"
  by (simp add: fun_eq_iff dysco_in_rewrite_ack_def ack_step_def)

lemma out_ack_step: "dysco_out_rewrite_ack K c = ack_step K (o_ack_delta c) (o_ack_add c) (o_sack_ok c)"
  by (simp add: fun_eq_iff dysco_out_rewrite_ack_def ack_step_def)

lemma keeps_ack_step:
  assumes "full_csum K (fst bs)" and "aligned_options (fst bs)"
  shows "keeps_residue K (fst bs) (fst (ack_step K d a sack bs)) \<and>
    ts_even (th (fst (ack_step K d a sack bs))) (tdata (fst (ack_step K d a sack bs)))"
proof -
  obtain b st where bs: "bs = (b, st)" by fastforce
  have s: "keeps_residue K b (fst (dysco_tcp_sack K d a (b, st)))"
    using sack_residue [of K "(b, st)" d a] assms by (simp add: bs aligned_options_def)
  then have "keeps_residue K b (th_shift_ack K d a (fst (dysco_tcp_sack K d a (b, st))))"
    using keeps_shift_ack keeps_residue_trans by (metis keeps_residue_def)
  moreover have "ts_even (th (th_shift_ack K d a x)) (tdata (th_shift_ack K d a x)) = ts_even (th x) (tdata x)" for x
    using get_ts_doff [of "th (th_shift_ack K d a x)" "th x"] by (simp add: ts_even_def)
  ultimately show ?thesis
    using assms ts_even_after_sack [of b K d a st] keeps_shift_ack [of K b d a] keeps_residue_refl [of K b]
    by (simp add: ack_step_def bs aligned_options_def Let_def)
qed

definition tail_steps :: "kapi \<Rightarrow> u32 \<Rightarrow> bool \<Rightarrow> bool \<Rightarrow> bool \<Rightarrow> u32 \<Rightarrow> bool \<Rightarrow> u32 \<Rightarrow> bool \<Rightarrow> bool \<Rightarrow>
    u16 \<Rightarrow> u16 \<Rightarrow> skb \<times> rewrite_stats \<Rightarrow> skb \<times> rewrite_stats" where
  "tail_steps K d a sack ts e f e' f' ws i j bs = (
     let bs2 = ack_step K d a sack bs;
         bs3 = (if ts then ts_rewrite K e f e' f' bs2 else bs2)
     in if ws then (th_rescale K i j (fst bs3), snd bs3) else bs3)"

lemma keeps_tail:
  assumes "full_csum K (fst bs)" and "aligned_options (fst bs)"
  shows "keeps_residue K (fst bs) (fst (tail_steps K d a sack ts e f e' f' ws i j bs))"
proof -
  define bs2 where "bs2 = ack_step K d a sack bs"
  define bs3 where "bs3 = (if ts then ts_rewrite K e f e' f' bs2 else bs2)"
  have 2: "keeps_residue K (fst bs) (fst bs2)" "ts_even (th (fst bs2)) (tdata (fst bs2))"
    using keeps_ack_step [OF assms(1,2)] by (simp_all add: bs2_def)
  have len: "doff_bytes (th (fst bs2)) \<le> tcp_seg_len (iph (fst bs2))"
    using assms(2) 2(1) by (simp add: aligned_options_def keeps_residue_def doff_bytes_def)
  have 3: "keeps_residue K (fst bs) (fst bs3)"
  proof (cases ts)
    case True
    have "keeps_residue K (fst bs2) (fst bs3)"
      using keeps_ts [of K bs2 e f e' f'] 2 len True by (simp add: bs3_def keeps_residue_def)
    then show ?thesis using 2(1) keeps_residue_trans by metis
  qed (use 2(1) bs3_def in simp)
  moreover have "keeps_residue K (fst bs) (th_rescale K i j (fst bs3))"
    using 3 keeps_rescale [of K "fst bs3" i j] by (simp add: keeps_residue_def)
  ultimately show ?thesis
    by (simp add: tail_steps_def Let_def flip: bs2_def bs3_def)
qed

lemma in_tail_steps:
  "dysco_in_hdr_rewrite_csum K c (b, st) =
     tail_steps K (i_ack_delta c) (i_ack_add c) (i_sack_ok c) (i_ts_ok c) (i_ts_delta c)
       (i_ts_add c) (i_tsr_delta c) (i_tsr_add c) (i_ws_ok c \<and> i_ws_delta c \<noteq> 0) (i_ws_in c)
       (i_ws_out c) (dysco_in_rewrite_seq K c (in_put_tuple K c b), st)"
  by (simp add: dysco_in_hdr_rewrite_csum_def tail_steps_def in_ack_step dysco_in_rewrite_ts_def
      dysco_in_rewrite_rcv_wnd_def Let_def)

lemma out_tail_steps:
  "out_rewrites K c (b, st) =
     tail_steps K (o_ack_delta c) (o_ack_add c) (o_sack_ok c) (o_ts_ok c) (o_ts_delta c)
       (o_ts_add c) (o_tsr_delta c) (o_tsr_add c) (o_ws_ok c \<and> o_ws_delta c \<noteq> 0) (o_ws_in c)
       (o_ws_out c) (dysco_out_rewrite_seq K c b, st)"
  by (simp add: out_rewrites_def tail_steps_def out_ack_step dysco_out_rewrite_ts_def
      dysco_out_rewrite_rcv_wnd_def Let_def)

lemma put_tuple_residue:
  assumes "full_csum K b" and "uint t mod 65535 = (uint sa + uint da) mod 65535"
    and "b1 = inet_th_csum4 K (add_carry (saddr (iph b)) (daddr (iph b))) t True
      (put_addrs sa da (csum_ip4 K (add_carry (saddr (iph b)) (daddr (iph b))) t b))"
    and "b2 = th_put_dest K q (th_put_source K p b1)"
  shows "tcp_residue b2 = tcp_residue b" "ip_residue (iph b2) = ip_residue (iph b)" "full_csum K b2"
    "tcp_seg_len (iph b2) = tcp_seg_len (iph b)" "doff (th b2) = doff (th b)" "tdata b2 = tdata b"
proof -
  have f: "full_csum K b1" using assms(1,3) by simp
  show "tcp_residue b2 = tcp_residue b" "ip_residue (iph b2) = ip_residue (iph b)" "full_csum K b2"
    "tcp_seg_len (iph b2) = tcp_seg_len (iph b)" "doff (th b2) = doff (th b)" "tdata b2 = tdata b"
    using residue_put_addrs [OF assms(1,2) refl] f unfolding assms(4)
    by (simp_all add: residue_put_dest residue_put_source assms(3))
      (simp_all add: put_addrs_def csum_ip4_def tcp_seg_len_def ihl_bytes_def)
qed

lemma aligned_cong:
  "tcp_seg_len (iph b') = tcp_seg_len (iph b) \<Longrightarrow> doff (th b') = doff (th b) \<Longrightarrow> tdata b' = tdata b \<Longrightarrow>
     aligned_options b' = aligned_options b"
  using get_ts_doff [of "th b'" "th b"]
  by (simp add: aligned_options_def opt_len_def doff_bytes_def ts_even_def)

lemma keeps_opt_seq:
  "full_csum K b \<Longrightarrow> b' = (if d \<noteq> 0 then th_shift_seq K d a b else b) \<Longrightarrow>
     keeps_residue K b b' \<and> tdata b' = tdata b"
  by (simp add: keeps_shift_seq keeps_residue_refl)

text \<open>
  The two control blocks whose carries agree: the comparison of the input direction reads
  \<open>sub.dip\<close> where it should read the address it added.
\<close>

definition carry_ok :: "dysco_cb_in \<Rightarrow> bool" where
  "carry_ok c \<longleftrightarrow> (let to = sip (i_super c) + dip (i_super c)
     in (dip (i_sub c) > to) = (dip (i_super c) > to))"

lemma in_addr_sum_oc: "carry_ok c \<Longrightarrow> uint (in_addr_sum c) mod 65535 =
    (uint (sip (i_super c)) + uint (dip (i_super c))) mod 65535"
  using add_carry_oc [of "sip (i_super c)" "dip (i_super c)"]
  by (simp add: carry_ok_def in_addr_sum_def add_carry_def Let_def)

text \<open>
  C1. A packet rewritten on input carries correct checksums exactly when it did before, provided the
  hardware is not left to complete the checksum (\<^verbatim>\<open>CHECKSUM_PARTIAL\<close>), its options are complete with
  SACK blocks and timestamps at even offsets, and the carry of the address sum is computed right:
  the residues of the IP and of the TCP checksum do not change under the complete rewrite
  (addresses, ports, sequence and acknowledgment numbers, SACK blocks, timestamps, window),
  for every control block. The conditions are needed: further below, a timestamp at an odd offset
  and a wrong carry are shown to break the checksums.
\<close>

theorem in_rewrite_keeps_checksums:
  assumes "full_csum K b" and "aligned_options b" and "carry_ok c"
  shows "tcp_residue (fst (dysco_in_hdr_rewrite_csum K c (b, st))) = tcp_residue b \<and>
    ip_residue (iph (fst (dysco_in_hdr_rewrite_csum K c (b, st)))) = ip_residue (iph b)"
proof -
  let ?b1 = "in_put_tuple K c b"
  let ?b2 = "dysco_in_rewrite_seq K c ?b1"
  have 1: "tcp_residue ?b1 = tcp_residue b" "ip_residue (iph ?b1) = ip_residue (iph b)" "full_csum K ?b1"
    "tcp_seg_len (iph ?b1) = tcp_seg_len (iph b)" "doff (th ?b1) = doff (th b)" "tdata ?b1 = tdata b"
    using put_tuple_residue [OF assms(1) in_addr_sum_oc [OF assms(3)] refl refl]
    by (simp_all add: in_put_tuple_def Let_def)
  have 2: "keeps_residue K ?b1 ?b2" "tdata ?b2 = tdata ?b1"
    using keeps_opt_seq [OF 1(3), of ?b2] by (simp_all add: dysco_in_rewrite_seq_def)
  have al: "aligned_options ?b2"
    using assms(2) 1 2 aligned_cong [of ?b2 b] by (simp add: keeps_residue_def)
  have "keeps_residue K ?b2 (fst (dysco_in_hdr_rewrite_csum K c (b, st)))"
    using keeps_tail [of K "(?b2, st)"] 2(1) al by (simp add: in_tail_steps keeps_residue_def)
  with 1 2 show ?thesis by (simp add: keeps_residue_def)
qed

lemma out_put_tuple_residue:
  assumes "full_csum K b"
  shows "tcp_residue (out_put_tuple K c b) = tcp_residue b"
    "ip_residue (iph (out_put_tuple K c b)) = ip_residue (iph b)"
  using put_tuple_residue(1,2) [OF assms add_carry_oc refl refl]
  by (simp_all add: out_put_tuple_def Let_def)

lemma out_rewrites_residue:
  assumes "full_csum K b" and "aligned_options b"
  shows "keeps_residue K b (fst (out_rewrites K c (b, st)))"
proof -
  let ?b2 = "dysco_out_rewrite_seq K c b"
  have 2: "keeps_residue K b ?b2" "tdata ?b2 = tdata b"
    using keeps_opt_seq [OF assms(1), of ?b2] by (simp_all add: dysco_out_rewrite_seq_def)
  have "aligned_options ?b2" using assms(2) 2 aligned_cong [of ?b2 b] by (simp add: keeps_residue_def)
  then have "keeps_residue K ?b2 (fst (out_rewrites K c (b, st)))"
    using keeps_tail [of K "(?b2, st)"] 2(1) by (simp add: out_tail_steps keeps_residue_def)
  then show ?thesis using 2(1) keeps_residue_trans by metis
qed

lemma out_hdr_residue:
  assumes "full_csum K b"
  shows "tcp_residue (dysco_out_hdr_rewrite_csum K c b) = tcp_residue b \<and>
    ip_residue (iph (dysco_out_hdr_rewrite_csum K c b)) = ip_residue (iph b)"
  using out_put_tuple_residue [OF assms] by (simp add: dysco_out_hdr_rewrite_csum_def)

lemma pick_path_ack_residue:
  assumes "dysco_pick_path_ack K p b s = Some (q, b1, s1)" and "full_csum K b"
  shows "keeps_residue K b b1 \<and> tdata b1 = tdata b"
proof -
  have cap: "keeps_residue K b (cap_ack K w b) \<and> tdata (cap_ack K w b) = tdata b" for w
    using assms(2) residue_cap_ack [OF assms(2)]
    by (simp add: keeps_residue_def cap_ack_def Let_def full_csum_def)
  show ?thesis
    using assms(1) cap keeps_residue_refl [OF assms(2)]
    by (auto simp: dysco_pick_path_ack_def Let_def bind_eq_Some_conv split: if_splits)
qed

lemma choose_path_residue:
  assumes "out_choose_path K p b s = Some (q, b1, s1)" and "full_csum K b"
  shows "keeps_residue K b b1 \<and> tdata b1 = tdata b"
  using assms(1) pick_path_ack_residue [of K p b s q b1 s1] keeps_residue_refl [OF assms(2)] assms(2)
  by (auto simp: out_choose_path_def Let_def bind_eq_Some_conv split: if_splits)

text \<open>
  C2. The same on output, for the whole of \<open>dysco_out_translate\<close> and for packets of the same kind
  (the checksum not left to the hardware, SACK blocks and timestamps at even offsets): whichever
  path it picks, and whether or not it caps the acknowledgment number, the packet it sends has the
  checksum residues of the packet it was given.
\<close>

theorem out_translate_keeps_checksums:
  assumes "dysco_out_translate K p b s = Some (b', s')" and "full_csum K b" and "aligned_options b"
  shows "tcp_residue b' = tcp_residue b \<and> ip_residue (iph b') = ip_residue (iph b)"
proof -
  obtain c where c: "outs s p = Some c"
    using assms(1) by (auto simp: dysco_out_translate_def bind_eq_Some_conv)
  show ?thesis
  proof (cases "o_other_path c = None")
    case True
    with assms c out_hdr_residue [OF assms(2)] show ?thesis
      by (auto simp: dysco_out_translate_def Let_def)
  next
    case False
    then obtain q b1 s1 d where q: "out_choose_path K p b s = Some (q, b1, s1)" "outs s1 q = Some d"
      and b': "b' = dysco_out_hdr_rewrite_csum K d (fst (out_rewrites K d (b1, stats s1)))"
      using assms(1) c
      by (auto simp: dysco_out_translate_def Let_def bind_eq_Some_conv with_stats_def split: prod.splits)
    have 1: "keeps_residue K b b1" "tdata b1 = tdata b"
      using choose_path_residue [OF q(1) assms(2)] by simp_all
    then have "aligned_options b1" using assms(3) aligned_cong [of b1 b] by (simp add: keeps_residue_def)
    then have "keeps_residue K b1 (fst (out_rewrites K d (b1, stats s1)))"
      using 1 out_rewrites_residue [of K b1 d "stats s1"] by (simp add: keeps_residue_def)
    then have 2: "keeps_residue K b (fst (out_rewrites K d (b1, stats s1)))"
      using 1(1) keeps_residue_trans by metis
    then show ?thesis
      using out_hdr_residue [of K "fst (out_rewrites K d (b1, stats s1))" d] b' by (simp add: keeps_residue_def)
  qed
qed

section \<open>A carry computed wrong\<close>


lemma residue_step_gen:
  assumes "oc (NOT (c' :: u16)) = (oc (NOT (c :: u16)) - oc f + oc t) mod 65535"
    and "uint f mod 65535 = F mod 65535"
  shows "(S - F + T + uint c') mod 65535 = (S + uint c + (T - uint t)) mod 65535"
proof -
  have "(S - F + uint t + uint c') mod 65535 = (S + uint c) mod 65535"
    by (rule residue_step_mod [OF assms refl])
  then have "((S - F + uint t + uint c') + (T - uint t)) mod 65535 = ((S + uint c) + (T - uint t)) mod 65535"
    by (metis mod_add_left_eq)
  then show ?thesis by (simp add: algebra_simps)
qed

lemma residue_put_addrs_gen:
  assumes "full_csum K b" and "f = add_carry (saddr (iph b)) (daddr (iph b))"
    and "b' = inet_th_csum4 K f t True (put_addrs sa da (csum_ip4 K f t b))"
  shows "tcp_residue b' = (tcp_residue b + (uint sa + uint da - uint t)) mod 65535"
    and "ip_residue (iph b') = (ip_residue (iph b) + (uint sa + uint da - uint t)) mod 65535"
proof -
  let ?b = "put_addrs sa da (csum_ip4 K f t b)"
  have f: "uint f mod 65535 = (uint (saddr (iph b)) + uint (daddr (iph b))) mod 65535"
    by (simp add: assms(2) add_carry_oc)
  have c: "oc (NOT (th_check (th b'))) = (oc (NOT (th_check (th b))) - oc f + oc t) mod 65535"
    using inet_csum_step(1) [of K ?b f t True] assms by simp
  have "tcp_sum b' = tcp_sum b - (uint (saddr (iph b)) + uint (daddr (iph b))) + (uint sa + uint da)"
    by (simp add: assms(3) tcp_sum_def pseudo_sum_def put_addrs_def csum_ip4_def tcp_seg_len_def ihl_bytes_def)
  then show "tcp_residue b' = (tcp_residue b + (uint sa + uint da - uint t)) mod 65535"
    using residue_step_gen [OF c f, of "tcp_sum b" "uint sa + uint da"]
    by (simp add: tcp_residue_def mod_add_left_eq)
  have i: "oc (NOT (ip_check (iph ?b))) = (oc (NOT (ip_check (iph b))) - oc f + oc t) mod 65535"
    using assms(1) csum_replace4_oc by (simp add: full_csum_def put_addrs_def csum_ip4_def)
  have "ip_sum (iph ?b) = ip_sum (iph b) - (uint (saddr (iph b)) + uint (daddr (iph b))) + (uint sa + uint da)"
    by (simp add: ip_sum_def put_addrs_def csum_ip4_def)
  then show "ip_residue (iph b') = (ip_residue (iph b) + (uint sa + uint da - uint t)) mod 65535"
    using residue_step_gen [OF i f, of "ip_sum (iph b)" "uint sa + uint da"]
    by (simp add: ip_residue_def assms(3) mod_add_left_eq)
qed

lemma mod_shift_neq: "x mod 65535 = (x + d) mod 65535 \<Longrightarrow> (65535::int) dvd d"
  by (metis add_diff_cancel_left' dvd_minus_iff minus_diff_eq mod_eq_dvd_iff)

lemma plain_sum:
  "uint (a + b :: u32) = uint a + uint b - (if b > a + b then 4294967296 else 0)"
proof (cases "uint a + uint b < 4294967296")
  case True
  then have s: "uint (a + b) = uint a + uint b" using uint_add_lem [of a b] by simp
  then have "\<not> b > a + b" by (simp add: word_less_def)
  then show ?thesis using s by simp
next
  case False
  have s: "uint (a + b) = uint a + uint b - 4294967296"
    using False uint_bounded [of a] uint_bounded [of b] by (simp add: uint_plus_if')
  then have "b > a + b" using uint_bounded [of a] by (simp add: word_less_def)
  then show ?thesis using s by simp
qed

lemma wrong_carry:
  assumes "\<not> carry_ok c"
  shows "\<not> 65535 dvd (uint (sip (i_super c)) + uint (dip (i_super c)) - uint (in_addr_sum c))"
proof -
  let ?a = "sip (i_super c)" and ?b = "dip (i_super c)" and ?d = "dip (i_sub c)"
  have 1: "uint (?a + ?b + 1) = uint (?a + ?b) + 1" if "?d > ?a + ?b"
  proof -
    have "uint (?a + ?b) < uint ?d" using that by (simp add: word_less_def)
    then have "uint (?a + ?b) + 1 < 4294967296" using uint_bounded [of ?d] by simp
    then show ?thesis using uint_add_lem [of "?a + ?b" 1] by simp
  qed
  consider "?d > ?a + ?b" "\<not> ?b > ?a + ?b" | "\<not> ?d > ?a + ?b" "?b > ?a + ?b"
    using assms by (auto simp: carry_ok_def Let_def)
  then show ?thesis
  proof cases
    case 1
    then have "uint ?a + uint ?b - uint (in_addr_sum c) = - 1"
      using \<open>?d > ?a + ?b \<Longrightarrow> _\<close> plain_sum [of ?a ?b] by (simp add: in_addr_sum_def Let_def)
    then show ?thesis by simp
  next
    case 2
    then have "uint ?a + uint ?b - uint (in_addr_sum c) = 65535 * 65537 + 1"
      using plain_sum [of ?a ?b] by (simp add: in_addr_sum_def Let_def)
    then show ?thesis by simp
  qed
qed


text \<open>
  C3. The wrong comparison in the input direction breaks the checksums: whenever the carry
  of the address sum that \<open>dysco_in_hdr_rewrite_csum\<close> reads off \<open>sub.dip\<close> is not the carry of
  the addition it has just made, the rewritten packet has neither the IP nor the TCP checksum
  residue of the packet that came in, so a good packet is delivered with bad checksums.
\<close>

theorem in_rewrite_breaks_checksum:
  assumes "full_csum K b" and "aligned_options b" and "\<not> carry_ok c"
  shows "tcp_residue (fst (dysco_in_hdr_rewrite_csum K c (b, st))) \<noteq> tcp_residue b \<and>
    ip_residue (iph (fst (dysco_in_hdr_rewrite_csum K c (b, st)))) \<noteq> ip_residue (iph b)"
proof -
  let ?d = "uint (sip (i_super c)) + uint (dip (i_super c)) - uint (in_addr_sum c)"
  let ?b0 = "inet_th_csum4 K (add_carry (saddr (iph b)) (daddr (iph b))) (in_addr_sum c) True
    (put_addrs (sip (i_super c)) (dip (i_super c))
      (csum_ip4 K (add_carry (saddr (iph b)) (daddr (iph b))) (in_addr_sum c) b))"
  let ?b1 = "in_put_tuple K c b"
  let ?b2 = "dysco_in_rewrite_seq K c ?b1"
  have b1: "?b1 = th_put_dest K (dport (i_super c)) (th_put_source K (sport (i_super c)) ?b0)"
    by (simp add: in_put_tuple_def Let_def)
  have f0: "full_csum K ?b0" using assms(1) by simp
  have 0: "tcp_residue ?b0 = (tcp_residue b + ?d) mod 65535"
    "ip_residue (iph ?b0) = (ip_residue (iph b) + ?d) mod 65535"
    using residue_put_addrs_gen [OF assms(1) refl refl] by simp_all
  have 1: "tcp_residue ?b1 = tcp_residue ?b0" "iph ?b1 = iph ?b0" "full_csum K ?b1"
    "doff (th ?b1) = doff (th b)" "tdata ?b1 = tdata b"
    using f0 unfolding b1 by (simp_all add: residue_put_dest residue_put_source)
  have len: "tcp_seg_len (iph ?b1) = tcp_seg_len (iph b)"
    unfolding 1(2) by (simp add: put_addrs_def csum_ip4_def tcp_seg_len_def ihl_bytes_def)
  have 2: "keeps_residue K ?b1 ?b2" "tdata ?b2 = tdata ?b1"
    using keeps_opt_seq [OF 1(3), of ?b2] by (simp_all add: dysco_in_rewrite_seq_def)
  have al: "aligned_options ?b2"
    using assms(2) 1 2 len aligned_cong [of ?b2 b] by (simp add: keeps_residue_def)
  have 3: "keeps_residue K ?b2 (fst (dysco_in_hdr_rewrite_csum K c (b, st)))"
    using keeps_tail [of K "(?b2, st)"] 2(1) al by (simp add: in_tail_steps keeps_residue_def)
  have n: "x mod 65535 \<noteq> (x + ?d) mod 65535" for x
    using wrong_carry [OF assms(3)] mod_shift_neq by blast
  have r: "tcp_residue b mod 65535 = tcp_residue b" "ip_residue (iph b) mod 65535 = ip_residue (iph b)"
    by (simp_all add: tcp_residue_def ip_residue_def)
  show ?thesis
    using 0 1(1,2) 2(1) 3 n [of "tcp_residue b"] n [of "ip_residue (iph b)"]
    unfolding r by (simp add: keeps_residue_def)
qed

section \<open>Concrete packets\<close>

text \<open>An acknowledgment with an aligned timestamp option, and three control blocks.\<close>

definition ref_ts_skb :: skb where
  "ref_ts_skb = ref_skb 8 TCPHDR_ACK (mem_of [1, 1, 8, 10, 0, 0, 0, 1, 0, 0, 0, 2]) 0"

definition ref_cb_in :: dysco_cb_in where
  "ref_cb_in = zero_cb_in\<lparr>i_super := \<lparr>sip = 0x0100000b, dip = 0x0200000b, sport = 1, dport = 2\<rparr>,
     i_seq_delta := 77, i_seq_add := True, i_ts_ok := True, i_ts_delta := 5\<rparr>"

definition bad_carry_cb_in :: dysco_cb_in where
  "bad_carry_cb_in = zero_cb_in\<lparr>i_super := \<lparr>sip = 0x80000001, dip = 0x80000001, sport = 1, dport = 2\<rparr>\<rparr>"

lemma ref_full_csum: "full_csum ref_kapi (ref_skb d f m n)"
  by (simp add: full_csum_def ref_csum_laws ref_inet_laws ref_skb_def)

lemma ref_ts_aligned: "aligned_options ref_ts_skb"
  by code_simp

lemma ref_carry: "carry_ok ref_cb_in" "\<not> carry_ok bad_carry_cb_in"
  by code_simp+

theorem in_rewrite_keeps_checksums_witness:
  "tcp_residue (fst (dysco_in_hdr_rewrite_csum ref_kapi ref_cb_in (ref_ts_skb, stats fresh_dstate))) =
     tcp_residue ref_ts_skb \<and>
   ip_residue (iph (fst (dysco_in_hdr_rewrite_csum ref_kapi ref_cb_in (ref_ts_skb, stats fresh_dstate)))) =
     ip_residue (iph ref_ts_skb)"
  by (rule in_rewrite_keeps_checksums)
    (simp_all only: ref_ts_aligned ref_carry, simp add: ref_ts_skb_def ref_full_csum)

theorem in_rewrite_breaks_checksum_witness:
  "tcp_residue (fst (dysco_in_hdr_rewrite_csum ref_kapi bad_carry_cb_in (ref_ts_skb, stats fresh_dstate))) \<noteq>
     tcp_residue ref_ts_skb \<and>
   ip_residue (iph (fst (dysco_in_hdr_rewrite_csum ref_kapi bad_carry_cb_in (ref_ts_skb, stats fresh_dstate)))) \<noteq>
     ip_residue (iph ref_ts_skb)"
  by (rule in_rewrite_breaks_checksum)
    (simp_all only: ref_ts_aligned ref_carry not_False_eq_True, simp add: ref_ts_skb_def ref_full_csum)

section \<open>Timestamps at odd offsets\<close>


lemma data_sum_put_odd:
  assumes "odd p" and "p + 4 \<le> n"
  shows "data_sum (put32 m p w) n mod 65535 = (data_sum m n - 256 * uint (get32 m p) + 256 * uint w) mod 65535"
proof -
  let ?P = "{p, p + 1, p + 2, p + 3}"
  have sub: "?P \<subseteq> {..<n}" using assms by auto
  have split: "data_sum m' n = (\<Sum>i\<in>{..<n} - ?P. uint (m' i) * byte_wt i) +
      (256 * uint (m' p) + uint (m' (p + 1)) + 256 * uint (m' (p + 2)) + uint (m' (p + 3)))" for m'
    unfolding data_sum_def using sum.subset_diff [OF sub, of "\<lambda>i. uint (m' i) * byte_wt i"] assms(1)
    by (simp add: byte_wt_def)
  have rest: "(\<Sum>i\<in>{..<n} - ?P. uint (put32 m p w i) * byte_wt i) = (\<Sum>i\<in>{..<n} - ?P. uint (m i) * byte_wt i)"
    by (rule sum.cong) (auto simp: put32_def)
  have old: "uint (get32 m p) = uint (m p) + 256 * uint (m (p + 1)) + 65536 * uint (m (p + 2)) + 16777216 * uint (m (p + 3))"
    using uint_bytes [of "get32 m p"] by (simp only: get32_bytes)
  have new: "uint w = uint (put32 m p w p) + 256 * uint (put32 m p w (p + 1)) +
      65536 * uint (put32 m p w (p + 2)) + 16777216 * uint (put32 m p w (p + 3))"
    using uint_bytes [of w] by (simp add: put32_def)
  define d where "d = uint (m (p + 1)) + 256 * uint (m (p + 2)) + 65537 * uint (m (p + 3)) -
    uint (put32 m p w (p + 1)) - 256 * uint (put32 m p w (p + 2)) - 65537 * uint (put32 m p w (p + 3))"
  have "data_sum (put32 m p w) n = (data_sum m n - 256 * uint (get32 m p) + 256 * uint w) + 65535 * d"
    unfolding split [of m] split [of "put32 m p w"] rest old new d_def by simp
  then show ?thesis by (metis mod_mult_self2)
qed

text \<open>
  A timestamp at an odd offset: the incremental update counts the option value as two
  aligned words, but its bytes straddle them. The rewritten segment keeps its checksum
  residue exactly when the old and the new value happen to be congruent modulo 257.
\<close>

theorem odd_timestamp_breaks_checksum:
  assumes "full_csum K b" and "odd ptr" and "ptr + 4 \<le> nat (tcp_seg_len (iph b) - 20)"
  shows "tcp_residue (ts_shift K ptr d a b) = tcp_residue b \<longleftrightarrow>
    257 dvd (uint (shift_edge d a (get32 (tdata b) ptr)) - uint (get32 (tdata b) ptr))"
proof -
  define f where "f = get32 (tdata b) ptr"
  define t where "t = shift_edge d a f"
  define n where "n = nat (tcp_seg_len (iph b) - 20)"
  let ?b = "ts_shift K ptr d a b"
  have c: "oc (NOT (th_check (th ?b))) = (oc (NOT (th_check (th b))) - oc f + oc t) mod 65535"
    using dysco_csum_step [OF assms(1), of f t False] by (simp add: ts_shift_def Let_def f_def t_def)
  have s: "tcp_sum ?b = tcp_sum b - data_sum (tdata b) n + data_sum (put32 (tdata b) ptr t) n"
    by (simp add: tcp_sum_def ts_shift_def Let_def f_def t_def n_def)
  have d: "(tcp_sum b - data_sum (tdata b) n + data_sum (put32 (tdata b) ptr t) n) mod 65535 =
      (tcp_sum b - 256 * uint f + 256 * uint t) mod 65535"
    using data_sum_put_odd [OF assms(2), of n "tdata b" t] assms(3)
    by (intro mod_replace) (simp add: f_def n_def)
  have "(tcp_sum b - uint f + uint t + uint (th_check (th ?b))) mod 65535 =
      (tcp_sum b + uint (th_check (th b))) mod 65535"
    by (rule residue_step_mod [OF c refl refl])
  then have 1: "65535 dvd (tcp_sum b - uint f + uint t + uint (th_check (th ?b))) - (tcp_sum b + uint (th_check (th b)))"
    by (simp only: mod_eq_dvd_iff)
  have 2: "65535 dvd tcp_sum ?b - (tcp_sum b - 256 * uint f + 256 * uint t)"
    using d s by (simp only: mod_eq_dvd_iff)
  have eq: "(tcp_sum ?b + uint (th_check (th ?b))) - (tcp_sum b + uint (th_check (th b))) =
      255 * (uint t - uint f) + ((tcp_sum ?b - (tcp_sum b - 256 * uint f + 256 * uint t)) +
      ((tcp_sum b - uint f + uint t + uint (th_check (th ?b))) - (tcp_sum b + uint (th_check (th b)))))"
    by simp
  have "tcp_residue ?b = tcp_residue b \<longleftrightarrow>
      65535 dvd (tcp_sum ?b + uint (th_check (th ?b))) - (tcp_sum b + uint (th_check (th b)))"
    by (simp only: tcp_residue_def mod_eq_dvd_iff)
  also have "\<dots> \<longleftrightarrow> 65535 dvd 255 * (uint t - uint f)"
    unfolding eq using 1 2 by (intro dvd_add_left_iff dvd_add)
  also have "\<dots> \<longleftrightarrow> 257 dvd uint t - uint f"
    using dvd_mult_cancel_left [of 255 257 "uint t - uint f"] by simp
  finally show ?thesis by (simp add: f_def t_def)
qed

definition odd_ts_skb :: skb where
  "odd_ts_skb = ref_skb 8 TCPHDR_ACK (mem_of [8, 10, 0, 0, 0, 1, 0, 0, 0, 2]) 0"

theorem odd_timestamp_breaks_checksum_witness:
  "tcp_residue (ts_shift ref_kapi 3 1 True odd_ts_skb) = tcp_residue odd_ts_skb \<longleftrightarrow>
    257 dvd (uint (shift_edge 1 True (get32 (tdata odd_ts_skb) 3)) - uint (get32 (tdata odd_ts_skb) 3))"
proof (rule odd_timestamp_breaks_checksum)
  show "full_csum ref_kapi odd_ts_skb" by (simp add: odd_ts_skb_def ref_full_csum)
  show "odd (3::nat)" by simp
  show "3 + 4 \<le> nat (tcp_seg_len (iph odd_ts_skb) - 20)" by code_simp
qed

text \<open>A session with two paths: block 1 for the old one, block 2 for the new one.\<close>

definition ref_old_cb :: dysco_cb_out where
  "ref_old_cb = zero_cb_out\<lparr>o_other_path := Some 2, o_state := DYSCO_ESTABLISHED,
     o_valid_ack_cut := True, o_ack_cutoff := 1500, o_ack_ctr := 1, o_use_np_ack := True\<rparr>"

definition ref_new_cb :: dysco_cb_out where
  "ref_new_cb = zero_cb_out\<lparr>o_other_path := Some 1,
     o_sub := \<lparr>sip = 0x0200000a, dip = 0x0300000a, sport = 7, dport = 8\<rparr>,
     o_seq_delta := 10, o_seq_add := True, o_ts_ok := True, o_ts_delta := 3\<rparr>"

definition ref_two_paths :: dstate where
  "ref_two_paths = fresh_dstate\<lparr>outs := [1 \<mapsto> ref_old_cb, 2 \<mapsto> ref_new_cb]\<rparr>"

lemma ref_translates: "dysco_out_translate ref_kapi 1 ref_ts_skb ref_two_paths \<noteq> None"
  by code_simp

theorem out_translate_keeps_checksums_witness:
  "\<exists>b' s'. dysco_out_translate ref_kapi 1 ref_ts_skb ref_two_paths = Some (b', s') \<and>
     tcp_residue b' = tcp_residue ref_ts_skb \<and> ip_residue (iph b') = ip_residue (iph ref_ts_skb)"
proof -
  obtain b' s' where "dysco_out_translate ref_kapi 1 ref_ts_skb ref_two_paths = Some (b', s')"
    using ref_translates by auto
  then show ?thesis
    using out_translate_keeps_checksums ref_ts_aligned ref_full_csum unfolding ref_ts_skb_def by blast
qed

end
