(* ===== verification/Dysco_Translation.thy ===== *)
theory Dysco_Translation
  imports Dysco_Residue
begin

text \<open>
  What the deltas of a reconfiguration mean. \<open>dysco_compute_deltas_out\<close> and
  \<open>dysco_compute_deltas_in\<close> store a magnitude and a direction; the data path adds or subtracts
  it. The theory shows that this is the translation by initial numbers of the comment in
  \<^verbatim>\<open>dysco.h\<close>, that it respects the order of sequence numbers (interface \<open>seq_translation\<close>),
  that the two directions of a right anchor undo each other, and what the window rescaling
  computes.
\<close>

section \<open>Translations of sequence numbers\<close>

text \<open>
  What the clients of a translation rely on: it keeps distances on the sequence number circle.
\<close>

locale seq_translation =
  fixes tr :: "u32 \<Rightarrow> u32"
  assumes tr_diff: "tr x - tr y = x - y"
begin

lemma tr_before: "before (tr x) (tr y) = before x y"
  by (simp add: before_def tr_diff)

lemma tr_after: "after (tr x) (tr y) = after x y"
  by (simp add: after_def tr_before)

lemma tr_eq: "tr x = tr y \<longleftrightarrow> x = y"
  using tr_diff [of x y] by (metis eq_iff_diff_eq_0)

lemma tr_shift: "tr (x + n) = tr x + n"
  using tr_diff [of "x + n" x] by (simp add: diff_eq_eq add.commute)

lemma tr_base: "tr x = x + tr 0"
  using tr_shift [of 0 x] by (simp add: add.commute)

end

definition translate :: "u32 \<Rightarrow> bool \<Rightarrow> u32 \<Rightarrow> u32" where
  "translate delta add x = (if add then x + delta else x - delta)"

interpretation delta: seq_translation "translate d a" for d a
  by unfold_locales (simp add: translate_def)

text \<open>A new path to the old one and back: two translations that undo each other.\<close>

locale seq_translation_pair = fwd: seq_translation tr + bwd: seq_translation tr'
  for tr :: "u32 \<Rightarrow> u32" and tr' :: "u32 \<Rightarrow> u32" +
  assumes base: "tr' (tr 0) = 0"
begin

lemma there_and_back: "tr' (tr x) = x"
  using base bwd.tr_shift [of "tr 0" x] fwd.tr_base [of x] by (simp add: add.commute)

lemma back_and_there: "tr (tr' x) = x"
  using there_and_back [of "tr' x"] bwd.tr_eq by blast

lemma window_kept: "before lo (tr x) \<and> before (tr x) hi \<longleftrightarrow> before (tr' lo) x \<and> before x (tr' hi)"
  using bwd.tr_before [of lo "tr x"] bwd.tr_before [of "tr x" hi] there_and_back by simp

end

lemma translate_mag: "translate (delta_mag vin vout) (delta_add vin vout) x = x - vin + vout"
  by (simp add: translate_def delta_mag_def delta_add_def)

interpretation anchors: seq_translation_pair
  "translate (delta_mag vin vout) (delta_add vin vout)"
  "translate (delta_mag vout vin) (delta_add vout vin)" for vin vout
  by unfold_locales (simp add: translate_mag)

lemma shift_edge_translate: "ntohl (shift_edge d a e) = translate d a (ntohl e)"
  by (simp add: shift_edge_def translate_def)

lemma translate_0 [simp]: "translate 0 a x = x"
  by (simp add: translate_def)

section \<open>The numbers of a rewritten packet\<close>

definition seq_no :: "skb \<Rightarrow> u32" where
  "seq_no b = ntohl (th_seq (th b))"

definition ack_no :: "skb \<Rightarrow> u32" where
  "ack_no b = ntohl (th_ack_seq (th b))"

lemma csum_numbers [simp]:
  "th_seq (th (dysco_th_csum4 K f t p b)) = th_seq (th b)"
  "th_ack_seq (th (dysco_th_csum4 K f t p b)) = th_ack_seq (th b)"
  "th_seq (th (inet_th_csum4 K f t p b)) = th_seq (th b)"
  "th_ack_seq (th (inet_th_csum4 K f t p b)) = th_ack_seq (th b)"
  "th_seq (th (inet_th_csum2 K f' t' p b)) = th_seq (th b)"
  "th_ack_seq (th (inet_th_csum2 K f' t' p b)) = th_ack_seq (th b)"
  by (simp_all add: th_csum_defs)

lemma shift_numbers [simp]:
  "seq_no (th_shift_seq K d a b) = translate d a (seq_no b)" "ack_no (th_shift_seq K d a b) = ack_no b"
  "seq_no (th_shift_ack K d a b) = seq_no b" "ack_no (th_shift_ack K d a b) = translate d a (ack_no b)"
  "seq_no (ts_shift K p d a b) = seq_no b" "ack_no (ts_shift K p d a b) = ack_no b"
  "seq_no (th_rescale K i j b) = seq_no b" "ack_no (th_rescale K i j b) = ack_no b"
  "seq_no (th_put_source K q b) = seq_no b" "ack_no (th_put_source K q b) = ack_no b"
  "seq_no (th_put_dest K q b) = seq_no b" "ack_no (th_put_dest K q b) = ack_no b"
  "seq_no (put_mac nh b) = seq_no b" "ack_no (put_mac nh b) = ack_no b"
  "seq_no (put_addrs sa da b) = seq_no b" "ack_no (put_addrs sa da b) = ack_no b"
  "seq_no (csum_ip4 K f t b) = seq_no b" "ack_no (csum_ip4 K f t b) = ack_no b"
  "seq_no (inet_th_csum4 K f t pq b) = seq_no b" "ack_no (inet_th_csum4 K f t pq b) = ack_no b"
  by (simp_all add: seq_no_def ack_no_def th_shift_seq_def th_shift_ack_def ts_shift_def th_rescale_def
      th_put_source_def th_put_dest_def put_mac_def put_addrs_def csum_ip4_def Let_def shift_edge_translate)

lemma put_tuple_numbers [simp]:
  "seq_no (in_put_tuple K c b) = seq_no b" "ack_no (in_put_tuple K c b) = ack_no b"
  "seq_no (out_put_tuple K d b) = seq_no b" "ack_no (out_put_tuple K d b) = ack_no b"
  by (simp_all add: in_put_tuple_def out_put_tuple_def Let_def)


text \<open>The SACK translation changes no header field but the checksum.\<close>

definition but_check :: "tcphdr \<Rightarrow> tcphdr" where
  "but_check t = t\<lparr>th_check := 0\<rparr>"

lemma but_check_sack_blocks: "but_check (th (fst (sack_blocks K d a p len bs))) = but_check (th (fst bs))"
proof (induction "nat len" arbitrary: p len bs rule: less_induct)
  case (less len p bs)
  obtain b st where bs: "bs = (b, st)" by fastforce
  show ?case
    using less unfolding bs
    by (subst sack_blocks.simps) (simp add: Let_def dysco_th_csum4_def but_check_def)
qed

lemma but_check_sack: "but_check (th (fst (dysco_tcp_sack K d a bs))) = but_check (th (fst bs))"
  unfolding dysco_tcp_sack_def
  by (rule tcp_options_inv [where P = "\<lambda>x. but_check (th (fst x)) = but_check (th (fst bs))"])
    (simp_all add: sack_handler_def but_check_sack_blocks)

lemma but_check_numbers:
  assumes "but_check (th b') = but_check (th b)"
  shows "seq_no b' = seq_no b" "ack_no b' = ack_no b"
proof -
  have "th_seq (but_check (th b')) = th_seq (but_check (th b))"
    "th_ack_seq (but_check (th b')) = th_ack_seq (but_check (th b))" using assms by simp_all
  then show "seq_no b' = seq_no b" "ack_no b' = ack_no b"
    by (simp_all add: seq_no_def ack_no_def but_check_def)
qed

lemma sack_numbers [simp]:
  "seq_no (fst (dysco_tcp_sack K d a bs)) = seq_no (fst bs)"
  "ack_no (fst (dysco_tcp_sack K d a bs)) = ack_no (fst bs)"
  using but_check_numbers [OF but_check_sack] by blast+

lemma ts_rewrite_numbers [simp]:
  "seq_no (fst (ts_rewrite K d a d' a' bs)) = seq_no (fst bs)"
  "ack_no (fst (ts_rewrite K d a d' a' bs)) = ack_no (fst bs)"
  by (simp_all add: ts_rewrite_def Let_def split: option.splits)

lemma tail_steps_numbers:
  "seq_no (fst (tail_steps K d a sack ts e f e' f' ws i j bs)) = seq_no (fst bs)"
  "ack_no (fst (tail_steps K d a sack ts e f e' f' ws i j bs)) = translate d a (ack_no (fst bs))"
  by (simp_all add: tail_steps_def ack_step_def Let_def)

lemma in_seq_numbers:
  "seq_no (dysco_in_rewrite_seq K c b) = translate (i_seq_delta c) (i_seq_add c) (seq_no b)"
  "ack_no (dysco_in_rewrite_seq K c b) = ack_no b"
  by (simp_all add: dysco_in_rewrite_seq_def)

lemma out_seq_numbers:
  "seq_no (dysco_out_rewrite_seq K c b) = translate (o_seq_delta c) (o_seq_add c) (seq_no b)"
  "ack_no (dysco_out_rewrite_seq K c b) = ack_no b"
  by (simp_all add: dysco_out_rewrite_seq_def)

text \<open>
  What the two rewrites do to the numbers of a packet, for every control block: the input
  rewrite translates sequence and acknowledgment number by the deltas of the block, the output
  rewrite of a session with two paths does the same with its own, and neither the SACK,
  timestamp and window rewrites nor the addresses and ports disturb them.
\<close>

theorem rewrites_translate_numbers:
  "seq_no (fst (dysco_in_hdr_rewrite_csum K i (b, st))) = translate (i_seq_delta i) (i_seq_add i) (seq_no b) \<and>
   ack_no (fst (dysco_in_hdr_rewrite_csum K i (b, st))) = translate (i_ack_delta i) (i_ack_add i) (ack_no b) \<and>
   seq_no (dysco_out_hdr_rewrite_csum K c (fst (out_rewrites K c (b, st)))) =
     translate (o_seq_delta c) (o_seq_add c) (seq_no b) \<and>
   ack_no (dysco_out_hdr_rewrite_csum K c (fst (out_rewrites K c (b, st)))) =
     translate (o_ack_delta c) (o_ack_add c) (ack_no b)"
  by (simp add: in_tail_steps out_tail_steps dysco_out_hdr_rewrite_csum_def tail_steps_numbers
      in_seq_numbers out_seq_numbers)

section \<open>Deltas\<close>

lemma deltas_out_fields:
  "o_in_iseq (dysco_compute_deltas_out c old r) = o_in_iseq old"
  "o_in_iack (dysco_compute_deltas_out c old r) = o_in_iack old"
  "o_out_iseq (dysco_compute_deltas_out c old r) = o_out_iseq c"
  "o_out_iack (dysco_compute_deltas_out c old r) = o_out_iack c"
  "translate (o_seq_delta (dysco_compute_deltas_out c old r)) (o_seq_add (dysco_compute_deltas_out c old r)) x
     = x - o_in_iseq old + o_out_iseq c"
  "translate (o_ack_delta (dysco_compute_deltas_out c old r)) (o_ack_add (dysco_compute_deltas_out c old r)) x
     = x - o_in_iack old + o_out_iack c"
  by (simp_all add: dysco_compute_deltas_out_def deltas_out_nums_def deltas_out_ts_def deltas_out_ws_def
      Let_def translate_mag)

text \<open>The parts of an input block that the timestamp and window steps leave alone.\<close>

definition same_nums :: "dysco_cb_in \<Rightarrow> dysco_cb_in \<Rightarrow> bool" where
  "same_nums c c' \<longleftrightarrow> i_in_iseq c' = i_in_iseq c \<and> i_in_iack c' = i_in_iack c \<and>
     i_out_iseq c' = i_out_iseq c \<and> i_out_iack c' = i_out_iack c \<and>
     i_seq_delta c' = i_seq_delta c \<and> i_seq_add c' = i_seq_add c \<and>
     i_ack_delta c' = i_ack_delta c \<and> i_ack_add c' = i_ack_add c \<and>
     i_dcb_out c' = i_dcb_out c \<and> i_super c' = i_super c \<and> i_sub c' = i_sub c"

lemma deltas_in_ts_nums: "deltas_in_ts old s r c = Some c' \<Longrightarrow> same_nums c c'"
  by (auto simp: deltas_in_ts_def same_nums_def bind_eq_Some_conv split: if_splits)

lemma deltas_in_ws_nums: "same_nums c (deltas_in_ws old r c)"
  by (simp add: deltas_in_ws_def same_nums_def)

lemma deltas_in_nums_of:
  assumes "dysco_compute_deltas_in c old s r = Some c'"
  shows "same_nums (deltas_in_nums old c) c'"
proof -
  obtain c1 where "deltas_in_ts old s r (deltas_in_nums old c) = Some c1"
    and "c' = (deltas_in_ws old r c1)\<lparr>i_sack_ok := bit (r_sack_ok r) 0\<rparr>"
    using assms by (auto simp: dysco_compute_deltas_in_def bind_eq_Some_conv)
  then show ?thesis
    using deltas_in_ts_nums [of old s r "deltas_in_nums old c" c1] deltas_in_ws_nums [of c1 old r]
    by (simp add: same_nums_def)
qed

lemma deltas_in_fields:
  assumes "dysco_compute_deltas_in c old s r = Some c'"
  shows "i_in_iseq c' = i_in_iseq c" "i_in_iack c' = i_in_iack c"
    "i_out_iseq c' = o_in_iack old" "i_out_iack c' = o_in_iseq old"
    "translate (i_seq_delta c') (i_seq_add c') x = x - i_in_iseq c + o_in_iack old"
    "translate (i_ack_delta c') (i_ack_add c') x = x - i_in_iack c + o_in_iseq old"
    "i_dcb_out c' = i_dcb_out c" "i_super c' = i_super c" "i_sub c' = i_sub c"
  using deltas_in_nums_of [OF assms]
  by (simp_all add: same_nums_def deltas_in_nums_def Let_def translate_mag)

text \<open>
  C23. The comment on \<open>dysco_cb_out\<close> holds after a reconfiguration: with the deltas that
  \<open>dysco_compute_deltas_out\<close> stores, every packet goes out with
  \<open>seq_out = (seq_in - in_iseq) + out_iseq\<close> and \<open>ack_out = (ack_in - in_iack) + out_iack\<close>, where
  the \<open>in\<close> numbers are those of the session being replaced; the arithmetic is modulo 2^32.
\<close>

theorem reconfigured_numbers:
  fixes c old r
  defines "d \<equiv> dysco_compute_deltas_out c old r"
  shows "seq_no (dysco_out_hdr_rewrite_csum K d (fst (out_rewrites K d (b, st)))) =
      (seq_no b - o_in_iseq old) + o_out_iseq c \<and>
    ack_no (dysco_out_hdr_rewrite_csum K d (fst (out_rewrites K d (b, st)))) =
      (ack_no b - o_in_iack old) + o_out_iack c"
  by (simp add: d_def out_tail_steps dysco_out_hdr_rewrite_csum_def tail_steps_numbers
      out_seq_numbers deltas_out_fields)

text \<open>
  The translation respects the order of a window: of two segments of one direction, the
  one that was sent before (in the wrap-around order of \<open>before\<close>) still comes before after
  both were rewritten with the same control block, for sequence and acknowledgment numbers and
  in both directions, so retransmissions, gaps and windows look the same to the receiver.
\<close>

theorem rewrites_keep_order:
  "before (seq_no (fst (dysco_in_hdr_rewrite_csum K i (b, st)))) (seq_no (fst (dysco_in_hdr_rewrite_csum K i (b', st')))) =
     before (seq_no b) (seq_no b') \<and>
   before (ack_no (fst (dysco_in_hdr_rewrite_csum K i (b, st)))) (ack_no (fst (dysco_in_hdr_rewrite_csum K i (b', st')))) =
     before (ack_no b) (ack_no b') \<and>
   before (seq_no (fst (out_rewrites K c (b, st)))) (seq_no (fst (out_rewrites K c (b', st')))) =
     before (seq_no b) (seq_no b') \<and>
   before (ack_no (fst (out_rewrites K c (b, st)))) (ack_no (fst (out_rewrites K c (b', st')))) =
     before (ack_no b) (ack_no b')"
  by (simp add: in_tail_steps out_tail_steps tail_steps_numbers in_seq_numbers out_seq_numbers
      delta.tr_before)

section \<open>The right anchor\<close>

text \<open>The translations of the two blocks of a new path, as functions on host-order numbers.\<close>

abbreviation (input) in_seq :: "dysco_cb_in \<Rightarrow> u32 \<Rightarrow> u32" where
  "in_seq c \<equiv> translate (i_seq_delta c) (i_seq_add c)"
abbreviation (input) in_ack :: "dysco_cb_in \<Rightarrow> u32 \<Rightarrow> u32" where
  "in_ack c \<equiv> translate (i_ack_delta c) (i_ack_add c)"
abbreviation (input) out_seq :: "dysco_cb_out \<Rightarrow> u32 \<Rightarrow> u32" where
  "out_seq c \<equiv> translate (o_seq_delta c) (o_seq_add c)"
abbreviation (input) out_ack :: "dysco_cb_out \<Rightarrow> u32 \<Rightarrow> u32" where
  "out_ack c \<equiv> translate (o_ack_delta c) (o_ack_add c)"

lemma look_link_in [simp]:
  "look_out k (link_in k' p s) = look_out k s" "look_in k (link_in k p s) = Some p"
  by (simp_all add: look_defs tbl.lookup_link)

text \<open>What the two blocks of the right anchor hold, in terms of the block they replace.\<close>

definition rightA_blocks :: "addr \<Rightarrow> dysco_cb_out \<Rightarrow> dysco_cb_reconfig \<Rightarrow> control_message \<Rightarrow> addr \<Rightarrow> addr
    \<Rightarrow> dysco_cb_in \<Rightarrow> dysco_cb_out \<Rightarrow> bool" where
  "rightA_blocks po' old r m pi po ci co \<longleftrightarrow>
     i_dcb_out ci = Some po \<and> o_dcb_in co = Some pi \<and> i_two_paths ci \<and> o_other_path co = Some po' \<and>
     i_super ci = m_rightSS m \<and> i_sub ci = r_sub_in r \<and>
     in_seq ci = (\<lambda>x. x - r_leftIseq r + o_in_iack old) \<and> in_ack ci = (\<lambda>x. x - r_leftIack r + o_in_iseq old) \<and>
     out_seq co = (\<lambda>x. x - o_in_iseq old + r_leftIack r) \<and> out_ack co = (\<lambda>x. x - o_in_iack old + r_leftIseq r)"

lemma config_rightA_blocks:
  assumes "dysco_control_config_rightA rp m pi po s = Some (True, s')"
    and "rcbs s rp = Some r" and "ins s pi = Some i" and "outs s po = Some c"
    and "i_dcb_out i = Some po" and "o_dcb_in c = Some pi" and "i_sub i = r_sub_in r"
    and "i_in_iseq i = r_leftIseq r" and "i_in_iack i = r_leftIack r"
    and "o_out_iseq c = r_leftIack r" and "o_out_iack c = r_leftIseq r"
    and "look_out (rev_session (m_rightSS m)) s \<noteq> Some po"
  shows "\<exists>po' old ci co. look_out (rev_session (m_rightSS m)) s = Some po' \<and> outs s po' = Some old \<and>
    ins s' pi = Some ci \<and> outs s' po = Some co \<and> rightA_blocks po' old r m pi po ci co"
proof -
  obtain po' where po': "look_out (rev_session (m_rightSS m)) s = Some po'"
    using assms(1,2) by (cases "look_out (rev_session (m_rightSS m)) s")
      (auto simp: dysco_control_config_rightA_def rev_session_def bind_eq_Some_conv)
  have ne: "po' \<noteq> po" using assms(12) po' by simp
  let ?s2 = "\<lambda>old i1. set_rcb rp (r\<lparr>r_old_dcb := Some po', r_new_dcb := Some po\<rparr>)
        (set_in pi (i1\<lparr>i_two_paths := True\<rparr>)
          (set_out po ((dysco_compute_deltas_out c old r)\<lparr>o_other_path := Some po'\<rparr>) s))"
  obtain old i1 where old: "outs s po' = Some old"
    and i1: "dysco_compute_deltas_in (i\<lparr>i_super := m_rightSS m\<rparr>) old s r = Some i1"
    and s': "s' = ?s2 old i1 \<or> s' = set_out po' (old\<lparr>o_state_t := True\<rparr>) (?s2 old i1)"
    using assms(1-4) po' ne
    by (auto simp: dysco_control_config_rightA_def rev_session_def bind_eq_Some_conv Let_def split: if_splits)
  note f = deltas_in_fields [OF i1]
  have dcb: "o_dcb_in (dysco_compute_deltas_out c old r) = o_dcb_in c"
    by (simp add: dysco_compute_deltas_out_def deltas_out_nums_def deltas_out_ts_def deltas_out_ws_def Let_def)
  let ?ci = "i1\<lparr>i_two_paths := True\<rparr>"
  let ?co = "(dysco_compute_deltas_out c old r)\<lparr>o_other_path := Some po'\<rparr>"
  have "ins s' pi = Some ?ci" "outs s' po = Some ?co"
    using s' ne by auto
  moreover have "rightA_blocks po' old r m pi po ?ci ?co"
    using assms(5-11) f dcb by (simp add: rightA_blocks_def fun_eq_iff deltas_out_fields)
  ultimately show ?thesis using po' old by blast
qed

text \<open>
  C22. The new path at the right anchor: when \<open>dysco_control_reconfig_in\<close> succeeds there, the
  new subsession leads to a new input block that is tied to a new output block, whose other
  path is the block of the session being replaced; the left anchor's initial numbers become
  the numbers the local peer knows, and the two directions undo each other: an
  acknowledgment that comes back for data sent on the new path names the original byte, and
  so do the acknowledgments sent for data received on it.
\<close>

theorem rightA_new_path:
  assumes "dysco_control_reconfig_in K b rp s = Some (True, s')" and "rcbs s rp = Some r"
    and "daddr (iph b) = m_rightA (cmsg b)" and "ht_nodes (hash_out (dh s)) \<subseteq> {..<next_addr s}"
  shows "\<exists>pi po po' old ci co. look_out (rev_session (m_rightSS (cmsg b))) s = Some po' \<and>
    outs s po' = Some old \<and> look_in (r_sub_in r) s' = Some pi \<and> ins s' pi = Some ci \<and>
    outs s' po = Some co \<and> rightA_blocks po' old r (cmsg b) pi po ci co \<and>
    in_seq ci (r_leftIseq r) = o_in_iack old \<and> in_ack ci (r_leftIack r) = o_in_iseq old \<and>
    (\<forall>x. in_ack ci (out_seq co x) = x \<and> out_ack co (in_seq ci x) = x)"
proof -
  let ?pi = "next_addr s" and ?po = "Suc (next_addr s)"
  let ?i = "(cb_in_of_rcb b r (k_junk_in K (next_addr s)))\<lparr>i_dcb_out := Some ?po\<rparr>"
  let ?c = "(build_cb_out b r)\<lparr>o_dcb_in := Some ?pi\<rparr>"
  let ?s = "set_in ?pi ?i (set_out ?po ?c (set_out ?po (build_cb_out b r) (bump
      (set_in ?pi (cb_in_of_rcb b r (k_junk_in K (next_addr s))) (bump s)))))"
  obtain s4 i2 where 1: "dysco_control_config_rightA rp (cmsg b) ?pi ?po ?s = Some (True, s4)"
    and i2: "ins s4 ?pi = Some i2" and s': "s' = link_in (i_sub i2) ?pi s4"
    using assms(1-3)
    by (auto simp: dysco_control_reconfig_in_def alloc_in_def alloc_out_def dysco_build_cb_in_reverse_def
        bind_eq_Some_conv Let_def split: if_splits option.splits prod.splits)
  have out: "look_out k ?s = look_out k s" for k by (simp add: look_defs)
  have fresh: "look_out k s \<noteq> Some q" if "next_addr s \<le> q" for k q
    using that assms(4) tbl.lookup_nodes [of "hash_out (dh s)" k q] by (auto simp: look_defs)
  obtain po' old ci co where 2: "look_out (rev_session (m_rightSS (cmsg b))) ?s = Some po'" "outs ?s po' = Some old"
    "ins s4 ?pi = Some ci" "outs s4 ?po = Some co" "rightA_blocks po' old r (cmsg b) ?pi ?po ci co"
    using config_rightA_blocks [OF 1, of r ?i ?c] assms(2) fresh [of ?po]
    unfolding out by (auto simp: cb_in_of_rcb_def build_cb_out_def)
  have "outs s po' = Some old"
    using 2(1,2) fresh [of ?po] by (auto simp: out split: if_splits)
  moreover have "look_in (r_sub_in r) s' = Some ?pi" "ins s' ?pi = Some ci" "outs s' ?po = Some co"
    using 2 i2 unfolding s' by (auto simp: rightA_blocks_def)
  moreover have "in_seq ci (r_leftIseq r) = o_in_iack old" "in_ack ci (r_leftIack r) = o_in_iseq old"
    "in_ack ci (out_seq co x) = x" "out_ack co (in_seq ci x) = x" for x
    using 2(5) by (simp_all add: rightA_blocks_def)
  ultimately show ?thesis using 2(1,5) unfolding out by blast
qed

text \<open>A right anchor that knows the session to be replaced as block 1.\<close>

definition ref_msg :: control_message where
  "ref_msg = (cmsg (ref_skb 5 0 (mem_of []) 0))\<lparr>
     m_super := \<lparr>sip = 0x0100000a, dip = 0x0200000a, sport = 1, dport = 2\<rparr>,
     m_leftSS := \<lparr>sip = 0x0100000a, dip = 0x0200000a, sport = 1, dport = 2\<rparr>,
     m_rightSS := \<lparr>sip = 0x0900000a, dip = 0x0200000a, sport = 3, dport = 4\<rparr>,
     m_leftA := 0x0100000a, m_rightA := 0x0200000a,
     m_sport := 5, m_dport := 6, m_leftIseq := htonl 700, m_leftIack := htonl 800,
     m_mtype := msg_code DYSCO_SYN\<rparr>"

definition ref_syn :: skb where
  "ref_syn = (ref_skb 5 0 (mem_of []) 0)\<lparr>cmsg := ref_msg,
     uh := \<lparr>uh_source = dysco_control_port, uh_dest = dysco_control_port, uh_len = htons 200, uh_check = 0\<rparr>\<rparr>"

definition ref_rcb :: dysco_cb_reconfig where
  "ref_rcb = rcb_from_syn ref_msg (iph ref_syn) (k_junk_rcb ref_kapi 0)"

definition ref_rightA :: dstate where
  "ref_rightA = fresh_dstate\<lparr>outs := [1 \<mapsto> zero_cb_out\<lparr>o_in_iseq := 5, o_in_iack := 9\<rparr>],
     rcbs := [2 \<mapsto> ref_rcb], next_addr := 3,
     dh := (fresh_hashes (Some 0))\<lparr>hash_out := [(rev_session (m_rightSS ref_msg), 1)]\<rparr>\<rparr>"

lemma ref_rightA_ok: "map_option fst (dysco_control_reconfig_in ref_kapi ref_syn 2 ref_rightA) = Some True"
  by code_simp

theorem rightA_new_path_witness:
  "\<exists>s' pi po po' old ci co. dysco_control_reconfig_in ref_kapi ref_syn 2 ref_rightA = Some (True, s') \<and>
    look_out (rev_session (m_rightSS (cmsg ref_syn))) ref_rightA = Some po' \<and>
    outs ref_rightA po' = Some old \<and> look_in (r_sub_in ref_rcb) s' = Some pi \<and> ins s' pi = Some ci \<and>
    outs s' po = Some co \<and> rightA_blocks po' old ref_rcb (cmsg ref_syn) pi po ci co \<and>
    in_seq ci (r_leftIseq ref_rcb) = o_in_iack old \<and> in_ack ci (r_leftIack ref_rcb) = o_in_iseq old \<and>
    (\<forall>x. in_ack ci (out_seq co x) = x \<and> out_ack co (in_seq ci x) = x)"
proof -
  obtain s' where s': "dysco_control_reconfig_in ref_kapi ref_syn 2 ref_rightA = Some (True, s')"
    using ref_rightA_ok by auto
  have "rcbs ref_rightA 2 = Some ref_rcb" "daddr (iph ref_syn) = m_rightA (cmsg ref_syn)"
    "ht_nodes (hash_out (dh ref_rightA)) \<subseteq> {..<next_addr ref_rightA}"
    by (simp_all add: ref_rightA_def ref_syn_def ref_skb_def ref_msg_def ht_nodes_def)
  from rightA_new_path [OF s' this] s' show ?thesis by blast
qed

section \<open>The receive window\<close>

lemma unat_push32: "unat (push_bit n (w :: u32)) = unat w * 2 ^ n mod 4294967296"
  by (simp only: unsigned_push_bit_eq) (simp add: take_bit_eq_mod push_bit_eq_mult)

text \<open>
  The window a peer reads after a change of window scale: the bytes \<open>w * 2^ws_in\<close> in units
  of \<open>2^ws_out\<close>, rounded down, and cut to 16 bits. With scales of at most 14, which the parser
  enforces, nothing is lost in the 32-bit intermediate value. The result fits when the window
  in bytes is below \<open>2^(16 + ws_out)\<close>; there is no clamping, so a larger window wraps around.
\<close>

theorem rescale_window_value:
  assumes "unat ws_in \<le> 14"
  shows "unat (ntohs (rescale_window ws_in ws_out w)) =
      unat (ntohs w) * 2 ^ unat ws_in div 2 ^ unat ws_out mod 65536 \<and>
    (unat (ntohs w) * 2 ^ unat ws_in < 2 ^ (16 + unat ws_out) \<longrightarrow>
      unat (ntohs (rescale_window ws_in ws_out w)) = unat (ntohs w) * 2 ^ unat ws_in div 2 ^ unat ws_out)"
proof -
  let ?v = "unat (ntohs w) * 2 ^ unat ws_in"
  have "unat (ntohs w) < 65536" using unsigned_less [of "ntohs w"] by simp
  moreover have "(2::nat) ^ unat ws_in \<le> 2 ^ 14" using assms by (rule power_increasing) simp
  ultimately have "?v < 65536 * 2 ^ 14" by (intro mult_less_le_imp_less) simp_all
  then have v: "?v mod 4294967296 = ?v" by simp
  have u: "unat (ucast (ntohs w) :: u32) = unat (ntohs w)"
    using \<open>unat (ntohs w) < 65536\<close> by (simp add: unsigned_ucast_eq take_bit_eq_mod)
  have 1: "unat (ntohs (rescale_window ws_in ws_out w)) = ?v div 2 ^ unat ws_out mod 65536"
    unfolding rescale_window_def Let_def bswap16_bswap16 unat_u16_of_u32 unat_drop_bit_eq unat_push32 u v
    by (simp only: drop_bit_eq_div v)
  moreover have "?v div 2 ^ unat ws_out mod 65536 = ?v div 2 ^ unat ws_out"
    if "?v < 2 ^ (16 + unat ws_out)"
  proof -
    have "?v div 2 ^ unat ws_out < 65536"
      using that by (simp add: div_less_iff_less_mult power_add)
    then show ?thesis by simp
  qed
  ultimately show ?thesis by simp
qed

theorem rescale_window_value_witness:
  "unat (ntohs (rescale_window 7 3 (htons 512))) = 512 * 2 ^ 7 div 2 ^ 3 mod 65536 \<and>
   unat (ntohs (rescale_window 7 3 (htons 512))) = 512 * 2 ^ 7 div 2 ^ 3"
  using rescale_window_value [of 7 3 "htons 512"] by simp

text \<open>A window of 64 KB announced with scale 7 becomes 0 at a peer that negotiated no scale.\<close>

lemma rescale_window_wraps: "rescale_window 7 0 (htons 512) = 0"
  by code_simp

end
