(* ===== verification/Dysco_Paths.thy ===== *)
theory Dysco_Paths
  imports Dysco_Translation
begin

text \<open>
  The cutover between the old and the new path of a session: what the sequence cutoff records
  while there is one path, which path a segment takes while there are two, how
  acknowledgments are split between the paths, and when the old path is given up.
\<close>

section \<open>Order within half of the sequence space\<close>

lemma sint_neg: "sint (w :: u32) < 0 \<longleftrightarrow> 2147483648 \<le> unat w"
proof -
  have "sint w < 0 \<longleftrightarrow> bit w 31" using bit_last_iff [of w] by simp
  also have "\<dots> \<longleftrightarrow> bit (unat w) 31" by (simp add: bit_unsigned_iff)
  also have "\<dots> \<longleftrightarrow> odd (unat w div 2147483648)" by (simp add: bit_iff_odd)
  also have "\<dots> \<longleftrightarrow> 2147483648 \<le> unat w"
  proof -
    have "unat w < 4294967296" using unsigned_less [of w] by simp
    then have "unat w div 2147483648 < 2" by (simp add: div_less_iff_less_mult)
    then have "unat w div 2147483648 = 0 \<or> unat w div 2147483648 = 1" by linarith
    then show ?thesis by (auto simp: div_eq_0_iff)
  qed
  finally show ?thesis .
qed

lemma unat_sub_wrap: "\<not> y \<le> x \<Longrightarrow> unat (x - y) = unat x + 4294967296 - unat (y :: u32)"
  by (simp add: unat_sub_if' word_le_nat_alt)

text \<open>Distances from a base; numbers less than half the space away from it are in line.\<close>

definition dist_from :: "u32 \<Rightarrow> u32 \<Rightarrow> nat" where
  "dist_from base w = unat (w - base)"

definition in_line :: "u32 \<Rightarrow> u32 \<Rightarrow> bool" where
  "in_line base w \<longleftrightarrow> dist_from base w < 2147483648"

lemma before_in_line:
  assumes "in_line base v" and "in_line base w"
  shows "before v w \<longleftrightarrow> dist_from base v < dist_from base w"
proof -
  let ?x = "v - base" and ?y = "w - base"
  have xy: "unat ?x < 2147483648" "unat ?y < 2147483648"
    using assms by (simp_all add: in_line_def dist_from_def)
  have eq: "v - w = ?x - ?y" by simp
  have "before v w \<longleftrightarrow> 2147483648 \<le> unat (?x - ?y)"
    unfolding before_def eq by (rule sint_neg)
  also have "\<dots> \<longleftrightarrow> unat ?x < unat ?y"
  proof (cases "?y \<le> ?x")
    case True
    then have "unat (?x - ?y) = unat ?x - unat ?y" by (rule unat_sub)
    then show ?thesis using True xy by (simp add: word_le_nat_alt)
  next
    case False
    then have "unat (?x - ?y) = unat ?x + 4294967296 - unat ?y" by (rule unat_sub_wrap)
    then show ?thesis using False xy by (simp add: word_le_nat_alt)
  qed
  finally show ?thesis by (simp add: dist_from_def)
qed

lemma dist_base [simp]: "dist_from base base = 0" "in_line base base"
  by (simp_all add: dist_from_def in_line_def)

lemma dist_inj: "dist_from base v = dist_from base w \<longleftrightarrow> v = w"
  by (simp add: dist_from_def word_unat_eq_iff [symmetric])

section \<open>One path: the cutoff\<close>

definition seg_end :: "skb \<Rightarrow> u32" where
  "seg_end b = seq_no b + ucast (seg_sz b)"

definition has_data :: "skb \<Rightarrow> bool" where
  "has_data b \<longleftrightarrow> 0 < seg_sz b"

text \<open>A burst of packets through the output translation of one block.\<close>

fun send_all :: "kapi \<Rightarrow> addr \<Rightarrow> skb list \<Rightarrow> dstate \<Rightarrow> (skb list \<times> dstate) option" where
  "send_all K p [] s = Some ([], s)"
| "send_all K p (b # bs) s = (case dysco_out_translate K p b s of
     None \<Rightarrow> None
   | Some (b1, s1) \<Rightarrow> map_option (\<lambda>(bs1, s2). (b1 # bs1, s2)) (send_all K p bs s1))"

definition data_ends :: "u32 \<Rightarrow> skb list \<Rightarrow> nat set" where
  "data_ends base bs = set (map (\<lambda>b. dist_from base (seg_end b)) (filter has_data bs))"

lemma finite_data_ends [simp]: "finite (data_ends base bs)"
  by (simp add: data_ends_def)

definition ends_in_line :: "u32 \<Rightarrow> skb list \<Rightarrow> bool" where
  "ends_in_line base bs \<longleftrightarrow> list_all (\<lambda>b. in_line base (seg_end b)) bs"

lemma record_cutoff_dist:
  assumes "in_line base (o_seq_cutoff c)" and "in_line base e"
  shows "dist_from base (o_seq_cutoff (record_cutoff e c)) = max (dist_from base (o_seq_cutoff c)) (dist_from base e)"
    "in_line base (o_seq_cutoff (record_cutoff e c))"
  using assms before_in_line [OF assms] by (auto simp: record_cutoff_def after_def)

lemma record_cutoff_frame: "\<exists>x. record_cutoff e c = c\<lparr>o_seq_cutoff := x\<rparr>"
proof (cases "after e (o_seq_cutoff c)")
  case True
  then show ?thesis by (auto simp: record_cutoff_def)
next
  case False
  then have "record_cutoff e c = c\<lparr>o_seq_cutoff := o_seq_cutoff c\<rparr>" by (simp add: record_cutoff_def)
  then show ?thesis by blast
qed

lemma one_path_step:
  assumes "outs s p = Some c" and "o_other_path c = None"
  shows "dysco_out_translate K p b s = (let c1 = (if has_data b then record_cutoff (seg_end b) c else c)
    in Some (dysco_out_hdr_rewrite_csum K c1 b, set_out p c1 s))"
  using assms by (simp add: dysco_out_translate_def Let_def has_data_def seg_end_def seq_no_def)

lemma set_out_twice [simp]: "set_out p c (set_out p d s) = set_out p c s"
  by (simp add: set_out_def)

lemma send_all_cutoff:
  assumes "outs s p = Some c" and "o_other_path c = None"
    and "in_line base (o_seq_cutoff c)" and "ends_in_line base bs"
  shows "\<exists>bs' x. send_all K p bs s = Some (bs', set_out p (c\<lparr>o_seq_cutoff := x\<rparr>) s) \<and> length bs' = length bs \<and>
    in_line base x \<and> dist_from base x = Max (insert (dist_from base (o_seq_cutoff c)) (data_ends base bs))"
  using assms
proof (induction bs arbitrary: s c)
  case Nil
  have "set_out p (c\<lparr>o_seq_cutoff := o_seq_cutoff c\<rparr>) s = s"
    using Nil.prems(1) by (simp add: set_out_def fun_upd_idem)
  then show ?case using Nil.prems(3)
    by (intro exI [of _ "[]"] exI [of _ "o_seq_cutoff c"]) (simp add: data_ends_def)
next
  case (Cons b bs)
  let ?c = "if has_data b then record_cutoff (seg_end b) c else c"
  have e: "in_line base (seg_end b)" "ends_in_line base bs"
    using Cons.prems(4) by (simp_all add: ends_in_line_def)
  obtain x0 where "record_cutoff (seg_end b) c = c\<lparr>o_seq_cutoff := x0\<rparr>"
    using record_cutoff_frame by blast
  then have "?c = c\<lparr>o_seq_cutoff := if has_data b then x0 else o_seq_cutoff c\<rparr>" by simp
  then obtain y where y: "?c = c\<lparr>o_seq_cutoff := y\<rparr>" by blast
  have d: "dist_from base (o_seq_cutoff ?c) = Max (insert (dist_from base (o_seq_cutoff c))
      (if has_data b then {dist_from base (seg_end b)} else {}))" "in_line base (o_seq_cutoff ?c)"
    using record_cutoff_dist [OF Cons.prems(3) e(1)] Cons.prems(3) by simp_all
  have step: "dysco_out_translate K p b s = Some (dysco_out_hdr_rewrite_csum K ?c b, set_out p ?c s)"
    using one_path_step [OF Cons.prems(1,2)] by (simp only: Let_def)
  obtain bs' x where IH: "send_all K p bs (set_out p ?c s) =
      Some (bs', set_out p (?c\<lparr>o_seq_cutoff := x\<rparr>) (set_out p ?c s))"
    "length bs' = length bs" "in_line base x"
    "dist_from base x = Max (insert (dist_from base (o_seq_cutoff ?c)) (data_ends base bs))"
    using Cons.IH [of "set_out p ?c s" ?c] Cons.prems(2) d(2) e(2) y by fastforce
  have ends: "data_ends base (b # bs) = (if has_data b then {dist_from base (seg_end b)} else {}) \<union> data_ends base bs"
    by (simp add: data_ends_def)
  have "dist_from base x = Max (insert (dist_from base (o_seq_cutoff c)) (data_ends base (b # bs)))"
    unfolding IH(4) d(1) ends by (cases "data_ends base bs = {}") (simp_all add: max.assoc max.left_commute)
  moreover have "send_all K p (b # bs) s = Some (dysco_out_hdr_rewrite_csum K ?c b # bs', set_out p (c\<lparr>o_seq_cutoff := x\<rparr>) s)"
    using IH(1) step y by simp
  moreover have "length (dysco_out_hdr_rewrite_csum K ?c b # bs') = length (b # bs)"
    using IH(2) by simp
  ultimately show ?case using IH(3) by blast
qed

text \<open>
  C17. While a session has one path, the sequence cutoff is the highest end of any data segment
  sent: after any burst of packets (data, pure acknowledgments and retransmissions in any
  order, all within half of the sequence space of the initial cutoff) no packet was refused,
  the block changed in its cutoff only, and the cutoff is the maximum of the initial cutoff and
  of the ends of the data segments.
\<close>

theorem cutoff_is_highest_end:
  assumes "outs s p = Some c" and "o_other_path c = None" and "ends_in_line (o_seq_cutoff c) bs"
  shows "\<exists>bs' x. send_all K p bs s = Some (bs', set_out p (c\<lparr>o_seq_cutoff := x\<rparr>) s) \<and> length bs' = length bs \<and>
    dist_from (o_seq_cutoff c) x = Max (insert 0 (data_ends (o_seq_cutoff c) bs))"
  using send_all_cutoff [OF assms(1,2) _ assms(3), of K] by fastforce


text \<open>A session on one path and three segments of it: 10 bytes, an acknowledgment, 4 bytes again.\<close>

definition ref_one_path :: dstate where
  "ref_one_path = fresh_dstate\<lparr>outs := [1 \<mapsto> zero_cb_out\<lparr>o_seq_cutoff := 1000\<rparr>]\<rparr>"

definition ref_burst :: "skb list" where
  "ref_burst = [ref_skb 5 TCPHDR_ACK (mem_of []) 10, ref_skb 5 TCPHDR_ACK (mem_of []) 0,
     ref_skb 5 TCPHDR_ACK (mem_of []) 4]"

lemma ref_burst_in_line: "ends_in_line 1000 ref_burst"
  by (simp add: ref_burst_def ends_in_line_def in_line_def dist_from_def seg_end_def seq_no_def
      seg_sz_def ref_skb_def ref_th_def ihl_bytes_def doff_bytes_def)

theorem cutoff_is_highest_end_witness:
  "\<exists>bs' x. send_all ref_kapi 1 ref_burst ref_one_path =
      Some (bs', set_out 1 (zero_cb_out\<lparr>o_seq_cutoff := x\<rparr>) ref_one_path) \<and> length bs' = 3 \<and>
    dist_from 1000 x = Max (insert 0 (data_ends 1000 ref_burst))"
proof -
  have "outs ref_one_path 1 = Some (zero_cb_out\<lparr>o_seq_cutoff := 1000\<rparr>)"
    "o_other_path (zero_cb_out\<lparr>o_seq_cutoff := 1000\<rparr>) = None" "length ref_burst = 3"
    by (simp_all add: ref_one_path_def zero_cb_out_def ref_burst_def)
  with cutoff_is_highest_end [of ref_one_path 1 "zero_cb_out\<lparr>o_seq_cutoff := 1000\<rparr>" ref_burst ref_kapi]
  show ?thesis using ref_burst_in_line by simp
qed

section \<open>The switch at the right anchor\<close>

text \<open>
  The path a data segment takes at an anchor whose old block is \<open>p\<close>, whichever of the three
  states the block is in.
\<close>

lemma choose_data_path:
  assumes "outs s p = Some c" and "has_data b" and "\<not> o_state_t c" and "\<not> o_use_np_seq c"
    and "o_other_path c = Some q" and "o_state c = DYSCO_ESTABLISHED \<or> o_state c = DYSCO_SYN_RECEIVED"
  shows "out_choose_path K p b s = Some (if before (seg_end b) (o_seq_cutoff c) then p else q, b, s)"
  using assms
  by (auto simp: out_choose_path_def dysco_pick_path_seq_def Let_def has_data_def seg_end_def seq_no_def)

lemma rightA_switch:
  assumes "look_reconfig (m_super (cmsg m)) s = Some rp" and "rcbs s rp = Some r"
    and "r_old_dcb r = Some p" and "r_new_dcb r = Some q" and "p \<noteq> q"
    and "outs s p = Some c" and "outs s q = Some d"
  shows "dysco_replace_cb_rightA K m s = Some (dysco_fix_udp_checksum K (map_cmsg (\<lambda>x. x\<lparr>m_seqCutoff :=
      htonl (translate (o_seq_delta d) (o_seq_add d) (o_seq_cutoff c))\<rparr>) m),
    set_out p (c\<lparr>o_old_path := True, o_state := DYSCO_SYN_RECEIVED, o_other_path := Some q\<rparr>) s)"
  using assms by (simp add: dysco_replace_cb_rightA_def Let_def translate_def)

lemma cmsg_fix_udp [simp]: "cmsg (dysco_fix_udp_checksum K b) = cmsg b"
  by (simp add: dysco_fix_udp_checksum_def Let_def)

lemma cmsg_map [simp]: "cmsg (map_cmsg f b) = f (cmsg b)"
  by (simp add: map_cmsg_def)


text \<open>The same session with a block 2 for the new path and its reconfiguration block 3.\<close>

definition ref_switch :: dstate where
  "ref_switch = ref_one_path\<lparr>outs := [1 \<mapsto> zero_cb_out\<lparr>o_seq_cutoff := 1000\<rparr>,
       2 \<mapsto> zero_cb_out\<lparr>o_seq_delta := 50, o_seq_add := True, o_other_path := Some 1\<rparr>],
     rcbs := [3 \<mapsto> ref_rcb\<lparr>r_old_dcb := Some 1, r_new_dcb := Some 2\<rparr>],
     dh := (fresh_hashes (Some 0))\<lparr>hash_reconfig := [(m_super ref_msg, 3)]\<rparr>\<rparr>"

text \<open>A retransmission of the last four bytes but six takes the old path, one of all ten the new one.\<close>

lemma ref_burst_ends:
  "has_data (ref_skb 5 TCPHDR_ACK (mem_of []) 4)" "has_data (ref_skb 5 TCPHDR_ACK (mem_of []) 10)"
  "\<not> has_data (ref_skb 5 TCPHDR_ACK (mem_of []) 0)"
  "seg_end (ref_skb 5 TCPHDR_ACK (mem_of []) 4) = 1004" "seg_end (ref_skb 5 TCPHDR_ACK (mem_of []) 10) = 1010"
  by (simp_all add: has_data_def seg_end_def seq_no_def seg_sz_def ref_skb_def ref_th_def ihl_bytes_def doff_bytes_def)


section \<open>Acknowledgments on two paths\<close>

text \<open>A burst of acknowledgments through the choice of the path: path and number of each.\<close>

fun ack_run :: "kapi \<Rightarrow> addr \<Rightarrow> skb list \<Rightarrow> dstate \<Rightarrow> ((addr \<times> u32) list \<times> dstate) option" where
  "ack_run K p [] s = Some ([], s)"
| "ack_run K p (b # bs) s = (case dysco_pick_path_ack K p b s of
     None \<Rightarrow> None
   | Some (r, b1, s1) \<Rightarrow> map_option (\<lambda>(rs, s2). ((r, ack_no b1) # rs, s2)) (ack_run K p bs s1))"

definition covers :: "u32 \<Rightarrow> skb \<Rightarrow> bool" where
  "covers cutoff b \<longleftrightarrow> \<not> before (ack_no b) cutoff"

text \<open>
  What the specification asks for: an acknowledgment below the cutoff takes the old path as it
  is; of those that reach the cutoff the next \<open>n\<close> take the old path with the cutoff as their
  number, and everything after them takes the new path.
\<close>

fun split_acks :: "nat \<Rightarrow> u32 \<Rightarrow> addr \<Rightarrow> addr \<Rightarrow> skb list \<Rightarrow> (addr \<times> u32) list" where
  "split_acks n cutoff p q [] = []"
| "split_acks 0 cutoff p q (b # bs) = (q, ack_no b) # split_acks 0 cutoff p q bs"
| "split_acks (Suc n) cutoff p q (b # bs) = (if covers cutoff b
     then (p, cutoff) # split_acks n cutoff p q bs
     else (p, ack_no b) # split_acks (Suc n) cutoff p q bs)"

definition pure_acks :: "skb list \<Rightarrow> bool" where
  "pure_acks bs \<longleftrightarrow> list_all (\<lambda>b. \<not> tcp_flag_set (th b) TCPHDR_FIN) bs"

lemma cap_ack_no [simp]: "ack_no (cap_ack K w b) = w"
  by (simp add: cap_ack_def ack_no_def Let_def)

lemma ack_run_new_path:
  assumes "outs s p = Some c" and "o_valid_ack_cut c" and "\<not> o_state_t c" and "o_use_np_ack c"
    and "o_other_path c = Some q"
  shows "ack_run K p bs s = Some (split_acks 0 (o_ack_cutoff c) p q bs, s)"
  using assms by (induction bs) (simp_all add: dysco_pick_path_ack_def Let_def)

text \<open>How many more capped acknowledgments a block lets through on the old path.\<close>

definition caps_left :: "dysco_cb_out \<Rightarrow> nat" where
  "caps_left c = (if o_use_np_ack c then 0 else 2 - unat (o_ack_ctr c))"

definition caps_ok :: "dysco_cb_out \<Rightarrow> bool" where
  "caps_ok c \<longleftrightarrow> o_use_np_ack c \<or> unat (o_ack_ctr c) < 2"

lemma count_old_ack_left:
  assumes "\<not> o_use_np_ack c" and "unat (o_ack_ctr c) < 2"
  shows "caps_ok (count_old_ack c)" "Suc (caps_left (count_old_ack c)) = caps_left c"
    "o_other_path (count_old_ack c) = o_other_path c" "o_ack_cutoff (count_old_ack c) = o_ack_cutoff c"
    "o_valid_ack_cut (count_old_ack c) = o_valid_ack_cut c" "o_state_t (count_old_ack c) = o_state_t c"
proof -
  have "o_ack_ctr c = 0 \<or> o_ack_ctr c = 1"
    using assms(2) word_unat_eq_iff [of "o_ack_ctr c" 0] word_unat_eq_iff [of "o_ack_ctr c" 1]
    by (simp add: less_2_cases_iff)
  then show "caps_ok (count_old_ack c)" "Suc (caps_left (count_old_ack c)) = caps_left c"
    using assms(1) by (auto simp: count_old_ack_def caps_ok_def caps_left_def Let_def)
qed (simp_all add: count_old_ack_def Let_def)

lemma ack_run_split:
  assumes "outs s p = Some c" and "o_valid_ack_cut c" and "\<not> o_state_t c" and "o_other_path c = Some q"
    and "caps_ok c" and "pure_acks bs"
  shows "\<exists>s'. ack_run K p bs s = Some (split_acks (caps_left c) (o_ack_cutoff c) p q bs, s')"
  using assms
proof (induction bs arbitrary: s c)
  case (Cons b bs)
  show ?case
  proof (cases "o_use_np_ack c")
    case True
    then show ?thesis using Cons.prems ack_run_new_path [of s p c q K "b # bs"] by (simp add: caps_left_def)
  next
    case False
    then have ctr: "unat (o_ack_ctr c) < 2" using Cons.prems(5) by (simp add: caps_ok_def)
    then have "0 < caps_left c" using False by (simp add: caps_left_def)
    then obtain n where n: "caps_left c = Suc n" using gr0_implies_Suc by blast
    have ps: "pure_acks bs" "\<not> tcp_flag_set (th b) TCPHDR_FIN"
      using Cons.prems(6) by (simp_all add: pure_acks_def)
    show ?thesis
    proof (cases "covers (o_ack_cutoff c) b")
      case True
      have "dysco_pick_path_ack K p b s = Some (p, cap_ack K (o_ack_cutoff c) b, set_out p (count_old_ack c) s)"
        using Cons.prems(1-4) False True ps
        by (simp add: dysco_pick_path_ack_def Let_def covers_def ack_no_def after_def)
      moreover obtain s' where "ack_run K p bs (set_out p (count_old_ack c) s) =
          Some (split_acks n (o_ack_cutoff c) p q bs, s')"
        using Cons.IH [of "set_out p (count_old_ack c) s" "count_old_ack c"] Cons.prems ps
          count_old_ack_left [OF False ctr] n by auto
      ultimately show ?thesis using n True by simp
    next
      case cov: False
      have "dysco_pick_path_ack K p b s = Some (p, b, s)"
        using Cons.prems(1-4) False cov
        by (simp add: dysco_pick_path_ack_def Let_def covers_def ack_no_def after_def)
      moreover obtain s' where "ack_run K p bs s = Some (split_acks (Suc n) (o_ack_cutoff c) p q bs, s')"
        using Cons.IH [OF Cons.prems(1-5) ps(1)] n by auto
      ultimately show ?thesis using n cov by simp
    qed
  qed
qed simp

lemma split_acks_capped:
  "p \<noteq> q \<Longrightarrow> length (filter (\<lambda>x. x = (p, cutoff)) (split_acks n cutoff p q bs)) \<le> n"
  by (induction n cutoff p q bs rule: split_acks.induct) (auto simp: covers_def)

lemma split_acks_old_path:
  "p \<noteq> q \<Longrightarrow> list_all (\<lambda>(r, a). r = p \<longrightarrow> a = cutoff \<or> before a cutoff) (split_acks n cutoff p q bs)"
  by (induction n cutoff p q bs rule: split_acks.induct) (auto simp: covers_def)


text \<open>Five acknowledgments of which the last four reach the cutoff of 2000.\<close>

definition ref_acks :: "skb list" where
  "ref_acks = map (\<lambda>n. (ref_skb 5 TCPHDR_ACK (mem_of []) 0)\<lparr>th := (ref_th 5 TCPHDR_ACK)\<lparr>th_ack_seq := htonl n\<rparr>\<rparr>)
     [1900, 2000, 2100, 2200, 2300]"


section \<open>Giving up the old path\<close>

text \<open>The old block an input block watches: that of its own output block or of its other path.\<close>

definition watched :: "dstate \<Rightarrow> addr \<Rightarrow> addr option" where
  "watched s q = (case outs s q of None \<Rightarrow> None
     | Some co \<Rightarrow> if o_old_path co then Some q else o_other_path co)"

text \<open>
  An acknowledgment received while two paths are active ends the old path exactly when it
  covers everything sent there. One that is still below the sequence cutoff changes nothing.
  One that reaches it stops the input block from watching two paths, and every later data
  segment of the session, retransmissions included, takes the new path.
\<close>

theorem old_path_given_up:
  assumes "ins s p = Some i" and "i_dcb_out i = Some q" and "watched s q = Some po"
    and "outs s po = Some old" and "\<not> o_state_t old"
  shows "\<exists>s'. dysco_in_two_paths_ack t p s = Some s' \<and>
    (if before (ntohl (th_ack_seq t)) (o_seq_cutoff old) then s' = s
     else \<exists>i'. ins s' p = Some i' \<and> \<not> i_two_paths i' \<and>
       (\<forall>seq. dysco_pick_path_seq po seq s' = o_other_path old))"
proof -
  obtain co where co: "outs s q = Some co" "po = q \<and> o_old_path co \<or> \<not> o_old_path co \<and> o_other_path co = Some po"
    using assms(3) by (auto simp: watched_def split: option.splits if_splits)
  show ?thesis
    using co(2) assms co(1)
    by (auto simp: dysco_in_two_paths_ack_def end_two_paths_def old_path_acked_def after_def Let_def
        dysco_pick_path_seq_def)
qed

text \<open>The input block 5 of the old path, whose output block 1 has sent up to 1000.\<close>

definition ref_watch :: dstate where
  "ref_watch = fresh_dstate\<lparr>outs := [1 \<mapsto> zero_cb_out\<lparr>o_old_path := True, o_other_path := Some 2,
     o_seq_cutoff := 1000, o_state := DYSCO_SYN_RECEIVED\<rparr>,
     2 \<mapsto> zero_cb_out\<lparr>o_other_path := Some 1, o_in_iack := 5, o_out_iack := 9\<rparr>],
     ins := [5 \<mapsto> zero_cb_in\<lparr>i_dcb_out := Some 1, i_two_paths := True\<rparr>,
             6 \<mapsto> zero_cb_in\<lparr>i_dcb_out := Some 2, i_two_paths := True\<rparr>]\<rparr>"

theorem old_path_given_up_witness:
  "\<exists>s'. dysco_in_two_paths_ack (ref_th 5 TCPHDR_ACK) 5 ref_watch = Some s' \<and>
    (if before 2000 1000 then s' = ref_watch
     else \<exists>i'. ins s' 5 = Some i' \<and> \<not> i_two_paths i' \<and> (\<forall>seq. dysco_pick_path_seq 1 seq s' = Some 2))"
proof -
  let ?i = "zero_cb_in\<lparr>i_dcb_out := Some 1, i_two_paths := True\<rparr>"
  let ?c = "zero_cb_out\<lparr>o_old_path := True, o_other_path := Some 2, o_seq_cutoff := 1000, o_state := DYSCO_SYN_RECEIVED\<rparr>"
  have "ins ref_watch 5 = Some ?i" "i_dcb_out ?i = Some 1" "watched ref_watch 1 = Some 1"
    "outs ref_watch 1 = Some ?c" "\<not> o_state_t ?c"
    by (simp_all add: ref_watch_def watched_def zero_cb_out_def)
  note r = old_path_given_up [OF this, of "ref_th 5 TCPHDR_ACK"]
  have "o_other_path ?c = Some 2" "o_seq_cutoff ?c = 1000" "ntohl (th_ack_seq (ref_th 5 TCPHDR_ACK)) = 2000"
    by (simp_all add: ref_th_def)
  with r show ?thesis by (simp only:)
qed

section \<open>The acknowledgment cutoff learned from the new path\<close>

text \<open>A burst of data segments that arrive on the new path.\<close>

fun data_seg_run :: "addr \<Rightarrow> tcphdr list \<Rightarrow> dstate \<Rightarrow> (bool list \<times> dstate) option" where
  "data_seg_run p [] s = Some ([], s)"
| "data_seg_run p (t # ts) s = (case dysco_in_two_paths_data_seg t p s of
     None \<Rightarrow> None
   | Some (go, s1) \<Rightarrow> map_option (\<lambda>(gs, s2). (go # gs, s2)) (data_seg_run p ts s1))"

definition start_on_old :: "dysco_cb_out \<Rightarrow> tcphdr \<Rightarrow> u32" where
  "start_on_old co t = (ntohl (th_seq t) - o_out_iack co) + o_in_iack co"

lemma new_path_seq_formula: "new_path_seq co x = (x - o_out_iack co) + o_in_iack co"
  by (simp add: new_path_seq_def)

lemma lower_ack_cutoff_dist:
  assumes "in_line base e" and "o_valid_ack_cut old \<Longrightarrow> in_line base (o_ack_cutoff old)"
  shows "in_line base (o_ack_cutoff (lower_ack_cutoff e old))" "o_valid_ack_cut (lower_ack_cutoff e old)"
    "dist_from base (o_ack_cutoff (lower_ack_cutoff e old)) =
       Min (insert (dist_from base e) (if o_valid_ack_cut old then {dist_from base (o_ack_cutoff old)} else {}))"
  using assms before_in_line [OF assms(1), of "o_ack_cutoff old"]
  by (auto simp: lower_ack_cutoff_def min_def)

lemma lower_ack_cutoff_frame:
  "\<exists>x v. lower_ack_cutoff e old = old\<lparr>o_ack_cutoff := x, o_valid_ack_cut := v\<rparr>"
proof (cases "lower_ack_cutoff e old = old")
  case True
  then have "lower_ack_cutoff e old = old\<lparr>o_ack_cutoff := o_ack_cutoff old, o_valid_ack_cut := o_valid_ack_cut old\<rparr>"
    by simp
  then show ?thesis by blast
next
  case False
  then have "o_valid_ack_cut old \<Longrightarrow> lower_ack_cutoff e old = old\<lparr>o_ack_cutoff := e, o_valid_ack_cut := o_valid_ack_cut old\<rparr>"
    by (auto simp: lower_ack_cutoff_def split: if_splits)
  then show ?thesis by (cases "o_valid_ack_cut old") (auto simp: lower_ack_cutoff_def split: if_splits)
qed

definition sorting_out :: "dysco_cb_out \<Rightarrow> bool" where
  "sorting_out old \<longleftrightarrow> o_state old = DYSCO_SYN_SENT \<or> o_state old = DYSCO_SYN_RECEIVED"

definition starts_in_line :: "u32 \<Rightarrow> dysco_cb_out \<Rightarrow> tcphdr list \<Rightarrow> bool" where
  "starts_in_line base co ts \<longleftrightarrow> list_all (\<lambda>t. in_line base (start_on_old co t)) ts"

lemma data_seg_step:
  assumes "ins s p = Some i" and "i_dcb_out i = Some q" and "outs s q = Some co" and "\<not> o_old_path co"
    and "o_other_path co = Some po" and "outs s po = Some old" and "sorting_out old"
  shows "dysco_in_two_paths_data_seg t p s = Some (True, set_out po (lower_ack_cutoff (start_on_old co t) old) s)"
  using assms by (auto simp: dysco_in_two_paths_data_seg_def start_on_old_def new_path_seq_formula
      sorting_out_def)

lemma data_seg_run_min:
  assumes "ins s p = Some i" and "i_dcb_out i = Some q" and "outs s q = Some co" and "\<not> o_old_path co"
    and "o_other_path co = Some po" and "po \<noteq> q" and "outs s po = Some old" and "sorting_out old"
    and "starts_in_line base co ts" and "o_valid_ack_cut old" and "in_line base (o_ack_cutoff old)"
  shows "\<exists>gs s' old'. data_seg_run p ts s = Some (gs, s') \<and> list_all (\<lambda>g. g) gs \<and> outs s' po = Some old' \<and>
    o_valid_ack_cut old' \<and> dist_from base (o_ack_cutoff old') =
      Min (insert (dist_from base (o_ack_cutoff old)) (set (map (\<lambda>t. dist_from base (start_on_old co t)) ts)))"
  using assms
proof (induction ts arbitrary: s old)
  case (Cons t ts)
  let ?old = "lower_ack_cutoff (start_on_old co t) old"
  have l: "in_line base (start_on_old co t)" "starts_in_line base co ts"
    using Cons.prems(9) by (simp_all add: starts_in_line_def)
  note d = lower_ack_cutoff_dist [OF l(1) Cons.prems(11)]
  have st: "sorting_out ?old" using lower_ack_cutoff_frame [of "start_on_old co t" old] Cons.prems(8)
    by (auto simp: sorting_out_def)
  have co: "outs (set_out po ?old s) q = Some co" using Cons.prems(3,6) by simp
  obtain gs s' old' where IH: "data_seg_run p ts (set_out po ?old s) = Some (gs, s')" "list_all (\<lambda>g. g) gs"
    "outs s' po = Some old'" "o_valid_ack_cut old'" "dist_from base (o_ack_cutoff old') =
      Min (insert (dist_from base (o_ack_cutoff ?old)) (set (map (\<lambda>t. dist_from base (start_on_old co t)) ts)))"
    using Cons.IH [of "set_out po ?old s" ?old] Cons.prems(1-6) co st l d by auto
  have "dist_from base (o_ack_cutoff old') = Min (insert (dist_from base (o_ack_cutoff old))
      (set (map (\<lambda>t. dist_from base (start_on_old co t)) (t # ts))))"
    unfolding IH(5) d(3) using Cons.prems(10)
    by (cases "ts = []") (simp_all add: min.assoc min.commute min.left_commute)
  moreover have "data_seg_run p (t # ts) s = Some (True # gs, s')"
    using IH(1) data_seg_step [OF Cons.prems(1-5,7,8), of t] by simp
  ultimately show ?case using IH(2-4)
    by (intro exI [of _ "True # gs"] exI [of _ s'] exI [of _ old']) simp
qed simp

text \<open>
  C19. Data that reaches an anchor on the new path before the control message does: after any
  non-empty burst of such segments the cutoff of acknowledgments for the old path is valid and
  is the lowest start of the burst, translated back to the numbers of the old path
  (\<open>seq - out_iack + in_iack\<close>), so that no byte of the new path is acknowledged on the old one.
\<close>

theorem ack_cutoff_is_lowest_start:
  assumes "ins s p = Some i" and "i_dcb_out i = Some q" and "outs s q = Some co" and "\<not> o_old_path co"
    and "o_other_path co = Some po" and "po \<noteq> q" and "outs s po = Some old" and "sorting_out old"
    and "starts_in_line base co (t # ts)" and "\<not> o_valid_ack_cut old"
  shows "\<exists>gs s' old'. data_seg_run p (t # ts) s = Some (gs, s') \<and> list_all (\<lambda>g. g) gs \<and>
    outs s' po = Some old' \<and> o_valid_ack_cut old' \<and>
    dist_from base (o_ack_cutoff old') = Min (set (map (\<lambda>t. dist_from base (start_on_old co t)) (t # ts)))"
proof -
  let ?old = "lower_ack_cutoff (start_on_old co t) old"
  have l: "in_line base (start_on_old co t)" "starts_in_line base co ts"
    using assms(9) by (simp_all add: starts_in_line_def)
  note d = lower_ack_cutoff_dist [OF l(1), of old]
  have st: "sorting_out ?old" using lower_ack_cutoff_frame [of "start_on_old co t" old] assms(8)
    by (auto simp: sorting_out_def)
  have co: "outs (set_out po ?old s) q = Some co" using assms(3,6) by simp
  show ?thesis
    using data_seg_run_min [of "set_out po ?old s" p i q co po ?old base ts] assms(1-6,10) co st l d
      data_seg_step [OF assms(1-5,7,8), of t] by auto
qed

theorem ack_cutoff_is_lowest_start_witness:
  "\<exists>gs s' old'. data_seg_run 6 [ref_th 5 0, (ref_th 5 0)\<lparr>th_seq := htonl 904\<rparr>] ref_watch = Some (gs, s') \<and>
    list_all (\<lambda>g. g) gs \<and> outs s' 1 = Some old' \<and> o_valid_ack_cut old' \<and>
    dist_from 500 (o_ack_cutoff old') = Min (set [496, 400])"
proof -
  let ?i = "zero_cb_in\<lparr>i_dcb_out := Some 2, i_two_paths := True\<rparr>"
  let ?co = "zero_cb_out\<lparr>o_other_path := Some 1, o_in_iack := 5, o_out_iack := 9\<rparr>"
  let ?c = "zero_cb_out\<lparr>o_old_path := True, o_other_path := Some 2, o_seq_cutoff := 1000, o_state := DYSCO_SYN_RECEIVED\<rparr>"
  let ?t = "(ref_th 5 0)\<lparr>th_seq := htonl 904\<rparr>"
  have "ins ref_watch 6 = Some ?i" "i_dcb_out ?i = Some 2" "outs ref_watch 2 = Some ?co" "\<not> o_old_path ?co"
    "o_other_path ?co = Some 1" "(1::nat) \<noteq> 2" "outs ref_watch 1 = Some ?c" "sorting_out ?c"
    "starts_in_line 500 ?co [ref_th 5 0, ?t]" "\<not> o_valid_ack_cut ?c"
    by (simp_all add: ref_watch_def zero_cb_out_def sorting_out_def starts_in_line_def start_on_old_def
        in_line_def dist_from_def ref_th_def)
  from ack_cutoff_is_lowest_start [OF this] show ?thesis
    by (simp add: dist_from_def start_on_old_def ref_th_def)
qed

section \<open>The window of a splice\<close>

text \<open>
  While a session is being spliced, the window a host announces is throttled: in bytes it
  is never above 16 KB and never above what the host would have announced itself, and it is
  zero when more than 16 KB wait to be read. No bit is lost by the scaling.
\<close>

theorem splice_window_bounded:
  "unat (ntohs (splice_window my other w)) * 2 ^ unat (rcv_wscale my) \<le> 16384 \<and>
   ntohs (splice_window my other w) \<le> ntohs w \<and>
   (splice_rcv_buf my other > 16384 \<longrightarrow> splice_window my other w = 0)"
proof -
  let ?n = "unat (rcv_wscale my)"
  define old where "old = (push_bit ?n (ucast (ntohs w)) :: u32)"
  define new where "new = (if splice_rcv_buf my other > MAX_WND_REC then 0
    else if MAX_WND_REC > old then old else MAX_WND_REC)"
  have w: "unat (ntohs w) < 65536" using unsigned_less [of "ntohs w"] by simp
  have "?n < 2 ^ LENGTH(4)" by (rule unsigned_less)
  then have n: "?n \<le> 15" by simp
  have "(2::nat) ^ ?n \<le> 2 ^ 15" using n by (rule power_increasing) simp
  then have "unat (ntohs w) * 2 ^ ?n < 65536 * 2 ^ 15"
    using w by (intro mult_less_le_imp_less) simp_all
  then have v: "unat (ntohs w) * 2 ^ ?n mod 4294967296 = unat (ntohs w) * 2 ^ ?n" by simp
  have u: "unat (ucast (ntohs w) :: u32) = unat (ntohs w)"
    using w by (simp add: unsigned_ucast_eq take_bit_eq_mod)
  have old: "unat old = unat (ntohs w) * 2 ^ ?n"
    unfolding old_def unat_push32 u by (rule v)
  have new: "unat new \<le> 16384" "unat new \<le> unat old"
    by (auto simp: new_def word_less_nat_alt)
  have win: "splice_window my other w = htons (ucast (drop_bit ?n new))"
    by (simp add: splice_window_def Let_def new_def old_def)
  have d: "unat new div 2 ^ ?n \<le> 16384" using new(1) div_le_dividend le_trans by blast
  have r: "unat (ntohs (splice_window my other w)) = unat new div 2 ^ ?n"
    unfolding win bswap16_bswap16 unat_u16_of_u32 unat_drop_bit_eq
    using d by (simp add: drop_bit_eq_div)
  have "unat new div 2 ^ ?n * 2 ^ ?n \<le> unat new" by (rule div_times_less_eq_dividend)
  moreover have "unat new div 2 ^ ?n \<le> unat (ntohs w)"
    using div_le_mono [OF new(2), of "2 ^ ?n"] unfolding old by simp
  moreover have "splice_window my other w = 0" if "splice_rcv_buf my other > 16384"
    using that by (simp add: win new_def bswap16_def)
  moreover have "unat new div 2 ^ ?n * 2 ^ ?n \<le> 16384"
    using calculation(1) new(1) by (rule le_trans)
  ultimately show ?thesis unfolding r word_le_nat_alt by blast
qed

text \<open>A socket that has 20000 bytes waiting to be read.\<close>

definition ref_sock :: tcp_sock where
  "ref_sock = \<lparr>rcv_wscale = 7, rcv_nxt = 20000, copied_seq = 0, snd_wnd = 0, snd_nxt = 0,
     snd_una = 0, max_window = 0\<rparr>"

theorem splice_window_bounded_witness:
  "splice_rcv_buf ref_sock ref_sock > 16384 \<and> splice_window ref_sock ref_sock (htons 500) = 0 \<and>
   ntohs (splice_window ref_sock ref_sock (htons 500)) \<le> 500"
proof -
  have "splice_rcv_buf ref_sock ref_sock > 16384" by (simp add: splice_rcv_buf_def ref_sock_def)
  with splice_window_bounded [of ref_sock ref_sock "htons 500"] show ?thesis
    unfolding bswap16_bswap16 by blast
qed

end
