(* ===== verification/Dysco_Reconfig.thy ===== *)
theory Dysco_Reconfig
  imports Dysco_Paths
begin

text \<open>
  The reconfiguration protocol between a left and a right anchor: what \<open>DYSCO_SYN_ACK\<close> and
  \<open>DYSCO_ACK\<close> leave in the blocks of the two hosts (\<open>Dysco_Handshake\<close> puts the \<open>DYSCO_SYN\<close> in front),
  that retransmitted messages are harmless where the code takes care of them, and where it
  does not.
\<close>

section \<open>The handshake\<close>

text \<open>
  A control packet of the exchange that \<open>m\<close> identifies, and its arrival at an address. The
  messages of an exchange agree on the sessions, the anchors and the semantic; the hosts on the
  way write their own ports into a message.
\<close>

definition same_exchange :: "control_message \<Rightarrow> control_message \<Rightarrow> bool" where
  "same_exchange m m' \<longleftrightarrow> m_super m' = m_super m \<and> m_leftSS m' = m_leftSS m \<and> m_rightSS m' = m_rightSS m \<and>
     m_leftA m' = m_leftA m \<and> m_rightA m' = m_rightA m \<and> m_semantic m' = m_semantic m"

definition control_packet :: "control_message \<Rightarrow> dysco_msg \<Rightarrow> skb \<Rightarrow> bool" where
  "control_packet m ty b \<longleftrightarrow> same_exchange m (cmsg b) \<and> m_mtype (cmsg b) = msg_code ty \<and>
     uh_dest (uh b) = dysco_control_port \<and> is_control_len (uh b)"

definition leaves :: "control_message \<Rightarrow> dysco_msg \<Rightarrow> u32 \<Rightarrow> skb \<Rightarrow> bool" where
  "leaves m ty a b \<longleftrightarrow> control_packet m ty b \<and> saddr (iph b) = a \<and> a \<in> set (ifa_addresses (skb_dev b))"

definition arrives :: "u32 \<Rightarrow> skb \<Rightarrow> skb \<Rightarrow> bool" where
  "arrives a b b' \<longleftrightarrow> (\<exists>x y. cmsg b' = (cmsg b)\<lparr>m_sport := x, m_dport := y\<rparr>) \<and> daddr (iph b') = a \<and>
     uh_dest (uh b') = dysco_control_port \<and> is_control_len (uh b')"

lemma leavesD:
  assumes "leaves m ty a b"
  shows "same_exchange m (cmsg b)" "m_mtype (cmsg b) = msg_code ty" "saddr (iph b) = a"
  using assms by (simp_all add: leaves_def control_packet_def)

lemma arrivesD:
  assumes "arrives a b b'"
  shows "same_exchange m (cmsg b') = same_exchange m (cmsg b)" "m_mtype (cmsg b') = m_mtype (cmsg b)"
    "m_seqCutoff (cmsg b') = m_seqCutoff (cmsg b)" "m_leftIseq (cmsg b') = m_leftIseq (cmsg b)"
    "m_leftIack (cmsg b') = m_leftIack (cmsg b)" "daddr (iph b') = a"
  using assms by (auto simp: arrives_def same_exchange_def)

lemma look_set [simp]:
  "look_reconfig k (set_out p c s) = look_reconfig k s" "look_out k (set_out p c s) = look_out k s"
  "look_reconfig k (set_in p i s) = look_reconfig k s" "look_out k (set_in p i s) = look_out k s"
  "look_reconfig k (set_rcb p r s) = look_reconfig k s" "look_out k (set_rcb p r s) = look_out k s"
  by (simp_all add: look_defs)

text \<open>An anchor before the handshake: block \<open>p\<close> of the old path, \<open>q\<close> of the new, \<open>rp\<close> in charge.\<close>

definition right_anchor :: "dstate \<Rightarrow> addr \<Rightarrow> addr \<Rightarrow> addr \<Rightarrow> control_message \<Rightarrow> dysco_cb_out \<Rightarrow> dysco_cb_out \<Rightarrow> bool" where
  "right_anchor s rp p q m c d \<longleftrightarrow> look_reconfig (m_super m) s = Some rp \<and>
     (\<exists>r. rcbs s rp = Some r \<and> r_old_dcb r = Some p \<and> r_new_dcb r = Some q) \<and> p \<noteq> q \<and>
     outs s p = Some c \<and> outs s q = Some d \<and> \<not> o_state_t c"

definition left_anchor :: "dstate \<Rightarrow> addr \<Rightarrow> addr \<Rightarrow> control_message \<Rightarrow> dysco_cb_out \<Rightarrow> bool" where
  "left_anchor s rp p m c \<longleftrightarrow> look_reconfig (m_super m) s = Some rp \<and> look_out (m_leftSS m) s = Some p \<and>
     (\<exists>r. rcbs s rp = Some r \<and> r_old_dcb r = Some p) \<and> outs s p = Some c \<and> o_state c = DYSCO_SYN_SENT \<and>
     \<not> o_state_t c"

lemma anchor_exchange:
  assumes "same_exchange m m'"
  shows "right_anchor s rp p q m' c d = right_anchor s rp p q m c d" "left_anchor s rp p m' c = left_anchor s rp p m c"
  using assms by (simp_all add: same_exchange_def right_anchor_def left_anchor_def)

lemma rightA_syn_ack:
  assumes "right_anchor s rp p q (cmsg b) c d"
  shows "\<exists>b' s'. dysco_replace_cb_rightA K b s = Some (b', s') \<and>
    cmsg b' = (cmsg b)\<lparr>m_seqCutoff := htonl (translate (o_seq_delta d) (o_seq_add d) (o_seq_cutoff c))\<rparr> \<and>
    s' = set_out p (c\<lparr>o_old_path := True, o_state := DYSCO_SYN_RECEIVED, o_other_path := Some q\<rparr>) s"
  using assms rightA_switch [of b s rp _ p q c d K] by (auto simp: right_anchor_def)

lemma leftA_syn_ack:
  assumes "left_anchor s rp p (cmsg b) c" and "daddr (iph b) = m_leftA (cmsg b)"
  shows "control_input_syn_ack b s = Some (False,
    set_out p (c\<lparr>o_ack_cutoff := ntohl (m_seqCutoff (cmsg b)), o_valid_ack_cut := True\<rparr>) s)"
  using assms by (simp add: control_input_syn_ack_def left_anchor_def)

lemma leftA_ack:
  assumes "left_anchor s rp p (cmsg b) c" and "saddr (iph b) = m_leftA (cmsg b)"
    and "ntohs (m_semantic (cmsg b)) \<noteq> STATE_TRANSFER"
  shows "\<exists>b' s'. control_output_ack K b s = Some (b', s') \<and>
    cmsg b' = (cmsg b)\<lparr>m_seqCutoff := htonl (o_seq_cutoff c)\<rparr> \<and>
    outs s' = (outs s)(p \<mapsto> c\<lparr>o_state := DYSCO_ESTABLISHED\<rparr>)"
  using assms
  by (auto simp: control_output_ack_def left_anchor_def dysco_replace_cb_leftA_def getnstimeofday_def Let_def)

lemma rightA_ack:
  assumes "look_reconfig (m_super (cmsg b)) s = Some rp" and "rcbs s rp = Some r" and "r_old_dcb r = Some p"
    and "outs s p = Some c" and "o_other_path c = Some q" and "outs s q = Some d" and "\<not> o_state_t c"
    and "o_state c \<noteq> DYSCO_ESTABLISHED" and "m_rightA (cmsg b) = daddr (iph b)"
  shows "control_input_ack b s = Some (False, set_out p (c\<lparr>o_ack_cutoff := new_path_seq d (ntohl (m_seqCutoff (cmsg b))),
    o_valid_ack_cut := True, o_state := DYSCO_ESTABLISHED\<rparr>) s)"
  using assms by (simp add: control_input_ack_def Let_def)

lemma output_msg:
  "leaves m ty a b \<Longrightarrow> dysco_control_output K b s = control_output_msg K b s"
  by (auto simp: dysco_control_output_def leaves_def control_packet_def bswap16_def)

lemma output_syn_ack:
  "leaves m DYSCO_SYN_ACK (m_rightA m) b \<Longrightarrow> control_output_msg K b s =
     Option.bind (dysco_replace_cb_rightA K b s) (\<lambda>(b1, s1). Some (TX_CONTINUE, b1, s1))"
  by (simp add: control_output_msg_def leaves_def control_packet_def same_exchange_def msg_of_code_msg_code)

lemma output_ack:
  "leaves m DYSCO_ACK (m_leftA m) b \<Longrightarrow> control_output_msg K b s =
     Option.bind (control_output_ack K b s) (\<lambda>(b1, s1). Some (TX_CONTINUE, b1, s1))"
  by (simp add: control_output_msg_def leaves_def control_packet_def same_exchange_def msg_of_code_msg_code)

lemma input_syn_ack:
  assumes "arrives a b b'" and "m_mtype (cmsg b) = msg_code DYSCO_SYN_ACK"
    and "control_input_syn_ack b' s = Some (ret, s1)"
  shows "dysco_control_input K b' s = Some (True, leave_switch ret b', s1)"
  using assms arrivesD(2) [OF assms(1)] by (auto simp: dysco_control_input_def arrives_def msg_of_code_msg_code)

lemma input_ack:
  assumes "arrives a b b'" and "m_mtype (cmsg b) = msg_code DYSCO_ACK"
    and "control_input_ack b' s = Some (ret, s1)"
  shows "dysco_control_input K b' s = Some (True, leave_switch ret b', s1)"
  using assms arrivesD(2) [OF assms(1)] by (auto simp: dysco_control_input_def arrives_def msg_of_code_msg_code)

text \<open>
  The second half of the handshake, from any two states in which the anchors are prepared. The
  right anchor answers with \<open>DYSCO_SYN_ACK\<close>, the answer reaches the left anchor, which confirms
  with \<open>DYSCO_ACK\<close>, and the confirmation reaches the right anchor. No step faults and afterwards
  both old blocks are established and hold each other's cutoff.
\<close>

theorem anchors_exchange_cutoffs:
  assumes "right_anchor sR rp p q m c d" and "leaves m DYSCO_SYN_ACK (m_rightA m) b1"
    and "left_anchor sL lp l m e" and "leaves m DYSCO_ACK (m_leftA m) b2"
    and "ntohs (m_semantic m) \<noteq> STATE_TRANSFER"
  shows "\<exists>b1' sR1. dysco_control_output KR b1 sR = Some (TX_CONTINUE, b1', sR1) \<and>
    (\<forall>a1. arrives (m_leftA m) b1' a1 \<longrightarrow> (\<exists>a1' sL1 b2' sL2. dysco_control_input KL a1 sL = Some (True, a1', sL1) \<and>
       dysco_control_output KL b2 sL1 = Some (TX_CONTINUE, b2', sL2) \<and>
       outs sL2 l = Some (e\<lparr>o_ack_cutoff := translate (o_seq_delta d) (o_seq_add d) (o_seq_cutoff c),
         o_valid_ack_cut := True, o_state := DYSCO_ESTABLISHED\<rparr>) \<and>
       (\<forall>a2. arrives (m_rightA m) b2' a2 \<longrightarrow> (\<exists>a2' sR2. dysco_control_input KR a2 sR1 = Some (True, a2', sR2) \<and>
         outs sR2 p = Some (c\<lparr>o_old_path := True, o_other_path := Some q, o_state := DYSCO_ESTABLISHED,
           o_valid_ack_cut := True,
           o_ack_cutoff := (o_seq_cutoff e - o_out_iack d) + o_in_iack d\<rparr>)))))"
proof -
  let ?x = "htonl (translate (o_seq_delta d) (o_seq_add d) (o_seq_cutoff c))"
  let ?c = "c\<lparr>o_old_path := True, o_state := DYSCO_SYN_RECEIVED, o_other_path := Some q\<rparr>"
  let ?sR1 = "set_out p ?c sR"
  note l1 = leavesD [OF assms(2)] and l2 = leavesD [OF assms(4)]
  have "right_anchor sR rp p q (cmsg b1) c d" using assms(1) anchor_exchange(1) [OF l1(1)] by simp
  then obtain b1' where b1': "dysco_control_output KR b1 sR = Some (TX_CONTINUE, b1', ?sR1)"
    "cmsg b1' = (cmsg b1)\<lparr>m_seqCutoff := ?x\<rparr>"
    using rightA_syn_ack [of sR rp p q b1 c d KR] output_msg [OF assms(2)] output_syn_ack [OF assms(2)] by auto
  have e1: "same_exchange m (cmsg b1')" "m_mtype (cmsg b1') = msg_code DYSCO_SYN_ACK" "m_seqCutoff (cmsg b1') = ?x"
    using l1 b1'(2) by (simp_all add: same_exchange_def)
  have "\<exists>a1' sL1 b2' sL2. dysco_control_input KL a1 sL = Some (True, a1', sL1) \<and>
       dysco_control_output KL b2 sL1 = Some (TX_CONTINUE, b2', sL2) \<and>
       outs sL2 l = Some (e\<lparr>o_ack_cutoff := ntohl ?x, o_valid_ack_cut := True, o_state := DYSCO_ESTABLISHED\<rparr>) \<and>
       (\<forall>a2. arrives (m_rightA m) b2' a2 \<longrightarrow> (\<exists>a2' sR2. dysco_control_input KR a2 ?sR1 = Some (True, a2', sR2) \<and>
         outs sR2 p = Some (c\<lparr>o_old_path := True, o_other_path := Some q, o_state := DYSCO_ESTABLISHED,
           o_valid_ack_cut := True, o_ack_cutoff := new_path_seq d (o_seq_cutoff e)\<rparr>)))"
    if a1: "arrives (m_leftA m) b1' a1" for a1
  proof -
    let ?e = "e\<lparr>o_ack_cutoff := ntohl ?x, o_valid_ack_cut := True\<rparr>"
    note d1 = arrivesD [OF a1]
    have x1: "same_exchange m (cmsg a1)" using d1(1) [of m] e1(1) by simp
    have "left_anchor sL lp l (cmsg a1) e" "daddr (iph a1) = m_leftA (cmsg a1)" "m_seqCutoff (cmsg a1) = ?x"
      using assms(3) anchor_exchange(2) [OF x1] x1 d1(3,6) e1(3) by (simp_all add: same_exchange_def)
    then have in1: "dysco_control_input KL a1 sL = Some (True, leave_switch False a1, set_out l ?e sL)"
      using input_syn_ack [OF a1 e1(2) leftA_syn_ack] by simp
    have "left_anchor (set_out l ?e sL) lp l (cmsg b2) ?e"
      using assms(3) l2(1) by (simp add: left_anchor_def same_exchange_def)
    then obtain b2' sL2 where b2': "control_output_ack KL b2 (set_out l ?e sL) = Some (b2', sL2)"
      "cmsg b2' = (cmsg b2)\<lparr>m_seqCutoff := htonl (o_seq_cutoff e)\<rparr>"
      "outs sL2 l = Some (?e\<lparr>o_state := DYSCO_ESTABLISHED\<rparr>)"
      using leftA_ack [of "set_out l ?e sL" lp l b2 ?e KL] l2 assms(5) by (auto simp: same_exchange_def)
    have e2: "same_exchange m (cmsg b2')" "m_mtype (cmsg b2') = msg_code DYSCO_ACK"
      "m_seqCutoff (cmsg b2') = htonl (o_seq_cutoff e)"
      using l2 b2'(2) by (simp_all add: same_exchange_def)
    have out2: "dysco_control_output KL b2 (set_out l ?e sL) = Some (TX_CONTINUE, b2', sL2)"
      using b2'(1) output_msg [OF assms(4)] output_ack [OF assms(4)] by simp
    have "dysco_control_input KR a2 ?sR1 = Some (True, leave_switch False a2, set_out p (?c\<lparr>o_ack_cutoff :=
        new_path_seq d (o_seq_cutoff e), o_valid_ack_cut := True, o_state := DYSCO_ESTABLISHED\<rparr>) ?sR1)"
      if a2: "arrives (m_rightA m) b2' a2" for a2
    proof -
      note d2 = arrivesD [OF a2]
      obtain r where r: "look_reconfig (m_super m) sR = Some rp" "rcbs sR rp = Some r" "r_old_dcb r = Some p"
        "outs sR q = Some d" "p \<noteq> q" "\<not> o_state_t c"
        using assms(1) by (auto simp: right_anchor_def)
      have "control_input_ack a2 ?sR1 = Some (False, set_out p (?c\<lparr>o_ack_cutoff := new_path_seq d (ntohl (m_seqCutoff (cmsg a2))),
          o_valid_ack_cut := True, o_state := DYSCO_ESTABLISHED\<rparr>) ?sR1)"
        using r d2(6) d2(1) [of m] e2(1) by (intro rightA_ack) (auto simp: same_exchange_def)
      then show ?thesis using input_ack [OF a2 e2(2)] d2(3) e2(3) by simp
    qed
    then show ?thesis using in1 out2 b2'(3) by fastforce
  qed
  then show ?thesis using b1'(1) unfolding new_path_seq_formula bswap32_bswap32 by blast
qed

text \<open>Two hosts that exchange \<open>ref_msg\<close>: block 1 old and 2 new on the right, block 1 old on the left.\<close>

definition ref_right :: dstate where
  "ref_right = fresh_dstate\<lparr>outs := [1 \<mapsto> zero_cb_out\<lparr>o_seq_cutoff := 1000\<rparr>,
       2 \<mapsto> zero_cb_out\<lparr>o_seq_delta := 50, o_seq_add := True, o_in_iack := 9\<rparr>],
     rcbs := [3 \<mapsto> ref_rcb\<lparr>r_old_dcb := Some 1, r_new_dcb := Some 2\<rparr>],
     dh := (fresh_hashes (Some 0))\<lparr>hash_reconfig := [(m_super ref_msg, 3)]\<rparr>\<rparr>"

definition ref_left :: dstate where
  "ref_left = fresh_dstate\<lparr>outs := [1 \<mapsto> zero_cb_out\<lparr>o_seq_cutoff := 77, o_state := DYSCO_SYN_SENT\<rparr>],
     rcbs := [3 \<mapsto> ref_rcb\<lparr>r_old_dcb := Some 1\<rparr>],
     dh := (fresh_hashes (Some 0))\<lparr>hash_reconfig := [(m_super ref_msg, 3)],
       hash_out := [(m_leftSS ref_msg, 1)]\<rparr>\<rparr>"

definition ref_ctl :: "dysco_msg \<Rightarrow> u32 \<Rightarrow> skb" where
  "ref_ctl ty a = ref_syn\<lparr>cmsg := ref_msg\<lparr>m_mtype := msg_code ty\<rparr>, iph := (iph ref_syn)\<lparr>saddr := a\<rparr>,
     skb_dev := ref_dev\<lparr>ifa_addresses := [a]\<rparr>\<rparr>"

definition deliver :: "u32 \<Rightarrow> skb \<Rightarrow> skb" where
  "deliver a b = b\<lparr>iph := (iph b)\<lparr>daddr := a\<rparr>, uh := uh ref_syn\<rparr>"

lemma deliver_arrives: "arrives a b (deliver a b)"
proof -
  have "cmsg b = (cmsg b)\<lparr>m_sport := m_sport (cmsg b), m_dport := m_dport (cmsg b)\<rparr>" by (cases "cmsg b") simp
  then have "\<exists>x y. cmsg b = (cmsg b)\<lparr>m_sport := x, m_dport := y\<rparr>" by blast
  then show ?thesis by (simp add: arrives_def deliver_def ref_syn_def is_control_len_def)
qed

lemma ref_exchange:
  "right_anchor ref_right 3 1 2 ref_msg (zero_cb_out\<lparr>o_seq_cutoff := 1000\<rparr>)
     (zero_cb_out\<lparr>o_seq_delta := 50, o_seq_add := True, o_in_iack := 9\<rparr>)"
  "left_anchor ref_left 3 1 ref_msg (zero_cb_out\<lparr>o_seq_cutoff := 77, o_state := DYSCO_SYN_SENT\<rparr>)"
  "leaves ref_msg ty a (ref_ctl ty a)" "ntohs (m_semantic ref_msg) \<noteq> STATE_TRANSFER"
  by (simp_all add: right_anchor_def left_anchor_def leaves_def control_packet_def same_exchange_def ref_right_def ref_left_def
      ref_ctl_def ref_syn_def look_defs ht_lookup_def zero_cb_out_def is_control_len_def)
    (simp add: ref_msg_def ref_skb_def bswap16_def)

theorem anchors_exchange_cutoffs_witness:
  "\<exists>b1' sR1 a1' sL1 b2' sL2 a2' sR2.
    dysco_control_output ref_kapi (ref_ctl DYSCO_SYN_ACK (m_rightA ref_msg)) ref_right = Some (TX_CONTINUE, b1', sR1) \<and>
    dysco_control_input ref_kapi (deliver (m_leftA ref_msg) b1') ref_left = Some (True, a1', sL1) \<and>
    dysco_control_output ref_kapi (ref_ctl DYSCO_ACK (m_leftA ref_msg)) sL1 = Some (TX_CONTINUE, b2', sL2) \<and>
    map_option o_ack_cutoff (outs sL2 1) = Some 1050 \<and>
    dysco_control_input ref_kapi (deliver (m_rightA ref_msg) b2') sR1 = Some (True, a2', sR2) \<and>
    map_option o_ack_cutoff (outs sR2 1) = Some 86 \<and> map_option o_state (outs sR2 1) = Some DYSCO_ESTABLISHED"
proof -
  note r = anchors_exchange_cutoffs [OF ref_exchange(1) ref_exchange(3) ref_exchange(2) ref_exchange(3)
      ref_exchange(4), of ref_kapi ref_kapi]
  obtain b1' sR1 where 1: "dysco_control_output ref_kapi (ref_ctl DYSCO_SYN_ACK (m_rightA ref_msg)) ref_right =
      Some (TX_CONTINUE, b1', sR1)"
    and 2: "\<And>a1. arrives (m_leftA ref_msg) b1' a1 \<Longrightarrow> \<exists>a1' sL1 b2' sL2.
      dysco_control_input ref_kapi a1 ref_left = Some (True, a1', sL1) \<and>
      dysco_control_output ref_kapi (ref_ctl DYSCO_ACK (m_leftA ref_msg)) sL1 = Some (TX_CONTINUE, b2', sL2) \<and>
      map_option o_ack_cutoff (outs sL2 1) = Some 1050 \<and>
      (\<forall>a2. arrives (m_rightA ref_msg) b2' a2 \<longrightarrow> (\<exists>a2' sR2. dysco_control_input ref_kapi a2 sR1 = Some (True, a2', sR2) \<and>
        map_option o_ack_cutoff (outs sR2 1) = Some 86 \<and> map_option o_state (outs sR2 1) = Some DYSCO_ESTABLISHED))"
    using r by (elim exE conjE) (rule that, assumption, drule spec, drule mp, assumption, fastforce simp: translate_def zero_cb_out_def)
  show ?thesis using 1 2 [OF deliver_arrives] deliver_arrives by blast
qed

section \<open>Retransmitted messages\<close>

lemma config_rightA_tables:
  assumes "dysco_control_config_rightA rp m pi po s = Some (True, s')"
  shows "dh s' = dh s"
  using assms by (auto simp: dysco_control_config_rightA_def Let_def bind_eq_Some_conv split: option.splits if_splits)

lemma config_rightA_failed:
  assumes "dysco_control_config_rightA rp m pi po s = Some (False, s')"
  shows "\<exists>r. rcbs s rp = Some r \<and> hash_reconfig (dh s') = ht_remove (r_super r) rp (hash_reconfig (dh s))"
  using assms by (auto simp: dysco_control_config_rightA_def Let_def bind_eq_Some_conv free_in_def link_defs
      split: option.splits if_splits)

lemma reconfig_in_table:
  assumes "dysco_control_reconfig_in K b rp s = Some (ok, s')" and "rcbs s rp = Some r"
  shows "hash_reconfig (dh s') = (if ok then hash_reconfig (dh s) else ht_remove (r_super r) rp (hash_reconfig (dh s)))"
  using assms
  by (auto simp: dysco_control_reconfig_in_def alloc_in_def alloc_out_def dysco_build_cb_in_reverse_def free_in_def
      bind_eq_Some_conv Let_def split: if_splits option.splits prod.splits
      dest: config_rightA_tables) (drule config_rightA_failed, simp)

text \<open>
  C20. A \<open>DYSCO_SYN\<close> is processed once. If the first copy is accepted, every further copy leaves
  the host exactly as it is, on whatever terms memory is available then. If the first copy is
  refused (no memory, or a session the right anchor does not know), the table of
  reconfigurations is as before, so that a retransmission is tried afresh.
\<close>

theorem syn_processed_once:
  assumes "control_input_syn K b s = Some (ok, s1)"
  shows "if ok then control_input_syn K' b s1 = Some (True, s1)
    else hash_reconfig (dh s1) = hash_reconfig (dh s)"
proof (cases "look_reconfig (m_super (cmsg b)) s")
  case None
  show ?thesis
  proof (cases "k_alloc K (n_alloc s)")
    case False
    then show ?thesis using assms None
      by (auto simp: control_input_syn_def dysco_insert_rcb_control_input_def alloc_rcb_def Let_def)
  next
    case True
    let ?r = "rcb_from_syn (cmsg b) (iph b) (k_junk_rcb K (next_addr s))"
    let ?p = "next_addr s"
    let ?s = "link_reconfig (r_super ?r) ?p (set_rcb ?p ?r (bump s))"
    have in': "dysco_control_reconfig_in K b ?p ?s = Some (ok, s1)"
      using assms None True by (simp add: control_input_syn_def dysco_insert_rcb_control_input_def alloc_rcb_def Let_def)
    have "rcbs ?s ?p = Some ?r" by simp
    from reconfig_in_table [OF in' this] have "hash_reconfig (dh s1) = (if ok
        then ht_insert (m_super (cmsg b)) ?p (hash_reconfig (dh s)) else hash_reconfig (dh s))"
      by (simp add: rcb_from_syn_def tbl.unlink_link)
    then show ?thesis by (simp add: control_input_syn_def look_defs tbl.lookup_link_same)
  qed
qed (use assms in \<open>simp add: control_input_syn_def\<close>)

theorem syn_processed_once_witness:
  "\<exists>s1. control_input_syn ref_kapi ref_syn (fresh_dstate\<lparr>outs := [1 \<mapsto> zero_cb_out], next_addr := 3,
      dh := (fresh_hashes (Some 0))\<lparr>hash_out := [(rev_session (m_rightSS ref_msg), 1)]\<rparr>\<rparr>) = Some (True, s1) \<and>
    control_input_syn ref_kapi ref_syn s1 = Some (True, s1)"
proof -
  let ?s = "fresh_dstate\<lparr>outs := [1 \<mapsto> zero_cb_out], next_addr := 3,
      dh := (fresh_hashes (Some 0))\<lparr>hash_out := [(rev_session (m_rightSS ref_msg), 1)]\<rparr>\<rparr>"
  have "map_option fst (control_input_syn ref_kapi ref_syn ?s) = Some True" by code_simp
  then obtain s1 where "control_input_syn ref_kapi ref_syn ?s = Some (True, s1)" by auto
  with syn_processed_once [OF this, of ref_kapi] show ?thesis by simp
qed

text \<open>The state of the left anchor after its first \<open>DYSCO_SYN\<close>: the reconfiguration block holds the message.\<close>

lemma insert_cb_control_result:
  assumes "dysco_insert_cb_control K b s = (Some rp, b1, s1)"
  shows "\<exists>r. rcbs s1 rp = Some r \<and> look_reconfig (m_leftSS (cmsg b)) s1 = Some rp \<and>
    cmsg b1 = (cmsg b)\<lparr>m_sport := sport (r_sub_out r), m_dport := dport (r_sub_out r)\<rparr> \<and>
    r_leftIseq r = ntohl (m_leftIseq (cmsg b)) \<and> r_leftIack r = ntohl (m_leftIack (cmsg b)) \<and>
    r_leftIts r = ntohl (m_leftIts (cmsg b)) \<and> r_leftItsr r = ntohl (m_leftItsr (cmsg b)) \<and>
    r_leftIws r = ntohs (m_leftIws (cmsg b)) \<and> r_leftIwsr r = ntohs (m_leftIwsr (cmsg b)) \<and>
    r_sack_ok r = ucast (ntohs (m_sackOk (cmsg b)))"
  using assms
  by (auto simp: dysco_insert_cb_control_def alloc_rcb_def Let_def split_beta rcb_from_msg_def look_defs
      tbl.lookup_link_same split: if_splits)

text \<open>A block that keeps what a retransmission needs.\<close>

definition repeats :: "dysco_cb_reconfig \<Rightarrow> control_message \<Rightarrow> bool" where
  "repeats r m \<longleftrightarrow> msg_from_rcb r m = m"

lemma insert_cb_control_repeats:
  assumes "dysco_insert_cb_control K b s = (Some rp, b1, s1)" and "m_sackOk (cmsg b) = htons (if f then 1 else 0)"
  shows "\<exists>r. rcbs s1 rp = Some r \<and> look_reconfig (m_leftSS (cmsg b)) s1 = Some rp \<and> repeats r (cmsg b1) \<and>
    m_super (cmsg b1) = m_super (cmsg b)"
proof -
  have "ucast (ucast (if f then 1 else 0 :: u16) :: u8) = (if f then 1 else 0 :: u16)" by simp
  then show ?thesis
    using insert_cb_control_result [OF assms(1)] assms(2) by (auto simp: repeats_def msg_from_rcb_def)
qed

lemma leftA_tail_frame:
  assumes "dysco_insert_cb_out_reverse K pn two s = Some (qn, s')"
  shows "rcbs s' = rcbs s" "hash_reconfig (dh s') = hash_reconfig (dh s)"
  using assms by (auto simp: dysco_insert_cb_out_reverse_def alloc_in_def Let_def bind_eq_Some_conv split: if_splits)

lemma leftA_mark_old_frame:
  assumes "leftA_mark_old po pn tr s = Some s'"
  shows "rcbs s' = rcbs s" "dh s' = dh s"
  using assms by (auto simp: leftA_mark_old_def Let_def bind_eq_Some_conv)

lemma leftA_syn_sent:
  assumes "control_output_syn_leftA K b s = Some (TX_CONTINUE, b1, s1)"
  shows "\<exists>rp r. look_reconfig (m_leftSS (cmsg b)) s1 = Some rp \<and> rcbs s1 rp = Some r \<and>
    msg_from_rcb r (cmsg b) = cmsg b1"
proof -
  obtain po old q i where o: "look_out (m_leftSS (cmsg b)) s = Some po" "outs s po = Some old" "o_dcb_in old = Some q"
    "ins s q = Some i"
    using assms by (auto simp: control_output_syn_leftA_def bind_eq_Some_conv split: option.splits)
  let ?b = "map_cmsg (msg_from_cb_out old i) b"
  obtain ro b1' s2 where ins: "dysco_insert_cb_control K ?b s = (ro, b1', s2)" by (metis prod_cases3)
  obtain rp where ro: "ro = Some rp"
    using assms o ins by (cases ro) (auto simp: control_output_syn_leftA_def)
  obtain pn s3 where pn: "alloc_out K zero_cb_out s2 = (Some pn, s3)"
    using assms o ins ro by (cases "alloc_out K zero_cb_out s2"; cases "fst (alloc_out K zero_cb_out s2)")
      (auto simp: control_output_syn_leftA_def)
  obtain r where r: "rcbs s2 rp = Some r" "look_reconfig (m_leftSS (cmsg b)) s2 = Some rp" "repeats r (cmsg b1')"
    using insert_cb_control_repeats [OF ins [unfolded ro], of "o_sack_ok old"] by (auto simp: msg_from_cb_out_def)
  have s3: "rcbs s3 = rcbs s2" "dh s3 = dh s2"
    using pn by (auto simp: alloc_out_def split: if_splits)
  have cm: "cmsg b1' = (msg_from_cb_out old i (cmsg b))\<lparr>m_sport := m_sport (cmsg b1'), m_dport := m_dport (cmsg b1')\<rparr>"
    using insert_cb_control_result [OF ins [unfolded ro]] by auto
  obtain qn s4 new new1 where s4: "dysco_insert_cb_out_reverse K pn True (set_out pn (new\<lparr>o_other_path := Some po\<rparr>)
        (set_rcb rp (r\<lparr>r_old_dcb := Some po\<rparr>) s3)) = Some (qn, s4)" "outs s4 pn = Some new1"
    "leftA_mark_old po pn (ntohs (m_semantic (cmsg b1')) = STATE_TRANSFER) (set_out pn (new1\<lparr>o_dcb_in := qn\<rparr>) s4) = Some s1"
    and b1: "b1 = b1'"
    using assms o ins ro pn r(1) s3(1) by (auto simp: control_output_syn_leftA_def Let_def bind_eq_Some_conv)
  have 1: "rcbs s1 rp = Some (r\<lparr>r_old_dcb := Some po\<rparr>)" "hash_reconfig (dh s1) = hash_reconfig (dh s2)"
    using leftA_mark_old_frame [OF s4(3)] leftA_tail_frame [OF s4(1)] s3 by simp_all
  have "msg_from_rcb (r\<lparr>r_old_dcb := Some po\<rparr>) (cmsg b) = msg_from_rcb r (cmsg b1')"
    by (subst cm) (simp add: msg_from_rcb_def msg_from_cb_out_def)
  then show ?thesis using 1 r(2,3) b1 by (auto simp: repeats_def look_defs)
qed

text \<open>
  A retransmitted \<open>DYSCO_SYN\<close> of the left anchor says what the first one said. After the
  first copy went out, another copy from the daemon is filled from the reconfiguration block
  with the same initial numbers, timestamps, scales and ports, creates nothing and changes
  nothing, although the connection may have moved on in between.
\<close>

theorem syn_retransmitted_verbatim:
  assumes "dysco_control_output_syn K b s = Some (TX_CONTINUE, b1, s1)" and "saddr (iph b) = m_leftA (cmsg b)"
    and "m_super (cmsg b) = m_leftSS (cmsg b)" and "look_reconfig (m_super (cmsg b)) s = None"
  shows "\<exists>b2. dysco_control_output_syn K' b s1 = Some (TX_CONTINUE, b2, s1) \<and> cmsg b2 = cmsg b1"
proof -
  have "control_output_syn_leftA K b s = Some (TX_CONTINUE, b1, s1)"
    using assms by (simp add: dysco_control_output_syn_def)
  then show ?thesis
    using leftA_syn_sent [of K b s b1 s1] assms(2,3) by (auto simp: dysco_control_output_syn_def)
qed

text \<open>A left anchor with one established session, block 1 and its input block 2.\<close>

definition ref_leftA :: dstate where
  "ref_leftA = fresh_dstate\<lparr>outs := [1 \<mapsto> zero_cb_out\<lparr>o_dcb_in := Some 2, o_in_iseq := 11, o_in_iack := 22, o_sack_ok := True\<rparr>],
     ins := [2 \<mapsto> zero_cb_in], next_addr := 3,
     dh := (fresh_hashes (Some 0))\<lparr>hash_out := [(m_leftSS ref_msg, 1)]\<rparr>\<rparr>"

theorem syn_retransmitted_verbatim_witness:
  "\<exists>b1 s1 b2. dysco_control_output_syn ref_kapi ref_syn ref_leftA = Some (TX_CONTINUE, b1, s1) \<and>
    dysco_control_output_syn ref_kapi ref_syn s1 = Some (TX_CONTINUE, b2, s1) \<and> cmsg b2 = cmsg b1"
proof -
  have "map_option fst (dysco_control_output_syn ref_kapi ref_syn ref_leftA) = Some TX_CONTINUE" by code_simp
  then obtain b1 s1 where 1: "dysco_control_output_syn ref_kapi ref_syn ref_leftA = Some (TX_CONTINUE, b1, s1)" by auto
  have "saddr (iph ref_syn) = m_leftA (cmsg ref_syn)" "m_super (cmsg ref_syn) = m_leftSS (cmsg ref_syn)"
    "look_reconfig (m_super (cmsg ref_syn)) ref_leftA = None"
    by (simp_all add: ref_syn_def ref_skb_def ref_msg_def ref_leftA_def look_defs ht_lookup_def fresh_hashes_def)
  from syn_retransmitted_verbatim [OF 1 this, of ref_kapi] 1 show ?thesis by blast
qed

text \<open>
  A retransmitted \<open>DYSCO_SYN_ACK\<close> is not harmless: when the right anchor has already been
  confirmed (its old block is established), sending the answer once more puts the block back
  to \<open>DYSCO_SYN_RECEIVED\<close>, in which data on the new path may lower the acknowledgment cutoff
  again although the confirmed one was final.
\<close>

theorem syn_ack_resets_established:
  assumes "right_anchor s rp p q m c d" and "leaves m DYSCO_SYN_ACK (m_rightA m) b"
    and "o_state c = DYSCO_ESTABLISHED"
  shows "\<exists>b' s' c'. dysco_control_output K b s = Some (TX_CONTINUE, b', s') \<and> outs s' p = Some c' \<and>
    o_state c' = DYSCO_SYN_RECEIVED \<and> o_ack_cutoff c' = o_ack_cutoff c \<and> sorting_out c' \<and> \<not> sorting_out c"
proof -
  have "right_anchor s rp p q (cmsg b) c d"
    using assms(1) anchor_exchange(1) [OF leavesD(1) [OF assms(2)]] by simp
  then show ?thesis
    using rightA_syn_ack [of s rp p q b c d K] output_msg [OF assms(2)] output_syn_ack [OF assms(2)] assms(3)
    by (fastforce simp: sorting_out_def)
qed

theorem syn_ack_resets_established_witness:
  "\<exists>b' s' c'. dysco_control_output ref_kapi (ref_ctl DYSCO_SYN_ACK (m_rightA ref_msg))
      (set_out 1 (zero_cb_out\<lparr>o_state := DYSCO_ESTABLISHED\<rparr>) ref_right) = Some (TX_CONTINUE, b', s') \<and>
    outs s' 1 = Some c' \<and> o_state c' = DYSCO_SYN_RECEIVED"
proof -
  have "right_anchor (set_out 1 (zero_cb_out\<lparr>o_state := DYSCO_ESTABLISHED\<rparr>) ref_right) 3 1 2 ref_msg
      (zero_cb_out\<lparr>o_state := DYSCO_ESTABLISHED\<rparr>)
      (zero_cb_out\<lparr>o_seq_delta := 50, o_seq_add := True, o_in_iack := 9\<rparr>)"
    using ref_exchange(1) by (auto simp: right_anchor_def zero_cb_out_def)
  from syn_ack_resets_established [OF this ref_exchange(3), of ref_kapi] show ?thesis by fastforce
qed

end
