(* ===== verification/Dysco_Progress.thy ===== *)
theory Dysco_Progress
  imports Dysco_Safety Dysco_Reconfig
begin

text \<open>
  What the invariant of \<open>Dysco_Safety\<close> gives: in a reachable state the tables and pointers the data
  path follows are live, and a segment of a known session is handled without a fault.
\<close>

section \<open>No fault on the data path\<close>

text \<open>
  A SYN segment without the ACK flag carries the chain of the session; the module trusts what it
  reads there. Every other segment is handled without a fault.
\<close>

definition chain_syn :: "skb \<Rightarrow> bool" where
  "chain_syn b \<longleftrightarrow> tcp_flag_set (th b) TCPHDR_SYN \<and> \<not> tcp_flag_set (th b) TCPHDR_ACK"

lemma in_rewrite_live: "ins s p \<noteq> None \<Longrightarrow> in_rewrite_step K p b s \<noteq> None"
  by (auto simp: in_rewrite_step_def split: prod.splits)

lemma two_paths_ack_live:
  assumes "heap_ok s" and "ins s p = Some i" and "p \<in> in_nodes s"
  shows "\<exists>s'. dysco_in_two_paths_ack t p s = Some s' \<and> ins s' p \<noteq> None"
proof (cases "i_dcb_out i")
  case None then show ?thesis using assms by (simp add: dysco_in_two_paths_ack_def)
next
  case (Some q)
  obtain co where co: "outs s q = Some co" using heap_okD(5) [OF assms(1,2,3)] Some by (auto simp: in_closed_def)
  show ?thesis
  proof (cases "o_other_path co")
    case None then show ?thesis
      using assms Some co by (simp add: dysco_in_two_paths_ack_def end_two_paths_def Let_def)
  next
    case (Some q')
    obtain old where "outs s q' = Some old" using heap_okD(2) [OF assms(1) co] Some by (auto simp: out_closed_def)
    then show ?thesis
      using assms \<open>i_dcb_out i = Some q\<close> co Some by (simp add: dysco_in_two_paths_ack_def end_two_paths_def Let_def)
  qed
qed

lemma two_paths_data_live:
  assumes "heap_ok s" and "ins s p = Some i" and "p \<in> in_nodes s"
  shows "\<exists>go s'. dysco_in_two_paths_data_seg t p s = Some (go, s') \<and> ins s' p \<noteq> None"
proof (cases "i_dcb_out i")
  case None then show ?thesis using assms by (simp add: dysco_in_two_paths_data_seg_def) blast
next
  case (Some q)
  obtain co where co: "outs s q = Some co" using heap_okD(5) [OF assms(1,2,3)] Some by (auto simp: in_closed_def)
  show ?thesis
  proof (cases "o_other_path co")
    case None then show ?thesis using assms Some co by (simp add: dysco_in_two_paths_data_seg_def) blast
  next
    case (Some q')
    obtain old where "outs s q' = Some old" using heap_okD(2) [OF assms(1) co] Some by (auto simp: out_closed_def)
    then show ?thesis
      using assms \<open>i_dcb_out i = Some q\<close> co Some by (simp add: dysco_in_two_paths_data_seg_def Let_def) blast
  qed
qed

lemma set_ack_number_live:
  assumes "heap_ok s" and "ins s p = Some i"
  shows "\<exists>s'. dysco_set_ack_number_out b p s = Some s' \<and> ins s' p \<noteq> None"
proof -
  let ?i = "set_ack_number_in (th b) i"
  let ?k = "\<lparr>sip = dip (i_super ?i), dip = sip (i_super ?i), sport = dport (i_super ?i), dport = sport (i_super ?i)\<rparr>"
  show ?thesis
  proof (cases "look_out ?k s")
    case None then show ?thesis using assms(2) by (simp add: dysco_set_ack_number_out_def Let_def look_out_def)
  next
    case (Some q)
    then obtain co where "outs s q = Some co" using look_nodes(1) heap_okD(6) [OF assms(1)] by blast
    then show ?thesis
      using assms(2) Some by (simp add: dysco_set_ack_number_out_def Let_def look_out_def)
  qed
qed

lemma input_never_faults:
  assumes "heap_ok s" and "\<not> chain_syn b" and "dysco_lookup_input b s \<noteq> None \<or> \<not> tcp_flag_set (th b) TCPHDR_SYN"
  shows "dysco_input_tcp K b s \<noteq> None"
proof (cases "dysco_lookup_input b s")
  case None then show ?thesis using assms(3) by (simp add: dysco_input_tcp_def)
next
  case (Some p)
  then have n: "p \<in> in_nodes s" unfolding dysco_lookup_input_def by (rule look_nodes)
  then obtain i where i: "ins s p = Some i" using heap_okD(7) [OF assms(1)] by blast
  show ?thesis
  proof (cases "tcp_flag_set (th b) TCPHDR_SYN")
    case True
    have "heap_ok (set_in p (i\<lparr>i_skb_iif := skb_iif b\<rparr>) s)" using assms(1) i by (rule heap_update_in) simp
    then obtain s' where s': "dysco_set_ack_number_out b p (set_in p (i\<lparr>i_skb_iif := skb_iif b\<rparr>) s) = Some s'"
      "ins s' p \<noteq> None"
      using set_ack_number_live [of "set_in p (i\<lparr>i_skb_iif := skb_iif b\<rparr>) s" p "i\<lparr>i_skb_iif := skb_iif b\<rparr>" b] by auto
    then show ?thesis
      using True Some i assms(2) in_rewrite_live [OF s'(2), of K b]
      by (simp add: dysco_input_tcp_def dysco_input_syn_def chain_syn_def)
  next
    case False
    obtain go s' where d: "dysco_in_two_paths_data_seg (th b) p s = Some (go, s')" "ins s' p \<noteq> None"
      using two_paths_data_live [OF assms(1) i n] by blast
    obtain s'' where a: "dysco_in_two_paths_ack (th b) p s = Some s''" "ins s'' p \<noteq> None"
      using two_paths_ack_live [OF assms(1) i n] by blast
    show ?thesis
      using Some False i d a in_rewrite_live [OF d(2), of K b] in_rewrite_live [OF a(2), of K b] in_rewrite_live [of s p K b]
      by (simp add: dysco_input_tcp_def)
  qed
qed

lemma fix_window_live:
  assumes "heap_ok s" and "outs s p = Some c" and "o_my_tp c \<noteq> None"
  shows "dysco_fix_rcv_window K c b s \<noteq> None"
proof -
  obtain my other where "Option.bind (o_my_tp c) (socks s) = Some my" "Option.bind (o_other_tp c) (socks s) = Some other"
    using assms(3) heap_okD(2) [OF assms(1,2)] unfolding out_closed_def by blast
  then show ?thesis by (simp only: dysco_fix_rcv_window_def bind.simps) simp
qed

lemma output_never_faults:
  assumes "heap_ok s" and "\<not> chain_syn b" and "dysco_out_lookup b s = Some p"
  shows "dysco_output_tcp K b s \<noteq> None"
proof -
  have "p \<in> out_nodes s" using assms(3) unfolding dysco_out_lookup_def by (rule look_nodes)
  then obtain c where c: "outs s p = Some c" using heap_okD(6) [OF assms(1)] by blast
  show ?thesis
  proof (cases "tcp_flag_set (th b) TCPHDR_SYN")
    case True
    let ?c = "dysco_parse_tcp_syn_opt_s (th b) (tdata b) (c\<lparr>o_seq_cutoff := ntohl (th_seq (th b))\<rparr>)"
    have a: "out_syn_ack K p ?c b (set_out p ?c s) \<noteq> None"
    proof (cases "look_in \<lparr>sip = dip (o_sub ?c), dip = sip (o_sub ?c), sport = dport (o_sub ?c), dport = sport (o_sub ?c)\<rparr> s")
      case None then show ?thesis by (simp add: out_syn_ack_def look_in_def)
    next
      case (Some q)
      then obtain i where "ins s q = Some i" using look_nodes(2) heap_okD(7) [OF assms(1)] by blast
      then show ?thesis using Some by (simp add: out_syn_ack_def look_in_def Let_def)
    qed
    then show ?thesis
      using True assms(2,3) c
      by (simp add: dysco_output_tcp_def dysco_output_known_def dysco_out_syn_def out_syn_known_def chain_syn_def Let_def)
  next
    case False
    let ?m = "if o_my_tp c \<noteq> None \<and> tcp_flag_set (th b) TCPHDR_ACK \<and> \<not> o_state_t c
      then dysco_fix_rcv_window K c b s else Some b"
    obtain b1 where b1: "?m = Some b1" using fix_window_live [OF assms(1) c, of K b] by (cases ?m) (auto split: if_splits)
    obtain b2 s' where b2: "dysco_out_translate K p b1 s = Some (b2, s')" using out_translate_live [OF assms(1) c] by blast
    have "dysco_output_tcp K b s = do { b1 \<leftarrow> ?m; (b2, s1) \<leftarrow> dysco_out_translate K p b1 s; Some (TX_CONTINUE, b2, s1) }"
      using False assms(3) c by (simp add: dysco_output_tcp_def dysco_output_known_def)
    then show ?thesis by (simp only: b1 b2 bind.simps prod.case) simp
  qed
qed

section \<open>The new path of the left anchor\<close>

lemma insert_cb_control_new:
  assumes "k_alloc K (n_alloc s)"
  shows "\<exists>b1 s1 r. dysco_insert_cb_control K b s = (Some (next_addr s), b1, s1) \<and> outs s1 = outs s \<and> ins s1 = ins s \<and>
    rcbs s1 (next_addr s) = Some r \<and> next_addr s1 = Suc (next_addr s) \<and> n_alloc s1 = Suc (n_alloc s) \<and>
    hash_reconfig (dh s1) = (m_leftSS (cmsg b), next_addr s) # hash_reconfig (dh s) \<and>
    r_super r = m_leftSS (cmsg b) \<and> r_leftIseq r = ntohl (m_leftIseq (cmsg b)) \<and> r_leftIack r = ntohl (m_leftIack (cmsg b)) \<and>
    cmsg b1 = (cmsg b)\<lparr>m_sport := sport (r_sub_out r), m_dport := dport (r_sub_out r)\<rparr> \<and>
    daddr (iph b) = dip (r_sub_out r) \<and> hash_out (dh s1) = hash_out (dh s) \<and> dysco_route K b1 = dysco_route K b"
  using assms
  by (simp add: dysco_insert_cb_control_def alloc_rcb_def Let_def split_beta rcb_from_msg_def getnstimeofday_def
      alloc_port_pair_def allocate_local_port_def dysco_fix_udp_checksum_def map_cmsg_def ht_insert_def fun_eq_iff dysco_route_def)

lemma leftA_new_cb_route: "leftA_new_cb K b r = None \<longleftrightarrow> dysco_route K b (dip (r_sub_out r)) = None"
  by (simp add: leftA_new_cb_def dysco_arp_route cb_out_of_rcb_def zero_cb_out_def)

lemma leftA_new_cb_fields:
  assumes "leftA_new_cb K b r = Some c"
  shows "o_super c = r_super r" "o_in_iseq c = r_leftIseq r" "o_out_iseq c = r_leftIseq r" "o_in_iack c = r_leftIack r"
    "o_out_iack c = r_leftIack r" "o_seq_delta c = 0" "o_ack_delta c = 0" "dip (o_sub c) = dip (r_sub_out r)"
    "o_other_path c = None" "o_dcb_in c = None"
  using dysco_arp_result [OF assms [unfolded leftA_new_cb_def]] by (auto simp: cb_out_of_rcb_def zero_cb_out_def)

text \<open>
  The state after the first \<open>DYSCO_SYN\<close> of the left anchor: the old block \<open>p\<close> (marked for a
  state transfer if the message asks for one) waits for the answer and points to the new block \<open>n\<close>, which translates nothing, has its own subsession
  towards the next hop, and whose input block expects two paths.
\<close>

definition new_path_started :: "addr \<Rightarrow> dysco_cb_out \<Rightarrow> addr \<Rightarrow> skb \<Rightarrow> addr \<Rightarrow> dstate \<Rightarrow> bool" where
  "new_path_started p c q b n s \<longleftrightarrow>
     (\<exists>d qi i j r. outs s p = Some (c\<lparr>o_old_path := True,
        o_state_t := (o_state_t c \<or> ntohs (m_semantic (cmsg b)) = STATE_TRANSFER),
        o_state := DYSCO_SYN_SENT, o_other_path := Some n\<rparr>) \<and>
      outs s n = Some d \<and> o_super d = m_leftSS (cmsg b) \<and> dip (o_sub d) = daddr (iph b) \<and> o_other_path d = Some p \<and>
        o_in_iseq d = o_in_iseq c \<and> o_out_iseq d = o_in_iseq c \<and> o_in_iack d = o_in_iack c \<and> o_out_iack d = o_in_iack c \<and>
        o_seq_delta d = 0 \<and> o_ack_delta d = 0 \<and> o_dcb_in d = Some qi \<and>
      look_in (rev_session (o_sub d)) s = Some qi \<and> ins s qi = Some i \<and> i_two_paths i \<and> i_dcb_out i = Some n \<and>
        i_super i = rev_session (m_leftSS (cmsg b)) \<and>
      ins s q = Some j \<and> i_two_paths j \<and>
      look_reconfig (m_leftSS (cmsg b)) s = Some r \<and> map_option r_old_dcb (rcbs s r) = Some (Some p))"

lemma leftA_new_path_exact:
  assumes "stores_fresh s" and "look_out (m_leftSS (cmsg b)) s = Some p" and "outs s p = Some c" and "o_dcb_in c = Some q"
    and "ins s q = Some i" and "k_alloc K (n_alloc s)" and "k_alloc K (Suc (n_alloc s))" and "k_alloc K (Suc (Suc (n_alloc s)))"
  shows "case dysco_route K b (daddr (iph b)) of None \<Rightarrow> control_output_syn_leftA K b s = None
    | Some _ \<Rightarrow> \<exists>b' s'. control_output_syn_leftA K b s = Some (TX_CONTINUE, b', s') \<and>
        new_path_started p c q b (Suc (next_addr s)) s' \<and>
        (\<exists>x y. cmsg b' = (msg_from_cb_out c i (cmsg b))\<lparr>m_sport := x, m_dport := y\<rparr>) \<and>
        hash_out (dh s') = hash_out (dh s)"
proof -
  let ?rp = "next_addr s" and ?n = "Suc (next_addr s)" and ?qi = "Suc (Suc (next_addr s))"
  let ?b = "map_cmsg (msg_from_cb_out c i) b"
  have f: "p \<noteq> ?rp" "p \<noteq> ?n" "p \<noteq> ?qi" "q \<noteq> ?rp" "q \<noteq> ?n" "q \<noteq> ?qi"
    using assms(1,3,5) by (auto simp: stores_fresh_def)
  obtain b1 s1 r where ins: "dysco_insert_cb_control K ?b s = (Some ?rp, b1, s1)" and s1: "outs s1 = outs s" "ins s1 = ins s"
    "rcbs s1 ?rp = Some r" "next_addr s1 = ?n" "n_alloc s1 = Suc (n_alloc s)"
    "hash_reconfig (dh s1) = (m_leftSS (cmsg ?b), ?rp) # hash_reconfig (dh s)" "hash_out (dh s1) = hash_out (dh s)"
    and r0: "r_super r = m_leftSS (cmsg ?b)" "r_leftIseq r = ntohl (m_leftIseq (cmsg ?b))"
      "r_leftIack r = ntohl (m_leftIack (cmsg ?b))" "daddr (iph ?b) = dip (r_sub_out r)"
    and b0: "cmsg b1 = (cmsg ?b)\<lparr>m_sport := sport (r_sub_out r), m_dport := dport (r_sub_out r)\<rparr>"
      "dysco_route K b1 = dysco_route K ?b"
    using insert_cb_control_new [OF assms(6), of ?b] by blast
  have ss: "m_leftSS (cmsg ?b) = m_leftSS (cmsg b)" by (simp add: map_cmsg_def msg_from_cb_out_def)
  note s1 = s1 [unfolded ss]
  have r: "r_super r = m_leftSS (cmsg b)" "r_leftIseq r = o_in_iseq c" "r_leftIack r = o_in_iack c" "daddr (iph b) = dip (r_sub_out r)"
    using r0 by (simp_all add: map_cmsg_def msg_from_cb_out_def)
  have b1: "\<exists>x y. cmsg b1 = (msg_from_cb_out c i (cmsg b))\<lparr>m_sport := x, m_dport := y\<rparr>"
      "m_semantic (cmsg b1) = m_semantic (cmsg b)" "dysco_route K b1 = dysco_route K b"
    using b0 by (auto simp: map_cmsg_def msg_from_cb_out_def dysco_route_def fun_eq_iff)
  have al: "alloc_out K zero_cb_out s1 = (Some ?n, set_out ?n zero_cb_out (bump s1))"
    using assms(7) s1(4,5) by (simp add: alloc_out_def)
  show ?thesis
  proof (cases "leftA_new_cb K b1 r")
    case None
    then have "control_output_syn_leftA K b s = None"
      using assms(2-5) ins al s1(3) by (simp add: control_output_syn_leftA_def Let_def)
    then show ?thesis using None r(4) b1(3) by (simp add: leftA_new_cb_route)
  next
    case cb: (Some new0)
    define new where "new = new0\<lparr>o_other_path := Some p\<rparr>"
    let ?rev = "cb_out_reverse ?n new True"
    define s4 where "s4 = link_in (i_sub ?rev) ?qi (set_out ?n (new\<lparr>o_dcb_in := Some ?qi\<rparr>)
        (set_in ?qi ?rev (bump (set_out ?n new (set_rcb ?rp (r\<lparr>r_old_dcb := Some p\<rparr>) (set_out ?n zero_cb_out (bump s1)))))))"
    have rv: "dysco_insert_cb_out_reverse K ?n True (set_out ?n new (set_rcb ?rp (r\<lparr>r_old_dcb := Some p\<rparr>)
        (set_out ?n zero_cb_out (bump s1)))) = Some (Some ?qi, s4)"
      using assms(8) s1(4,5) by (simp add: dysco_insert_cb_out_reverse_def alloc_in_def Let_def s4_def)
    define tr where "tr = (ntohs (m_semantic (cmsg b1)) = STATE_TRANSFER)"
    define s5 where "s5 = set_out ?n (new\<lparr>o_dcb_in := Some ?qi\<rparr>) s4"
    define c' where "c' = (if tr then c\<lparr>o_old_path := True, o_state_t := True\<rparr> else c\<lparr>o_old_path := True\<rparr>)
        \<lparr>o_state := DYSCO_SYN_SENT, o_other_path := Some ?n\<rparr>"
    have s5: "outs s5 p = Some c" "ins s5 q = Some i" "outs s5 ?n = Some (new\<lparr>o_dcb_in := Some ?qi\<rparr>)" "ins s5 ?qi = Some ?rev"
      "rcbs s5 ?rp = Some (r\<lparr>r_old_dcb := Some p\<rparr>)" "hash_in (dh s5) = (i_sub ?rev, ?qi) # hash_in (dh s1)"
      "hash_reconfig (dh s5) = (m_leftSS (cmsg b), ?rp) # hash_reconfig (dh s)"
      using f s1 assms(3,5) by (simp_all add: s5_def s4_def ht_insert_def)
    have s4n: "outs s4 ?n = Some (new\<lparr>o_dcb_in := Some ?qi\<rparr>)" by (simp add: s4_def)
    have mk: "leftA_mark_old p ?n tr s5 = Some (set_out p c' (set_in q (i\<lparr>i_two_paths := True\<rparr>) s5))"
      using s5(1,2) assms(4) by (simp add: leftA_mark_old_def Let_def c'_def)
    have "control_output_syn_leftA K b s = Some (TX_CONTINUE, b1, set_out p c' (set_in q (i\<lparr>i_two_paths := True\<rparr>) s5))"
      unfolding s5_def using assms(2-5) ins al cb rv mk [unfolded s5_def] s1(3)
      by (simp add: control_output_syn_leftA_def Let_def new_def [symmetric] tr_def [symmetric] s4n)
    moreover have c': "c' = c\<lparr>o_old_path := True, o_state_t := (o_state_t c \<or> ntohs (m_semantic (cmsg b)) = STATE_TRANSFER),
        o_state := DYSCO_SYN_SENT, o_other_path := Some ?n\<rparr>"
      using b1(2) by (cases c) (simp add: c'_def tr_def)
    moreover have "new_path_started p c q b ?n (set_out p c' (set_in q (i\<lparr>i_two_paths := True\<rparr>) s5))"
      unfolding new_path_started_def
      by (rule exI [of _ "new\<lparr>o_dcb_in := Some ?qi\<rparr>"], rule exI [of _ ?qi], rule exI [of _ ?rev],
          rule exI [of _ "i\<lparr>i_two_paths := True\<rparr>"], rule exI [of _ ?rp])
        (use f s5 r c' in \<open>simp add: new_def leftA_new_cb_fields [OF cb] cb_out_reverse_def look_defs ht_lookup_def rev_session_def\<close>)
    moreover have "hash_out (dh (set_out p c' (set_in q (i\<lparr>i_two_paths := True\<rparr>) s5))) = hash_out (dh s)"
      using s1(7) by (simp add: s5_def s4_def)
    moreover have "dysco_route K b (daddr (iph b)) \<noteq> None" using cb r(4) b1(3) leftA_new_cb_route [of K b1 r] by auto
    ultimately show ?thesis using b1 by (auto split: option.split)
  qed
qed

section \<open>Properties\<close>

text \<open>
  C21. The first \<open>DYSCO_SYN\<close> of the left anchor starts the new path, when memory is not short and
  the routing table knows the next hop: it creates a reconfiguration
  block and a pair of control blocks for the new path that translates nothing yet, links the
  old block to the new one and puts it into the state \<open>DYSCO_SYN_SENT\<close>, marks both input blocks as
  carrying two paths, and the message that goes out announces the initial numbers of the
  session. The cutoff recorded so far is kept. Without a route to the next hop the step is a
  kernel fault: \<open>dysco_arp\<close> follows the error pointer of the lookup.
\<close>

theorem leftA_starts_new_path:
  assumes "saddr (iph b) = m_leftA (cmsg b)" and "look_reconfig (m_super (cmsg b)) s = None"
    and "look_out (m_leftSS (cmsg b)) s = Some p" and "outs s p = Some c" and "o_dcb_in c = Some q" and "ins s q = Some i"
    and "stores_fresh s" and "k_alloc K (n_alloc s)" and "k_alloc K (Suc (n_alloc s))" and "k_alloc K (Suc (Suc (n_alloc s)))"
  shows "case dysco_route K b (daddr (iph b)) of None \<Rightarrow> dysco_control_output_syn K b s = None
    | Some _ \<Rightarrow> \<exists>b' s' n. dysco_control_output_syn K b s = Some (TX_CONTINUE, b', s') \<and> new_path_started p c q b n s' \<and>
        m_leftIseq (cmsg b') = htonl (o_in_iseq c) \<and> m_leftIack (cmsg b') = htonl (o_in_iack c)"
  using leftA_new_path_exact [OF assms(7,3-6,8-10)] assms(1,2)
  by (fastforce simp: dysco_control_output_syn_def msg_from_cb_out_def split: option.splits)

text \<open>
  A run of the module: a control block comes with the \<open>DYSCO_SYN\<close> that passes a middlebox, then the
  host becomes the left anchor of a reconfiguration of that session.
\<close>

definition ref_mid_syn :: skb where
  "ref_mid_syn = ref_syn\<lparr>iph := (iph ref_syn)\<lparr>protocol := IPPROTO_UDP, saddr := 0x0100000a, daddr := 0x0300000a\<rparr>\<rparr>"

definition ref_left_syn :: skb where
  "ref_left_syn = ref_syn\<lparr>iph := (iph ref_syn)\<lparr>protocol := IPPROTO_UDP, saddr := m_leftA ref_msg\<rparr>,
     skb_dev := ref_dev\<lparr>ifa_addresses := [m_leftA ref_msg]\<rparr>,
     cmsg := ref_msg\<lparr>m_super := zero_session, m_leftSS := rev_session (m_super ref_msg)\<rparr>\<rparr>"

definition ref_mid :: "dstate option" where
  "ref_mid = map_option snd (input_ns ref_kapi ref_mid_syn fresh_dstate)"

lemma ref_mid_value:
  "map_option (\<lambda>s. (look_out (rev_session (m_super ref_msg)) s, look_reconfig zero_session s,
      map_option o_dcb_in (outs s 3), map_option i_two_paths (ins s 2))) ref_mid =
   Some (Some 3, None, Some (Some 2), Some False)"
  by code_simp

lemma ref_mid_state:
  "\<exists>s c i. ref_mid = Some s \<and> reachable ref_kapi s \<and> look_out (rev_session (m_super ref_msg)) s = Some 3 \<and>
    look_reconfig zero_session s = None \<and> outs s 3 = Some c \<and> o_dcb_in c = Some 2 \<and> ins s 2 = Some i"
proof -
  obtain s where s: "ref_mid = Some s" using ref_mid_value by auto
  have "no_blocks fresh_dstate"
    by (auto simp: no_blocks_def fresh_dstate_def fresh_hashes_def new_hashes_def)
  then have "reachable ref_kapi s"
    using s unfolding ref_mid_def by (auto intro: reach.intros dysco_step.intros)
  moreover have "look_out (rev_session (m_super ref_msg)) s = Some 3 \<and> look_reconfig zero_session s = None \<and>
      map_option o_dcb_in (outs s 3) = Some (Some 2) \<and> ins s 2 \<noteq> None"
    using ref_mid_value [unfolded s] by auto
  ultimately show ?thesis using s unfolding map_option_eq_Some not_None_eq by blast
qed

lemma ref_left_syn_fields:
  "cmsg ref_left_syn = ref_msg\<lparr>m_super := zero_session, m_leftSS := rev_session (m_super ref_msg)\<rparr>"
  "saddr (iph ref_left_syn) = m_leftA (cmsg ref_left_syn)" "protocol (iph ref_left_syn) = IPPROTO_UDP"
  "dysco_control_output K ref_left_syn s = dysco_control_output_syn K ref_left_syn s"
proof -
  show c: "cmsg ref_left_syn = ref_msg\<lparr>m_super := zero_session, m_leftSS := rev_session (m_super ref_msg)\<rparr>"
    "saddr (iph ref_left_syn) = m_leftA (cmsg ref_left_syn)" "protocol (iph ref_left_syn) = IPPROTO_UDP"
    by (simp_all add: ref_left_syn_def)
  have "is_control_len (uh ref_left_syn)" "uh_dest (uh ref_left_syn) = dysco_control_port"
    "saddr (iph ref_left_syn) \<in> set (ifa_addresses (skb_dev ref_left_syn))"
    by (simp_all add: ref_left_syn_def ref_syn_def is_control_len_def)
  moreover have "msg_of_code (m_mtype (cmsg ref_left_syn)) = Some DYSCO_SYN"
    using c(1) by (simp add: ref_msg_def msg_of_code_msg_code)
  ultimately show "dysco_control_output K ref_left_syn s = dysco_control_output_syn K ref_left_syn s"
    by (simp add: dysco_control_output_def control_output_msg_def)
qed

lemma ref_alloc [simp]: "k_alloc ref_kapi n"
  by (simp add: ref_kapi_def)

lemma ref_route [simp]: "dysco_route ref_kapi b d = Some (0, 0x0100000a)"
  by (simp add: dysco_route_def ref_kapi_def)

theorem leftA_starts_new_path_witness:
  "\<exists>s c b' s' n. ref_mid = Some s \<and> dysco_control_output_syn ref_kapi ref_left_syn s = Some (TX_CONTINUE, b', s') \<and>
    new_path_started 3 c 2 ref_left_syn n s' \<and> m_leftIseq (cmsg b') = htonl (o_in_iseq c)"
proof -
  obtain s c i where s: "ref_mid = Some s" "reachable ref_kapi s" "look_out (rev_session (m_super ref_msg)) s = Some 3"
    "look_reconfig zero_session s = None" "outs s 3 = Some c" "o_dcb_in c = Some 2" "ins s 2 = Some i"
    using ref_mid_state by blast
  have "stores_fresh s" using s(2) by (intro heap_fresh reachable_ok)
  moreover have "look_reconfig (m_super (cmsg ref_left_syn)) s = None" "look_out (m_leftSS (cmsg ref_left_syn)) s = Some 3"
    using s(3,4) ref_left_syn_fields(1) by simp_all
  ultimately show ?thesis
    using leftA_starts_new_path [OF ref_left_syn_fields(2) _ _ s(5-7) _ ref_alloc ref_alloc ref_alloc] s(1)
    by (simp only: ref_route option.case) blast
qed

lemma ref_two_paths:
  "\<exists>s c n. reachable ref_kapi s \<and> new_path_started 3 c 2 ref_left_syn n s \<and>
    look_out (rev_session (m_super ref_msg)) s = Some 3"
proof -
  obtain s c i where s: "reachable ref_kapi s" "look_out (rev_session (m_super ref_msg)) s = Some 3"
    "look_reconfig zero_session s = None" "outs s 3 = Some c" "o_dcb_in c = Some 2" "ins s 2 = Some i"
    using ref_mid_state by blast
  have "stores_fresh s" using s(1) by (intro heap_fresh reachable_ok)
  then obtain b' s' n where l: "control_output_syn_leftA ref_kapi ref_left_syn s = Some (TX_CONTINUE, b', s')"
    "new_path_started 3 c 2 ref_left_syn n s'" "hash_out (dh s') = hash_out (dh s)"
    using leftA_new_path_exact [of s ref_left_syn 3 c 2 i ref_kapi] s ref_left_syn_fields(1) by auto
  then have "output_ns ref_kapi ref_left_syn s = Some ((TX_CONTINUE, b'), s')"
    using s(3) ref_left_syn_fields(1-3) by (simp add: output_ns_def ref_left_syn_fields(4) dysco_control_output_syn_def)
  moreover have "sockets_exist ref_kapi s" by (simp add: sockets_exist_def ref_kapi_def)
  ultimately have "reachable ref_kapi s'" using s(1) by (blast intro: reach.intros dysco_step.intros)
  moreover have "look_out (rev_session (m_super ref_msg)) s' = Some 3" using s(2) l(3) by (simp add: look_out_def)
  ultimately show ?thesis using l(2) by blast
qed

text \<open>
  C14. In every state the module can reach, the output and input tables lead to live control
  blocks, the pointers from there to the other path and to the reverse block are live, and a
  block with two paths is in one of the three states \<open>dysco_out_translate\<close> distinguishes: the
  branch that prints BUG is unreachable.
\<close>

theorem reachable_paths:
  assumes "reachable K s" and "look_out k s = Some p" and "look_in k' s = Some p'"
  shows "\<exists>c i. outs s p = Some c \<and> ins s p' = Some i \<and>
    (case o_other_path c of None \<Rightarrow> True
     | Some q \<Rightarrow> outs s q \<noteq> None \<and> o_state c \<in> {DYSCO_SYN_SENT, DYSCO_SYN_RECEIVED, DYSCO_ESTABLISHED}) \<and>
    (case i_dcb_out i of None \<Rightarrow> True | Some q \<Rightarrow> outs s q \<noteq> None)"
proof -
  note h = heap_okD [OF reachable_ok [OF assms(1)]]
  obtain c i where "outs s p = Some c" "ins s p' = Some i"
    using h(6,7) look_nodes(1) [OF assms(2)] look_nodes(2) [OF assms(3)] by blast
  moreover from this have "out_closed s c" "path_ok c" "in_closed s i"
    using h(2,3,5) look_nodes(1) [OF assms(2)] look_nodes(2) [OF assms(3)] by blast+
  ultimately show ?thesis
    by (auto simp: out_closed_def path_ok_def in_closed_def split: option.split)
qed

theorem reachable_paths_witness:
  "\<exists>s c q. reachable ref_kapi s \<and> look_out (rev_session (m_super ref_msg)) s = Some 3 \<and> outs s 3 = Some c \<and>
    o_other_path c = Some q \<and> outs s q \<noteq> None \<and> o_state c \<in> {DYSCO_SYN_SENT, DYSCO_SYN_RECEIVED, DYSCO_ESTABLISHED}"
proof -
  obtain s c n where s: "reachable ref_kapi s" "new_path_started 3 c 2 ref_left_syn n s"
    "look_out (rev_session (m_super ref_msg)) s = Some 3"
    using ref_two_paths by blast
  then obtain c' k q where "outs s 3 = Some c'" "o_other_path c' = Some n" "look_in k s = Some q"
    unfolding new_path_started_def by fastforce
  then show ?thesis using reachable_paths [OF s(1,3), of k q] s(1,3) by auto
qed

text \<open>
  C9. In every reachable state the module handles every segment of a session it knows without a
  fault, in both directions, unless the segment is a SYN without the ACK flag, whose payload it
  would have to read: no dereference of NULL or of a freed block, and no step that has no
  result. This includes the choice between two paths and the throttled window of a splice.
\<close>

theorem data_path_never_faults:
  assumes "reachable K s" and "\<not> chain_syn b"
  shows "(dysco_lookup_input b s = None \<or> dysco_input_tcp K b s \<noteq> None) \<and>
    (dysco_out_lookup b s = None \<or> dysco_output_tcp K b s \<noteq> None)"
  using input_never_faults [OF reachable_ok [OF assms(1)] assms(2), of K]
    output_never_faults [OF reachable_ok [OF assms(1)] assms(2), of _ K] by (meson not_None_eq)

definition ref_seg :: "tcp_session \<Rightarrow> skb" where
  "ref_seg k = (ref_skb 5 0 (mem_of []) 0)\<lparr>iph := (iph ref_syn)\<lparr>saddr := sip k, daddr := dip k\<rparr>,
     th := (ref_th 5 0)\<lparr>th_source := sport k, th_dest := dport k\<rparr>\<rparr>"

theorem data_path_never_faults_witness:
  "\<exists>s k q r r'. reachable ref_kapi s \<and> dysco_lookup_input (ref_seg k) s = Some q \<and>
    map_option i_two_paths (ins s q) = Some True \<and> dysco_input_tcp ref_kapi (ref_seg k) s = Some r \<and>
    dysco_out_lookup (ref_seg (rev_session (m_super ref_msg))) s = Some 3 \<and>
    dysco_output_tcp ref_kapi (ref_seg (rev_session (m_super ref_msg))) s = Some r'"
proof -
  obtain s c n where s: "reachable ref_kapi s" "new_path_started 3 c 2 ref_left_syn n s"
    "look_out (rev_session (m_super ref_msg)) s = Some 3"
    using ref_two_paths by blast
  then obtain k q i where k: "look_in k s = Some q" "ins s q = Some i" "i_two_paths i"
    unfolding new_path_started_def by blast
  have n: "\<not> chain_syn (ref_seg k)" for k
    by (simp add: chain_syn_def ref_seg_def ref_th_def tcp_flag_set_def)
  have l: "dysco_lookup_input (ref_seg k) s = look_in k s" "dysco_out_lookup (ref_seg k) s = look_out k s" for k
    by (cases k; simp add: ref_seg_def dysco_lookup_input_def dysco_out_lookup_def pkt_session_def)+
  have "dysco_input_tcp ref_kapi (ref_seg k) s \<noteq> None"
    using data_path_never_faults [OF s(1) n, of k] l k by simp
  moreover have "dysco_output_tcp ref_kapi (ref_seg (rev_session (m_super ref_msg))) s \<noteq> None"
    using data_path_never_faults [OF s(1) n, of "rev_session (m_super ref_msg)"] l s(3) by simp
  ultimately show ?thesis using s(1,3) k l by fastforce
qed

end
