(* ===== verification/Dysco_Management.thy ===== *)
theory Dysco_Management
  imports Dysco_Main Dysco_Progress
begin

text \<open>
  What the management operations of \<open>Dysco_Main\<close> promise: the order of policies, what is left of
  them when they are removed, the size of a report, the error paths of the creation of tables
  and what their destruction needs.
\<close>

section \<open>Policies\<close>

text \<open>The commands of the daemon one after the other.\<close>

fun add_policies :: "kapi \<Rightarrow> mem list \<Rightarrow> dstate \<Rightarrow> dstate option" where
  "add_policies K [] s = Some s"
| "add_policies K (m # ms) s = do { s1 \<leftarrow> dysco_add_policy K m s; add_policies K ms s1 }"

text \<open>The policy for a packet: the newest accepted message whose filter takes it.\<close>

definition takes :: "kapi \<Rightarrow> skb \<Rightarrow> mem \<Rightarrow> bool" where
  "takes K b m \<longleftrightarrow> 0 \<le> sint (get16 m 0) \<and>
     (case k_bpf_create K (filter_from_msg m) of None \<Rightarrow> False | Some f \<Rightarrow> k_bpf K f b)"

fun newest_policy :: "kapi \<Rightarrow> skb \<Rightarrow> mem list \<Rightarrow> mem option" where
  "newest_policy K b [] = None"
| "newest_policy K b (m # ms) = (case newest_policy K b ms of
     Some m' \<Rightarrow> Some m' | None \<Rightarrow> if takes K b m then Some m else None)"

definition chain_of_policy :: "mem \<Rightarrow> service_chain \<Rightarrow> bool" where
  "chain_of_policy m sc \<longleftrightarrow> sc_len sc = get16 m 0 \<and> sc_hops sc = get_hops m 4 (unat (get16 m 0))"

lemma add_policy_frame:
  assumes "dysco_add_policy K m s = Some s'"
  shows "next_addr s \<le> next_addr s'" "a < next_addr s \<Longrightarrow> scs s' a = scs s a"
  using assms
  by (auto simp: dysco_add_policy_def alloc_sc_def free_sc_def Let_def split: if_splits option.splits)

lemma add_policies_frame:
  assumes "add_policies K ms s = Some s'"
  shows "next_addr s \<le> next_addr s'" "a < next_addr s \<Longrightarrow> scs s' a = scs s a"
proof -
  have "next_addr s \<le> next_addr s' \<and> (a < next_addr s \<longrightarrow> scs s' a = scs s a)"
    using assms
  proof (induction ms arbitrary: s)
    case (Cons m ms)
    then obtain s1 where 1: "dysco_add_policy K m s = Some s1" "add_policies K ms s1 = Some s'"
      by (auto simp: bind_eq_Some_conv)
    show ?case using Cons.IH [OF 1(2)] add_policy_frame [OF 1(1)] by force
  qed simp
  then show "next_addr s \<le> next_addr s'" "a < next_addr s \<Longrightarrow> scs s' a = scs s a" by blast+
qed

lemma add_policy_match:
  assumes "dysco_add_policy K m s = Some s'" and "k_alloc K = (\<lambda>_. True)"
  shows "if takes K b m then \<exists>a sc. dysco_match_policy K b s' = Some a \<and> a < next_addr s' \<and> scs s' a = Some sc \<and>
      chain_of_policy m sc
    else dysco_match_policy K b s' = dysco_match_policy K b s"
  using assms
  by (auto simp: dysco_add_policy_def takes_def dysco_match_policy_def alloc_sc_def free_sc_def Let_def
      chain_from_msg_def chain_of_policy_def map_dh_def split: if_splits option.splits)

text \<open>
  C24. A packet is steered by the newest policy whose filter takes it: after any sequence of
  policy messages the chain that \<open>dysco_match_policy\<close> returns is the one the last such message
  carried, and when none takes the packet the earlier policies decide. Messages with a
  negative length or a filter that does not compile leave no trace.
\<close>

theorem newest_policy_decides:
  assumes "add_policies K ms s = Some s'" and "k_alloc K = (\<lambda>_. True)"
  shows "case newest_policy K b ms of
      None \<Rightarrow> dysco_match_policy K b s' = dysco_match_policy K b s
    | Some m \<Rightarrow> \<exists>a sc. dysco_match_policy K b s' = Some a \<and> scs s' a = Some sc \<and> chain_of_policy m sc"
  using assms(1)
proof (induction ms arbitrary: s)
  case (Cons m ms)
  then obtain s1 where 1: "dysco_add_policy K m s = Some s1" "add_policies K ms s1 = Some s'"
    by (auto simp: bind_eq_Some_conv)
  show ?case
    using Cons.IH [OF 1(2)] add_policy_match [OF 1(1) assms(2), of b] add_policies_frame(2) [OF 1(2)]
    by (auto split: option.splits if_splits)
qed simp

text \<open>Two messages with a chain of one hop and an empty filter.\<close>

definition ref_policy :: "u8 \<Rightarrow> mem" where
  "ref_policy h = mem_of [1, 0, 0, 0, 10, 0, 0, h, 0, 0]"

definition ref_all :: kapi where
  "ref_all = ref_kapi\<lparr>k_bpf := \<lambda>f b. True\<rparr>"

lemma ref_policies_added: "add_policies ref_all [ref_policy 7, ref_policy 8] fresh_dstate \<noteq> None"
  by code_simp

lemma ref_newest: "newest_policy ref_all b [ref_policy 7, ref_policy 8] = Some (ref_policy 8)"
  by (simp add: takes_def ref_all_def ref_kapi_def ref_policy_def get16_def mem_of_def)

theorem newest_policy_decides_witness:
  "\<exists>s' a sc. add_policies ref_all [ref_policy 7, ref_policy 8] fresh_dstate = Some s' \<and>
    dysco_match_policy ref_all ref_plain_syn s' = Some a \<and> scs s' a = Some sc \<and> chain_of_policy (ref_policy 8) sc"
proof -
  obtain s' where s': "add_policies ref_all [ref_policy 7, ref_policy 8] fresh_dstate = Some s'"
    using ref_policies_added by blast
  have "k_alloc ref_all = (\<lambda>_. True)" by (simp add: ref_all_def ref_kapi_def)
  from newest_policy_decides [OF s' this, of ref_plain_syn] s' show ?thesis
    unfolding ref_newest option.case by blast
qed

text \<open>Removing policies releases their chains and nothing else.\<close>

lemma del_policies_result:
  assumes "dysco_del_policies s = Some s'"
  shows "scs s' a = (if a \<in> p_sc ` set (policies (dh s)) then None else scs s a)" "outs s' = outs s" "ins s' = ins s"
    "dh s' = (dh s)\<lparr>policies := []\<rparr>"
proof -
  have "scs s' a = (if a \<in> p_sc ` set (policies (dh s)) then None else scs s a) \<and> outs s' = outs s \<and> ins s' = ins s \<and>
    dh s' = (dh s)\<lparr>policies := []\<rparr>"
    using assms
  proof (induction s rule: dysco_del_policies.induct)
    case (1 s)
    show ?case
    proof (cases "policies (dh s)")
      case Nil
      then have "(dh s)\<lparr>policies := []\<rparr> = dh s" by simp
      then show ?thesis using 1(2) Nil by (simp add: dysco_del_policies.simps [of s])
    next
      case (Cons d ds)
      let ?s = "map_dh (\<lambda>h. h\<lparr>policies := ds\<rparr>) s"
      obtain s1 where s1: "free_sc (p_sc d) ?s = Some s1" "dysco_del_policies s1 = Some s'"
        using 1(2) Cons by (auto simp: dysco_del_policies.simps [of s] split: option.splits)
      have "s1 = ?s\<lparr>scs := (scs s)(p_sc d := None)\<rparr>"
        using s1(1) by (auto simp: free_sc_def map_dh_def split: if_splits)
      then show ?thesis using 1(1) [OF Cons s1] Cons by (auto simp: map_dh_def)
    qed
  qed
  then show "scs s' a = (if a \<in> p_sc ` set (policies (dh s)) then None else scs s a)" "outs s' = outs s" "ins s' = ins s"
    "dh s' = (dh s)\<lparr>policies := []\<rparr>" by auto
qed

lemma del_policies_returns:
  "distinct (map p_sc (policies (dh s))) \<Longrightarrow> (\<And>d. d \<in> set (policies (dh s)) \<Longrightarrow> scs s (p_sc d) \<noteq> None) \<Longrightarrow>
   \<exists>s'. dysco_del_policies s = Some s'"
proof (induction s rule: dysco_del_policies.induct)
  case (1 s)
  show ?case
  proof (cases "policies (dh s)")
    case Nil then show ?thesis by (simp add: dysco_del_policies.simps [of s])
  next
    case (Cons d ds)
    let ?s1 = "(map_dh (\<lambda>h. h\<lparr>policies := ds\<rparr>) s)\<lparr>scs := (scs s)(p_sc d := None)\<rparr>"
    have f: "free_sc (p_sc d) (map_dh (\<lambda>h. h\<lparr>policies := ds\<rparr>) s) = Some ?s1"
      using 1(3) [of d] Cons by (auto simp: free_sc_def map_dh_def)
    have n: "p_sc d \<notin> p_sc ` set ds" and dd: "distinct (map p_sc ds)" using 1(2) Cons by simp_all
    have "scs s (p_sc e) \<noteq> None \<and> p_sc e \<noteq> p_sc d" if "e \<in> set ds" for e
      using 1(3) [of e] that n Cons by (simp add: image_iff) metis
    then have "\<exists>s'. dysco_del_policies ?s1 = Some s'"
      by (intro 1(1) [OF Cons f]) (auto simp: map_dh_def dd)
    then show ?thesis using Cons f by (simp add: dysco_del_policies.simps [of s])
  qed
qed

text \<open>
  C25. Removing the policies of a namespace whose chains are distinct live blocks ends, empties the
  list and releases every chain; but a session that still points to one of those chains is left
  with a dangling pointer: when its SYN is sent once more, the module reads the released chain.
\<close>

theorem del_policies_leaves_dangling:
  assumes "distinct (map p_sc (policies (dh s)))" and "list_all (\<lambda>d. scs s (p_sc d) \<noteq> None) (policies (dh s))"
    and "d \<in> set (policies (dh s))" and "dysco_out_lookup b s = Some p" and "outs s p = Some c" and "o_sc c = Some (p_sc d)"
    and "chain_syn b"
  shows "\<exists>s'. dysco_del_policies s = Some s' \<and> policies (dh s') = [] \<and> scs s' (p_sc d) = None \<and>
    dysco_output_tcp K b s' = None"
proof -
  obtain s' where s': "dysco_del_policies s = Some s'"
    using del_policies_returns [OF assms(1)] assms(2) by (auto simp: list_all_iff)
  note r = del_policies_result [OF s']
  let ?c = "dysco_parse_tcp_syn_opt_s (th b) (tdata b) (c\<lparr>o_seq_cutoff := ntohl (th_seq (th b))\<rparr>)"
  have sc: "o_sc ?c = Some (p_sc d)"
    using parse_s_links [of "c\<lparr>o_seq_cutoff := ntohl (th_seq (th b))\<rparr>" "th b" "tdata b"] assms(6) by (simp add: same_links_def)
  have fr: "scs s' (p_sc d) = None" using r(1) assms(3) by simp
  have "o_sc c1 = Some (p_sc d)" if "dysco_arp K b ?c = Some c1" for c1
    using sc arp_frame(3) [OF that] by simp
  then have "out_syn_first K p ?c b (set_out p ?c s') = None"
    using sc fr by (cases "dysco_arp K b ?c") (simp_all add: out_syn_first_def dysco_out_tx_init_def dysco_add_sc_def Let_def)
  then have "dysco_output_tcp K b s' = None"
    using assms(4,5,7) r(2,4)
    by (simp add: dysco_output_tcp_def dysco_output_known_def dysco_out_syn_def out_syn_known_def chain_syn_def
        dysco_out_lookup_def look_out_def Let_def)
  then show ?thesis using s' r(4) fr by auto
qed

text \<open>A session created from a policy with the chain at address 7.\<close>

definition ref_steered :: dstate where
  "ref_steered = fresh_dstate\<lparr>outs := [1 \<mapsto> zero_cb_out\<lparr>o_sc := Some 7\<rparr>], scs := [7 \<mapsto> ref_chain], next_addr := 8,
     dh := (fresh_hashes (Some 0))\<lparr>policies := [\<lparr>p_filter = 0, p_sc = 7\<rparr>],
       hash_out := [(pkt_session (iph ref_plain_syn) (th ref_plain_syn), 1)]\<rparr>\<rparr>"

theorem del_policies_leaves_dangling_witness:
  "\<exists>s'. dysco_del_policies ref_steered = Some s' \<and> scs s' 7 = None \<and> dysco_output_tcp ref_kapi ref_plain_syn s' = None"
proof -
  have p: "policies (dh ref_steered) = [\<lparr>p_filter = 0, p_sc = 7\<rparr>]" by (simp add: ref_steered_def)
  have "chain_syn ref_plain_syn"
    by (simp add: chain_syn_def ref_plain_syn_def ref_skb_def ref_th_def tcp_flag_set_def)
  then show ?thesis
    using del_policies_leaves_dangling [of ref_steered "\<lparr>p_filter = 0, p_sc = 7\<rparr>" ref_plain_syn 1 "zero_cb_out\<lparr>o_sc := Some 7\<rparr>" ref_kapi] p
    by (auto simp: ref_steered_def dysco_out_lookup_def look_defs ht_lookup_def)
qed

section \<open>Reports\<close>

lemma walk_records_bound:
  assumes "walk_records rd rsz buf es acc = Some (r, no_room)" and "0 < rsz" and "rsz * (int (length acc) + 1) \<le> buf"
  shows "rsz * int (length r) \<le> buf" "\<not> no_room \<Longrightarrow> rsz * (int (length r) + 1) \<le> buf"
    "\<exists>r'. r = acc @ r' \<and> (\<forall>x \<in> set r'. \<exists>p. rd p = Some x)"
proof -
  have "rsz * int (length r) \<le> buf \<and> (\<not> no_room \<longrightarrow> rsz * (int (length r) + 1) \<le> buf) \<and>
    (\<exists>r'. r = acc @ r' \<and> (\<forall>x \<in> set r'. \<exists>p. rd p = Some x))"
    using assms
  proof (induction es arbitrary: acc)
    case Nil then show ?case by (simp add: algebra_simps)
  next
    case (Cons e es)
    show ?case
    proof (cases e)
      case Walk_again
      then have "walk_records rd rsz buf es acc = Some (r, no_room)" using Cons.prems(1) by simp
      from Cons.IH [OF this assms(2) Cons.prems(3)] show ?thesis .
    next
      case Walk_stop then show ?thesis using Cons.prems by (simp add: algebra_simps)
    next
      case (Walk_node p)
      then obtain x where x: "rd p = Some x" using Cons.prems(1) by (cases "rd p") auto
      show ?thesis
      proof (cases "buf < rsz * (int (length (acc @ [x])) + 1)")
        case True
        then have "r = acc @ [x]" "no_room" using Cons.prems(1) Walk_node x by (simp_all add: Let_def)
        then show ?thesis using Cons.prems(3) x by (auto simp: algebra_simps)
      next
        case False
        then have w: "walk_records rd rsz buf es (acc @ [x]) = Some (r, no_room)"
          using Cons.prems(1) Walk_node x by (simp add: Let_def)
        have "rsz * (int (length (acc @ [x])) + 1) \<le> buf" using False by simp
        from Cons.IH [OF w assms(2) this] x show ?thesis by auto
      qed
    qed
  qed
  then show "rsz * int (length r) \<le> buf" "\<not> no_room \<Longrightarrow> rsz * (int (length r) + 1) \<le> buf"
    "\<exists>r'. r = acc @ r' \<and> (\<forall>x \<in> set r'. \<exists>p. rd p = Some x)" by auto
qed

lemma htons_of_nat: "n < 65536 \<Longrightarrow> unat (ntohs (htons (of_nat n))) = n"
  by (simp add: unat_of_nat)

text \<open>What a reply says: sizes that are true and records that were read from live blocks.\<close>

definition good_mapping :: "dstate \<Rightarrow> mapping_reply \<Rightarrow> bool" where
  "good_mapping s r \<longleftrightarrow> sizeof_mapping * length (mr_vector r) \<le> 65532 \<and>
     unat (ntohs (mr_len r)) = length (mr_vector r) \<and>
     unat (ntohs (mr_out r)) \<le> length (mr_vector r) \<and>
     list_all (\<lambda>x. \<exists>p c. outs s p = Some c \<and> x = (o_super c, o_sub c)) (take (unat (ntohs (mr_out r))) (mr_vector r)) \<and>
     list_all (\<lambda>x. \<exists>p i. ins s p = Some i \<and> x = (i_sub i, i_super i)) (drop (unat (ntohs (mr_out r))) (mr_vector r))"

lemma mapping_walk:
  assumes "dysco_walk_hash_table rd 24 buf w = Some (Inr (r, no_room))" and "24 \<le> buf"
  shows "24 * int (length r) \<le> buf" "\<not> no_room \<Longrightarrow> 24 * (int (length r) + 1) \<le> buf"
    "list_all (\<lambda>x. \<exists>p. rd p = Some x) r"
proof -
  obtain es where "walk_records rd 24 buf es [] = Some (r, no_room)"
    using assms(1) by (auto simp: dysco_walk_hash_table_def split: walk.splits)
  from walk_records_bound [OF this] assms(2)
  show "24 * int (length r) \<le> buf" "\<not> no_room \<Longrightarrow> 24 * (int (length r) + 1) \<le> buf"
    "list_all (\<lambda>x. \<exists>p. rd p = Some x) r" by (auto simp: list_all_iff)
qed

text \<open>
  Whatever the two tables hold and however the walks over them go, the mappings of a reply fit
  into the netlink buffer, the 16-bit counts in it are the true counts, and every record was
  read from a live block. The second half of a reply holds \<open>sub\<close> and \<open>super\<close> of the input blocks
  in the reverse order of the first half, since the walk uses the field offset of the output
  block for both tables.
\<close>

theorem mapping_reply_fits:
  assumes "dysco_get_mapping K w_out w_in s = Some (Some r, s')"
  shows "good_mapping s r"
proof -
  have k: "k_alloc K (n_alloc s)" using assms by (auto simp: dysco_get_mapping_def Let_def split: if_splits)
  have o: "list_all (\<lambda>x. \<exists>p c. outs s p = Some c \<and> x = (o_super c, o_sub c)) v"
    if "list_all (\<lambda>x. \<exists>p. mapping_out (bump s) p = Some x) v" for v
    using that by (fastforce simp: list_all_iff mapping_out_def)
  have i: "list_all (\<lambda>x. \<exists>p c. ins s p = Some c \<and> x = (i_sub c, i_super c)) v"
    if "list_all (\<lambda>x. \<exists>p. mapping_in (bump s) p = Some x) v" for v
    using that by (fastforce simp: list_all_iff mapping_in_def)
  let ?w1 = "dysco_walk_hash_table (mapping_out (bump s)) 24 65532 w_out"
  obtain os no_room where w1: "?w1 = Some (Inr (os, no_room))"
    using assms k by (cases ?w1; cases "the ?w1") (simp_all add: dysco_get_mapping_def Let_def split_paired_all)
  note b1 = mapping_walk [OF w1, simplified]
  show ?thesis
  proof (cases no_room)
    case True
    then have "r = \<lparr>mr_len = htons (of_nat (length os)), mr_out = htons (of_nat (length os)), mr_vector = os\<rparr>"
      using assms k w1 by (simp add: dysco_get_mapping_def Let_def)
    then show ?thesis using b1(1) o [OF b1(3)] by (simp add: good_mapping_def unat_of_nat)
  next
    case False
    let ?buf = "65532 - int (length os) * 24"
    let ?w2 = "dysco_walk_hash_table (mapping_in (bump s)) 24 ?buf w_in"
    obtain "is" no_room' where w2: "?w2 = Some (Inr (is, no_room'))"
      using assms k w1 False by (cases ?w2; cases "the ?w2") (simp_all add: dysco_get_mapping_def Let_def split_paired_all)
    have "24 \<le> ?buf" using b1(2) False by simp
    note b2 = mapping_walk [OF w2 this]
    have n: "24 * (length os + length is) \<le> 65532" using b2(1) by simp
    have r: "r = \<lparr>mr_len = htons (of_nat (length os + length is)), mr_out = htons (of_nat (length os)), mr_vector = os @ is\<rparr>"
      using assms k w1 w2 False by (simp add: dysco_get_mapping_def Let_def del: of_nat_add)
    have l: "unat (ntohs (mr_len r)) = length os + length is" "unat (ntohs (mr_out r)) = length os"
      using n by (simp_all add: r unat_of_nat del: of_nat_add)
    show ?thesis using n l o [OF b1(3)] i [OF b2(3)] unfolding good_mapping_def l by (simp add: r)
  qed
qed

definition ref_mapped :: dstate where
  "ref_mapped = fresh_dstate\<lparr>outs := [1 \<mapsto> zero_cb_out\<lparr>o_super := m_leftSS ref_msg\<rparr>], ins := [2 \<mapsto> zero_cb_in], next_addr := 3\<rparr>"

theorem mapping_reply_fits_witness:
  "\<exists>r s'. dysco_get_mapping ref_kapi (Walk [Walk_node 1]) (Walk [Walk_again, Walk_node 2]) ref_mapped = Some (Some r, s') \<and>
    good_mapping ref_mapped r \<and> length (mr_vector r) = 2"
proof -
  have v: "map_option (map_option (length \<circ> mr_vector) \<circ> fst) (dysco_get_mapping ref_kapi (Walk [Walk_node 1])
      (Walk [Walk_again, Walk_node 2]) ref_mapped) = Some (Some 2)"
    by code_simp
  then obtain r s' where r: "dysco_get_mapping ref_kapi (Walk [Walk_node 1]) (Walk [Walk_again, Walk_node 2]) ref_mapped =
      Some (Some r, s')" by auto
  from mapping_reply_fits [OF r] r v show ?thesis by simp
qed

section \<open>Creating and destroying the tables\<close>

text \<open>
  \<open>dysco_create_hashes\<close> creates all tables or none: on success the five tables exist and are
  empty and no policy is installed; on a failure every table that was initialised is
  destroyed, in the reverse order, and the structure is freed once. No control block is touched.
\<close>

theorem create_hashes_all_or_nothing:
  "case dysco_create_hashes K ns s of (r, tr, s') \<Rightarrow>
     (case r of
        Some h \<Rightarrow> tr = map Init [T_out, T_in, T_pen, T_reconfig, T_pen_tag] \<and> h = new_hashes ns (nl_sk h) (dysco_tag h)
      | None \<Rightarrow> tr = [] \<or> (\<exists>n. tr = map Init (take n [T_out, T_in, T_pen, T_reconfig]) @
          map Destroy (rev (take n [T_out, T_in, T_pen, T_reconfig])) @ [Kfree_hashes])) \<and>
     outs s' = outs s \<and> ins s' = ins s \<and> rcbs s' = rcbs s \<and> scs s' = scs s"
proof -
  let ?ts = "[T_out, T_in, T_pen, T_reconfig]"
  have err: "\<exists>n. tr = map Init (take n ?ts) @ map Destroy (rev (take n ?ts)) @ [Kfree_hashes]"
    if "tr = free_nh_aux [] \<or> tr = free_hash_out [Init T_out] \<or> tr = free_hash_in [Init T_out, Init T_in] \<or>
      tr = free_hash_pen [Init T_out, Init T_in, Init T_pen] \<or>
      tr = free_hash_tag [Init T_out, Init T_in, Init T_pen, Init T_reconfig]" for tr
    using that
    by (elim disjE; intro exI [of _ "length tr div 2"])
      (simp_all add: free_nh_aux_def free_hash_out_def free_hash_in_def free_hash_pen_def free_hash_tag_def)
  have b: "outs (bump s) = outs s \<and> ins (bump s) = ins s \<and> rcbs (bump s) = rcbs s \<and> scs (bump s) = scs s" for s
    by (simp add: bump_def)
  show ?thesis
    by (simp add: dysco_create_hashes_def draw_alloc_def Let_def b err new_hashes_def split: option.split)
qed

lemma free_nodes_out:
  assumes "free_nodes free_out ps s = Some s'"
  shows "outs s p = None \<or> p \<in> set ps \<Longrightarrow> outs s' p = None" "p \<in> set ps \<Longrightarrow> outs s p \<noteq> None"
proof -
  have "(outs s p = None \<or> p \<in> set ps \<longrightarrow> outs s' p = None) \<and> (p \<in> set ps \<longrightarrow> outs s p \<noteq> None)"
    using assms
  proof (induction ps arbitrary: s)
    case (Cons q ps)
    then obtain s1 where s1: "free_out q s = Some s1" "free_nodes free_out ps s1 = Some s'"
      by (auto split: option.splits)
    then have "outs s1 = (outs s)(q := None)" "outs s q \<noteq> None" by (auto simp: free_out_def split: if_splits)
    then show ?case using Cons.IH [OF s1(2)] by (auto split: if_splits)
  qed simp
  then show "outs s p = None \<or> p \<in> set ps \<Longrightarrow> outs s' p = None" "p \<in> set ps \<Longrightarrow> outs s p \<noteq> None" by blast+
qed

lemma free_nodes_rcb: "free_nodes free_rcb ps s = Some s' \<Longrightarrow> outs s' = outs s"
  by (induction ps arbitrary: s) (fastforce simp: free_rcb_def split: option.splits if_splits)+

text \<open>A block that two of the pending tables hold is freed twice.\<close>

lemma destroy_double_free:
  assumes "p \<in> snd ` set (hash_pen (dh s))" and "p \<in> snd ` set (hash_pen_tag (dh s))"
  shows "dysco_destroy_hashes s = None"
proof (rule ccontr)
  assume "dysco_destroy_hashes s \<noteq> None"
  then obtain s2 s3 s4 s5 where f: "free_nodes free_out (map snd (hash_pen (dh s))) s2 = Some s3"
    "free_nodes free_rcb (map snd (hash_reconfig (dh s))) s3 = Some s4"
    "free_nodes free_out (map snd (hash_pen_tag (dh s))) s4 = Some s5"
    by (auto simp: dysco_destroy_hashes_def Let_def bind_eq_Some_conv)
  have "p \<in> set (map snd (hash_pen (dh s)))" "p \<in> set (map snd (hash_pen_tag (dh s)))" using assms by simp_all
  then show False
    using free_nodes_out(1) [OF f(1)] free_nodes_rcb [OF f(2)] free_nodes_out(2) [OF f(3)] by metis
qed

lemma destroy_all_None:
  "h \<in> set hs \<Longrightarrow> (\<And>s. dysco_destroy_hashes (s\<lparr>dh := h\<rparr>) = None) \<Longrightarrow> destroy_all hs s = None"
  by (induction hs arbitrary: s) (auto split: option.split)

text \<open>
  C26. A namespace in which a middlebox received the SYN of a chain that goes on cannot be removed:
  the pending block is a node of two tables, \<open>hash_pen\<close> and \<open>hash_pen_tag\<close>, and unloading the
  module frees it twice unless it was taken out of both before.
\<close>

theorem pending_chain_blocks_unload:
  assumes "dysco_insert_pending K sp s = Some (True, s')" and "dh s' \<in> snd ` set (ns_hash_table m)"
  shows "dysco_deinit m = None"
proof -
  let ?p = "next_addr s"
  have "?p \<in> snd ` set (hash_pen (dh s'))" "?p \<in> snd ` set (hash_pen_tag (dh s'))"
    using assms(1)
    by (auto simp: dysco_insert_pending_def alloc_out_def alloc_sc_def Let_def bind_eq_Some_conv ht_insert_def split: if_splits)
  then have "dysco_destroy_hashes (t\<lparr>dh := dh s'\<rparr>) = None" for t by (intro destroy_double_free) simp_all
  then have "destroy_all (map snd (ns_hash_table m)) (core m) = None"
    using assms(2) by (intro destroy_all_None [of "dh s'"]) auto
  then show ?thesis by (simp add: dysco_deinit_def dysco_destroy_namespaces_def)
qed

theorem pending_chain_blocks_unload_witness:
  "\<exists>s'. dysco_insert_pending ref_kapi (zero_session, ref_chain) fresh_dstate = Some (True, s') \<and>
    dysco_deinit \<lparr>core = s', ns_hash_table = [(0, dh s')], ns_hashes = [], tot_namespaces = 1\<rparr> = None"
proof -
  have "map_option fst (dysco_insert_pending ref_kapi (zero_session, ref_chain) fresh_dstate) = Some True" by code_simp
  then obtain s' where s': "dysco_insert_pending ref_kapi (zero_session, ref_chain) fresh_dstate = Some (True, s')" by auto
  from pending_chain_blocks_unload [OF s', of "\<lparr>core = s', ns_hash_table = [(0, dh s')], ns_hashes = [], tot_namespaces = 1\<rparr>"] s'
  show ?thesis by simp
qed

end
