(* ===== verification/Dysco_Handshake.thy ===== *)
theory Dysco_Handshake
  imports Dysco_Progress
begin

text \<open>
  The whole handshake of a reconfiguration between two anchors, from the states before its first
  message: what the \<open>DYSCO_SYN\<close> leaves at the left anchor (\<open>Dysco_Progress\<close>) and at the right
  one are the prepared anchors from which \<open>DYSCO_SYN_ACK\<close> and \<open>DYSCO_ACK\<close> exchange the cutoffs
  (\<open>Dysco_Reconfig\<close>).
\<close>

section \<open>The hosts before the handshake\<close>

text \<open>
  A host that can become the left or the right anchor of the exchange \<open>m\<close>: memory is not short, no
  reconfiguration of the session is under way, and it knows the session it is an anchor of, as
  block \<open>l\<close> with its input block. The left one needs a route to the next hop of the new path, and
  a message that names the session of its own side as the one that is reconfigured.
\<close>

definition knows_session :: "dstate \<Rightarrow> tcp_session \<Rightarrow> addr \<Rightarrow> dysco_cb_out \<Rightarrow> bool" where
  "knows_session s k p c \<longleftrightarrow> look_out k s = Some p \<and> outs s p = Some c \<and> \<not> o_state_t c \<and>
     (\<exists>q i. o_dcb_in c = Some q \<and> ins s q = Some i)"

definition left_ready :: "kapi \<Rightarrow> dstate \<Rightarrow> control_message \<Rightarrow> addr \<Rightarrow> dysco_cb_out \<Rightarrow> skb \<Rightarrow> bool" where
  "left_ready K s m l e b \<longleftrightarrow> stores_fresh s \<and> (\<forall>n. k_alloc K n) \<and> look_reconfig (m_super m) s = None \<and>
     m_super m = m_leftSS m \<and> knows_session s (m_leftSS m) l e \<and> dysco_route K b (daddr (iph b)) \<noteq> None"

definition right_ready :: "kapi \<Rightarrow> dstate \<Rightarrow> control_message \<Rightarrow> addr \<Rightarrow> dysco_cb_out \<Rightarrow> bool" where
  "right_ready K s m p c \<longleftrightarrow> stores_fresh s \<and> (\<forall>n. k_alloc K n) \<and> look_reconfig (m_super m) s = None \<and>
     knows_session s (rev_session (m_rightSS m)) p c"

section \<open>DYSCO_SYN at the left anchor\<close>

lemma output_syn:
  "leaves m DYSCO_SYN a b \<Longrightarrow> control_output_msg K b s = dysco_control_output_syn K b s"
  by (simp add: control_output_msg_def leaves_def control_packet_def msg_of_code_msg_code)

lemma leftA_syn:
  assumes "left_ready K s m l e b" and "leaves m DYSCO_SYN (m_leftA m) b" and "ntohs (m_semantic m) \<noteq> STATE_TRANSFER"
  shows "\<exists>b' s' n lp. dysco_control_output K b s = Some (TX_CONTINUE, b', s') \<and>
    same_exchange m (cmsg b') \<and> m_mtype (cmsg b') = msg_code DYSCO_SYN \<and>
    m_leftIseq (cmsg b') = htonl (o_in_iseq e) \<and> m_leftIack (cmsg b') = htonl (o_in_iack e) \<and>
    left_anchor s' lp l m (e\<lparr>o_old_path := True, o_state := DYSCO_SYN_SENT, o_other_path := Some n\<rparr>)"
proof -
  note l = leavesD [OF assms(2)]
  obtain q i where e: "look_out (m_leftSS (cmsg b)) s = Some l" "outs s l = Some e" "o_dcb_in e = Some q"
    "ins s q = Some i" "\<not> o_state_t e"
    using assms(1) l(1) by (auto simp: left_ready_def knows_session_def same_exchange_def)
  obtain rt where "dysco_route K b (daddr (iph b)) = Some rt" using assms(1) by (auto simp: left_ready_def)
  then obtain b' s' x y where o: "control_output_syn_leftA K b s = Some (TX_CONTINUE, b', s')"
    "new_path_started l e q b (Suc (next_addr s)) s'" "hash_out (dh s') = hash_out (dh s)"
    "cmsg b' = (msg_from_cb_out e i (cmsg b))\<lparr>m_sport := x, m_dport := y\<rparr>"
    using leftA_new_path_exact [of s b l e q i K] e assms(1) by (auto simp: left_ready_def)
  have "dysco_control_output K b s = Some (TX_CONTINUE, b', s')"
    using o(1) output_msg [OF assms(2)] output_syn [OF assms(2)] assms(1) l
    by (auto simp: dysco_control_output_syn_def left_ready_def same_exchange_def)
  moreover have "same_exchange m (cmsg b')" "m_mtype (cmsg b') = msg_code DYSCO_SYN"
    "m_leftIseq (cmsg b') = htonl (o_in_iseq e)" "m_leftIack (cmsg b') = htonl (o_in_iack e)"
    using l o(4) by (simp_all add: same_exchange_def msg_from_cb_out_def)
  moreover have "\<exists>lp. left_anchor s' lp l m (e\<lparr>o_old_path := True, o_state := DYSCO_SYN_SENT,
      o_other_path := Some (Suc (next_addr s))\<rparr>)"
  proof -
    have "e\<lparr>o_old_path := True, o_state_t := False, o_state := DYSCO_SYN_SENT, o_other_path := Some (Suc (next_addr s))\<rparr> =
        e\<lparr>o_old_path := True, o_state := DYSCO_SYN_SENT, o_other_path := Some (Suc (next_addr s))\<rparr>"
      using e(5) by (cases e) simp
    moreover have "look_out (m_leftSS m) s' = Some l" using e(1) o(3) l(1) by (simp add: look_out_def same_exchange_def)
    ultimately show ?thesis
      using o(2) e(5) assms(1,3) l(1) unfolding new_path_started_def left_anchor_def left_ready_def same_exchange_def
      by auto
  qed
  ultimately show ?thesis by blast
qed

section \<open>DYSCO_SYN at the right anchor\<close>

lemma rightA_syn:
  assumes "right_ready K s m p c" and "same_exchange m (cmsg b)" and "daddr (iph b) = m_rightA m"
    and "ntohs (m_semantic m) \<noteq> STATE_TRANSFER"
  shows "\<exists>s' rp q d. control_input_syn K b s = Some (True, s') \<and> right_anchor s' rp p q m c d \<and>
    (\<forall>x. translate (o_seq_delta d) (o_seq_add d) x = x - o_in_iseq c + ntohl (m_leftIack (cmsg b))) \<and>
    o_in_iack d = o_in_iack c \<and> o_out_iack d = ntohl (m_leftIseq (cmsg b))"
proof -
  let ?r = "rcb_from_syn (cmsg b) (iph b) (k_junk_rcb K (next_addr s))"
  let ?rp = "next_addr s" and ?pi = "Suc (next_addr s)" and ?po = "Suc (Suc (next_addr s))"
  let ?c = "(build_cb_out b ?r)\<lparr>o_dcb_in := Some ?pi\<rparr>"
  let ?i = "(cb_in_of_rcb b ?r (k_junk_in K ?pi))\<lparr>i_dcb_out := Some ?po\<rparr>"
  let ?d = "(dysco_compute_deltas_out ?c c ?r)\<lparr>o_other_path := Some p\<rparr>"
  obtain q0 i0 where c: "look_out (rev_session (m_rightSS m)) s = Some p" "outs s p = Some c" "\<not> o_state_t c"
    "o_dcb_in c = Some q0" "ins s q0 = Some i0"
    using assms(1) by (auto simp: right_ready_def knows_session_def)
  have f: "p \<noteq> ?rp" "p \<noteq> ?pi" "p \<noteq> ?po" "q0 \<noteq> ?pi"
    using assms(1) c(2,5) by (auto simp: right_ready_def stores_fresh_def)
  have ex: "look_reconfig (m_super (cmsg b)) s = None" "m_rightSS (cmsg b) = m_rightSS m" "daddr (iph b) = m_rightA (cmsg b)"
    "ntohs (m_semantic (cmsg b)) \<noteq> STATE_TRANSFER" "m_super (cmsg b) = m_super m"
    using assms by (auto simp: right_ready_def same_exchange_def)
  let ?s1 = "link_reconfig (r_super ?r) ?rp (set_rcb ?rp ?r (bump s))"
  let ?s3 = "set_in ?pi ?i (set_out ?po ?c (set_out ?po (build_cb_out b ?r) (bump
      (set_in ?pi (cb_in_of_rcb b ?r (k_junk_in K ?pi)) (bump ?s1)))))"
  obtain i1 where i1: "dysco_compute_deltas_in (?i\<lparr>i_super := m_rightSS (cmsg b)\<rparr>) c ?s3 ?r = Some i1"
    using c(4,5) f(4) by (cases "r_leftIts ?r = 0") (simp_all add: dysco_compute_deltas_in_def deltas_in_ts_def)
  let ?s4 = "set_rcb ?rp (?r\<lparr>r_old_dcb := Some p, r_new_dcb := Some ?po\<rparr>)
     (set_in ?pi (i1\<lparr>i_two_paths := True\<rparr>) (set_out ?po ?d ?s3))"
  have lk: "look_out k ?s3 = look_out k s" for k by (simp add: look_defs)
  have cfg: "dysco_control_config_rightA ?rp (cmsg b) ?pi ?po ?s3 = Some (True, ?s4)"
    using c(1,2) f i1 ex(2,4) lk [of "rev_session (m_rightSS m)"]
    by (simp add: dysco_control_config_rightA_def rev_session_def Let_def)
  have "control_input_syn K b s = Some (True, link_in (i_sub i1) ?pi ?s4)"
    using assms(1) ex(1,3) cfg
    by (simp add: control_input_syn_def dysco_insert_rcb_control_input_def alloc_rcb_def Let_def right_ready_def
        dysco_control_reconfig_in_def alloc_in_def dysco_build_cb_in_reverse_def alloc_out_def)
  moreover have "right_anchor (link_in (i_sub i1) ?pi ?s4) ?rp p ?po m c ?d"
    using f c(2,3) ex(5) by (simp add: right_anchor_def look_defs tbl.lookup_link_same rcb_from_syn_def)
  moreover have "translate (o_seq_delta ?d) (o_seq_add ?d) x = x - o_in_iseq c + ntohl (m_leftIack (cmsg b))" for x
    by (simp add: deltas_out_fields build_cb_out_def rcb_from_syn_def)
  moreover have "o_in_iack ?d = o_in_iack c" "o_out_iack ?d = ntohl (m_leftIseq (cmsg b))"
    by (simp_all add: deltas_out_fields build_cb_out_def rcb_from_syn_def)
  ultimately show ?thesis by blast
qed

lemma input_syn:
  assumes "arrives a b b'" and "m_mtype (cmsg b) = msg_code DYSCO_SYN" and "control_input_syn K b' s = Some (True, s1)"
  shows "dysco_control_input K b' s = Some (True, b', s1)"
  using assms arrivesD(2) [OF assms(1)] by (auto simp: dysco_control_input_def arrives_def msg_of_code_msg_code)

section \<open>The handshake\<close>

text \<open>
  A message that goes out and one that is taken in, and the exchange: three messages, each handed
  to the network by one host and taken from it by the other. \<open>toR\<close> and \<open>toL\<close> are the network.
\<close>

definition sends :: "kapi \<Rightarrow> skb \<Rightarrow> dstate \<Rightarrow> (skb \<times> dstate) option" where
  "sends K b s = (case dysco_control_output K b s of Some (TX_CONTINUE, b', s') \<Rightarrow> Some (b', s') | _ \<Rightarrow> None)"

definition takes :: "kapi \<Rightarrow> skb \<Rightarrow> dstate \<Rightarrow> dstate option" where
  "takes K b s = (case dysco_control_input K b s of Some (True, b', s') \<Rightarrow> Some s' | _ \<Rightarrow> None)"

definition handshake :: "kapi \<Rightarrow> kapi \<Rightarrow> (skb \<Rightarrow> skb) \<Rightarrow> (skb \<Rightarrow> skb) \<Rightarrow> skb \<Rightarrow> skb \<Rightarrow> skb \<Rightarrow> dstate \<Rightarrow> dstate
    \<Rightarrow> (dstate \<times> dstate) option" where
  "handshake KL KR toR toL b0 b1 b2 sL sR = do {
     (b0', sL1) \<leftarrow> sends KL b0 sL;
     sR1 \<leftarrow> takes KR (toR b0') sR;
     (b1', sR2) \<leftarrow> sends KR b1 sR1;
     sL2 \<leftarrow> takes KL (toL b1') sL1;
     (b2', sL3) \<leftarrow> sends KL b2 sL2;
     sR3 \<leftarrow> takes KR (toR b2') sR2;
     Some (sL3, sR3)
   }"

text \<open>
  C8. The whole handshake of a reconfiguration without state transfer, with no data in between. Two
  hosts know the session as \<open>e\<close> and \<open>c\<close>, memory is not short and the left one has a route. The left
  anchor sends \<open>DYSCO_SYN\<close>, the right anchor takes it and answers with \<open>DYSCO_SYN_ACK\<close>, the left
  anchor takes the answer and confirms with \<open>DYSCO_ACK\<close>, and the right anchor takes the
  confirmation, each message arriving as it was sent except for the ports that hosts on the way
  write into it. No step faults, and at the end both old blocks point to a new path, are
  established and hold the other's cutoff in the numbers of their own peer: from the right cutoff
  the right anchor's initial number is subtracted and the initial acknowledgment number of the
  left anchor added, and the other way round. Nothing else in the two blocks has changed.
\<close>

theorem handshake_exchanges_cutoffs:
  assumes "left_ready KL sL m l e b0" and "right_ready KR sR m p c" and "ntohs (m_semantic m) \<noteq> STATE_TRANSFER"
    and "leaves m DYSCO_SYN (m_leftA m) b0" and "leaves m DYSCO_SYN_ACK (m_rightA m) b1"
    and "leaves m DYSCO_ACK (m_leftA m) b2"
    and "\<And>b. arrives (m_rightA m) b (toR b)" and "\<And>b. arrives (m_leftA m) b (toL b)"
  shows "\<exists>sL' sR' n q. handshake KL KR toR toL b0 b1 b2 sL sR = Some (sL', sR') \<and>
    outs sL' l = Some (e\<lparr>o_old_path := True, o_other_path := Some n, o_ack_cutoff := (o_seq_cutoff c - o_in_iseq c) +
      o_in_iack e, o_valid_ack_cut := True, o_state := DYSCO_ESTABLISHED\<rparr>) \<and>
    outs sR' p = Some (c\<lparr>o_old_path := True, o_other_path := Some q, o_state := DYSCO_ESTABLISHED,
      o_valid_ack_cut := True, o_ack_cutoff := (o_seq_cutoff e - o_in_iseq e) + o_in_iack c\<rparr>)"
proof -
  let ?e = "\<lambda>n. e\<lparr>o_old_path := True, o_state := DYSCO_SYN_SENT, o_other_path := Some n\<rparr>"
  obtain b0' sL1 n lp where L: "dysco_control_output KL b0 sL = Some (TX_CONTINUE, b0', sL1)"
    "same_exchange m (cmsg b0')" "m_mtype (cmsg b0') = msg_code DYSCO_SYN"
    "m_leftIseq (cmsg b0') = htonl (o_in_iseq e)" "m_leftIack (cmsg b0') = htonl (o_in_iack e)"
    "left_anchor sL1 lp l m (?e n)"
    using leftA_syn [OF assms(1,4,3)] by blast
  note d = arrivesD [OF assms(7) [of b0']]
  obtain sR1 rp q d' where R: "control_input_syn KR (toR b0') sR = Some (True, sR1)" "right_anchor sR1 rp p q m c d'"
    "\<And>x. translate (o_seq_delta d') (o_seq_add d') x = x - o_in_iseq c + ntohl (m_leftIack (cmsg (toR b0')))"
    "o_in_iack d' = o_in_iack c" "o_out_iack d' = ntohl (m_leftIseq (cmsg (toR b0')))"
    using rightA_syn [OF assms(2) _ d(6) assms(3)] d(1) L(2) by blast
  have n: "translate (o_seq_delta d') (o_seq_add d') (o_seq_cutoff c) = (o_seq_cutoff c - o_in_iseq c) + o_in_iack e"
    "(o_seq_cutoff (?e n) - o_out_iack d') + o_in_iack d' = (o_seq_cutoff e - o_in_iseq e) + o_in_iack c"
    using R(3-5) d(4,5) L(4,5) by simp_all
  obtain b1' sR2 where 1: "dysco_control_output KR b1 sR1 = Some (TX_CONTINUE, b1', sR2)"
    and 2: "\<forall>a1. arrives (m_leftA m) b1' a1 \<longrightarrow> (\<exists>a1' sL2 b2' sL3. dysco_control_input KL a1 sL1 = Some (True, a1', sL2) \<and>
       dysco_control_output KL b2 sL2 = Some (TX_CONTINUE, b2', sL3) \<and>
       outs sL3 l = Some ((?e n)\<lparr>o_ack_cutoff := (o_seq_cutoff c - o_in_iseq c) + o_in_iack e,
         o_valid_ack_cut := True, o_state := DYSCO_ESTABLISHED\<rparr>) \<and>
       (\<forall>a2. arrives (m_rightA m) b2' a2 \<longrightarrow> (\<exists>a2' sR3. dysco_control_input KR a2 sR2 = Some (True, a2', sR3) \<and>
         outs sR3 p = Some (c\<lparr>o_old_path := True, o_other_path := Some q, o_state := DYSCO_ESTABLISHED,
           o_valid_ack_cut := True, o_ack_cutoff := (o_seq_cutoff e - o_in_iseq e) + o_in_iack c\<rparr>))))"
    using anchors_exchange_cutoffs [OF R(2) assms(5) L(6) assms(6,3), of KR KL, unfolded n] by blast
  obtain a1' sL2 b2' sL3 a2' sR3 where 3: "dysco_control_input KL (toL b1') sL1 = Some (True, a1', sL2)"
    "dysco_control_output KL b2 sL2 = Some (TX_CONTINUE, b2', sL3)"
    "outs sL3 l = Some ((?e n)\<lparr>o_ack_cutoff := (o_seq_cutoff c - o_in_iseq c) + o_in_iack e,
       o_valid_ack_cut := True, o_state := DYSCO_ESTABLISHED\<rparr>)"
    "dysco_control_input KR (toR b2') sR2 = Some (True, a2', sR3)"
    "outs sR3 p = Some (c\<lparr>o_old_path := True, o_other_path := Some q, o_state := DYSCO_ESTABLISHED,
       o_valid_ack_cut := True, o_ack_cutoff := (o_seq_cutoff e - o_in_iseq e) + o_in_iack c\<rparr>)"
    using 2 assms(7,8) by blast
  have "handshake KL KR toR toL b0 b1 b2 sL sR = Some (sL3, sR3)"
    using L(1) input_syn [OF assms(7) L(3) R(1)] 1 3(1,2,4) by (simp add: handshake_def sends_def takes_def)
  then show ?thesis using 3(3,5) by auto
qed

text \<open>Two hosts that know the sessions of \<open>ref_msg\<close> as block 1 with input block 2.\<close>

definition ref_known :: "tcp_session \<Rightarrow> dysco_cb_out \<Rightarrow> dstate" where
  "ref_known k c = fresh_dstate\<lparr>outs := [1 \<mapsto> c], ins := [2 \<mapsto> zero_cb_in], next_addr := 3,
     dh := (fresh_hashes (Some 0))\<lparr>hash_out := [(k, 1)]\<rparr>\<rparr>"

definition ref_end :: "u32 \<Rightarrow> u32 \<Rightarrow> u32 \<Rightarrow> dysco_cb_out" where
  "ref_end w iseq iack = zero_cb_out\<lparr>o_seq_cutoff := w, o_in_iseq := iseq, o_in_iack := iack, o_dcb_in := Some 2\<rparr>"

lemma ref_known_ok:
  "knows_session (ref_known k (ref_end x y z)) k 1 (ref_end x y z)"
  "stores_fresh (ref_known k c)" "look_reconfig k' (ref_known k c) = None"
  by (simp_all add: knows_session_def ref_known_def look_defs ht_lookup_def ref_end_def zero_cb_out_def stores_fresh_def
      fresh_dstate_def fresh_hashes_def)

lemma ref_ready:
  "left_ready ref_kapi (ref_known (m_leftSS ref_msg) (ref_end 77 10 20)) ref_msg 1 (ref_end 77 10 20) b"
  "right_ready ref_kapi (ref_known (rev_session (m_rightSS ref_msg)) (ref_end 1000 500 9)) ref_msg 1 (ref_end 1000 500 9)"
proof -
  have "m_super ref_msg = m_leftSS ref_msg" by (simp add: ref_msg_def)
  then show "left_ready ref_kapi (ref_known (m_leftSS ref_msg) (ref_end 77 10 20)) ref_msg 1 (ref_end 77 10 20) b"
    "right_ready ref_kapi (ref_known (rev_session (m_rightSS ref_msg)) (ref_end 1000 500 9)) ref_msg 1 (ref_end 1000 500 9)"
    using ref_known_ok by (simp_all add: left_ready_def right_ready_def del: One_nat_def)
qed

theorem handshake_exchanges_cutoffs_witness:
  "\<exists>sL' sR'. handshake ref_kapi ref_kapi (deliver (m_rightA ref_msg)) (deliver (m_leftA ref_msg))
      (ref_ctl DYSCO_SYN (m_leftA ref_msg)) (ref_ctl DYSCO_SYN_ACK (m_rightA ref_msg)) (ref_ctl DYSCO_ACK (m_leftA ref_msg))
      (ref_known (m_leftSS ref_msg) (ref_end 77 10 20)) (ref_known (rev_session (m_rightSS ref_msg)) (ref_end 1000 500 9)) =
      Some (sL', sR') \<and>
    map_option o_ack_cutoff (outs sL' 1) = Some 520 \<and> map_option o_state (outs sL' 1) = Some DYSCO_ESTABLISHED \<and>
    map_option o_ack_cutoff (outs sR' 1) = Some 76 \<and> map_option o_state (outs sR' 1) = Some DYSCO_ESTABLISHED"
proof -
  obtain sL' sR' n q where "handshake ref_kapi ref_kapi (deliver (m_rightA ref_msg)) (deliver (m_leftA ref_msg))
      (ref_ctl DYSCO_SYN (m_leftA ref_msg)) (ref_ctl DYSCO_SYN_ACK (m_rightA ref_msg)) (ref_ctl DYSCO_ACK (m_leftA ref_msg))
      (ref_known (m_leftSS ref_msg) (ref_end 77 10 20)) (ref_known (rev_session (m_rightSS ref_msg)) (ref_end 1000 500 9)) =
      Some (sL', sR')"
    "outs sL' 1 = Some ((ref_end 77 10 20)\<lparr>o_old_path := True, o_other_path := Some n, o_ack_cutoff :=
        (o_seq_cutoff (ref_end 1000 500 9) - o_in_iseq (ref_end 1000 500 9)) + o_in_iack (ref_end 77 10 20),
      o_valid_ack_cut := True, o_state := DYSCO_ESTABLISHED\<rparr>)"
    "outs sR' 1 = Some ((ref_end 1000 500 9)\<lparr>o_old_path := True, o_other_path := Some q, o_state := DYSCO_ESTABLISHED,
      o_valid_ack_cut := True, o_ack_cutoff := (o_seq_cutoff (ref_end 77 10 20) - o_in_iseq (ref_end 77 10 20)) +
        o_in_iack (ref_end 1000 500 9)\<rparr>)"
    using handshake_exchanges_cutoffs [OF ref_ready ref_exchange(4) ref_exchange(3) ref_exchange(3) ref_exchange(3)
        deliver_arrives deliver_arrives] by blast
  then show ?thesis by (simp add: ref_end_def)
qed

end
