(* ===== verification/Dysco_Veth.thy ===== *)
theory Dysco_Veth
  imports Dysco_Main
begin

text \<open>
  The virtual Ethernet driver with the module inside (\<^verbatim>\<open>veth/v.c\<close>): a pair of devices where a
  frame sent on one is received by the other, after the output hook of the module has seen it.
  The devices are a store of \<open>veth_dev\<close>; the networking core is the parameter \<open>nl_kernel\<close>. Under
  the lock of the core (\<^verbatim>\<open>rtnl\<close>) the operations on devices do not interleave.
\<close>

section \<open>Devices\<close>

text \<open>The feature bits the driver names; \<^verbatim>\<open>NETIF_F_ALL_TSO\<close> is a group of the kernel.\<close>

datatype netif_feature =
    NETIF_F_SG | NETIF_F_FRAGLIST | NETIF_F_ALL_TSO | NETIF_F_HW_CSUM | NETIF_F_RXCSUM | NETIF_F_HIGHDMA
  | NETIF_F_GSO_GRE | NETIF_F_GSO_UDP_TUNNEL | NETIF_F_GSO_IPIP | NETIF_F_GSO_SIT | NETIF_F_UFO
  | NETIF_F_HW_VLAN_CTAG_TX | NETIF_F_HW_VLAN_CTAG_RX | NETIF_F_HW_VLAN_STAG_TX | NETIF_F_HW_VLAN_STAG_RX
  | NETIF_F_LLTX

definition VETH_FEATURES :: "netif_feature set" where
  "VETH_FEATURES = {NETIF_F_SG, NETIF_F_FRAGLIST, NETIF_F_ALL_TSO, NETIF_F_HW_CSUM, NETIF_F_RXCSUM, NETIF_F_HIGHDMA,
     NETIF_F_GSO_GRE, NETIF_F_GSO_UDP_TUNNEL, NETIF_F_GSO_IPIP, NETIF_F_GSO_SIT, NETIF_F_UFO,
     NETIF_F_HW_VLAN_CTAG_TX, NETIF_F_HW_VLAN_CTAG_RX, NETIF_F_HW_VLAN_STAG_TX, NETIF_F_HW_VLAN_STAG_RX}"

text \<open>
  \<open>v_peer\<close> and \<open>v_dropped\<close> are the private data, \<open>v_stats\<close> the packets and bytes of each
  processor, or \<open>None\<close> before the device is initialised. \<open>v_tx_sharing\<close> and
  \<open>v_live_addr_change\<close> are the two private flags the driver sets, \<open>v_handler\<close> tells whether the
  receive handler of the module is registered.
\<close>

record veth_dev =
  v_dev :: net_device
  v_name :: string
  v_mtu :: int
  v_up :: bool
  v_carrier :: bool
  v_tx_sharing :: bool
  v_live_addr_change :: bool
  v_features :: "netif_feature set"
  v_vlan_features :: "netif_feature set"
  v_hw_features :: "netif_feature set"
  v_lro :: bool
  v_handler :: bool
  v_peer :: "addr option"
  v_dropped :: u64
  v_stats :: "(u64 \<times> u64) list option"

record nl_attrs =
  a_ifname :: "string option"
  a_address :: "mac option"
  a_mtu :: "u32 option"

text \<open>
  The networking core: the number of processors; the namespace a message names and the device
  made for it (with its MTU), or an error; whether the receive handler, the counters and the
  device can be registered and configured; a random address; and whether the peer accepts a
  frame.
\<close>

record nl_kernel =
  nk_cpus :: nat
  nk_net :: "nat \<Rightarrow> nl_attrs \<Rightarrow> int + nat"
  nk_create :: "nat \<Rightarrow> string \<Rightarrow> nl_attrs \<Rightarrow> int + net_device \<times> int"
  nk_rx_register :: "net_device \<Rightarrow> int"
  nk_percpu :: "net_device \<Rightarrow> bool"
  nk_register :: "net_device \<Rightarrow> int"
  nk_configure :: "net_device \<Rightarrow> int"
  nk_mac :: "net_device \<Rightarrow> mac"
  nk_forward :: "net_device \<Rightarrow> skb \<Rightarrow> bool"

text \<open>\<open>net_refs\<close> counts the references to namespaces the driver holds.\<close>

record veth_state =
  vdevs :: "addr \<rightharpoonup> veth_dev"
  v_next :: addr
  net_refs :: int
  v_mod :: mstate

definition set_dev :: "addr \<Rightarrow> veth_dev \<Rightarrow> veth_state \<Rightarrow> veth_state" where
  "set_dev p d s = s\<lparr>vdevs := (vdevs s)(p \<mapsto> d)\<rparr>"

abbreviation (input) EINVAL :: int where "EINVAL \<equiv> 22"
abbreviation (input) ENOMEM :: int where "ENOMEM \<equiv> 12"
abbreviation (input) EADDRNOTAVAIL :: int where "EADDRNOTAVAIL \<equiv> 99"
abbreviation (input) EOPNOTSUPP :: int where "EOPNOTSUPP \<equiv> 95"
abbreviation (input) ENOTCONN :: int where "ENOTCONN \<equiv> 107"
abbreviation (input) MIN_MTU :: int where "MIN_MTU \<equiv> 68"
abbreviation (input) MAX_MTU :: int where "MAX_MTU \<equiv> 65535"
abbreviation (input) IFNAMSIZ :: nat where "IFNAMSIZ \<equiv> 16"
abbreviation (input) ETH_SS_STATS :: int where "ETH_SS_STATS \<equiv> 1"

section \<open>Sending\<close>

definition count_packet :: "nat \<Rightarrow> int \<Rightarrow> (u64 \<times> u64) list \<Rightarrow> (u64 \<times> u64) list" where
  "count_packet cpu len st = st[cpu := (fst (st ! cpu) + 1, snd (st ! cpu) + of_int len)]"

text \<open>
  A frame sent on device \<open>p\<close> by processor \<open>cpu\<close>. Its length is read before the module sees it,
  as an \<open>int\<close>.
\<close>

definition veth_xmit :: "kapi \<Rightarrow> nl_kernel \<Rightarrow> nat \<Rightarrow> addr \<Rightarrow> skb \<Rightarrow> veth_state \<Rightarrow> (tx_result \<times> veth_state) option" where
  "veth_xmit K N cpu p b s = do {
     let len = sint (skb_len b);
     ((r, b1), m) \<leftarrow> dysco_output K b (v_mod s);
     let s1 = s\<lparr>v_mod := m\<rparr>;
     if r = NETDEV_TX_OK then Some (NETDEV_TX_OK, s1)
     else do {
       d \<leftarrow> vdevs s1 p;
       (case v_peer d of
          None \<Rightarrow> Some (NETDEV_TX_OK, set_dev p (d\<lparr>v_dropped := v_dropped d + 1\<rparr>) s1)
        | Some q \<Rightarrow> do {
            rcv \<leftarrow> vdevs s1 q;
            let b2 = (if ip_summed b1 = CHECKSUM_NONE \<and> NETIF_F_RXCSUM \<in> v_features rcv
              then b1\<lparr>ip_summed := CHECKSUM_UNNECESSARY\<rparr> else b1);
            if nk_forward N (v_dev rcv) b2 then do {
              st \<leftarrow> v_stats d;
              if length st \<le> cpu then None
              else Some (NETDEV_TX_OK, set_dev p (d\<lparr>v_stats := Some (count_packet cpu len st)\<rparr>) s1)
            } else Some (NETDEV_TX_OK, set_dev p (d\<lparr>v_dropped := v_dropped d + 1\<rparr>) s1)
          })
     }
   }"

section \<open>Statistics\<close>

definition veth_stats_one :: "veth_dev \<Rightarrow> (u64 \<times> u64 \<times> u64) option" where
  "veth_stats_one d = do {
     st \<leftarrow> v_stats d;
     Some (v_dropped d, sum_list (map fst st), sum_list (map snd st))
   }"

record link_stats =
  tx_dropped :: u64
  tx_packets :: u64
  tx_bytes :: u64
  rx_dropped :: u64
  rx_packets :: u64
  rx_bytes :: u64

definition veth_get_stats64 :: "addr \<Rightarrow> link_stats \<Rightarrow> veth_state \<Rightarrow> link_stats option" where
  "veth_get_stats64 p tot s = do {
     d \<leftarrow> vdevs s p;
     (dr, pk, by) \<leftarrow> veth_stats_one d;
     let tot1 = tot\<lparr>tx_dropped := dr, tx_bytes := by, tx_packets := pk\<rparr>;
     (case v_peer d of
        None \<Rightarrow> Some tot1
      | Some q \<Rightarrow> do {
          e \<leftarrow> vdevs s q;
          (dr', pk', by') \<leftarrow> veth_stats_one e;
          Some (tot1\<lparr>rx_dropped := dr', rx_bytes := by', rx_packets := pk'\<rparr>)
        })
   }"

definition veth_get_sset_count :: "int \<Rightarrow> int" where
  "veth_get_sset_count sset = (if sset = ETH_SS_STATS then 1 else - EOPNOTSUPP)"

text \<open>The index of the peer, 0 when there is none: for the statistics tool and for the core.\<close>

definition veth_get_iflink :: "addr \<Rightarrow> veth_state \<Rightarrow> int option" where
  "veth_get_iflink p s = do {
     d \<leftarrow> vdevs s p;
     (case v_peer d of None \<Rightarrow> Some 0 | Some q \<Rightarrow> map_option (\<lambda>e. ifindex (v_dev e)) (vdevs s q))
   }"

definition veth_get_ethtool_stats :: "addr \<Rightarrow> veth_state \<Rightarrow> u64 option" where
  "veth_get_ethtool_stats p s = map_option of_int (veth_get_iflink p s)"

definition veth_get_link_net :: "addr \<Rightarrow> veth_state \<Rightarrow> nat option" where
  "veth_get_link_net p s = do {
     d \<leftarrow> vdevs s p;
     (case v_peer d of None \<Rightarrow> Some (dev_net (v_dev d)) | Some q \<Rightarrow> map_option (\<lambda>e. dev_net (v_dev e)) (vdevs s q))
   }"

section \<open>Up, down, MTU\<close>

definition set_carrier :: "bool \<Rightarrow> addr \<Rightarrow> veth_state \<Rightarrow> veth_state option" where
  "set_carrier on p s = do { d \<leftarrow> vdevs s p; Some (set_dev p (d\<lparr>v_carrier := on\<rparr>) s) }"

definition veth_open :: "addr \<Rightarrow> veth_state \<Rightarrow> (int \<times> veth_state) option" where
  "veth_open p s = do {
     d \<leftarrow> vdevs s p;
     (case v_peer d of
        None \<Rightarrow> Some (- ENOTCONN, s)
      | Some q \<Rightarrow> do {
          e \<leftarrow> vdevs s q;
          if v_up e then do { s1 \<leftarrow> set_carrier True p s; s2 \<leftarrow> set_carrier True q s1; Some (0, s2) }
          else Some (0, s)
        })
   }"

definition veth_close :: "addr \<Rightarrow> veth_state \<Rightarrow> (int \<times> veth_state) option" where
  "veth_close p s = do {
     d \<leftarrow> vdevs s p;
     s1 \<leftarrow> set_carrier False p s;
     (case v_peer d of None \<Rightarrow> Some (0, s1) | Some q \<Rightarrow> do { s2 \<leftarrow> set_carrier False q s1; Some (0, s2) })
   }"

definition is_valid_veth_mtu :: "int \<Rightarrow> bool" where
  "is_valid_veth_mtu new_mtu \<longleftrightarrow> MIN_MTU \<le> new_mtu \<and> new_mtu \<le> MAX_MTU"

definition veth_change_mtu :: "addr \<Rightarrow> int \<Rightarrow> veth_state \<Rightarrow> (int \<times> veth_state) option" where
  "veth_change_mtu p new_mtu s = (
     if \<not> is_valid_veth_mtu new_mtu then Some (- EINVAL, s)
     else do { d \<leftarrow> vdevs s p; Some (0, set_dev p (d\<lparr>v_mtu := new_mtu\<rparr>) s) })"

section \<open>Creating and removing a pair\<close>

text \<open>An attribute is a \<open>u32\<close> and is passed on as an \<open>int\<close>.\<close>

definition veth_validate :: "nl_attrs \<Rightarrow> int" where
  "veth_validate tb = (
     let addr_err = (case a_address tb of
           None \<Rightarrow> 0
         | Some a \<Rightarrow> if length a \<noteq> 6 then - EINVAL
                     else if \<not> is_valid_ether_addr a then - EADDRNOTAVAIL else 0)
     in if addr_err \<noteq> 0 then addr_err
        else (case a_mtu tb of
            None \<Rightarrow> 0
          | Some n \<Rightarrow> if \<not> is_valid_veth_mtu (sint n) then - EINVAL else 0))"

definition veth_setup :: "nl_kernel \<Rightarrow> veth_dev \<Rightarrow> veth_dev" where
  "veth_setup N d = (
     let fs = v_features d \<union> {NETIF_F_LLTX} \<union> VETH_FEATURES
     in d\<lparr>v_tx_sharing := False, v_live_addr_change := True, v_features := fs,
          v_vlan_features := fs - {NETIF_F_HW_VLAN_CTAG_TX, NETIF_F_HW_VLAN_STAG_TX,
                                   NETIF_F_HW_VLAN_CTAG_RX, NETIF_F_HW_VLAN_STAG_RX},
          v_hw_features := VETH_FEATURES,
          v_handler := (nk_rx_register N (v_dev d) = 0), v_lro := False\<rparr>)"

text \<open>The device as \<^verbatim>\<open>ether_setup\<close> leaves it and the driver's own set-up completes it.\<close>

definition new_veth :: "nl_kernel \<Rightarrow> net_device \<times> int \<Rightarrow> string \<Rightarrow> veth_dev" where
  "new_veth N nd name = veth_setup N \<lparr>v_dev = fst nd, v_name = name, v_mtu = snd nd, v_up = False, v_carrier = True,
     v_tx_sharing = True, v_live_addr_change = False, v_features = {}, v_vlan_features = {}, v_hw_features = {},
     v_lro = True, v_handler = False, v_peer = None, v_dropped = 0, v_stats = None\<rparr>"

definition veth_dev_init :: "nl_kernel \<Rightarrow> veth_dev \<Rightarrow> int \<times> veth_dev" where
  "veth_dev_init N d = (if nk_percpu N (v_dev d)
     then (0, d\<lparr>v_stats := Some (replicate (nk_cpus N) (0, 0))\<rparr>) else (- ENOMEM, d))"

text \<open>Registering a device initialises it first.\<close>

definition register_netdevice :: "nl_kernel \<Rightarrow> veth_dev \<Rightarrow> int \<times> veth_dev" where
  "register_netdevice N d = (let (err, d1) = veth_dev_init N d
     in if err \<noteq> 0 then (err, d1) else (nk_register N (v_dev d1), d1))"

text \<open>The device is gone when its last user is: its counters and the structure are freed.\<close>

definition veth_dev_free :: "addr \<Rightarrow> veth_state \<Rightarrow> veth_state" where
  "veth_dev_free p s = s\<lparr>vdevs := (vdevs s)(p := None)\<rparr>"

definition new_name :: "nl_attrs \<Rightarrow> string" where
  "new_name tb = (case a_ifname tb of Some n \<Rightarrow> take (IFNAMSIZ - 1) n | None \<Rightarrow> ''veth%d'')"

definition hw_addr :: "nl_kernel \<Rightarrow> nl_attrs \<Rightarrow> veth_dev \<Rightarrow> veth_dev" where
  "hw_addr N tb d = (if a_address tb = None then d\<lparr>v_dev := (v_dev d)\<lparr>dev_addr := nk_mac N (v_dev d)\<rparr>\<rparr> else d)"

text \<open>
  The peer part of the message: absent, or the result of parsing it, the attributes and the
  interface index.
\<close>

definition peer_attrs :: "nl_attrs \<Rightarrow> (int \<times> nl_attrs \<times> int) option \<Rightarrow> int + nl_attrs \<times> int option" where
  "peer_attrs tb data = (case data of
     None \<Rightarrow> Inr (tb, None)
   | Some (err, ptb, idx) \<Rightarrow>
       if err < 0 then Inl err
       else if veth_validate ptb < 0 then Inl (veth_validate ptb)
       else Inr (ptb, Some idx))"

definition newlink_dev :: "nl_kernel \<Rightarrow> addr \<Rightarrow> veth_dev \<Rightarrow> addr \<Rightarrow> veth_dev \<Rightarrow> nl_attrs \<Rightarrow> veth_state \<Rightarrow> int \<times> veth_state" where
  "newlink_dev N p d q e tb s = (
     let d1 = (hw_addr N tb d)\<lparr>v_name := new_name tb\<rparr>;
         (err, d2) = register_netdevice N d1
     in if err < 0 then (err, veth_dev_free q (set_dev p d2 s))
        else (0, set_dev q (e\<lparr>v_peer := Some p\<rparr>) (set_dev p (d2\<lparr>v_carrier := False, v_peer := Some q\<rparr>) s)))"

definition newlink_peer :: "nl_kernel \<Rightarrow> addr \<Rightarrow> veth_dev \<Rightarrow> veth_dev \<Rightarrow> nl_attrs \<Rightarrow> veth_state \<Rightarrow> int \<times> veth_state" where
  "newlink_peer N p d e tb s = (
     let q = v_next s;
         (err, e1) = register_netdevice N e;
         s1 = s\<lparr>v_next := Suc q, net_refs := net_refs s - 1\<rparr>
     in if err < 0 then (err, s1)
        else let e2 = e1\<lparr>v_carrier := False\<rparr>;
                 s2 = set_dev q e2 s1;
                 cerr = nk_configure N (v_dev e2)
             in if cerr < 0 then (cerr, veth_dev_free q s2) else newlink_dev N p d q e2 tb s2)"

definition veth_newlink :: "nl_kernel \<Rightarrow> nat \<Rightarrow> addr \<Rightarrow> nl_attrs \<Rightarrow> (int \<times> nl_attrs \<times> int) option \<Rightarrow> veth_state
    \<Rightarrow> (int \<times> veth_state) option" where
  "veth_newlink N src_net p tb data s = do {
     d \<leftarrow> vdevs s p;
     Some (case peer_attrs tb data of
         Inl err \<Rightarrow> (err, s)
       | Inr (tbp, idx) \<Rightarrow>
           let name = new_name tbp in
           (case nk_net N src_net tbp of
              Inl err \<Rightarrow> (err, s)
            | Inr net \<Rightarrow>
                let s1 = s\<lparr>net_refs := net_refs s + 1\<rparr> in
                (case nk_create N net name tbp of
                   Inl err \<Rightarrow> (err, s1\<lparr>net_refs := net_refs s1 - 1\<rparr>)
                 | Inr nd \<Rightarrow>
                     let e = hw_addr N tbp (new_veth N nd name);
                         e1 = (case idx of
                             Some i \<Rightarrow> if ifindex (v_dev d) \<noteq> 0 then e\<lparr>v_dev := (v_dev e)\<lparr>ifindex := i\<rparr>\<rparr> else e
                           | None \<Rightarrow> e)
                     in newlink_peer N p d e1 tb s1)))
   }"

text \<open>
  Removing a device separates the pair and queues both ends for release; \<open>release_queue\<close> is
  what the core does with the queue.
\<close>

definition veth_dellink :: "addr \<Rightarrow> veth_state \<Rightarrow> (addr list \<times> veth_state) option" where
  "veth_dellink p s = do {
     d \<leftarrow> vdevs s p;
     let s1 = set_dev p (d\<lparr>v_peer := None\<rparr>) s;
     (case v_peer d of
        None \<Rightarrow> Some ([p], s1)
      | Some q \<Rightarrow> do {
          e \<leftarrow> vdevs s1 q;
          Some ([p, q], set_dev q (e\<lparr>v_peer := None\<rparr>) s1)
        })
   }"

fun release_queue :: "addr list \<Rightarrow> veth_state \<Rightarrow> veth_state" where
  "release_queue [] s = s"
| "release_queue (p # ps) s = release_queue ps (veth_dev_free p s)"

section \<open>The module of the driver\<close>

definition veth_init :: "kapi \<Rightarrow> int \<Rightarrow> mstate \<Rightarrow> (int \<times> mstate) option" where
  "veth_init K reg m = (
     let (ret, m1) = dysco_init K m in
     if ret < 0 then Some (ret, m1)
     else if reg < 0 then do { m2 \<leftarrow> dysco_deinit m1; Some (reg, m2) }
     else Some (reg, m1))"

definition veth_exit :: "mstate \<Rightarrow> mstate option" where
  "veth_exit m = dysco_deinit m"

section \<open>Pairs\<close>

definition paired :: "veth_state \<Rightarrow> bool" where
  "paired s \<longleftrightarrow> (\<forall>p d. vdevs s p = Some d \<longrightarrow> p < v_next s \<and>
     (\<forall>q. v_peer d = Some q \<longrightarrow> q \<noteq> p \<and> (\<exists>e. vdevs s q = Some e \<and> v_peer e = Some p)))"

lemma pairedD:
  assumes "paired s" and "vdevs s p = Some d"
  shows "p < v_next s" "v_peer d = Some q \<Longrightarrow> q \<noteq> p" "v_peer d = Some q \<Longrightarrow> \<exists>e. vdevs s q = Some e \<and> v_peer e = Some p"
  using assms unfolding paired_def by blast+

text \<open>The life of the devices: the core makes an unconnected one, and calls the driver.\<close>

inductive veth_step :: "kapi \<Rightarrow> nl_kernel \<Rightarrow> veth_state \<Rightarrow> veth_state \<Rightarrow> bool" for K N where
  Create: "v_peer d = None \<Longrightarrow> veth_step K N s (set_dev (v_next s) d (s\<lparr>v_next := Suc (v_next s)\<rparr>))"
| Newlink: "vdevs s p = Some d \<Longrightarrow> v_peer d = None \<Longrightarrow> veth_newlink N net p tb data s = Some (err, s') \<Longrightarrow> veth_step K N s s'"
| Xmit: "veth_xmit K N cpu p b s = Some (r, s') \<Longrightarrow> veth_step K N s s'"
| Open: "veth_open p s = Some (err, s') \<Longrightarrow> veth_step K N s s'"
| Close: "veth_close p s = Some (err, s') \<Longrightarrow> veth_step K N s s'"
| Mtu: "veth_change_mtu p n s = Some (err, s') \<Longrightarrow> veth_step K N s s'"
| Dellink: "veth_dellink p s = Some (ps, s') \<Longrightarrow> veth_step K N s (release_queue ps s')"

abbreviation veth_reachable :: "kapi \<Rightarrow> nl_kernel \<Rightarrow> veth_state \<Rightarrow> bool" where
  "veth_reachable K N \<equiv> reach (\<lambda>s. vdevs s = Map.empty) (veth_step K N)"

text \<open>A write that keeps the peer of a device keeps the pairs.\<close>

lemma paired_set_same:
  assumes "paired s" and "vdevs s p = Some d" and "v_peer d' = v_peer d"
  shows "paired (set_dev p d' s)"
  using assms unfolding paired_def set_dev_def by (simp; metis option.inject)

lemma paired_frame [simp]: "paired (s\<lparr>v_mod := m\<rparr>) = paired s" "paired (s\<lparr>net_refs := n\<rparr>) = paired s"
  by (simp_all add: paired_def)

text \<open>What becomes of a frame: the module keeps it, it is dropped, or it is delivered and counted.\<close>

lemma veth_xmit_result:
  assumes "veth_xmit K N cpu p b s = Some (r, s')"
  obtains (Consumed) b1 m where "dysco_output K b (v_mod s) = Some ((NETDEV_TX_OK, b1), m)" "r = NETDEV_TX_OK"
      "s' = s\<lparr>v_mod := m\<rparr>"
  | (Dropped) b1 m d where "dysco_output K b (v_mod s) = Some ((TX_CONTINUE, b1), m)" "r = NETDEV_TX_OK"
      "vdevs s p = Some d" "s' = set_dev p (d\<lparr>v_dropped := v_dropped d + 1\<rparr>) (s\<lparr>v_mod := m\<rparr>)"
  | (Sent) b1 m d st where "dysco_output K b (v_mod s) = Some ((TX_CONTINUE, b1), m)" "r = NETDEV_TX_OK"
      "vdevs s p = Some d" "v_peer d \<noteq> None" "v_stats d = Some st" "cpu < length st"
      "s' = set_dev p (d\<lparr>v_stats := Some (count_packet cpu (sint (skb_len b)) st)\<rparr>) (s\<lparr>v_mod := m\<rparr>)"
proof -
  obtain x b1 m where o: "dysco_output K b (v_mod s) = Some ((x, b1), m)"
    using assms by (cases "dysco_output K b (v_mod s)") (auto simp: veth_xmit_def)
  show thesis
  proof (cases x)
    case NETDEV_TX_OK
    then show thesis using assms o by (intro Consumed [of b1 m]) (auto simp: veth_xmit_def)
  next
    case TX_CONTINUE
    obtain d where d: "vdevs s p = Some d"
      using assms o TX_CONTINUE by (cases "vdevs s p") (simp_all add: veth_xmit_def Let_def)
    show thesis
    proof (cases "v_peer d")
      case None
      then show thesis using assms o TX_CONTINUE d by (intro Dropped [of b1 m d]) (auto simp: veth_xmit_def)
    next
      case (Some q)
      obtain e where e: "vdevs s q = Some e"
        using assms o TX_CONTINUE d Some by (cases "vdevs s q") (simp_all add: veth_xmit_def Let_def)
      let ?b = "if ip_summed b1 = CHECKSUM_NONE \<and> NETIF_F_RXCSUM \<in> v_features e then b1\<lparr>ip_summed := CHECKSUM_UNNECESSARY\<rparr> else b1"
      show thesis
      proof (cases "nk_forward N (v_dev e) ?b")
        case True
        then obtain st where "v_stats d = Some st" "cpu < length st"
          "s' = set_dev p (d\<lparr>v_stats := Some (count_packet cpu (sint (skb_len b)) st)\<rparr>) (s\<lparr>v_mod := m\<rparr>)" "r = NETDEV_TX_OK"
          using assms o TX_CONTINUE d Some e by (simp add: veth_xmit_def Let_def bind_eq_Some_conv split: if_splits)
        then show thesis using Some o TX_CONTINUE d by (intro Sent [of b1 m d st]) auto
      next
        case False
        then have "s' = set_dev p (d\<lparr>v_dropped := v_dropped d + 1\<rparr>) (s\<lparr>v_mod := m\<rparr>)" "r = NETDEV_TX_OK"
          using assms o TX_CONTINUE d Some e by (simp_all add: veth_xmit_def Let_def)
        then show thesis using o TX_CONTINUE d by (intro Dropped [of b1 m d]) auto
      qed
    qed
  qed
qed

lemma veth_xmit_paired:
  assumes "paired s" and "veth_xmit K N cpu p b s = Some (r, s')"
  shows "paired s'"
  using assms(2)
proof (cases rule: veth_xmit_result)
  case Consumed then show ?thesis using assms(1) by simp
next
  case (Dropped b1 m d) then show ?thesis using assms(1) by (simp add: paired_set_same [where d = d])
next
  case (Sent b1 m d st) then show ?thesis using assms(1) by (simp add: paired_set_same [where d = d])
qed

lemma set_carrier_paired: "set_carrier on p s = Some s' \<Longrightarrow> paired s \<Longrightarrow> paired s'"
  by (auto simp: set_carrier_def bind_eq_Some_conv intro: paired_set_same)

lemma veth_open_paired: "paired s \<Longrightarrow> veth_open p s = Some (err, s') \<Longrightarrow> paired s'"
  by (auto simp: veth_open_def bind_eq_Some_conv split: if_splits option.splits
      intro: set_carrier_paired [OF _ set_carrier_paired])

lemma veth_close_paired: "paired s \<Longrightarrow> veth_close p s = Some (err, s') \<Longrightarrow> paired s'"
  by (auto simp: veth_close_def bind_eq_Some_conv split: option.splits
      intro: set_carrier_paired set_carrier_paired [OF _ set_carrier_paired])

lemma veth_mtu_paired: "paired s \<Longrightarrow> veth_change_mtu p n s = Some (err, s') \<Longrightarrow> paired s'"
  by (auto simp: veth_change_mtu_def bind_eq_Some_conv split: if_splits intro: paired_set_same)

lemma paired_remove:
  assumes "paired s" and "vdevs s' = (\<lambda>x. if x \<in> A then None else vdevs s x)" and "v_next s' = v_next s"
    and "\<And>x d q. vdevs s x = Some d \<Longrightarrow> v_peer d = Some q \<Longrightarrow> q \<in> A \<Longrightarrow> x \<in> A"
  shows "paired s'"
  using assms(1,4) unfolding paired_def assms(2,3) by (simp; blast)

lemma veth_dellink_paired:
  assumes "paired s" and "veth_dellink p s = Some (ps, s')"
  shows "paired (release_queue ps s')" "vdevs (release_queue ps s') = (\<lambda>x. if x \<in> set ps then None else vdevs s x)"
proof -
  obtain d where d: "vdevs s p = Some d" using assms(2) by (cases "vdevs s p") (simp_all add: veth_dellink_def)
  have "paired (release_queue ps s') \<and> vdevs (release_queue ps s') = (\<lambda>x. if x \<in> set ps then None else vdevs s x)"
  proof (cases "v_peer d")
    case None
    then have ps: "ps = [p]" "s' = set_dev p (d\<lparr>v_peer := None\<rparr>) s" using assms(2) d by (simp_all add: veth_dellink_def)
    have v: "vdevs (release_queue ps s') = (\<lambda>x. if x \<in> set ps then None else vdevs s x)" "v_next (release_queue ps s') = v_next s"
      by (auto simp: ps veth_dev_free_def set_dev_def)
    have "x = p" if "vdevs s x = Some e" and "v_peer e = Some p" for x e
      using pairedD(3) [OF assms(1) that] d None by auto
    then have "paired (release_queue ps s')" by (intro paired_remove [OF assms(1) v]) (auto simp: ps)
    then show ?thesis using v by blast
  next
    case (Some q)
    obtain e where e: "vdevs s q = Some e" "v_peer e = Some p" "q \<noteq> p" using pairedD [OF assms(1) d] Some by blast
    then have ps: "ps = [p, q]" "s' = set_dev q (e\<lparr>v_peer := None\<rparr>) (set_dev p (d\<lparr>v_peer := None\<rparr>) s)"
      using assms(2) d Some by (simp_all add: veth_dellink_def set_dev_def)
    have v: "vdevs (release_queue ps s') = (\<lambda>x. if x \<in> set ps then None else vdevs s x)" "v_next (release_queue ps s') = v_next s"
      by (auto simp: ps veth_dev_free_def set_dev_def)
    have "x \<in> {p, q}" if "vdevs s x = Some f" and "v_peer f = Some r" and "r \<in> {p, q}" for x f r
      using pairedD(3) [OF assms(1) that(1,2)] that(3) d e Some by auto
    then have "paired (release_queue ps s')" by (intro paired_remove [OF assms(1) v]) (auto simp: ps)
    then show ?thesis using v by blast
  qed
  then show "paired (release_queue ps s')" "vdevs (release_queue ps s') = (\<lambda>x. if x \<in> set ps then None else vdevs s x)"
    by blast+
qed

text \<open>What a call of \<open>veth_newlink\<close> for device \<open>p\<close>, which was \<open>d\<close>, leaves behind.\<close>

definition newlink_result :: "addr \<Rightarrow> veth_dev \<Rightarrow> veth_state \<Rightarrow> int \<Rightarrow> veth_state \<Rightarrow> bool" where
  "newlink_result p d s err s' \<longleftrightarrow> net_refs s' = net_refs s \<and> v_mod s' = v_mod s \<and> v_next s \<le> v_next s' \<and>
     (if err < 0 then \<exists>d'. vdevs s' = (vdevs s)(p \<mapsto> d') \<and> v_peer d' = v_peer d
      else \<exists>d' e. v_next s' = Suc (v_next s) \<and> vdevs s' = (vdevs s)(p \<mapsto> d', v_next s \<mapsto> e) \<and>
        v_peer d' = Some (v_next s) \<and> v_peer e = Some p \<and> \<not> v_carrier d' \<and> \<not> v_carrier e \<and>
        v_stats d' \<noteq> None \<and> v_stats e \<noteq> None)"

lemma register_result:
  assumes "register_netdevice N d = (err, d')"
  shows "v_peer d' = v_peer d" "0 \<le> err \<Longrightarrow> v_stats d' \<noteq> None"
  using assms by (auto simp: register_netdevice_def veth_dev_init_def split: if_splits)

lemma newlink_dev_result:
  assumes "newlink_dev N p d q e tb s = (err, s')" and "vdevs s q = Some e" and "q \<noteq> p"
  shows "v_next s' = v_next s" "net_refs s' = net_refs s" "v_mod s' = v_mod s"
    "err < 0 \<Longrightarrow> \<exists>d'. vdevs s' = (vdevs s)(p \<mapsto> d', q := None) \<and> v_peer d' = v_peer d"
    "0 \<le> err \<Longrightarrow> \<exists>d'. vdevs s' = (vdevs s)(p \<mapsto> d', q \<mapsto> e\<lparr>v_peer := Some p\<rparr>) \<and> v_peer d' = Some q \<and> \<not> v_carrier d' \<and>
      v_stats d' \<noteq> None"
proof -
  let ?d1 = "(hw_addr N tb d)\<lparr>v_name := new_name tb\<rparr>"
  obtain err' d2 where r: "register_netdevice N ?d1 = (err', d2)" by fastforce
  have p: "v_peer d2 = v_peer d" using register_result(1) [OF r] by (simp add: hw_addr_def)
  note n = assms(1) [unfolded newlink_dev_def Let_def r prod.case]
  show "v_next s' = v_next s" "net_refs s' = net_refs s" "v_mod s' = v_mod s"
    using n by (auto simp: veth_dev_free_def set_dev_def split: if_splits)
  show "err < 0 \<Longrightarrow> \<exists>d'. vdevs s' = (vdevs s)(p \<mapsto> d', q := None) \<and> v_peer d' = v_peer d"
    using n p by (intro exI [of _ d2]) (auto simp: veth_dev_free_def set_dev_def split: if_splits)
  show "0 \<le> err \<Longrightarrow> \<exists>d'. vdevs s' = (vdevs s)(p \<mapsto> d', q \<mapsto> e\<lparr>v_peer := Some p\<rparr>) \<and> v_peer d' = Some q \<and> \<not> v_carrier d' \<and>
      v_stats d' \<noteq> None"
    using n register_result(2) [OF r]
    by (intro exI [of _ "d2\<lparr>v_carrier := False, v_peer := Some q\<rparr>"]) (auto simp: set_dev_def split: if_splits)
qed

lemma newlink_peer_result:
  assumes "newlink_peer N p d f tb s = (err, s')" and "paired s" and "vdevs s p = Some d"
  shows "v_next s' = Suc (v_next s)" "net_refs s' = net_refs s - 1" "v_mod s' = v_mod s"
    "err < 0 \<Longrightarrow> \<exists>d'. vdevs s' = (vdevs s)(p \<mapsto> d') \<and> v_peer d' = v_peer d"
    "0 \<le> err \<Longrightarrow> \<exists>d' e. vdevs s' = (vdevs s)(p \<mapsto> d', v_next s \<mapsto> e) \<and> v_peer d' = Some (v_next s) \<and> v_peer e = Some p \<and>
      \<not> v_carrier d' \<and> \<not> v_carrier e \<and> v_stats d' \<noteq> None \<and> v_stats e \<noteq> None"
proof -
  let ?q = "v_next s" and ?s1 = "s\<lparr>v_next := Suc (v_next s), net_refs := net_refs s - 1\<rparr>"
  have f: "vdevs s ?q = None" "?q \<noteq> p"
    using pairedD(1) [OF assms(2)] assms(3) by (cases "vdevs s ?q"; force)+
  obtain rerr e1 where r: "register_netdevice N f = (rerr, e1)" by fastforce
  let ?e = "e1\<lparr>v_carrier := False\<rparr>"
  let ?s2 = "set_dev ?q ?e ?s1"
  have same: "\<exists>d'. vdevs s = (vdevs s)(p \<mapsto> d') \<and> v_peer d' = v_peer d"
    using assms(3) by (intro exI [of _ d]) (simp add: fun_upd_idem)
  note n = assms(1) [unfolded newlink_peer_def Let_def r prod.case]
  have all: "v_next s' = Suc ?q \<and> net_refs s' = net_refs s - 1 \<and> v_mod s' = v_mod s \<and>
    (err < 0 \<longrightarrow> (\<exists>d'. vdevs s' = (vdevs s)(p \<mapsto> d') \<and> v_peer d' = v_peer d)) \<and>
    (0 \<le> err \<longrightarrow> (\<exists>d' e. vdevs s' = (vdevs s)(p \<mapsto> d', ?q \<mapsto> e) \<and> v_peer d' = Some ?q \<and> v_peer e = Some p \<and>
      \<not> v_carrier d' \<and> \<not> v_carrier e \<and> v_stats d' \<noteq> None \<and> v_stats e \<noteq> None))"
  proof (cases "rerr < 0")
    case True then show ?thesis using n same by auto
  next
    case False
    show ?thesis
    proof (cases "nk_configure N (v_dev ?e) < 0")
      case True
      then have "err < 0" "s' = veth_dev_free ?q ?s2" using n False by auto
      then show ?thesis using same f(1) by (simp add: veth_dev_free_def set_dev_def fun_upd_idem)
    next
      case c: False
      then have nd: "newlink_dev N p d ?q ?e tb ?s2 = (err, s')" using n False by simp
      have q: "vdevs ?s2 ?q = Some ?e" by (simp add: set_dev_def)
      note r2 = newlink_dev_result [OF nd q f(2)]
      have 1: "\<exists>d'. vdevs s' = (vdevs s)(p \<mapsto> d') \<and> v_peer d' = v_peer d" if e: "err < 0"
      proof -
        obtain d' where d': "vdevs s' = (vdevs ?s2)(p \<mapsto> d', ?q := None)" "v_peer d' = v_peer d" using r2(4) [OF e] by blast
        have "vdevs s' = (vdevs s)(p \<mapsto> d')" using f by (auto simp: d' set_dev_def fun_eq_iff)
        then show ?thesis using d'(2) by blast
      qed
      have 2: "\<exists>d' e. vdevs s' = (vdevs s)(p \<mapsto> d', ?q \<mapsto> e) \<and> v_peer d' = Some ?q \<and> v_peer e = Some p \<and>
        \<not> v_carrier d' \<and> \<not> v_carrier e \<and> v_stats d' \<noteq> None \<and> v_stats e \<noteq> None" if e: "0 \<le> err"
      proof -
        obtain d' where d': "vdevs s' = (vdevs ?s2)(p \<mapsto> d', ?q \<mapsto> ?e\<lparr>v_peer := Some p\<rparr>)" "v_peer d' = Some ?q"
          "\<not> v_carrier d'" "v_stats d' \<noteq> None" using r2(5) [OF e] by blast
        have "vdevs s' = (vdevs s)(p \<mapsto> d', ?q \<mapsto> ?e\<lparr>v_peer := Some p\<rparr>)" using f by (auto simp: d' set_dev_def fun_eq_iff)
        moreover have "v_stats (?e\<lparr>v_peer := Some p\<rparr>) \<noteq> None" using register_result(2) [OF r] False by simp
        ultimately show ?thesis using d'(2-4) by (intro exI [of _ d'] exI [of _ "?e\<lparr>v_peer := Some p\<rparr>"]) simp
      qed
      show ?thesis using r2(1-3) 1 2 by (simp add: set_dev_def)
    qed
  qed
  show "v_next s' = Suc (v_next s)" "net_refs s' = net_refs s - 1" "v_mod s' = v_mod s"
    "err < 0 \<Longrightarrow> \<exists>d'. vdevs s' = (vdevs s)(p \<mapsto> d') \<and> v_peer d' = v_peer d"
    "0 \<le> err \<Longrightarrow> \<exists>d' e. vdevs s' = (vdevs s)(p \<mapsto> d', v_next s \<mapsto> e) \<and> v_peer d' = Some (v_next s) \<and> v_peer e = Some p \<and>
      \<not> v_carrier d' \<and> \<not> v_carrier e \<and> v_stats d' \<noteq> None \<and> v_stats e \<noteq> None"
    using all by blast+
qed

text \<open>The errors of the core are negative numbers.\<close>

definition errors_negative :: "nl_kernel \<Rightarrow> bool" where
  "errors_negative N \<longleftrightarrow> (\<forall>n tb e. nk_net N n tb = Inl e \<longrightarrow> e < 0) \<and> (\<forall>n nm tb e. nk_create N n nm tb = Inl e \<longrightarrow> e < 0)"

lemma newlink_all_or_nothing:
  assumes "paired s" and "vdevs s p = Some d" and "errors_negative N" and "veth_newlink N net p tb data s = Some (err, s')"
  shows "newlink_result p d s err s'"
proof -
  have same: "newlink_result p d s err s" if "err < 0" for err
    using that assms(2) by (auto simp: newlink_result_def fun_upd_idem intro: exI [of _ d])
  show ?thesis
  proof (cases "peer_attrs tb data")
    case (Inl e)
    then have "e < 0" by (auto simp: peer_attrs_def split: option.splits if_splits)
    then show ?thesis using Inl assms(2,4) same by (simp add: veth_newlink_def)
  next
    case (Inr x)
    then obtain tbp idx where x: "peer_attrs tb data = Inr (tbp, idx)" by (cases x) simp
    show ?thesis
    proof (cases "nk_net N net tbp")
      case (Inl e) then show ?thesis using x assms(2-4) same by (simp add: veth_newlink_def errors_negative_def)
    next
      case n: (Inr nn)
      show ?thesis
      proof (cases "nk_create N nn (new_name tbp) tbp")
        case (Inl e) then show ?thesis using x n assms(2-4) same by (simp add: veth_newlink_def errors_negative_def)
      next
        case c: (Inr nd)
        obtain f where "newlink_peer N p d f tb (s\<lparr>net_refs := net_refs s + 1\<rparr>) = (err, s')"
          using x n c assms(2,4) by (auto simp: veth_newlink_def Let_def)
        from newlink_peer_result [OF this] assms(1,2) show ?thesis by (auto simp: newlink_result_def)
      qed
    qed
  qed
qed

lemma newlink_paired:
  assumes "paired s" and "vdevs s p = Some d" and "v_peer d = None" and "newlink_result p d s err s'"
  shows "paired s'"
proof -
  have no: "v_peer e \<noteq> Some p \<and> p \<noteq> v_next s \<and> x \<noteq> v_next s \<and> v_peer e \<noteq> Some (v_next s)" if "vdevs s x = Some e" for x e
    using pairedD [OF assms(1) that] pairedD(1) [OF assms(1)] assms(2,3) by (metis less_irrefl option.distinct(1) option.inject)
  show ?thesis
  proof (cases "err < 0")
    case True
    then obtain d' where "vdevs s' = (vdevs s)(p \<mapsto> d')" "v_peer d' = None" "v_next s \<le> v_next s'"
      using assms(3,4) by (auto simp: newlink_result_def)
    then show ?thesis using assms(1,2) no unfolding paired_def by (auto 4 3 split: if_splits)
  next
    case False
    then obtain d' e where "vdevs s' = (vdevs s)(p \<mapsto> d', v_next s \<mapsto> e)" "v_peer d' = Some (v_next s)" "v_peer e = Some p"
      "v_next s' = Suc (v_next s)"
      using assms(4) by (auto simp: newlink_result_def)
    then show ?thesis using assms(1,2) no [OF assms(2)] no unfolding paired_def by (auto 4 3 split: if_splits)
  qed
qed

lemma veth_step_paired:
  assumes "veth_step K N s s'" and "errors_negative N" and "paired s"
  shows "paired s'"
  using assms(1)
proof (cases rule: veth_step.cases)
  case (Create d)
  have "x \<noteq> v_next s \<and> v_peer e \<noteq> Some (v_next s)" if "vdevs s x = Some e" for x e
    using pairedD [OF assms(3) that] pairedD(1) [OF assms(3)] by (metis less_irrefl)
  then show ?thesis using Create assms(3) unfolding paired_def set_dev_def by (auto 4 3 split: if_splits)
next
  case (Newlink p d net tb data err)
  then show ?thesis
    using newlink_paired [OF assms(3) Newlink(1,2)] newlink_all_or_nothing [OF assms(3) Newlink(1) assms(2) Newlink(3)] by blast
qed (use assms(3) in \<open>auto intro: veth_xmit_paired veth_open_paired veth_close_paired veth_mtu_paired veth_dellink_paired(1)\<close>)

interpretation driver: invariant_of "\<lambda>s. vdevs s = Map.empty" "veth_step K N" "\<lambda>s. errors_negative N \<longrightarrow> paired s" for K N
proof unfold_locales
  fix s s' :: veth_state
  show "vdevs s = Map.empty \<Longrightarrow> errors_negative N \<longrightarrow> paired s" by (simp add: paired_def)
  show "veth_step K N s s' \<Longrightarrow> errors_negative N \<longrightarrow> paired s \<Longrightarrow> errors_negative N \<longrightarrow> paired s'"
    using veth_step_paired by blast
qed

lemma veth_reachable_paired: "errors_negative N \<Longrightarrow> veth_reachable K N s \<Longrightarrow> paired s"
  using driver.reach_inv by blast

section \<open>Properties\<close>

text \<open>
  The devices come in pairs as long as the driver runs: a device with a peer is the peer of
  that other device, and what one end reports as sent, dropped and received is what the other
  end reports as received and sent. Creating and removing links, traffic, and bringing devices
  up and down keep it that way.
\<close>

theorem veth_ends_mirror:
  assumes "errors_negative N" and "veth_reachable K N s" and "vdevs s p = Some d" and "v_peer d = Some q"
    and "veth_get_stats64 p tot s = Some t" and "veth_get_stats64 q tot' s = Some t'"
  shows "q \<noteq> p \<and> map_option v_peer (vdevs s q) = Some (Some p) \<and>
    rx_packets t = tx_packets t' \<and> rx_bytes t = tx_bytes t' \<and> rx_dropped t = tx_dropped t' \<and>
    tx_packets t = rx_packets t' \<and> tx_bytes t = rx_bytes t' \<and> tx_dropped t = rx_dropped t'"
proof -
  note pr = veth_reachable_paired [OF assms(1,2)]
  obtain e where e: "q \<noteq> p" "vdevs s q = Some e" "v_peer e = Some p"
    using pairedD(2,3) [OF pr assms(3,4)] by blast
  obtain dr pk by' where 1: "veth_stats_one d = Some (dr, pk, by')"
    using assms(3,5) by (cases "veth_stats_one d") (auto simp: veth_get_stats64_def)
  obtain dr' pk' by'' where 2: "veth_stats_one e = Some (dr', pk', by'')"
    using e assms(6) by (cases "veth_stats_one e") (auto simp: veth_get_stats64_def)
  have "t = tot\<lparr>tx_dropped := dr, tx_bytes := by', tx_packets := pk, rx_dropped := dr', rx_bytes := by'', rx_packets := pk'\<rparr>"
    "t' = tot'\<lparr>tx_dropped := dr', tx_bytes := by'', tx_packets := pk', rx_dropped := dr, rx_bytes := by', rx_packets := pk\<rparr>"
    using assms(3-6) e 1 2 by (simp_all add: veth_get_stats64_def Let_def)
  then show ?thesis using e by simp
qed

text \<open>
  C35. \<open>veth_newlink\<close> creates the pair or nothing: on success both devices exist, are registered with
  their counters, have no carrier yet and point to each other; on any error no new device is
  left, the device of the caller has the peer it had, and on every path the reference to the
  namespace that was taken is given back.
\<close>

theorem veth_newlink_pair_or_nothing:
  assumes "paired s" and "vdevs s p = Some d" and "errors_negative N" and "veth_newlink N net p tb data s = Some (err, s')"
  shows "newlink_result p d s err s'"
  using assms by (rule newlink_all_or_nothing)

lemma sum_list_count:
  fixes f :: "'a \<Rightarrow> 'b :: comm_ring_1"
  shows "i < length xs \<Longrightarrow> f y = f (xs ! i) + z \<Longrightarrow> sum_list (map f (xs[i := y])) = sum_list (map f xs) + z"
  by (induction xs arbitrary: i) (auto simp: algebra_simps split: nat.splits)

text \<open>
  No frame is lost by the accounts: a frame that the output hook of the module does not keep
  is counted exactly once, as sent with its length or as dropped, on the device it was sent
  on and on the processor that sent it, and no other device changes.
\<close>

theorem veth_xmit_accounts:
  assumes "veth_xmit K N cpu p b s = Some (r, s')" and "vdevs s p = Some d" and "v_stats d = Some st"
  shows "\<exists>x b1 d' st'. dysco_output K b (v_mod s) = Some ((x, b1), v_mod s') \<and> vdevs s' = (vdevs s)(p \<mapsto> d') \<and>
    v_stats d' = Some st' \<and>
    v_dropped d' + sum_list (map fst st') = v_dropped d + sum_list (map fst st) + (if x = NETDEV_TX_OK then 0 else 1) \<and>
    sum_list (map snd st') = sum_list (map snd st) + (if st' = st then 0 else of_int (sint (skb_len b)))"
  using assms(1)
proof (cases rule: veth_xmit_result)
  case (Consumed b1 m)
  then show ?thesis using assms(2,3) by (intro exI [of _ NETDEV_TX_OK] exI [of _ b1] exI [of _ d] exI [of _ st]) (simp add: fun_upd_idem)
next
  case (Dropped b1 m d')
  then have "d' = d" using assms(2) by simp
  with Dropped show ?thesis using assms(3)
    by (intro exI [of _ TX_CONTINUE] exI [of _ b1] exI [of _ "d\<lparr>v_dropped := v_dropped d + 1\<rparr>"] exI [of _ st])
      (simp add: set_dev_def algebra_simps)
next
  case (Sent b1 m d' st')
  then have e: "d' = d" "st' = st" using assms(2,3) by simp_all
  let ?st = "count_packet cpu (sint (skb_len b)) st"
  have "sum_list (map fst ?st) = sum_list (map fst st) + 1" "sum_list (map snd ?st) = sum_list (map snd st) + of_int (sint (skb_len b))"
    using Sent(6) e unfolding count_packet_def by (simp_all add: sum_list_count)
  moreover have "?st \<noteq> st"
  proof
    assume "?st = st"
    then have "?st ! cpu = st ! cpu" by simp
    then show False using Sent(6) e by (cases "st ! cpu") (simp add: count_packet_def)
  qed
  ultimately show ?thesis using Sent e
    by (intro exI [of _ TX_CONTINUE] exI [of _ b1] exI [of _ "d\<lparr>v_stats := Some ?st\<rparr>"] exI [of _ ?st])
      (simp add: set_dev_def algebra_simps)
qed

section \<open>A pair in a small network\<close>

definition ref_core :: nl_kernel where
  "ref_core = \<lparr>nk_cpus = 2, nk_net = (\<lambda>n tb. Inr n), nk_create = (\<lambda>n nm tb. Inr (ref_dev, 1500)),
     nk_rx_register = (\<lambda>_. 0), nk_percpu = (\<lambda>_. True), nk_register = (\<lambda>_. 0), nk_configure = (\<lambda>_. 0),
     nk_mac = (\<lambda>_. [2, 0, 0, 0, 0, 9]), nk_forward = (\<lambda>_ _. True)\<rparr>"

definition ref_attrs :: nl_attrs where
  "ref_attrs = \<lparr>a_ifname = None, a_address = None, a_mtu = None\<rparr>"

definition ref_module :: mstate where
  "ref_module = \<lparr>core = fresh_dstate, ns_hash_table = [], ns_hashes = [], tot_namespaces = 0\<rparr>"

definition ref_empty :: veth_state where
  "ref_empty = \<lparr>vdevs = Map.empty, v_next = 0, net_refs = 0, v_mod = ref_module\<rparr>"

text \<open>The device of the caller, before and after the call.\<close>

definition ref_one :: veth_state where
  "ref_one = set_dev 0 (new_veth ref_core (ref_dev, 1500) ''a'') (ref_empty\<lparr>v_next := 1\<rparr>)"

definition ref_pair :: "(int \<times> veth_state) option" where
  "ref_pair = veth_newlink ref_core 0 0 ref_attrs None ref_one"

lemma ref_errors: "errors_negative ref_core"
  by (simp add: errors_negative_def ref_core_def)

lemma ref_one_dev: "vdevs ref_one 0 = Some (new_veth ref_core (ref_dev, 1500) ''a'')"
  "v_peer (new_veth ref_core (ref_dev, 1500) ''a'') = None"
  by (simp_all add: ref_one_def set_dev_def new_veth_def veth_setup_def Let_def)

lemma ref_one_reachable: "veth_reachable K ref_core ref_one"
proof -
  have e: "vdevs ref_empty = Map.empty" "v_next ref_empty = 0" by (simp_all add: ref_empty_def)
  have "ref_one = set_dev (v_next ref_empty) (new_veth ref_core (ref_dev, 1500) ''a'') (ref_empty\<lparr>v_next := Suc (v_next ref_empty)\<rparr>)"
    by (simp add: ref_one_def e(2))
  moreover have "veth_step K ref_core ref_empty (set_dev (v_next ref_empty) (new_veth ref_core (ref_dev, 1500) ''a'')
      (ref_empty\<lparr>v_next := Suc (v_next ref_empty)\<rparr>))"
    by (rule veth_step.Create) (rule ref_one_dev(2))
  ultimately have "veth_step K ref_core ref_empty ref_one" by (simp only:)
  moreover have "veth_reachable K ref_core ref_empty" by (rule reach_start) (rule e(1))
  ultimately show ?thesis by (rule reach_step [rotated])
qed

lemma ref_pair_value:
  "\<exists>s d e. ref_pair = Some (0, s) \<and> veth_reachable K ref_core s \<and> vdevs s 0 = Some d \<and> v_peer d = Some 1 \<and>
    v_stats d = Some [(0, 0), (0, 0)] \<and> vdevs s 1 = Some e \<and> v_stats e = Some [(0, 0), (0, 0)]"
proof -
  have "map_option fst ref_pair = Some 0" by code_simp
  then obtain s where s: "ref_pair = Some (0, s)" by auto
  have v: "map_option (\<lambda>(_, s). map_option (\<lambda>d. (v_peer d, v_stats d)) (vdevs s 0)) ref_pair = Some (Some (Some 1, Some [(0, 0), (0, 0)]))"
    "map_option (\<lambda>(_, s). map_option v_stats (vdevs s 1)) ref_pair = Some (Some (Some [(0, 0), (0, 0)]))"
    by code_simp+
  then obtain d e where "vdevs s 0 = Some d" "v_peer d = Some 1" "v_stats d = Some [(0, 0), (0, 0)]" "vdevs s 1 = Some e"
    "v_stats e = Some [(0, 0), (0, 0)]"
    using v [unfolded s] by auto
  moreover have "veth_reachable K ref_core s"
    using ref_one_reachable ref_one_dev s unfolding ref_pair_def by (blast intro: reach.intros veth_step.intros)
  ultimately show ?thesis using s by blast
qed

definition zero_stats :: link_stats where
  "zero_stats = \<lparr>tx_dropped = 0, tx_packets = 0, tx_bytes = 0, rx_dropped = 0, rx_packets = 0, rx_bytes = 0\<rparr>"

theorem veth_ends_mirror_witness:
  "\<exists>s t t'. map_option snd ref_pair = Some s \<and> veth_get_stats64 0 zero_stats s = Some t \<and>
    veth_get_stats64 1 zero_stats s = Some t' \<and> map_option v_peer (vdevs s 1) = Some (Some 0) \<and> rx_packets t = tx_packets t'"
proof -
  obtain s d e where s: "ref_pair = Some (0, s)" "veth_reachable ref_kapi ref_core s" "vdevs s 0 = Some d" "v_peer d = Some 1"
    "v_stats d = Some [(0, 0), (0, 0)]" "vdevs s 1 = Some e" "v_stats e = Some [(0, 0), (0, 0)]"
    using ref_pair_value by blast
  have "v_peer e = Some 0"
    using pairedD(3) [OF veth_reachable_paired [OF ref_errors s(2)] s(3,4)] s(6) by auto
  then obtain t t' where t: "veth_get_stats64 0 zero_stats s = Some t" "veth_get_stats64 1 zero_stats s = Some t'"
    using s by (simp add: veth_get_stats64_def veth_stats_one_def Let_def)
  from veth_ends_mirror [OF ref_errors s(2-4) t] t s(1) show ?thesis by auto
qed

theorem veth_newlink_pair_or_nothing_witness:
  "\<exists>s'. ref_pair = Some (0, s') \<and> newlink_result 0 (new_veth ref_core (ref_dev, 1500) ''a'') ref_one 0 s'"
proof -
  obtain s where s: "ref_pair = Some (0, s)" using ref_pair_value by blast
  have "paired ref_one" using veth_reachable_paired [OF ref_errors ref_one_reachable] .
  from veth_newlink_pair_or_nothing [OF this ref_one_dev(1) ref_errors s [unfolded ref_pair_def]] s show ?thesis by blast
qed

theorem veth_xmit_accounts_witness:
  "\<exists>s r s' d' st'. map_option snd ref_pair = Some s \<and> veth_xmit ref_kapi ref_core 1 0 (ref_skb 5 0 (mem_of []) 0) s = Some (r, s') \<and>
    vdevs s' 0 = Some d' \<and> v_stats d' = Some st' \<and> v_dropped d' + sum_list (map fst st') = 1"
proof -
  let ?b = "ref_skb 5 0 (mem_of []) 0"
  obtain s d e where s: "ref_pair = Some (0, s)" "vdevs s 0 = Some d" "v_stats d = Some [(0, 0), (0, 0)]"
    using ref_pair_value by blast
  have v: "map_option (\<lambda>(_, s). (map_option v_dropped (vdevs s 0), map_option fst (veth_xmit ref_kapi ref_core 1 0 ?b s),
      map_option (fst \<circ> fst) (dysco_output ref_kapi ?b (v_mod s)))) ref_pair = Some (Some 0, Some NETDEV_TX_OK, Some TX_CONTINUE)"
    by code_simp
  obtain r s' where x: "veth_xmit ref_kapi ref_core 1 0 ?b s = Some (r, s')" using v [unfolded s(1)] by auto
  have o: "map_option (fst \<circ> fst) (dysco_output ref_kapi ?b (v_mod s)) = Some TX_CONTINUE" "v_dropped d = 0"
    using v [unfolded s(1)] s(2) by auto
  from veth_xmit_accounts [OF x s(2,3)] o x s(1) show ?thesis by auto
qed

end
