(* ===== verification/Dysco_Proc.thy ===== *)
theory Dysco_Proc
  imports Dysco_State
begin

text \<open>
  The files under \<^verbatim>\<open>/proc/net/dysco\<close> (\<^verbatim>\<open>dysco_proc.c\<close>): four arrays of measurement samples, each
  read through the sequence interface of the kernel, which calls \<open>start\<close>, then \<open>show\<close> and \<open>next\<close>
  until the cursor is NULL, then \<open>stop\<close>. \<open>dysco_init\<close> and \<open>dysco_deinit\<close> have the calls of
  \<open>dysco_proc_init\<close> and \<open>dysco_proc_cleanup\<close> commented out.
\<close>

abbreviation (input) DYSCO_MEASUREMENT_SAMPLES :: nat where "DYSCO_MEASUREMENT_SAMPLES \<equiv> 1100"

abbreviation (input) PROC_NAME :: string where "PROC_NAME \<equiv> ''dysco''"

record proc_samples =
  rewrite_output_samples :: "u32 list"
  translate_output_samples :: "u32 list"
  rewrite_input_samples :: "u32 list"
  translate_input_samples :: "u32 list"

section \<open>Reading\<close>

text \<open>A cursor is the array it points to; the position is a 64-bit offset that may be changed.\<close>

type_synonym seq_start = "proc_samples \<Rightarrow> u64 \<Rightarrow> u32 list option \<times> u64"

definition dysco_rewrite_output_seq_start :: seq_start where
  "dysco_rewrite_output_seq_start p pos = (if pos = 0 then (Some (rewrite_output_samples p), pos) else (None, 0))"

definition dysco_translate_output_seq_start :: seq_start where
  "dysco_translate_output_seq_start p pos = (if pos = 0 then (Some (translate_output_samples p), pos) else (None, 0))"

definition dysco_rewrite_input_seq_start :: seq_start where
  "dysco_rewrite_input_seq_start p pos = (if pos = 0 then (Some (rewrite_input_samples p), pos) else (None, 0))"

definition dysco_translate_input_seq_start :: seq_start where
  "dysco_translate_input_seq_start p pos = (if pos = 0 then (Some (translate_input_samples p), pos) else (None, 0))"

text \<open>The digits \<^verbatim>\<open>%u\<close> prints.\<close>

definition digit :: "nat \<Rightarrow> char" where
  "digit n = char_of (48 + n)"

fun decimal :: "nat \<Rightarrow> string" where
  "decimal n = (if n < 10 then [digit n] else decimal (n div 10) @ [digit (n mod 10)])"

declare decimal.simps [simp del]

definition sample_line :: "u32 \<Rightarrow> string" where
  "sample_line v = decimal (unat v) @ [CHR 0x0A]"

text \<open>An array that is shorter than the loop assumes is read behind its end.\<close>

definition dysco_seq_show :: "u32 list \<Rightarrow> string option" where
  "dysco_seq_show v = (if length v < DYSCO_MEASUREMENT_SAMPLES then None
     else Some (concat (map sample_line (take DYSCO_MEASUREMENT_SAMPLES v))))"

definition dysco_seq_next :: "u32 list \<Rightarrow> u64 \<Rightarrow> u32 list option \<times> u64" where
  "dysco_seq_next v pos = (None, pos)"

record seq_operations =
  so_start :: seq_start
  so_next :: "u32 list \<Rightarrow> u64 \<Rightarrow> u32 list option \<times> u64"
  so_show :: "u32 list \<Rightarrow> string option"

definition dysco_rewrite_output_seq_ops :: seq_operations where
  "dysco_rewrite_output_seq_ops = \<lparr>so_start = dysco_rewrite_output_seq_start, so_next = dysco_seq_next, so_show = dysco_seq_show\<rparr>"

definition dysco_translate_output_seq_ops :: seq_operations where
  "dysco_translate_output_seq_ops = \<lparr>so_start = dysco_translate_output_seq_start, so_next = dysco_seq_next, so_show = dysco_seq_show\<rparr>"

definition dysco_rewrite_input_seq_ops :: seq_operations where
  "dysco_rewrite_input_seq_ops = \<lparr>so_start = dysco_rewrite_input_seq_start, so_next = dysco_seq_next, so_show = dysco_seq_show\<rparr>"

definition dysco_translate_input_seq_ops :: seq_operations where
  "dysco_translate_input_seq_ops = \<lparr>so_start = dysco_translate_input_seq_start, so_next = dysco_seq_next, so_show = dysco_seq_show\<rparr>"

section \<open>Creating and removing the files\<close>

text \<open>
  The directory \<open>pe_dir\<close> is what \<^verbatim>\<open>dysco_dir_entry\<close> points to, with the names created in it; \<open>pe_warn\<close>
  counts the removals of names that are not there, for which the kernel prints a warning. The
  arguments say whether the kernel creates the directory and a file. Removing the directory removes
  all that is left in it; the pointer keeps its value.
\<close>

record proc_entries =
  pe_dir :: bool
  pe_exists :: bool
  pe_files :: "(string \<times> seq_operations) list"
  pe_warn :: nat

definition proc_create :: "bool \<Rightarrow> string \<Rightarrow> seq_operations \<Rightarrow> proc_entries \<Rightarrow> proc_entries" where
  "proc_create ok name ops e = (if ok then e\<lparr>pe_files := pe_files e @ [(name, ops)]\<rparr> else e)"

definition remove_proc_entry :: "string \<Rightarrow> proc_entries \<Rightarrow> proc_entries" where
  "remove_proc_entry name e = (if name \<in> fst ` set (pe_files e)
     then e\<lparr>pe_files := filter (\<lambda>f. fst f \<noteq> name) (pe_files e)\<rparr> else e\<lparr>pe_warn := pe_warn e + 1\<rparr>)"

definition dysco_proc_init :: "bool \<Rightarrow> (string \<Rightarrow> bool) \<Rightarrow> proc_entries \<Rightarrow> proc_entries" where
  "dysco_proc_init mkdir ok e = (
     if \<not> mkdir then e\<lparr>pe_dir := False\<rparr>
     else proc_create (ok ''translate_input_samples'') ''translate_input_samples'' dysco_translate_input_seq_ops
       (proc_create (ok ''rewrite_input_samples'') ''rewrite_input_samples'' dysco_rewrite_input_seq_ops
       (proc_create (ok ''translate_output_samples'') ''translate_output_samples'' dysco_translate_output_seq_ops
       (proc_create (ok ''rewrite_output_samples'') ''rewrite_output_samples'' dysco_rewrite_output_seq_ops
       (e\<lparr>pe_dir := True, pe_exists := True\<rparr>)))))"

definition dysco_proc_cleanup :: "proc_entries \<Rightarrow> proc_entries" where
  "dysco_proc_cleanup e = (
     if \<not> pe_dir e then e
     else let e1 = remove_proc_entry ''translate_input_samples''
       (remove_proc_entry ''rewrite_input_samples''
       (remove_proc_entry ''translate_output_samples''
       (remove_proc_entry ''rewrite_output_samples'' e)))
     in e1\<lparr>pe_exists := False, pe_files := [], pe_warn := pe_warn e1 + of_bool (\<not> pe_exists e)\<rparr>)"

section \<open>Properties\<close>

text \<open>The numbers of a text of lines.\<close>

fun read_samples :: "nat \<Rightarrow> string \<Rightarrow> nat list" where
  "read_samples cur [] = []"
| "read_samples cur (c # cs) = (if c = CHR 0x0A then cur # read_samples 0 cs
     else read_samples (cur * 10 + (of_char c - 48)) cs)"

lemma digit_code: "d < 10 \<Longrightarrow> of_char (digit d) = (48 + d :: nat)"
  by (simp add: digit_def)

lemma digit_not_newline: "d < 10 \<Longrightarrow> digit d \<noteq> CHR 0x0A"
  using digit_code [of d] by auto

lemma read_digit: "d < 10 \<Longrightarrow> read_samples cur (digit d # cs) = read_samples (cur * 10 + d) cs"
  using digit_code [of d] digit_not_newline [of d] by simp

lemma read_decimal: "read_samples 0 (decimal n @ cs) = read_samples n cs"
proof (induction n arbitrary: cs rule: decimal.induct)
  case (1 n)
  show ?case
  proof (cases "n < 10")
    case True
    then show ?thesis by (simp add: decimal.simps [of n] digit_code digit_not_newline)
  next
    case False
    have "read_samples 0 (decimal n @ cs) = read_samples 0 (decimal (n div 10) @ digit (n mod 10) # cs)"
      using False by (simp add: decimal.simps [of n])
    also have "\<dots> = read_samples (n div 10) (digit (n mod 10) # cs)" using 1 False by blast
    finally show ?thesis by (simp add: digit_code digit_not_newline)
  qed
qed

lemma read_lines: "read_samples 0 (concat (map sample_line vs)) = map unat vs"
  by (induction vs) (simp_all add: sample_line_def read_decimal)

definition proc_files :: "(seq_operations \<times> (proc_samples \<Rightarrow> u32 list)) list" where
  "proc_files = [(dysco_rewrite_output_seq_ops, rewrite_output_samples), (dysco_translate_output_seq_ops, translate_output_samples),
     (dysco_rewrite_input_seq_ops, rewrite_input_samples), (dysco_translate_input_seq_ops, translate_input_samples)]"

text \<open>
  What a reader of a file gets is the samples of that file: the first call of \<open>start\<close> yields the array,
  its text reads back as the samples, there is no second record, and a later \<open>start\<close> ends the sequence
  and rewinds the file.
\<close>

lemma proc_file_reads_back:
  "(ops, smp) \<in> set proc_files \<Longrightarrow> length (smp p) = DYSCO_MEASUREMENT_SAMPLES \<Longrightarrow>
    \<exists>text. so_start ops p 0 = (Some (smp p), 0) \<and> so_show ops (smp p) = Some text
      \<and> read_samples 0 text = map unat (smp p) \<and> so_next ops (smp p) pos = (None, pos)
      \<and> (pos \<noteq> 0 \<longrightarrow> so_start ops p pos = (None, 0))"
  by (auto simp: proc_files_def dysco_rewrite_output_seq_ops_def dysco_translate_output_seq_ops_def
      dysco_rewrite_input_seq_ops_def dysco_translate_input_seq_ops_def dysco_rewrite_output_seq_start_def
      dysco_translate_output_seq_start_def dysco_rewrite_input_seq_start_def dysco_translate_input_seq_start_def
      dysco_seq_show_def dysco_seq_next_def read_lines)

lemma create_all:
  "fold (\<lambda>(n, ops). proc_create (ok n) n ops) fs e = e\<lparr>pe_files := pe_files e @ filter (ok \<circ> fst) fs\<rparr>"
  by (induction fs arbitrary: e) (auto simp: proc_create_def)

lemma remove_all:
  "distinct ns \<Longrightarrow> fold remove_proc_entry ns e = e\<lparr>pe_files := filter (\<lambda>f. fst f \<notin> set ns) (pe_files e),
     pe_warn := pe_warn e + length (filter (\<lambda>n. n \<notin> fst ` set (pe_files e)) ns)\<rparr>"
proof (induction ns arbitrary: e)
  case (Cons n ns)
  have f: "filter (\<lambda>k. k \<notin> fst ` set (filter (\<lambda>f. fst f \<noteq> n) fs)) ns = filter (\<lambda>k. k \<notin> fst ` set fs) ns" for fs :: "(string \<times> seq_operations) list"
    by (rule filter_cong) (use Cons.prems in auto)
  show ?case
  proof (cases "n \<in> fst ` set (pe_files e)")
    case True
    then have "remove_proc_entry n e = e\<lparr>pe_files := filter (\<lambda>f. fst f \<noteq> n) (pe_files e)\<rparr>" by (simp add: remove_proc_entry_def)
    with True Cons f [of "pe_files e"] show ?thesis by (simp add: conj_commute)
  next
    case False
    then have "remove_proc_entry n e = e\<lparr>pe_warn := pe_warn e + 1\<rparr>" by (simp add: remove_proc_entry_def)
    moreover have "filter (\<lambda>f. fst f \<noteq> n \<and> fst f \<notin> set ns) (pe_files e) = filter (\<lambda>f. fst f \<notin> set ns) (pe_files e)"
      by (rule filter_cong) (use False in \<open>auto simp: image_iff\<close>)
    ultimately show ?thesis using False Cons by simp
  qed
qed simp

text \<open>Nothing is left after the clean-up; the warnings are one for each file that was not created.\<close>

definition sample_files :: "(string \<times> seq_operations) list" where
  "sample_files = [(''rewrite_output_samples'', dysco_rewrite_output_seq_ops), (''translate_output_samples'', dysco_translate_output_seq_ops),
     (''rewrite_input_samples'', dysco_rewrite_input_seq_ops), (''translate_input_samples'', dysco_translate_input_seq_ops)]"

lemma sample_files_distinct: "distinct (map fst sample_files)"
  by (simp add: sample_files_def)

lemma init_fold: "dysco_proc_init True ok e = fold (\<lambda>(n, ops). proc_create (ok n) n ops) sample_files (e\<lparr>pe_dir := True, pe_exists := True\<rparr>)"
  by (simp add: dysco_proc_init_def sample_files_def)

lemma cleanup_fold: "pe_dir e \<Longrightarrow> dysco_proc_cleanup e = (let e1 = fold remove_proc_entry (map fst sample_files) e
    in e1\<lparr>pe_exists := False, pe_files := [], pe_warn := pe_warn e1 + of_bool (\<not> pe_exists e)\<rparr>)"
  by (simp add: dysco_proc_cleanup_def sample_files_def)

lemma proc_cleanup_after_init:
  assumes "pe_files e = []"
  shows "dysco_proc_cleanup (dysco_proc_init True ok e) = e\<lparr>pe_dir := True, pe_exists := False, pe_files := [],
    pe_warn := pe_warn e + length (filter (\<lambda>n. \<not> ok n) (map fst sample_files))\<rparr>"
proof -
  have "n \<notin> fst ` set (filter (ok \<circ> fst) sample_files) \<longleftrightarrow> \<not> ok n" if "n \<in> fst ` set sample_files" for n
    using that by auto
  then have "filter (\<lambda>n. n \<notin> fst ` set (filter (ok \<circ> fst) sample_files)) (map fst sample_files)
      = filter (\<lambda>n. \<not> ok n) (map fst sample_files)" by (intro filter_cong) simp_all
  then show ?thesis using assms by (simp only: init_fold create_all) (simp add: cleanup_fold remove_all sample_files_distinct Let_def)
qed

lemma proc_cleanup_without_directory: "dysco_proc_cleanup (dysco_proc_init False ok e) = e\<lparr>pe_dir := False\<rparr>"
  by (simp add: dysco_proc_init_def dysco_proc_cleanup_def)

text \<open>The pointer to the directory is not reset, so a second clean-up warns about everything.\<close>

lemma proc_second_cleanup:
  "pe_dir e \<Longrightarrow> \<not> pe_exists e \<Longrightarrow> pe_files e = [] \<Longrightarrow> pe_warn (dysco_proc_cleanup e) = pe_warn e + 5"
  by (simp add: cleanup_fold remove_all sample_files_distinct) (simp add: sample_files_def)

end
