(* ===== verification/Dysco_E1000.thy ===== *)
theory Dysco_E1000
  imports Dysco_Main
begin

text \<open>
  The Intel e1000 driver the module is built into: its data (\<^verbatim>\<open>e1000.h\<close> and the parts of
  \<^verbatim>\<open>e1000_hw.h\<close> the data path uses), the frame it is given and the kernel services it calls. The
  driver has one transmit and one receive ring (\<^verbatim>\<open>e1000_sw_init\<close> sets both numbers of queues
  to 1). A ring is an array of descriptors, shared with the device, and an array of
  \<open>buffer_info\<close>; an index outside an array is a fault.
\<close>

section \<open>Hardware\<close>

datatype e1000_mac_type =
    e1000_undefined | e1000_82542_rev2_0 | e1000_82542_rev2_1 | e1000_82543 | e1000_82544 | e1000_82540
  | e1000_82545 | e1000_82545_rev_3 | e1000_82546 | e1000_ce4100 | e1000_82546_rev_3 | e1000_82541
  | e1000_82541_rev_2 | e1000_82547 | e1000_82547_rev_2 | e1000_num_macs

text \<open>The driver compares controllers by their place in the enumeration.\<close>

fun mac_rank :: "e1000_mac_type \<Rightarrow> nat" where
  "mac_rank e1000_undefined = 0"
| "mac_rank e1000_82542_rev2_0 = 1"
| "mac_rank e1000_82542_rev2_1 = 2"
| "mac_rank e1000_82543 = 3"
| "mac_rank e1000_82544 = 4"
| "mac_rank e1000_82540 = 5"
| "mac_rank e1000_82545 = 6"
| "mac_rank e1000_82545_rev_3 = 7"
| "mac_rank e1000_82546 = 8"
| "mac_rank e1000_ce4100 = 9"
| "mac_rank e1000_82546_rev_3 = 10"
| "mac_rank e1000_82541 = 11"
| "mac_rank e1000_82541_rev_2 = 12"
| "mac_rank e1000_82547 = 13"
| "mac_rank e1000_82547_rev_2 = 14"
| "mac_rank e1000_num_macs = 15"

lemma mac_rank_inj: "mac_rank x = mac_rank y \<Longrightarrow> x = y"
  by (cases x; cases y) simp_all

instantiation e1000_mac_type :: linorder
begin

definition less_eq_e1000_mac_type :: "e1000_mac_type \<Rightarrow> e1000_mac_type \<Rightarrow> bool" where
  "less_eq_e1000_mac_type x y \<longleftrightarrow> mac_rank x \<le> mac_rank y"

definition less_e1000_mac_type :: "e1000_mac_type \<Rightarrow> e1000_mac_type \<Rightarrow> bool" where
  "less_e1000_mac_type x y \<longleftrightarrow> mac_rank x < mac_rank y"

instance
  by standard (auto simp: less_eq_e1000_mac_type_def less_e1000_mac_type_def intro: mac_rank_inj)

end

lemmas mac_order = less_eq_e1000_mac_type_def less_e1000_mac_type_def

datatype e1000_media_type =
    e1000_media_type_copper | e1000_media_type_fiber | e1000_media_type_internal_serdes
  | e1000_num_media_types

datatype e1000_bus_type =
    e1000_bus_type_unknown | e1000_bus_type_pci | e1000_bus_type_pcix | e1000_bus_type_reserved

datatype e1000_speed_duplex_type = e1000_10_half | e1000_10_full | e1000_100_half | e1000_100_full

record e1000_hw =
  hw_mac_type :: e1000_mac_type
  hw_media_type :: e1000_media_type
  hw_bus_type :: e1000_bus_type
  hw_fc :: u32
  hw_original_fc :: u32
  hw_max_frame_size :: u32
  hw_min_frame_size :: u32
  hw_autoneg :: bool
  hw_autoneg_advertised :: u16
  hw_mdix :: u8
  hw_forced_speed_duplex :: e1000_speed_duplex_type
  hw_tbi_compatibility_on :: bool

section \<open>Frames\<close>

text \<open>
  A frame handed to the driver: the packet the module sees, with \<open>f_id\<close> the identity of the
  buffer, the address of its first byte, the length \<open>f_data_len\<close> and the pieces \<open>f_frags\<close>
  (physical address and length) of what lies outside the linear part, and the fields the
  offload code reads.
\<close>

record tx_frame =
  f_id :: nat
  f_skb :: skb
  f_data :: u64
  f_data_len :: u32
  f_frags :: "(u64 \<times> u32) list"
  f_gso_size :: u16
  f_gso_segs :: u16
  f_gso_v6 :: bool
  f_protocol :: u16
  f_nexthdr :: u8
  f_network_offset :: u32
  f_transport_offset :: u32
  f_csum_start :: u32
  f_csum_offset :: u16
  f_vlan_tag :: "u16 option"
  f_no_fcs :: bool
  f_xmit_more :: bool

definition skb_headlen :: "tx_frame \<Rightarrow> u32" where
  "skb_headlen f = skb_len (f_skb f) - f_data_len f"

definition skb_is_gso :: "tx_frame \<Rightarrow> bool" where
  "skb_is_gso f \<longleftrightarrow> f_gso_size f \<noteq> 0"

definition tcp_hdrlen :: "tx_frame \<Rightarrow> u32" where
  "tcp_hdrlen f = ucast (doff (th (f_skb f))) * 4"

section \<open>Rings\<close>

text \<open>
  A transmit descriptor is 16 bytes: as a data descriptor an address and two words, as a
  context descriptor two words of offsets in place of the address.
\<close>

record e1000_tx_desc =
  td_addr :: u64
  td_lower :: u32
  td_upper :: u32

record e1000_tx_buffer =
  tb_skb :: "tx_frame option"
  tb_dma :: u64
  tb_time_stamp :: u64
  tb_length :: u16
  tb_next_to_watch :: u16
  tb_mapped_as_page :: bool
  tb_segs :: u16
  tb_bytecount :: u32

record e1000_tx_ring =
  tr_desc :: "e1000_tx_desc list"
  tr_count :: u32
  tr_next_to_use :: u32
  tr_next_to_clean :: u32
  tr_buffer_info :: "e1000_tx_buffer list"
  tr_last_tx_tso :: bool

definition E1000_DESC_UNUSED :: "u32 \<Rightarrow> u32 \<Rightarrow> u32 \<Rightarrow> u32" where
  "E1000_DESC_UNUSED count to_clean to_use =
     (if to_clean > to_use then 0 else count) + to_clean - to_use - 1"

definition tx_unused :: "e1000_tx_ring \<Rightarrow> u32" where
  "tx_unused R = E1000_DESC_UNUSED (tr_count R) (tr_next_to_clean R) (tr_next_to_use R)"

text \<open>The index after \<open>i\<close>, as every loop over a ring computes it.\<close>

definition ring_next :: "u32 \<Rightarrow> u32 \<Rightarrow> u32" where
  "ring_next count i = (if i + 1 = count then 0 else i + 1)"

section \<open>The adapter\<close>

text \<open>
  What the driver tells the kernel and the device, in order: mappings made and released,
  buffers released, writes of the tail register.
\<close>

datatype nic_event =
    Dma_map u64 u32 bool
  | Dma_unmap u64 u16 bool
  | Kfree_skb nat
  | Write_tail u32
  | Write_itr u32

record e1000_adapter =
  ad_hw :: e1000_hw
  ad_tx_ring :: e1000_tx_ring
  ad_pcix_82544 :: bool
  ad_link_duplex :: u16
  ad_link_speed :: u16
  ad_txd_cmd :: u32
  ad_tx_fifo_head :: u32
  ad_tx_fifo_size :: u32
  ad_tx_fifo_stall :: bool
  ad_restart_queue :: u32
  ad_detect_tx_hung :: bool
  ad_tx_timeout_factor :: u8
  ad_total_tx_bytes :: u32
  ad_total_tx_packets :: u32
  ad_total_rx_bytes :: u32
  ad_total_rx_packets :: u32
  ad_stat_tx_bytes :: u64
  ad_stat_tx_packets :: u64
  ad_itr :: u32
  ad_itr_setting :: u32
  ad_tx_itr :: u16
  ad_rx_itr :: u16
  ad_down :: bool
  ad_queue_stopped :: bool
  ad_carrier_ok :: bool
  ad_dma_next :: nat
  ad_log :: "nic_event list"

text \<open>
  The kernel as the driver sees it: the address the \<open>n\<close>-th mapping yields and whether it failed;
  \<^verbatim>\<open>skb_cow_head\<close>, \<^verbatim>\<open>eth_skb_pad\<close> and \<^verbatim>\<open>__pskb_pull_tail\<close>, which may have no memory; the
  checksums of pseudo headers; the clock and its rate; the status register of the device.
\<close>

record nic_kernel =
  n_dma :: "nat \<Rightarrow> u64 \<times> bool"
  n_cow_ok :: "tx_frame \<Rightarrow> bool"
  n_pad :: "tx_frame \<Rightarrow> tx_frame option"
  n_pull :: "u32 \<Rightarrow> tx_frame \<Rightarrow> tx_frame option"
  n_tcpudp_magic :: "u32 \<Rightarrow> u32 \<Rightarrow> u32 \<Rightarrow> u8 \<Rightarrow> u32 \<Rightarrow> u16"
  n_ipv6_magic :: "tx_frame \<Rightarrow> u16"
  n_jiffies :: u64
  n_hz :: u64
  n_status :: u32

definition nic_log :: "nic_event \<Rightarrow> e1000_adapter \<Rightarrow> e1000_adapter" where
  "nic_log e a = a\<lparr>ad_log := ad_log a @ [e]\<rparr>"

definition map_tx :: "(e1000_tx_ring \<Rightarrow> e1000_tx_ring) \<Rightarrow> e1000_adapter \<Rightarrow> e1000_adapter" where
  "map_tx g a = a\<lparr>ad_tx_ring := g (ad_tx_ring a)\<rparr>"

definition get_buf :: "u32 \<Rightarrow> e1000_adapter \<Rightarrow> e1000_tx_buffer option" where
  "get_buf i a = (let bs = tr_buffer_info (ad_tx_ring a)
     in if unat i < length bs then Some (bs ! unat i) else None)"

definition set_buf :: "u32 \<Rightarrow> e1000_tx_buffer \<Rightarrow> e1000_adapter \<Rightarrow> e1000_adapter" where
  "set_buf i b = map_tx (\<lambda>R. R\<lparr>tr_buffer_info := (tr_buffer_info R)[unat i := b]\<rparr>)"

definition get_desc :: "u32 \<Rightarrow> e1000_adapter \<Rightarrow> e1000_tx_desc option" where
  "get_desc i a = (let ds = tr_desc (ad_tx_ring a)
     in if unat i < length ds then Some (ds ! unat i) else None)"

definition set_desc :: "u32 \<Rightarrow> e1000_tx_desc \<Rightarrow> e1000_adapter \<Rightarrow> e1000_adapter" where
  "set_desc i d = map_tx (\<lambda>R. R\<lparr>tr_desc := (tr_desc R)[unat i := d]\<rparr>)"

end
