(* ===== verification/Dysco_E1000_Tx.thy ===== *)
theory Dysco_E1000_Tx
  imports Dysco_E1000
begin

text \<open>
  The transmit path of the e1000 driver (\<^verbatim>\<open>e1000_main.c\<close>), from \<open>e1000_xmit_frame\<close>, which hands
  every frame to the output hook of the module first, to \<open>e1000_clean_tx_irq\<close>, which takes back
  what the device has sent. The loops that cut a frame into descriptors and that walk the ring
  are \<open>partial_function\<close>s: the value \<open>None\<close> stands for a fault and for a loop that does not end.
\<close>

datatype xmit_result = E1000_TX_OK | E1000_TX_BUSY

abbreviation (input) TXD_DTYP_D :: u32 where "TXD_DTYP_D \<equiv> 0x00100000"
abbreviation (input) TXD_POPTS_IXSM :: u32 where "TXD_POPTS_IXSM \<equiv> 0x01"
abbreviation (input) TXD_POPTS_TXSM :: u32 where "TXD_POPTS_TXSM \<equiv> 0x02"
abbreviation (input) TXD_CMD_IFCS :: u32 where "TXD_CMD_IFCS \<equiv> 0x02000000"
abbreviation (input) TXD_CMD_DEXT :: u32 where "TXD_CMD_DEXT \<equiv> 0x20000000"
abbreviation (input) TXD_CMD_VLE :: u32 where "TXD_CMD_VLE \<equiv> 0x40000000"
abbreviation (input) TXD_STAT_DD :: u32 where "TXD_STAT_DD \<equiv> 0x00000001"
abbreviation (input) TXD_CMD_TCP :: u32 where "TXD_CMD_TCP \<equiv> 0x01000000"
abbreviation (input) TXD_CMD_IP :: u32 where "TXD_CMD_IP \<equiv> 0x02000000"
abbreviation (input) TXD_CMD_TSE :: u32 where "TXD_CMD_TSE \<equiv> 0x04000000"
abbreviation (input) ETH_P_IPV6 :: u16 where "ETH_P_IPV6 \<equiv> 0x86dd"
abbreviation (input) E1000_HALF_DUPLEX :: u16 where "E1000_HALF_DUPLEX \<equiv> 1"
abbreviation (input) MAX_SKB_FRAGS :: u32 where "MAX_SKB_FRAGS \<equiv> 17"

section \<open>Context descriptors\<close>

text \<open>Two words of a context descriptor in the place of the address, the first one lower.\<close>

definition ctx_addr :: "u32 \<Rightarrow> u32 \<Rightarrow> u64" where
  "ctx_addr lower_setup upper_setup = ucast lower_setup OR push_bit 32 (ucast upper_setup)"

definition ctx_fields :: "u8 \<Rightarrow> u8 \<Rightarrow> u16 \<Rightarrow> u32" where
  "ctx_fields css cso cse = ucast css OR push_bit 8 (ucast cso) OR push_bit 16 (ucast cse)"

text \<open>The descriptor is written, and its buffer slot stands for the descriptor alone.\<close>

definition put_context :: "nic_kernel \<Rightarrow> (e1000_tx_desc \<Rightarrow> e1000_tx_desc) \<Rightarrow> e1000_adapter
    \<Rightarrow> e1000_adapter option" where
  "put_context N g a = do {
     let i = tr_next_to_use (ad_tx_ring a);
     d \<leftarrow> get_desc i a;
     bi \<leftarrow> get_buf i a;
     let a1 = set_buf i (bi\<lparr>tb_time_stamp := n_jiffies N, tb_next_to_watch := ucast i\<rparr>)
           (set_desc i (g d) a);
     Some (map_tx (\<lambda>R. R\<lparr>tr_next_to_use := ring_next (tr_count R) i\<rparr>) a1)
   }"

text \<open>
  The segmentation offload. The status byte of the descriptor keeps its value. The IPv6 header is
  not part of the model of a packet, only the checksum of the TCP header changes.
\<close>

definition tso_hdr_len :: "tx_frame \<Rightarrow> u8" where
  "tso_hdr_len f = ucast (f_transport_offset f + tcp_hdrlen f)"

definition tso_frame :: "nic_kernel \<Rightarrow> tx_frame \<Rightarrow> tx_frame" where
  "tso_frame N f = (let b = f_skb f in
     if f_protocol f = htons ETH_P_IP then
       f\<lparr>f_skb := b\<lparr>iph := (iph b)\<lparr>tot_len := 0, ip_check := 0\<rparr>,
          th := (th b)\<lparr>th_check := NOT (n_tcpudp_magic N (saddr (iph b)) (daddr (iph b)) 0 IPPROTO_TCP 0)\<rparr>\<rparr>\<rparr>
     else if f_gso_v6 f then f\<lparr>f_skb := b\<lparr>th := (th b)\<lparr>th_check := NOT (n_ipv6_magic N f)\<rparr>\<rparr>\<rparr>
     else f)"

definition tso_context :: "tx_frame \<Rightarrow> e1000_tx_desc \<Rightarrow> e1000_tx_desc" where
  "tso_context f d = (
     let v4 = (f_protocol f = htons ETH_P_IP);
         ipcse = (if v4 then ucast (f_transport_offset f) - 1 else 0) :: u16;
         cmd = (if v4 then TXD_CMD_IP else 0) OR TXD_CMD_DEXT OR TXD_CMD_TSE OR TXD_CMD_TCP
               OR (skb_len (f_skb f) - ucast (tso_hdr_len f))
     in d\<lparr>td_addr := ctx_addr
            (ctx_fields (ucast (f_network_offset f)) (ucast (f_network_offset f + 10)) ipcse)
            (ctx_fields (ucast (f_transport_offset f)) (ucast (f_transport_offset f + 16)) 0),
          td_lower := cmd,
          td_upper := (td_upper d AND 0xff) OR push_bit 8 (ucast (tso_hdr_len f))
                        OR push_bit 16 (ucast (f_gso_size f))\<rparr>)"

text \<open>\<open>None\<close> in the first component is the negative error of the code.\<close>

definition e1000_tso :: "nic_kernel \<Rightarrow> tx_frame \<Rightarrow> e1000_adapter
    \<Rightarrow> (bool option \<times> tx_frame \<times> e1000_adapter) option" where
  "e1000_tso N f a = (
     if \<not> skb_is_gso f then Some (Some False, f, a)
     else if \<not> n_cow_ok N f then Some (None, f, a)
     else do {
       a1 \<leftarrow> put_context N (tso_context f) a;
       Some (Some True, tso_frame N f, a1)
     })"

definition csum_context :: "tx_frame \<Rightarrow> e1000_tx_desc \<Rightarrow> e1000_tx_desc" where
  "csum_context f d = (
     let tcp = (if f_protocol f = htons ETH_P_IP then protocol (iph (f_skb f)) = IPPROTO_TCP
                else f_protocol f = htons ETH_P_IPV6 \<and> f_nexthdr f = IPPROTO_TCP);
         css = ucast (f_csum_start f) :: u8
     in d\<lparr>td_addr := ctx_addr 0 (ctx_fields css (css + ucast (f_csum_offset f)) 0),
          td_lower := TXD_CMD_DEXT OR (if tcp then TXD_CMD_TCP else 0), td_upper := 0\<rparr>)"

definition e1000_tx_csum :: "nic_kernel \<Rightarrow> tx_frame \<Rightarrow> e1000_adapter \<Rightarrow> (bool \<times> e1000_adapter) option" where
  "e1000_tx_csum N f a = (
     if ip_summed (f_skb f) \<noteq> CHECKSUM_PARTIAL then Some (False, a)
     else do { a1 \<leftarrow> put_context N (csum_context f) a; Some (True, a1) })"

section \<open>Cutting a frame into descriptors\<close>

text \<open>The local variables of \<open>e1000_tx_map\<close>.\<close>

record map_loop =
  ml_ad :: e1000_adapter
  ml_i :: u32
  ml_len :: u32
  ml_offset :: u32
  ml_count :: u32

text \<open>The size of the next piece of the linear part, with the workarounds for four errata.\<close>

definition erratum_tso :: "e1000_adapter \<Rightarrow> tx_frame \<Rightarrow> bool" where
  "erratum_tso a f \<longleftrightarrow> f_data_len f = 0 \<and> tr_last_tx_tso (ad_tx_ring a) \<and> \<not> skb_is_gso f"

definition bad_alignment :: "e1000_adapter \<Rightarrow> u64 \<Rightarrow> bool" where
  "bad_alignment a bufend \<longleftrightarrow> ad_pcix_82544 a \<and> bufend AND 4 = 0"

definition linear_size :: "tx_frame \<Rightarrow> u32 \<Rightarrow> u32 \<Rightarrow> map_loop \<Rightarrow> u32" where
  "linear_size f max_per_txd mss l = (
     let a = ml_ad l; len = ml_len l;
         s0 = min len max_per_txd;
         s1 = (if erratum_tso a f then s0 - 4 else s0);
         s2 = (if mss \<noteq> 0 \<and> f_frags f = [] \<and> s1 = len \<and> s1 > 8 then s1 - 4 else s1);
         s3 = (if hw_bus_type (ad_hw a) = e1000_bus_type_pcix \<and> s2 > 2015 \<and> ml_count l = 0
               then 2015 else s2)
     in if bad_alignment a (f_data f + ucast (ml_offset l) + ucast s3 - 1) \<and> s3 > 4
        then s3 - 4 else s3)"

definition frag_size :: "u64 \<Rightarrow> u32 \<Rightarrow> u32 \<Rightarrow> bool \<Rightarrow> map_loop \<Rightarrow> u32" where
  "frag_size page max_per_txd mss last_frag l = (
     let len = ml_len l;
         s0 = min len max_per_txd;
         s1 = (if mss \<noteq> 0 \<and> last_frag \<and> s0 = len \<and> s0 > 8 then s0 - 4 else s0)
     in if bad_alignment (ml_ad l) (page + ucast (ml_offset l) + ucast s1 - 1) \<and> s1 > 4
        then s1 - 4 else s1)"

text \<open>
  One piece: its slot is filled in and the mapping is made. When the mapping fails the code
  leaves the loop with the slot cleared, otherwise the counters move on.
\<close>

definition map_piece :: "nic_kernel \<Rightarrow> bool \<Rightarrow> u32 \<Rightarrow> map_loop \<Rightarrow> (bool \<times> map_loop) option" where
  "map_piece N as_page sz l = do {
     let a = ml_ad l;
     bi \<leftarrow> get_buf (ml_i l) a;
     let (dma, failed) = n_dma N (ad_dma_next a);
     let a1 = a\<lparr>ad_dma_next := Suc (ad_dma_next a)\<rparr>;
     let bi1 = bi\<lparr>tb_length := ucast sz, tb_time_stamp := n_jiffies N,
                  tb_mapped_as_page := as_page, tb_dma := dma\<rparr>;
     if failed then Some (False, l\<lparr>ml_ad := set_buf (ml_i l) (bi1\<lparr>tb_dma := 0\<rparr>) a1\<rparr>)
     else Some (True, l\<lparr>
       ml_ad := nic_log (Dma_map dma sz as_page)
          (set_buf (ml_i l) (bi1\<lparr>tb_next_to_watch := ucast (ml_i l)\<rparr>) a1),
       ml_len := ml_len l - sz, ml_offset := ml_offset l + sz, ml_count := ml_count l + 1\<rparr>)
   }"

definition step_i :: "map_loop \<Rightarrow> map_loop" where
  "step_i l = l\<lparr>ml_i := ring_next (tr_count (ad_tx_ring (ml_ad l))) (ml_i l)\<rparr>"

definition linear_piece :: "nic_kernel \<Rightarrow> tx_frame \<Rightarrow> u32 \<Rightarrow> u32 \<Rightarrow> map_loop
    \<Rightarrow> (bool \<times> map_loop) option" where
  "linear_piece N f max_per_txd mss l = do {
     let sz = linear_size f max_per_txd mss l;
     let a = (if erratum_tso (ml_ad l) f
              then map_tx (\<lambda>R. R\<lparr>tr_last_tx_tso := False\<rparr>) (ml_ad l) else ml_ad l);
     (ok, l1) \<leftarrow> map_piece N False sz (l\<lparr>ml_ad := a\<rparr>);
     Some (ok, if ok \<and> ml_len l1 \<noteq> 0 then step_i l1 else l1)
   }"

partial_function (option) map_linear :: "nic_kernel \<Rightarrow> tx_frame \<Rightarrow> u32 \<Rightarrow> u32 \<Rightarrow> map_loop
    \<Rightarrow> (bool \<times> map_loop) option" where
  "map_linear N f max_per_txd mss l = (
     if ml_len l = 0 then Some (True, l)
     else Option.bind (linear_piece N f max_per_txd mss l)
       (\<lambda>r. if fst r then map_linear N f max_per_txd mss (snd r) else Some r))"

declare map_linear.simps [code]

definition frag_piece :: "nic_kernel \<Rightarrow> u64 \<Rightarrow> u32 \<Rightarrow> u32 \<Rightarrow> bool \<Rightarrow> map_loop
    \<Rightarrow> (bool \<times> map_loop) option" where
  "frag_piece N page max_per_txd mss last_frag l = (let l1 = step_i l
     in map_piece N True (frag_size page max_per_txd mss last_frag l1) l1)"

partial_function (option) map_frag :: "nic_kernel \<Rightarrow> u64 \<Rightarrow> u32 \<Rightarrow> u32 \<Rightarrow> bool \<Rightarrow> map_loop
    \<Rightarrow> (bool \<times> map_loop) option" where
  "map_frag N page max_per_txd mss last_frag l = (
     if ml_len l = 0 then Some (True, l)
     else Option.bind (frag_piece N page max_per_txd mss last_frag l)
       (\<lambda>r. if fst r then map_frag N page max_per_txd mss last_frag (snd r) else Some r))"

declare map_frag.simps [code]

fun map_frags :: "nic_kernel \<Rightarrow> u32 \<Rightarrow> u32 \<Rightarrow> (u64 \<times> u32) list \<Rightarrow> map_loop \<Rightarrow> (bool \<times> map_loop) option" where
  "map_frags N max_per_txd mss [] l = Some (True, l)"
| "map_frags N max_per_txd mss ((page, sz) # fs) l =
     Option.bind (map_frag N page max_per_txd mss (fs = []) (l\<lparr>ml_len := sz, ml_offset := 0\<rparr>))
       (\<lambda>r. if fst r then map_frags N max_per_txd mss fs (snd r) else Some r)"

section \<open>Releasing buffers\<close>

definition e1000_unmap_and_free_tx_resource :: "u32 \<Rightarrow> e1000_adapter \<Rightarrow> e1000_adapter option" where
  "e1000_unmap_and_free_tx_resource i a = do {
     bi \<leftarrow> get_buf i a;
     let a1 = (if tb_dma bi \<noteq> 0 then nic_log (Dma_unmap (tb_dma bi) (tb_length bi) (tb_mapped_as_page bi)) a
               else a);
     let a2 = (case tb_skb bi of None \<Rightarrow> a1 | Some f \<Rightarrow> nic_log (Kfree_skb (f_id f)) a1);
     Some (set_buf i (bi\<lparr>tb_dma := 0, tb_skb := None, tb_time_stamp := 0\<rparr>) a2)
   }"

text \<open>The way back after a failed mapping: \<open>n\<close> slots before \<open>i\<close> are released.\<close>

primrec unwind_map :: "nat \<Rightarrow> u32 \<Rightarrow> e1000_adapter \<Rightarrow> e1000_adapter option" where
  "unwind_map 0 i a = Some a"
| "unwind_map (Suc n) i a = (
     let j = (if i = 0 then i + tr_count (ad_tx_ring a) else i) - 1
     in Option.bind (e1000_unmap_and_free_tx_resource j a) (unwind_map n j))"

definition tx_bytecount :: "tx_frame \<Rightarrow> u32 \<Rightarrow> u32" where
  "tx_bytecount f segs = (segs - 1) * skb_headlen f + skb_len (f_skb f)"

text \<open>The frame is recorded in its last slot; its first slot points to the last one.\<close>

definition record_frame :: "tx_frame \<Rightarrow> u32 \<Rightarrow> u32 \<Rightarrow> e1000_adapter \<Rightarrow> e1000_adapter option" where
  "record_frame f first i a = do {
     let segs = (if f_gso_segs f = 0 then 1 else f_gso_segs f);
     bi \<leftarrow> get_buf i a;
     let a1 = set_buf i (bi\<lparr>tb_skb := Some f, tb_segs := segs, tb_bytecount := tx_bytecount f (ucast segs)\<rparr>) a;
     bf \<leftarrow> get_buf first a1;
     Some (set_buf first (bf\<lparr>tb_next_to_watch := ucast i\<rparr>) a1)
   }"

definition e1000_tx_map :: "nic_kernel \<Rightarrow> tx_frame \<Rightarrow> u32 \<Rightarrow> u32 \<Rightarrow> u32 \<Rightarrow> e1000_adapter
    \<Rightarrow> (u32 \<times> e1000_adapter) option" where
  "e1000_tx_map N f first max_per_txd mss a = do {
     (ok1, l1) \<leftarrow> map_linear N f max_per_txd mss
         \<lparr>ml_ad = a, ml_i = tr_next_to_use (ad_tx_ring a), ml_len = skb_headlen f, ml_offset = 0, ml_count = 0\<rparr>;
     (ok, l) \<leftarrow> (if ok1 then map_frags N max_per_txd mss (f_frags f) l1 else Some (False, l1));
     if ok then do { a1 \<leftarrow> record_frame f first (ml_i l) (ml_ad l); Some (ml_count l, a1) }
     else do { a1 \<leftarrow> unwind_map (unat (ml_count l) - 1) (ml_i l) (ml_ad l); Some (0, a1) }
   }"

section \<open>Giving descriptors to the device\<close>

text \<open>The flags of a frame: checksum, segmentation, IPv4, no frame check sequence, VLAN tag.\<close>

record tx_flags =
  fl_csum :: bool
  fl_tso :: bool
  fl_ipv4 :: bool
  fl_no_fcs :: bool
  fl_vlan :: "u16 option"

definition txd_lower :: "tx_flags \<Rightarrow> u32" where
  "txd_lower fl = (
     let l0 = TXD_CMD_IFCS;
         l1 = (if fl_tso fl then l0 OR TXD_CMD_DEXT OR TXD_DTYP_D OR TXD_CMD_TSE else l0);
         l2 = (if fl_csum fl then l1 OR TXD_CMD_DEXT OR TXD_DTYP_D else l1);
         l3 = (if fl_vlan fl \<noteq> None then l2 OR TXD_CMD_VLE else l2)
     in if fl_no_fcs fl then l3 AND NOT TXD_CMD_IFCS else l3)"

definition txd_upper :: "tx_flags \<Rightarrow> u32" where
  "txd_upper fl = (
     let u1 = (if fl_tso fl then (if fl_ipv4 fl
                 then push_bit 8 TXD_POPTS_TXSM OR push_bit 8 TXD_POPTS_IXSM
                 else push_bit 8 TXD_POPTS_TXSM) else 0);
         u2 = (if fl_csum fl then u1 OR push_bit 8 TXD_POPTS_TXSM else u1)
     in case fl_vlan fl of None \<Rightarrow> u2 | Some tag \<Rightarrow> u2 OR push_bit 16 (ucast tag))"

text \<open>\<open>n\<close> descriptors from slot \<open>i\<close> on; the result is the slot after them.\<close>

primrec queue_descs :: "tx_flags \<Rightarrow> nat \<Rightarrow> u32 \<Rightarrow> e1000_adapter \<Rightarrow> (u32 \<times> e1000_adapter) option" where
  "queue_descs fl 0 i a = Some (i, a)"
| "queue_descs fl (Suc n) i a = do {
     bi \<leftarrow> get_buf i a;
     d \<leftarrow> get_desc i a;
     let a1 = set_desc i (d\<lparr>td_addr := tb_dma bi, td_lower := txd_lower fl OR ucast (tb_length bi),
                           td_upper := txd_upper fl\<rparr>) a;
     queue_descs fl n (ring_next (tr_count (ad_tx_ring a)) i) a1
   }"

definition last_slot :: "u32 \<Rightarrow> u32 \<Rightarrow> u32" where
  "last_slot count i = (if i = 0 then count - 1 else i - 1)"

text \<open>The last descriptor carries the command that ends the frame; without one the pointer is NULL.\<close>

definition e1000_tx_queue :: "tx_flags \<Rightarrow> u32 \<Rightarrow> e1000_adapter \<Rightarrow> e1000_adapter option" where
  "e1000_tx_queue fl count a = do {
     (i, a1) \<leftarrow> queue_descs fl (unat count) (tr_next_to_use (ad_tx_ring a)) a;
     if count = 0 then None else do {
       let j = last_slot (tr_count (ad_tx_ring a)) i;
       d \<leftarrow> get_desc j a1;
       let low = td_lower d OR ad_txd_cmd a1;
       let a2 = set_desc j (d\<lparr>td_lower := (if fl_no_fcs fl then low AND NOT TXD_CMD_IFCS else low)\<rparr>) a1;
       Some (map_tx (\<lambda>R. R\<lparr>tr_next_to_use := i\<rparr>) a2)
     }
   }"

section \<open>Room in the ring\<close>

text \<open>
  The second test is made after the queue was stopped, in case another processor has made room
  in between; a step being atomic, it sees what the first test saw. \<open>True\<close> is \<^verbatim>\<open>-EBUSY\<close>.
\<close>

definition e1000_maybe_stop_tx :: "u32 \<Rightarrow> e1000_adapter \<Rightarrow> bool \<times> e1000_adapter" where
  "e1000_maybe_stop_tx sz a = (
     if tx_unused (ad_tx_ring a) \<ge> sz then (False, a)
     else let a1 = a\<lparr>ad_queue_stopped := True\<rparr> in
       if tx_unused (ad_tx_ring a1) < sz then (True, a1)
       else (False, a1\<lparr>ad_queue_stopped := False, ad_restart_queue := ad_restart_queue a1 + 1\<rparr>))"

abbreviation (input) E1000_FIFO_HDR :: u32 where "E1000_FIFO_HDR \<equiv> 0x10"
abbreviation (input) E1000_82547_PAD_LEN :: u32 where "E1000_82547_PAD_LEN \<equiv> 0x3E0"

text \<open>The length rounded up to a multiple of the FIFO header.\<close>

definition fifo_len :: "u32 \<Rightarrow> u32" where
  "fifo_len len = (len + E1000_FIFO_HDR + (E1000_FIFO_HDR - 1)) AND NOT (E1000_FIFO_HDR - 1)"

definition fifo_advance :: "u32 \<Rightarrow> e1000_adapter \<Rightarrow> e1000_adapter" where
  "fifo_advance n a = (let h = ad_tx_fifo_head a + n
     in a\<lparr>ad_tx_fifo_head := (if h \<ge> ad_tx_fifo_size a then h - ad_tx_fifo_size a else h)\<rparr>)"

definition e1000_82547_fifo_workaround :: "u32 \<Rightarrow> e1000_adapter \<Rightarrow> bool \<times> e1000_adapter" where
  "e1000_82547_fifo_workaround len a = (
     let fifo_space = ad_tx_fifo_size a - ad_tx_fifo_head a in
     if ad_link_duplex a \<noteq> E1000_HALF_DUPLEX then (False, fifo_advance (fifo_len len) a)
     else if ad_tx_fifo_stall a then (True, a)
     else if fifo_len len \<ge> E1000_82547_PAD_LEN + fifo_space then (True, a\<lparr>ad_tx_fifo_stall := True\<rparr>)
     else (False, fifo_advance (fifo_len len) a))"

section \<open>Sending a frame\<close>

text \<open>The position of the highest bit of a word, counted from 1.\<close>

fun fls_nat :: "nat \<Rightarrow> nat" where
  "fls_nat n = (if n = 0 then 0 else Suc (fls_nat (n div 2)))"

declare fls_nat.simps [simp del]

definition fls :: "u32 \<Rightarrow> nat" where
  "fls x = fls_nat (unat x)"

abbreviation (input) E1000_MAX_DATA_PER_TXD :: u32 where "E1000_MAX_DATA_PER_TXD \<equiv> 4096"

definition frame_mss :: "tx_frame \<Rightarrow> u32" where
  "frame_mss f = ucast (f_gso_size f)"

text \<open>The most bytes of one descriptor, and the power of two the reservation divides by.\<close>

definition max_per_txd :: "u32 \<Rightarrow> u32" where
  "max_per_txd mss = (if mss \<noteq> 0 then min (push_bit 2 mss) E1000_MAX_DATA_PER_TXD else E1000_MAX_DATA_PER_TXD)"

definition max_txd_pwr :: "u32 \<Rightarrow> nat" where
  "max_txd_pwr mss = (if mss \<noteq> 0 then fls (max_per_txd mss) - 1 else 12)"

text \<open>
  On the 82544, a segmented frame whose linear part is just the header gets a few bytes of
  the rest moved into it. \<open>len\<close> is the length of the linear part as the function knows it;
  the result is the frame and that length, \<open>None\<close> when there is no memory.
\<close>

definition pull_header :: "nic_kernel \<Rightarrow> u32 \<Rightarrow> tx_frame \<Rightarrow> e1000_adapter \<Rightarrow> (tx_frame \<times> u32) option" where
  "pull_header N len f a = (
     if frame_mss f \<noteq> 0 \<and> f_data_len f \<noteq> 0 \<and> ucast (tso_hdr_len f) = len \<and> hw_mac_type (ad_hw a) = e1000_82544
        \<and> (f_data f + ucast (skb_headlen f) - 1) AND 4 = 0
     then map_option (\<lambda>f1. (f1, skb_headlen f1)) (n_pull N (min 4 (f_data_len f)) f)
     else Some (f, len))"

definition TXD_USE_COUNT :: "u32 \<Rightarrow> nat \<Rightarrow> u32" where
  "TXD_USE_COUNT s x = drop_bit x s + 1"

text \<open>The descriptors reserved for a frame whose linear part has the length \<open>len\<close>.\<close>

definition tx_reserve :: "e1000_adapter \<Rightarrow> u32 \<Rightarrow> tx_frame \<Rightarrow> u32" where
  "tx_reserve a len f = (
     let pwr = max_txd_pwr (frame_mss f);
         c0 = (if frame_mss f \<noteq> 0 \<or> ip_summed (f_skb f) = CHECKSUM_PARTIAL then 1 else 0) + 1;
         c1 = (if erratum_tso a f then c0 + 1 else c0);
         c2 = c1 + TXD_USE_COUNT len pwr;
         c3 = (if ad_pcix_82544 a then c2 + 1 else c2);
         c4 = (if hw_bus_type (ad_hw a) = e1000_bus_type_pcix \<and> len > 2015 then c3 + 1 else c3);
         c5 = c4 + sum_list (map (\<lambda>p. TXD_USE_COUNT (snd p) pwr) (f_frags f))
     in if ad_pcix_82544 a then c5 + of_nat (length (f_frags f)) else c5)"

definition free_frame :: "tx_frame \<Rightarrow> e1000_adapter \<Rightarrow> xmit_result \<times> tx_frame \<times> e1000_adapter" where
  "free_frame f a = (E1000_TX_OK, f, nic_log (Kfree_skb (f_id f)) a)"

text \<open>The offload of a frame: what \<open>e1000_tso\<close> or \<open>e1000_tx_csum\<close> has arranged, as flags.\<close>

definition tx_offload :: "nic_kernel \<Rightarrow> tx_frame \<Rightarrow> e1000_adapter
    \<Rightarrow> (tx_flags option \<times> tx_frame \<times> e1000_adapter) option" where
  "tx_offload N f a = do {
     (tso, f1, a1) \<leftarrow> e1000_tso N f a;
     (case tso of
        None \<Rightarrow> Some (None, f1, a1)
      | Some t \<Rightarrow> do {
          (csum, a2) \<leftarrow> (if t then Some (False, if hw_mac_type (ad_hw a1) \<noteq> e1000_82544
                                then map_tx (\<lambda>R. R\<lparr>tr_last_tx_tso := True\<rparr>) a1 else a1)
                        else e1000_tx_csum N f1 a1);
          Some (Some \<lparr>fl_csum = csum, fl_tso = t, fl_ipv4 = (f_protocol f1 = htons ETH_P_IP),
                      fl_no_fcs = f_no_fcs f1, fl_vlan = f_vlan_tag f1\<rparr>, f1, a2)
        })
   }"

text \<open>From the reservation on: the descriptors of the frame are made and queued.\<close>

definition e1000_send :: "nic_kernel \<Rightarrow> tx_frame \<Rightarrow> e1000_adapter
    \<Rightarrow> (xmit_result \<times> tx_frame \<times> e1000_adapter) option" where
  "e1000_send N f a = do {
     let first = tr_next_to_use (ad_tx_ring a);
     (fl, f1, a1) \<leftarrow> tx_offload N f a;
     (case fl of
        None \<Rightarrow> Some (free_frame f1 a1)
      | Some flags \<Rightarrow> do {
          let mss = frame_mss f;
          (count, a2) \<leftarrow> e1000_tx_map N f1 first (max_per_txd mss) mss a1;
          if count \<noteq> 0 then do {
            a3 \<leftarrow> e1000_tx_queue flags count a2;
            let a4 = snd (e1000_maybe_stop_tx (MAX_SKB_FRAGS + 2) a3);
            Some (E1000_TX_OK, f1,
              if \<not> f_xmit_more f1 \<or> ad_queue_stopped a4
              then nic_log (Write_tail (tr_next_to_use (ad_tx_ring a4))) a4 else a4)
          } else do {
            let a3 = nic_log (Kfree_skb (f_id f1)) a2;
            bf \<leftarrow> get_buf first a3;
            Some (E1000_TX_OK, f1, map_tx (\<lambda>R. R\<lparr>tr_next_to_use := first\<rparr>)
              (set_buf first (bf\<lparr>tb_time_stamp := 0\<rparr>) a3))
          }
        })
   }"

text \<open>
  What follows the call of the module; \<open>len\<close> is the length of the linear part from before that
  call. The result carries the frame, which the caller keeps when the answer is busy.
\<close>

definition e1000_xmit_body :: "nic_kernel \<Rightarrow> u32 \<Rightarrow> tx_frame \<Rightarrow> e1000_adapter
    \<Rightarrow> (xmit_result \<times> tx_frame \<times> e1000_adapter) option" where
  "e1000_xmit_body N len f a = (
     case n_pad N f of
       None \<Rightarrow> Some (free_frame f a)
     | Some f1 \<Rightarrow> (case pull_header N len f1 a of
          None \<Rightarrow> Some (free_frame f1 a)
        | Some (f2, len2) \<Rightarrow>
            let (busy, a1) = e1000_maybe_stop_tx (tx_reserve a len2 f2 + 2) a in
            if busy then Some (E1000_TX_BUSY, f2, a1)
            else let (stall, a2) = (if hw_mac_type (ad_hw a1) = e1000_82547
                   then e1000_82547_fifo_workaround (skb_len (f_skb f2)) a1 else (False, a1)) in
            if stall then Some (E1000_TX_BUSY, f2, a2\<lparr>ad_queue_stopped := True\<rparr>)
            else e1000_send N f2 a2))"

definition e1000_xmit_frame :: "kapi \<Rightarrow> nic_kernel \<Rightarrow> tx_frame \<Rightarrow> e1000_adapter \<times> mstate
    \<Rightarrow> (xmit_result \<times> tx_frame \<times> e1000_adapter \<times> mstate) option" where
  "e1000_xmit_frame K N f am = do {
     let len = skb_headlen f;
     ((r, b), m) \<leftarrow> dysco_output K (f_skb f) (snd am);
     let f1 = f\<lparr>f_skb := b\<rparr>;
     if r = NETDEV_TX_OK then Some (E1000_TX_OK, f1, fst am, m)
     else do {
       (x, f2, a) \<leftarrow> e1000_xmit_body N len f1 (fst am);
       Some (x, f2, a, m)
     }
   }"

section \<open>Taking back what was sent\<close>

record clean_loop =
  cl_ad :: e1000_adapter
  cl_i :: u32
  cl_count :: u32
  cl_bytes :: u32
  cl_packets :: u32

text \<open>One slot of a frame that ends at slot \<open>eop\<close>.\<close>

definition clean_slot :: "u32 \<Rightarrow> clean_loop \<Rightarrow> clean_loop option" where
  "clean_slot eop l = do {
     let i = cl_i l;
     bi \<leftarrow> get_buf i (cl_ad l);
     a1 \<leftarrow> e1000_unmap_and_free_tx_resource i (cl_ad l);
     d \<leftarrow> get_desc i a1;
     let cleaned = (i = eop);
     Some (l\<lparr>cl_ad := set_desc i (d\<lparr>td_upper := 0\<rparr>) a1,
             cl_i := ring_next (tr_count (ad_tx_ring a1)) i,
             cl_count := cl_count l + 1,
             cl_bytes := (if cleaned then cl_bytes l + tb_bytecount bi else cl_bytes l),
             cl_packets := (if cleaned then cl_packets l + ucast (tb_segs bi) else cl_packets l)\<rparr>)
   }"

partial_function (option) clean_frame :: "u32 \<Rightarrow> clean_loop \<Rightarrow> clean_loop option" where
  "clean_frame eop l = Option.bind (clean_slot eop l)
     (\<lambda>l1. if cl_i l = eop then Some l1 else clean_frame eop l1)"

declare clean_frame.simps [code]

text \<open>The last slot of the frame that starts at the current one, and whether the device has sent it.\<close>

definition frame_done :: "clean_loop \<Rightarrow> (u32 \<times> bool) option" where
  "frame_done l = do {
     bi \<leftarrow> get_buf (cl_i l) (cl_ad l);
     let eop = (ucast (tb_next_to_watch bi) :: u32);
     d \<leftarrow> get_desc eop (cl_ad l);
     Some (eop, td_upper d AND TXD_STAT_DD \<noteq> 0)
   }"

partial_function (option) clean_frames :: "clean_loop \<Rightarrow> (u32 \<times> clean_loop) option" where
  "clean_frames l = Option.bind (frame_done l)
     (\<lambda>r. if snd r \<and> cl_count l < tr_count (ad_tx_ring (cl_ad l))
          then Option.bind (clean_frame (fst r) l) clean_frames
          else Some (fst r, l))"

declare clean_frames.simps [code]

abbreviation (input) TX_WAKE_THRESHOLD :: u32 where "TX_WAKE_THRESHOLD \<equiv> 32"
abbreviation (input) E1000_STATUS_TXOFF :: u32 where "E1000_STATUS_TXOFF \<equiv> 0x10"

definition wake_queue :: "u32 \<Rightarrow> e1000_adapter \<Rightarrow> e1000_adapter" where
  "wake_queue count a = (
     if count \<noteq> 0 \<and> ad_carrier_ok a \<and> tx_unused (ad_tx_ring a) \<ge> TX_WAKE_THRESHOLD
        \<and> ad_queue_stopped a \<and> \<not> ad_down a
     then a\<lparr>ad_queue_stopped := False, ad_restart_queue := ad_restart_queue a + 1\<rparr> else a)"

definition time_after :: "u64 \<Rightarrow> u64 \<Rightarrow> bool" where
  "time_after x y \<longleftrightarrow> sint (y - x) < 0"

definition detect_hang :: "nic_kernel \<Rightarrow> u32 \<Rightarrow> e1000_adapter \<Rightarrow> e1000_adapter option" where
  "detect_hang N eop a = (
     if \<not> ad_detect_tx_hung a then Some a
     else do {
       let a1 = a\<lparr>ad_detect_tx_hung := False\<rparr>;
       bi \<leftarrow> get_buf eop a1;
       Some (if tb_time_stamp bi \<noteq> 0
                \<and> time_after (n_jiffies N) (tb_time_stamp bi + ucast (ad_tx_timeout_factor a1) * n_hz N)
                \<and> n_status N AND E1000_STATUS_TXOFF = 0
             then a1\<lparr>ad_queue_stopped := True\<rparr> else a1)
     })"

definition e1000_clean_tx_irq :: "nic_kernel \<Rightarrow> e1000_adapter \<Rightarrow> (bool \<times> e1000_adapter) option" where
  "e1000_clean_tx_irq N a = do {
     (eop, l) \<leftarrow> clean_frames \<lparr>cl_ad = a, cl_i = tr_next_to_clean (ad_tx_ring a), cl_count = 0,
                             cl_bytes = 0, cl_packets = 0\<rparr>;
     let a1 = map_tx (\<lambda>R. R\<lparr>tr_next_to_clean := cl_i l\<rparr>) (cl_ad l);
     a2 \<leftarrow> detect_hang N eop (wake_queue (cl_count l) a1);
     Some (cl_count l < tr_count (ad_tx_ring a2),
       a2\<lparr>ad_total_tx_bytes := ad_total_tx_bytes a2 + cl_bytes l,
          ad_total_tx_packets := ad_total_tx_packets a2 + cl_packets l,
          ad_stat_tx_bytes := ad_stat_tx_bytes a2 + ucast (cl_bytes l),
          ad_stat_tx_packets := ad_stat_tx_packets a2 + ucast (cl_packets l)\<rparr>)
   }"

text \<open>The ring is emptied when the device goes down.\<close>

primrec free_slots :: "nat \<Rightarrow> e1000_adapter \<Rightarrow> e1000_adapter option" where
  "free_slots 0 a = Some a"
| "free_slots (Suc n) a = Option.bind (free_slots n a) (e1000_unmap_and_free_tx_resource (of_nat n))"

definition zero_tx_buffer :: e1000_tx_buffer where
  "zero_tx_buffer = \<lparr>tb_skb = None, tb_dma = 0, tb_time_stamp = 0, tb_length = 0, tb_next_to_watch = 0,
     tb_mapped_as_page = False, tb_segs = 0, tb_bytecount = 0\<rparr>"

definition zero_tx_desc :: e1000_tx_desc where
  "zero_tx_desc = \<lparr>td_addr = 0, td_lower = 0, td_upper = 0\<rparr>"

definition e1000_clean_tx_ring :: "e1000_adapter \<Rightarrow> e1000_adapter option" where
  "e1000_clean_tx_ring a = do {
     a1 \<leftarrow> free_slots (unat (tr_count (ad_tx_ring a))) a;
     Some (nic_log (Write_tail 0) (map_tx (\<lambda>R. R\<lparr>
       tr_buffer_info := replicate (unat (tr_count R)) zero_tx_buffer,
       tr_desc := replicate (length (tr_desc R)) zero_tx_desc,
       tr_next_to_use := 0, tr_next_to_clean := 0, tr_last_tx_tso := False\<rparr>) a1))
   }"

end
