(* ===== verification/Dysco_E1000_Pieces.thy ===== *)
theory Dysco_E1000_Pieces
  imports Dysco_E1000_Tx
begin

text \<open>
  How many descriptors the loops of \<open>e1000_tx_map\<close> use. The reservation of \<open>e1000_xmit_frame\<close>
  counts whole powers of two and one spare descriptor per erratum; the pieces are cut at another
  length and shortened by 4 bytes in some places. The locale \<open>piece_sizes\<close> bounds the number of
  pieces by a budget that one piece always pays for; it is interpreted on \<open>max_per_txd\<close> and
  \<open>max_txd_pwr\<close>.
\<close>

section \<open>Alignment of an end address\<close>

lemma and4_bit: "(x::u64) AND 4 = 0 \<longleftrightarrow> \<not> bit x 2"
proof -
  have "(4::u64) = 2 ^ 2" by simp
  then show ?thesis by (simp only: and_exp_eq_0_iff_not_bit)
qed

lemma bit2_unat: "bit (x::u64) 2 \<longleftrightarrow> bit (unat x) 2"
  by (simp add: bit_unsigned_iff)

lemma bit2_add_unat: "bit ((x::u64) + m) 2 \<longleftrightarrow> odd ((unat x + unat m) div 4)"
proof -
  have "unat (x + m) = take_bit 64 (unat x + unat m)"
    by (simp add: unat_word_ariths(1) take_bit_eq_mod)
  then show ?thesis
    by (simp add: bit2_unat bit_take_bit_iff) (simp add: bit_iff_odd)
qed

lemma bit2_add8: "8 dvd unat m \<Longrightarrow> bit ((x::u64) + m) 2 \<longleftrightarrow> bit x 2"
proof -
  assume "8 dvd unat m"
  then obtain k where k: "unat m = 8 * k" by (elim dvdE)
  have "(unat x + 8 * k) div 4 = unat x div 4 + 2 * k" by simp
  then show ?thesis unfolding bit2_add_unat k by (simp add: bit2_unat) (simp add: bit_iff_odd)
qed

lemma bit2_add4: "bit ((x::u64) + 4) 2 \<longleftrightarrow> \<not> bit x 2"
proof -
  have "(unat x + 4) div 4 = unat x div 4 + 1" by simp
  then show ?thesis unfolding bit2_add_unat by (simp add: bit2_unat) (simp add: bit_iff_odd)
qed

lemma bit2_sub4: "bit ((x::u64) - 4) 2 \<longleftrightarrow> \<not> bit x 2"
  using bit2_add4 [of "x - 4"] by simp

section \<open>The budget\<close>

text \<open>
  \<open>M\<close> is the most a piece holds and \<open>Q\<close> the power of two below it. One step of a loop with \<open>L\<close>
  bytes left cuts off \<open>s\<close> bytes: \<open>tight\<close> means that no piece is shortened, \<open>good\<close> that the current
  address is aligned such that a piece of \<open>M\<close> or of 8 bytes needs no shortening.
\<close>

locale piece_sizes =
  fixes M Q :: nat
  assumes Q4: "4 \<le> Q" and QM: "Q \<le> M" and MQ: "M = Q \<or> Q + 4 \<le> M"
    and M8: "M = Q \<Longrightarrow> M = 4 \<or> 8 dvd M"
begin

definition budget :: "bool \<Rightarrow> bool \<Rightarrow> nat \<Rightarrow> nat" where
  "budget tight good L = (if tight then (L + Q - 1) div Q
     else if good \<and> L = 8 \<and> 8 \<le> M then 1
     else if good \<or> Q + 4 \<le> M then (L + Q - 5) div Q + 1
     else L div Q + 2)"

definition cut :: "bool \<Rightarrow> bool \<Rightarrow> nat \<Rightarrow> nat \<Rightarrow> bool \<Rightarrow> bool" where
  "cut tight good L s good' \<longleftrightarrow> (if tight then s = min L M
     else if M < L then s = M \<and> (M = Q \<longrightarrow> good') \<or> s + 4 = M \<and> 4 < M \<and> good' \<and> (good \<longrightarrow> Q + 4 \<le> M)
     else s = L \<or> s + 4 = L \<and> 4 < L \<and> good' \<and> \<not> (good \<and> L = 8 \<and> 8 \<le> M) \<or> s + 8 = L \<and> 8 < L \<and> good')"

lemma cut_pos: "0 < L \<Longrightarrow> cut tight good L s good' \<Longrightarrow> 0 < s \<and> s \<le> L"
  using Q4 QM by (auto simp: cut_def split: if_splits)

lemma add_Q: "(a + Q) div Q = a div Q + 1"
  by (subst div_add_self2) (use Q4 in auto)

lemma div_up: "a \<le> b + Q \<Longrightarrow> a div Q \<le> b div Q + 1"
  using div_le_mono [of a "b + Q" Q] by (simp add: add_Q)

lemma div_drop: "a + Q \<le> b \<Longrightarrow> a div Q + 1 \<le> b div Q"
proof -
  assume "a + Q \<le> b"
  then have "(a + Q) div Q \<le> b div Q" by (rule div_le_mono)
  then show ?thesis by (simp add: add_Q)
qed

lemma budget_two: "5 \<le> L \<Longrightarrow> \<not> (good \<and> L = 8 \<and> 8 \<le> M) \<Longrightarrow> 2 \<le> budget False good L"
  using Q4 div_drop [of "L - 5" "L + Q - 5"] by (auto simp: budget_def)

lemma budget_pos: "0 < L \<Longrightarrow> 1 \<le> budget tight good L"
  using Q4 div_drop [of "L - 1" "L + Q - 1"] by (auto simp: budget_def)

lemma budget_whole:
  assumes L: "M < L" and s: "s = M \<and> (M = Q \<longrightarrow> good') \<or> s + 4 = M \<and> good' \<and> (good \<longrightarrow> Q + 4 \<le> M)"
  shows "budget False good' (L - s) + 1 \<le> budget False good L"
proof (cases "good' \<and> L - s = 8 \<and> 8 \<le> M")
  case True
  moreover have "2 \<le> budget False good L" using L True by (intro budget_two) auto
  ultimately show ?thesis by (simp add: budget_def)
next
  case False
  have g: "good' \<or> Q + 4 \<le> M" using s MQ by auto
  then have b': "budget False good' (L - s) = (L - s + Q - 5) div Q + 1" using False by (auto simp: budget_def)
  show ?thesis
  proof (cases "good \<or> Q + 4 \<le> M")
    case True
    have "L - s + Q - 5 + Q \<le> L + Q - 5" using s L Q4 QM True by auto
    then have "(L - s + Q - 5) div Q + 1 \<le> (L + Q - 5) div Q" by (rule div_drop)
    with b' True L show ?thesis by (auto simp: budget_def)
  next
    case False
    then have "M = Q" using MQ by blast
    then have "(L - s + Q - 5) div Q \<le> L div Q" using s L by (intro div_le_mono) auto
    with b' False show ?thesis by (auto simp: budget_def)
  qed
qed

lemma budget_cut:
  assumes "0 < L" and c: "cut tight good L s good'" and s: "s < L"
  shows "budget tight good' (L - s) + 1 \<le> budget tight good L"
proof (cases tight)
  case True
  with c s have "s = M" "M < L" by (auto simp: cut_def)
  then have "L - s + Q - 1 + Q \<le> L + Q - 1" using QM Q4 by auto
  with True div_drop show ?thesis by (simp add: budget_def)
next
  case loose: False
  show ?thesis
  proof (cases "M < L")
    case True
    with c loose show ?thesis using budget_whole [OF True, of s good' good] by (auto simp: cut_def)
  next
    case False
    with c s loose have "s + 4 = L \<and> 4 < L \<and> good' \<and> \<not> (good \<and> L = 8 \<and> 8 \<le> M) \<or> s + 8 = L \<and> 8 < L \<and> good'"
      by (auto simp: cut_def)
    then have "budget False good' (L - s) = 1" and "5 \<le> L" and "\<not> (good \<and> L = 8 \<and> 8 \<le> M)"
      using Q4 False by (auto simp: budget_def)
    with budget_two [of L good] loose show ?thesis by simp
  qed
qed

lemma budget_tight: "budget True good L \<le> L div Q + 1"
  using div_up [of "L + Q - 1" L] by (simp add: budget_def)

lemma budget_loose: "budget tight good L \<le> L div Q + 2"
  using div_up [of "L + Q - 1" L] div_up [of "L + Q - 5" L] by (simp add: budget_def)

end

section \<open>The sizes the driver uses\<close>

lemma fls_nat_bounds: "0 < n \<Longrightarrow> 0 < fls_nat n \<and> 2 ^ (fls_nat n - 1) \<le> n \<and> n < 2 ^ fls_nat n"
proof (induction n rule: fls_nat.induct)
  case (1 n)
  show ?case
  proof (cases "n div 2 = 0")
    case True
    then have "n = 1" using 1(2) by auto
    moreover have "fls_nat (Suc 0) = 1" by (simp add: fls_nat.simps [of "Suc 0"] fls_nat.simps [of 0])
    ultimately show ?thesis by simp
  next
    case False
    define k where "k = fls_nat (n div 2)"
    have k: "0 < k" "2 ^ (k - 1) \<le> n div 2" "n div 2 < 2 ^ k" using 1 False by (auto simp: k_def)
    then obtain j where j: "k = Suc j" by (cases k) auto
    have "fls_nat n = Suc k" using 1(2) by (subst fls_nat.simps) (simp add: k_def)
    with k j show ?thesis by auto
  qed
qed

lemma unat_frame_mss: "unat (frame_mss f) = unat (f_gso_size f)" "unat (frame_mss f) < 65536"
proof -
  have "unat (f_gso_size f) < 65536" using unsigned_less [of "f_gso_size f", where 'a = nat] by simp
  then show "unat (frame_mss f) = unat (f_gso_size f)" "unat (frame_mss f) < 65536"
    by (simp_all add: frame_mss_def unsigned_ucast_eq take_bit_nat_eq_self)
qed

lemma unat_max_per_txd:
  "unat (max_per_txd (frame_mss f)) = (if frame_mss f \<noteq> 0 then min (4 * unat (frame_mss f)) 4096 else 4096)"
proof -
  have "unat (push_bit 2 (frame_mss f)) = 4 * unat (frame_mss f)"
    using unat_frame_mss(2) [of f] by (simp add: push_bit_eq_mult unat_word_ariths(2))
  then show ?thesis by (auto simp: max_per_txd_def min_def word_le_nat_alt)
qed

lemma four_dvd_pow: "2 \<le> (k::nat) \<Longrightarrow> (4::nat) dvd 2 ^ k"
  using le_imp_power_dvd [of 2 k "2::nat"] by simp

lemma eight_dvd_pow: "3 \<le> (k::nat) \<Longrightarrow> (8::nat) dvd 2 ^ k"
  using le_imp_power_dvd [of 3 k "2::nat"] by simp

interpretation pieces: piece_sizes "unat (max_per_txd (frame_mss f))" "2 ^ max_txd_pwr (frame_mss f)" for f
proof -
  let ?M = "unat (max_per_txd (frame_mss f))" and ?P = "max_txd_pwr (frame_mss f)"
  have M: "4 \<le> ?M" "4 dvd ?M" by (auto simp: unat_max_per_txd unat_eq_zero min_def) (metis unat_eq_zero Suc_leI neq0_conv)
  have P: "2 \<le> ?P \<and> 2 ^ ?P \<le> ?M"
  proof (cases "frame_mss f = 0")
    case True
    then show ?thesis by (simp add: max_txd_pwr_def max_per_txd_def)
  next
    case False
    have b: "0 < fls_nat ?M" "2 ^ (fls_nat ?M - 1) \<le> ?M" "?M < 2 ^ fls_nat ?M" using fls_nat_bounds [of ?M] M(1) by auto
    have "\<not> fls_nat ?M \<le> 2"
      using b(3) M(1) power_increasing [of "fls_nat ?M" 2 "2::nat"] by auto
    with b False show ?thesis by (simp add: max_txd_pwr_def fls_def)
  qed
  show "piece_sizes ?M (2 ^ ?P)"
  proof
    show "4 \<le> (2::nat) ^ ?P" using P power_increasing [of 2 ?P "2::nat"] by simp
    show "2 ^ ?P \<le> ?M" using P by simp
    show "?M = 2 ^ ?P \<or> 2 ^ ?P + 4 \<le> ?M"
    proof -
      obtain i j where "?M = 4 * i" "(2::nat) ^ ?P = 4 * j" using M(2) four_dvd_pow [of ?P] P by (metis dvdE)
      with P show ?thesis by auto
    qed
    show "?M = 4 \<or> 8 dvd ?M" if "?M = 2 ^ ?P"
    proof (cases "?P = 2")
      case True
      with that show ?thesis by simp
    next
      case False
      with P have "8 dvd (2::nat) ^ ?P" by (intro eight_dvd_pow) simp
      with that show ?thesis by simp
    qed
  qed
qed

section \<open>One piece\<close>

text \<open>
  Both loops cut the same way but for the erratum at the first piece: \<open>sent\<close> says that the
  4-byte sentinel is due on the last piece, \<open>x\<close> is the address of the next byte.
\<close>

definition steady_size :: "e1000_adapter \<Rightarrow> bool \<Rightarrow> u32 \<Rightarrow> u64 \<Rightarrow> u32 \<Rightarrow> u32" where
  "steady_size a sent mx x len = (
     let s0 = min len mx;
         s1 = (if sent \<and> s0 = len \<and> s0 > 8 then s0 - 4 else s0)
     in if bad_alignment a (x + ucast s1 - 1) \<and> s1 > 4 then s1 - 4 else s1)"

definition aligned :: "tx_frame \<Rightarrow> e1000_adapter \<Rightarrow> u64 \<Rightarrow> bool" where
  "aligned f a x \<longleftrightarrow> \<not> ad_pcix_82544 a \<or> unat (max_per_txd (frame_mss f)) = 4 \<or> bit (x - 1) 2"

definition unsplit :: "e1000_adapter \<Rightarrow> bool \<Rightarrow> bool" where
  "unsplit a sent \<longleftrightarrow> \<not> ad_pcix_82544 a \<and> \<not> sent"

lemma unat_min: "unat (min a (b::u32)) = min (unat a) (unat b)"
  by (simp add: min_def word_le_nat_alt)

lemma unat_sub_le: "unat c \<le> unat (a::u32) \<Longrightarrow> unat (a - c) = unat a - unat c"
  by (simp add: unat_sub word_le_nat_alt)

lemma unat_ucast64: "unat (ucast (w::u32) :: u64) = unat w"
  using unsigned_less [of w, where 'a = nat] by (simp add: unsigned_ucast_eq take_bit_nat_eq_self)

lemma ucast_sub4: "4 < (s::u32) \<Longrightarrow> (ucast (s - 4) :: u64) = ucast s - 4"
proof -
  assume "4 < s"
  then have "unat (s - 4) + 4 = unat s" by (simp add: word_less_nat_alt unat_sub_le)
  then have "(ucast (s - 4) :: u64) + 4 = ucast s"
    by (metis of_nat_add of_nat_numeral of_nat_unat)
  then show ?thesis by (simp add: algebra_simps)
qed

lemma steady_cut:
  assumes len: "len \<noteq> 0"
  shows "pieces.cut f (unsplit a sent) (aligned f a x) (unat len)
           (unat (steady_size a sent (max_per_txd (frame_mss f)) x len))
           (aligned f a (x + ucast (steady_size a sent (max_per_txd (frame_mss f)) x len)))"
proof -
  let ?M = "unat (max_per_txd (frame_mss f))" and ?s0 = "min len (max_per_txd (frame_mss f))"
  define s1 where "s1 = (if sent \<and> ?s0 = len \<and> ?s0 > 8 then ?s0 - 4 else ?s0)"
  define e where "e = x + ucast s1 - 1"
  define s where "s = (if bad_alignment a e \<and> s1 > 4 then s1 - 4 else s1)"
  have s: "steady_size a sent (max_per_txd (frame_mss f)) x len = s"
    by (simp add: steady_size_def s_def s1_def e_def Let_def)
  have u0: "unat ?s0 = min (unat len) ?M" by (rule unat_min)
  have u1: "unat s1 = (if sent \<and> unat len \<le> ?M \<and> 8 < unat len then unat len - 4 else min (unat len) ?M)"
    using u0 by (auto simp: s1_def word_less_nat_alt word_le_nat_alt unat_sub_le min_def split: if_splits)
  have us: "unat s = (if bad_alignment a e \<and> 4 < unat s1 then unat s1 - 4 else unat s1)"
    by (auto simp: s_def word_less_nat_alt unat_sub_le)
  have bad: "bad_alignment a e \<longleftrightarrow> ad_pcix_82544 a \<and> \<not> bit e 2"
    by (simp add: bad_alignment_def and4_bit)
  have e': "x + ucast s - 1 = (if bad_alignment a e \<and> 4 < unat s1 then e - 4 else e)"
    using ucast_sub4 [of s1] by (auto simp: s_def e_def word_less_nat_alt)
  have M4: "?M = 4 \<or> 4 < ?M" using pieces.Q4 [of f] pieces.QM [of f] by linarith
  have good': "aligned f a (x + ucast s)" if "4 < unat s1 \<or> unat s1 = ?M"
    using that M4 by (auto simp: aligned_def e' bad bit2_sub4)
  have keep: "bit e 2" if "aligned f a x" "ad_pcix_82544 a" "?M \<noteq> 4" "8 dvd unat s1"
  proof -
    have "e = (x - 1) + ucast s1" by (simp add: e_def)
    moreover have "8 dvd unat (ucast s1 :: u64)" using that by (simp add: unat_ucast64)
    ultimately show ?thesis using that bit2_add8 [of "ucast s1" "x - 1"] by (simp add: aligned_def)
  qed
  note MQ = pieces.MQ [of f] pieces.M8 [of f]
  show ?thesis
  proof (cases "unsplit a sent")
    case True
    then show ?thesis unfolding s pieces.cut_def using bad us u1 by (simp add: unsplit_def)
  next
    case split: False
    show ?thesis
    proof (cases "?M < unat len")
      case True
      then have "unat s1 = ?M" using u1 by simp
      then show ?thesis unfolding s pieces.cut_def using split True us good' keep MQ bad M4 by (auto split: if_splits)
    next
      case False
      note last = this
      show ?thesis
      proof (cases "sent \<and> 8 < unat len")
        case True
        then have "unat s1 = unat len - 4" using u1 last by simp
        moreover from this True have "aligned f a (x + ucast s)" by (intro good' disjI1) linarith
        ultimately show ?thesis unfolding s pieces.cut_def using split us True last by auto
      next
        case False
        then have "unat s1 = unat len" using u1 last by auto
        then show ?thesis unfolding s pieces.cut_def using split us last good' keep bad by auto
      qed
    qed
  qed
qed

end
