(* ===== verification/Dysco_E1000_Map.thy ===== *)
theory Dysco_E1000_Map
  imports Dysco_E1000_Pieces
begin

text \<open>
  The loops of \<open>e1000_tx_map\<close>: each ends, touches only the slots it walks over and uses no more
  of them than its budget. What the loops leave alone is the relation \<open>touched\<close>; a loop that makes
  one piece per turn is the locale \<open>piece_loop\<close>, interpreted on the loop over the linear part and
  on the loop over a piece outside it.
\<close>

section \<open>Slots\<close>

text \<open>The slot \<open>k\<close> steps after slot 0, as a ring of \<open>c\<close> slots counts.\<close>

definition slot :: "u32 \<Rightarrow> nat \<Rightarrow> u32" where
  "slot c k = of_nat (k mod unat c)"

lemma unat_slot: "c \<noteq> 0 \<Longrightarrow> unat (slot c k) = k mod unat c"
proof -
  assume "c \<noteq> 0"
  then have "k mod unat c < unat c" by (simp add: unat_gt_0)
  moreover have "unat c < 2 ^ 32" using unsigned_less [of c, where 'a = nat] by simp
  ultimately show ?thesis by (simp add: slot_def unsigned_of_nat take_bit_nat_eq_self)
qed

lemma slot_unat: "i < c \<Longrightarrow> slot c (unat i) = i"
  by (simp add: slot_def word_less_nat_alt)

lemma ring_next_slot: "c \<noteq> 0 \<Longrightarrow> ring_next c (slot c k) = slot c (Suc k)"
proof -
  assume c: "c \<noteq> 0"
  let ?n = "unat c"
  have n: "0 < ?n" "?n < 2 ^ 32" using c unsigned_less [of c, where 'a = nat] by (simp_all add: unat_gt_0)
  have k: "k mod ?n < ?n" using n by simp
  then have u: "unat (slot c k + 1) = (k mod ?n + 1) mod 2 ^ 32"
    using c by (simp add: unat_word_ariths(1) unat_slot)
  show ?thesis
  proof (cases "k mod ?n + 1 = ?n")
    case True
    then have "slot c k + 1 = c" using u n by (intro word_unat_eq_iff [THEN iffD2]) simp
    moreover have "Suc k mod ?n = 0" using True by (simp add: mod_Suc)
    ultimately show ?thesis by (simp add: ring_next_def slot_def)
  next
    case False
    with k have m: "Suc k mod ?n = k mod ?n + 1" by (simp add: mod_Suc)
    have "slot c k + 1 \<noteq> c" using u n False k by auto
    then show ?thesis using m by (simp add: ring_next_def slot_def)
  qed
qed

section \<open>What the loops leave alone\<close>

fun freed_ids :: "nic_event list \<Rightarrow> nat list" where
  "freed_ids [] = []"
| "freed_ids (Kfree_skb i # es) = i # freed_ids es"
| "freed_ids (e # es) = freed_ids es"

lemma freed_append [simp]: "freed_ids (xs @ ys) = freed_ids xs @ freed_ids ys"
  by (induction xs rule: freed_ids.induct) auto

text \<open>The last slot of a frame, as the buffers name it, is a slot of the ring.\<close>

definition watch_ok :: "e1000_adapter \<Rightarrow> bool" where
  "watch_ok a \<longleftrightarrow> (\<forall>b \<in> set (tr_buffer_info (ad_tx_ring a)).
     unat (tb_next_to_watch b) < length (tr_buffer_info (ad_tx_ring a)))"

lemma unat_ucast16: "unat (ucast (w::u32) :: u16) \<le> unat w"
  by (simp add: unsigned_ucast_eq take_bit_nat_less_eq_self)

text \<open>
  From \<open>a\<close> to \<open>a'\<close> only the buffers of the \<open>k\<close> slots from \<open>p\<close> on have changed, none of them in the
  packet it holds, and nothing was released.
\<close>

definition touched :: "nat \<Rightarrow> nat \<Rightarrow> e1000_adapter \<Rightarrow> e1000_adapter \<Rightarrow> bool" where
  "touched p k a a' \<longleftrightarrow> (
     let R = ad_tx_ring a; R' = ad_tx_ring a' in
     a' = a\<lparr>ad_tx_ring := R\<lparr>tr_buffer_info := tr_buffer_info R', tr_last_tx_tso := tr_last_tx_tso R'\<rparr>,
            ad_dma_next := ad_dma_next a', ad_log := ad_log a'\<rparr> \<and>
     map tb_skb (tr_buffer_info R') = map tb_skb (tr_buffer_info R) \<and>
     (\<forall>j < length (tr_buffer_info R). (\<forall>i < k. j \<noteq> (p + i) mod unat (tr_count R))
        \<longrightarrow> tr_buffer_info R' ! j = tr_buffer_info R ! j) \<and>
     freed_ids (ad_log a') = freed_ids (ad_log a) \<and> (watch_ok a \<longrightarrow> watch_ok a'))"

lemma touched_ring:
  assumes "touched p k a a'"
  shows "tr_count (ad_tx_ring a') = tr_count (ad_tx_ring a)"
    and "tr_desc (ad_tx_ring a') = tr_desc (ad_tx_ring a)"
    and "tr_next_to_use (ad_tx_ring a') = tr_next_to_use (ad_tx_ring a)"
    and "tr_next_to_clean (ad_tx_ring a') = tr_next_to_clean (ad_tx_ring a)"
    and "length (tr_buffer_info (ad_tx_ring a')) = length (tr_buffer_info (ad_tx_ring a))"
    and "ad_pcix_82544 a' = ad_pcix_82544 a" and "ad_hw a' = ad_hw a" and "ad_txd_cmd a' = ad_txd_cmd a"
    and "freed_ids (ad_log a') = freed_ids (ad_log a)"
  using assms unfolding touched_def Let_def
  by - (erule conjE, erule subst [OF sym], simp | metis length_map)+

lemma touched_refl: "touched p 0 a a"
  by (simp add: touched_def)

lemma touched_sub: "touched (p + i) k a b \<Longrightarrow> i + k \<le> m \<Longrightarrow> touched p m a b"
  unfolding touched_def Let_def by (metis add.assoc nat_add_left_cancel_less order_less_le_trans)

lemma touched_mono: "touched p k a b \<Longrightarrow> k \<le> m \<Longrightarrow> touched p m a b"
  using touched_sub [of p 0 k a b m] by simp

lemma touched_join:
  assumes 1: "touched p k a b" and 2: "touched p k b c"
  shows "touched p k a c"
proof -
  note ra = touched_ring [OF 1]
  have same: "tr_buffer_info (ad_tx_ring c) ! j = tr_buffer_info (ad_tx_ring a) ! j"
    if "j < length (tr_buffer_info (ad_tx_ring a))" "\<forall>i < k. j \<noteq> (p + i) mod unat (tr_count (ad_tx_ring a))" for j
    using 1 2 that ra by (simp add: touched_def Let_def)
  have "c = b\<lparr>ad_tx_ring := (ad_tx_ring b)\<lparr>tr_buffer_info := tr_buffer_info (ad_tx_ring c),
            tr_last_tx_tso := tr_last_tx_tso (ad_tx_ring c)\<rparr>,
            ad_dma_next := ad_dma_next c, ad_log := ad_log c\<rparr>"
    and "b = a\<lparr>ad_tx_ring := (ad_tx_ring a)\<lparr>tr_buffer_info := tr_buffer_info (ad_tx_ring b),
            tr_last_tx_tso := tr_last_tx_tso (ad_tx_ring b)\<rparr>,
            ad_dma_next := ad_dma_next b, ad_log := ad_log b\<rparr>"
    using 1 2 by (simp_all add: touched_def Let_def)
  then obtain x y z w where b: "b = a\<lparr>ad_tx_ring := (ad_tx_ring a)\<lparr>tr_buffer_info := x, tr_last_tx_tso := y\<rparr>,
      ad_dma_next := z, ad_log := w\<rparr>"
    and c: "c = b\<lparr>ad_tx_ring := (ad_tx_ring b)\<lparr>tr_buffer_info := tr_buffer_info (ad_tx_ring c),
            tr_last_tx_tso := tr_last_tx_tso (ad_tx_ring c)\<rparr>,
            ad_dma_next := ad_dma_next c, ad_log := ad_log c\<rparr>" by blast
  have "c = a\<lparr>ad_tx_ring := (ad_tx_ring a)\<lparr>tr_buffer_info := tr_buffer_info (ad_tx_ring c),
            tr_last_tx_tso := tr_last_tx_tso (ad_tx_ring c)\<rparr>,
            ad_dma_next := ad_dma_next c, ad_log := ad_log c\<rparr>"
    using c unfolding b by simp
  with 1 2 same show ?thesis by (simp add: touched_def Let_def)
qed

lemma touched_trans: "touched p k a b \<Longrightarrow> touched (p + k) m b c \<Longrightarrow> touched p (k + m) a c"
  by (rule touched_join [OF touched_mono touched_sub]) auto

text \<open>One piece.\<close>

definition buffers_ok :: "e1000_adapter \<Rightarrow> bool" where
  "buffers_ok a \<longleftrightarrow> tr_count (ad_tx_ring a) \<noteq> 0
     \<and> length (tr_buffer_info (ad_tx_ring a)) = unat (tr_count (ad_tx_ring a))"

lemma touched_buffers_ok: "touched p k a a' \<Longrightarrow> buffers_ok a' \<longleftrightarrow> buffers_ok a"
  by (simp add: buffers_ok_def touched_ring)

lemma map_skb_update [simp]:
  "i < length bs \<Longrightarrow> tb_skb b = tb_skb (bs ! i) \<Longrightarrow> map tb_skb (bs[i := b]) = map tb_skb bs"
  by (simp add: map_update) (metis list_update_id nth_map length_map)

lemma watch_ok_set_buf:
  assumes "watch_ok a" and "unat (tb_next_to_watch b) < length (tr_buffer_info (ad_tx_ring a))"
  shows "watch_ok (set_buf i b a)"
  using assms set_update_subset_insert [of "tr_buffer_info (ad_tx_ring a)" "unat i" b]
  by (auto simp: watch_ok_def set_buf_def map_tx_def)

lemma watch_ok_nth:
  "watch_ok a \<Longrightarrow> unat i < length (tr_buffer_info (ad_tx_ring a))
    \<Longrightarrow> unat (tb_next_to_watch (tr_buffer_info (ad_tx_ring a) ! unat i)) < length (tr_buffer_info (ad_tx_ring a))"
  by (simp add: watch_ok_def)

lemma watch_ok_frame [simp]: "watch_ok (a\<lparr>ad_dma_next := d\<rparr>) = watch_ok a" "watch_ok (nic_log e a) = watch_ok a"
  by (simp_all add: watch_ok_def nic_log_def)

lemma map_piece_result:
  assumes ok: "buffers_ok (ml_ad l)" and i: "ml_i l = slot (tr_count (ad_tx_ring (ml_ad l))) p"
  obtains r l' where "map_piece N pg sz l = Some (r, l')" and "touched p 1 (ml_ad l) (ml_ad l')"
    and "tr_last_tx_tso (ad_tx_ring (ml_ad l')) = tr_last_tx_tso (ad_tx_ring (ml_ad l))"
    and "ml_i l' = ml_i l"
    and "r \<Longrightarrow> ml_len l' = ml_len l - sz \<and> ml_offset l' = ml_offset l + sz \<and> ml_count l' = ml_count l + 1"
    and "\<not> r \<Longrightarrow> ml_count l' = ml_count l"
proof -
  let ?a = "ml_ad l" and ?bs = "tr_buffer_info (ad_tx_ring (ml_ad l))"
  let ?n = "unat (tr_count (ad_tx_ring ?a))"
  have n: "length ?bs = ?n" "0 < ?n" using ok by (auto simp: buffers_ok_def unat_gt_0)
  have u: "unat (ml_i l) = p mod ?n" using ok i by (simp add: buffers_ok_def unat_slot)
  then have lt: "unat (ml_i l) < length ?bs" using n by simp
  obtain d e where de: "n_dma N (ad_dma_next ?a) = (d, e)" by (cases "n_dma N (ad_dma_next ?a)")
  let ?a1 = "?a\<lparr>ad_dma_next := Suc (ad_dma_next ?a)\<rparr>"
  let ?b = "(?bs ! unat (ml_i l))\<lparr>tb_length := ucast sz, tb_time_stamp := n_jiffies N, tb_mapped_as_page := pg, tb_dma := d\<rparr>"
  show thesis
  proof (cases e)
    case True
    have w: "watch_ok (set_buf (ml_i l) (?b\<lparr>tb_dma := 0\<rparr>) ?a1)" if "watch_ok ?a"
      using that lt by (intro watch_ok_set_buf) (auto dest: watch_ok_nth)
    have "touched p 1 ?a (set_buf (ml_i l) (?b\<lparr>tb_dma := 0\<rparr>) ?a1)"
      unfolding touched_def Let_def
      by (intro conjI impI w)
         (use lt u n in \<open>auto simp: set_buf_def map_tx_def nth_list_update\<close>)
    then show thesis
      by (intro that [of False "l\<lparr>ml_ad := set_buf (ml_i l) (?b\<lparr>tb_dma := 0\<rparr>) ?a1\<rparr>"])
         (use lt True in \<open>auto simp: map_piece_def get_buf_def de set_buf_def map_tx_def Let_def\<close>)
  next
    case False
    let ?a2 = "nic_log (Dma_map d sz pg) (set_buf (ml_i l) (?b\<lparr>tb_next_to_watch := ucast (ml_i l)\<rparr>) ?a1)"
    have w: "watch_ok ?a2" if "watch_ok ?a"
      using that lt unat_ucast16 [of "ml_i l"] by (simp, intro watch_ok_set_buf) auto
    have "touched p 1 ?a ?a2"
      unfolding touched_def Let_def
      by (intro conjI impI w)
         (use lt u n in \<open>auto simp: nic_log_def set_buf_def map_tx_def nth_list_update\<close>)
    then show thesis
      by (intro that [of True "l\<lparr>ml_ad := ?a2, ml_len := ml_len l - sz, ml_offset := ml_offset l + sz,
            ml_count := ml_count l + 1\<rparr>"])
         (use lt False in \<open>auto simp: map_piece_def get_buf_def de nic_log_def set_buf_def map_tx_def Let_def\<close>)
  qed
qed

section \<open>The loops\<close>

text \<open>
  A run of a loop that was at state \<open>l\<close>, with \<open>k\<close> pieces tried in the slots from \<open>p\<close> on: the result
  \<open>r\<close> says whether all mappings succeeded.
\<close>

definition pieces_done :: "u32 \<Rightarrow> nat \<Rightarrow> map_loop \<Rightarrow> bool \<Rightarrow> map_loop \<Rightarrow> nat \<Rightarrow> bool" where
  "pieces_done c p l r l' k \<longleftrightarrow> touched p k (ml_ad l) (ml_ad l') \<and>
     (if k = 0 then r \<and> l' = l else ml_i l' = slot c (p + k - 1)) \<and>
     (if r then ml_len l' = 0 \<and> ml_count l' = ml_count l + of_nat k
      else ml_count l' = ml_count l + of_nat (k - 1))"

lemma pieces_done_none: "ml_len l = 0 \<Longrightarrow> pieces_done c p l True l 0"
  by (simp add: pieces_done_def touched_refl)

lemma pieces_done_fail:
  "touched p 1 (ml_ad l) (ml_ad l') \<Longrightarrow> ml_i l' = slot c p \<Longrightarrow> ml_count l' = ml_count l
     \<Longrightarrow> pieces_done c p l False l' 1"
  by (simp add: pieces_done_def)

lemma pieces_done_last:
  "touched p 1 (ml_ad l) (ml_ad l') \<Longrightarrow> ml_i l' = slot c p \<Longrightarrow> ml_count l' = ml_count l + 1 \<Longrightarrow> ml_len l' = 0
     \<Longrightarrow> pieces_done c p l True l' 1"
  by (simp add: pieces_done_def)

lemma pieces_done_more:
  assumes t: "touched p 1 (ml_ad l) (ml_ad l1)" and ct: "ml_count l1 = ml_count l + 1"
    and d: "pieces_done c (Suc p) l1 r l' k" and k: "0 < k"
  shows "pieces_done c p l r l' (Suc k)"
proof -
  have "touched (p + 1) k (ml_ad l1) (ml_ad l')" using d by (simp add: pieces_done_def)
  from touched_trans [OF t this] have "touched p (Suc k) (ml_ad l) (ml_ad l')" by simp
  moreover obtain m where "k = Suc m" using k by (cases k) auto
  ultimately show ?thesis using d ct by (auto simp: pieces_done_def add.assoc)
qed

text \<open>
  A loop that makes one piece per turn: \<open>inv p l\<close> holds when the next piece goes to slot \<open>p\<close>, and a
  piece pays one unit of the budget \<open>bud\<close>. Such a loop ends and stays within the budget.
\<close>

locale piece_loop =
  fixes run piece :: "map_loop \<Rightarrow> (bool \<times> map_loop) option"
    and bud :: "map_loop \<Rightarrow> nat" and inv :: "nat \<Rightarrow> map_loop \<Rightarrow> bool" and c :: u32
  assumes run_eq: "run l = (if ml_len l = 0 then Some (True, l)
      else Option.bind (piece l) (\<lambda>r. if fst r then run (snd r) else Some r))"
    and piece_ok: "inv p l \<Longrightarrow> ml_len l \<noteq> 0 \<Longrightarrow> \<exists>r l1. piece l = Some (r, l1)
      \<and> touched p 1 (ml_ad l) (ml_ad l1) \<and> 1 \<le> bud l
      \<and> ml_count l1 = (if r then ml_count l + 1 else ml_count l)
      \<and> (r \<longrightarrow> unat (ml_len l1) < unat (ml_len l))
      \<and> (if r \<and> ml_len l1 \<noteq> 0 then inv (Suc p) l1 \<and> bud l1 + 1 \<le> bud l else ml_i l1 = slot c p)"
begin

lemma run_ends:
  assumes "ml_len l \<noteq> 0 \<Longrightarrow> inv p l"
  shows "\<exists>r l' k. run l = Some (r, l') \<and> pieces_done c p l r l' k
    \<and> (if ml_len l = 0 then k = 0 else 0 < k \<and> k \<le> bud l)"
  using assms
proof (induction "unat (ml_len l)" arbitrary: l p rule: less_induct)
  case less
  show ?case
  proof (cases "ml_len l = 0")
    case True
    then show ?thesis using pieces_done_none [OF True, of c p] by (subst run_eq) auto
  next
    case False
    from piece_ok [OF less.prems [OF False] False] obtain r l1 where p: "piece l = Some (r, l1)"
      and t: "touched p 1 (ml_ad l) (ml_ad l1)" and pos: "1 \<le> bud l"
      and ct: "ml_count l1 = (if r then ml_count l + 1 else ml_count l)"
      and len: "r \<longrightarrow> unat (ml_len l1) < unat (ml_len l)"
      and rest: "if r \<and> ml_len l1 \<noteq> 0 then inv (Suc p) l1 \<and> bud l1 + 1 \<le> bud l else ml_i l1 = slot c p"
      by blast
    have run: "run l = (if r then run l1 else Some (False, l1))"
      using p False by (subst run_eq) simp
    show ?thesis
    proof (cases "r \<and> ml_len l1 \<noteq> 0")
      case True
      with less.hyps [of l1 "Suc p"] len rest obtain r' l' k where "run l1 = Some (r', l')"
        "pieces_done c (Suc p) l1 r' l' k" "0 < k" "k \<le> bud l1" by auto
      then show ?thesis using run True rest False pieces_done_more [OF t _ _ _, of c r' l' k] ct
        by (intro exI [of _ r'] exI [of _ l'] exI [of _ "Suc k"]) auto
    next
      case stop: False
      have "run l1 = Some (True, l1)" if "ml_len l1 = 0" using that by (subst run_eq) simp
      then have "run l = Some (r, l1)" using run stop by auto
      moreover have "pieces_done c p l r l1 1"
      proof (cases r)
        case True
        with stop ct rest show ?thesis using pieces_done_last [OF t, of c] by simp
      next
        case False
        with ct rest show ?thesis using pieces_done_fail [OF t, of c] by simp
      qed
      ultimately show ?thesis using False pos by (intro exI [of _ r] exI [of _ l1] exI [of _ 1]) simp
    qed
  qed
qed

end

text \<open>The address of the next byte after a piece.\<close>

lemma next_address: "unat off + unat len < 2 ^ 32 \<Longrightarrow> unat sz \<le> unat len \<Longrightarrow>
    b + ucast (off + (sz::u32)) = b + ucast off + (ucast sz :: u64)"
proof -
  assume "unat off + unat len < 2 ^ 32" "unat sz \<le> unat len"
  then have "unat (off + sz) = unat off + unat sz" by (simp add: unat_word_ariths(1))
  then have "(ucast (off + sz) :: u64) = ucast off + ucast sz"
    by (metis of_nat_add of_nat_unat)
  then show ?thesis by simp
qed

definition sentinel :: "tx_frame \<Rightarrow> bool" where
  "sentinel f \<longleftrightarrow> frame_mss f \<noteq> 0 \<and> f_frags f = []"

definition linear_budget :: "tx_frame \<Rightarrow> map_loop \<Rightarrow> nat" where
  "linear_budget f l = pieces.budget f (unsplit (ml_ad l) (sentinel f))
     (aligned f (ml_ad l) (f_data f + ucast (ml_offset l))) (unat (ml_len l))"

lemma linear_size_steady:
  "\<not> erratum_tso (ml_ad l) f \<Longrightarrow> hw_bus_type (ad_hw (ml_ad l)) \<noteq> e1000_bus_type_pcix \<or> ml_count l \<noteq> 0 \<Longrightarrow>
   linear_size f mx (frame_mss f) l
     = steady_size (ml_ad l) (sentinel f) mx (f_data f + ucast (ml_offset l)) (ml_len l)"
  by (auto simp: linear_size_def steady_size_def sentinel_def Let_def)

lemma aligned_touched: "touched p k a a' \<Longrightarrow> aligned f a' x = aligned f a x"
  "touched p k a a' \<Longrightarrow> unsplit a' sn = unsplit a sn"
  by (simp_all add: aligned_def unsplit_def touched_ring)

lemma erratum_touched: "touched p k a a' \<Longrightarrow> tr_last_tx_tso (ad_tx_ring a') = tr_last_tx_tso (ad_tx_ring a)
    \<Longrightarrow> erratum_tso a' f = erratum_tso a f"
  by (simp add: erratum_tso_def)

text \<open>The linear part, after its first piece.\<close>

definition linear_inv :: "tx_frame \<Rightarrow> u32 \<Rightarrow> nat \<Rightarrow> map_loop \<Rightarrow> bool" where
  "linear_inv f c p l \<longleftrightarrow> buffers_ok (ml_ad l) \<and> c = tr_count (ad_tx_ring (ml_ad l)) \<and> ml_i l = slot c p
     \<and> \<not> erratum_tso (ml_ad l) f
     \<and> (hw_bus_type (ad_hw (ml_ad l)) \<noteq> e1000_bus_type_pcix \<or> ml_count l \<noteq> 0)
     \<and> unat (ml_count l) + unat (ml_len l) < 2 ^ 32 \<and> unat (ml_offset l) + unat (ml_len l) < 2 ^ 32"

text \<open>What a piece of size \<open>sz\<close> makes of the counters.\<close>

lemma counters_advance:
  assumes "unat (ml_count l) + unat (ml_len l) < 2 ^ 32" and "unat (ml_offset l) + unat (ml_len l) < 2 ^ 32"
    and "0 < unat sz" and "unat sz \<le> unat (ml_len l)"
    and "ml_len l1 = ml_len l - sz \<and> ml_offset l1 = ml_offset l + sz \<and> ml_count l1 = ml_count l + 1"
  shows "unat (ml_len l1) = unat (ml_len l) - unat sz" and "unat (ml_count l1) = unat (ml_count l) + 1"
    and "unat (ml_count l1) + unat (ml_len l1) < 2 ^ 32" and "unat (ml_offset l1) + unat (ml_len l1) < 2 ^ 32"
    and "b + ucast (ml_offset l1) = b + ucast (ml_offset l) + (ucast sz :: u64)"
proof -
  show len: "unat (ml_len l1) = unat (ml_len l) - unat sz" using assms by (simp add: unat_sub_le)
  show ct: "unat (ml_count l1) = unat (ml_count l) + 1" using assms by (simp add: unat_word_ariths(1))
  show "unat (ml_count l1) + unat (ml_len l1) < 2 ^ 32" using len ct assms by auto
  show "unat (ml_offset l1) + unat (ml_len l1) < 2 ^ 32" using len assms by (simp add: unat_word_ariths(1))
  show "b + ucast (ml_offset l1) = b + ucast (ml_offset l) + (ucast sz :: u64)"
    using next_address [of "ml_offset l" "ml_len l" sz b] assms by simp
qed

lemma linear_piece_ok:
  assumes inv: "linear_inv f c p l" and len: "ml_len l \<noteq> 0"
  shows "\<exists>r l1. linear_piece N f (max_per_txd (frame_mss f)) (frame_mss f) l = Some (r, l1)
      \<and> touched p 1 (ml_ad l) (ml_ad l1) \<and> 1 \<le> linear_budget f l
      \<and> ml_count l1 = (if r then ml_count l + 1 else ml_count l)
      \<and> (r \<longrightarrow> unat (ml_len l1) < unat (ml_len l))
      \<and> (if r \<and> ml_len l1 \<noteq> 0 then linear_inv f c (Suc p) l1 \<and> linear_budget f l1 + 1 \<le> linear_budget f l
         else ml_i l1 = slot c p)"
proof -
  let ?mx = "max_per_txd (frame_mss f)" and ?a = "ml_ad l" and ?x = "f_data f + ucast (ml_offset l)"
  define sz where "sz = linear_size f ?mx (frame_mss f) l"
  note i = inv [unfolded linear_inv_def]
  have sz: "sz = steady_size ?a (sentinel f) ?mx ?x (ml_len l)" using i by (simp add: sz_def linear_size_steady)
  note cut = steady_cut [OF len, of f ?a "sentinel f" ?x, folded sz]
  have L: "0 < unat (ml_len l)" using len by (simp add: unat_gt_0)
  note s = pieces.cut_pos [OF L cut]
  obtain r l1 where p1: "map_piece N False sz l = Some (r, l1)" and t: "touched p 1 ?a (ml_ad l1)"
    and last: "tr_last_tx_tso (ad_tx_ring (ml_ad l1)) = tr_last_tx_tso (ad_tx_ring ?a)" and i1: "ml_i l1 = slot c p"
    and ok: "r \<Longrightarrow> ml_len l1 = ml_len l - sz \<and> ml_offset l1 = ml_offset l + sz \<and> ml_count l1 = ml_count l + 1"
    and bad: "\<not> r \<Longrightarrow> ml_count l1 = ml_count l"
    using map_piece_result [of l p N False sz] i by (metis (no_types, lifting))
  define l2 where "l2 = (if r \<and> ml_len l1 \<noteq> 0 then step_i l1 else l1)"
  have piece: "linear_piece N f ?mx (frame_mss f) l = Some (r, l2)"
    using p1 i by (simp add: linear_piece_def sz_def Let_def l2_def)
  have l2: "ml_ad l2 = ml_ad l1" "ml_len l2 = ml_len l1" "ml_offset l2 = ml_offset l1" "ml_count l2 = ml_count l1"
    by (simp_all add: l2_def step_i_def)
  have pos: "1 \<le> linear_budget f l" unfolding linear_budget_def using L by (rule pieces.budget_pos)
  have ct: "ml_count l2 = (if r then ml_count l + 1 else ml_count l)" using ok bad l2 by simp
  show ?thesis
  proof (cases "r \<and> ml_len l1 \<noteq> 0")
    case False
    then have "ml_i l2 = slot c p" using i1 by (auto simp: l2_def)
    moreover have "r \<longrightarrow> unat (ml_len l2) < unat (ml_len l)" using False L l2 by simp
    ultimately show ?thesis using piece t pos ct l2 False by auto
  next
    case True
    note adv = counters_advance [of l sz l1, OF _ _ _ _ ok]
    have len2: "unat (ml_len l2) = unat (ml_len l) - unat sz" using adv(1) i s True l2 by simp
    have "tr_count (ad_tx_ring (ml_ad l1)) = c" "c \<noteq> 0"
      using touched_ring(1) [OF t] i by (simp_all add: buffers_ok_def)
    then have "ml_i l2 = slot c (Suc p)" using i1 True by (simp add: l2_def step_i_def ring_next_slot)
    moreover have "ml_count l2 \<noteq> 0" using adv(2) i s True l2 by (auto simp flip: unat_eq_0)
    ultimately have inv2: "linear_inv f c (Suc p) l2"
      unfolding linear_inv_def l2 touched_buffers_ok [OF t] erratum_touched [OF t last]
      using touched_ring(1) [OF t] adv(3,4) i s True by simp
    have addr: "f_data f + ucast (ml_offset l2) = ?x + ucast sz" using adv(5) i s True l2 by simp
    have "linear_budget f l2 + 1 \<le> linear_budget f l"
      unfolding linear_budget_def addr len2 l2(1) aligned_touched [OF t]
      using pieces.budget_cut [OF L cut] True len2 l2 s by (simp flip: unat_eq_0)
    with inv2 show ?thesis using piece t pos ct l2 True len2 s L by auto
  qed
qed

interpretation linear: piece_loop "map_linear N f (max_per_txd (frame_mss f)) (frame_mss f)"
  "linear_piece N f (max_per_txd (frame_mss f)) (frame_mss f)" "linear_budget f" "linear_inv f c" c for N f c
  by unfold_locales (rule map_linear.simps, rule linear_piece_ok)

text \<open>A piece outside the linear part: the loop moves to the next slot first.\<close>

definition frag_sentinel :: "tx_frame \<Rightarrow> bool \<Rightarrow> bool" where
  "frag_sentinel f last_frag \<longleftrightarrow> frame_mss f \<noteq> 0 \<and> last_frag"

definition frag_budget :: "tx_frame \<Rightarrow> u64 \<Rightarrow> bool \<Rightarrow> map_loop \<Rightarrow> nat" where
  "frag_budget f page last_frag l = pieces.budget f (unsplit (ml_ad l) (frag_sentinel f last_frag))
     (aligned f (ml_ad l) (page + ucast (ml_offset l))) (unat (ml_len l))"

definition frag_inv :: "u32 \<Rightarrow> nat \<Rightarrow> map_loop \<Rightarrow> bool" where
  "frag_inv c p l \<longleftrightarrow> buffers_ok (ml_ad l) \<and> c = tr_count (ad_tx_ring (ml_ad l))
     \<and> (\<exists>q. p = Suc q \<and> ml_i l = slot c q)
     \<and> unat (ml_count l) + unat (ml_len l) < 2 ^ 32 \<and> unat (ml_offset l) + unat (ml_len l) < 2 ^ 32"

lemma frag_size_steady:
  "frag_size page mx (frame_mss f) last_frag l
     = steady_size (ml_ad l) (frag_sentinel f last_frag) mx (page + ucast (ml_offset l)) (ml_len l)"
  by (auto simp: frag_size_def steady_size_def frag_sentinel_def Let_def)

lemma frag_piece_ok:
  assumes inv: "frag_inv c p l" and len: "ml_len l \<noteq> 0"
  shows "\<exists>r l1. frag_piece N page (max_per_txd (frame_mss f)) (frame_mss f) last_frag l = Some (r, l1)
      \<and> touched p 1 (ml_ad l) (ml_ad l1) \<and> 1 \<le> frag_budget f page last_frag l
      \<and> ml_count l1 = (if r then ml_count l + 1 else ml_count l)
      \<and> (r \<longrightarrow> unat (ml_len l1) < unat (ml_len l))
      \<and> (if r \<and> ml_len l1 \<noteq> 0
         then frag_inv c (Suc p) l1 \<and> frag_budget f page last_frag l1 + 1 \<le> frag_budget f page last_frag l
         else ml_i l1 = slot c p)"
proof -
  let ?mx = "max_per_txd (frame_mss f)" and ?a = "ml_ad l" and ?x = "page + ucast (ml_offset l)"
  let ?sn = "frag_sentinel f last_frag"
  define l0 where "l0 = step_i l"
  note i = inv [unfolded frag_inv_def]
  have l0: "ml_ad l0 = ?a" "ml_len l0 = ml_len l" "ml_offset l0 = ml_offset l" "ml_count l0 = ml_count l"
    by (simp_all add: l0_def step_i_def)
  have i0: "ml_i l0 = slot (tr_count (ad_tx_ring (ml_ad l0))) p"
    using i by (auto simp: l0_def step_i_def ring_next_slot buffers_ok_def)
  define sz where "sz = frag_size page ?mx (frame_mss f) last_frag l0"
  have sz: "sz = steady_size ?a ?sn ?mx ?x (ml_len l)" by (simp add: sz_def frag_size_steady l0)
  note cut = steady_cut [OF len, of f ?a ?sn ?x, folded sz]
  have L: "0 < unat (ml_len l)" using len by (simp add: unat_gt_0)
  note s = pieces.cut_pos [OF L cut]
  obtain r l1 where p1: "map_piece N True sz l0 = Some (r, l1)" and t: "touched p 1 ?a (ml_ad l1)"
    and i1: "ml_i l1 = slot c p"
    and ok: "r \<Longrightarrow> ml_len l1 = ml_len l - sz \<and> ml_offset l1 = ml_offset l + sz \<and> ml_count l1 = ml_count l + 1"
    and bad: "\<not> r \<Longrightarrow> ml_count l1 = ml_count l"
    using map_piece_result [of l0 p N True sz] i i0 l0 by (metis (no_types, lifting))
  have piece: "frag_piece N page ?mx (frame_mss f) last_frag l = Some (r, l1)"
    using p1 by (simp add: frag_piece_def sz_def Let_def l0_def)
  have pos: "1 \<le> frag_budget f page last_frag l" unfolding frag_budget_def using L by (rule pieces.budget_pos)
  have ct: "ml_count l1 = (if r then ml_count l + 1 else ml_count l)" using ok bad by simp
  show ?thesis
  proof (cases "r \<and> ml_len l1 \<noteq> 0")
    case False
    then have "r \<longrightarrow> unat (ml_len l1) < unat (ml_len l)" using L by simp
    then show ?thesis using piece t pos ct i1 False by auto
  next
    case True
    note adv = counters_advance [of l sz l1, OF _ _ _ _ ok]
    have len1: "unat (ml_len l1) = unat (ml_len l) - unat sz" using adv(1) i s True by simp
    have inv1: "frag_inv c (Suc p) l1"
      unfolding frag_inv_def touched_buffers_ok [OF t]
      using touched_ring(1) [OF t] adv(3,4) i i1 s True by simp
    have addr: "page + ucast (ml_offset l1) = ?x + ucast sz" using adv(5) i s True by simp
    have "frag_budget f page last_frag l1 + 1 \<le> frag_budget f page last_frag l"
      unfolding frag_budget_def addr len1 aligned_touched [OF t]
      using pieces.budget_cut [OF L cut] True len1 s by (simp flip: unat_eq_0)
    with inv1 show ?thesis using piece t pos ct True len1 s L by auto
  qed
qed

interpretation frag: piece_loop "map_frag N page (max_per_txd (frame_mss f)) (frame_mss f) last_frag"
  "frag_piece N page (max_per_txd (frame_mss f)) (frame_mss f) last_frag" "frag_budget f page last_frag"
  "frag_inv c" c for N f page last_frag c
  by unfold_locales (rule map_frag.simps, rule frag_piece_ok)

end
