(* ===== verification/Dysco_E1000_Reserve.thy ===== *)
theory Dysco_E1000_Reserve
  imports Dysco_E1000_Map
begin

text \<open>
  \<open>e1000_tx_map\<close> as a whole: it ends for every frame, and it uses no more descriptors than
  \<open>e1000_xmit_frame\<close> has reserved.
\<close>

section \<open>The reservation suffices\<close>

text \<open>What is reserved for the linear part of length \<open>L\<close> and for a piece of length \<open>L\<close> outside it.\<close>

definition linear_need :: "tx_frame \<Rightarrow> e1000_adapter \<Rightarrow> nat \<Rightarrow> nat" where
  "linear_need f a L = L div 2 ^ max_txd_pwr (frame_mss f) + 1 + of_bool (erratum_tso a f)
     + of_bool (ad_pcix_82544 a) + of_bool (hw_bus_type (ad_hw a) = e1000_bus_type_pcix \<and> 2015 < L)
     + of_bool (sentinel f)"

definition frag_need :: "tx_frame \<Rightarrow> e1000_adapter \<Rightarrow> bool \<Rightarrow> nat \<Rightarrow> nat" where
  "frag_need f a last_frag L = L div 2 ^ max_txd_pwr (frame_mss f) + 1 + of_bool (ad_pcix_82544 a)
     + of_bool (frag_sentinel f last_frag)"

lemma shortened_aligned:
  assumes s: "4 < (s::u32)" and sz: "sz = (if bad_alignment a (x + ucast s - 1) \<and> s > 4 then s - 4 else s)"
  shows "aligned f a (x + ucast sz)"
proof -
  define e where "e = x + ucast s - 1"
  have "x + ucast (s - 4) - 1 = e - 4" by (simp add: e_def ucast_sub4 [OF s])
  then have "x + ucast sz - 1 = (if bad_alignment a e then e - 4 else e)" using s by (simp add: sz e_def)
  then show ?thesis by (simp add: aligned_def bad_alignment_def and4_bit bit2_sub4)
qed

lemma budget_good:
  "pieces.budget f False True X \<le> (X + 2 ^ max_txd_pwr (frame_mss f) - 5) div 2 ^ max_txd_pwr (frame_mss f) + 1"
  by (simp add: pieces.budget_def)

text \<open>The first piece of the linear part, step by step as the code shortens it.\<close>

definition size0 :: "tx_frame \<Rightarrow> u32 \<Rightarrow> u32" where
  "size0 f len = min len (max_per_txd (frame_mss f))"

definition size1 :: "e1000_adapter \<Rightarrow> tx_frame \<Rightarrow> u32 \<Rightarrow> u32" where
  "size1 a f len = (if erratum_tso a f then size0 f len - 4 else size0 f len)"

definition size2 :: "e1000_adapter \<Rightarrow> tx_frame \<Rightarrow> u32 \<Rightarrow> u32" where
  "size2 a f len = (let s = size1 a f len in if frame_mss f \<noteq> 0 \<and> f_frags f = [] \<and> s = len \<and> s > 8 then s - 4 else s)"

definition size3 :: "e1000_adapter \<Rightarrow> tx_frame \<Rightarrow> u32 \<Rightarrow> u32" where
  "size3 a f len = (let s = size2 a f len in if hw_bus_type (ad_hw a) = e1000_bus_type_pcix \<and> s > 2015 then 2015 else s)"

lemma first_size:
  "ml_count l = 0 \<Longrightarrow> linear_size f (max_per_txd (frame_mss f)) (frame_mss f) l
    = (let s = size3 (ml_ad l) f (ml_len l)
       in if bad_alignment (ml_ad l) (f_data f + ucast (ml_offset l) + ucast s - 1) \<and> s > 4 then s - 4 else s)"
  unfolding linear_size_def size3_def size2_def size1_def size0_def Let_def by simp

lemma no_mss_sizes:
  assumes "erratum_tso a f"
  shows "frame_mss f = 0" and "\<not> sentinel f" and "unat (max_per_txd (frame_mss f)) = 4096"
    and "max_txd_pwr (frame_mss f) = 12"
proof -
  show "frame_mss f = 0" using assms by (simp add: erratum_tso_def skb_is_gso_def frame_mss_def)
  then show "\<not> sentinel f" "unat (max_per_txd (frame_mss f)) = 4096" "max_txd_pwr (frame_mss f) = 12"
    by (simp_all add: sentinel_def max_per_txd_def max_txd_pwr_def)
qed

lemma unat_size0: "unat (size0 f len) = min (unat len) (unat (max_per_txd (frame_mss f)))"
  by (simp add: size0_def unat_min)

lemma unat_size1_le: "(erratum_tso a f \<Longrightarrow> 60 \<le> unat len) \<Longrightarrow> unat (size1 a f len) \<le> unat (size0 f len)"
  using no_mss_sizes(3) [of a f] by (auto simp: size1_def unat_size0 unat_sub_le)

lemma unat_size2_le: "unat (size2 a f len) \<le> unat (size1 a f len)"
  by (auto simp: size2_def Let_def unat_sub_le word_less_nat_alt)

lemma unat_size3:
  assumes er: "erratum_tso a f \<Longrightarrow> 60 \<le> unat len"
    and odd: "erratum_tso a f \<or> hw_bus_type (ad_hw a) = e1000_bus_type_pcix \<and> size2 a f len > 2015"
  shows "8 < unat (size3 a f len)" and "unat (size3 a f len) \<le> unat len"
    and "hw_bus_type (ad_hw a) = e1000_bus_type_pcix \<and> 2015 < unat len \<and> unat (size3 a f len) = 2015
       \<or> erratum_tso a f \<and> unat (size3 a f len) = min (unat len) 4096 - 4"
proof -
  have le: "unat (size2 a f len) \<le> unat len"
    using unat_size2_le [of a f len] unat_size1_le [of a f len, OF er] unat_size0 [of f len] by linarith
  have "hw_bus_type (ad_hw a) = e1000_bus_type_pcix \<and> 2015 < unat len \<and> unat (size3 a f len) = 2015
       \<or> erratum_tso a f \<and> unat (size3 a f len) = min (unat len) 4096 - 4 \<and> 60 \<le> unat len"
  proof (cases "hw_bus_type (ad_hw a) = e1000_bus_type_pcix \<and> size2 a f len > 2015")
    case True
    then have "2015 < unat (size2 a f len)" by (simp add: word_less_nat_alt)
    with True le show ?thesis by (simp add: size3_def Let_def)
  next
    case False
    with odd have e: "erratum_tso a f" by blast
    have "unat (size0 f len) = min (unat len) 4096" by (simp add: unat_size0 no_mss_sizes(3) [OF e])
    moreover have "size3 a f len = size0 f len - 4"
      using False e no_mss_sizes(1) [OF e] by (auto simp: size3_def size2_def size1_def Let_def)
    ultimately show ?thesis using e er by (simp add: unat_sub_le)
  qed
  then show "8 < unat (size3 a f len)" "unat (size3 a f len) \<le> unat len"
    "hw_bus_type (ad_hw a) = e1000_bus_type_pcix \<and> 2015 < unat len \<and> unat (size3 a f len) = 2015
       \<or> erratum_tso a f \<and> unat (size3 a f len) = min (unat len) 4096 - 4"
    by auto
qed

lemma odd_piece_pays:
  assumes er: "erratum_tso a f \<Longrightarrow> 60 \<le> unat len"
    and odd: "erratum_tso a f \<or> hw_bus_type (ad_hw a) = e1000_bus_type_pcix \<and> size2 a f len > 2015"
  shows "pieces.budget f (unsplit a (sentinel f)) True (unat len - s) + 1 \<le> linear_need f a (unat len)"
proof -
  let ?L = "unat len" and ?Q = "(2::nat) ^ max_txd_pwr (frame_mss f)"
  have spare: "1 \<le> of_bool (erratum_tso a f)
      + (of_bool (hw_bus_type (ad_hw a) = e1000_bus_type_pcix \<and> 2015 < unat len) :: nat)"
    using unat_size3(3) [OF er odd] by auto
  show ?thesis
  proof (cases "unsplit a (sentinel f)")
    case True
    have "(?L - s + ?Q - 1) div ?Q \<le> ?L div ?Q + 1" by (rule pieces.div_up) simp
    with True spare show ?thesis by (simp add: pieces.budget_def linear_need_def)
  next
    case False
    then have two: "1 \<le> of_bool (ad_pcix_82544 a) + (of_bool (sentinel f) :: nat)" by (auto simp: unsplit_def)
    have "(?L - s + ?Q - 5) div ?Q \<le> ?L div ?Q + 1" by (rule pieces.div_up) simp
    then have "pieces.budget f False True (?L - s) \<le> ?L div ?Q + 2" using budget_good [of f "?L - s"] by linarith
    with two spare False show ?thesis unfolding linear_need_def by simp
  qed
qed

lemma first_piece_pays:
  assumes len: "ml_len l \<noteq> 0" and ct: "ml_count l = 0" and er: "erratum_tso (ml_ad l) f \<Longrightarrow> 60 \<le> unat (ml_len l)"
    and sz: "sz = linear_size f (max_per_txd (frame_mss f)) (frame_mss f) l"
  shows "0 < unat sz \<and> unat sz \<le> unat (ml_len l)
    \<and> (unat sz < unat (ml_len l) \<longrightarrow>
      pieces.budget f (unsplit (ml_ad l) (sentinel f)) (aligned f (ml_ad l) (f_data f + ucast (ml_offset l) + ucast sz))
        (unat (ml_len l) - unat sz) + 1 \<le> linear_need f (ml_ad l) (unat (ml_len l)))"
proof -
  let ?a = "ml_ad l" and ?len = "ml_len l" and ?x = "f_data f + ucast (ml_offset l)"
  let ?L = "unat (ml_len l)"
  have L: "0 < ?L" using len by (simp add: unat_gt_0)
  show ?thesis
  proof (cases "erratum_tso ?a f \<or> hw_bus_type (ad_hw ?a) = e1000_bus_type_pcix \<and> size2 ?a f ?len > 2015")
    case False
    then have "sz = steady_size ?a (sentinel f) (max_per_txd (frame_mss f)) ?x ?len"
      unfolding sz first_size [OF ct] steady_size_def size3_def size2_def size1_def size0_def sentinel_def Let_def by auto
    from steady_cut [OF len, of f ?a "sentinel f" ?x, folded this]
    have c: "pieces.cut f (unsplit ?a (sentinel f)) (aligned f ?a ?x) ?L (unat sz) (aligned f ?a (?x + ucast sz))" .
    have "pieces.budget f (unsplit ?a (sentinel f)) (aligned f ?a ?x) ?L \<le> linear_need f ?a ?L"
      using pieces.budget_tight [of f "aligned f ?a ?x" ?L] pieces.budget_loose [of f False "aligned f ?a ?x" ?L]
      by (cases "unsplit ?a (sentinel f)") (auto simp: linear_need_def unsplit_def)
    then show ?thesis using pieces.cut_pos [OF L c] pieces.budget_cut [OF L c] by linarith
  next
    case True
    note u3 = unat_size3 [OF er True]
    have sz3: "sz = (if bad_alignment ?a (?x + ucast (size3 ?a f ?len) - 1) \<and> size3 ?a f ?len > 4
        then size3 ?a f ?len - 4 else size3 ?a f ?len)"
      unfolding sz first_size [OF ct] Let_def ..
    have good: "aligned f ?a (?x + ucast sz)"
      by (rule shortened_aligned [OF _ sz3]) (use u3(1) in \<open>simp add: word_less_nat_alt\<close>)
    have "0 < unat sz \<and> unat sz \<le> unat (size3 ?a f ?len)"
      unfolding sz3 using u3(1) by (simp add: unat_sub_le)
    then show ?thesis using odd_piece_pays [OF er True, of "unat sz"] u3(2) by (simp add: good)
  qed
qed

section \<open>The linear part\<close>

lemma linear_need_le: "linear_need f a L \<le> L + 5"
proof -
  define d where "d = L div 2 ^ max_txd_pwr (frame_mss f)"
  have "d \<le> L" by (simp add: d_def)
  then show ?thesis unfolding linear_need_def d_def [symmetric] by auto
qed

lemma frag_need_le: "frag_need f a lf L \<le> L + 3"
proof -
  define d where "d = L div 2 ^ max_txd_pwr (frame_mss f)"
  have "d \<le> L" by (simp add: d_def)
  then show ?thesis unfolding frag_need_def d_def [symmetric] by auto
qed

lemma touched_cleared: "touched p 0 a (map_tx (\<lambda>R. R\<lparr>tr_last_tx_tso := False\<rparr>) a)"
  by (simp add: touched_def map_tx_def watch_ok_def)

text \<open>The loop over the linear part from its start, slot \<open>p\<close>.\<close>

lemma linear_run:
  assumes l: "l = \<lparr>ml_ad = a, ml_i = slot c p, ml_len = len, ml_offset = 0, ml_count = 0\<rparr>"
    and a: "buffers_ok a" and c: "c = tr_count (ad_tx_ring a)"
    and er: "erratum_tso a f \<Longrightarrow> 60 \<le> unat len" and len: "len \<noteq> 0" "unat len < 2 ^ 31"
  shows "\<exists>r l' k. map_linear N f (max_per_txd (frame_mss f)) (frame_mss f) l = Some (r, l')
     \<and> pieces_done c p l r l' k \<and> 0 < k \<and> k \<le> linear_need f a (unat len)"
proof -
  let ?run = "map_linear N f (max_per_txd (frame_mss f)) (frame_mss f)"
  define sz where "sz = linear_size f (max_per_txd (frame_mss f)) (frame_mss f) l"
  define a0 where "a0 = (if erratum_tso a f then map_tx (\<lambda>R. R\<lparr>tr_last_tx_tso := False\<rparr>) a else a)"
  have pay: "0 < unat sz \<and> unat sz \<le> unat len \<and> (unat sz < unat len \<longrightarrow>
      pieces.budget f (unsplit a (sentinel f)) (aligned f a (f_data f + ucast sz)) (unat len - unat sz) + 1
        \<le> linear_need f a (unat len))"
    using first_piece_pays [of l f sz] er len by (simp add: l sz_def)
  have t0: "touched p 0 a a0" by (simp add: a0_def touched_refl touched_cleared)
  have a0: "buffers_ok a0" "tr_count (ad_tx_ring a0) = c" "\<not> erratum_tso a0 f"
    using a c by (simp_all add: touched_buffers_ok [OF t0] touched_ring(1) [OF t0]) (auto simp: a0_def erratum_tso_def map_tx_def)
  obtain r l1 where p1: "map_piece N False sz (l\<lparr>ml_ad := a0\<rparr>) = Some (r, l1)" and t1: "touched p 1 a0 (ml_ad l1)"
    and last: "tr_last_tx_tso (ad_tx_ring (ml_ad l1)) = tr_last_tx_tso (ad_tx_ring a0)" and i1: "ml_i l1 = slot c p"
    and ok: "r \<Longrightarrow> ml_len l1 = len - sz \<and> ml_offset l1 = sz \<and> ml_count l1 = 1"
    and bad: "\<not> r \<Longrightarrow> ml_count l1 = 0"
    using map_piece_result [of "l\<lparr>ml_ad := a0\<rparr>" p N False sz] a0 c by (simp add: l) (metis (no_types, lifting) add_0)
  have t: "touched p 1 (ml_ad l) (ml_ad l1)" using touched_trans [OF t0, of 1] t1 by (simp add: l)
  define l2 where "l2 = (if r \<and> ml_len l1 \<noteq> 0 then step_i l1 else l1)"
  have l2: "ml_ad l2 = ml_ad l1" "ml_len l2 = ml_len l1" "ml_offset l2 = ml_offset l1" "ml_count l2 = ml_count l1"
    by (simp_all add: l2_def step_i_def)
  have "linear_piece N f (max_per_txd (frame_mss f)) (frame_mss f) l = Some (r, l2)"
    unfolding linear_piece_def sz_def [symmetric] Let_def using p1 by (simp add: l a0_def l2_def cong: if_cong)
  then have run: "?run l = (if r then ?run l2 else Some (False, l2))"
    using len by (subst map_linear.simps) (simp add: l)
  show ?thesis
  proof (cases "r \<and> ml_len l1 \<noteq> 0")
    case stop: False
    have need: "1 \<le> linear_need f a (unat len)" by (simp add: linear_need_def)
    show ?thesis
    proof (cases r)
      case True
      with stop have z: "ml_len l1 = 0" by simp
      then have "?run l2 = Some (True, l2)" using l2 by (subst map_linear.simps) simp
      moreover have "pieces_done c p l True l2 1"
        using pieces_done_last [OF t i1 _ z] ok True stop by (simp add: l l2_def)
      ultimately show ?thesis using run True need by (intro exI [of _ True] exI [of _ l2] exI [of _ 1]) simp
    next
      case False
      then have "pieces_done c p l False l2 1" using pieces_done_fail [OF t i1] bad by (simp add: l l2_def)
      then show ?thesis using run False need by (intro exI [of _ False] exI [of _ l2] exI [of _ 1]) simp
    qed
  next
    case True
    have len1: "unat (ml_len l1) = unat len - unat sz" using ok True pay by (simp add: unat_sub_le)
    then have lt: "unat sz < unat len" using True by (simp flip: unat_gt_0)
    have "tr_count (ad_tx_ring (ml_ad l1)) = c" using a0 touched_ring(1) [OF t1] by simp
    then have i2: "ml_i l2 = slot c (Suc p)"
      using i1 True a c by (simp add: l2_def step_i_def ring_next_slot buffers_ok_def)
    have e1: "\<not> erratum_tso (ml_ad l1) f" using erratum_touched [OF t1 last] a0 by simp
    have "unat sz + unat (ml_len l1) < 2 ^ 32" using len1 lt len by simp
    then have inv: "linear_inv f c (Suc p) l2"
      unfolding linear_inv_def l2 touched_buffers_ok [OF t1]
      using i2 e1 a0 touched_ring(1) [OF t1] ok True len1 len by simp
    have "ml_ad l = a" by (simp add: l)
    then have bud: "linear_budget f l2 + 1 \<le> linear_need f a (unat len)"
      unfolding linear_budget_def l2 len1 aligned_touched [OF t] using pay lt ok True by simp
    obtain r' l' k where "?run l2 = Some (r', l')" "pieces_done c (Suc p) l2 r' l' k" "0 < k" "k \<le> linear_budget f l2"
      using linear.run_ends [of l2 f c "Suc p" N] inv True l2 by auto
    then show ?thesis
      using run True bud pieces_done_more [of p l l2 c r' l' k] t l2 ok
      by (intro exI [of _ r'] exI [of _ l'] exI [of _ "Suc k"]) (simp add: l)
  qed
qed

section \<open>The pieces outside the linear part\<close>

fun frags_need :: "tx_frame \<Rightarrow> e1000_adapter \<Rightarrow> (u64 \<times> u32) list \<Rightarrow> nat" where
  "frags_need f a [] = 0"
| "frags_need f a ((page, sz) # fs) = frag_need f a (fs = []) (unat sz) + frags_need f a fs"

lemma frag_need_touched: "touched p k a a' \<Longrightarrow> frag_need f a' lf L = frag_need f a lf L"
  by (simp add: frag_need_def touched_ring)

lemma frags_need_touched: "touched p k a a' \<Longrightarrow> frags_need f a' fs = frags_need f a fs"
  by (induction fs) (auto simp: frag_need_touched)

lemma frag_budget_le: "frag_budget f page lf l \<le> frag_need f (ml_ad l) lf (unat (ml_len l))"
  using pieces.budget_tight [of f _ "unat (ml_len l)"] pieces.budget_loose [of f False _ "unat (ml_len l)"]
  unfolding frag_budget_def frag_need_def
  by (cases "unsplit (ml_ad l) (frag_sentinel f lf)") (auto simp: unsplit_def le_SucI)

text \<open>
  What a whole run over pieces leaves: slot \<open>p\<close> is the next one to be used, \<open>k\<close> slots were.
\<close>

definition ran :: "u32 \<Rightarrow> nat \<Rightarrow> map_loop \<Rightarrow> bool \<Rightarrow> map_loop \<Rightarrow> nat \<Rightarrow> bool" where
  "ran c p l r l' k \<longleftrightarrow> touched p k (ml_ad l) (ml_ad l') \<and> ml_i l' = slot c (p + k - 1) \<and>
     (if r then ml_count l' = ml_count l + of_nat k else 0 < k \<and> ml_count l' = ml_count l + of_nat (k - 1))"

lemma ran_trans:
  assumes 1: "ran c p l True l1 k" and 2: "ran c (p + k) l1 r l2 m"
  shows "ran c p l r l2 (k + m)"
proof -
  have "of_nat k + of_nat (m - 1) = (of_nat (k + m - 1) :: u32)" if "0 < m"
    using that by (cases m) simp_all
  then show ?thesis using 1 2 touched_trans [of p k "ml_ad l" "ml_ad l1" m "ml_ad l2"]
    by (auto simp: ran_def add.assoc)
qed

lemma frags_run:
  assumes "buffers_ok (ml_ad l)" and "c = tr_count (ad_tx_ring (ml_ad l))" and "ml_i l = slot c q"
    and "unat (ml_count l) + sum_list (map (\<lambda>s. unat (snd s) + 3) fs) < 2 ^ 32"
  shows "\<exists>r l' k. map_frags N (max_per_txd (frame_mss f)) (frame_mss f) fs l = Some (r, l')
     \<and> ran c (Suc q) l r l' k \<and> k \<le> frags_need f (ml_ad l) fs"
  using assms
proof (induction fs arbitrary: l q)
  case Nil
  then show ?case by (intro exI [of _ True] exI [of _ l] exI [of _ 0]) (simp add: ran_def touched_refl)
next
  case (Cons s fs)
  obtain page sz where s: "s = (page, sz)" by (cases s)
  let ?mx = "max_per_txd (frame_mss f)" and ?l0 = "l\<lparr>ml_len := sz, ml_offset := 0\<rparr>"
  have inv: "frag_inv c (Suc q) ?l0" using Cons.prems by (auto simp: frag_inv_def s)
  obtain r l1 k where run: "map_frag N page ?mx (frame_mss f) (fs = []) ?l0 = Some (r, l1)"
    and d: "pieces_done c (Suc q) ?l0 r l1 k"
    and k: "if sz = 0 then k = 0 else 0 < k \<and> k \<le> frag_budget f page (fs = []) ?l0"
    using frag.run_ends [of ?l0 c "Suc q" N page f "fs = []"] inv by auto
  have kn: "k \<le> frag_need f (ml_ad l) (fs = []) (unat sz)"
    using k frag_budget_le [of f page "fs = []" ?l0] by (auto split: if_splits)
  have ran1: "ran c (Suc q) l r l1 k"
    using d Cons.prems(3) by (auto simp: pieces_done_def ran_def touched_refl split: if_splits)
  show ?case
  proof (cases r)
    case False
    then show ?thesis using run ran1 kn
      by (intro exI [of _ False] exI [of _ l1] exI [of _ k]) (simp add: s)
  next
    case True
    have t: "touched (Suc q) k (ml_ad l) (ml_ad l1)" using ran1 by (simp add: ran_def)
    have "k \<le> unat sz + 3" using kn frag_need_le [of f "ml_ad l" "fs = []" "unat sz"] by linarith
    moreover from this have "unat (of_nat k :: u32) = k"
      using Cons.prems(4) by (simp add: s unsigned_of_nat take_bit_nat_eq_self)
    ultimately have ct: "unat (ml_count l1) + sum_list (map (\<lambda>s. unat (snd s) + 3) fs) < 2 ^ 32"
      using ran1 True Cons.prems(4) by (simp add: ran_def s unat_word_ariths(1))
    have "ml_i l1 = slot c (q + k)" using ran1 by (simp add: ran_def)
    from Cons.IH [of l1 "q + k", OF _ _ this ct] touched_buffers_ok [OF t] touched_ring(1) [OF t] Cons.prems
    obtain r' l' k' where rest: "map_frags N ?mx (frame_mss f) fs l1 = Some (r', l')"
      "ran c (Suc q + k) l1 r' l' k'" "k' \<le> frags_need f (ml_ad l1) fs" by auto
    have "ran c (Suc q) l r' l' (k + k')" using ran_trans [OF _ rest(2)] ran1 True by simp
    then show ?thesis using run rest True kn frags_need_touched [OF t]
      by (intro exI [of _ r'] exI [of _ l'] exI [of _ "k + k'"]) (simp add: s)
  qed
qed

section \<open>The way back after a failed mapping\<close>

lemma slot_before:
  assumes "c \<noteq> 0"
  shows "(if slot c (Suc p) = 0 then slot c (Suc p) + c else slot c (Suc p)) - 1 = slot c p"
proof -
  have "ring_next c (slot c p) = slot c (Suc p)" using assms by (rule ring_next_slot)
  moreover have "slot c p + 1 \<noteq> 0"
  proof -
    have "p mod unat c < unat c" using assms by (simp add: unat_gt_0)
    moreover have "unat c < 2 ^ 32" using unsigned_less [of c, where 'a = nat] by simp
    ultimately have "unat (slot c p + 1) = p mod unat c + 1"
      using assms by (simp add: unat_word_ariths(1) unat_slot)
    then show ?thesis by (metis add_is_0 unat_0 zero_neq_one)
  qed
  ultimately show ?thesis
    by (auto simp: ring_next_def diff_eq_eq split: if_splits)
qed

text \<open>Releasing the buffer of a slot that holds no packet.\<close>

lemma unmap_free_slot:
  assumes a: "buffers_ok a" and c: "c = tr_count (ad_tx_ring a)"
    and none: "tb_skb (tr_buffer_info (ad_tx_ring a) ! (p mod unat c)) = None"
  shows "\<exists>a'. e1000_unmap_and_free_tx_resource (slot c p) a = Some a' \<and> touched p 1 a a'"
proof -
  let ?bs = "tr_buffer_info (ad_tx_ring a)"
  have n: "unat (slot c p) = p mod unat c" "length ?bs = unat c" "p mod unat c < length ?bs"
    using a c by (simp_all add: buffers_ok_def unat_slot unat_gt_0)
  define b where "b = (?bs ! (p mod unat c))\<lparr>tb_dma := 0, tb_skb := None, tb_time_stamp := 0\<rparr>"
  have b: "tb_skb b = tb_skb (?bs ! (p mod unat c))" "tb_next_to_watch b = tb_next_to_watch (?bs ! (p mod unat c))"
    by (simp_all add: b_def none)
  have "\<exists>a1. e1000_unmap_and_free_tx_resource (slot c p) a = Some (set_buf (slot c p) b a1)
      \<and> (a1 = a \<or> (\<exists>x y z. a1 = nic_log (Dma_unmap x y z) a))"
    using n by (auto simp: e1000_unmap_and_free_tx_resource_def get_buf_def Let_def none b_def)
  then obtain a1 where e: "e1000_unmap_and_free_tx_resource (slot c p) a = Some (set_buf (slot c p) b a1)"
    and a1: "a1 = a \<or> (\<exists>x y z. a1 = nic_log (Dma_unmap x y z) a)" by blast
  have w: "watch_ok (set_buf (slot c p) b a1)" if "watch_ok a"
  proof (rule watch_ok_set_buf)
    show "watch_ok a1" using a1 that by auto
    show "unat (tb_next_to_watch b) < length (tr_buffer_info (ad_tx_ring a1))"
      using a1 b n that watch_ok_nth [of a "slot c p"] by (auto simp: nic_log_def)
  qed
  have "touched p 1 a (set_buf (slot c p) b a1)"
    unfolding touched_def Let_def
    by (intro conjI impI w) (use a1 b n c in \<open>auto simp: nic_log_def set_buf_def map_tx_def nth_list_update\<close>)
  with e show ?thesis by blast
qed

lemma touched_skb:
  assumes "touched p k a a'" and "j < length (tr_buffer_info (ad_tx_ring a))"
  shows "tb_skb (tr_buffer_info (ad_tx_ring a') ! j) = tb_skb (tr_buffer_info (ad_tx_ring a) ! j)"
proof -
  have "map tb_skb (tr_buffer_info (ad_tx_ring a')) ! j = map tb_skb (tr_buffer_info (ad_tx_ring a)) ! j"
    using assms(1) by (simp add: touched_def Let_def)
  then show ?thesis using assms touched_ring(5) [OF assms(1)] by simp
qed

lemma unwind_ends:
  assumes "buffers_ok a" and "c = tr_count (ad_tx_ring a)"
    and "\<forall>i < n. tb_skb (tr_buffer_info (ad_tx_ring a) ! ((p + i) mod unat c)) = None"
  shows "\<exists>a'. unwind_map n (slot c (p + n)) a = Some a' \<and> touched p n a a'"
  using assms
proof (induction n arbitrary: a)
  case 0
  then show ?case by (simp add: touched_refl)
next
  case (Suc n)
  have c0: "c \<noteq> 0" using Suc.prems by (simp add: buffers_ok_def)
  obtain a1 where free: "e1000_unmap_and_free_tx_resource (slot c (p + n)) a = Some a1"
    and t: "touched (p + n) 1 a a1"
    using unmap_free_slot [OF Suc.prems(1,2), of "p + n"] Suc.prems(3) by auto
  have "(p + i) mod unat c < length (tr_buffer_info (ad_tx_ring a))" for i
    using Suc.prems(1,2) c0 by (simp add: buffers_ok_def unat_gt_0)
  then obtain a2 where rest: "unwind_map n (slot c (p + n)) a1 = Some a2" "touched p n a1 a2"
    using Suc.IH [of a1] Suc.prems touched_buffers_ok [OF t] touched_ring(1) [OF t] touched_skb [OF t] by auto
  have j: "(if slot c (p + Suc n) = 0 then slot c (p + Suc n) + tr_count (ad_tx_ring a) else slot c (p + Suc n)) - 1
      = slot c (p + n)"
    using slot_before [OF c0, of "p + n"] unfolding add_Suc_right Suc.prems(2) [symmetric] .
  have "unwind_map (Suc n) (slot c (p + Suc n)) a = Some a2"
    unfolding unwind_map.simps Let_def j using free rest by simp
  moreover have "touched p (Suc n) a a2"
    by (rule touched_join [OF touched_sub [OF t] touched_mono [OF rest(2)]]) auto
  ultimately show ?case by blast
qed

section \<open>The whole frame\<close>

text \<open>
  A well-formed frame: it has a linear part, its length is that of the parts, of which there are at
  most \<^verbatim>\<open>MAX_SKB_FRAGS\<close>.
\<close>

definition frame_ok :: "tx_frame \<Rightarrow> bool" where
  "frame_ok f \<longleftrightarrow> length (f_frags f) \<le> 17
     \<and> unat (f_data_len f) = sum_list (map (\<lambda>s. unat (snd s)) (f_frags f))
     \<and> unat (f_data_len f) < unat (skb_len (f_skb f)) \<and> unat (skb_len (f_skb f)) < 2 ^ 30
     \<and> 60 \<le> unat (skb_len (f_skb f))"

lemma frame_ok_headlen:
  assumes "frame_ok f"
  shows "unat (skb_headlen f) + sum_list (map (\<lambda>s. unat (snd s)) (f_frags f)) = unat (skb_len (f_skb f))"
    and "skb_headlen f \<noteq> 0" and "erratum_tso a f \<Longrightarrow> 60 \<le> unat (skb_headlen f)"
proof -
  have u: "unat (skb_headlen f) = unat (skb_len (f_skb f)) - unat (f_data_len f)"
    unfolding skb_headlen_def using assms by (intro unat_sub_le) (simp add: frame_ok_def)
  show "unat (skb_headlen f) + sum_list (map (\<lambda>s. unat (snd s)) (f_frags f)) = unat (skb_len (f_skb f))"
    using u assms by (simp add: frame_ok_def)
  show "skb_headlen f \<noteq> 0" using u assms by (auto simp: frame_ok_def)
  show "60 \<le> unat (skb_headlen f)" if "erratum_tso a f"
    using u assms that by (simp add: frame_ok_def erratum_tso_def)
qed

definition map_need :: "tx_frame \<Rightarrow> e1000_adapter \<Rightarrow> nat" where
  "map_need f a = linear_need f a (unat (skb_headlen f)) + frags_need f a (f_frags f)"

lemma sum_list_add3: "sum_list (map (\<lambda>s. unat (snd s) + 3) fs)
    = sum_list (map (\<lambda>s. unat (snd s)) fs) + 3 * length (fs :: (u64 \<times> u32) list)"
  by (induction fs) auto

lemma frags_need_le: "frags_need f a fs \<le> sum_list (map (\<lambda>s. unat (snd s) + 3) fs)"
proof (induction fs)
  case (Cons s fs)
  obtain page sz where "s = (page, sz)" by (cases s)
  with Cons show ?case using frag_need_le [of f a "fs = []" "unat sz"] by simp
qed simp

lemma map_need_le: "frame_ok f \<Longrightarrow> map_need f a < 2 ^ 32"
  using linear_need_le [of f a "unat (skb_headlen f)"] frags_need_le [of f a "f_frags f"]
    frame_ok_headlen(1) [of f]
  by (simp add: map_need_def sum_list_add3 frame_ok_def)

lemma unat_of_nat_small: "m < 2 ^ 32 \<Longrightarrow> unat (of_nat m :: u32) = m"
  by (simp add: unsigned_of_nat take_bit_nat_eq_self)

text \<open>Both loops together.\<close>

lemma map_loops:
  assumes f: "frame_ok f" and a: "buffers_ok a" "c = tr_count (ad_tx_ring a)" "tr_next_to_use (ad_tx_ring a) = slot c p"
  shows "\<exists>ok1 l1 ok l k.
       map_linear N f (max_per_txd (frame_mss f)) (frame_mss f)
         \<lparr>ml_ad = a, ml_i = tr_next_to_use (ad_tx_ring a), ml_len = skb_headlen f, ml_offset = 0, ml_count = 0\<rparr>
         = Some (ok1, l1)
     \<and> (if ok1 then map_frags N (max_per_txd (frame_mss f)) (frame_mss f) (f_frags f) l1 else Some (False, l1))
         = Some (ok, l)
     \<and> touched p k a (ml_ad l) \<and> ml_i l = slot c (p + k - 1) \<and> 0 < k \<and> k \<le> map_need f a
     \<and> ml_count l = of_nat (if ok then k else k - 1)"
proof -
  let ?l = "\<lparr>ml_ad = a, ml_i = tr_next_to_use (ad_tx_ring a), ml_len = skb_headlen f, ml_offset = 0, ml_count = 0\<rparr>"
  note h = frame_ok_headlen [OF f]
  have "unat (skb_headlen f) < 2 ^ 31" using h(1) f by (auto simp: frame_ok_def)
  then obtain ok1 l1 k where lin: "map_linear N f (max_per_txd (frame_mss f)) (frame_mss f) ?l = Some (ok1, l1)"
    and d: "pieces_done c p ?l ok1 l1 k" and k: "0 < k" "k \<le> linear_need f a (unat (skb_headlen f))"
    using linear_run [of ?l a c p "skb_headlen f" f N] a h(2,3) by auto
  have ran1: "ran c p ?l ok1 l1 k" using d k by (auto simp: pieces_done_def ran_def)
  show ?thesis
  proof (cases ok1)
    case False
    then show ?thesis using lin ran1 k
      by (intro exI [of _ ok1] exI [of _ l1] exI [of _ False] exI [of _ k]) (simp add: ran_def map_need_def)
  next
    case True
    have t: "touched p k a (ml_ad l1)" using ran1 by (simp add: ran_def)
    have k5: "k \<le> unat (skb_headlen f) + 5"
      using k linear_need_le [of f a "unat (skb_headlen f)"] by linarith
    moreover have "unat (of_nat k :: u32) = k"
      using k5 h(1) f by (simp add: frame_ok_def unsigned_of_nat take_bit_nat_eq_self)
    ultimately have ct: "unat (ml_count l1) + sum_list (map (\<lambda>s. unat (snd s) + 3) (f_frags f)) < 2 ^ 32"
      using ran1 True h(1) f by (simp add: ran_def sum_list_add3 frame_ok_def)
    have i1: "ml_i l1 = slot c (p + k - 1)" using ran1 by (simp add: ran_def)
    obtain ok l k' where fr: "map_frags N (max_per_txd (frame_mss f)) (frame_mss f) (f_frags f) l1 = Some (ok, l)"
      and r: "ran c (Suc (p + k - 1)) l1 ok l k'" and k': "k' \<le> frags_need f (ml_ad l1) (f_frags f)"
      using frags_run [OF _ _ i1 ct, of N f] touched_buffers_ok [OF t] touched_ring(1) [OF t] a by auto
    have "ran c p ?l ok l (k + k')" using ran_trans [of c p ?l l1 k ok l k'] ran1 r True k by simp
    then show ?thesis using lin fr True k k' frags_need_touched [OF t]
      by (intro exI [of _ ok1] exI [of _ l1] exI [of _ ok] exI [of _ l] exI [of _ "k + k'"])
         (simp add: ran_def map_need_def)
  qed
qed

text \<open>
  The result of \<open>e1000_tx_map\<close>: either the frame is recorded over the \<open>k\<close> slots from \<open>p\<close> on, or a
  mapping has failed and the slots are as free as before.
\<close>

lemma record_frame_ends:
  assumes "unat i < length (tr_buffer_info (ad_tx_ring a))" and "unat first < length (tr_buffer_info (ad_tx_ring a))"
  shows "\<exists>a'. record_frame f first i a = Some a'"
  using assms by (simp add: record_frame_def get_buf_def set_buf_def map_tx_def Let_def)

lemma tx_map_cases:
  assumes f: "frame_ok f" and a: "buffers_ok a" "c = tr_count (ad_tx_ring a)" "tr_next_to_use (ad_tx_ring a) = slot c p"
    and first: "unat first < unat c"
    and free: "\<forall>i < map_need f a. tb_skb (tr_buffer_info (ad_tx_ring a) ! ((p + i) mod unat c)) = None"
  obtains k a1 a2 where "0 < k" and "k \<le> map_need f a" and "touched p k a a1"
      and "record_frame f first (slot c (p + k - 1)) a1 = Some a2"
      and "e1000_tx_map N f first (max_per_txd (frame_mss f)) (frame_mss f) a = Some (of_nat k, a2)"
  | k a1 where "0 < k" and "k \<le> map_need f a" and "touched p k a a1"
      and "e1000_tx_map N f first (max_per_txd (frame_mss f)) (frame_mss f) a = Some (0, a1)"
proof -
  from map_loops [OF f a, of N] obtain ok1 l1 ok l k where
    lin: "map_linear N f (max_per_txd (frame_mss f)) (frame_mss f)
         \<lparr>ml_ad = a, ml_i = tr_next_to_use (ad_tx_ring a), ml_len = skb_headlen f, ml_offset = 0, ml_count = 0\<rparr>
         = Some (ok1, l1)"
    and fr: "(if ok1 then map_frags N (max_per_txd (frame_mss f)) (frame_mss f) (f_frags f) l1 else Some (False, l1))
         = Some (ok, l)"
    and t: "touched p k a (ml_ad l)" and i: "ml_i l = slot c (p + k - 1)" and k: "0 < k" "k \<le> map_need f a"
    and ct: "ml_count l = of_nat (if ok then k else k - 1)" by blast
  have c0: "c \<noteq> 0" and bs: "length (tr_buffer_info (ad_tx_ring (ml_ad l))) = unat c"
    using a touched_ring(5) [OF t] by (simp_all add: buffers_ok_def)
  show thesis
  proof (cases ok)
    case True
    have "unat (slot c (p + k - 1)) < unat c" using c0 by (simp add: unat_slot unat_gt_0)
    then obtain a2 where "record_frame f first (slot c (p + k - 1)) (ml_ad l) = Some a2"
      using record_frame_ends [of "slot c (p + k - 1)" "ml_ad l" first f] first bs by auto
    then show thesis using that(1) [OF k t] lin fr i ct True by (simp add: e1000_tx_map_def)
  next
    case False
    have "unat (of_nat (k - 1) :: u32) = k - 1"
      by (rule unat_of_nat_small) (use k map_need_le [OF f, of a] in linarith)
    then have u: "unat (ml_count l) - 1 = k - 2" using ct False by simp
    have lt: "(p + j) mod unat c < length (tr_buffer_info (ad_tx_ring a))" for j
      using a c0 by (simp add: buffers_ok_def unat_gt_0)
    show thesis
    proof (cases "k = 1")
      case True
      then have "unwind_map (k - 2) (ml_i l) (ml_ad l) = Some (ml_ad l)" by simp
      then show thesis using that(2) [OF k t] lin fr False u by (simp add: e1000_tx_map_def)
    next
      case False
      have "tb_skb (tr_buffer_info (ad_tx_ring (ml_ad l)) ! ((p + 1 + i) mod unat c)) = None" if "i < k - 2" for i
        using free [rule_format, of "Suc i"] touched_skb [OF t lt, of "Suc i"] k that by simp
      then have "\<forall>i < k - 2. tb_skb (tr_buffer_info (ad_tx_ring (ml_ad l)) ! ((p + 1 + i) mod unat c)) = None"
        by blast
      from unwind_ends [OF _ _ this] obtain a1 where
        un: "unwind_map (k - 2) (slot c (p + 1 + (k - 2))) (ml_ad l) = Some a1" and t1: "touched (p + 1) (k - 2) (ml_ad l) a1"
        using touched_buffers_ok [OF t] touched_ring(1) [OF t] a by auto
      have pk: "p + 1 + (k - 2) = p + k - 1" using False k by simp
      then have "e1000_tx_map N f first (max_per_txd (frame_mss f)) (frame_mss f) a = Some (0, a1)"
        using lin fr un [unfolded pk] i u \<open>\<not> ok\<close> by (simp add: e1000_tx_map_def)
      moreover have "touched p k a a1" by (rule touched_join [OF t touched_sub [OF t1]]) (use False k in auto)
      ultimately show thesis using that(2) [OF k] by blast
    qed
  qed
qed

section \<open>The reservation of \<open>e1000_xmit_frame\<close>\<close>

lemma txd_use_count: "TXD_USE_COUNT s x = of_nat (unat s div 2 ^ x + 1)"
proof -
  have "unat (drop_bit x s) = unat s div 2 ^ x" by (simp only: unat_drop_bit_eq) (simp add: drop_bit_eq_div)
  then have "drop_bit x s = of_nat (unat s div 2 ^ x)" by (metis of_nat_unat ucast_id)
  then show ?thesis by (simp add: TXD_USE_COUNT_def)
qed

text \<open>The reservation as a number, before it is cut to 32 bits.\<close>

definition reserve_nat :: "e1000_adapter \<Rightarrow> u32 \<Rightarrow> tx_frame \<Rightarrow> nat" where
  "reserve_nat a len f = of_bool (frame_mss f \<noteq> 0 \<or> ip_summed (f_skb f) = CHECKSUM_PARTIAL) + 1
     + of_bool (erratum_tso a f) + (unat len div 2 ^ max_txd_pwr (frame_mss f) + 1) + of_bool (ad_pcix_82544 a)
     + of_bool (hw_bus_type (ad_hw a) = e1000_bus_type_pcix \<and> 2015 < unat len)
     + sum_list (map (\<lambda>s. unat (snd s) div 2 ^ max_txd_pwr (frame_mss f) + 1) (f_frags f))
     + (if ad_pcix_82544 a then length (f_frags f) else 0)"

lemma sum_use_count:
  "sum_list (map (\<lambda>s. TXD_USE_COUNT (snd s) x) fs) = of_nat (sum_list (map (\<lambda>s. unat (snd s) div 2 ^ x + 1) fs))"
  by (induction fs) (simp_all add: txd_use_count)

lemma tx_reserve_nat: "tx_reserve a len f = of_nat (reserve_nat a len f)"
proof -
  have l: "len > 2015 \<longleftrightarrow> 2015 < unat len" by (simp add: word_less_nat_alt)
  show ?thesis
    unfolding tx_reserve_def reserve_nat_def Let_def sum_use_count l
    by (simp add: txd_use_count of_bool_def algebra_simps)
qed

lemma sum_div_le: "sum_list (map (\<lambda>s. unat (snd s) div 2 ^ x + 1) fs)
    \<le> sum_list (map (\<lambda>s. unat (snd s)) fs) + length (fs :: (u64 \<times> u32) list)"
proof (induction fs)
  case (Cons s fs)
  have "unat (snd s) div 2 ^ x \<le> unat (snd s)" by (rule div_le_dividend)
  from add_mono [OF this Cons] show ?case by simp
qed simp

lemma reserve_nat_less: "frame_ok f \<Longrightarrow> unat len < 2 ^ 30 \<Longrightarrow> reserve_nat a len f + 2 < 2 ^ 32"
proof -
  assume f: "frame_ok f" and l: "unat len < 2 ^ 30"
  define d where "d = unat len div 2 ^ max_txd_pwr (frame_mss f)"
  define s where "s = sum_list (map (\<lambda>s. unat (snd s) div 2 ^ max_txd_pwr (frame_mss f) + 1) (f_frags f))"
  have "d \<le> unat len" by (simp add: d_def)
  moreover have "unat (skb_len (f_skb f)) < 2 ^ 30" "length (f_frags f) \<le> 17" using f by (simp_all add: frame_ok_def)
  moreover have "s \<le> unat (skb_len (f_skb f)) + length (f_frags f)"
    using sum_div_le [of "max_txd_pwr (frame_mss f)" "f_frags f"] frame_ok_headlen(1) [OF f] by (simp add: s_def)
  ultimately show ?thesis
    using l unfolding reserve_nat_def d_def [symmetric] s_def [symmetric] by (auto simp: of_bool_def)
qed

lemma frags_need_sum:
  "frags_need f a fs \<le> sum_list (map (\<lambda>s. unat (snd s) div 2 ^ max_txd_pwr (frame_mss f) + 1) fs)
     + (if ad_pcix_82544 a then length fs else 0) + of_bool (frame_mss f \<noteq> 0 \<and> fs \<noteq> [])"
proof (induction fs)
  case (Cons s fs)
  obtain page sz where "s = (page, sz)" by (cases s)
  with Cons show ?case by (cases "fs = []") (auto simp: frag_need_def frag_sentinel_def)
qed simp

text \<open>What the frame needs, the context descriptor included, is no more than the reservation.\<close>

lemma map_need_reserve:
  "map_need f a + of_bool (frame_mss f \<noteq> 0 \<or> ip_summed (f_skb f) = CHECKSUM_PARTIAL)
     \<le> reserve_nat a (skb_headlen f) f"
  using frags_need_sum [of f a "f_frags f"]
  by (cases "f_frags f = []"; cases "frame_mss f = 0")
     (auto simp: map_need_def linear_need_def reserve_nat_def sentinel_def)

end
