(* ===== verification/Dysco_E1000_Queue.thy ===== *)
theory Dysco_E1000_Queue
  imports Dysco_E1000_Reserve
begin

text \<open>
  The transmit ring as a queue. The ring is an array shared with the device; what it means is a
  queue of frames in flight. \<open>e1000_send\<close> appends the frame to the queue or releases it,
  \<open>e1000_clean_tx_irq\<close> takes the frames the device has sent from its front and releases each of
  them once.
\<close>

section \<open>Positions\<close>

text \<open>Slots are counted on without wrapping; \<open>buf\<close> and \<open>desc\<close> read the arrays at such a position.\<close>

definition ring_size :: "e1000_adapter \<Rightarrow> nat" where
  "ring_size a = unat (tr_count (ad_tx_ring a))"

definition buf :: "e1000_adapter \<Rightarrow> nat \<Rightarrow> e1000_tx_buffer" where
  "buf a m = tr_buffer_info (ad_tx_ring a) ! (m mod ring_size a)"

definition desc :: "e1000_adapter \<Rightarrow> nat \<Rightarrow> e1000_tx_desc" where
  "desc a m = tr_desc (ad_tx_ring a) ! (m mod ring_size a)"

definition has_dd :: "e1000_tx_desc \<Rightarrow> bool" where
  "has_dd d \<longleftrightarrow> td_upper d AND 1 \<noteq> 0"

definition arrays_ok :: "e1000_adapter \<Rightarrow> bool" where
  "arrays_ok a \<longleftrightarrow> buffers_ok a \<and> length (tr_desc (ad_tx_ring a)) = ring_size a \<and> ring_size a \<le> 65536 \<and> watch_ok a"

definition outside :: "e1000_adapter \<Rightarrow> nat \<Rightarrow> nat \<Rightarrow> nat \<Rightarrow> bool" where
  "outside a q k m \<longleftrightarrow> (\<forall>i < k. m mod ring_size a \<noteq> (q + i) mod ring_size a)"

lemma mod_apart: "m < m' \<Longrightarrow> m' < m + n \<Longrightarrow> m mod n \<noteq> m' mod (n::nat)"
proof
  assume "m < m'" "m' < m + n" "m mod n = m' mod n"
  then have "n dvd m' - m" by (metis less_imp_le mod_eq_dvd_iff_nat)
  with \<open>m < m'\<close> \<open>m' < m + n\<close> show False by (auto dest!: dvd_imp_le)
qed

lemma outside_before: "m < q \<Longrightarrow> q + k \<le> m + ring_size a \<Longrightarrow> outside a q k m"
  unfolding outside_def by (intro allI impI mod_apart) auto

lemma outside_after: "q + k \<le> m \<Longrightarrow> m < q + ring_size a \<Longrightarrow> outside a q k m"
  unfolding outside_def by (intro allI impI not_sym [OF mod_apart]) auto

lemma position: "x < n \<Longrightarrow> \<exists>j < n. x = (h + j) mod (n::nat)"
proof -
  assume x: "x < n"
  have "(h + (x + n - h mod n) mod n) mod n = x"
  proof -
    have "(h + (x + n - h mod n) mod n) mod n = (h mod n + (x + n - h mod n)) mod n" by (metis mod_add_left_eq mod_add_right_eq)
    also have "h mod n + (x + n - h mod n) = x + n" using x mod_less_divisor [of n h] by linarith
    finally show ?thesis using x by simp
  qed
  moreover have "(x + n - h mod n) mod n < n" using x by simp
  ultimately show ?thesis by metis
qed

text \<open>
  \<open>within q k a a'\<close>: from \<open>a\<close> to \<open>a'\<close> the arrays change in the \<open>k\<close> slots from \<open>q\<close> on only, no slot
  changes the packet it holds, none becomes done, nothing is released.
\<close>

definition within :: "nat \<Rightarrow> nat \<Rightarrow> e1000_adapter \<Rightarrow> e1000_adapter \<Rightarrow> bool" where
  "within q k a a' \<longleftrightarrow>
     tr_count (ad_tx_ring a') = tr_count (ad_tx_ring a) \<and>
     tr_next_to_clean (ad_tx_ring a') = tr_next_to_clean (ad_tx_ring a) \<and>
     (arrays_ok a \<longrightarrow> arrays_ok a') \<and>
     (\<forall>m. tb_skb (buf a' m) = tb_skb (buf a m)) \<and>
     (\<forall>m. outside a q k m \<longrightarrow> buf a' m = buf a m \<and> desc a' m = desc a m) \<and>
     (\<forall>m. has_dd (desc a' m) \<longrightarrow> has_dd (desc a m)) \<and>
     freed_ids (ad_log a') = freed_ids (ad_log a) \<and>
     ad_pcix_82544 a' = ad_pcix_82544 a \<and> ad_hw a' = ad_hw a"

lemma within_sub: "within (p + i) k a b \<Longrightarrow> i + k \<le> m \<Longrightarrow> within p m a b"
  unfolding within_def outside_def by (auto simp: add.assoc)

lemma within_join:
  assumes 1: "within q k a b" and 2: "within q k b c"
  shows "within q k a c"
proof -
  have "outside b q k m = outside a q k m" for m using 1 by (simp add: within_def outside_def ring_size_def)
  then show ?thesis using 1 2 unfolding within_def by metis
qed

lemma within_refl: "within q k a a"
  by (simp add: within_def)

lemma within_trans: "within p k a b \<Longrightarrow> within (p + k) m b c \<Longrightarrow> within p (k + m) a c"
  by (rule within_join [OF within_sub [of p 0] within_sub]) auto

lemma within_skb: "within q k a b \<Longrightarrow> tb_skb (buf b m) = tb_skb (buf a m)"
  by (simp add: within_def)

lemma within_ring:
  assumes "within q k a b"
  shows "tr_count (ad_tx_ring b) = tr_count (ad_tx_ring a)" and "ring_size b = ring_size a"
    and "tr_next_to_clean (ad_tx_ring b) = tr_next_to_clean (ad_tx_ring a)"
    and "freed_ids (ad_log b) = freed_ids (ad_log a)" and "outside b = outside a"
    and "ad_pcix_82544 b = ad_pcix_82544 a" and "ad_hw b = ad_hw a"
  using assms by (simp_all add: within_def ring_size_def outside_def fun_eq_iff)

lemma touched_within:
  assumes t: "touched q k a b" and ok: "arrays_ok a"
  shows "within q k a b"
proof -
  have n: "0 < ring_size a" "length (tr_buffer_info (ad_tx_ring a)) = ring_size a"
    using ok by (simp_all add: arrays_ok_def buffers_ok_def ring_size_def unat_gt_0)
  have lt: "m mod ring_size a < length (tr_buffer_info (ad_tx_ring a))" for m using n by simp
  have s: "ring_size b = ring_size a" using touched_ring(1) [OF t] by (simp add: ring_size_def)
  have "arrays_ok b"
    using ok t touched_ring(2) [OF t] touched_buffers_ok [OF t] s
    by (simp add: arrays_ok_def touched_def Let_def)
  moreover have "buf b m = buf a m" if "outside a q k m" for m
    using t that lt [of m] unfolding touched_def Let_def outside_def buf_def s by (metis ring_size_def)
  ultimately show ?thesis
    using touched_ring [OF t] touched_skb [OF t lt] unfolding within_def buf_def desc_def s by simp
qed

section \<open>The steps of a transmission\<close>

lemma ring_positive: "arrays_ok a \<Longrightarrow> 0 < ring_size a"
  by (simp add: arrays_ok_def buffers_ok_def ring_size_def unat_gt_0)

lemma slot_here:
  assumes "arrays_ok a" and "c = tr_count (ad_tx_ring a)"
  shows "unat (slot c p) = p mod ring_size a" and "unat (slot c p) < ring_size a"
  using assms ring_positive [OF assms(1)] by (simp_all add: unat_slot arrays_ok_def buffers_ok_def ring_size_def)

lemma get_slot:
  assumes "arrays_ok a" and "c = tr_count (ad_tx_ring a)"
  shows "get_buf (slot c p) a = Some (buf a p)" and "get_desc (slot c p) a = Some (desc a p)"
  using slot_here [OF assms, of p] assms
  by (simp_all add: get_buf_def get_desc_def buf_def desc_def arrays_ok_def buffers_ok_def ring_size_def Let_def)

lemma set_slot_ring [simp]:
  "tr_count (ad_tx_ring (set_buf i b a)) = tr_count (ad_tx_ring a)"
  "tr_count (ad_tx_ring (set_desc i d a)) = tr_count (ad_tx_ring a)"
  "ring_size (set_buf i b a) = ring_size a" "ring_size (set_desc i d a) = ring_size a"
  "tr_next_to_clean (ad_tx_ring (set_buf i b a)) = tr_next_to_clean (ad_tx_ring a)"
  "tr_next_to_clean (ad_tx_ring (set_desc i d a)) = tr_next_to_clean (ad_tx_ring a)"
  "tr_next_to_use (ad_tx_ring (set_buf i b a)) = tr_next_to_use (ad_tx_ring a)"
  "tr_next_to_use (ad_tx_ring (set_desc i d a)) = tr_next_to_use (ad_tx_ring a)"
  "desc (set_buf i b a) = desc a" "buf (set_desc i d a) = buf a"
  "ad_log (set_buf i b a) = ad_log a" "ad_log (set_desc i d a) = ad_log a"
  "ad_pcix_82544 (set_buf i b a) = ad_pcix_82544 a" "ad_pcix_82544 (set_desc i d a) = ad_pcix_82544 a"
  "ad_hw (set_buf i b a) = ad_hw a" "ad_hw (set_desc i d a) = ad_hw a"
  by (simp_all add: set_buf_def set_desc_def map_tx_def ring_size_def desc_def buf_def fun_eq_iff)

lemma buf_set_slot:
  assumes "arrays_ok a" and "c = tr_count (ad_tx_ring a)"
  shows "buf (set_buf (slot c p) b a) m = (if m mod ring_size a = p mod ring_size a then b else buf a m)"
    and "desc (set_desc (slot c p) d a) m = (if m mod ring_size a = p mod ring_size a then d else desc a m)"
  using slot_here [OF assms, of p] ring_positive [OF assms(1)] assms
  by (auto simp: buf_def desc_def set_buf_def set_desc_def map_tx_def ring_size_def arrays_ok_def buffers_ok_def nth_list_update)

lemma arrays_set_slot:
  assumes "arrays_ok a"
  shows "arrays_ok (set_desc i d a)" and "unat (tb_next_to_watch b) < ring_size a \<Longrightarrow> arrays_ok (set_buf i b a)"
  using assms watch_ok_set_buf [of a b i]
  by (auto simp: arrays_ok_def buffers_ok_def watch_ok_def set_buf_def set_desc_def map_tx_def ring_size_def)

lemma watch_here: "arrays_ok a \<Longrightarrow> unat (tb_next_to_watch (buf a m)) < ring_size a"
  using ring_positive [of a]
  by (auto simp: arrays_ok_def buffers_ok_def watch_ok_def buf_def ring_size_def)

lemma watch_slot: "arrays_ok a \<Longrightarrow> c = tr_count (ad_tx_ring a) \<Longrightarrow> unat (ucast (slot c p) :: u16) < ring_size a"
  using unat_ucast16 [of "slot c p"] slot_here(2) [of a c p] by linarith

text \<open>The arrays of an adapter do not depend on the rest of it.\<close>

lemma same_ring:
  assumes "ad_tx_ring b = (ad_tx_ring a)\<lparr>tr_next_to_use := i, tr_next_to_clean := j, tr_last_tx_tso := t\<rparr>"
  shows "buf b = buf a" and "desc b = desc a" and "arrays_ok b = arrays_ok a" and "ring_size b = ring_size a"
    and "outside b = outside a"
  using assms
  by (simp_all add: buf_def desc_def ring_size_def arrays_ok_def buffers_ok_def watch_ok_def outside_def fun_eq_iff)

text \<open>A change of one slot.\<close>

lemma same_slot: "m mod ring_size a = p mod ring_size a \<Longrightarrow> buf a m = buf a p \<and> desc a m = desc a p"
  by (simp add: buf_def desc_def)

lemma outside_one: "outside a p 1 m \<longleftrightarrow> m mod ring_size a \<noteq> p mod ring_size a"
  by (simp add: outside_def)

lemma within_set_desc:
  assumes ok: "arrays_ok a" and c: "c = tr_count (ad_tx_ring a)" and d: "has_dd d \<Longrightarrow> has_dd (desc a p)"
  shows "within p 1 a (set_desc (slot c p) d a)"
  unfolding within_def
proof (intro conjI allI impI)
  fix m assume dd: "has_dd (desc (set_desc (slot c p) d a) m)"
  show "has_dd (desc a m)"
  proof (cases "m mod ring_size a = p mod ring_size a")
    case True
    with dd d same_slot [OF True] show ?thesis by (simp only: buf_set_slot(2) [OF ok c] if_True simp_thms)
  next
    case False
    with dd show ?thesis by (simp only: buf_set_slot(2) [OF ok c] if_False)
  qed
next
  fix m assume "outside a p 1 m"
  then have "m mod ring_size a \<noteq> p mod ring_size a" by (simp only: outside_one simp_thms)
  then show "desc (set_desc (slot c p) d a) m = desc a m" by (simp only: buf_set_slot(2) [OF ok c] if_False)
qed (simp_all add: arrays_set_slot(1) [OF ok])

lemma within_set_buf:
  assumes ok: "arrays_ok a" and c: "c = tr_count (ad_tx_ring a)" and b: "tb_skb b = tb_skb (buf a p)"
    and w: "unat (tb_next_to_watch b) < ring_size a"
  shows "within p 1 a (set_buf (slot c p) b a)"
  unfolding within_def
proof (intro conjI allI impI)
  fix m
  show "tb_skb (buf (set_buf (slot c p) b a) m) = tb_skb (buf a m)"
  proof (cases "m mod ring_size a = p mod ring_size a")
    case True
    with b same_slot [OF True] show ?thesis by (simp only: buf_set_slot(1) [OF ok c] if_True simp_thms)
  next
    case False
    then show ?thesis by (simp only: buf_set_slot(1) [OF ok c] if_False)
  qed
next
  fix m assume "outside a p 1 m"
  then have "m mod ring_size a \<noteq> p mod ring_size a" by (simp only: outside_one simp_thms)
  then show "buf (set_buf (slot c p) b a) m = buf a m" by (simp only: buf_set_slot(1) [OF ok c] if_False)
qed (simp_all add: arrays_set_slot(2) [OF ok w])

lemma put_context_ends:
  assumes ok: "arrays_ok a" and c: "c = tr_count (ad_tx_ring a)" and ntu: "tr_next_to_use (ad_tx_ring a) = slot c p"
    and g: "\<And>d. has_dd (g d) \<Longrightarrow> has_dd d"
  shows "\<exists>a'. put_context N g a = Some a' \<and> within p 1 a a' \<and> tr_next_to_use (ad_tx_ring a') = slot c (Suc p)
     \<and> tr_last_tx_tso (ad_tx_ring a') = tr_last_tx_tso (ad_tx_ring a)"
proof -
  define a1 where "a1 = set_desc (slot c p) (g (desc a p)) a"
  define a2 where "a2 = set_buf (slot c p) ((buf a p)\<lparr>tb_time_stamp := n_jiffies N, tb_next_to_watch := ucast (slot c p)\<rparr>) a1"
  define a3 where "a3 = map_tx (\<lambda>R. R\<lparr>tr_next_to_use := ring_next (tr_count R) (slot c p)\<rparr>) a2"
  have w1: "within p 1 a a1" unfolding a1_def by (rule within_set_desc [OF ok c]) (rule g)
  have ok1: "arrays_ok a1" using w1 ok by (simp add: within_def)
  have "within p 1 a1 a2"
    unfolding a2_def by (rule within_set_buf [OF ok1]) (use c watch_slot [OF ok c] in \<open>simp_all add: a1_def\<close>)
  with w1 have w2: "within p 1 a a2" by (rule within_join)
  have s: "ad_tx_ring a3 = (ad_tx_ring a2)\<lparr>tr_next_to_use := ring_next c (slot c p),
      tr_next_to_clean := tr_next_to_clean (ad_tx_ring a2), tr_last_tx_tso := tr_last_tx_tso (ad_tx_ring a2)\<rparr>"
    using c by (simp add: a3_def map_tx_def a2_def a1_def)
  have "within p 1 a a3" using w2 same_ring [OF s] s by (simp add: within_def a3_def map_tx_def)
  moreover have "put_context N g a = Some a3"
    unfolding put_context_def ntu using get_slot [OF ok c] by (simp add: Let_def a1_def a2_def a3_def)
  moreover have "tr_next_to_use (ad_tx_ring a3) = slot c (Suc p)"
    using s ring_next_slot [of c p] ok c by (simp add: arrays_ok_def buffers_ok_def)
  moreover have "tr_last_tx_tso (ad_tx_ring a3) = tr_last_tx_tso (ad_tx_ring a)"
    using s by (simp add: a2_def a1_def set_buf_def set_desc_def map_tx_def)
  ultimately show ?thesis by blast
qed

text \<open>No descriptor the driver writes is marked as done.\<close>

lemma has_dd_odd: "has_dd d \<longleftrightarrow> odd (td_upper d)"
  by (simp add: has_dd_def and_one_eq odd_iff_mod_2_eq_one)

lemma no_dd_written:
  "has_dd (tso_context f d) \<Longrightarrow> has_dd d" "\<not> has_dd (csum_context f d)" "even (txd_upper fl)"
  by (auto simp: has_dd_odd tso_context_def csum_context_def txd_upper_def Let_def even_or_iff even_and_iff
      even_push_bit_iff split: option.splits)

section \<open>The offload\<close>

lemma frags_need_cong:
  "f_gso_size g = f_gso_size f \<Longrightarrow> ad_pcix_82544 b = ad_pcix_82544 a \<Longrightarrow> frags_need g b fs = frags_need f a fs"
  by (induction fs) (auto simp: frag_need_def frag_sentinel_def frame_mss_def)

lemma map_need_cong:
  assumes "f_gso_size g = f_gso_size f" "f_frags g = f_frags f" "skb_headlen g = skb_headlen f"
    and "ad_pcix_82544 b = ad_pcix_82544 a" "ad_hw b = ad_hw a" "erratum_tso b g = erratum_tso a f"
  shows "map_need g b = map_need f a"
  using assms frags_need_cong [of g f b a]
  by (simp add: map_need_def linear_need_def sentinel_def frame_mss_def)

lemma tso_frame_same [simp]:
  "f_id (tso_frame N f) = f_id f" "f_gso_size (tso_frame N f) = f_gso_size f" "f_frags (tso_frame N f) = f_frags f"
  "f_data_len (tso_frame N f) = f_data_len f" "skb_len (f_skb (tso_frame N f)) = skb_len (f_skb f)"
  "skb_headlen (tso_frame N f) = skb_headlen f" "skb_is_gso (tso_frame N f) = skb_is_gso f"
  "frame_mss (tso_frame N f) = frame_mss f" "frame_ok (tso_frame N f) = frame_ok f"
  by (simp_all add: tso_frame_def skb_headlen_def skb_is_gso_def frame_mss_def frame_ok_def Let_def)

lemma gso_mss: "skb_is_gso f \<longleftrightarrow> frame_mss f \<noteq> 0"
  using unat_frame_mss(1) [of f] by (metis skb_is_gso_def unat_eq_0)

lemma tx_offload_ends:
  assumes ok: "arrays_ok a" and c: "c = tr_count (ad_tx_ring a)" and ntu: "tr_next_to_use (ad_tx_ring a) = slot c p"
  shows "\<exists>fl f1 n a1. tx_offload N f a = Some (fl, f1, a1) \<and> within p n a a1
    \<and> tr_next_to_use (ad_tx_ring a1) = slot c (p + n)
    \<and> n \<le> of_bool (frame_mss f \<noteq> 0 \<or> ip_summed (f_skb f) = CHECKSUM_PARTIAL)
    \<and> f_id f1 = f_id f \<and> frame_ok f1 = frame_ok f \<and> frame_mss f1 = frame_mss f
    \<and> map_need f1 a1 = map_need f a \<and> (fl = None \<longrightarrow> n = 0)"
proof (cases "skb_is_gso f")
  case True
  show ?thesis
  proof (cases "n_cow_ok N f")
    case False
    with True have "tx_offload N f a = Some (None, f, a)" by (simp add: tx_offload_def e1000_tso_def)
    then show ?thesis using ntu within_refl by (intro exI [of _ None] exI [of _ f] exI [of _ 0] exI [of _ a]) simp
  next
    case cow: True
    obtain a1 where pc: "put_context N (tso_context f) a = Some a1" and w: "within p 1 a a1"
      and n1: "tr_next_to_use (ad_tx_ring a1) = slot c (Suc p)"
      using put_context_ends [OF ok c ntu, of "tso_context f" N] no_dd_written(1) by blast
    define a2 where "a2 = (if hw_mac_type (ad_hw a1) \<noteq> e1000_82544
      then map_tx (\<lambda>R. R\<lparr>tr_last_tx_tso := True\<rparr>) a1 else a1)"
    have s: "ad_tx_ring a2 = (ad_tx_ring a1)\<lparr>tr_next_to_use := tr_next_to_use (ad_tx_ring a1),
        tr_next_to_clean := tr_next_to_clean (ad_tx_ring a1), tr_last_tx_tso := tr_last_tx_tso (ad_tx_ring a2)\<rparr>"
      and o: "ad_log a2 = ad_log a1" "ad_pcix_82544 a2 = ad_pcix_82544 a1" "ad_hw a2 = ad_hw a1"
        "tr_count (ad_tx_ring a2) = tr_count (ad_tx_ring a1)"
        "tr_next_to_clean (ad_tx_ring a2) = tr_next_to_clean (ad_tx_ring a1)"
      by (simp_all add: a2_def map_tx_def)
    have w2: "within p 1 a a2" using w same_ring [OF s] o by (simp add: within_def)
    have "\<exists>fl. tx_offload N f a = Some (Some fl, tso_frame N f, a2)"
      using True cow pc by (simp add: tx_offload_def e1000_tso_def a2_def)
    moreover have "map_need (tso_frame N f) a2 = map_need f a"
      by (rule map_need_cong) (use w2 True in \<open>simp_all add: within_def erratum_tso_def\<close>)
    moreover have "tr_next_to_use (ad_tx_ring a2) = slot c (p + 1)" using n1 by (simp add: a2_def map_tx_def)
    ultimately show ?thesis using w2 True gso_mss [of f] by (auto intro!: exI [of _ 1])
  qed
next
  case False
  show ?thesis
  proof (cases "ip_summed (f_skb f) = CHECKSUM_PARTIAL")
    case True
    obtain a1 where pc: "put_context N (csum_context f) a = Some a1" and w: "within p 1 a a1"
      and n1: "tr_next_to_use (ad_tx_ring a1) = slot c (Suc p)"
      and l: "tr_last_tx_tso (ad_tx_ring a1) = tr_last_tx_tso (ad_tx_ring a)"
      using put_context_ends [OF ok c ntu, of "csum_context f" N] no_dd_written(2) by blast
    have "\<exists>fl. tx_offload N f a = Some (Some fl, f, a1)"
      using False True pc by (simp add: tx_offload_def e1000_tso_def e1000_tx_csum_def)
    moreover have "map_need f a1 = map_need f a"
      by (rule map_need_cong) (use w l in \<open>simp_all add: within_def erratum_tso_def\<close>)
    ultimately show ?thesis using w n1 True by (auto intro!: exI [of _ 1])
  next
    case plain: False
    have "\<exists>fl. tx_offload N f a = Some (Some fl, f, a)"
      using False plain by (simp add: tx_offload_def e1000_tso_def e1000_tx_csum_def)
    then show ?thesis using ntu within_refl [of p 0 a] by (auto intro!: exI [of _ 0])
  qed
qed

section \<open>Queuing\<close>

lemma within_desc_step: "within q k a b \<Longrightarrow> arrays_ok a \<Longrightarrow> arrays_ok b"
  by (simp add: within_def)

text \<open>The descriptors of a frame are written from its buffers, which stay as they are.\<close>

lemma queue_descs_ends:
  assumes "arrays_ok a" and "c = tr_count (ad_tx_ring a)"
  shows "\<exists>a'. queue_descs fl n (slot c p) a = Some (slot c (p + n), a') \<and> within p n a a' \<and> buf a' = buf a"
  using assms
proof (induction n arbitrary: p a)
  case 0
  then show ?case using within_refl by simp
next
  case (Suc n)
  define a1 where "a1 = set_desc (slot c p) ((desc a p)\<lparr>td_addr := tb_dma (buf a p),
      td_lower := txd_lower fl OR ucast (tb_length (buf a p)), td_upper := txd_upper fl\<rparr>) a"
  have w: "within p 1 a a1"
    unfolding a1_def by (rule within_set_desc [OF Suc.prems]) (use no_dd_written(3) in \<open>simp add: has_dd_odd\<close>)
  have b: "buf a1 = buf a" by (simp add: a1_def)
  have c1: "c = tr_count (ad_tx_ring a1)" "c \<noteq> 0"
    using Suc.prems by (simp_all add: a1_def arrays_ok_def buffers_ok_def)
  obtain a' where "queue_descs fl n (slot c (Suc p)) a1 = Some (slot c (Suc p + n), a')"
    "within (Suc p) n a1 a'" "buf a' = buf a1"
    using Suc.IH [OF within_desc_step [OF w Suc.prems(1)] c1(1), of "Suc p"] by blast
  moreover have "queue_descs fl (Suc n) (slot c p) a = queue_descs fl n (slot c (Suc p)) a1"
    using get_slot [OF Suc.prems] ring_next_slot [OF c1(2)] Suc.prems(2) by (simp add: a1_def Let_def)
  ultimately show ?case using within_trans [OF w, of n a'] b by auto
qed

lemma tx_queue_ends:
  assumes ok: "arrays_ok a" and c: "c = tr_count (ad_tx_ring a)" and ntu: "tr_next_to_use (ad_tx_ring a) = slot c p"
    and n: "0 < n" "n < 2 ^ 32"
  shows "\<exists>a'. e1000_tx_queue fl (of_nat n) a = Some a' \<and> within p n a a' \<and> buf a' = buf a
     \<and> tr_next_to_use (ad_tx_ring a') = slot c (p + n)"
proof -
  have u: "unat (of_nat n :: u32) = n" using n(2) by (rule unat_of_nat_small)
  then have z: "(of_nat n :: u32) \<noteq> 0" using n(1) by (metis unat_0 less_irrefl)
  obtain a1 where q: "queue_descs fl n (slot c p) a = Some (slot c (p + n), a1)" and w: "within p n a a1"
    and b: "buf a1 = buf a" using queue_descs_ends [OF ok c] by blast
  obtain m where m: "n = Suc m" using n(1) by (cases n) auto
  have ok1: "arrays_ok a1" and c1: "c = tr_count (ad_tx_ring a1)" using w ok c by (simp_all add: within_def)
  have "last_slot c (slot c (Suc (p + m))) = slot c (p + m)"
    using slot_before [of c "p + m"] ok c
    by (simp add: last_slot_def arrays_ok_def buffers_ok_def split: if_splits)
  then have j: "last_slot (tr_count (ad_tx_ring a)) (slot c (p + n)) = slot c (p + m)" using m c by simp
  define low where "low = td_lower (desc a1 (p + m)) OR ad_txd_cmd a1"
  define a2 where "a2 = set_desc (slot c (p + m))
      ((desc a1 (p + m))\<lparr>td_lower := (if fl_no_fcs fl then low AND NOT TXD_CMD_IFCS else low)\<rparr>) a1"
  define a3 where "a3 = map_tx (\<lambda>R. R\<lparr>tr_next_to_use := slot c (p + n)\<rparr>) a2"
  have "within (p + m) 1 a1 a2"
    unfolding a2_def by (rule within_set_desc [OF ok1 c1]) (simp add: has_dd_def)
  then have w2: "within p n a a2" using w within_sub [of p m 1 a1 a2 n] within_join m by auto
  have s: "ad_tx_ring a3 = (ad_tx_ring a2)\<lparr>tr_next_to_use := slot c (p + n),
      tr_next_to_clean := tr_next_to_clean (ad_tx_ring a2), tr_last_tx_tso := tr_last_tx_tso (ad_tx_ring a2)\<rparr>"
    by (simp add: a3_def map_tx_def)
  have o: "ad_log a3 = ad_log a2" "ad_pcix_82544 a3 = ad_pcix_82544 a2" "ad_hw a3 = ad_hw a2"
    "tr_count (ad_tx_ring a3) = tr_count (ad_tx_ring a2)" "tr_next_to_clean (ad_tx_ring a3) = tr_next_to_clean (ad_tx_ring a2)"
    by (simp_all add: a3_def map_tx_def)
  have "within p n a a3" using w2 same_ring [OF s] o by (simp add: within_def)
  moreover have "buf a3 = buf a" using same_ring(1) [OF s] b by (simp add: a2_def)
  moreover have "e1000_tx_queue fl (of_nat n) a = Some a3"
    unfolding e1000_tx_queue_def u ntu using q z j get_slot(2) [OF ok1 c1, of "p + m"]
    by (simp add: Let_def low_def a2_def a3_def)
  moreover have "tr_next_to_use (ad_tx_ring a3) = slot c (p + n)" by (simp add: a3_def map_tx_def)
  ultimately show ?thesis by blast
qed

text \<open>The frame is written into its last slot, and its first one names that.\<close>

lemma record_frame_result:
  assumes ok: "arrays_ok a" and c: "c = tr_count (ad_tx_ring a)" and k: "0 < k" "k \<le> ring_size a"
    and r: "record_frame f (slot c q) (slot c (q + k - 1)) a = Some a'"
  shows "arrays_ok a'" and "ad_tx_ring a' = (ad_tx_ring a)\<lparr>tr_buffer_info := tr_buffer_info (ad_tx_ring a')\<rparr>"
    and "desc a' = desc a" and "freed_ids (ad_log a') = freed_ids (ad_log a)"
    and "tb_skb (buf a' (q + k - 1)) = Some f" and "tb_next_to_watch (buf a' q) = ucast (slot c (q + k - 1))"
    and "\<And>m. m mod ring_size a \<noteq> (q + k - 1) mod ring_size a \<Longrightarrow> tb_skb (buf a' m) = tb_skb (buf a m)"
    and "\<And>m. outside a q k m \<Longrightarrow> buf a' m = buf a m"
proof -
  define segs where "segs = (if f_gso_segs f = 0 then 1 else f_gso_segs f)"
  define b where "b = (buf a (q + k - 1))\<lparr>tb_skb := Some f, tb_segs := segs, tb_bytecount := tx_bytecount f (ucast segs)\<rparr>"
  define a1 where "a1 = set_buf (slot c (q + k - 1)) b a"
  define b2 where "b2 = (buf a1 q)\<lparr>tb_next_to_watch := ucast (slot c (q + k - 1))\<rparr>"
  have "unat (tb_next_to_watch b) < ring_size a" using watch_here [OF ok] by (simp add: b_def)
  then have ok1: "arrays_ok a1" unfolding a1_def by (rule arrays_set_slot(2) [OF ok])
  have c1: "c = tr_count (ad_tx_ring a1)" using c by (simp add: a1_def)
  have a': "a' = set_buf (slot c q) b2 a1"
    using r get_slot(1) [OF ok c] get_slot(1) [OF ok1 c1]
    by (simp add: record_frame_def Let_def segs_def a1_def b_def b2_def)
  have n: "ring_size a1 = ring_size a" by (simp add: a1_def)
  note buf1 = buf_set_slot(1) [OF ok c, of "q + k - 1" b, folded a1_def]
  note buf2 = buf_set_slot(1) [OF ok1 c1, of q b2, folded a', unfolded n]
  have "unat (tb_next_to_watch b2) < ring_size a1" using watch_slot [OF ok1 c1] by (simp add: b2_def)
  then show "arrays_ok a'" unfolding a' by (rule arrays_set_slot(2) [OF ok1])
  show "ad_tx_ring a' = (ad_tx_ring a)\<lparr>tr_buffer_info := tr_buffer_info (ad_tx_ring a')\<rparr>"
    by (simp add: a' a1_def set_buf_def map_tx_def)
  show "desc a' = desc a" "freed_ids (ad_log a') = freed_ids (ad_log a)" by (simp_all add: a' a1_def)
  show "tb_next_to_watch (buf a' q) = ucast (slot c (q + k - 1))" using buf2 by (simp add: b2_def)
  have skb2: "tb_skb (buf a' m) = tb_skb (buf a1 m)" for m
  proof (cases "m mod ring_size a = q mod ring_size a")
    case True
    then show ?thesis using buf2 [of m] same_slot [of m a1 q] n by (simp add: b2_def)
  next
    case False
    then show ?thesis using buf2 [of m] by simp
  qed
  show "tb_skb (buf a' (q + k - 1)) = Some f" unfolding skb2 buf1 by (simp add: b_def)
  show "tb_skb (buf a' m) = tb_skb (buf a m)" if "m mod ring_size a \<noteq> (q + k - 1) mod ring_size a" for m
    unfolding skb2 buf1 using that by simp
  show "buf a' m = buf a m" if "outside a q k m" for m
  proof -
    have "m mod ring_size a \<noteq> q mod ring_size a" "m mod ring_size a \<noteq> (q + k - 1) mod ring_size a"
      using that k unfolding outside_def by (metis add.right_neutral, metis Nat.add_diff_assoc One_nat_def Suc_leI diff_less zero_less_one)
    then show ?thesis unfolding buf2 buf1 by simp
  qed
qed

section \<open>The queue\<close>

text \<open>
  A frame in flight: the number of its slots, the identity of the packet and whether the device
  has marked it as sent. Its packet is in its last slot, its first slot names the last one.
\<close>

type_synonym flight = "nat \<times> nat \<times> bool"

definition frame_at :: "e1000_adapter \<Rightarrow> nat \<Rightarrow> flight \<Rightarrow> bool" where
  "frame_at a p = (\<lambda>(k, x, d). 0 < k \<and> (\<forall>j < k - 1. tb_skb (buf a (p + j)) = None)
     \<and> (\<exists>f. tb_skb (buf a (p + k - 1)) = Some f \<and> f_id f = x)
     \<and> tb_next_to_watch (buf a p) = ucast (slot (tr_count (ad_tx_ring a)) (p + k - 1))
     \<and> has_dd (desc a (p + k - 1)) = d)"

fun laid :: "e1000_adapter \<Rightarrow> nat \<Rightarrow> flight list \<Rightarrow> bool" where
  "laid a p [] = True"
| "laid a p (x # fs) = (frame_at a p x \<and> laid a (p + fst x) fs)"

abbreviation slots :: "flight list \<Rightarrow> nat" where
  "slots fs \<equiv> sum_list (map fst fs)"

abbreviation ids :: "flight list \<Rightarrow> nat list" where
  "ids fs \<equiv> map (fst \<circ> snd) fs"

definition free_slot :: "e1000_adapter \<Rightarrow> nat \<Rightarrow> bool" where
  "free_slot a m \<longleftrightarrow> tb_skb (buf a m) = None \<and> \<not> has_dd (desc a m)"

text \<open>
  The ring holds the frames \<open>fs\<close> from position \<open>h\<close> on, at least one slot is free and all free slots
  hold no packet and are not marked as done.
\<close>

definition ring_body :: "e1000_adapter \<Rightarrow> nat \<Rightarrow> flight list \<Rightarrow> bool" where
  "ring_body a h fs \<longleftrightarrow> arrays_ok a \<and> tr_next_to_clean (ad_tx_ring a) = slot (tr_count (ad_tx_ring a)) h
     \<and> slots fs < ring_size a \<and> laid a h fs
     \<and> (\<forall>m. h + slots fs \<le> m \<and> m < h + ring_size a \<longrightarrow> free_slot a m)"

definition ring_ok :: "e1000_adapter \<Rightarrow> flight list \<Rightarrow> bool" where
  "ring_ok a fs \<longleftrightarrow> (\<exists>h. ring_body a h fs
     \<and> tr_next_to_use (ad_tx_ring a) = slot (tr_count (ad_tx_ring a)) (h + slots fs))"

lemma frame_at_cong:
  assumes "\<And>m. p \<le> m \<Longrightarrow> m < p + fst x \<Longrightarrow> buf b m = buf a m \<and> desc b m = desc a m"
    and "tr_count (ad_tx_ring b) = tr_count (ad_tx_ring a)"
  shows "frame_at b p x = frame_at a p x"
proof (cases "fst x = 0")
  case False
  have "buf b (p + j) = buf a (p + j)" if "j < fst x" for j using assms(1) that by simp
  moreover have "p + fst x - 1 = p + (fst x - 1)" "fst x - 1 < fst x" using False by simp_all
  ultimately have "\<forall>j < fst x. buf b (p + j) = buf a (p + j)" "buf b (p + fst x - 1) = buf a (p + fst x - 1)"
    "desc b (p + fst x - 1) = desc a (p + fst x - 1)" "buf b p = buf a p"
    using assms(1) [of "p + (fst x - 1)"] assms(1) [of p] False by auto
  then show ?thesis using assms(2) by (auto simp: frame_at_def split_beta)
qed (auto simp: frame_at_def split_beta)

lemma laid_cong:
  assumes "\<And>m. p \<le> m \<Longrightarrow> m < p + slots fs \<Longrightarrow> buf b m = buf a m \<and> desc b m = desc a m"
    and "tr_count (ad_tx_ring b) = tr_count (ad_tx_ring a)"
  shows "laid b p fs = laid a p fs"
  using assms(1)
proof (induction fs arbitrary: p)
  case (Cons x fs)
  have "frame_at b p x = frame_at a p x" by (rule frame_at_cong [OF _ assms(2)]) (use Cons.prems in auto)
  moreover have "laid b (p + fst x) fs = laid a (p + fst x) fs" by (rule Cons.IH) (use Cons.prems in auto)
  ultimately show ?case by simp
qed simp

lemma laid_append: "laid a p (fs @ gs) \<longleftrightarrow> laid a p fs \<and> laid a (p + slots fs) gs"
  by (induction fs arbitrary: p) (auto simp: add.assoc)

text \<open>The queue does not depend on the rest of the adapter.\<close>

lemma ring_ok_cong:
  assumes s: "ad_tx_ring b = (ad_tx_ring a)\<lparr>tr_last_tx_tso := t\<rparr>"
  shows "ring_ok b fs = ring_ok a fs"
proof -
  have s': "ad_tx_ring b = (ad_tx_ring a)\<lparr>tr_next_to_use := tr_next_to_use (ad_tx_ring a),
      tr_next_to_clean := tr_next_to_clean (ad_tx_ring a), tr_last_tx_tso := t\<rparr>" by (simp add: s)
  have "laid b h fs = laid a h fs" for h
    by (rule laid_cong) (simp_all add: same_ring [OF s'] s)
  then show ?thesis using same_ring [OF s'] by (simp add: ring_ok_def ring_body_def free_slot_def s)
qed

text \<open>A ring whose window has \<open>t\<close> slots has room for all the others but one.\<close>

lemma desc_unused_window:
  assumes c: "c \<noteq> 0" and t: "t < unat c"
  shows "unat (E1000_DESC_UNUSED c (slot c h) (slot c (h + t))) = unat c - t - 1"
proof -
  define n where "n = unat c"
  define g where "g = h mod n"
  have n: "n < 2 ^ 32" "c = of_nat n" "g < n" "t < n"
    using unsigned_less [of c, where 'a = nat] c t by (simp_all add: n_def g_def unat_gt_0)
  have cl: "unat (slot c h) = g" and us: "unat (slot c (h + t)) = (g + t) mod n"
    using unat_slot [OF c] by (simp_all add: g_def n_def mod_add_left_eq)
  have words: "slot c h = of_nat g" "slot c (h + t) = of_nat ((g + t) mod n)"
    using cl us by (metis of_nat_unat ucast_id)+
  have gt: "slot c h > slot c (h + t) \<longleftrightarrow> (g + t) mod n < g" by (simp add: word_less_nat_alt cl us)
  have "E1000_DESC_UNUSED c (slot c h) (slot c (h + t)) = of_nat (n - t - 1)"
  proof (cases "g + t < n")
    case True
    then have "E1000_DESC_UNUSED c (slot c h) (slot c (h + t)) = of_nat n + of_nat g - (of_nat g + of_nat t) - 1"
      using gt words n(2) by (simp add: E1000_DESC_UNUSED_def)
    then show ?thesis using n(4) by (simp add: of_nat_diff)
  next
    case False
    then have m: "(g + t) mod n = g + t - n" using n by (simp add: mod_if)
    then have "(g + t) mod n < g" using n False by linarith
    then have "E1000_DESC_UNUSED c (slot c h) (slot c (h + t)) = of_nat g - of_nat (g + t - n) - 1"
      using gt words n(2) by (simp add: E1000_DESC_UNUSED_def m)
    then show ?thesis using n False by (simp add: of_nat_diff)
  qed
  then show ?thesis using n(1) by (simp only: n_def [symmetric]) (rule unat_of_nat_small, simp)
qed

text \<open>The room \<open>e1000_maybe_stop_tx\<close> sees is the number of free slots but one.\<close>

lemma tx_unused_slots:
  assumes r: "ring_body a h fs" and ntu: "tr_next_to_use (ad_tx_ring a) = slot (tr_count (ad_tx_ring a)) (h + slots fs)"
  shows "unat (tx_unused (ad_tx_ring a)) = ring_size a - slots fs - 1"
proof -
  have "tr_count (ad_tx_ring a) \<noteq> 0" "slots fs < unat (tr_count (ad_tx_ring a))"
    "tr_next_to_clean (ad_tx_ring a) = slot (tr_count (ad_tx_ring a)) h"
    using r ring_positive [of a] by (auto simp: ring_body_def ring_size_def)
  then show ?thesis using desc_unused_window ntu by (simp add: tx_unused_def ring_size_def)
qed

text \<open>A frame written into the slots after the last one joins the queue at its end.\<close>

lemma ring_append:
  assumes r: "ring_body a h fs" and q: "q = h + slots fs" and k: "0 < k" "slots fs + k < ring_size a"
    and ok: "arrays_ok b" and c: "tr_count (ad_tx_ring b) = tr_count (ad_tx_ring a)"
    and cl: "tr_next_to_clean (ad_tx_ring b) = tr_next_to_clean (ad_tx_ring a)"
    and out: "\<And>m. outside a q k m \<Longrightarrow> buf b m = buf a m \<and> desc b m = desc a m"
    and none: "\<And>j. j < k - 1 \<Longrightarrow> tb_skb (buf b (q + j)) = None"
    and skb: "tb_skb (buf b (q + k - 1)) = Some f"
    and ntw: "tb_next_to_watch (buf b q) = ucast (slot (tr_count (ad_tx_ring b)) (q + k - 1))"
    and dd: "\<And>m. has_dd (desc b m) \<Longrightarrow> has_dd (desc a m)"
  shows "ring_body b h (fs @ [(k, f_id f, False)])"
proof -
  have n: "ring_size b = ring_size a" using c by (simp add: ring_size_def)
  have "laid b h fs = laid a h fs"
    by (rule laid_cong [OF out c]) (use k q outside_before [of _ q k a] in auto)
  moreover have "h + slots fs \<le> q + k - 1 \<and> q + k - 1 < h + ring_size a" using k q by auto
  then have "free_slot a (q + k - 1)" using r by (simp add: ring_body_def)
  then have "\<not> has_dd (desc b (q + k - 1))" using dd by (auto simp: free_slot_def)
  then have "frame_at b q (k, f_id f, False)" using k none skb ntw by (simp add: frame_at_def)
  moreover have "free_slot b m" if "q + k \<le> m" "m < h + ring_size a" for m
  proof -
    have "buf b m = buf a m \<and> desc b m = desc a m" by (rule out) (use that q outside_after [of q k m a] in auto)
    moreover have "free_slot a m" using r that q by (auto simp: ring_body_def)
    ultimately show ?thesis by (simp add: free_slot_def)
  qed
  ultimately show ?thesis using r k q ok c cl n by (auto simp: ring_body_def laid_append add.assoc)
qed

text \<open>A change of free slots that leaves them free leaves the queue alone.\<close>

lemma ring_within:
  assumes r: "ring_body a h fs" and w: "within (h + slots fs) k a b" and k: "slots fs + k \<le> ring_size a"
  shows "ring_body b h fs"
proof -
  have "outside a (h + slots fs) k m" if "h \<le> m" "m < h + slots fs" for m
    by (rule outside_before) (use that k in auto)
  then have "laid b h fs = laid a h fs"
    by (intro laid_cong) (use w in \<open>auto simp: within_def\<close>)
  moreover have "free_slot b m" if "free_slot a m" for m
    using that w by (auto simp: within_def free_slot_def)
  ultimately show ?thesis using r w by (auto simp: ring_body_def within_def ring_size_def)
qed

section \<open>Sending\<close>

lemma ring_okI:
  "ring_body a h fs \<Longrightarrow> tr_next_to_use (ad_tx_ring a) = slot (tr_count (ad_tx_ring a)) (h + slots fs) \<Longrightarrow> ring_ok a fs"
  by (auto simp: ring_ok_def)

lemma ring_ok_same: "ad_tx_ring b = ad_tx_ring a \<Longrightarrow> ring_ok b fs = ring_ok a fs"
  by (rule ring_ok_cong [where t = "tr_last_tx_tso (ad_tx_ring a)"]) simp

lemma maybe_stop_same [simp]:
  "ad_tx_ring (snd (e1000_maybe_stop_tx n a)) = ad_tx_ring a" "ad_log (snd (e1000_maybe_stop_tx n a)) = ad_log a"
  by (simp_all add: e1000_maybe_stop_tx_def Let_def)

lemma nic_log_same [simp]: "ad_tx_ring (nic_log e a) = ad_tx_ring a" "ad_log (nic_log e a) = ad_log a @ [e]"
  by (simp_all add: nic_log_def)

text \<open>The mapped frame is queued: \<open>n\<close> slots of a context, then \<open>k\<close> of data.\<close>

lemma queued_ring:
  assumes body: "ring_body a h fs" and q: "q = h + slots fs" and w: "within q n a a2" and k: "0 < k"
    and fit: "slots fs + (n + k) < ring_size a" and c: "c = tr_count (ad_tx_ring a)"
    and w2: "within (q + n) k a2 a3" and ntu: "tr_next_to_use (ad_tx_ring a3) = slot c (q + n)"
    and rec: "record_frame f (slot c q) (slot c (q + n + k - 1)) a3 = Some a4"
  shows "\<exists>a5. e1000_tx_queue fl (of_nat k) a4 = Some a5 \<and> ring_ok a5 (fs @ [(n + k, f_id f, False)])
    \<and> freed_ids (ad_log a5) = freed_ids (ad_log a)"
proof -
  have w3: "within q (n + k) a a3" by (rule within_trans [OF w w2])
  note ring3 = within_ring [OF w3]
  have ok3: "arrays_ok a3" and c3: "c = tr_count (ad_tx_ring a3)"
    using w3 body c by (simp_all add: within_def ring_body_def)
  have nk: "0 < n + k" "n + k \<le> ring_size a3" using k fit ring3(2) by simp_all
  have e: "q + n + k - 1 = q + (n + k) - 1" by simp
  note r = record_frame_result [OF ok3 c3 nk rec [unfolded e]]
  have ring4: "tr_count (ad_tx_ring a4) = c" "tr_next_to_use (ad_tx_ring a4) = slot c (q + n)"
    "tr_next_to_clean (ad_tx_ring a4) = tr_next_to_clean (ad_tx_ring a)"
    using c3 ntu ring3(3) by (subst r(2), simp)+
  have n5: "ring_size a5 = ring_size a" if "tr_count (ad_tx_ring a5) = c" for a5 using that c by (simp add: ring_size_def)
  have "k < 2 ^ 32" using fit body by (simp add: ring_body_def arrays_ok_def)
  then obtain a5 where tq: "e1000_tx_queue fl (of_nat k) a4 = Some a5" and w5: "within (q + n) k a4 a5"
    and b5: "buf a5 = buf a4" and ntu5: "tr_next_to_use (ad_tx_ring a5) = slot c (q + n + k)"
    using tx_queue_ends [OF r(1) ring4(1) [symmetric] ring4(2) k] by blast
  have c5: "tr_count (ad_tx_ring a5) = c" using within_ring(1) [OF w5] ring4 by simp
  have w4: "within q (n + k) a4 a5" by (rule within_sub [OF w5]) simp
  have out4: "outside a4 = outside a" by (simp add: outside_def fun_eq_iff n5 [OF ring4(1)])
  have "ring_body a5 h (fs @ [(n + k, f_id f, False)])"
  proof (rule ring_append [OF body q nk(1) fit])
    show "arrays_ok a5" using w4 r(1) by (simp add: within_def)
    show "tr_count (ad_tx_ring a5) = tr_count (ad_tx_ring a)" using c5 c by simp
    show "tr_next_to_clean (ad_tx_ring a5) = tr_next_to_clean (ad_tx_ring a)" using within_ring(3) [OF w5] ring4 by simp
    show "buf a5 m = buf a m \<and> desc a5 m = desc a m" if "outside a q (n + k) m" for m
      using that w3 w4 r(3) r(8) [of m] out4 ring3(5) unfolding within_def by metis
    show "tb_skb (buf a5 (q + j)) = None" if "j < n + k - 1" for j
    proof -
      have "(q + j) mod ring_size a3 \<noteq> (q + (n + k) - 1) mod ring_size a3"
        by (rule mod_apart) (use that fit ring3(2) in auto)
      then have "tb_skb (buf a5 (q + j)) = tb_skb (buf a (q + j))" using r(7) b5 within_skb [OF w3] by simp
      moreover have "h + slots fs \<le> q + j \<and> q + j < h + ring_size a" using that fit q by auto
      then have "free_slot a (q + j)" using body by (simp add: ring_body_def)
      ultimately show ?thesis by (simp add: free_slot_def)
    qed
    show "tb_skb (buf a5 (q + (n + k) - 1)) = Some f" using r(5) b5 by simp
    show "tb_next_to_watch (buf a5 q) = ucast (slot (tr_count (ad_tx_ring a5)) (q + (n + k) - 1))" using r(6) b5 c5 by simp
    show "has_dd (desc a m)" if "has_dd (desc a5 m)" for m using that w3 w5 r(3) by (simp add: within_def)
  qed
  then have "ring_ok a5 (fs @ [(n + k, f_id f, False)])"
    by (rule ring_okI) (use ntu5 c5 q in \<open>simp add: add.assoc\<close>)
  moreover have "freed_ids (ad_log a5) = freed_ids (ad_log a)" using within_ring(4) [OF w5] r(4) ring3(4) by simp
  ultimately show ?thesis using tq by blast
qed

text \<open>The frame could not be mapped: the ring is taken back to where the frame would have begun.\<close>

lemma dropped_ring:
  assumes body: "ring_body a h fs" and q: "q = h + slots fs" and w: "within q m a a2"
    and fit: "slots fs + m \<le> ring_size a" and c: "c = tr_count (ad_tx_ring a)"
  shows "\<exists>b. get_buf (slot c q) a2 = Some b \<and>
    ring_ok (map_tx (\<lambda>R. R\<lparr>tr_next_to_use := slot c q\<rparr>) (set_buf (slot c q) (b\<lparr>tb_time_stamp := 0\<rparr>) a2)) fs"
proof -
  have ok2: "arrays_ok a2" and c2: "c = tr_count (ad_tx_ring a2)" using w body c by (simp_all add: within_def ring_body_def)
  define a3 where "a3 = set_buf (slot c q) ((buf a2 q)\<lparr>tb_time_stamp := 0\<rparr>) a2"
  define a4 where "a4 = map_tx (\<lambda>R. R\<lparr>tr_next_to_use := slot c q\<rparr>) a3"
  have "within q 1 a2 a3" unfolding a3_def by (rule within_set_buf [OF ok2 c2]) (use watch_here [OF ok2] in auto)
  then have "within q (max m 1) a a3"
    by (intro within_join [OF within_sub [of q 0, OF _ _] within_sub [of q 0]]) (use w in auto)
  moreover have "slots fs + max m 1 \<le> ring_size a" using fit body by (auto simp: ring_body_def max_def)
  ultimately have b3: "ring_body a3 h fs" using ring_within [OF body] q by blast
  have s: "ad_tx_ring a4 = (ad_tx_ring a3)\<lparr>tr_next_to_use := slot c q,
      tr_next_to_clean := tr_next_to_clean (ad_tx_ring a3), tr_last_tx_tso := tr_last_tx_tso (ad_tx_ring a3)\<rparr>"
    by (simp add: a4_def map_tx_def)
  have "laid a4 h fs = laid a3 h fs" by (rule laid_cong) (simp_all add: same_ring [OF s] s)
  then have "ring_body a4 h fs" using b3 same_ring [OF s] by (simp add: ring_body_def free_slot_def s)
  then have "ring_ok a4 fs" by (rule ring_okI) (use c2 q in \<open>simp add: a4_def a3_def map_tx_def set_buf_def\<close>)
  then show ?thesis using get_slot(1) [OF ok2 c2] by (simp add: a4_def a3_def)
qed

text \<open>What \<open>e1000_send\<close> does once the frame is mapped, or could not be.\<close>

lemma send_mapped:
  assumes "tx_offload N f a = Some (Some flags, f1, a1)"
    and "e1000_tx_map N f1 (tr_next_to_use (ad_tx_ring a)) (max_per_txd (frame_mss f)) (frame_mss f) a1 = Some (of_nat k, a3)"
    and "(of_nat k :: u32) \<noteq> 0" and "e1000_tx_queue flags (of_nat k) a3 = Some a5"
  shows "\<exists>a6. e1000_send N f a = Some (E1000_TX_OK, f1, a6) \<and> ad_tx_ring a6 = ad_tx_ring a5
    \<and> freed_ids (ad_log a6) = freed_ids (ad_log a5)"
  using assms by (auto simp: e1000_send_def Let_def)

lemma send_unmapped:
  assumes "tx_offload N f a = Some (Some flags, f1, a1)" and i: "i = tr_next_to_use (ad_tx_ring a)"
    and "e1000_tx_map N f1 i (max_per_txd (frame_mss f)) (frame_mss f) a1 = Some (0, a2)"
    and "get_buf i a2 = Some b"
  shows "\<exists>a6. e1000_send N f a = Some (E1000_TX_OK, f1, a6)
    \<and> ad_tx_ring a6 = ad_tx_ring (map_tx (\<lambda>R. R\<lparr>tr_next_to_use := i\<rparr>) (set_buf i (b\<lparr>tb_time_stamp := 0\<rparr>) a2))
    \<and> freed_ids (ad_log a6) = freed_ids (ad_log a2) @ [f_id f1]"
  using assms by (auto simp: e1000_send_def Let_def get_buf_def map_tx_def set_buf_def split: if_splits)

text \<open>With room for the reservation, \<open>e1000_send\<close> queues the frame or releases it; it never fails.\<close>

lemma send_cases:
  assumes r: "ring_ok a fs" and f: "frame_ok f"
    and room: "reserve_nat a (skb_headlen f) f < ring_size a - slots fs"
  shows "\<exists>f1 a'. e1000_send N f a = Some (E1000_TX_OK, f1, a') \<and>
    ((\<exists>k \<le> reserve_nat a (skb_headlen f) f. ring_ok a' (fs @ [(k, f_id f, False)]) \<and> freed_ids (ad_log a') = freed_ids (ad_log a))
     \<or> ring_ok a' fs \<and> freed_ids (ad_log a') = freed_ids (ad_log a) @ [f_id f])"
proof -
  define c where "c = tr_count (ad_tx_ring a)"
  obtain h where body: "ring_body a h fs" and ntu: "tr_next_to_use (ad_tx_ring a) = slot c (h + slots fs)"
    using r by (auto simp: ring_ok_def c_def)
  define q where "q = h + slots fs"
  have ok: "arrays_ok a" using body by (simp add: ring_body_def)
  have free: "free_slot a m" if "q \<le> m" "m < h + ring_size a" for m
    using body that by (simp add: ring_body_def q_def)
  obtain fl f1 n a1 where off: "tx_offload N f a = Some (fl, f1, a1)" and w1: "within q n a a1"
    and ntu1: "tr_next_to_use (ad_tx_ring a1) = slot c (q + n)"
    and n: "n \<le> of_bool (frame_mss f \<noteq> 0 \<or> ip_summed (f_skb f) = CHECKSUM_PARTIAL)"
    and same: "f_id f1 = f_id f" "frame_ok f1 = frame_ok f" "frame_mss f1 = frame_mss f" "map_need f1 a1 = map_need f a"
    and none: "fl = None \<longrightarrow> n = 0"
    using tx_offload_ends [OF ok c_def ntu [folded q_def], of N f] by blast
  have need: "map_need f a + n \<le> reserve_nat a (skb_headlen f) f" using map_need_reserve [of f a] n by linarith
  then have fit: "slots fs + (n + map_need f a) < ring_size a" using room by linarith
  have freed1: "freed_ids (ad_log a1) = freed_ids (ad_log a)" and c1: "c = tr_count (ad_tx_ring a1)"
    using within_ring [OF w1] by (simp_all add: c_def)
  show ?thesis
  proof (cases fl)
    case None
    then have "n = 0" using none by simp
    with w1 have "within (h + slots fs) 0 a a1" by (simp add: q_def)
    then have "ring_body a1 h fs" by (rule ring_within [OF body]) (use fit in simp)
    then have "ring_ok a1 fs" by (rule ring_okI) (use ntu1 \<open>n = 0\<close> c1 in \<open>simp add: q_def\<close>)
    then have "ring_ok (nic_log (Kfree_skb (f_id f1)) a1) fs" by (subst ring_ok_same [of _ a1]) simp_all
    then show ?thesis using off None same freed1 by (simp add: e1000_send_def free_frame_def Let_def)
  next
    case (Some flags)
    have ok1: "arrays_ok a1" using w1 ok by (simp add: within_def)
    have b1: "buffers_ok a1" and cn: "unat c = ring_size a1" using ok1 c1 by (simp_all add: arrays_ok_def ring_size_def)
    have first: "unat (slot c q) < unat c" using slot_here(2) [OF ok1 c1] cn by simp
    have empty: "\<forall>i < map_need f1 a1. tb_skb (tr_buffer_info (ad_tx_ring a1) ! ((q + n + i) mod unat c)) = None"
    proof (intro allI impI)
      fix i assume "i < map_need f1 a1"
      then have "free_slot a (q + n + i)" using fit same by (intro free) (auto simp: q_def)
      then show "tb_skb (tr_buffer_info (ad_tx_ring a1) ! ((q + n + i) mod unat c)) = None"
        using within_skb [OF w1, of "q + n + i"] cn by (simp add: free_slot_def buf_def)
    qed
    note maps = tx_map_cases [OF same(2) [THEN iffD2, OF f] b1 c1 ntu1 first empty, of N, unfolded same(3,4)]
    show ?thesis
    proof (rule maps)
      fix k a2 a3
      assume k: "0 < k" "k \<le> map_need f a" and t: "touched (q + n) k a1 a2"
        and rec: "record_frame f1 (slot c q) (slot c (q + n + k - 1)) a2 = Some a3"
        and map: "e1000_tx_map N f1 (slot c q) (max_per_txd (frame_mss f)) (frame_mss f) a1 = Some (of_nat k, a3)"
      have "slots fs + (n + k) < ring_size a" using fit k by linarith
      from queued_ring [OF body q_def w1 k(1) this c_def touched_within [OF t ok1] _ rec, of flags] touched_ring(3) [OF t] ntu1
      obtain a5 where tq: "e1000_tx_queue flags (of_nat k) a3 = Some a5"
        and r5: "ring_ok a5 (fs @ [(n + k, f_id f1, False)])" and f5: "freed_ids (ad_log a5) = freed_ids (ad_log a)" by auto
      have z: "(of_nat k :: u32) \<noteq> 0"
        using unat_of_nat_small [of k] k map_need_le [OF f, of a] by (metis le_less_trans less_irrefl unat_0)
      obtain a6 where s: "e1000_send N f a = Some (E1000_TX_OK, f1, a6)" and r6: "ad_tx_ring a6 = ad_tx_ring a5"
        and f6: "freed_ids (ad_log a6) = freed_ids (ad_log a5)"
        using send_mapped [OF off [unfolded Some] _ z tq] map ntu by (auto simp: q_def)
      have "ring_ok a6 (fs @ [(n + k, f_id f, False)])" using r5 same(1) ring_ok_same [OF r6] by simp
      moreover have "n + k \<le> reserve_nat a (skb_headlen f) f" using need k by linarith
      ultimately show ?thesis using s f5 f6 by auto
    next
      fix k a2
      assume k: "0 < k" "k \<le> map_need f a" and t: "touched (q + n) k a1 a2"
        and map: "e1000_tx_map N f1 (slot c q) (max_per_txd (frame_mss f)) (frame_mss f) a1 = Some (0, a2)"
      have w2: "within q (n + k) a a2" by (rule within_trans [OF w1 touched_within [OF t ok1]])
      have "slots fs + (n + k) \<le> ring_size a" using fit k by linarith
      from dropped_ring [OF body q_def w2 this c_def] obtain b where b: "get_buf (slot c q) a2 = Some b"
        and ring: "ring_ok (map_tx (\<lambda>R. R\<lparr>tr_next_to_use := slot c q\<rparr>) (set_buf (slot c q) (b\<lparr>tb_time_stamp := 0\<rparr>) a2)) fs"
        by blast
      obtain a6 where s: "e1000_send N f a = Some (E1000_TX_OK, f1, a6)"
        and r6: "ad_tx_ring a6 = ad_tx_ring (map_tx (\<lambda>R. R\<lparr>tr_next_to_use := slot c q\<rparr>) (set_buf (slot c q) (b\<lparr>tb_time_stamp := 0\<rparr>) a2))"
        and f6: "freed_ids (ad_log a6) = freed_ids (ad_log a2) @ [f_id f1]"
        using send_unmapped [OF off [unfolded Some] _ map b] ntu by (auto simp: q_def)
      have "ring_ok a6 fs" using ring ring_ok_same [OF r6] by simp
      then show ?thesis using s f6 same(1) within_ring(4) [OF w2] by auto
    qed
  qed
qed

end
