(* ===== verification/Dysco_E1000_Clean.thy ===== *)
theory Dysco_E1000_Clean
  imports Dysco_E1000_Queue
begin

text \<open>
  The other end of the transmit queue: \<open>e1000_clean_tx_irq\<close> always returns, takes the longest
  prefix of frames the device has sent off the queue and releases each of them once, in order.
\<close>

section \<open>One frame\<close>

text \<open>From \<open>a\<close> to \<open>a'\<close> the \<open>k\<close> slots from \<open>p\<close> on have become free, the others are as they were.\<close>

definition cleaned :: "nat \<Rightarrow> nat \<Rightarrow> e1000_adapter \<Rightarrow> e1000_adapter \<Rightarrow> bool" where
  "cleaned p k a a' \<longleftrightarrow> tr_count (ad_tx_ring a') = tr_count (ad_tx_ring a)
     \<and> tr_next_to_use (ad_tx_ring a') = tr_next_to_use (ad_tx_ring a)
     \<and> (arrays_ok a \<longrightarrow> arrays_ok a')
     \<and> (\<forall>m. outside a p k m \<longrightarrow> buf a' m = buf a m \<and> desc a' m = desc a m)
     \<and> (\<forall>i < k. free_slot a' (p + i))"

lemma cleaned_refl: "cleaned p 0 a a"
  by (simp add: cleaned_def)

lemma cleaned_size: "cleaned p k a b \<Longrightarrow> ring_size b = ring_size a \<and> outside b = outside a"
  by (simp add: cleaned_def ring_size_def outside_def fun_eq_iff)

lemma cleaned_trans:
  assumes 1: "cleaned p k a b" and 2: "cleaned (p + k) m b c" and n: "k + m \<le> ring_size a"
  shows "cleaned p (k + m) a c"
proof -
  note sz = cleaned_size [OF 1]
  have "buf c x = buf a x \<and> desc c x = desc a x" if o: "outside a p (k + m) x" for x
  proof -
    have "outside a p k x" "outside a (p + k) m x" using o by (auto simp: outside_def add.assoc)
    then show ?thesis using 1 2 sz by (simp add: cleaned_def)
  qed
  moreover have "free_slot c (p + i)" if i: "i < k + m" for i
  proof (cases "i < k")
    case True
    then have "outside b (p + k) m (p + i)" using n sz by (intro outside_before) auto
    then show ?thesis using 1 2 True by (simp add: cleaned_def free_slot_def)
  next
    case False
    have "\<forall>i < m. free_slot c (p + k + i)" using 2 by (simp add: cleaned_def)
    from this [rule_format, of "i - k"] have "free_slot c (p + k + (i - k))" using i False by linarith
    then show ?thesis using False by simp
  qed
  ultimately show ?thesis using 1 2 by (simp add: cleaned_def)
qed

lemma slot_eq_iff:
  assumes "arrays_ok a" and "c = tr_count (ad_tx_ring a)" and "r < ring_size a"
  shows "slot c p = slot c (p + r) \<longleftrightarrow> r = 0"
proof
  assume "slot c p = slot c (p + r)"
  then have "p mod ring_size a = (p + r) mod ring_size a" using slot_here(1) [OF assms(1,2)] by metis
  then show "r = 0" using mod_apart [of p "p + r" "ring_size a"] assms(3) by (cases "r = 0") auto
qed simp

lemma free_slot_mod: "free_slot a (m + ring_size a) = free_slot a m"
  by (simp add: free_slot_def buf_def desc_def)

abbreviation held :: "e1000_adapter \<Rightarrow> nat \<Rightarrow> nat list" where
  "held a m \<equiv> (case tb_skb (buf a m) of None \<Rightarrow> [] | Some f \<Rightarrow> [f_id f])"

lemma unmap_slot:
  assumes ok: "arrays_ok a" and c: "c = tr_count (ad_tx_ring a)"
  shows "\<exists>es. e1000_unmap_and_free_tx_resource (slot c p) a
       = Some (set_buf (slot c p) ((buf a p)\<lparr>tb_dma := 0, tb_skb := None, tb_time_stamp := 0\<rparr>) (a\<lparr>ad_log := ad_log a @ es\<rparr>))
     \<and> freed_ids es = held a p"
proof -
  define es where "es = (if tb_dma (buf a p) \<noteq> 0
      then [Dma_unmap (tb_dma (buf a p)) (tb_length (buf a p)) (tb_mapped_as_page (buf a p))] else [])
    @ (case tb_skb (buf a p) of None \<Rightarrow> [] | Some f \<Rightarrow> [Kfree_skb (f_id f)])"
  have "freed_ids es = held a p" by (simp add: es_def split: option.split)
  moreover have "e1000_unmap_and_free_tx_resource (slot c p) a
       = Some (set_buf (slot c p) ((buf a p)\<lparr>tb_dma := 0, tb_skb := None, tb_time_stamp := 0\<rparr>) (a\<lparr>ad_log := ad_log a @ es\<rparr>))"
    unfolding e1000_unmap_and_free_tx_resource_def get_slot(1) [OF ok c]
    by (simp add: es_def nic_log_def Let_def split: option.split)
  ultimately show ?thesis by blast
qed

lemma log_same:
  "buf (a\<lparr>ad_log := e\<rparr>) = buf a" "desc (a\<lparr>ad_log := e\<rparr>) = desc a" "arrays_ok (a\<lparr>ad_log := e\<rparr>) = arrays_ok a"
  "ring_size (a\<lparr>ad_log := e\<rparr>) = ring_size a"
  by (simp_all add: buf_def desc_def ring_size_def arrays_ok_def buffers_ok_def watch_ok_def fun_eq_iff)

lemma clean_slot_ends:
  assumes ok: "arrays_ok (cl_ad l)" and c: "c = tr_count (ad_tx_ring (cl_ad l))" and i: "cl_i l = slot c p"
  shows "\<exists>l'. clean_slot eop l = Some l' \<and> cl_i l' = slot c (Suc p) \<and> cl_count l' = cl_count l + 1
     \<and> cleaned p 1 (cl_ad l) (cl_ad l')
     \<and> freed_ids (ad_log (cl_ad l')) = freed_ids (ad_log (cl_ad l)) @ held (cl_ad l) p"
proof -
  let ?a = "cl_ad l"
  obtain es where un: "e1000_unmap_and_free_tx_resource (slot c p) ?a
       = Some (set_buf (slot c p) ((buf ?a p)\<lparr>tb_dma := 0, tb_skb := None, tb_time_stamp := 0\<rparr>) (?a\<lparr>ad_log := ad_log ?a @ es\<rparr>))"
    and es: "freed_ids es = held ?a p"
    using unmap_slot [OF ok c, of p] by (elim exE conjE) (rule that)
  define a0 where "a0 = ?a\<lparr>ad_log := ad_log ?a @ es\<rparr>"
  note s0 = log_same [where a = ?a and e = "ad_log ?a @ es", folded a0_def]
  have ok0: "arrays_ok a0" using ok s0(3) by simp
  have c0: "c = tr_count (ad_tx_ring a0)" unfolding a0_def c by simp
  define b where "b = (buf ?a p)\<lparr>tb_dma := 0, tb_skb := None, tb_time_stamp := 0\<rparr>"
  define a1 where "a1 = set_buf (slot c p) b a0"
  have "unat (tb_next_to_watch b) < ring_size a0" using watch_here [OF ok, of p] s0 by (simp add: b_def)
  then have ok1: "arrays_ok a1" unfolding a1_def by (rule arrays_set_slot(2) [OF ok0])
  have c1: "c = tr_count (ad_tx_ring a1)" using c0 by (simp add: a1_def)
  define d where "d = (desc a1 p)\<lparr>td_upper := 0\<rparr>"
  define a2 where "a2 = set_desc (slot c p) d a1"
  note buf1 = buf_set_slot(1) [OF ok0 c0, of p b, folded a1_def]
  note desc2 = buf_set_slot(2) [OF ok1 c1, of p d, folded a2_def]
  have n: "ring_size a2 = ring_size ?a" "ring_size a1 = ring_size ?a" "ring_size a0 = ring_size ?a"
    using s0 by (simp_all add: a2_def a1_def)
  have "free_slot a2 p" using desc2 [of p] buf1 [of p] by (simp add: free_slot_def a2_def has_dd_def d_def b_def)
  moreover have "buf a2 m = buf ?a m \<and> desc a2 m = desc ?a m" if "m mod ring_size ?a \<noteq> p mod ring_size ?a" for m
  proof -
    have "buf a2 m = buf a1 m" "desc a1 m = desc a0 m" by (simp_all add: a2_def a1_def)
    then show ?thesis using desc2 [of m] buf1 [of m] that n s0(1,2) by simp
  qed
  moreover have ok2: "arrays_ok a2" unfolding a2_def by (rule arrays_set_slot(1) [OF ok1])
  moreover have "tr_count (ad_tx_ring a2) = tr_count (ad_tx_ring ?a)"
    and "tr_next_to_use (ad_tx_ring a2) = tr_next_to_use (ad_tx_ring ?a)" by (simp_all add: a2_def a1_def a0_def)
  ultimately have cl: "cleaned p 1 ?a a2" unfolding cleaned_def outside_one by simp
  have nx: "ring_next (tr_count (ad_tx_ring a1)) (slot c p) = slot c (Suc p)"
    using ring_next_slot [of c p] ok1 c1 by (simp add: arrays_ok_def buffers_ok_def)
  have fr: "freed_ids (ad_log a2) = freed_ids (ad_log ?a) @ held ?a p" using es by (simp add: a2_def a1_def a0_def)
  have un1: "e1000_unmap_and_free_tx_resource (slot c p) ?a = Some a1" unfolding un a1_def b_def a0_def ..
  have "\<exists>l'. clean_slot eop l = Some l' \<and> cl_ad l' = a2 \<and> cl_i l' = slot c (Suc p) \<and> cl_count l' = cl_count l + 1"
    unfolding clean_slot_def i Let_def get_slot(1) [OF ok c] un1 get_slot(2) [OF ok1 c1] bind.bind_lunit nx
    by (simp add: a2_def d_def)
  then show ?thesis using cl fr by auto
qed

lemma clean_frame_ends:
  assumes "arrays_ok (cl_ad l)" and "c = tr_count (ad_tx_ring (cl_ad l))" and "cl_i l = slot c p"
    and "eop = slot c (p + r)" and "r < ring_size (cl_ad l)"
    and "\<And>j. j < r \<Longrightarrow> tb_skb (buf (cl_ad l) (p + j)) = None" and "tb_skb (buf (cl_ad l) (p + r)) = Some f"
  shows "\<exists>l'. clean_frame eop l = Some l' \<and> cl_i l' = slot c (p + Suc r) \<and> cl_count l' = cl_count l + of_nat (Suc r)
     \<and> cleaned p (Suc r) (cl_ad l) (cl_ad l')
     \<and> freed_ids (ad_log (cl_ad l')) = freed_ids (ad_log (cl_ad l)) @ [f_id f]"
  using assms
proof (induction r arbitrary: l p)
  case 0
  from clean_slot_ends [OF 0(1-3), of eop] obtain l' where s: "clean_slot eop l = Some l'"
    and l': "cl_i l' = slot c (Suc p)" "cl_count l' = cl_count l + 1" "cleaned p 1 (cl_ad l) (cl_ad l')"
      "freed_ids (ad_log (cl_ad l')) = freed_ids (ad_log (cl_ad l)) @ held (cl_ad l) p" by blast
  have "clean_frame eop l = Some l'" using s 0 by (subst clean_frame.simps) simp
  then show ?case using l' 0 by simp
next
  case (Suc r)
  from clean_slot_ends [OF Suc.prems(1-3), of eop] obtain l1 where s: "clean_slot eop l = Some l1"
    and l1: "cl_i l1 = slot c (Suc p)" "cl_count l1 = cl_count l + 1" "cleaned p 1 (cl_ad l) (cl_ad l1)"
      "freed_ids (ad_log (cl_ad l1)) = freed_ids (ad_log (cl_ad l)) @ held (cl_ad l) p" by blast
  have none: "held (cl_ad l) p = []" using Suc.prems(6) [of 0] by simp
  note sz = cleaned_size [OF l1(3)]
  have keep: "buf (cl_ad l1) (Suc p + j) = buf (cl_ad l) (Suc p + j)" if "j \<le> r" for j
  proof -
    have "outside (cl_ad l) p 1 (Suc p + j)" using that Suc.prems(5) by (intro outside_after) auto
    then show ?thesis using l1(3) by (simp add: cleaned_def)
  qed
  have "\<exists>l'. clean_frame eop l1 = Some l' \<and> cl_i l' = slot c (Suc p + Suc r) \<and> cl_count l' = cl_count l1 + of_nat (Suc r)
     \<and> cleaned (Suc p) (Suc r) (cl_ad l1) (cl_ad l')
     \<and> freed_ids (ad_log (cl_ad l')) = freed_ids (ad_log (cl_ad l1)) @ [f_id f]"
  proof (rule Suc.IH)
    show "tb_skb (buf (cl_ad l1) (Suc p + j)) = None" if "j < r" for j
      using keep [of j] Suc.prems(6) [of "Suc j"] that by simp
    show "tb_skb (buf (cl_ad l1) (Suc p + r)) = Some f" using keep [of r] Suc.prems(7) by simp
  qed (use l1 Suc.prems sz in \<open>simp_all add: cleaned_def\<close>)
  then obtain l' where rest: "clean_frame eop l1 = Some l'" "cl_i l' = slot c (Suc p + Suc r)"
    "cl_count l' = cl_count l1 + of_nat (Suc r)" "cleaned (Suc p) (Suc r) (cl_ad l1) (cl_ad l')"
    "freed_ids (ad_log (cl_ad l')) = freed_ids (ad_log (cl_ad l1)) @ [f_id f]" by blast
  have "slot c p \<noteq> slot c (p + Suc r)" using slot_eq_iff [OF Suc.prems(1,2,5)] by simp
  then have "clean_frame eop l = Some l'" using s rest(1) Suc.prems(3,4) by (subst clean_frame.simps) simp
  moreover have "cleaned p (1 + Suc r) (cl_ad l) (cl_ad l')"
    by (rule cleaned_trans [OF l1(3)]) (use rest(4) Suc.prems(5) in simp_all)
  ultimately show ?case using rest l1 none by (auto simp: add.assoc)
qed

section \<open>The loop over the frames\<close>

abbreviation sent :: "flight \<Rightarrow> bool" where
  "sent \<equiv> snd \<circ> snd"

text \<open>What the loop relies on at position \<open>h\<close> with the frames \<open>fs\<close> still in flight.\<close>

definition in_flight :: "e1000_adapter \<Rightarrow> nat \<Rightarrow> flight list \<Rightarrow> bool" where
  "in_flight a h fs \<longleftrightarrow> arrays_ok a \<and> slots fs < ring_size a \<and> laid a h fs
     \<and> (\<forall>m. h + slots fs \<le> m \<and> m < h + ring_size a \<longrightarrow> free_slot a m)"

lemma ring_body_in_flight:
  "ring_body a h fs \<longleftrightarrow> in_flight a h fs \<and> tr_next_to_clean (ad_tx_ring a) = slot (tr_count (ad_tx_ring a)) h"
  by (auto simp: ring_body_def in_flight_def)

lemma ucast_watch:
  assumes "arrays_ok a" and "c = tr_count (ad_tx_ring a)"
  shows "(ucast (ucast (slot c p) :: u16) :: u32) = slot c p"
proof -
  have "unat (slot c p) < 65536" using slot_here(2) [OF assms, of p] assms by (simp add: arrays_ok_def)
  then show ?thesis
    by (intro word_unat_eq_iff [THEN iffD2]) (simp add: unsigned_ucast_eq unsigned_take_bit_eq take_bit_nat_eq_self)
qed

lemma frame_done_empty:
  assumes f: "in_flight (cl_ad l) h []" and c: "c = tr_count (ad_tx_ring (cl_ad l))" and i: "cl_i l = slot c h"
  shows "\<exists>eop. frame_done l = Some (eop, False) \<and> unat eop < ring_size (cl_ad l)"
proof -
  let ?a = "cl_ad l" and ?w = "ucast (tb_next_to_watch (buf (cl_ad l) h)) :: u32"
  have ok: "arrays_ok ?a" using f by (simp add: in_flight_def)
  have w: "unat ?w < ring_size ?a"
    using watch_here [OF ok, of h] by (simp add: unsigned_ucast_eq le_less_trans [OF take_bit_nat_less_eq_self])
  then obtain j where j: "j < ring_size ?a" "unat ?w = (h + j) mod ring_size ?a" using position by blast
  then have "get_desc ?w ?a = Some (desc ?a (h + j))"
    using w ok by (simp add: get_desc_def desc_def arrays_ok_def Let_def)
  moreover have "\<not> has_dd (desc ?a (h + j))" using f j by (simp add: in_flight_def free_slot_def)
  ultimately show ?thesis using get_slot(1) [OF ok c, of h] w by (simp add: frame_done_def i has_dd_def Let_def)
qed

lemma frame_done_first:
  assumes f: "in_flight (cl_ad l) h ((k, x, d) # fs)" and c: "c = tr_count (ad_tx_ring (cl_ad l))" and i: "cl_i l = slot c h"
  shows "frame_done l = Some (slot c (h + k - 1), d)"
proof -
  have ok: "arrays_ok (cl_ad l)" using f by (simp add: in_flight_def)
  have w: "tb_next_to_watch (buf (cl_ad l) h) = ucast (slot c (h + k - 1))"
    and d: "has_dd (desc (cl_ad l) (h + k - 1)) = d" using f c by (simp_all add: in_flight_def frame_at_def)
  show ?thesis
    unfolding frame_done_def i get_slot(1) [OF ok c] bind.bind_lunit w ucast_watch [OF ok c] Let_def get_slot(2) [OF ok c]
    using d by (simp add: has_dd_def)
qed

text \<open>A cleaned frame leaves the rest of the queue behind it.\<close>

lemma in_flight_cleaned:
  assumes f: "in_flight a h ((k, x, d) # fs)" and cl: "cleaned h k a b"
  shows "in_flight b (h + k) fs"
proof -
  have fit: "k + slots fs < ring_size a" using f by (simp add: in_flight_def)
  note sz = cleaned_size [OF cl]
  have same: "buf b m = buf a m \<and> desc b m = desc a m" if "h + k \<le> m" "m < h + ring_size a" for m
    using cl that outside_after [of h k m a] by (simp add: cleaned_def)
  have "laid b (h + k) fs = laid a (h + k) fs"
    by (rule laid_cong [OF same]) (use fit cl in \<open>auto simp: cleaned_def\<close>)
  moreover have "free_slot b m" if m: "h + k + slots fs \<le> m" "m < h + k + ring_size a" for m
  proof (cases "m < h + ring_size a")
    case True
    then have "free_slot a m" using f m by (simp add: in_flight_def)
    then show ?thesis using same [of m] m True by (simp add: free_slot_def)
  next
    case False
    then obtain i where i: "m = h + i + ring_size a" "i < k" using m(2) by (metis add.assoc add.commute le_Suc_ex nat_add_left_cancel_less not_less)
    have "free_slot b (h + i)" using cl i(2) by (simp add: cleaned_def)
    then show ?thesis unfolding i(1) using free_slot_mod [of b "h + i"] sz by simp
  qed
  ultimately show ?thesis using f cl sz fit by (auto simp: in_flight_def cleaned_def)
qed

lemma clean_frames_ends:
  assumes "in_flight (cl_ad l) h fs" and "c = tr_count (ad_tx_ring (cl_ad l))" and "cl_i l = slot c h"
    and "unat (cl_count l) + slots fs < ring_size (cl_ad l)"
  shows "\<exists>eop l'. clean_frames l = Some (eop, l') \<and> cl_i l' = slot c (h + slots (takeWhile sent fs))
     \<and> cleaned h (slots (takeWhile sent fs)) (cl_ad l) (cl_ad l')
     \<and> in_flight (cl_ad l') (h + slots (takeWhile sent fs)) (dropWhile sent fs)
     \<and> freed_ids (ad_log (cl_ad l')) = freed_ids (ad_log (cl_ad l)) @ ids (takeWhile sent fs)
     \<and> unat (cl_count l') = unat (cl_count l) + slots (takeWhile sent fs) \<and> unat eop < ring_size (cl_ad l)"
  using assms
proof (induction fs arbitrary: l h)
  case Nil
  from frame_done_empty [OF Nil(1-3)] obtain eop where "frame_done l = Some (eop, False)" "unat eop < ring_size (cl_ad l)"
    by blast
  then show ?case using Nil by (subst clean_frames.simps) (simp add: cleaned_refl)
next
  case (Cons x fs)
  obtain k i d where x: "x = (k, i, d)" by (cases x)
  let ?a = "cl_ad l"
  note fl = Cons.prems(1) [unfolded x]
  have ok: "arrays_ok ?a" using fl by (simp add: in_flight_def)
  have k: "0 < k" "k + slots fs < ring_size ?a" "\<forall>j < k - 1. tb_skb (buf ?a (h + j)) = None"
    using fl by (auto simp: in_flight_def frame_at_def)
  note fdone = frame_done_first [OF fl Cons.prems(2,3)]
  show ?case
  proof (cases d)
    case False
    then show ?thesis using fdone slot_here(2) [OF ok Cons.prems(2)] Cons.prems x
      by (subst clean_frames.simps) (simp add: cleaned_refl)
  next
    case True
    obtain g where g: "tb_skb (buf ?a (h + k - 1)) = Some g" "f_id g = i" using fl by (auto simp: in_flight_def frame_at_def)
    have e: "h + k - 1 = h + (k - 1)" "h + Suc (k - 1) = h + k" "Suc (k - 1) = k" using k(1) by simp_all
    have "k - 1 < ring_size ?a" using k by simp
    from clean_frame_ends [OF ok Cons.prems(2,3) _ this, of "slot c (h + k - 1)" g] k(3) g(1) e
    obtain l1 where cf: "clean_frame (slot c (h + k - 1)) l = Some l1" and l1: "cl_i l1 = slot c (h + k)"
      "cl_count l1 = cl_count l + of_nat k" "cleaned h k ?a (cl_ad l1)"
      "freed_ids (ad_log (cl_ad l1)) = freed_ids (ad_log ?a) @ [i]" using g(2) by auto
    note sz = cleaned_size [OF l1(3)]
    have n: "ring_size ?a < 2 ^ 32" using ok by (simp add: arrays_ok_def)
    then have ct: "unat (cl_count l1) = unat (cl_count l) + k"
      using l1(2) Cons.prems(4) x unat_of_nat_small [of k] k(2) by (simp add: unat_word_ariths(1))
    have c1: "c = tr_count (ad_tx_ring (cl_ad l1))" using l1(3) Cons.prems(2) by (simp add: cleaned_def)
    have lt1: "unat (cl_count l1) + slots fs < ring_size (cl_ad l1)" using ct Cons.prems(4) sz x by simp
    obtain eop l' where rest: "clean_frames l1 = Some (eop, l')" "cl_i l' = slot c (h + k + slots (takeWhile sent fs))"
      "cleaned (h + k) (slots (takeWhile sent fs)) (cl_ad l1) (cl_ad l')"
      "in_flight (cl_ad l') (h + k + slots (takeWhile sent fs)) (dropWhile sent fs)"
      "freed_ids (ad_log (cl_ad l')) = freed_ids (ad_log (cl_ad l1)) @ ids (takeWhile sent fs)"
      "unat (cl_count l') = unat (cl_count l1) + slots (takeWhile sent fs)" "unat eop < ring_size (cl_ad l1)"
      using Cons.IH [OF in_flight_cleaned [OF fl l1(3)] c1 l1(1) lt1] by blast
    have "cl_count l < tr_count (ad_tx_ring ?a)" using Cons.prems(4) by (simp add: word_less_nat_alt ring_size_def)
    then have "clean_frames l = clean_frames l1" using fdone cf True by (subst clean_frames.simps) simp
    moreover have "slots (takeWhile sent fs) \<le> slots fs"
      by (metis takeWhile_dropWhile_id map_append sum_list_append le_add1)
    then have "cleaned h (k + slots (takeWhile sent fs)) ?a (cl_ad l')"
      by (intro cleaned_trans [OF l1(3) rest(3)]) (use k(2) in linarith)
    ultimately show ?thesis using rest l1 True x ct sz by (simp add: add.assoc comp_def)
  qed
qed

end
