(* ===== verification/Dysco_E1000_Ring.thy ===== *)
theory Dysco_E1000_Ring
  imports Dysco_E1000_Clean "HOL-Library.Multiset"
begin

text \<open>
  The life of the transmit ring: \<open>e1000_setup_tx_resources\<close> makes it, frames come and go, the
  device marks descriptors as done, \<open>e1000_clean_tx_ring\<close> empties it. Whatever the order of these
  steps, the ring is a queue of frames in flight, and every frame the driver has accepted is either
  in flight or was released exactly once.
\<close>

section \<open>Making the ring\<close>

text \<open>
  The memory the kernel gives: whether \<^verbatim>\<open>vzalloc\<close> succeeds, and the address of the \<open>n\<close>-th
  coherent allocation, if any.
\<close>

record ring_memory =
  rm_vzalloc :: bool
  rm_coherent :: "nat \<Rightarrow> u64 option"

datatype mem_event = Vzalloc | Vfree | Coherent_alloc u64 | Coherent_free u64

definition e1000_check_64k_bound :: "e1000_hw \<Rightarrow> u64 \<Rightarrow> u64 \<Rightarrow> bool" where
  "e1000_check_64k_bound hw start len = (
     if hw_mac_type hw = e1000_82545 \<or> hw_mac_type hw = e1000_ce4100 \<or> hw_mac_type hw = e1000_82546
     then drop_bit 16 (start XOR (start + len - 1)) = 0 else True)"

definition ring_bytes :: "u32 \<Rightarrow> u64" where
  "ring_bytes n = (ucast n * 16 + 4095) AND NOT 4095"

text \<open>
  The arrays of a ring that could not be made are gone: an access to them is a fault. The flag
  \<open>tr_last_tx_tso\<close> keeps its value. The result says whether the ring was made.
\<close>

definition e1000_setup_tx_resources :: "ring_memory \<Rightarrow> e1000_adapter \<Rightarrow> bool \<times> e1000_adapter \<times> mem_event list" where
  "e1000_setup_tx_resources M a = (
     let n = unat (tr_count (ad_tx_ring a));
         bytes = ring_bytes (tr_count (ad_tx_ring a));
         good = map_tx (\<lambda>R. R\<lparr>tr_buffer_info := replicate n zero_tx_buffer, tr_desc := replicate n zero_tx_desc,
                   tr_next_to_use := 0, tr_next_to_clean := 0\<rparr>) a;
         bad = map_tx (\<lambda>R. R\<lparr>tr_buffer_info := [], tr_desc := []\<rparr>) a
     in if \<not> rm_vzalloc M then (False, bad, [])
        else case rm_coherent M 0 of
          None \<Rightarrow> (False, bad, [Vzalloc, Vfree])
        | Some d \<Rightarrow>
            if e1000_check_64k_bound (ad_hw a) d bytes then (True, good, [Vzalloc, Coherent_alloc d])
            else (case rm_coherent M 1 of
                None \<Rightarrow> (False, bad, [Vzalloc, Coherent_alloc d, Coherent_free d, Vfree])
              | Some d2 \<Rightarrow>
                  if \<not> e1000_check_64k_bound (ad_hw a) d2 bytes
                  then (False, bad, [Vzalloc, Coherent_alloc d, Coherent_alloc d2, Coherent_free d2, Coherent_free d, Vfree])
                  else (True, good, [Vzalloc, Coherent_alloc d, Coherent_alloc d2, Coherent_free d])))"

lemma fresh_ring:
  assumes c: "c = tr_count (ad_tx_ring a)" "c \<noteq> 0" "unat c \<le> 65536"
    and bs: "tr_buffer_info (ad_tx_ring a) = replicate (unat c) zero_tx_buffer"
    and ds: "tr_desc (ad_tx_ring a) = replicate (unat c) zero_tx_desc"
    and i: "tr_next_to_use (ad_tx_ring a) = 0" "tr_next_to_clean (ad_tx_ring a) = 0"
  shows "ring_ok a []"
proof -
  have n: "ring_size a = unat c" "0 < unat c" using c by (simp_all add: ring_size_def unat_gt_0)
  have "arrays_ok a"
    using c bs ds n by (simp add: arrays_ok_def buffers_ok_def watch_ok_def zero_tx_buffer_def)
  moreover have "free_slot a m" for m
    using bs ds n by (simp add: free_slot_def buf_def desc_def has_dd_def zero_tx_buffer_def zero_tx_desc_def)
  moreover have "slot c 0 = 0" by (simp add: slot_def)
  ultimately show ?thesis
    using i n c(1) by (intro ring_okI [of _ 0]) (simp_all add: ring_body_def)
qed

lemma setup_ring_ok:
  "e1000_setup_tx_resources M a = (True, a', es) \<Longrightarrow> tr_count (ad_tx_ring a) \<noteq> 0
    \<Longrightarrow> unat (tr_count (ad_tx_ring a)) \<le> 65536 \<Longrightarrow> ring_ok a' []"
  by (rule fresh_ring [of "tr_count (ad_tx_ring a)"])
     (auto simp: e1000_setup_tx_resources_def Let_def map_tx_def split: if_splits option.splits)

section \<open>Sending and cleaning\<close>

text \<open>A frame as the stack hands it over: like \<open>frame_ok\<close>, but it may be shorter than 60 bytes.\<close>

definition frame_shape :: "tx_frame \<Rightarrow> bool" where
  "frame_shape f \<longleftrightarrow> length (f_frags f) \<le> 17
     \<and> unat (f_data_len f) = sum_list (map (\<lambda>s. unat (snd s)) (f_frags f))
     \<and> unat (f_data_len f) < unat (skb_len (f_skb f)) \<and> unat (skb_len (f_skb f)) < 2 ^ 30"

lemma frame_ok_shape: "frame_ok f \<longleftrightarrow> frame_shape f \<and> 60 \<le> unat (skb_len (f_skb f))"
  by (auto simp: frame_ok_def frame_shape_def)

text \<open>
  What the driver relies on in the kernel: \<^verbatim>\<open>eth_skb_pad\<close> leaves a frame of at least 60 bytes alone
  and pads a shorter one to 60 bytes in one part (or releases it); \<^verbatim>\<open>__pskb_pull_tail\<close> moves bytes
  between the parts of a frame but loses none.
\<close>

definition nic_ok :: "nic_kernel \<Rightarrow> bool" where
  "nic_ok N \<longleftrightarrow> (\<forall>f. frame_ok f \<longrightarrow> n_pad N f = Some f)
     \<and> (\<forall>f g. frame_shape f \<longrightarrow> \<not> frame_ok f \<longrightarrow> n_pad N f = Some g \<longrightarrow> frame_ok g \<and> f_id g = f_id f
         \<and> f_gso_size g = f_gso_size f \<and> skb_headlen g = 60)
     \<and> (\<forall>k f g. frame_ok f \<longrightarrow> n_pull N k f = Some g \<longrightarrow> frame_ok g \<and> f_id g = f_id f)"

text \<open>
  The function reserves descriptors for the length \<open>len\<close> of the linear part it has read at its start.
  By the time the descriptors are made the part may have been padded, or lengthened by the module.
  As long as the frame is not segmented and this adds less than 4096 bytes, the reservation is short
  of two descriptors at most, and these are kept free.
\<close>

definition length_known :: "u32 \<Rightarrow> tx_frame \<Rightarrow> bool" where
  "length_known len f \<longleftrightarrow> unat len < 2 ^ 30
     \<and> (unat (skb_headlen f) \<le> unat len \<or> frame_mss f = 0 \<and> unat (skb_headlen f) < unat len + 4096)"

lemma length_known_self: "frame_ok f \<Longrightarrow> length_known (skb_headlen f) f"
  using frame_ok_headlen(1) [of f] by (simp add: length_known_def frame_ok_def)

lemma reserve_old_length:
  assumes "length_known len f"
  shows "reserve_nat a (skb_headlen f) f \<le> reserve_nat a len f + 2"
proof (cases "unat (skb_headlen f) \<le> unat len")
  case True
  then have "unat (skb_headlen f) div 2 ^ max_txd_pwr (frame_mss f) \<le> unat len div 2 ^ max_txd_pwr (frame_mss f)" by (rule div_le_mono)
  moreover have "of_bool (P \<and> 2015 < unat (skb_headlen f)) \<le> (of_bool (P \<and> 2015 < unat len) :: nat)" for P
    using True by (simp add: of_bool_def)
  ultimately show ?thesis unfolding reserve_nat_def by (intro add_mono trans_le_add1) simp_all
next
  case False
  then have m: "frame_mss f = 0" and l: "unat (skb_headlen f) \<le> unat len + 4096" using assms by (auto simp: length_known_def)
  have "unat (skb_headlen f) div 4096 \<le> (unat len + 4096) div 4096" using l by (rule div_le_mono)
  then have "unat (skb_headlen f) div 2 ^ max_txd_pwr (frame_mss f) \<le> unat len div 2 ^ max_txd_pwr (frame_mss f) + 1"
    using m by (simp add: max_txd_pwr_def)
  moreover have "of_bool (P \<and> 2015 < unat (skb_headlen f)) \<le> (of_bool (P \<and> 2015 < unat len) :: nat) + 1" for P by simp
  ultimately show ?thesis unfolding reserve_nat_def by (simp add: of_bool_def)
qed

lemma pad_ok:
  assumes N: "nic_ok N" and f: "frame_shape f" and short: "unat (skb_len (f_skb f)) < 60 \<longrightarrow> frame_mss f = 0" and l: "length_known len f"
  obtains "n_pad N f = None"
  | g where "n_pad N f = Some g" and "frame_ok g" and "f_id g = f_id f" and "length_known len g"
proof (cases "n_pad N f")
  case (Some g)
  show thesis
  proof (cases "frame_ok f")
    case True
    then show thesis using that(2) [of f] N l by (simp add: nic_ok_def)
  next
    case False
    then have "frame_mss f = 0" using f short by (auto simp: frame_ok_shape not_le)
    moreover have "frame_ok g" "f_id g = f_id f" "f_gso_size g = f_gso_size f" "skb_headlen g = 60"
      using N f False Some unfolding nic_ok_def by blast+
    ultimately show thesis using that(2) [OF Some] l by (simp add: length_known_def frame_mss_def)
  qed
qed (rule that(1))

lemma pull_header_ok:
  assumes "nic_ok N" and "frame_ok f" and "length_known len f"
  obtains "pull_header N len f a = None"
  | g n where "pull_header N len f a = Some (g, n)" and "frame_ok g" and "f_id g = f_id f" and "length_known n g"
proof (cases "pull_header N len f a")
  case (Some p)
  then show thesis using that(2) [of "fst p" "snd p"] assms length_known_self
    by (auto simp: pull_header_def nic_ok_def split: if_splits)
qed (rule that(1))

lemma room_reserved:
  assumes r: "ring_ok a fs" and f: "frame_ok f" and l: "length_known len f"
    and room: "\<not> fst (e1000_maybe_stop_tx (tx_reserve a len f + 2) a)"
  shows "reserve_nat a (skb_headlen f) f < ring_size a - slots fs"
proof -
  let ?r = "reserve_nat a len f"
  have "unat len < 2 ^ 30" using l by (simp add: length_known_def)
  then have "?r + 2 < 2 ^ 32" by (rule reserve_nat_less [OF f])
  then have "unat (of_nat (?r + 2) :: u32) = ?r + 2" by (rule unat_of_nat_small)
  moreover have "tx_reserve a len f + 2 = of_nat (?r + 2)" by (simp add: tx_reserve_nat)
  moreover have "tx_reserve a len f + 2 \<le> tx_unused (ad_tx_ring a)"
    using room by (auto simp: e1000_maybe_stop_tx_def Let_def split: if_splits)
  ultimately have "?r + 2 \<le> unat (tx_unused (ad_tx_ring a))" by (simp only: word_le_nat_alt)
  moreover obtain h where "ring_body a h fs" "tr_next_to_use (ad_tx_ring a) = slot (tr_count (ad_tx_ring a)) (h + slots fs)"
    using r by (auto simp: ring_ok_def)
  ultimately have "?r + 2 < ring_size a - slots fs" using tx_unused_slots by fastforce
  then show ?thesis using reserve_old_length [OF l, of a] by linarith
qed

lemma fifo_workaround_same [simp]:
  "ad_tx_ring (snd (e1000_82547_fifo_workaround n a)) = ad_tx_ring a"
  "ad_log (snd (e1000_82547_fifo_workaround n a)) = ad_log a"
  "ad_hw (snd (e1000_82547_fifo_workaround n a)) = ad_hw a"
  "ad_pcix_82544 (snd (e1000_82547_fifo_workaround n a)) = ad_pcix_82544 a"
  by (simp_all add: e1000_82547_fifo_workaround_def fifo_advance_def Let_def)

lemma maybe_stop_hw [simp]:
  "ad_hw (snd (e1000_maybe_stop_tx n a)) = ad_hw a" "ad_pcix_82544 (snd (e1000_maybe_stop_tx n a)) = ad_pcix_82544 a"
  by (simp_all add: e1000_maybe_stop_tx_def Let_def)

lemma reserve_nat_cong:
  "ad_tx_ring b = ad_tx_ring a \<Longrightarrow> ad_hw b = ad_hw a \<Longrightarrow> ad_pcix_82544 b = ad_pcix_82544 a
    \<Longrightarrow> reserve_nat b len f = reserve_nat a len f"
  by (simp add: reserve_nat_def erratum_tso_def)

lemma xmit_cases:
  assumes r: "ring_ok a fs" and f: "frame_shape f" and short: "unat (skb_len (f_skb f)) < 60 \<longrightarrow> frame_mss f = 0"
    and len: "length_known len f" and N: "nic_ok N"
  shows "\<exists>x g a'. e1000_xmit_body N len f a = Some (x, g, a') \<and>
    (case x of
       E1000_TX_BUSY \<Rightarrow> ring_ok a' fs \<and> freed_ids (ad_log a') = freed_ids (ad_log a) \<and> f_id g = f_id f
     | E1000_TX_OK \<Rightarrow> (\<exists>k. ring_ok a' (fs @ [(k, f_id f, False)])) \<and> freed_ids (ad_log a') = freed_ids (ad_log a)
         \<or> ring_ok a' fs \<and> freed_ids (ad_log a') = freed_ids (ad_log a) @ [f_id f])"
proof -
  have freed: ?thesis if "e1000_xmit_body N len f a = Some (free_frame g a)" "f_id g = f_id f" for g
    using that r ring_ok_same [of "nic_log (Kfree_skb (f_id f)) a" a] by (simp add: free_frame_def)
  show ?thesis
  proof (rule pad_ok [OF N f short len])
    assume "n_pad N f = None"
    then show ?thesis by (intro freed) (simp_all add: e1000_xmit_body_def)
  next
    fix p assume pad: "n_pad N f = Some p" and p: "frame_ok p" "f_id p = f_id f" "length_known len p"
    show ?thesis
    proof (rule pull_header_ok [OF N p(1,3), of a])
      assume "pull_header N len p a = None"
      then show ?thesis using p(2) by (intro freed [of p]) (simp_all add: e1000_xmit_body_def pad)
    next
      fix g n assume h: "pull_header N len p a = Some (g, n)" and g: "frame_ok g" "f_id g = f_id p" "length_known n g"
      obtain busy a1 where ms: "e1000_maybe_stop_tx (tx_reserve a n g + 2) a = (busy, a1)" by fastforce
      obtain stall a2 where st: "(if hw_mac_type (ad_hw a1) = e1000_82547
          then e1000_82547_fifo_workaround (skb_len (f_skb g)) a1 else (False, a1)) = (stall, a2)" by fastforce
      have a1: "ad_tx_ring a1 = ad_tx_ring a" "ad_log a1 = ad_log a" "ad_hw a1 = ad_hw a" "ad_pcix_82544 a1 = ad_pcix_82544 a"
        using maybe_stop_same [of _ a] maybe_stop_hw [of _ a] ms by (metis snd_conv)+
      have a2: "ad_tx_ring a2 = ad_tx_ring a1" "ad_log a2 = ad_log a1" "ad_hw a2 = ad_hw a1" "ad_pcix_82544 a2 = ad_pcix_82544 a1"
        using fifo_workaround_same [of "skb_len (f_skb g)" a1] arg_cong [OF st, of snd] by (auto split: if_splits)
      have body: "e1000_xmit_body N len f a = (if busy then Some (E1000_TX_BUSY, g, a1)
          else if stall then Some (E1000_TX_BUSY, g, a2\<lparr>ad_queue_stopped := True\<rparr>) else e1000_send N g a2)"
        by (simp add: e1000_xmit_body_def pad h ms st)
      show ?thesis
      proof (cases "busy \<or> stall")
        case True
        then show ?thesis using r ring_ok_same [OF a1(1)] ring_ok_same [of "a2\<lparr>ad_queue_stopped := True\<rparr>" a] a1 a2 g p(2)
          by (auto simp: body)
      next
        case False
        then have "reserve_nat a (skb_headlen g) g < ring_size a - slots fs"
          using room_reserved [OF r g(1,3)] ms by simp
        then have "reserve_nat a2 (skb_headlen g) g < ring_size a2 - slots fs"
          using reserve_nat_cong [of a2 a] a1 a2 by (simp add: ring_size_def)
        from send_cases [OF _ g(1) this, of N] show ?thesis
          using False r ring_ok_same [of a2 a] a1 a2 g p(2) by (fastforce simp: body)
      qed
    qed
  qed
qed

lemma detect_hang_same:
  assumes "unat eop < length (tr_buffer_info (ad_tx_ring a))"
  shows "\<exists>a'. detect_hang N eop a = Some a' \<and> ad_tx_ring a' = ad_tx_ring a \<and> ad_log a' = ad_log a"
  using assms by (simp add: detect_hang_def get_buf_def Let_def)

lemma clean_tx_irq_result:
  assumes r: "ring_ok a fs"
  shows "\<exists>a'. e1000_clean_tx_irq N a = Some (True, a') \<and> ring_ok a' (dropWhile sent fs)
     \<and> freed_ids (ad_log a') = freed_ids (ad_log a) @ ids (takeWhile sent fs)"
proof -
  define c where "c = tr_count (ad_tx_ring a)"
  obtain h where fl: "in_flight a h fs" and cl: "tr_next_to_clean (ad_tx_ring a) = slot c h"
    and nu: "tr_next_to_use (ad_tx_ring a) = slot c (h + slots fs)"
    using r by (auto simp: ring_ok_def ring_body_in_flight c_def)
  let ?l = "\<lparr>cl_ad = a, cl_i = tr_next_to_clean (ad_tx_ring a), cl_count = 0, cl_bytes = 0, cl_packets = 0\<rparr>"
  let ?k = "slots (takeWhile sent fs)"
  have ok: "arrays_ok a" and fit: "slots fs < ring_size a" using fl by (simp_all add: in_flight_def)
  obtain eop l where run: "clean_frames ?l = Some (eop, l)" and i: "cl_i l = slot c (h + ?k)"
    and cd: "cleaned h ?k a (cl_ad l)" and fl': "in_flight (cl_ad l) (h + ?k) (dropWhile sent fs)"
    and fr: "freed_ids (ad_log (cl_ad l)) = freed_ids (ad_log a) @ ids (takeWhile sent fs)"
    and ct: "unat (cl_count l) = ?k" and eop: "unat eop < ring_size a"
    using clean_frames_ends [of ?l h fs c] fl cl fit by (auto simp: c_def)
  have split: "slots fs = ?k + slots (dropWhile sent fs)"
    by (metis takeWhile_dropWhile_id map_append sum_list_append)
  define a1 where "a1 = wake_queue (cl_count l) (map_tx (\<lambda>R. R\<lparr>tr_next_to_clean := cl_i l\<rparr>) (cl_ad l))"
  have r1: "ad_tx_ring a1 = (ad_tx_ring (cl_ad l))\<lparr>tr_next_to_clean := cl_i l\<rparr>" and lg: "ad_log a1 = ad_log (cl_ad l)"
    by (simp_all add: a1_def wake_queue_def map_tx_def)
  have "length (tr_buffer_info (ad_tx_ring a1)) = ring_size a"
    using fl' cleaned_size [OF cd] r1 by (simp add: in_flight_def arrays_ok_def buffers_ok_def ring_size_def)
  then obtain a2 where dh: "detect_hang N eop a1 = Some a2" and a2: "ad_tx_ring a2 = ad_tx_ring a1" "ad_log a2 = ad_log a1"
    using detect_hang_same [of eop a1 N] eop by auto
  define a3 where "a3 = a2\<lparr>ad_total_tx_bytes := ad_total_tx_bytes a2 + cl_bytes l,
          ad_total_tx_packets := ad_total_tx_packets a2 + cl_packets l,
          ad_stat_tx_bytes := ad_stat_tx_bytes a2 + ucast (cl_bytes l),
          ad_stat_tx_packets := ad_stat_tx_packets a2 + ucast (cl_packets l)\<rparr>"
  have r3: "ad_tx_ring a3 = (ad_tx_ring (cl_ad l))\<lparr>tr_next_to_clean := cl_i l\<rparr>" using r1 a2 by (simp add: a3_def)
  then have r3': "ad_tx_ring a3 = (ad_tx_ring (cl_ad l))\<lparr>tr_next_to_use := tr_next_to_use (ad_tx_ring (cl_ad l)),
      tr_next_to_clean := cl_i l, tr_last_tx_tso := tr_last_tx_tso (ad_tx_ring (cl_ad l))\<rparr>" by simp
  note s3 = same_ring [OF r3']
  have c3: "tr_count (ad_tx_ring a3) = c" and n3: "tr_next_to_use (ad_tx_ring a3) = slot c (h + slots fs)"
    using r3 cd nu by (simp_all add: cleaned_def c_def)
  have "laid a3 (h + ?k) (dropWhile sent fs) = laid (cl_ad l) (h + ?k) (dropWhile sent fs)"
    by (rule laid_cong) (simp_all add: s3 r3)
  then have "in_flight a3 (h + ?k) (dropWhile sent fs)" using fl' s3 by (simp add: in_flight_def free_slot_def)
  then have "ring_ok a3 (dropWhile sent fs)"
    using c3 n3 i r3 split by (intro ring_okI [of _ "h + ?k"]) (simp_all add: ring_body_in_flight add.assoc)
  moreover have "cl_count l < tr_count (ad_tx_ring a2)"
    using ct split fit c3 by (simp add: word_less_nat_alt a3_def c_def ring_size_def)
  then have "e1000_clean_tx_irq N a = Some (True, a3)"
    using run dh by (simp add: e1000_clean_tx_irq_def a1_def a3_def Let_def)
  moreover have "freed_ids (ad_log a3) = freed_ids (ad_log a) @ ids (takeWhile sent fs)"
    using fr lg a2 by (simp add: a3_def)
  ultimately show ?thesis by blast
qed

section \<open>Emptying the ring\<close>

lemma held_run: "laid a p fs \<Longrightarrow> concat (map (held a) [p..<p + slots fs]) = ids fs"
proof (induction fs arbitrary: p)
  case (Cons x fs)
  obtain k i d where x: "x = (k, i, d)" by (cases x)
  have fr: "0 < k" "\<forall>j < k - 1. tb_skb (buf a (p + j)) = None" "\<exists>f. tb_skb (buf a (p + k - 1)) = Some f \<and> f_id f = i"
    using Cons.prems x by (simp_all add: frame_at_def)
  have "held a m = []" if "m \<in> set [p..<p + k - 1]" for m
    using fr(2) [rule_format, of "m - p"] that by auto
  then have "concat (map (held a) [p..<p + k - 1]) = []" by (simp add: concat_eq_Nil_conv)
  moreover have "[p..<p + k] = [p..<p + k - 1] @ [p + k - 1]" using fr(1) by (cases k) simp_all
  ultimately have "concat (map (held a) [p..<p + k]) = [i]" using fr(3) by auto
  moreover have "[p..<p + slots (x # fs)] = [p..<p + k] @ [p + k..<p + k + slots fs]"
    using x upt_add_eq_append [of p "p + k" "slots fs"] by (simp add: add.assoc)
  ultimately show ?case using Cons.IH [of "p + k"] Cons.prems x by simp
qed simp

lemma held_shift:
  assumes "0 < ring_size a"
  shows "mset (concat (map (held a) [h..<h + ring_size a])) = mset (concat (map (held a) [0..<ring_size a]))"
proof (induction h)
  case (Suc h)
  have "[h..<h + ring_size a] = h # [Suc h..<h + ring_size a]" using assms by (simp add: upt_conv_Cons)
  moreover have "[Suc h..<Suc h + ring_size a] = [Suc h..<h + ring_size a] @ [h + ring_size a]" using assms by simp
  moreover have "held a (h + ring_size a) = held a h" by (simp add: buf_def)
  ultimately show ?case using Suc.IH by (simp add: union_commute)
qed simp

lemma held_all:
  assumes "ring_ok a fs"
  shows "mset (concat (map (held a) [0..<ring_size a])) = mset (ids fs)"
proof -
  obtain h where b: "ring_body a h fs" using assms by (auto simp: ring_ok_def)
  then have n: "0 < ring_size a" "slots fs \<le> ring_size a" by (simp_all add: ring_body_def)
  have "held a m = []" if "m \<in> set [h + slots fs..<h + ring_size a]" for m
    using b that by (simp add: ring_body_def free_slot_def)
  then have none: "concat (map (held a) [h + slots fs..<h + ring_size a]) = []" by (simp add: concat_eq_Nil_conv)
  have "[h..<h + ring_size a] = [h..<h + slots fs] @ [h + slots fs..<h + ring_size a]"
    using upt_add_eq_append [of h "h + slots fs" "ring_size a - slots fs"] n by simp
  moreover have "concat (map (held a) [h..<h + slots fs]) = ids fs" using b by (simp add: ring_body_def held_run)
  ultimately have "concat (map (held a) [h..<h + ring_size a]) = ids fs"
    unfolding \<open>[h..<h + ring_size a] = _\<close> by (simp only: map_append concat_append none append_Nil2)
  then show ?thesis using held_shift [OF n(1), of h] by simp
qed

lemma free_slots_ends:
  assumes "arrays_ok a" and "m \<le> ring_size a"
  shows "\<exists>a'. free_slots m a = Some a' \<and> arrays_ok a' \<and> tr_count (ad_tx_ring a') = tr_count (ad_tx_ring a)
     \<and> (\<forall>j. m \<le> j \<and> j < ring_size a \<longrightarrow> buf a' j = buf a j)
     \<and> freed_ids (ad_log a') = freed_ids (ad_log a) @ concat (map (held a) [0..<m])"
  using assms(2)
proof (induction m)
  case (Suc m)
  let ?c = "tr_count (ad_tx_ring a)"
  obtain a1 where run: "free_slots m a = Some a1" and ok1: "arrays_ok a1" and c1: "?c = tr_count (ad_tx_ring a1)"
    and same: "\<forall>j. m \<le> j \<and> j < ring_size a \<longrightarrow> buf a1 j = buf a j"
    and fr: "freed_ids (ad_log a1) = freed_ids (ad_log a) @ concat (map (held a) [0..<m])" using Suc by auto
  have n: "ring_size a1 = ring_size a" using c1 by (simp add: ring_size_def)
  have m: "of_nat m = slot ?c m" using Suc.prems by (simp add: slot_def ring_size_def)
  define b where "b = (buf a1 m)\<lparr>tb_dma := 0, tb_skb := None, tb_time_stamp := 0\<rparr>"
  obtain es where un: "e1000_unmap_and_free_tx_resource (slot ?c m) a1
      = Some (set_buf (slot ?c m) b (a1\<lparr>ad_log := ad_log a1 @ es\<rparr>))" and es: "freed_ids es = held a1 m"
    using unmap_slot [OF ok1 c1, of m, folded b_def] by (elim exE conjE) (rule that)
  define a0 where "a0 = a1\<lparr>ad_log := ad_log a1 @ es\<rparr>"
  note s0 = log_same [where a = a1 and e = "ad_log a1 @ es", folded a0_def]
  have ok0: "arrays_ok a0" using ok1 s0(3) by simp
  have c0: "?c = tr_count (ad_tx_ring a0)" using c1 by (simp add: a0_def)
  have "unat (tb_next_to_watch b) < ring_size a0" using watch_here [OF ok1, of m] s0 by (simp add: b_def)
  then have "arrays_ok (set_buf (slot ?c m) b a0)" by (rule arrays_set_slot(2) [OF ok0])
  moreover have "buf (set_buf (slot ?c m) b a0) j = buf a j" if "Suc m \<le> j" "j < ring_size a" for j
    using buf_set_slot(1) [OF ok0 c0, of m b j] that same s0 n by simp
  moreover have "held a1 m = held a m" using same Suc.prems by simp
  ultimately show ?case
    using run un es fr c0 by (simp add: m a0_def)
qed (simp add: assms(1))

lemma clean_tx_ring_result:
  assumes r: "ring_ok a fs"
  shows "\<exists>a' gone. e1000_clean_tx_ring a = Some a' \<and> ring_ok a' []
     \<and> freed_ids (ad_log a') = freed_ids (ad_log a) @ gone \<and> mset gone = mset (ids fs)"
proof -
  let ?n = "ring_size a"
  have ok: "arrays_ok a" using r by (auto simp: ring_ok_def ring_body_def)
  obtain a1 where run: "free_slots ?n a = Some a1" and ok1: "arrays_ok a1"
    and c1: "tr_count (ad_tx_ring a1) = tr_count (ad_tx_ring a)"
    and fr: "freed_ids (ad_log a1) = freed_ids (ad_log a) @ concat (map (held a) [0..<?n])"
    using free_slots_ends [OF ok order_refl] by blast
  define a2 where "a2 = nic_log (Write_tail 0) (map_tx (\<lambda>R. R\<lparr>
       tr_buffer_info := replicate (unat (tr_count R)) zero_tx_buffer,
       tr_desc := replicate (length (tr_desc R)) zero_tx_desc,
       tr_next_to_use := 0, tr_next_to_clean := 0, tr_last_tx_tso := False\<rparr>) a1)"
  have "length (tr_desc (ad_tx_ring a1)) = unat (tr_count (ad_tx_ring a1))" using ok1 by (simp add: arrays_ok_def ring_size_def)
  then have "ring_ok a2 []"
    using ok1 by (intro fresh_ring [of "tr_count (ad_tx_ring a1)"])
      (simp_all add: a2_def map_tx_def arrays_ok_def buffers_ok_def ring_size_def)
  moreover have "e1000_clean_tx_ring a = Some a2" using run by (simp add: e1000_clean_tx_ring_def a2_def ring_size_def)
  moreover have "freed_ids (ad_log a2) = freed_ids (ad_log a) @ concat (map (held a) [0..<?n])"
    using fr by (simp add: a2_def map_tx_def)
  ultimately show ?thesis using held_all [OF r] by blast
qed

section \<open>The device\<close>

text \<open>
  The device reports a descriptor as done; the driver asks for a report at the end of a frame only,
  so the slot is one that holds a packet.
\<close>

definition write_back :: "u32 \<Rightarrow> e1000_adapter \<Rightarrow> e1000_adapter option" where
  "write_back i a = do {
     b \<leftarrow> get_buf i a;
     d \<leftarrow> get_desc i a;
     if tb_skb b = None then None else Some (set_desc i (d\<lparr>td_upper := td_upper d OR 1\<rparr>) a)
   }"

lemma laid_written_back:
  assumes ok: "arrays_ok a" and c: "c = tr_count (ad_tx_ring a)"
    and b: "b = set_desc (slot c m) ((desc a m)\<lparr>td_upper := td_upper (desc a m) OR 1\<rparr>) a"
    and skb: "tb_skb (buf a m) \<noteq> None" and lay: "laid a p fs" and m: "p \<le> m" "m < p + slots fs"
    and n: "slots fs \<le> ring_size a"
  shows "\<exists>gs. laid b p gs \<and> map fst gs = map fst fs \<and> ids gs = ids fs"
  using lay m n
proof (induction fs arbitrary: p)
  case (Cons x fs)
  obtain k i d where x: "x = (k, i, d)" by (cases x)
  have db: "desc b j = (if j mod ring_size a = m mod ring_size a then (desc a m)\<lparr>td_upper := td_upper (desc a m) OR 1\<rparr> else desc a j)" for j
    unfolding b by (rule buf_set_slot(2) [OF ok c])
  have bb: "buf b = buf a" "tr_count (ad_tx_ring b) = tr_count (ad_tx_ring a)" by (simp_all add: b)
  have away: "desc b j = desc a j" if "j < m \<and> m < j + ring_size a \<or> m < j \<and> j < m + ring_size a" for j
    using that mod_apart [of j m "ring_size a"] mod_apart [of m j "ring_size a"] by (auto simp: db)
  have fr: "frame_at a p x" and rest: "laid a (p + k) fs" and len: "k + slots fs \<le> ring_size a"
    using Cons.prems x by simp_all
  show ?case
  proof (cases "m < p + k")
    case True
    have "m = p + k - 1"
    proof (rule ccontr)
      assume "m \<noteq> p + k - 1"
      then have "m - p < k - 1" using True Cons.prems(2) by linarith
      with fr skb Cons.prems(2) x show False by (auto simp: frame_at_def)
    qed
    moreover have "has_dd ((desc a m)\<lparr>td_upper := td_upper (desc a m) OR 1\<rparr>)" by (simp add: has_dd_odd even_or_iff)
    ultimately have "frame_at b p (k, i, True)" using fr bb db [of m] x by (simp add: frame_at_def)
    moreover have "laid b (p + k) fs = laid a (p + k) fs"
      by (rule laid_cong) (use bb away True Cons.prems(2) len in auto)
    ultimately show ?thesis using rest x by (intro exI [of _ "(k, i, True) # fs"]) simp
  next
    case False
    have "frame_at b p x = frame_at a p x"
      by (rule frame_at_cong) (use bb away False Cons.prems x len in auto)
    moreover obtain gs where "laid b (p + k) gs" "map fst gs = map fst fs" "ids gs = ids fs"
      using Cons.IH [OF rest] False Cons.prems x len by (auto simp: comp_def)
    ultimately show ?thesis using fr x by (intro exI [of _ "x # gs"]) (simp add: comp_def)
  qed
qed simp

lemma write_back_ok:
  assumes r: "ring_ok a fs" and w: "write_back i a = Some b"
  shows "\<exists>gs. ring_ok b gs \<and> ids gs = ids fs \<and> freed_ids (ad_log b) = freed_ids (ad_log a)"
proof -
  define c where "c = tr_count (ad_tx_ring a)"
  obtain h where body: "ring_body a h fs" and nu: "tr_next_to_use (ad_tx_ring a) = slot c (h + slots fs)"
    using r by (auto simp: ring_ok_def c_def)
  have ok: "arrays_ok a" using body by (simp add: ring_body_def)
  have lt: "unat i < ring_size a"
    using w ok by (auto simp: write_back_def get_buf_def arrays_ok_def buffers_ok_def ring_size_def Let_def split: if_splits bind_splits)
  then obtain j where j: "j < ring_size a" "unat i = (h + j) mod ring_size a" using position by blast
  have i: "i = slot c (h + j)"
    using j(2) slot_here(1) [OF ok c_def, of "h + j"] by (intro word_unat_eq_iff [THEN iffD2]) simp
  have skb: "tb_skb (buf a (h + j)) \<noteq> None"
    and b: "b = set_desc (slot c (h + j)) ((desc a (h + j))\<lparr>td_upper := td_upper (desc a (h + j)) OR 1\<rparr>) a"
    using w get_slot [OF ok c_def, of "h + j"] by (simp_all add: write_back_def i split: if_splits)
  have j2: "j < slots fs"
    using body skb j(1) by (auto simp: ring_body_def free_slot_def not_less intro: ccontr)
  obtain gs where gs: "laid b h gs" "map fst gs = map fst fs" "ids gs = ids fs"
    using laid_written_back [OF ok c_def b skb, of h fs] body j2 by (auto simp: ring_body_def)
  have "free_slot b m" if "h + slots fs \<le> m" "m < h + ring_size a" for m
  proof -
    have "m mod ring_size a \<noteq> (h + j) mod ring_size a" by (rule not_sym [OF mod_apart]) (use that j2 in auto)
    then have "desc b m = desc a m" unfolding b by (simp add: buf_set_slot(2) [OF ok c_def])
    moreover have "free_slot a m" using body that by (simp add: ring_body_def)
    ultimately show ?thesis by (simp add: free_slot_def b)
  qed
  then have "ring_body b h gs" using body gs b arrays_set_slot(1) [OF ok] by (simp add: ring_body_def)
  then have "ring_ok b gs" by (rule ring_okI) (use nu gs(2) in \<open>simp add: b c_def\<close>)
  then show ?thesis using gs(3) by (auto simp: b)
qed

end
