(* ===== verification/Dysco_E1000_Rx.thy ===== *)
theory Dysco_E1000_Rx
  imports Dysco_E1000_Ring
begin

text \<open>
  The receive path of the e1000 driver (\<^verbatim>\<open>e1000_main.c\<close>) for frames of the usual size and for jumbo
  frames: \<open>e1000_alloc_rx_buffers\<close> gives buffers to the device, \<open>e1000_clean_rx_irq\<close> takes what the
  device has filled and hands it to the stack, where the receive handler of the module sees it,
  \<open>e1000_clean_rx_ring\<close> empties the ring. \<open>None\<close> stands for a fault, the use of a packet that was
  released included, and for a loop that does not end.
\<close>

abbreviation (input) RXD_STAT_DD :: u8 where "RXD_STAT_DD \<equiv> 0x01"
abbreviation (input) RXD_STAT_EOP :: u8 where "RXD_STAT_EOP \<equiv> 0x02"
abbreviation (input) RXD_STAT_IXSM :: u16 where "RXD_STAT_IXSM \<equiv> 0x04"
abbreviation (input) RXD_STAT_VP :: u8 where "RXD_STAT_VP \<equiv> 0x08"
abbreviation (input) RXD_STAT_TCPCS :: u16 where "RXD_STAT_TCPCS \<equiv> 0x20"
abbreviation (input) RXD_ERR_CE :: u8 where "RXD_ERR_CE \<equiv> 0x01"
abbreviation (input) RXD_ERR_TCPE :: u8 where "RXD_ERR_TCPE \<equiv> 0x20"
abbreviation (input) CARRIER_EXTENSION :: u8 where "CARRIER_EXTENSION \<equiv> 0x0F"
abbreviation (input) VLAN_TAG_SIZE :: u32 where "VLAN_TAG_SIZE \<equiv> 4"
abbreviation (input) RX_BUFFER_WRITE :: nat where "RX_BUFFER_WRITE \<equiv> 16"

definition RXD_ERR_FRAME_ERR_MASK :: u8 where
  "RXD_ERR_FRAME_ERR_MASK = RXD_ERR_CE OR 0x02 OR 0x04 OR 0x10 OR 0x80"

section \<open>State\<close>

record e1000_rx_desc =
  rd_buffer_addr :: u64
  rd_length :: u16
  rd_csum :: u16
  rd_status :: u8
  rd_errors :: u8
  rd_special :: u16

text \<open>\<open>rb_data\<close> is the union of a buffer and a page: which one it is depends on the receive function.\<close>

record e1000_rx_buffer =
  rb_data :: "u64 option"
  rb_dma :: u64

text \<open>A packet in the making: the buffers it owns and its bytes.\<close>

record rx_skb =
  sk_frags :: "u64 list"
  sk_bytes :: "u8 list"

text \<open>
  The packet of the NAPI instance, which \<^verbatim>\<open>napi_get_frags\<close> makes and \<^verbatim>\<open>napi_gro_frags\<close> hands over: its pages
  with the length used of each, and its length. \<open>Freed_skb\<close> is a pointer to a packet that was released.
  \<open>rr_skb_top\<close> says whether \<^verbatim>\<open>rx_skb_top\<close> points to that packet: a chain of pages is being collected.
\<close>

datatype napi_skb = No_skb | Live_skb "(u64 \<times> u32) list" u32 | Freed_skb

record e1000_rx_ring =
  rr_desc :: "e1000_rx_desc list"
  rr_count :: u32
  rr_next_to_use :: u32
  rr_next_to_clean :: u32
  rr_buffer_info :: "e1000_rx_buffer list"
  rr_skb_top :: bool

text \<open>The statistics counters that a frame accepted in spite of an error changes.\<close>

record e1000_hw_stats =
  st_crcerrs :: u64
  st_gprc :: u64
  st_gorcl :: u64
  st_gorch :: u64
  st_bprc :: u64
  st_mprc :: u64
  st_roc :: u64
  st_prc64 :: u64
  st_prc127 :: u64
  st_prc255 :: u64
  st_prc511 :: u64
  st_prc1023 :: u64
  st_prc1522 :: u64

text \<open>What the stack gets: the bytes, whether their checksum is known to be good, the VLAN tag.\<close>

record rx_frame =
  rf_bytes :: "u8 list"
  rf_checked :: bool
  rf_vlan :: "u16 option"

datatype rx_event =
    Frag_alloc u64
  | Frag_free u64
  | Rx_map u64
  | Rx_unmap u64
  | Skb_copy
  | Skb_build u64
  | Frags_get
  | Page_add u64
  | Skb_free
  | Deliver rx_frame
  | Write_rdt u32

datatype rx_function = Rx_legacy | Rx_jumbo | Rx_dummy

record e1000_rx =
  rx_ad :: e1000_adapter
  rx_ring :: e1000_rx_ring
  rx_clean :: rx_function
  rx_alloc :: rx_function
  rx_buffer_len :: u32
  rx_discarding :: bool
  rx_alloc_failed :: u32
  rx_csum_err :: u64
  rx_csum_good :: u64
  rx_stats :: e1000_hw_stats
  rx_keep_fcs :: bool
  rx_keep_bad :: bool
  rx_copybreak :: u32
  rx_stat_bytes :: u64
  rx_stat_packets :: u64
  rx_mem :: "u64 \<Rightarrow> u8"
  rx_frag_next :: nat
  rx_skb_next :: nat
  rx_napi :: napi_skb
  rx_log :: "rx_event list"

text \<open>
  The kernel: the address the \<open>n\<close>-th request for a buffer or a page yields, whether the \<open>n\<close>-th
  request for a packet succeeds, the \<open>n\<close>-th mapping and whether it failed.
\<close>

record rx_kernel =
  rk_frag :: "nat \<Rightarrow> u64 option"
  rk_skb :: "nat \<Rightarrow> bool"
  rk_dma :: "nat \<Rightarrow> u64 \<times> bool"

definition rx_event :: "rx_event \<Rightarrow> e1000_rx \<Rightarrow> e1000_rx" where
  "rx_event e s = s\<lparr>rx_log := rx_log s @ [e]\<rparr>"

definition map_rx :: "(e1000_rx_ring \<Rightarrow> e1000_rx_ring) \<Rightarrow> e1000_rx \<Rightarrow> e1000_rx" where
  "map_rx g s = s\<lparr>rx_ring := g (rx_ring s)\<rparr>"

definition get_rbuf :: "u32 \<Rightarrow> e1000_rx \<Rightarrow> e1000_rx_buffer option" where
  "get_rbuf i s = (let bs = rr_buffer_info (rx_ring s) in if unat i < length bs then Some (bs ! unat i) else None)"

definition set_rbuf :: "u32 \<Rightarrow> e1000_rx_buffer \<Rightarrow> e1000_rx \<Rightarrow> e1000_rx" where
  "set_rbuf i b = map_rx (\<lambda>R. R\<lparr>rr_buffer_info := (rr_buffer_info R)[unat i := b]\<rparr>)"

definition get_rdesc :: "u32 \<Rightarrow> e1000_rx \<Rightarrow> e1000_rx_desc option" where
  "get_rdesc i s = (let ds = rr_desc (rx_ring s) in if unat i < length ds then Some (ds ! unat i) else None)"

definition set_rdesc :: "u32 \<Rightarrow> e1000_rx_desc \<Rightarrow> e1000_rx \<Rightarrow> e1000_rx" where
  "set_rdesc i d = map_rx (\<lambda>R. R\<lparr>rr_desc := (rr_desc R)[unat i := d]\<rparr>)"

definition rx_failure :: "e1000_rx \<Rightarrow> e1000_rx" where
  "rx_failure s = s\<lparr>rx_alloc_failed := rx_alloc_failed s + 1\<rparr>"

definition bytes_at :: "(u64 \<Rightarrow> u8) \<Rightarrow> u64 \<Rightarrow> u32 \<Rightarrow> u8 list" where
  "bytes_at m a n = map (\<lambda>k. m (a + of_nat k)) [0..<unat n]"

section \<open>Buffers for the device\<close>

text \<open>The constants of a 64-bit PC: cache lines of 64 bytes, a headroom of one of them.\<close>

abbreviation (input) E1000_HEADROOM :: nat where "E1000_HEADROOM \<equiv> 64"

definition SKB_DATA_ALIGN :: "u32 \<Rightarrow> u32" where
  "SKB_DATA_ALIGN n = (n + 63) AND NOT 63"

text \<open>The room for data in a buffer, behind the headroom.\<close>

definition frag_room :: "e1000_rx \<Rightarrow> u32" where
  "frag_room s = SKB_DATA_ALIGN (rx_buffer_len s + of_nat E1000_HEADROOM) - of_nat E1000_HEADROOM"

definition e1000_alloc_frag :: "rx_kernel \<Rightarrow> e1000_rx \<Rightarrow> u64 option \<times> e1000_rx" where
  "e1000_alloc_frag K s = (let s1 = s\<lparr>rx_frag_next := Suc (rx_frag_next s)\<rparr> in
     case rk_frag K (rx_frag_next s) of
       None \<Rightarrow> (None, s1)
     | Some p \<Rightarrow> (let d = p + of_nat E1000_HEADROOM in (Some d, rx_event (Frag_alloc d) s1)))"

definition e1000_free_frag :: "u64 \<Rightarrow> e1000_rx \<Rightarrow> e1000_rx" where
  "e1000_free_frag d = rx_event (Frag_free d)"

text \<open>A buffer that does not cross a 64 KB boundary, with a second attempt.\<close>

definition aligned_frag :: "rx_kernel \<Rightarrow> e1000_rx \<Rightarrow> u64 option \<times> e1000_rx" where
  "aligned_frag K s = (
     let hw = ad_hw (rx_ad s); bufsz = ucast (rx_buffer_len s);
         (f, s1) = e1000_alloc_frag K s
     in case f of
       None \<Rightarrow> (None, rx_failure s1)
     | Some d \<Rightarrow>
         if e1000_check_64k_bound hw d bufsz then (Some d, s1)
         else (let (f2, s2) = e1000_alloc_frag K s1 in
           case f2 of
             None \<Rightarrow> (None, rx_failure (e1000_free_frag d s2))
           | Some d2 \<Rightarrow>
               if \<not> e1000_check_64k_bound hw d2 bufsz
               then (None, rx_failure (e1000_free_frag d (e1000_free_frag d2 s2)))
               else (Some d2, e1000_free_frag d s2)))"

text \<open>The buffer \<open>d\<close> is mapped and put into slot \<open>i\<close>, or released.\<close>

definition attach_frag :: "rx_kernel \<Rightarrow> u32 \<Rightarrow> u64 \<Rightarrow> e1000_rx \<Rightarrow> (bool \<times> e1000_rx) option" where
  "attach_frag K i d s = do {
     bi \<leftarrow> get_rbuf i s;
     let (dma, failed) = rk_dma K (ad_dma_next (rx_ad s));
     let s1 = s\<lparr>rx_ad := (rx_ad s)\<lparr>ad_dma_next := Suc (ad_dma_next (rx_ad s))\<rparr>\<rparr>;
     Some (
       if failed then (False, rx_failure (set_rbuf i (bi\<lparr>rb_dma := 0\<rparr>) (e1000_free_frag d s1)))
       else let s2 = rx_event (Rx_map dma) s1 in
         if \<not> e1000_check_64k_bound (ad_hw (rx_ad s)) dma (ucast (rx_buffer_len s))
         then (False, rx_failure (set_rbuf i (bi\<lparr>rb_data := None, rb_dma := 0\<rparr>)
                 (e1000_free_frag d (rx_event (Rx_unmap dma) s2))))
         else (True, set_rbuf i (bi\<lparr>rb_dma := dma, rb_data := Some d\<rparr>) s2))
   }"

definition refill_slot :: "rx_kernel \<Rightarrow> u32 \<Rightarrow> e1000_rx \<Rightarrow> (bool \<times> e1000_rx) option" where
  "refill_slot K i s = do {
     bi \<leftarrow> get_rbuf i s;
     (ok, s1) \<leftarrow> (if rb_data bi \<noteq> None then Some (True, s)
                 else (case aligned_frag K s of
                     (None, t) \<Rightarrow> Some (False, t)
                   | (Some d, t) \<Rightarrow> attach_frag K i d t));
     if \<not> ok then Some (False, s1) else do {
       d \<leftarrow> get_rdesc i s1;
       b \<leftarrow> get_rbuf i s1;
       Some (True, set_rdesc i (d\<lparr>rd_buffer_addr := rb_dma b\<rparr>) s1)
     }
   }"

text \<open>
  At most \<open>n\<close> slots from \<open>i\<close> on are filled by \<open>fill\<close>; the result is the first slot that was not.
\<close>

primrec refill :: "(u32 \<Rightarrow> e1000_rx \<Rightarrow> (bool \<times> e1000_rx) option) \<Rightarrow> nat \<Rightarrow> u32 \<Rightarrow> e1000_rx \<Rightarrow> (u32 \<times> e1000_rx) option" where
  "refill fill 0 i s = Some (i, s)"
| "refill fill (Suc n) i s = do {
     (ok, s1) \<leftarrow> fill i s;
     if ok then refill fill n (ring_next (rr_count (rx_ring s1)) i) s1 else Some (i, s1)
   }"

text \<open>The slots up to \<open>i\<close> are given to the device.\<close>

definition publish :: "u32 \<Rightarrow> e1000_rx \<Rightarrow> e1000_rx" where
  "publish i s = (
     if rr_next_to_use (rx_ring s) \<noteq> i
     then rx_event (Write_rdt (last_slot (rr_count (rx_ring s)) i)) (map_rx (\<lambda>R. R\<lparr>rr_next_to_use := i\<rparr>) s)
     else s)"

definition e1000_alloc_rx_buffers :: "rx_kernel \<Rightarrow> nat \<Rightarrow> e1000_rx \<Rightarrow> e1000_rx option" where
  "e1000_alloc_rx_buffers K cleaned_count s = do {
     (i, s1) \<leftarrow> refill (refill_slot K) cleaned_count (rr_next_to_use (rx_ring s)) s;
     Some (publish i s1)
   }"

text \<open>For jumbo frames the buffers are pages; a page that was only read from stays in its slot.\<close>

definition jumbo_slot :: "rx_kernel \<Rightarrow> u32 \<Rightarrow> e1000_rx \<Rightarrow> (bool \<times> e1000_rx) option" where
  "jumbo_slot K i s = do {
     bi \<leftarrow> get_rbuf i s;
     let (page, s1) = (if rb_data bi \<noteq> None then (rb_data bi, s)
       else let s0 = s\<lparr>rx_frag_next := Suc (rx_frag_next s)\<rparr> in
         case rk_frag K (rx_frag_next s) of
           None \<Rightarrow> (None, s0)
         | Some p \<Rightarrow> (Some p, set_rbuf i (bi\<lparr>rb_data := Some p\<rparr>) (rx_event (Frag_alloc p) s0)));
     (case page of
        None \<Rightarrow> Some (False, rx_failure s1)
      | Some p \<Rightarrow> do {
          b1 \<leftarrow> get_rbuf i s1;
          let (dma, failed) = rk_dma K (ad_dma_next (rx_ad s1));
          let t1 = s1\<lparr>rx_ad := (rx_ad s1)\<lparr>ad_dma_next := Suc (ad_dma_next (rx_ad s1))\<rparr>\<rparr>;
          let (ok, s2) = (if rb_dma b1 \<noteq> 0 then (True, s1)
            else if failed then (False, rx_failure (set_rbuf i (b1\<lparr>rb_data := None, rb_dma := 0\<rparr>) (rx_event (Frag_free p) t1)))
            else (True, set_rbuf i (b1\<lparr>rb_dma := dma\<rparr>) (rx_event (Rx_map dma) t1)));
          if \<not> ok then Some (False, s2) else do {
            d \<leftarrow> get_rdesc i s2;
            b2 \<leftarrow> get_rbuf i s2;
            Some (True, set_rdesc i (d\<lparr>rd_buffer_addr := rb_dma b2\<rparr>) s2)
          }
        })
   }"

definition e1000_alloc_jumbo_rx_buffers :: "rx_kernel \<Rightarrow> nat \<Rightarrow> e1000_rx \<Rightarrow> e1000_rx option" where
  "e1000_alloc_jumbo_rx_buffers K cleaned_count s = do {
     (i, s1) \<leftarrow> refill (jumbo_slot K) cleaned_count (rr_next_to_use (rx_ring s)) s;
     Some (publish i s1)
   }"

text \<open>The function the adapter points to; the third stands in while the size of frames is changed.\<close>

definition alloc_rx_buf :: "rx_kernel \<Rightarrow> nat \<Rightarrow> e1000_rx \<Rightarrow> e1000_rx option" where
  "alloc_rx_buf K n s = (case rx_alloc s of
     Rx_legacy \<Rightarrow> e1000_alloc_rx_buffers K n s
   | Rx_jumbo \<Rightarrow> e1000_alloc_jumbo_rx_buffers K n s
   | Rx_dummy \<Rightarrow> Some s)"

section \<open>Frames accepted in spite of an error\<close>

definition TBI_ACCEPT :: "e1000_hw \<Rightarrow> u8 \<Rightarrow> u8 \<Rightarrow> u32 \<Rightarrow> u8 \<Rightarrow> bool" where
  "TBI_ACCEPT hw status errors n last_byte \<longleftrightarrow>
     hw_tbi_compatibility_on hw \<and> errors AND RXD_ERR_FRAME_ERR_MASK = RXD_ERR_CE \<and> last_byte = CARRIER_EXTENSION
     \<and> (if status AND RXD_STAT_VP \<noteq> 0
        then n > hw_min_frame_size hw - VLAN_TAG_SIZE \<and> n \<le> hw_max_frame_size hw + 1
        else n > hw_min_frame_size hw \<and> n \<le> hw_max_frame_size hw + VLAN_TAG_SIZE + 1)"

definition is_broadcast_ether_addr :: "u8 list \<Rightarrow> bool" where
  "is_broadcast_ether_addr mac \<longleftrightarrow> (\<forall>b \<in> set mac. b = 0xff)"

definition is_multicast_ether_addr :: "u8 list \<Rightarrow> bool" where
  "is_multicast_ether_addr mac \<longleftrightarrow> hd mac AND 1 \<noteq> 0"

text \<open>The counter of the bin of a length that is one less than the device has counted.\<close>

definition adjust_bins :: "u32 \<Rightarrow> e1000_hw_stats \<Rightarrow> e1000_hw_stats" where
  "adjust_bins n st = (
     if n = 64 then st\<lparr>st_prc64 := st_prc64 st + 1, st_prc127 := st_prc127 st - 1\<rparr>
     else if n = 127 then st\<lparr>st_prc127 := st_prc127 st + 1, st_prc255 := st_prc255 st - 1\<rparr>
     else if n = 255 then st\<lparr>st_prc255 := st_prc255 st + 1, st_prc511 := st_prc511 st - 1\<rparr>
     else if n = 511 then st\<lparr>st_prc511 := st_prc511 st + 1, st_prc1023 := st_prc1023 st - 1\<rparr>
     else if n = 1023 then st\<lparr>st_prc1023 := st_prc1023 st + 1, st_prc1522 := st_prc1522 st - 1\<rparr>
     else if n = 1522 then st\<lparr>st_prc1522 := st_prc1522 st + 1\<rparr>
     else st)"

definition e1000_tbi_adjust_stats :: "e1000_hw \<Rightarrow> u32 \<Rightarrow> u8 list \<Rightarrow> e1000_hw_stats \<Rightarrow> e1000_hw_stats" where
  "e1000_tbi_adjust_stats hw frame_len mac st = (
     let n = frame_len - 1;
         st1 = st\<lparr>st_crcerrs := st_crcerrs st - 1, st_gprc := st_gprc st + 1, st_gorcl := st_gorcl st + ucast n\<rparr>;
         st2 = (if st_gorcl st AND 0x80000000 \<noteq> 0 \<and> st_gorcl st1 AND 0x80000000 = 0
                then st1\<lparr>st_gorch := st_gorch st1 + 1\<rparr> else st1);
         st3 = (if is_broadcast_ether_addr mac then st2\<lparr>st_bprc := st_bprc st2 + 1\<rparr>
                else if is_multicast_ether_addr mac then st2\<lparr>st_mprc := st_mprc st2 + 1\<rparr> else st2);
         st4 = (if n = hw_max_frame_size hw \<and> st_roc st3 > 0 then st3\<lparr>st_roc := st_roc st3 - 1\<rparr> else st3)
     in adjust_bins n st4)"

definition e1000_tbi_should_accept :: "u8 \<Rightarrow> u8 \<Rightarrow> u32 \<Rightarrow> u64 \<Rightarrow> e1000_rx \<Rightarrow> bool \<times> e1000_rx" where
  "e1000_tbi_should_accept status errors n data s = (
     let hw = ad_hw (rx_ad s); last_byte = rx_mem s (data + ucast n - 1) in
     if TBI_ACCEPT hw status errors n last_byte
     then (True, s\<lparr>rx_stats := e1000_tbi_adjust_stats hw n (bytes_at (rx_mem s) data 6) (rx_stats s)\<rparr>)
     else (False, s))"

section \<open>Handing a frame to the stack\<close>

text \<open>The result says whether the checksum is known to be good.\<close>

definition e1000_rx_checksum :: "u32 \<Rightarrow> e1000_rx \<Rightarrow> bool \<times> e1000_rx" where
  "e1000_rx_checksum status_err s = (
     let status = (ucast status_err :: u16); errors = (ucast (drop_bit 24 status_err) :: u8) in
     if hw_mac_type (ad_hw (rx_ad s)) < e1000_82543 then (False, s)
     else if status AND RXD_STAT_IXSM \<noteq> 0 then (False, s)
     else if errors AND RXD_ERR_TCPE \<noteq> 0 then (False, s\<lparr>rx_csum_err := rx_csum_err s + 1\<rparr>)
     else if status AND RXD_STAT_TCPCS = 0 then (False, s)
     else (True, s\<lparr>rx_csum_good := rx_csum_good s + 1\<rparr>))"

definition rx_vlan :: "u8 \<Rightarrow> u16 \<Rightarrow> u16 option" where
  "rx_vlan status special = (if status AND RXD_STAT_VP \<noteq> 0 then Some (special AND 0x0FFF) else None)"

definition e1000_receive_skb :: "u8 \<Rightarrow> u16 \<Rightarrow> bool \<Rightarrow> u8 list \<Rightarrow> e1000_rx \<Rightarrow> e1000_rx" where
  "e1000_receive_skb status special checked bytes =
     rx_event (Deliver \<lparr>rf_bytes = bytes, rf_checked = checked, rf_vlan = rx_vlan status special\<rparr>)"

section \<open>Taking filled buffers\<close>

text \<open>The local variables of \<open>e1000_clean_rx_irq\<close>.\<close>

record rx_loop =
  rl_st :: e1000_rx
  rl_i :: u32
  rl_work :: int
  rl_cleaned_count :: nat
  rl_cleaned :: bool
  rl_bytes :: u32
  rl_packets :: u32

definition e1000_alloc_rx_skb :: "rx_kernel \<Rightarrow> e1000_rx \<Rightarrow> bool \<times> e1000_rx" where
  "e1000_alloc_rx_skb K s = (let s1 = s\<lparr>rx_skb_next := Suc (rx_skb_next s)\<rparr> in
     if rk_skb K (rx_skb_next s) then (True, s1) else (False, rx_failure s1))"

definition e1000_copybreak :: "rx_kernel \<Rightarrow> u32 \<Rightarrow> u64 \<Rightarrow> e1000_rx \<Rightarrow> rx_skb option \<times> e1000_rx" where
  "e1000_copybreak K n data s = (
     if n > rx_copybreak s then (None, s)
     else let (ok, s1) = e1000_alloc_rx_skb K s in
       if ok then (Some \<lparr>sk_frags = [], sk_bytes = bytes_at (rx_mem s1) data n\<rparr>, rx_event Skb_copy s1) else (None, s1))"

text \<open>
  The packet for slot \<open>i\<close>: a copy when the frame is short, otherwise the buffer itself, which leaves
  the slot. The first component is \<open>None\<close> when the code leaves the loop.
\<close>

definition take_skb :: "rx_kernel \<Rightarrow> u32 \<Rightarrow> u32 \<Rightarrow> e1000_rx \<Rightarrow> (rx_skb option \<times> e1000_rx) option" where
  "take_skb K i n s = do {
     bi \<leftarrow> get_rbuf i s;
     data \<leftarrow> rb_data bi;
     let (copy, s1) = e1000_copybreak K n data s;
     Some (case copy of
         Some b \<Rightarrow> (Some b, s1)
       | None \<Rightarrow>
           let s2 = s1\<lparr>rx_skb_next := Suc (rx_skb_next s1)\<rparr> in
           if \<not> rk_skb K (rx_skb_next s1) then (None, rx_failure s2)
           else (Some \<lparr>sk_frags = [data], sk_bytes = []\<rparr>,
                 set_rbuf i (bi\<lparr>rb_data := None, rb_dma := 0\<rparr>)
                   (rx_event (Rx_unmap (rb_dma bi)) (rx_event (Skb_build data) s2))))
   }"

text \<open>
  What becomes of the frame: its length, or \<open>None\<close> when it is dropped. A frame in several buffers is
  dropped up to its last buffer.
\<close>

definition judge :: "e1000_rx_desc \<Rightarrow> u64 \<Rightarrow> e1000_rx \<Rightarrow> u32 option \<times> e1000_rx" where
  "judge d data s = (
     let status = rd_status d; n = (ucast (rd_length d) :: u32); eop = (status AND RXD_STAT_EOP \<noteq> 0);
         s1 = (if \<not> eop then s\<lparr>rx_discarding := True\<rparr> else s)
     in if rx_discarding s1 then (None, if eop then s1\<lparr>rx_discarding := False\<rparr> else s1)
        else if rd_errors d AND RXD_ERR_FRAME_ERR_MASK \<noteq> 0 then
          (let (ok, s2) = e1000_tbi_should_accept status (rd_errors d) n data s1 in
           if ok then (Some (n - 1), s2) else if rx_keep_bad s2 then (Some n, s2) else (None, s2))
        else (Some n, s1))"

text \<open>The bytes of the packet: a buffer is extended to its length, which must fit; a copy is cut.\<close>

definition skb_finish :: "u32 \<Rightarrow> u32 \<Rightarrow> u64 \<Rightarrow> rx_skb \<Rightarrow> e1000_rx \<Rightarrow> u8 list option" where
  "skb_finish i n data b s = do {
     bi \<leftarrow> get_rbuf i s;
     if rb_data bi = None then (if n > frag_room s then None else Some (bytes_at (rx_mem s) data n))
     else Some (take (unat n) (sk_bytes b))
   }"

definition rx_finish :: "u32 \<Rightarrow> e1000_rx_desc \<Rightarrow> u64 \<Rightarrow> rx_skb \<Rightarrow> u32 \<Rightarrow> e1000_rx \<Rightarrow> e1000_rx option" where
  "rx_finish i d data b n s = do {
     bytes \<leftarrow> skb_finish i (if rx_keep_fcs s then n else n - 4) data b s;
     let (checked, s1) = e1000_rx_checksum (ucast (rd_status d) OR push_bit 24 (ucast (rd_errors d))) s;
     Some (e1000_receive_skb (rd_status d) (rd_special d) checked bytes s1)
   }"

text \<open>The slot is ready for the device; after sixteen slots new buffers are attached.\<close>

definition rx_recycle :: "rx_kernel \<Rightarrow> u32 \<Rightarrow> nat \<Rightarrow> e1000_rx \<Rightarrow> (nat \<times> e1000_rx) option" where
  "rx_recycle K i cleaned_count s = do {
     d \<leftarrow> get_rdesc i s;
     let s1 = set_rdesc i (d\<lparr>rd_status := 0\<rparr>) s;
     if cleaned_count \<ge> RX_BUFFER_WRITE
     then do { s2 \<leftarrow> alloc_rx_buf K cleaned_count s1; Some (0, s2) }
     else Some (cleaned_count, s1)
   }"

text \<open>One round of the loop; \<open>False\<close> when the code leaves it for want of memory.\<close>

definition rx_one :: "rx_kernel \<Rightarrow> rx_loop \<Rightarrow> (bool \<times> rx_loop) option" where
  "rx_one K l = do {
     let s = rl_st l;
     let i = rl_i l;
     let w = rl_work l + 1;
     d \<leftarrow> get_rdesc i s;
     bi \<leftarrow> get_rbuf i s;
     data \<leftarrow> rb_data bi;
     (skb, s1) \<leftarrow> take_skb K i (ucast (rd_length d)) s;
     (case skb of
        None \<Rightarrow> Some (False, l\<lparr>rl_st := s1, rl_work := w\<rparr>)
      | Some b \<Rightarrow> do {
          let (keep, s2) = judge d data s1;
          s3 \<leftarrow> (case keep of None \<Rightarrow> Some (rx_event Skb_free s2) | Some n \<Rightarrow> rx_finish i d data b n s2);
          (cc, s4) \<leftarrow> rx_recycle K i (rl_cleaned_count l + 1) s3;
          Some (True, l\<lparr>rl_st := s4, rl_i := ring_next (rr_count (rx_ring s)) i, rl_work := w,
            rl_cleaned_count := cc, rl_cleaned := True,
            rl_bytes := (case keep of None \<Rightarrow> rl_bytes l | Some n \<Rightarrow> rl_bytes l + (n - 4)),
            rl_packets := (case keep of None \<Rightarrow> rl_packets l | Some n \<Rightarrow> rl_packets l + 1)\<rparr>)
        })
   }"

text \<open>The loop of both receive functions, with \<open>one\<close> for the work of a round.\<close>

partial_function (option) clean_rx_loop :: "(rx_loop \<Rightarrow> (bool \<times> rx_loop) option) \<Rightarrow> int \<Rightarrow> rx_loop \<Rightarrow> rx_loop option" where
  "clean_rx_loop one work_to_do l = Option.bind (get_rdesc (rl_i l) (rl_st l))
     (\<lambda>d. if rd_status d AND RXD_STAT_DD = 0 \<or> rl_work l \<ge> work_to_do then Some l
          else Option.bind (one l) (\<lambda>r. if fst r then clean_rx_loop one work_to_do (snd r) else Some (snd r)))"

declare clean_rx_loop.simps [code]

text \<open>What both receive functions do after their loop.\<close>

definition rx_account :: "rx_kernel \<Rightarrow> rx_loop \<Rightarrow> e1000_rx option" where
  "rx_account K l = do {
     let s1 = map_rx (\<lambda>R. R\<lparr>rr_next_to_clean := rl_i l\<rparr>) (rl_st l);
     let R = rx_ring s1;
     let n = E1000_DESC_UNUSED (rr_count R) (rr_next_to_clean R) (rr_next_to_use R);
     s2 \<leftarrow> (if n \<noteq> 0 then alloc_rx_buf K (unat n) s1 else Some s1);
     Some (s2\<lparr>rx_ad := (rx_ad s2)\<lparr>ad_total_rx_packets := ad_total_rx_packets (rx_ad s2) + rl_packets l,
                                ad_total_rx_bytes := ad_total_rx_bytes (rx_ad s2) + rl_bytes l\<rparr>,
              rx_stat_bytes := rx_stat_bytes s2 + ucast (rl_bytes l),
              rx_stat_packets := rx_stat_packets s2 + ucast (rl_packets l)\<rparr>)
   }"

definition rx_loop_start :: "int \<Rightarrow> e1000_rx \<Rightarrow> rx_loop" where
  "rx_loop_start work_done s = \<lparr>rl_st = s, rl_i = rr_next_to_clean (rx_ring s), rl_work = work_done, rl_cleaned_count = 0,
     rl_cleaned = False, rl_bytes = 0, rl_packets = 0\<rparr>"

definition e1000_clean_rx_irq :: "rx_kernel \<Rightarrow> int \<Rightarrow> int \<Rightarrow> e1000_rx \<Rightarrow> (bool \<times> int \<times> e1000_rx) option" where
  "e1000_clean_rx_irq K work_done work_to_do s = do {
     l \<leftarrow> clean_rx_loop (rx_one K) work_to_do (rx_loop_start work_done s);
     s1 \<leftarrow> rx_account K l;
     Some (rl_cleaned l, rl_work l, s1)
   }"

section \<open>Jumbo frames\<close>

text \<open>
  A frame is a chain of pages that \<^verbatim>\<open>rx_skb_top\<close> collects. \<open>Leave_loop\<close> is the \<^verbatim>\<open>break\<close> of the loop,
  \<open>Next_desc\<close> its label \<^verbatim>\<open>next_desc\<close>, \<open>Counted n\<close> the same after a frame of \<open>n\<close> bytes.
\<close>

abbreviation (input) MAX_SKB_FRAGS :: nat where "MAX_SKB_FRAGS \<equiv> 17"

datatype page_verdict = Leave_loop | Next_desc | Counted u32

definition napi_get_frags :: "rx_kernel \<Rightarrow> e1000_rx \<Rightarrow> (bool \<times> e1000_rx) option" where
  "napi_get_frags K s = (case rx_napi s of
     No_skb \<Rightarrow> let s1 = s\<lparr>rx_skb_next := Suc (rx_skb_next s)\<rparr> in
       Some (if rk_skb K (rx_skb_next s) then (True, rx_event Frags_get (s1\<lparr>rx_napi := Live_skb [] 0\<rparr>)) else (False, s1))
   | Live_skb _ _ \<Rightarrow> Some (True, s)
   | Freed_skb \<Rightarrow> None)"

text \<open>Page \<open>k\<close> of the packet; there is no room for more than \<open>MAX_SKB_FRAGS\<close>.\<close>

definition skb_fill_page_desc :: "nat \<Rightarrow> u64 \<Rightarrow> u32 \<Rightarrow> e1000_rx \<Rightarrow> e1000_rx option" where
  "skb_fill_page_desc k page n s = (case rx_napi s of
     Live_skb fs len \<Rightarrow>
       if k < MAX_SKB_FRAGS then Some (rx_event (Page_add page) (s\<lparr>rx_napi := Live_skb (take k fs @ [(page, n)]) len\<rparr>)) else None
   | _ \<Rightarrow> None)"

definition nr_frags :: "e1000_rx \<Rightarrow> nat" where
  "nr_frags s = (case rx_napi s of Live_skb fs _ \<Rightarrow> length fs | _ \<Rightarrow> 0)"

definition e1000_consume_page :: "u32 \<Rightarrow> u16 \<Rightarrow> e1000_rx \<Rightarrow> e1000_rx option" where
  "e1000_consume_page i n s = do {
     bi \<leftarrow> get_rbuf i s;
     (case rx_napi s of
        Live_skb fs len \<Rightarrow> Some (set_rbuf i (bi\<lparr>rb_data := None\<rparr>) (s\<lparr>rx_napi := Live_skb fs (len + ucast n)\<rparr>))
      | _ \<Rightarrow> None)
   }"

text \<open>The page of slot \<open>i\<close> becomes page \<open>k\<close> of the packet.\<close>

definition add_page :: "nat \<Rightarrow> u32 \<Rightarrow> u64 \<Rightarrow> u32 \<Rightarrow> e1000_rx \<Rightarrow> e1000_rx option" where
  "add_page k i page n s = do {
     s1 \<leftarrow> skb_fill_page_desc k page n s;
     e1000_consume_page i (ucast n) s1
   }"

definition set_top :: "bool \<Rightarrow> e1000_rx \<Rightarrow> e1000_rx" where
  "set_top b = map_rx (\<lambda>R. R\<lparr>rr_skb_top := b\<rparr>)"

text \<open>A chain that is being collected is released; the NAPI instance keeps its pointer to it.\<close>

definition drop_chain :: "e1000_rx \<Rightarrow> e1000_rx" where
  "drop_chain s = set_top False
     (if rr_skb_top (rx_ring s) then rx_event Skb_free (s\<lparr>rx_napi := Freed_skb\<rparr>) else s)"

text \<open>The bytes of the packet, cut to \<open>n\<close>; \<^verbatim>\<open>napi_gro_frags\<close> hands it over.\<close>

definition napi_gro_frags :: "e1000_rx_desc \<Rightarrow> bool \<Rightarrow> e1000_rx \<Rightarrow> (u32 \<times> e1000_rx) option" where
  "napi_gro_frags d checked s = (case rx_napi s of
     Live_skb fs len \<Rightarrow>
       let n = (if rx_keep_fcs s then len else len - 4);
           bytes = take (unat n) (concat (map (\<lambda>(p, k). bytes_at (rx_mem s) p k) fs))
       in Some (len - 4, rx_event (Deliver \<lparr>rf_bytes = bytes, rf_checked = checked, rf_vlan = rx_vlan (rd_status d) (rd_special d)\<rparr>)
            (s\<lparr>rx_napi := No_skb\<rparr>))
   | _ \<Rightarrow> None)"

definition desc_checksum :: "e1000_rx_desc \<Rightarrow> e1000_rx \<Rightarrow> bool \<times> e1000_rx" where
  "desc_checksum d = e1000_rx_checksum (ucast (rd_status d) OR push_bit 24 (ucast (rd_errors d)))"

text \<open>A page that is the beginning or the middle of a frame.\<close>

definition page_begin :: "rx_kernel \<Rightarrow> u32 \<Rightarrow> u64 \<Rightarrow> u32 \<Rightarrow> e1000_rx \<Rightarrow> (page_verdict \<times> e1000_rx) option" where
  "page_begin K i page n s = (
     if \<not> rr_skb_top (rx_ring s) then do {
       (ok, s1) \<leftarrow> napi_get_frags K s;
       if \<not> ok then Some (Leave_loop, s1)
       else do { s2 \<leftarrow> add_page 0 i page n (set_top True s1); Some (Next_desc, s2) }
     } else do { s2 \<leftarrow> add_page (nr_frags s) i page n s; Some (Next_desc, s2) })"

text \<open>The last page of a frame: the end of a chain, or a short frame, which is copied, or the whole frame.\<close>

definition page_end :: "rx_kernel \<Rightarrow> u32 \<Rightarrow> e1000_rx_desc \<Rightarrow> u64 \<Rightarrow> u32 \<Rightarrow> e1000_rx \<Rightarrow> (page_verdict \<times> e1000_rx) option" where
  "page_end K i d page n s = (
     let finish = (\<lambda>t. do {
           let (checked, t1) = desc_checksum d t;
           (b, t2) \<leftarrow> napi_gro_frags d checked t1;
           Some (Counted b, t2)
         })
     in if rr_skb_top (rx_ring s) then Option.bind (add_page (nr_frags s) i page n (set_top False s)) finish
        else if n \<le> rx_copybreak s then
          (let m = (if rx_keep_fcs s then n else n - 4);
               (ok, s1) = e1000_alloc_rx_skb K s
           in if \<not> ok then Some (Leave_loop, s1)
              else let bytes = bytes_at (rx_mem s1) page m;
                       (checked, s2) = desc_checksum d (rx_event Skb_copy s1)
                   in Some (Counted m, e1000_receive_skb (rd_status d) (rd_special d) checked bytes s2))
        else do {
          (ok, s1) \<leftarrow> napi_get_frags K s;
          if \<not> ok then Some (Leave_loop, rx_failure s1)
          else Option.bind (add_page 0 i page n s1) finish
        })"

text \<open>An error drops the frame and the chain before it.\<close>

definition jumbo_page :: "rx_kernel \<Rightarrow> u32 \<Rightarrow> e1000_rx_desc \<Rightarrow> u64 \<Rightarrow> e1000_rx \<Rightarrow> (page_verdict \<times> e1000_rx) option" where
  "jumbo_page K i d page s = (
     let status = rd_status d; n = (ucast (rd_length d) :: u32); eop = (status AND RXD_STAT_EOP \<noteq> 0)
     in if \<not> eop then page_begin K i page n s
        else if rd_errors d AND RXD_ERR_FRAME_ERR_MASK \<noteq> 0 then
          (let (ok, s1) = e1000_tbi_should_accept status (rd_errors d) n page s
           in if ok then page_end K i d page (n - 1) s1
              else if rx_keep_bad s1 then page_end K i d page n s1
              else Some (Next_desc, drop_chain s1))
        else page_end K i d page n s)"

text \<open>One round. The index moves on before the page is looked at, also when the loop is left.\<close>

definition jumbo_one :: "rx_kernel \<Rightarrow> rx_loop \<Rightarrow> (bool \<times> rx_loop) option" where
  "jumbo_one K l = do {
     let s = rl_st l;
     let i = rl_i l;
     d \<leftarrow> get_rdesc i s;
     bi \<leftarrow> get_rbuf i s;
     page \<leftarrow> rb_data bi;
     (v, s1) \<leftarrow> jumbo_page K i d page (set_rbuf i (bi\<lparr>rb_dma := 0\<rparr>) (rx_event (Rx_unmap (rb_dma bi)) s));
     let l1 = l\<lparr>rl_i := ring_next (rr_count (rx_ring s)) i, rl_work := rl_work l + 1, rl_cleaned := True\<rparr>;
     (case v of
        Leave_loop \<Rightarrow> Some (False, l1\<lparr>rl_st := s1\<rparr>)
      | _ \<Rightarrow> do {
          (cc, s2) \<leftarrow> rx_recycle K i (rl_cleaned_count l + 1) s1;
          Some (True, l1\<lparr>rl_st := s2, rl_cleaned_count := cc,
            rl_bytes := (case v of Counted n \<Rightarrow> rl_bytes l + n | _ \<Rightarrow> rl_bytes l),
            rl_packets := (case v of Counted n \<Rightarrow> rl_packets l + 1 | _ \<Rightarrow> rl_packets l)\<rparr>)
        })
   }"

definition e1000_clean_jumbo_rx_irq :: "rx_kernel \<Rightarrow> int \<Rightarrow> int \<Rightarrow> e1000_rx \<Rightarrow> (bool \<times> int \<times> e1000_rx) option" where
  "e1000_clean_jumbo_rx_irq K work_done work_to_do s = do {
     l \<leftarrow> clean_rx_loop (jumbo_one K) work_to_do (rx_loop_start work_done s);
     s1 \<leftarrow> rx_account K l;
     Some (rl_cleaned l, rl_work l, s1)
   }"

section \<open>Making and emptying the ring\<close>

definition zero_rx_buffer :: e1000_rx_buffer where
  "zero_rx_buffer = \<lparr>rb_data = None, rb_dma = 0\<rparr>"

definition zero_rx_desc :: e1000_rx_desc where
  "zero_rx_desc = \<lparr>rd_buffer_addr = 0, rd_length = 0, rd_csum = 0, rd_status = 0, rd_errors = 0, rd_special = 0\<rparr>"

definition e1000_setup_rx_resources :: "ring_memory \<Rightarrow> e1000_rx \<Rightarrow> bool \<times> e1000_rx \<times> mem_event list" where
  "e1000_setup_rx_resources M s = (
     let n = unat (rr_count (rx_ring s)); hw = ad_hw (rx_ad s);
         bytes = ring_bytes (rr_count (rx_ring s));
         good = map_rx (\<lambda>R. R\<lparr>rr_buffer_info := replicate n zero_rx_buffer, rr_desc := replicate n zero_rx_desc,
                   rr_next_to_use := 0, rr_next_to_clean := 0, rr_skb_top := False\<rparr>) s;
         bad = map_rx (\<lambda>R. R\<lparr>rr_buffer_info := [], rr_desc := []\<rparr>) s
     in if \<not> rm_vzalloc M then (False, bad, [])
        else case rm_coherent M 0 of
          None \<Rightarrow> (False, bad, [Vzalloc, Vfree])
        | Some d \<Rightarrow>
            if e1000_check_64k_bound hw d bytes then (True, good, [Vzalloc, Coherent_alloc d])
            else (case rm_coherent M 1 of
                None \<Rightarrow> (False, bad, [Vzalloc, Coherent_alloc d, Coherent_free d, Vfree])
              | Some d2 \<Rightarrow>
                  if \<not> e1000_check_64k_bound hw d2 bytes
                  then (False, bad, [Vzalloc, Coherent_alloc d, Coherent_alloc d2, Coherent_free d2, Coherent_free d, Vfree])
                  else (True, good, [Vzalloc, Coherent_alloc d, Coherent_alloc d2, Coherent_free d])))"

text \<open>The buffer of slot \<open>i\<close>, a page or not, is unmapped and released.\<close>

definition empty_slot :: "u32 \<Rightarrow> e1000_rx \<Rightarrow> e1000_rx option" where
  "empty_slot i s = do {
     bi \<leftarrow> get_rbuf i s;
     let s1 = (if rb_dma bi \<noteq> 0 then rx_event (Rx_unmap (rb_dma bi)) s else s);
     let s2 = (case rb_data bi of None \<Rightarrow> s1 | Some d \<Rightarrow> e1000_free_frag d s1);
     Some (set_rbuf i (bi\<lparr>rb_data := None, rb_dma := 0\<rparr>) s2)
   }"

primrec empty_slots :: "nat \<Rightarrow> e1000_rx \<Rightarrow> e1000_rx option" where
  "empty_slots 0 s = Some s"
| "empty_slots (Suc n) s = Option.bind (empty_slots n s) (empty_slot (of_nat n))"

text \<open>The packet of the NAPI instance is released; doing so twice is a fault.\<close>

definition napi_free_frags :: "e1000_rx \<Rightarrow> e1000_rx option" where
  "napi_free_frags s = (case rx_napi s of
     No_skb \<Rightarrow> Some s
   | Live_skb _ _ \<Rightarrow> Some (rx_event Skb_free (s\<lparr>rx_napi := No_skb\<rparr>))
   | Freed_skb \<Rightarrow> None)"

definition e1000_clean_rx_ring :: "e1000_rx \<Rightarrow> e1000_rx option" where
  "e1000_clean_rx_ring s = do {
     s1 \<leftarrow> empty_slots (unat (rr_count (rx_ring s))) s;
     s2 \<leftarrow> napi_free_frags s1;
     Some (rx_event (Write_rdt 0) (map_rx (\<lambda>R. R\<lparr>
       rr_buffer_info := replicate (unat (rr_count R)) zero_rx_buffer,
       rr_desc := replicate (length (rr_desc R)) zero_rx_desc,
       rr_skb_top := False, rr_next_to_use := 0, rr_next_to_clean := 0\<rparr>) s2))
   }"

end
