(* ===== verification/Dysco_E1000_Refill.thy ===== *)
theory Dysco_E1000_Refill
  imports Dysco_E1000_Rx
begin

text \<open>
  Filling the receive ring with buffers for usual frames. Whatever memory the kernel gives, filling
  ends, changes only what \<open>refilled\<close> allows, and neither loses a buffer nor gives one away twice
  (\<open>balanced\<close>). The slots the device owns are a window of the ring (\<open>rx_win\<close>), which filling extends.
\<close>

section \<open>Slots\<close>

definition rx_size :: "e1000_rx \<Rightarrow> nat" where
  "rx_size s = unat (rr_count (rx_ring s))"

definition rbuf :: "e1000_rx \<Rightarrow> nat \<Rightarrow> e1000_rx_buffer" where
  "rbuf s m = rr_buffer_info (rx_ring s) ! (m mod rx_size s)"

definition rdesc :: "e1000_rx \<Rightarrow> nat \<Rightarrow> e1000_rx_desc" where
  "rdesc s m = rr_desc (rx_ring s) ! (m mod rx_size s)"

definition rx_arrays :: "e1000_rx \<Rightarrow> bool" where
  "rx_arrays s \<longleftrightarrow> rr_count (rx_ring s) \<noteq> 0 \<and> length (rr_buffer_info (rx_ring s)) = rx_size s
     \<and> length (rr_desc (rx_ring s)) = rx_size s"

lemma rx_size_positive: "rx_arrays s \<Longrightarrow> 0 < rx_size s"
  by (simp add: rx_arrays_def rx_size_def unat_gt_0)

lemma rx_size_cong: "rr_count (rx_ring t) = rr_count (rx_ring s) \<Longrightarrow> rx_size t = rx_size s"
  by (simp add: rx_size_def)

lemma get_rx_slot:
  assumes "rx_arrays s" and "c = rr_count (rx_ring s)"
  shows "get_rbuf (slot c m) s = Some (rbuf s m)" and "get_rdesc (slot c m) s = Some (rdesc s m)"
    and "unat (slot c m) = m mod rx_size s" and "m mod rx_size s < rx_size s"
proof -
  have c: "c \<noteq> 0" using assms by (simp add: rx_arrays_def)
  show u: "unat (slot c m) = m mod rx_size s" using unat_slot [OF c] assms(2) by (simp add: rx_size_def)
  show lt: "m mod rx_size s < rx_size s" using rx_size_positive [OF assms(1)] by simp
  show "get_rbuf (slot c m) s = Some (rbuf s m)" "get_rdesc (slot c m) s = Some (rdesc s m)"
    using assms(1) lt by (simp_all add: get_rbuf_def get_rdesc_def rbuf_def rdesc_def u rx_arrays_def Let_def)
qed

text \<open>What changes of one slot leave alone.\<close>

lemma set_rx_slot [simp]:
  "rr_count (rx_ring (set_rbuf i b s)) = rr_count (rx_ring s)" "rr_count (rx_ring (set_rdesc i d s)) = rr_count (rx_ring s)"
  "rr_next_to_use (rx_ring (set_rbuf i b s)) = rr_next_to_use (rx_ring s)"
  "rr_next_to_use (rx_ring (set_rdesc i d s)) = rr_next_to_use (rx_ring s)"
  "rr_next_to_clean (rx_ring (set_rbuf i b s)) = rr_next_to_clean (rx_ring s)"
  "rr_next_to_clean (rx_ring (set_rdesc i d s)) = rr_next_to_clean (rx_ring s)"
  "rr_desc (rx_ring (set_rbuf i b s)) = rr_desc (rx_ring s)"
  "rr_buffer_info (rx_ring (set_rbuf i b s)) = (rr_buffer_info (rx_ring s))[unat i := b]"
  "rr_buffer_info (rx_ring (set_rdesc i d s)) = rr_buffer_info (rx_ring s)"
  "rr_desc (rx_ring (set_rdesc i d s)) = (rr_desc (rx_ring s))[unat i := d]"
  "rx_log (set_rbuf i b s) = rx_log s" "rx_log (set_rdesc i d s) = rx_log s"
  "rx_ad (set_rbuf i b s) = rx_ad s" "rx_ad (set_rdesc i d s) = rx_ad s"
  by (simp_all add: set_rbuf_def set_rdesc_def map_rx_def)

lemma rx_event_same [simp]:
  "rx_ring (rx_event e s) = rx_ring s" "rx_ad (rx_event e s) = rx_ad s" "rx_log (rx_event e s) = rx_log s @ [e]"
  by (simp_all add: rx_event_def)

lemma rx_failure_same [simp]: "rx_ring (rx_failure s) = rx_ring s" "rx_ad (rx_failure s) = rx_ad s" "rx_log (rx_failure s) = rx_log s"
  by (simp_all add: rx_failure_def)

lemma rx_arrays_cong:
  "rx_ring t = rx_ring s \<Longrightarrow> rx_arrays t = rx_arrays s" "rx_ring t = rx_ring s \<Longrightarrow> rbuf t = rbuf s"
  "rx_ring t = rx_ring s \<Longrightarrow> rdesc t = rdesc s"
  by (simp_all add: rx_arrays_def rx_size_def rbuf_def rdesc_def fun_eq_iff)

lemma rx_arrays_set: "rx_arrays s \<Longrightarrow> rx_arrays (set_rbuf i b s)" "rx_arrays s \<Longrightarrow> rx_arrays (set_rdesc i d s)"
  by (simp_all add: rx_arrays_def rx_size_def)

lemma rx_slot_set:
  assumes "rx_arrays s" and "c = rr_count (rx_ring s)"
  shows "rbuf (set_rbuf (slot c m) b s) p = (if p mod rx_size s = m mod rx_size s then b else rbuf s p)"
    and "rdesc (set_rbuf (slot c m) b s) p = rdesc s p"
    and "rdesc (set_rdesc (slot c m) d s) p = (if p mod rx_size s = m mod rx_size s then d else rdesc s p)"
    and "rbuf (set_rdesc (slot c m) d s) p = rbuf s p"
  using get_rx_slot [OF assms] assms rx_size_positive [OF assms(1)]
  by (auto simp: rbuf_def rdesc_def rx_size_def rx_arrays_def nth_list_update)

section \<open>Who owns the buffers\<close>

fun frags_made :: "rx_event list \<Rightarrow> u64 list" where
  "frags_made [] = []"
| "frags_made (Frag_alloc d # es) = d # frags_made es"
| "frags_made (e # es) = frags_made es"

text \<open>Buffers that were released or became the packet they hold.\<close>

fun frags_gone :: "rx_event list \<Rightarrow> u64 list" where
  "frags_gone [] = []"
| "frags_gone (Frag_free d # es) = d # frags_gone es"
| "frags_gone (Skb_build d # es) = d # frags_gone es"
| "frags_gone (Page_add d # es) = d # frags_gone es"
| "frags_gone (e # es) = frags_gone es"

text \<open>The life of packets: made, released, handed to the stack.\<close>

fun skb_events :: "rx_event list \<Rightarrow> rx_event list" where
  "skb_events [] = []"
| "skb_events (Skb_copy # es) = Skb_copy # skb_events es"
| "skb_events (Skb_build d # es) = Skb_build d # skb_events es"
| "skb_events (Frags_get # es) = Frags_get # skb_events es"
| "skb_events (Skb_free # es) = Skb_free # skb_events es"
| "skb_events (Deliver f # es) = Deliver f # skb_events es"
| "skb_events (e # es) = skb_events es"

lemma log_append [simp]:
  "frags_made (xs @ ys) = frags_made xs @ frags_made ys" "frags_gone (xs @ ys) = frags_gone xs @ frags_gone ys"
  "skb_events (xs @ ys) = skb_events xs @ skb_events ys"
proof -
  show "frags_made (xs @ ys) = frags_made xs @ frags_made ys" by (induction xs rule: frags_made.induct) simp_all
  show "frags_gone (xs @ ys) = frags_gone xs @ frags_gone ys" by (induction xs rule: frags_gone.induct) simp_all
  show "skb_events (xs @ ys) = skb_events xs @ skb_events ys" by (induction xs rule: skb_events.induct) simp_all
qed

definition held_by :: "e1000_rx_buffer list \<Rightarrow> u64 multiset" where
  "held_by bs = sum_list (map (\<lambda>b. case rb_data b of None \<Rightarrow> {#} | Some d \<Rightarrow> {#d#}) bs)"

lemma held_update: "i < length bs \<Longrightarrow> held_by (bs[i := b]) + held_by [bs ! i] = held_by bs + held_by [b]"
proof (induction bs arbitrary: i)
  case (Cons x bs)
  show ?case
  proof (cases i)
    case (Suc j)
    then show ?thesis using Cons.IH [of j] Cons.prems by (simp add: held_by_def ac_simps)
  qed (simp add: held_by_def ac_simps)
qed simp

definition held :: "e1000_rx \<Rightarrow> u64 multiset" where
  "held s = held_by (rr_buffer_info (rx_ring s))"

text \<open>Every buffer ever obtained is in the ring or gone, exactly once.\<close>

definition balanced :: "e1000_rx \<Rightarrow> bool" where
  "balanced s \<longleftrightarrow> mset (frags_made (rx_log s)) = mset (frags_gone (rx_log s)) + held s"

lemma held_set:
  assumes "rx_arrays s" and "c = rr_count (rx_ring s)"
  shows "held (set_rbuf (slot c m) b s) + held_by [rbuf s m] = held s + held_by [b]"
  using held_update [of "m mod rx_size s" "rr_buffer_info (rx_ring s)" b] get_rx_slot [OF assms] assms(1)
  by (simp add: held_def rbuf_def rx_arrays_def)

lemma held_one [simp]: "held_by [b] = (case rb_data b of None \<Rightarrow> {#} | Some d \<Rightarrow> {#d#})"
  by (simp add: held_by_def)

section \<open>What filling may change\<close>

text \<open>The settings and the transmit side of the adapter, which no operation of the receive path changes.\<close>

definition rx_env where
  "rx_env s = (ad_hw (rx_ad s), rx_keep_fcs s, rx_keep_bad s, rx_copybreak s, rx_mem s, rx_buffer_len s,
     rr_count (rx_ring s), rx_alloc s, rx_clean s, rr_skb_top (rx_ring s), rx_napi s,
     ad_tx_ring (rx_ad s), ad_log (rx_ad s), ad_down (rx_ad s), ad_itr (rx_ad s), ad_tx_itr (rx_ad s), ad_rx_itr (rx_ad s))"

definition refilled :: "e1000_rx \<Rightarrow> e1000_rx \<Rightarrow> bool" where
  "refilled s t \<longleftrightarrow> rx_env t = rx_env s \<and> rx_arrays t \<and> rr_next_to_clean (rx_ring t) = rr_next_to_clean (rx_ring s)
     \<and> rr_next_to_use (rx_ring t) = rr_next_to_use (rx_ring s)
     \<and> rx_discarding t = rx_discarding s \<and> rx_stat_packets t = rx_stat_packets s \<and> rx_skb_next t = rx_skb_next s
     \<and> skb_events (rx_log t) = skb_events (rx_log s)
     \<and> (\<forall>m. (rdesc t m)\<lparr>rd_buffer_addr := 0\<rparr> = (rdesc s m)\<lparr>rd_buffer_addr := 0\<rparr>)
     \<and> (\<forall>m. rb_data (rbuf s m) \<noteq> None \<longrightarrow> rb_data (rbuf t m) = rb_data (rbuf s m))
     \<and> (balanced s \<longrightarrow> balanced t)"

lemma refilled_count: "refilled s t \<Longrightarrow> rr_count (rx_ring t) = rr_count (rx_ring s)"
  by (simp add: refilled_def rx_env_def)

lemma refilled_size: "refilled s t \<Longrightarrow> rx_size t = rx_size s"
  by (simp add: rx_size_def refilled_count)

lemma refilled_refl: "rx_arrays s \<Longrightarrow> refilled s s"
  by (simp add: refilled_def)

lemma refilled_trans: "refilled s t \<Longrightarrow> refilled t u \<Longrightarrow> refilled s u"
  by (auto simp: refilled_def)

text \<open>Steps that leave the ring alone and log the events \<open>es\<close>, none of them about packets.\<close>

definition beside :: "e1000_rx \<Rightarrow> rx_event list \<Rightarrow> e1000_rx \<Rightarrow> bool" where
  "beside s es t \<longleftrightarrow> rx_ring t = rx_ring s \<and> rx_env t = rx_env s \<and> rx_discarding t = rx_discarding s
     \<and> rx_stat_packets t = rx_stat_packets s \<and> rx_skb_next t = rx_skb_next s
     \<and> rx_log t = rx_log s @ es \<and> skb_events es = []"

lemma beside_ring: "beside s es t \<Longrightarrow> rx_ring t = rx_ring s"
  by (simp add: beside_def)

lemma beside_trans: "beside s es t \<Longrightarrow> beside t fs u \<Longrightarrow> beside s (es @ fs) u"
  by (simp add: beside_def)

lemma beside_steps:
  "beside s [] s" "beside s [] (rx_failure s)" "beside s [Rx_map x] (rx_event (Rx_map x) s)" "beside s [Rx_unmap x] (rx_event (Rx_unmap x) s)"
  "beside s [Frag_alloc d] (rx_event (Frag_alloc d) s)" "beside s [Frag_free d] (e1000_free_frag d s)"
  "beside s [] (s\<lparr>rx_frag_next := n\<rparr>)" "beside s [] (s\<lparr>rx_ad := (rx_ad s)\<lparr>ad_dma_next := n\<rparr>\<rparr>)"
  by (simp_all add: beside_def rx_event_def rx_failure_def e1000_free_frag_def rx_env_def)

lemma refilled_beside:
  assumes "rx_arrays s" and "beside s es t" and "mset (frags_made es) = mset (frags_gone es)"
  shows "refilled s t"
proof -
  have r: "rx_ring t = rx_ring s" using assms(2) by (simp add: beside_def)
  have "balanced s \<longrightarrow> balanced t" using assms(2,3) r by (simp add: balanced_def held_def beside_def)
  moreover have "rx_arrays t" "rbuf t = rbuf s" "rdesc t = rdesc s" using assms(1) rx_arrays_cong [OF r] by simp_all
  ultimately show ?thesis unfolding refilled_def using assms(2) by (simp add: beside_def)
qed

lemma balance_shift:
  fixes A :: "'a multiset"
  assumes "A = B + H" and "E + x = F + y" and "H' + x = H + y"
  shows "A + E = B + F + H'"
proof -
  have "A + E + x = B + H + (F + y)" using assms(1,2) by (simp only: add.assoc)
  also have "\<dots> = B + F + (H + y)" by (simp only: ac_simps)
  also have "\<dots> = B + F + H' + x" by (simp only: assms(3) [symmetric] add.assoc)
  finally show ?thesis by simp
qed

text \<open>The buffer of a slot changes, in step with what was obtained and released.\<close>

lemma refilled_attach:
  assumes s: "rx_arrays s" and c: "c = rr_count (rx_ring s)"
    and e: "rb_data (rbuf s m) = None \<or> rb_data b = rb_data (rbuf s m)"
    and t: "beside s es t" and es: "mset (frags_made es) + held_by [rbuf s m] = mset (frags_gone es) + held_by [b]"
  shows "refilled s (set_rbuf (slot c m) b t)"
proof -
  have r: "rx_ring t = rx_ring s" using t by (simp add: beside_def)
  have ta: "rx_arrays t" "c = rr_count (rx_ring t)" "rx_size t = rx_size s" using s c r rx_arrays_cong [OF r] by (simp_all add: rx_size_def)
  let ?u = "set_rbuf (slot c m) b t"
  have h: "held ?u + held_by [rbuf s m] = held s + held_by [b]"
    using held_set [OF ta(1,2), of m b] r rx_arrays_cong(2) [OF r] by (simp add: held_def)
  have l: "rx_log ?u = rx_log s @ es" using t by (simp add: beside_def)
  have "balanced s \<longrightarrow> balanced ?u"
    unfolding balanced_def l log_append mset_append using balance_shift [OF _ es h] by blast
  moreover have "rx_env ?u = rx_env t" "rx_discarding ?u = rx_discarding t" "rx_stat_packets ?u = rx_stat_packets t"
    "rx_skb_next ?u = rx_skb_next t" by (simp_all add: rx_env_def set_rbuf_def map_rx_def)
  moreover have "rdesc ?u p = rdesc s p" for p using rx_slot_set(2) [OF ta(1,2)] rx_arrays_cong(3) [OF r] by simp
  moreover have "rb_data (rbuf ?u p) = rb_data (rbuf s p)" if "rb_data (rbuf s p) \<noteq> None" for p
  proof -
    have "rbuf s p = rbuf s m" if "p mod rx_size s = m mod rx_size s" using that by (simp add: rbuf_def)
    then show ?thesis using e that rx_slot_set(1) [OF ta(1,2), of m b p] rx_arrays_cong(2) [OF r] ta(3) by auto
  qed
  ultimately show ?thesis unfolding refilled_def using t rx_arrays_set(1) [OF ta(1)] r by (simp add: beside_def)
qed

text \<open>The address of a descriptor is set.\<close>

lemma refilled_address:
  assumes s: "rx_arrays s" and c: "c = rr_count (rx_ring s)"
  shows "refilled s (set_rdesc (slot c m) ((rdesc s m)\<lparr>rd_buffer_addr := x\<rparr>) s)"
proof -
  let ?t = "set_rdesc (slot c m) ((rdesc s m)\<lparr>rd_buffer_addr := x\<rparr>) s"
  have "(rdesc ?t p)\<lparr>rd_buffer_addr := 0\<rparr> = (rdesc s p)\<lparr>rd_buffer_addr := 0\<rparr>" "rbuf ?t p = rbuf s p" for p
  proof -
    have "rdesc s p = rdesc s m" if "p mod rx_size s = m mod rx_size s" using that by (simp add: rdesc_def)
    then show "(rdesc ?t p)\<lparr>rd_buffer_addr := 0\<rparr> = (rdesc s p)\<lparr>rd_buffer_addr := 0\<rparr>"
      by (simp add: rx_slot_set(3) [OF s c])
  qed (rule rx_slot_set(4) [OF s c])
  moreover have "balanced ?t = balanced s" by (simp add: balanced_def held_def)
  moreover have "rx_env ?t = rx_env s" "rx_discarding ?t = rx_discarding s" "rx_stat_packets ?t = rx_stat_packets s"
    "rx_skb_next ?t = rx_skb_next s" by (simp_all add: rx_env_def set_rdesc_def map_rx_def)
  ultimately show ?thesis
    using rx_arrays_set(2) [OF s] by (simp add: refilled_def)
qed

section \<open>Filling one slot\<close>

lemma alloc_frag_ends:
  "\<exists>es. beside s es (snd (e1000_alloc_frag K s)) \<and> mset (frags_made es) = mset (frags_gone es)
    + (case fst (e1000_alloc_frag K s) of None \<Rightarrow> {#} | Some d \<Rightarrow> {#d#})"
proof (cases "rk_frag K (rx_frag_next s)")
  case None
  then show ?thesis using beside_steps(7) [of s] by (intro exI [of _ "[]"]) (simp add: e1000_alloc_frag_def)
next
  case (Some p)
  then show ?thesis using beside_trans [OF beside_steps(7) beside_steps(5)]
    by (intro exI [of _ "[] @ [Frag_alloc (p + of_nat E1000_HEADROOM)]"]) (simp add: e1000_alloc_frag_def Let_def)
qed

lemma aligned_frag_ends:
  "\<exists>es. beside s es (snd (aligned_frag K s)) \<and> mset (frags_made es) = mset (frags_gone es)
    + (case fst (aligned_frag K s) of None \<Rightarrow> {#} | Some d \<Rightarrow> {#d#})"
proof -
  obtain f t where a: "e1000_alloc_frag K s = (f, t)" by force
  with alloc_frag_ends [of s K] obtain es where es: "beside s es t"
    "mset (frags_made es) = mset (frags_gone es) + (case f of None \<Rightarrow> {#} | Some d \<Rightarrow> {#d#})" by auto
  obtain g u where b: "e1000_alloc_frag K t = (g, u)" by force
  with alloc_frag_ends [of t K] obtain fs where fs: "beside t fs u"
    "mset (frags_made fs) = mset (frags_gone fs) + (case g of None \<Rightarrow> {#} | Some d \<Rightarrow> {#d#})" by auto
  note two = beside_trans [OF es(1) fs(1)]
  note one_freed = beside_trans [OF two beside_steps(6)] and both_freed = beside_trans [OF beside_trans [OF two beside_steps(6)] beside_steps(6)]
  consider (none) "f = None"
    | (good) d where "f = Some d" "e1000_check_64k_bound (ad_hw (rx_ad s)) d (ucast (rx_buffer_len s))"
    | (gone) d where "f = Some d" "\<not> e1000_check_64k_bound (ad_hw (rx_ad s)) d (ucast (rx_buffer_len s))" "g = None"
    | (second) d e where "f = Some d" "\<not> e1000_check_64k_bound (ad_hw (rx_ad s)) d (ucast (rx_buffer_len s))" "g = Some e"
        "e1000_check_64k_bound (ad_hw (rx_ad s)) e (ucast (rx_buffer_len s))"
    | (bad) d e where "f = Some d" "\<not> e1000_check_64k_bound (ad_hw (rx_ad s)) d (ucast (rx_buffer_len s))" "g = Some e"
        "\<not> e1000_check_64k_bound (ad_hw (rx_ad s)) e (ucast (rx_buffer_len s))"
    by (cases f; cases g) auto
  then show ?thesis
  proof cases
    case none
    then show ?thesis using a es beside_trans [OF es(1) beside_steps(2)] by (intro exI [of _ es]) (simp add: aligned_frag_def)
  next
    case good
    then show ?thesis using a es by (intro exI [of _ es]) (simp add: aligned_frag_def)
  next
    case gone
    then show ?thesis using a b es fs beside_trans [OF one_freed [of d] beside_steps(2)]
      by (intro exI [of _ "(es @ fs) @ [Frag_free d]"]) (simp add: aligned_frag_def)
  next
    case second
    then show ?thesis using a b es fs one_freed [of d]
      by (intro exI [of _ "(es @ fs) @ [Frag_free d]"]) (simp add: aligned_frag_def)
  next
    case bad
    then show ?thesis using a b es fs beside_trans [OF both_freed [of e d] beside_steps(2)]
      by (intro exI [of _ "((es @ fs) @ [Frag_free e]) @ [Frag_free d]"]) (simp add: aligned_frag_def)
  qed
qed

text \<open>What a function that fills slot \<open>m\<close> promises of its result.\<close>

definition filled :: "e1000_rx \<Rightarrow> nat \<Rightarrow> (bool \<times> e1000_rx) option \<Rightarrow> bool" where
  "filled s m r \<longleftrightarrow> (case r of None \<Rightarrow> False
     | Some (ok, u) \<Rightarrow> refilled s u \<and> (ok \<longrightarrow> rb_data (rbuf u m) \<noteq> None))"

lemma filled_Some [simp]: "filled s m (Some (ok, u)) \<longleftrightarrow> refilled s u \<and> (ok \<longrightarrow> rb_data (rbuf u m) \<noteq> None)"
  by (simp add: filled_def)

lemma filledE:
  assumes "filled s m r"
  obtains ok u where "r = Some (ok, u)" and "refilled s u" and "ok \<longrightarrow> rb_data (rbuf u m) \<noteq> None"
  using assms by (auto simp: filled_def split: option.splits)

lemma get_rx_beside:
  assumes "rx_arrays s" and "c = rr_count (rx_ring s)" and "rx_ring t = rx_ring s"
  shows "get_rbuf (slot c m) t = Some (rbuf s m)"
  using get_rx_slot(1) [OF assms(1,2), of m] assms(3) by (simp add: get_rbuf_def)

lemma attach_frag_ends:
  assumes s: "rx_arrays s" and c: "c = rr_count (rx_ring s)" and e: "rb_data (rbuf s m) = None"
    and t: "beside s es t" "mset (frags_made es) = mset (frags_gone es) + {#d#}"
  shows "filled s m (attach_frag K (slot c m) d t)"
proof -
  have r: "rx_ring t = rx_ring s" using t(1) by (rule beside_ring)
  let ?b = "rbuf s m"
  obtain dma failed where k: "rk_dma K (ad_dma_next (rx_ad t)) = (dma, failed)" by force
  let ?t1 = "t\<lparr>rx_ad := (rx_ad t)\<lparr>ad_dma_next := Suc (ad_dma_next (rx_ad t))\<rparr>\<rparr>"
  let ?ok = "e1000_check_64k_bound (ad_hw (rx_ad t)) dma (ucast (rx_buffer_len t))"
  note t1 = beside_trans [OF t(1) beside_steps(8) [of t "Suc (ad_dma_next (rx_ad t))"]]
  have a: "attach_frag K (slot c m) d t = Some (
       if failed then (False, rx_failure (set_rbuf (slot c m) (?b\<lparr>rb_dma := 0\<rparr>) (e1000_free_frag d ?t1)))
       else if \<not> ?ok then (False, rx_failure (set_rbuf (slot c m) (?b\<lparr>rb_data := None, rb_dma := 0\<rparr>)
                 (e1000_free_frag d (rx_event (Rx_unmap dma) (rx_event (Rx_map dma) ?t1)))))
       else (True, set_rbuf (slot c m) (?b\<lparr>rb_dma := dma, rb_data := Some d\<rparr>) (rx_event (Rx_map dma) ?t1)))"
    using get_rx_beside [OF s c r, of m] by (simp add: attach_frag_def k Let_def)
  have fail: "refilled s v \<Longrightarrow> refilled s (rx_failure v)" for v
    using refilled_trans [OF _ refilled_beside [OF _ beside_steps(2)]] by (auto simp: refilled_def)
  consider (failed) failed | (bad) "\<not> failed" "\<not> ?ok" | (good) "\<not> failed" ?ok by blast
  then show ?thesis
  proof cases
    case failed
    have "refilled s (set_rbuf (slot c m) (?b\<lparr>rb_dma := 0\<rparr>) (e1000_free_frag d ?t1))"
      by (rule refilled_attach [OF s c _ beside_trans [OF t1 beside_steps(6)]]) (use e t in simp_all)
    then show ?thesis using a failed fail by simp
  next
    case bad
    have "refilled s (set_rbuf (slot c m) (?b\<lparr>rb_data := None, rb_dma := 0\<rparr>)
        (e1000_free_frag d (rx_event (Rx_unmap dma) (rx_event (Rx_map dma) ?t1))))"
      by (rule refilled_attach [OF s c _ beside_trans [OF beside_trans [OF beside_trans [OF t1 beside_steps(3)] beside_steps(4)] beside_steps(6)]])
         (use e t in simp_all)
    then show ?thesis using a bad fail by simp
  next
    case good
    let ?u = "set_rbuf (slot c m) (?b\<lparr>rb_dma := dma, rb_data := Some d\<rparr>) (rx_event (Rx_map dma) ?t1)"
    have "refilled s ?u"
      by (rule refilled_attach [OF s c _ beside_trans [OF t1 beside_steps(3)]]) (use e t in simp_all)
    moreover have "rb_data (rbuf ?u m) = Some d"
      using rx_slot_set(1) [of "rx_event (Rx_map dma) ?t1" c m _ m] s c r by (simp add: rx_arrays_def rx_size_def)
    ultimately show ?thesis using a good by simp
  qed
qed

text \<open>The end of both functions: the descriptor of the slot gets the address.\<close>

lemma address_ends:
  assumes u: "refilled s u" and c: "c = rr_count (rx_ring s)" and d: "rb_data (rbuf u m) \<noteq> None"
  shows "filled s m (do { d \<leftarrow> get_rdesc (slot c m) u; b \<leftarrow> get_rbuf (slot c m) u;
    Some (True, set_rdesc (slot c m) (d\<lparr>rd_buffer_addr := rb_dma b\<rparr>) u) })"
proof -
  have u': "rx_arrays u" "c = rr_count (rx_ring u)" using u c refilled_count [OF u] by (simp_all add: refilled_def)
  let ?v = "set_rdesc (slot c m) ((rdesc u m)\<lparr>rd_buffer_addr := rb_dma (rbuf u m)\<rparr>) u"
  have "refilled s ?v" by (rule refilled_trans [OF u refilled_address [OF u']])
  then show ?thesis using get_rx_slot [OF u', of m] d rx_slot_set(4) [OF u', of m _ m] by simp
qed

lemma refill_slot_ends:
  assumes s: "rx_arrays s" and c: "c = rr_count (rx_ring s)"
  shows "filled s m (refill_slot K (slot c m) s)"
proof (cases "rb_data (rbuf s m) = None")
  case False
  then have "refill_slot K (slot c m) s = (do { d \<leftarrow> get_rdesc (slot c m) s; b \<leftarrow> get_rbuf (slot c m) s;
      Some (True, set_rdesc (slot c m) (d\<lparr>rd_buffer_addr := rb_dma b\<rparr>) s) })"
    using get_rx_slot(1) [OF s c, of m] by (simp add: refill_slot_def)
  then show ?thesis using address_ends [OF refilled_refl [OF s] c False] by simp
next
  case True
  obtain f t where a: "aligned_frag K s = (f, t)" by force
  with aligned_frag_ends [of s K] obtain es where es: "beside s es t"
    "mset (frags_made es) = mset (frags_gone es) + (case f of None \<Rightarrow> {#} | Some d \<Rightarrow> {#d#})" by auto
  show ?thesis
  proof (cases f)
    case None
    then show ?thesis using a True get_rx_slot(1) [OF s c, of m] refilled_beside [OF s es(1)] es(2) by (simp add: refill_slot_def)
  next
    case (Some d)
    with es(2) have "mset (frags_made es) = mset (frags_gone es) + {#d#}" by simp
    from attach_frag_ends [OF s c True es(1) this, of K] obtain ok u
      where u: "attach_frag K (slot c m) d t = Some (ok, u)" "refilled s u" "ok \<longrightarrow> rb_data (rbuf u m) \<noteq> None" by (rule filledE)
    then have r: "refill_slot K (slot c m) s = (if \<not> ok then Some (False, u) else do { d \<leftarrow> get_rdesc (slot c m) u;
        b \<leftarrow> get_rbuf (slot c m) u; Some (True, set_rdesc (slot c m) (d\<lparr>rd_buffer_addr := rb_dma b\<rparr>) u) })"
      using a Some True get_rx_slot(1) [OF s c, of m] by (simp add: refill_slot_def)
    then show ?thesis using u address_ends [OF u(2) c, of m] by (cases ok) simp_all
  qed
qed

section \<open>Filling several slots\<close>

lemma refill_run:
  assumes "rx_arrays s" and "c = rr_count (rx_ring s)"
  shows "\<exists>j t. refill (refill_slot K) q (slot c m) s = Some (slot c (m + j), t) \<and> j \<le> q \<and> refilled s t
    \<and> (\<forall>k < j. rb_data (rbuf t (m + k)) \<noteq> None)"
  using assms
proof (induction q arbitrary: m s)
  case 0
  then show ?case using refilled_refl by (intro exI [of _ 0] exI [of _ s]) simp
next
  case (Suc q)
  from refill_slot_ends [OF Suc.prems] obtain ok u where
    u: "refill_slot K (slot c m) s = Some (ok, u)" "refilled s u" "ok \<longrightarrow> rb_data (rbuf u m) \<noteq> None" by (rule filledE)
  show ?case
  proof (cases ok)
    case False
    then show ?thesis using u by (intro exI [of _ 0] exI [of _ u]) simp
  next
    case True
    have c: "rr_count (rx_ring u) = c" "rx_arrays u" "c \<noteq> 0"
      using refilled_count [OF u(2)] Suc.prems u(2) by (simp_all add: refilled_def rx_arrays_def)
    from Suc.IH [OF c(2) c(1) [symmetric], of "Suc m"] obtain j t where
      t: "refill (refill_slot K) q (slot c (Suc m)) u = Some (slot c (Suc m + j), t)" "j \<le> q" "refilled u t"
      "\<forall>k < j. rb_data (rbuf t (Suc m + k)) \<noteq> None" by blast
    have "rb_data (rbuf t m) \<noteq> None" using u(3) True t(3) by (simp add: refilled_def)
    then have "\<forall>k < Suc j. rb_data (rbuf t (m + k)) \<noteq> None"
      using t(4) by (metis add.right_neutral add_Suc_right add_Suc less_Suc_eq_0_disj)
    then show ?thesis
      using u True t c ring_next_slot [OF c(3), of m] refilled_trans [OF u(2) t(3)]
      by (intro exI [of _ "Suc j"] exI [of _ t]) simp
  qed
qed

definition rx_done :: "e1000_rx_desc \<Rightarrow> bool" where
  "rx_done d \<longleftrightarrow> rd_status d AND RXD_STAT_DD \<noteq> 0"

text \<open>The device owns the \<open>n\<close> slots from \<open>h\<close> on; outside of them nothing is marked as done.\<close>

definition rx_win :: "e1000_rx \<Rightarrow> nat \<Rightarrow> nat \<Rightarrow> bool" where
  "rx_win s h n \<longleftrightarrow> rx_arrays s \<and> n < rx_size s \<and> rr_next_to_use (rx_ring s) = slot (rr_count (rx_ring s)) (h + n)
     \<and> (\<forall>k < n. rb_data (rbuf s (h + k)) \<noteq> None)
     \<and> (\<forall>k. n \<le> k \<longrightarrow> k < rx_size s \<longrightarrow> \<not> rx_done (rdesc s (h + k)))"

lemma refilled_done: "refilled s t \<Longrightarrow> rx_done (rdesc t m) = rx_done (rdesc s m)"
proof -
  assume "refilled s t"
  then have "(rdesc t m)\<lparr>rd_buffer_addr := 0\<rparr> = (rdesc s m)\<lparr>rd_buffer_addr := 0\<rparr>" by (simp add: refilled_def)
  from arg_cong [OF this, of rd_status] show ?thesis by (simp add: rx_done_def)
qed

text \<open>Like \<open>refilled\<close>, but the slots may have been given to the device.\<close>

definition posted :: "e1000_rx \<Rightarrow> e1000_rx \<Rightarrow> bool" where
  "posted s t \<longleftrightarrow> refilled s (map_rx (\<lambda>R. R\<lparr>rr_next_to_use := rr_next_to_use (rx_ring s)\<rparr>) t)"

lemma map_ntu_same [simp]:
  "rx_env (map_rx (\<lambda>R. R\<lparr>rr_next_to_use := x\<rparr>) t) = rx_env t" "rx_arrays (map_rx (\<lambda>R. R\<lparr>rr_next_to_use := x\<rparr>) t) = rx_arrays t"
  "rbuf (map_rx (\<lambda>R. R\<lparr>rr_next_to_use := x\<rparr>) t) = rbuf t" "rdesc (map_rx (\<lambda>R. R\<lparr>rr_next_to_use := x\<rparr>) t) = rdesc t"
  "rx_log (map_rx (\<lambda>R. R\<lparr>rr_next_to_use := x\<rparr>) t) = rx_log t" "balanced (map_rx (\<lambda>R. R\<lparr>rr_next_to_use := x\<rparr>) t) = balanced t"
  "rr_count (rx_ring (map_rx (\<lambda>R. R\<lparr>rr_next_to_use := x\<rparr>) t)) = rr_count (rx_ring t)"
  "rx_size (map_rx (\<lambda>R. R\<lparr>rr_next_to_use := x\<rparr>) t) = rx_size t"
  by (simp_all add: map_rx_def rx_env_def rx_arrays_def rx_size_def rbuf_def rdesc_def balanced_def held_def fun_eq_iff)

lemma posted_def2:
  "posted s t \<longleftrightarrow> rx_env t = rx_env s \<and> rx_arrays t \<and> rr_next_to_clean (rx_ring t) = rr_next_to_clean (rx_ring s)
     \<and> rx_discarding t = rx_discarding s \<and> rx_stat_packets t = rx_stat_packets s \<and> rx_skb_next t = rx_skb_next s
     \<and> skb_events (rx_log t) = skb_events (rx_log s)
     \<and> (\<forall>m. (rdesc t m)\<lparr>rd_buffer_addr := 0\<rparr> = (rdesc s m)\<lparr>rd_buffer_addr := 0\<rparr>)
     \<and> (\<forall>m. rb_data (rbuf s m) \<noteq> None \<longrightarrow> rb_data (rbuf t m) = rb_data (rbuf s m))
     \<and> (balanced s \<longrightarrow> balanced t)"
  unfolding posted_def refilled_def map_ntu_same by (simp add: map_rx_def)

lemma refilled_posted: "refilled s t \<Longrightarrow> posted s t"
  by (simp add: refilled_def posted_def2)

lemma publish_same:
  "rr_next_to_use (rx_ring (publish i t)) = i" "rbuf (publish i t) = rbuf t" "rdesc (publish i t) = rdesc t"
  "rx_env (publish i t) = rx_env t" "rx_arrays (publish i t) = rx_arrays t"
  "rr_next_to_clean (rx_ring (publish i t)) = rr_next_to_clean (rx_ring t)"
  "rx_discarding (publish i t) = rx_discarding t" "rx_stat_packets (publish i t) = rx_stat_packets t"
  "rx_skb_next (publish i t) = rx_skb_next t" "skb_events (rx_log (publish i t)) = skb_events (rx_log t)"
  "balanced (publish i t) = balanced t"
  by (simp_all add: publish_def map_rx_def rx_event_def rbuf_def rdesc_def rx_size_def rx_env_def rx_arrays_def
      balanced_def held_def fun_eq_iff)

lemma publish_posted: "refilled s t \<Longrightarrow> posted s (publish i t)"
  by (simp add: refilled_def posted_def2 publish_same)

text \<open>Filling extends the window.\<close>

lemma alloc_rx_ends:
  assumes w: "rx_win s h n" and q: "n + q < rx_size s" and a: "rx_alloc s \<noteq> Rx_jumbo"
  shows "\<exists>j t. alloc_rx_buf K q s = Some t \<and> j \<le> q \<and> posted s t \<and> rx_win t h (n + j)"
proof (cases "rx_alloc s")
  case Rx_dummy
  then show ?thesis using w refilled_posted [OF refilled_refl] by (intro exI [of _ 0] exI [of _ s]) (simp add: alloc_rx_buf_def rx_win_def)
next
  case Rx_legacy
  define c where "c = rr_count (rx_ring s)"
  have s: "rx_arrays s" "rr_next_to_use (rx_ring s) = slot c (h + n)" using w by (simp_all add: rx_win_def c_def)
  from refill_run [OF s(1) c_def, of K q "h + n"] obtain j t where
    t: "refill (refill_slot K) q (slot c (h + n)) s = Some (slot c (h + n + j), t)" "j \<le> q" "refilled s t"
    "\<forall>k < j. rb_data (rbuf t (h + n + k)) \<noteq> None" by blast
  let ?u = "publish (slot c (h + n + j)) t"
  have u: "posted s ?u" "rr_next_to_use (rx_ring ?u) = slot c (h + n + j)" "rbuf ?u = rbuf t" "rdesc ?u = rdesc t"
    using publish_posted [OF t(3)] by (simp_all add: publish_same)
  have cu: "rr_count (rx_ring ?u) = c" "rx_size ?u = rx_size s" using u(1) by (simp_all add: posted_def2 rx_env_def c_def rx_size_def)
  have "rb_data (rbuf ?u (h + k)) \<noteq> None" if "k < n + j" for k
  proof (cases "k < n")
    case True
    then show ?thesis using w t(3) u(3) by (simp add: rx_win_def refilled_def)
  next
    case False
    then have "h + k = h + n + (k - n)" "k - n < j" using that by simp_all
    then show ?thesis using t(4) u(3) by metis
  qed
  then have "rx_win ?u h (n + j)"
    using w u t q cu refilled_done [OF t(3)] by (simp add: rx_win_def posted_def2 add.assoc)
  then show ?thesis using t s u(1) Rx_legacy
    by (intro exI [of _ j] exI [of _ ?u]) (simp add: alloc_rx_buf_def e1000_alloc_rx_buffers_def)
qed (use a in simp)

end
