(* ===== verification/Dysco_E1000_Receive.thy ===== *)
theory Dysco_E1000_Receive
  imports Dysco_E1000_Refill
begin

text \<open>
  What \<open>e1000_clean_rx_irq\<close> delivers. The descriptors the device has filled are a queue
  (\<open>rx_queue\<close>); \<open>rx_spec\<close> says, of a list of them alone, which frames they are and what is dropped.
  The loop over the ring takes a prefix of the queue and delivers what \<open>rx_spec\<close> says of it.
\<close>

section \<open>Specification\<close>

type_synonym rx_item = "e1000_rx_desc \<times> u64"

text \<open>A filled descriptor, without its address, and the data of its buffer.\<close>

definition rx_item :: "e1000_rx \<Rightarrow> nat \<Rightarrow> rx_item" where
  "rx_item s m = ((rdesc s m)\<lparr>rd_buffer_addr := 0\<rparr>, the (rb_data (rbuf s m)))"

definition rx_queue :: "e1000_rx \<Rightarrow> nat \<Rightarrow> rx_item list" where
  "rx_queue s h = takeWhile (\<lambda>x. rx_done (fst x)) (map (rx_item s) [h..<h + rx_size s])"

definition whole_frame :: "rx_item \<Rightarrow> bool" where
  "whole_frame x \<longleftrightarrow> rd_status (fst x) AND RXD_STAT_EOP \<noteq> 0"

text \<open>The length of a frame, which may have been counted one too long, or \<open>None\<close> when it is bad.\<close>

definition rx_accept :: "e1000_rx \<Rightarrow> rx_item \<Rightarrow> u32 option" where
  "rx_accept s x = (let d = fst x; n = ucast (rd_length d) in
     if rd_errors d AND RXD_ERR_FRAME_ERR_MASK = 0 then Some n
     else if TBI_ACCEPT (ad_hw (rx_ad s)) (rd_status d) (rd_errors d) n (rx_mem s (snd x + ucast n - 1)) then Some (n - 1)
     else if rx_keep_bad s then Some n else None)"

definition csum_good :: "e1000_rx \<Rightarrow> e1000_rx_desc \<Rightarrow> bool" where
  "csum_good s d \<longleftrightarrow> hw_mac_type (ad_hw (rx_ad s)) \<ge> e1000_82543 \<and> rd_status d AND 0x04 = 0
     \<and> rd_errors d AND RXD_ERR_TCPE = 0 \<and> rd_status d AND 0x20 \<noteq> 0"

definition rx_frame_of :: "e1000_rx \<Rightarrow> rx_item \<Rightarrow> u32 \<Rightarrow> rx_frame" where
  "rx_frame_of s x n = \<lparr>rf_bytes = bytes_at (rx_mem s) (snd x) (if rx_keep_fcs s then n else n - 4),
     rf_checked = csum_good s (fst x), rf_vlan = rx_vlan (rd_status (fst x)) (rd_special (fst x))\<rparr>"

text \<open>
  Only frames that fit into one buffer are taken: the pieces of a longer one are dropped up to and
  including the last. The result says whether the next piece belongs to such a frame.
\<close>

fun rx_spec :: "e1000_rx \<Rightarrow> bool \<Rightarrow> rx_item list \<Rightarrow> rx_frame list \<times> bool" where
  "rx_spec s disc [] = ([], disc)"
| "rx_spec s disc (x # xs) = (
     if \<not> whole_frame x then rx_spec s True xs
     else if disc then rx_spec s False xs
     else (case rx_accept s x of
         None \<Rightarrow> rx_spec s False xs
       | Some n \<Rightarrow> apfst (Cons (rx_frame_of s x n)) (rx_spec s False xs)))"

text \<open>The device writes no more than a buffer holds, and no runts.\<close>

definition rx_fits :: "e1000_rx \<Rightarrow> rx_item \<Rightarrow> bool" where
  "rx_fits s x \<longleftrightarrow> 5 \<le> rd_length (fst x) \<and> ucast (rd_length (fst x)) \<le> frag_room s"

fun frames_in :: "rx_event list \<Rightarrow> rx_frame list" where
  "frames_in [] = []"
| "frames_in (Deliver f # es) = f # frames_in es"
| "frames_in (e # es) = frames_in es"

definition delivered :: "e1000_rx \<Rightarrow> rx_frame list" where
  "delivered s = frames_in (skb_events (rx_log s))"

text \<open>Whatever the device has marked as done fits.\<close>

definition all_fit :: "e1000_rx \<Rightarrow> bool" where
  "all_fit s \<longleftrightarrow> (\<forall>m. rx_done (rdesc s m) \<longrightarrow> rx_fits s (rx_item s m))"

text \<open>Nothing behind the queue is marked as done.\<close>

definition in_order :: "e1000_rx \<Rightarrow> nat \<Rightarrow> bool" where
  "in_order s h \<longleftrightarrow> (\<forall>k. length (rx_queue s h) \<le> k \<longrightarrow> k < rx_size s \<longrightarrow> \<not> rx_done (rdesc s (h + k)))"

text \<open>Packets made and not yet released or handed to the stack.\<close>

fun skbs_open :: "rx_event list \<Rightarrow> int" where
  "skbs_open [] = 0"
| "skbs_open (Skb_copy # es) = skbs_open es + 1"
| "skbs_open (Skb_build d # es) = skbs_open es + 1"
| "skbs_open (Frags_get # es) = skbs_open es + 1"
| "skbs_open (Skb_free # es) = skbs_open es - 1"
| "skbs_open (Deliver f # es) = skbs_open es - 1"
| "skbs_open (e # es) = skbs_open es"

lemma frames_append [simp]: "frames_in (xs @ ys) = frames_in xs @ frames_in ys"
  by (induction xs rule: frames_in.induct) simp_all

lemma open_append [simp]: "skbs_open (xs @ ys) = skbs_open xs + skbs_open ys"
  by (induction xs rule: skbs_open.induct) simp_all

lemma rx_spec_cong:
  assumes "rx_env t = rx_env s"
  shows "rx_accept t = rx_accept s" "rx_frame_of t = rx_frame_of s" "rx_spec t = rx_spec s" "rx_fits t = rx_fits s"
proof -
  show a: "rx_accept t = rx_accept s" using assms by (intro ext) (simp add: rx_env_def rx_accept_def Let_def)
  show f: "rx_frame_of t = rx_frame_of s" using assms by (intro ext) (simp add: rx_env_def rx_frame_of_def csum_good_def)
  have "rx_spec t disc xs = rx_spec s disc xs" for disc xs
    by (induction xs arbitrary: disc) (simp_all add: a f split: option.split)
  then show "rx_spec t = rx_spec s" by (intro ext)
  show "rx_fits t = rx_fits s" using assms by (simp add: rx_env_def rx_fits_def frag_room_def fun_eq_iff)
qed

lemma rx_spec_append:
  "rx_spec s disc (xs @ ys) = (let (fs, d) = rx_spec s disc xs; (gs, e) = rx_spec s d ys in (fs @ gs, e))"
  by (induction xs arbitrary: disc) (auto simp: Let_def apfst_def map_prod_def split: option.splits prod.splits)

section \<open>The parts of a round\<close>

lemma take_skb_ends:
  assumes s: "rx_arrays s" and c: "c = rr_count (rx_ring s)" and d: "rb_data (rbuf s m) = Some a"
  shows "\<exists>r t. take_skb K (slot c m) n s = Some (r, t) \<and> rx_env t = rx_env s \<and> rx_discarding t = rx_discarding s
    \<and> rx_stat_packets t = rx_stat_packets s \<and> (case r of
        None \<Rightarrow> rx_ring t = rx_ring s \<and> rx_log t = rx_log s \<and> (\<exists>j. \<not> rk_skb K j)
      | Some b \<Rightarrow> rx_ring t = rx_ring s \<and> rx_log t = rx_log s @ [Skb_copy] \<and> sk_bytes b = bytes_at (rx_mem s) a n
          \<or> (\<exists>x. rx_ring t = rx_ring (set_rbuf (slot c m) \<lparr>rb_data = None, rb_dma = 0\<rparr> s)
                \<and> rx_log t = rx_log s @ [Skb_build a, Rx_unmap x]))"
proof -
  have g: "get_rbuf (slot c m) s = Some (rbuf s m)" by (rule get_rx_slot(1) [OF s c])
  have z: "(rbuf s m)\<lparr>rb_data := None, rb_dma := 0\<rparr> = \<lparr>rb_data = None, rb_dma = 0\<rparr>" by (cases "rbuf s m") simp
  show ?thesis
    using g d
    by (cases "n > rx_copybreak s"; cases "rk_skb K (rx_skb_next s)"; cases "rk_skb K (Suc (rx_skb_next s))")
       (auto simp: take_skb_def e1000_copybreak_def e1000_alloc_rx_skb_def Let_def rx_failure_def rx_event_def set_rbuf_def
         map_rx_def rx_env_def z simp del: rx_event_same)
qed

lemma judge_ends:
  "rx_ring (snd (judge d a s)) = rx_ring s" "rx_env (snd (judge d a s)) = rx_env s"
  "rx_stat_packets (snd (judge d a s)) = rx_stat_packets s" "rx_log (snd (judge d a s)) = rx_log s"
  "(fst (judge d a s), rx_discarding (snd (judge d a s))) =
     (if \<not> whole_frame (d, a) then (None, True) else if rx_discarding s then (None, False) else (rx_accept s (d, a), False))"
  by (auto simp: judge_def Let_def rx_env_def e1000_tbi_should_accept_def whole_frame_def rx_accept_def)

lemma status_halves:
  "(ucast (ucast (st::u8) OR push_bit 24 (ucast (er::u8)) :: u32) :: u16) = ucast st"
  "(ucast (drop_bit 24 (ucast (st::u8) OR push_bit 24 (ucast (er::u8)) :: u32)) :: u8) = er"
  by (rule bit_word_eqI; auto simp: bit_simps dest: bit_imp_le_length)+

lemma bit_and_exp: "(w::'a::len word) AND 0x20 = 0 \<longleftrightarrow> \<not> bit w 5" "(w::'a word) AND 0x04 = 0 \<longleftrightarrow> \<not> bit w 2"
  using and_exp_eq_0_iff_not_bit [of w 5] and_exp_eq_0_iff_not_bit [of w 2] by simp_all

lemma rx_checksum_ends:
  "\<exists>t. e1000_rx_checksum (ucast (rd_status d) OR push_bit 24 (ucast (rd_errors d))) s = (csum_good s d, t)
    \<and> rx_ring t = rx_ring s \<and> rx_env t = rx_env s \<and> rx_discarding t = rx_discarding s
    \<and> rx_stat_packets t = rx_stat_packets s \<and> rx_log t = rx_log s"
  by (auto simp: e1000_rx_checksum_def Let_def status_halves csum_good_def bit_and_exp bit_simps not_le rx_env_def dest: bit_imp_le_length)

lemma bytes_at_take: "unat m \<le> unat n \<Longrightarrow> take (unat m) (bytes_at f a n) = bytes_at f a m"
  by (simp add: bytes_at_def take_map)

text \<open>The frame is handed over with the bytes the specification says.\<close>

lemma rx_finish_ends:
  assumes f: "rx_fits s x" and k: "rx_accept s x = Some n"
    and g: "get_rbuf i s = Some bi" and b: "rb_data bi = None \<or> sk_bytes b = bytes_at (rx_mem s) (snd x) (ucast (rd_length (fst x)))"
  shows "\<exists>t. rx_finish i (fst x) (snd x) b n s = Some t \<and> rx_ring t = rx_ring s \<and> rx_env t = rx_env s
    \<and> rx_discarding t = rx_discarding s \<and> rx_stat_packets t = rx_stat_packets s
    \<and> rx_log t = rx_log s @ [Deliver (rx_frame_of s x n)]"
proof -
  define len :: u32 where "len = ucast (rd_length (fst x))"
  define m where "m = (if rx_keep_fcs s then n else n - 4)"
  have "unat len = unat (rd_length (fst x))" 
    using unsigned_less [of "rd_length (fst x)", where 'a = nat] by (simp add: len_def unsigned_ucast_eq take_bit_nat_eq_self)
  moreover have "unat (5::u16) \<le> unat (rd_length (fst x))" using f by (simp only: rx_fits_def word_le_nat_alt)
  ultimately have l: "5 \<le> unat len" by simp
  have n: "n = len \<or> n = len - 1" using k by (auto simp: rx_accept_def len_def Let_def split: if_splits)
  have "unat (len - 1) = unat len - 1" using l by (simp add: unat_sub_if')
  then have n': "4 \<le> unat n" "unat n \<le> unat len" using n l by auto
  then have "unat (n - 4) = unat n - 4" by (simp add: unat_sub_if')
  then have m: "unat m \<le> unat len" using n' by (auto simp: m_def)
  have "len \<le> frag_room s" using f by (simp add: rx_fits_def len_def)
  then have "\<not> m > frag_room s" using m by (simp add: word_le_nat_alt word_less_nat_alt)
  moreover have "take (unat m) (sk_bytes b) = bytes_at (rx_mem s) (snd x) m" if "rb_data bi \<noteq> None"
    using b that bytes_at_take [OF m] by (simp add: len_def)
  ultimately have "skb_finish i m (snd x) b s = Some (bytes_at (rx_mem s) (snd x) m)"
    using g by (auto simp: skb_finish_def)
  moreover obtain t where "e1000_rx_checksum (ucast (rd_status (fst x)) OR push_bit 24 (ucast (rd_errors (fst x)))) s = (csum_good s (fst x), t)"
    and t: "rx_ring t = rx_ring s" "rx_env t = rx_env s" "rx_discarding t = rx_discarding s"
      "rx_stat_packets t = rx_stat_packets s" "rx_log t = rx_log s" using rx_checksum_ends by blast
  ultimately show ?thesis
    by (simp add: rx_finish_def m_def e1000_receive_skb_def rx_frame_of_def rx_event_def rx_env_def)
qed

section \<open>One round\<close>

text \<open>
  What a round does to the ring before new buffers are attached: the slot at \<open>h\<close> is done with, its
  buffer may have become the packet.
\<close>

definition consumed :: "nat \<Rightarrow> e1000_rx \<Rightarrow> e1000_rx \<Rightarrow> bool" where
  "consumed h s t \<longleftrightarrow> rx_env t = rx_env s \<and> rx_arrays t \<and> rr_next_to_use (rx_ring t) = rr_next_to_use (rx_ring s)
     \<and> rr_next_to_clean (rx_ring t) = rr_next_to_clean (rx_ring s) \<and> rx_stat_packets t = rx_stat_packets s
     \<and> (\<forall>m. m mod rx_size s \<noteq> h mod rx_size s \<longrightarrow> rdesc t m = rdesc s m \<and> rbuf t m = rbuf s m)
     \<and> \<not> rx_done (rdesc t h) \<and> (balanced s \<longrightarrow> balanced t)
     \<and> skbs_open (skb_events (rx_log t)) = skbs_open (skb_events (rx_log s))"

lemma consumed_win:
  assumes w: "rx_win s h n" and n: "0 < n" and t: "consumed h s t"
  shows "rx_win t (Suc h) (n - 1)" and "\<And>k. 0 < k \<Longrightarrow> k < rx_size s \<Longrightarrow> rdesc t (h + k) = rdesc s (h + k) \<and> rbuf t (h + k) = rbuf s (h + k)"
proof -
  have z: "rr_count (rx_ring t) = rr_count (rx_ring s)" "rx_size t = rx_size s" using t by (simp_all add: consumed_def rx_env_def rx_size_def)
  show o: "rdesc t (h + k) = rdesc s (h + k) \<and> rbuf t (h + k) = rbuf s (h + k)" if "0 < k" "k < rx_size s" for k
    using t mod_apart [of h "h + k" "rx_size s"] that by (auto simp: consumed_def)
  have "rb_data (rbuf t (Suc h + k)) \<noteq> None" if "k < n - 1" for k
  proof -
    have "Suc k < n" "Suc k < rx_size s" using w that by (auto simp: rx_win_def)
    then have "rb_data (rbuf s (h + Suc k)) \<noteq> None" using w unfolding rx_win_def by blast
    then show ?thesis using o [of "Suc k"] \<open>Suc k < rx_size s\<close> by simp
  qed
  moreover have "\<not> rx_done (rdesc t (Suc h + k))" if "n - 1 \<le> k" "k < rx_size s" for k
  proof (cases "Suc k < rx_size s")
    case True
    then show ?thesis using o [of "Suc k"] w that n by (auto simp: rx_win_def dest: spec [of _ "Suc k"])
  next
    case False
    then have "Suc h + k = h + rx_size s" using that by simp
    moreover have "rdesc t (h + rx_size s) = rdesc t h" by (simp add: rdesc_def z)
    moreover have "\<not> rx_done (rdesc t h)" using t by (simp add: consumed_def)
    ultimately show ?thesis by metis
  qed
  ultimately show "rx_win t (Suc h) (n - 1)"
    using w n t z by (auto simp: rx_win_def consumed_def)
qed

lemma rx_queue_win:
  assumes "n < rx_size s" and "\<not> rx_done (rdesc s (h + n))"
  shows "rx_queue s h = takeWhile (\<lambda>x. rx_done (fst x)) (map (rx_item s) [h..<h + n])"
proof -
  have "[h..<h + rx_size s] = [h..<h + n] @ (h + n) # [Suc (h + n)..<h + rx_size s]"
    using assms(1) by (metis add_less_cancel_left le_add1 less_imp_le upt_add_eq_append upt_conv_Cons ordered_cancel_comm_monoid_diff_class.add_diff_inverse)
  moreover have "\<not> rx_done (fst (rx_item s (h + n)))" using assms(2) by (simp add: rx_item_def rx_done_def)
  ultimately show ?thesis unfolding rx_queue_def by (simp add: takeWhile_tail)
qed

text \<open>After the round the queue has lost its first element.\<close>

lemma queue_tail:
  assumes w: "rx_win s h n" and n: "0 < n" and d: "rx_done (rdesc s h)" and t: "consumed h s t" and u: "posted t u"
  shows "rx_queue s h = rx_item s h # rx_queue u (Suc h)"
proof -
  have z: "rx_size t = rx_size s" "rx_size u = rx_size s" using t u by (simp_all add: consumed_def posted_def2 rx_env_def rx_size_def)
  have nz: "n < rx_size s" "\<not> rx_done (rdesc s (h + n))" using w by (auto simp: rx_win_def)
  note o = consumed_win(2) [OF w n t]
  have du: "(rdesc u m)\<lparr>rd_buffer_addr := 0\<rparr> = (rdesc t m)\<lparr>rd_buffer_addr := 0\<rparr>" for m using u by (simp add: posted_def2)
  have done_u: "rx_done (rdesc u m) = rx_done (rdesc t m)" for m
    using arg_cong [OF du [of m], of rd_status] by (simp add: rx_done_def)
  have item: "rx_item u (h + k) = rx_item s (h + k)" if "0 < k" "k < n" for k
    using o [of k] that nz w du [of "h + k"] u by (auto simp: rx_item_def posted_def2 rx_win_def)
  have "map (rx_item u) [Suc h..<h + n] = map (rx_item s) [Suc h..<h + n]"
  proof (rule map_cong [OF refl])
    fix m assume "m \<in> set [Suc h..<h + n]"
    then have "0 < m - h" "m - h < n" "h + (m - h) = m" by auto
    then show "rx_item u m = rx_item s m" using item [of "m - h"] by simp
  qed
  moreover have "\<not> rx_done (rdesc u (Suc h + (n - 1)))" using o [of n] nz n done_u by simp
  then have "rx_queue u (Suc h) = takeWhile (\<lambda>x. rx_done (fst x)) (map (rx_item u) [Suc h..<h + n])"
    using rx_queue_win [of "n - 1" u "Suc h"] z nz n by simp
  moreover have "rx_queue s h = takeWhile (\<lambda>x. rx_done (fst x)) (map (rx_item s) (h # [Suc h..<h + n]))"
    using rx_queue_win [OF nz] n by (simp add: upt_conv_Cons)
  moreover have "rx_done (fst (rx_item s h))" using d by (simp add: rx_item_def rx_done_def)
  ultimately show ?thesis by (simp only: list.map takeWhile.simps if_True)
qed

lemma taken_skb:
  assumes s: "rx_arrays s" and c: "c = rr_count (rx_ring s)" and d: "rb_data (rbuf s h) = Some a"
    and r: "rx_ring t = rx_ring (set_rbuf (slot c h) \<lparr>rb_data = None, rb_dma = 0\<rparr> s)" and l: "rx_log t = rx_log s @ [Skb_build a, Rx_unmap x]"
  shows "rx_arrays t" "m mod rx_size s \<noteq> h mod rx_size s \<Longrightarrow> rbuf t m = rbuf s m" "rdesc t m = rdesc s m"
    "rb_data (rbuf t h) = None" "balanced s \<Longrightarrow> balanced t" "rr_next_to_use (rx_ring t) = rr_next_to_use (rx_ring s)"
    "rr_next_to_clean (rx_ring t) = rr_next_to_clean (rx_ring s)"
proof -
  let ?b = "\<lparr>rb_data = None, rb_dma = 0\<rparr>"
  have h: "held (set_rbuf (slot c h) ?b s) + held_by [rbuf s h] = held s + held_by [?b]" by (rule held_set [OF s c])
  have "held t = held (set_rbuf (slot c h) ?b s)" using r by (simp add: held_def)
  then have "held s = held t + {#a#}" using h d by simp
  then show "balanced s \<Longrightarrow> balanced t" using l by (simp add: balanced_def)
  show "rx_arrays t" "m mod rx_size s \<noteq> h mod rx_size s \<Longrightarrow> rbuf t m = rbuf s m" "rdesc t m = rdesc s m" "rb_data (rbuf t h) = None"
    using rx_arrays_cong [OF r] rx_arrays_set(1) [OF s] rx_slot_set(1,2) [OF s c, of h ?b] by simp_all
qed (simp_all add: r)

text \<open>A packet was taken from the slot: one more packet is open.\<close>

lemma skb_taken:
  assumes s: "rx_arrays s" and c: "c = rr_count (rx_ring s)" and d: "rb_data (rbuf s h) = Some a"
    and tk: "take_skb K (slot c h) n s = Some (Some b, t)"
  shows "rx_env t = rx_env s" "rx_discarding t = rx_discarding s" "rx_stat_packets t = rx_stat_packets s"
    "rx_arrays t" "m mod rx_size s \<noteq> h mod rx_size s \<Longrightarrow> rbuf t m = rbuf s m" "rdesc t m = rdesc s m"
    "balanced s \<Longrightarrow> balanced t" "rr_next_to_use (rx_ring t) = rr_next_to_use (rx_ring s)"
    "rr_next_to_clean (rx_ring t) = rr_next_to_clean (rx_ring s)"
    "rb_data (rbuf t h) = None \<or> sk_bytes b = bytes_at (rx_mem s) a n"
    "delivered t = delivered s" "skbs_open (skb_events (rx_log t)) = skbs_open (skb_events (rx_log s)) + 1"
proof -
  from take_skb_ends [OF s c d, of K n] tk have e: "rx_env t = rx_env s" "rx_discarding t = rx_discarding s"
    "rx_stat_packets t = rx_stat_packets s" and way:
    "rx_ring t = rx_ring s \<and> rx_log t = rx_log s @ [Skb_copy] \<and> sk_bytes b = bytes_at (rx_mem s) a n
     \<or> (\<exists>x. rx_ring t = rx_ring (set_rbuf (slot c h) \<lparr>rb_data = None, rb_dma = 0\<rparr> s) \<and> rx_log t = rx_log s @ [Skb_build a, Rx_unmap x])"
    by auto
  show "rx_env t = rx_env s" "rx_discarding t = rx_discarding s" "rx_stat_packets t = rx_stat_packets s" by (fact e)+
  from way have all: "rx_arrays t \<and> (m mod rx_size s \<noteq> h mod rx_size s \<longrightarrow> rbuf t m = rbuf s m) \<and> rdesc t m = rdesc s m \<and>
      (balanced s \<longrightarrow> balanced t) \<and> rr_next_to_use (rx_ring t) = rr_next_to_use (rx_ring s) \<and>
      rr_next_to_clean (rx_ring t) = rr_next_to_clean (rx_ring s) \<and>
      (rb_data (rbuf t h) = None \<or> sk_bytes b = bytes_at (rx_mem s) a n) \<and> delivered t = delivered s \<and>
      skbs_open (skb_events (rx_log t)) = skbs_open (skb_events (rx_log s)) + 1"
  proof (elim disjE exE conjE)
    assume r: "rx_ring t = rx_ring s" "rx_log t = rx_log s @ [Skb_copy]" "sk_bytes b = bytes_at (rx_mem s) a n"
    have h: "held t = held s" using r(1) by (simp add: held_def)
    show ?thesis
      using s r h rx_arrays_cong [OF r(1)] by (simp add: balanced_def delivered_def)
  next
    fix x assume r: "rx_ring t = rx_ring (set_rbuf (slot c h) \<lparr>rb_data = None, rb_dma = 0\<rparr> s)" "rx_log t = rx_log s @ [Skb_build a, Rx_unmap x]"
    show ?thesis
      using taken_skb [OF s c d r] r(2) by (simp add: delivered_def)
  qed
  from all show "rx_arrays t" "m mod rx_size s \<noteq> h mod rx_size s \<Longrightarrow> rbuf t m = rbuf s m" "rdesc t m = rdesc s m"
    "balanced s \<Longrightarrow> balanced t" "rr_next_to_use (rx_ring t) = rr_next_to_use (rx_ring s)"
    "rr_next_to_clean (rx_ring t) = rr_next_to_clean (rx_ring s)"
    "rb_data (rbuf t h) = None \<or> sk_bytes b = bytes_at (rx_mem s) a n"
    "delivered t = delivered s" "skbs_open (skb_events (rx_log t)) = skbs_open (skb_events (rx_log s)) + 1" by blast+
qed

text \<open>What a round that goes on has done before it attaches new buffers.\<close>

lemma consumed_recycle:
  assumes s: "rx_arrays s" and c: "c = rr_count (rx_ring s)" and d: "rb_data (rbuf s h) = Some a"
    and tk: "take_skb K (slot c h) n s = Some (Some b, t)"
    and u: "rx_ring u = rx_ring t" "rx_env u = rx_env t" "rx_stat_packets u = rx_stat_packets t" "rx_log u = rx_log t @ [e]"
    and e: "e = Skb_free \<or> (\<exists>f. e = Deliver f)"
  shows "get_rdesc (slot c h) u = Some (rdesc s h)" and "consumed h s (set_rdesc (slot c h) ((rdesc s h)\<lparr>rd_status := 0\<rparr>) u)"
proof -
  note t = skb_taken [OF s c d tk]
  have ua: "rx_arrays u" "rbuf u = rbuf t" "rdesc u = rdesc t" using t(4) rx_arrays_cong [OF u(1)] by simp_all
  have uc: "c = rr_count (rx_ring u)" "rx_size u = rx_size s" using u(2) t(1) c by (simp_all add: rx_env_def rx_size_def)
  show "get_rdesc (slot c h) u = Some (rdesc s h)" using get_rx_slot(2) [OF ua(1) uc(1)] ua t(6) by simp
  let ?v = "set_rdesc (slot c h) ((rdesc s h)\<lparr>rd_status := 0\<rparr>) u"
  have l: "frags_made [e] = []" "frags_gone [e] = []" "skbs_open (skb_events [e]) = -1" using e by auto
  have hu: "held ?v = held t" using u(1) by (simp add: held_def)
  have "balanced t \<longrightarrow> balanced ?v" unfolding balanced_def hu using u(4) l by simp
  moreover have "rx_env ?v = rx_env u" "rx_stat_packets ?v = rx_stat_packets u" by (simp_all add: set_rdesc_def map_rx_def rx_env_def)
  moreover have "rdesc ?v m = rdesc s m \<and> rbuf ?v m = rbuf s m" if "m mod rx_size s \<noteq> h mod rx_size s" for m
    using that rx_slot_set(3,4) [OF ua(1) uc(1), of h _ m] uc ua t(5,6) by simp
  moreover have "\<not> rx_done (rdesc ?v h)" using rx_slot_set(3) [OF ua(1) uc(1), of h _ h] by (simp add: rx_done_def)
  moreover have "skbs_open (skb_events (rx_log ?v)) = skbs_open (skb_events (rx_log s))" using u(4) l t(12) by simp
  ultimately show "consumed h s ?v"
    using t(1,3,7,8,9) u(1-3) rx_arrays_set(2) [OF ua(1)] by (simp add: consumed_def)
qed

lemma rx_spec_one:
  "rx_spec s disc [x] = (if \<not> whole_frame x then ([], True) else if disc then ([], False)
     else (case rx_accept s x of None \<Rightarrow> [] | Some n \<Rightarrow> [rx_frame_of s x n], False))"
  by (simp split: option.split)

lemma frame_ends:
  assumes s: "rx_arrays s" and c: "c = rr_count (rx_ring s)" and d: "rb_data (rbuf s h) = Some a" and f: "rx_fits s (rx_item s h)"
    and tk: "take_skb K (slot c h) (ucast (rd_length (rdesc s h))) s = Some (Some b, s1)"
    and j: "judge (rdesc s h) a s1 = (keep, s2)"
  shows "\<exists>s3. (case keep of None \<Rightarrow> Some (rx_event Skb_free s2) | Some n \<Rightarrow> rx_finish (slot c h) (rdesc s h) a b n s2) = Some s3
    \<and> get_rdesc (slot c h) s3 = Some (rdesc s h) \<and> consumed h s (set_rdesc (slot c h) ((rdesc s h)\<lparr>rd_status := 0\<rparr>) s3)
    \<and> (delivered s3, rx_discarding s3) = (delivered s @ fst (rx_spec s (rx_discarding s) [rx_item s h]), snd (rx_spec s (rx_discarding s) [rx_item s h]))
    \<and> of_bool (keep \<noteq> None) = length (fst (rx_spec s (rx_discarding s) [rx_item s h]))"
proof -
  let ?x = "rx_item s h" and ?i = "slot c h"
  have it: "?x = ((rdesc s h)\<lparr>rd_buffer_addr := 0\<rparr>, a)" using d by (simp add: rx_item_def)
  note t = skb_taken [OF s c d tk]
  have "rx_accept s1 (rdesc s h, a) = rx_accept s ?x"
    by (simp only: rx_spec_cong(1) [OF t(1)]) (simp add: it rx_accept_def Let_def)
  moreover have "whole_frame (rdesc s h, a) = whole_frame ?x" by (simp add: it whole_frame_def)
  ultimately have s2: "rx_ring s2 = rx_ring s1" "rx_env s2 = rx_env s1" "rx_stat_packets s2 = rx_stat_packets s1"
    "rx_log s2 = rx_log s1" and kd: "(keep, rx_discarding s2) = (if \<not> whole_frame ?x then (None, True)
       else if rx_discarding s then (None, False) else (rx_accept s ?x, False))"
    using judge_ends [of "rdesc s h" a s1] j t(2) by simp_all
  have dl2: "delivered s2 = delivered s" using s2(4) t(11) by (simp add: delivered_def)
  show ?thesis
  proof (cases keep)
    case None
    let ?s3 = "rx_event Skb_free s2"
    have u: "rx_ring ?s3 = rx_ring s1" "rx_env ?s3 = rx_env s1" "rx_stat_packets ?s3 = rx_stat_packets s1" "rx_log ?s3 = rx_log s1 @ [Skb_free]"
      "rx_discarding ?s3 = rx_discarding s2" using s2 by (simp_all add: rx_event_def rx_env_def)
    have "delivered ?s3 = delivered s2" by (simp add: delivered_def)
    then show ?thesis
      using None kd dl2 u(5) consumed_recycle [OF s c d tk u(1-4)]
      by (intro exI [of _ ?s3]) (auto simp: rx_spec_one split: if_splits)
  next
    case (Some n)
    then have w: "whole_frame ?x" "\<not> rx_discarding s" "rx_accept s ?x = Some n" "\<not> rx_discarding s2"
      using kd by (auto split: if_splits)
    have e: "rx_env s2 = rx_env s" using s2(2) t(1) by simp
    have g: "get_rbuf ?i s2 = Some (rbuf s1 h)"
    proof -
      have "rx_arrays s1" "c = rr_count (rx_ring s1)" using t(1,4) c by (simp_all add: rx_env_def)
      from get_rx_slot(1) [OF this, of h] s2(1) show ?thesis by (simp add: get_rbuf_def)
    qed
    have mem: "rx_mem s2 = rx_mem s" using e by (simp add: rx_env_def)
    have b: "rb_data (rbuf s1 h) = None \<or> sk_bytes b = bytes_at (rx_mem s2) (snd ?x) (ucast (rd_length (fst ?x)))"
      using t(10) by (simp add: it mem)
    have f2: "rx_fits s2 ?x" "rx_accept s2 ?x = Some n" using f w rx_spec_cong [OF e] by simp_all
    from rx_finish_ends [OF f2 g b] obtain s3 where s3: "rx_finish ?i (fst ?x) (snd ?x) b n s2 = Some s3"
      "rx_ring s3 = rx_ring s2" "rx_env s3 = rx_env s2" "rx_discarding s3 = rx_discarding s2" "rx_stat_packets s3 = rx_stat_packets s2"
      "rx_log s3 = rx_log s2 @ [Deliver (rx_frame_of s2 ?x n)]" by blast
    have fin: "rx_finish ?i (rdesc s h) a b n s2 = Some s3"
      using s3(1) by (simp add: it rx_finish_def)
    have u: "rx_ring s3 = rx_ring s1" "rx_env s3 = rx_env s1" "rx_stat_packets s3 = rx_stat_packets s1"
      "rx_log s3 = rx_log s1 @ [Deliver (rx_frame_of s2 ?x n)]" using s2 s3 by simp_all
    have "delivered s3 = delivered s2 @ [rx_frame_of s2 ?x n]" using s3(6) by (simp add: delivered_def)
    then show ?thesis
      using Some fin dl2 s3(4) w consumed_recycle [OF s c d tk u] rx_spec_cong(2) [OF e]
      by (intro exI [of _ s3]) (simp add: rx_spec_one)
  qed
qed

lemma queue_head:
  assumes "rx_arrays s"
  shows "rx_queue s h = [] \<longleftrightarrow> \<not> rx_done (rdesc s h)" and "rx_queue s h = x # xs \<Longrightarrow> x = rx_item s h"
proof -
  have q: "rx_queue s h = takeWhile (\<lambda>x. rx_done (fst x)) (rx_item s h # map (rx_item s) [Suc h..<h + rx_size s])"
    using rx_size_positive [OF assms] by (simp add: rx_queue_def upt_conv_Cons)
  have "rx_done (fst (rx_item s h)) = rx_done (rdesc s h)" by (simp add: rx_item_def rx_done_def)
  then show "rx_queue s h = [] \<longleftrightarrow> \<not> rx_done (rdesc s h)" "rx_queue s h = x # xs \<Longrightarrow> x = rx_item s h"
    unfolding q by (auto split: if_splits)
qed

text \<open>Attaching buffers leaves the queue alone.\<close>

lemma posted_queue:
  assumes w: "rx_win s h n" and u: "posted s u"
  shows "rx_queue u h = rx_queue s h"
proof -
  have z: "rx_size u = rx_size s" using u by (simp add: posted_def2 rx_env_def rx_size_def)
  have n: "n < rx_size s" "\<not> rx_done (rdesc s (h + n))" using w by (auto simp: rx_win_def)
  have du: "(rdesc u m)\<lparr>rd_buffer_addr := 0\<rparr> = (rdesc s m)\<lparr>rd_buffer_addr := 0\<rparr>" for m using u by (simp add: posted_def2)
  have "\<not> rx_done (rdesc u (h + n))" using n(2) arg_cong [OF du [of "h + n"], of rd_status] by (simp add: rx_done_def)
  moreover have "map (rx_item u) [h..<h + n] = map (rx_item s) [h..<h + n]"
  proof (rule map_cong [OF refl])
    fix m assume "m \<in> set [h..<h + n]"
    then have "m - h < n" "h + (m - h) = m" by auto
    then have "rb_data (rbuf s m) \<noteq> None" using w unfolding rx_win_def by metis
    then show "rx_item u m = rx_item s m" using du u by (simp add: rx_item_def posted_def2)
  qed
  ultimately show ?thesis using rx_queue_win [of n u h] rx_queue_win [of n s h] n z by (simp del: map_eq_conv)
qed

lemma fit_kept:
  assumes "all_fit s"
  shows "consumed h s t \<Longrightarrow> all_fit t" and "posted s t \<Longrightarrow> all_fit t"
proof -
  have fit: "rx_fits t (rx_item t m)"
    if e: "rx_env t = rx_env s" and d: "rd_length (rdesc t m) = rd_length (rdesc s m)" "rx_done (rdesc s m)" for t m
    using assms d rx_spec_cong(4) [OF e] by (simp add: all_fit_def rx_fits_def rx_item_def)
  show "all_fit t" if c: "consumed h s t" for t
    unfolding all_fit_def
  proof (intro allI impI)
    fix m assume m: "rx_done (rdesc t m)"
    have "rx_size t = rx_size s" using c by (simp add: consumed_def rx_env_def rx_size_def)
    then have "m mod rx_size s \<noteq> h mod rx_size s" using m c by (auto simp: consumed_def rdesc_def)
    then have "rdesc t m = rdesc s m" using c by (simp add: consumed_def)
    then show "rx_fits t (rx_item t m)" using m c by (intro fit) (simp_all add: consumed_def)
  qed
  show "all_fit t" if p: "posted s t" for t
    unfolding all_fit_def
  proof (intro allI impI)
    fix m assume m: "rx_done (rdesc t m)"
    have e: "(rdesc t m)\<lparr>rd_buffer_addr := 0\<rparr> = (rdesc s m)\<lparr>rd_buffer_addr := 0\<rparr>" using p by (simp add: posted_def2)
    have "rd_status (rdesc t m) = rd_status (rdesc s m)" "rd_length (rdesc t m) = rd_length (rdesc s m)"
      using arg_cong [OF e, of rd_status] arg_cong [OF e, of rd_length] by simp_all
    moreover have "rx_env t = rx_env s" using p by (simp add: posted_def2)
    ultimately show "rx_fits t (rx_item t m)" using m by (intro fit) (simp_all add: rx_done_def)
  qed
qed

lemma posted_done: "posted s u \<Longrightarrow> rx_done (rdesc u m) = rx_done (rdesc s m)"
proof -
  assume "posted s u"
  then have "(rdesc u m)\<lparr>rd_buffer_addr := 0\<rparr> = (rdesc s m)\<lparr>rd_buffer_addr := 0\<rparr>" by (simp add: posted_def2)
  from arg_cong [OF this, of rd_status] show ?thesis by (simp add: rx_done_def)
qed

lemma posted_in_order:
  assumes "rx_win s h n" and "posted s u" and "in_order s h"
  shows "in_order u h"
  using assms posted_queue [OF assms(1,2)] posted_done [OF assms(2)]
  by (simp add: in_order_def posted_def2 rx_env_def rx_size_def)

text \<open>After a round the rest of the queue is still in order.\<close>

lemma in_order_next:
  assumes w: "rx_win s h n" "0 < n" and o: "in_order s h" and q: "rx_queue s h = x # xs"
    and t: "consumed h s t" and u: "posted t u" and qu: "rx_queue u (Suc h) = xs"
  shows "in_order u (Suc h)"
  unfolding in_order_def
proof (intro allI impI)
  fix k assume k: "length (rx_queue u (Suc h)) \<le> k" "k < rx_size u"
  have z: "rx_size u = rx_size s" "rx_size t = rx_size s" using t u by (simp_all add: consumed_def posted_def2 rx_env_def rx_size_def)
  have "\<not> rx_done (rdesc t (Suc h + k))"
  proof (cases "Suc k < rx_size s")
    case True
    then have "\<not> rx_done (rdesc s (h + Suc k))" using o [unfolded in_order_def, rule_format, of "Suc k"] q k qu by simp
    then show ?thesis using consumed_win(2) [OF w t, of "Suc k"] True by simp
  next
    case False
    then have "Suc h + k = h + rx_size s" using k z by simp
    moreover have "rdesc t (h + rx_size s) = rdesc t h" by (simp add: rdesc_def z)
    moreover have "\<not> rx_done (rdesc t h)" using t by (simp add: consumed_def)
    ultimately show ?thesis by metis
  qed
  then show "\<not> rx_done (rdesc u (Suc h + k))" using posted_done [OF u] by simp
qed

section \<open>The loop\<close>

text \<open>The loop that began in \<open>s0\<close> is at the slot \<open>h\<close>.\<close>

definition rx_at :: "e1000_rx \<Rightarrow> rx_loop \<Rightarrow> nat \<Rightarrow> bool" where
  "rx_at s0 l h \<longleftrightarrow> rx_env (rl_st l) = rx_env s0 \<and> rl_i l = slot (rr_count (rx_ring s0)) h
     \<and> (\<exists>n. rx_win (rl_st l) h n \<and> n + rl_cleaned_count l < rx_size s0)
     \<and> rr_next_to_clean (rx_ring (rl_st l)) = rr_next_to_clean (rx_ring s0)
     \<and> rx_stat_packets (rl_st l) = rx_stat_packets s0 \<and> (balanced s0 \<longrightarrow> balanced (rl_st l))
     \<and> (all_fit s0 \<longrightarrow> all_fit (rl_st l)) \<and> in_order (rl_st l) h
     \<and> skbs_open (skb_events (rx_log (rl_st l))) = skbs_open (skb_events (rx_log s0))"

lemma rx_at_round:
  assumes at: "rx_at s0 l h" and l: "s = rl_st l" and w: "rx_win s h n" "n + rl_cleaned_count l < rx_size s" "0 < n"
    and t: "consumed h s t" and q: "rx_queue s h = x # xs" and a: "rx_alloc s0 \<noteq> Rx_jumbo" and cc: "m = rl_cleaned_count l + 1"
  shows "\<exists>cc' u. (if m \<ge> RX_BUFFER_WRITE then Option.bind (alloc_rx_buf K m t) (\<lambda>u. Some (0, u)) else Some (m, t)) = Some (cc', u)
    \<and> posted t u \<and> rx_queue u (Suc h) = xs
    \<and> (\<forall>l'. rl_st l' = u \<longrightarrow> rl_i l' = ring_next (rr_count (rx_ring s)) (rl_i l) \<longrightarrow> rl_cleaned_count l' = cc' \<longrightarrow> rx_at s0 l' (Suc h))"
proof -
  have env: "rx_env s = rx_env s0" "rl_i l = slot (rr_count (rx_ring s0)) h" using at l by (simp_all add: rx_at_def)
  have z: "rx_size t = rx_size s" "rx_size s = rx_size s0" "rr_count (rx_ring s) = rr_count (rx_ring s0)" "rx_alloc t = rx_alloc s0"
    using t env by (simp_all add: consumed_def rx_env_def rx_size_def)
  have nz: "rr_count (rx_ring s0) \<noteq> 0" using w(1) z(3) by (simp add: rx_win_def rx_arrays_def)
  note win = consumed_win(1) [OF w(1,3) t]
  have room: "n - 1 + m < rx_size t" using w(2,3) cc z by simp
  obtain cc' u j where u: "(if m \<ge> RX_BUFFER_WRITE then Option.bind (alloc_rx_buf K m t) (\<lambda>u. Some (0, u)) else Some (m, t)) = Some (cc', u)"
    "posted t u" "rx_win u (Suc h) (n - 1 + j)" "n - 1 + j + cc' < rx_size s0"
  proof (cases "m \<ge> RX_BUFFER_WRITE")
    case True
    with alloc_rx_ends [OF win room, of K] z a obtain j u where "alloc_rx_buf K m t = Some u" "j \<le> m" "posted t u" "rx_win u (Suc h) (n - 1 + j)"
      by auto
    then show thesis using True room z by (intro that [of 0 u j]) simp_all
  next
    case False
    have "posted t t" using t refilled_posted [OF refilled_refl] by (simp add: consumed_def)
    then show thesis using False room z win by (intro that [of m t 0]) simp_all
  qed
  have d: "rx_done (rdesc s h)" using queue_head(1) [of s h] q w(1) by (auto simp: rx_win_def)
  have qu: "rx_queue u (Suc h) = xs" using queue_tail [OF w(1,3) d t u(2)] q by simp
  have fit: "all_fit s0 \<longrightarrow> all_fit u" using at l fit_kept(1) [OF _ t] fit_kept(2) [OF _ u(2)] by (auto simp: rx_at_def)
  have ord: "in_order u (Suc h)" using at l by (intro in_order_next [OF w(1,3) _ q t u(2) qu]) (simp add: rx_at_def)
  have "rx_at s0 l' (Suc h)" if "rl_st l' = u" "rl_i l' = ring_next (rr_count (rx_ring s)) (rl_i l)" "rl_cleaned_count l' = cc'" for l'
    using that u t at l env z ring_next_slot [OF nz, of h] fit ord unfolding rx_at_def
    by (intro conjI exI [of _ "n - 1 + j"]) (simp_all add: posted_def2 consumed_def)
  then show ?thesis using u(1,2) qu by blast
qed

lemma recycle_eq:
  "get_rdesc i s = Some d \<Longrightarrow> rx_recycle K i m s = (if m \<ge> RX_BUFFER_WRITE
     then Option.bind (alloc_rx_buf K m (set_rdesc i (d\<lparr>rd_status := 0\<rparr>) s)) (\<lambda>u. Some (0, u))
     else Some (m, set_rdesc i (d\<lparr>rd_status := 0\<rparr>) s))"
  by (simp add: rx_recycle_def Let_def)

lemma rx_one_eq:
  assumes "s = rl_st l" and "get_rdesc (rl_i l) s = Some d" and "get_rbuf (rl_i l) s = Some bi" and "rb_data bi = Some a"
    and "take_skb K (rl_i l) (ucast (rd_length d)) s = Some (Some b, s1)" and "judge d a s1 = (keep, s2)"
    and "(case keep of None \<Rightarrow> Some (rx_event Skb_free s2) | Some n \<Rightarrow> rx_finish (rl_i l) d a b n s2) = Some s3"
    and "rx_recycle K (rl_i l) (rl_cleaned_count l + 1) s3 = Some (cc, u)"
  shows "rx_one K l = Some (True, l\<lparr>rl_st := u, rl_i := ring_next (rr_count (rx_ring s)) (rl_i l), rl_work := rl_work l + 1,
            rl_cleaned_count := cc, rl_cleaned := True,
            rl_bytes := (case keep of None \<Rightarrow> rl_bytes l | Some n \<Rightarrow> rl_bytes l + (n - 4)),
            rl_packets := (case keep of None \<Rightarrow> rl_packets l | Some n \<Rightarrow> rl_packets l + 1)\<rparr>)"
  unfolding rx_one_def using assms by (cases keep) simp_all

lemma rx_one_ends:
  assumes at: "rx_at s0 l h" and q: "rx_queue (rl_st l) h = x # xs" and f: "rx_fits s0 x" and a: "rx_alloc s0 \<noteq> Rx_jumbo"
  shows "\<exists>go l'. rx_one K l = Some (go, l') \<and> rl_work l' = rl_work l + 1
    \<and> (go \<longrightarrow> rx_at s0 l' (Suc h) \<and> rx_queue (rl_st l') (Suc h) = xs
         \<and> delivered (rl_st l') = delivered (rl_st l) @ fst (rx_spec s0 (rx_discarding (rl_st l)) [x])
         \<and> rx_discarding (rl_st l') = snd (rx_spec s0 (rx_discarding (rl_st l)) [x])
         \<and> rl_packets l' = rl_packets l + of_nat (length (fst (rx_spec s0 (rx_discarding (rl_st l)) [x]))) \<and> rl_cleaned l')
    \<and> (\<not> go \<longrightarrow> rx_at s0 l' h \<and> rx_queue (rl_st l') h = x # xs \<and> delivered (rl_st l') = delivered (rl_st l)
         \<and> rx_discarding (rl_st l') = rx_discarding (rl_st l) \<and> rl_packets l' = rl_packets l
         \<and> rl_cleaned l' = rl_cleaned l \<and> (\<exists>j. \<not> rk_skb K j))"
proof -
  define s where "s = rl_st l"
  define c where "c = rr_count (rx_ring s)"
  have env: "rx_env s = rx_env s0" "rl_i l = slot c h" using at by (simp_all add: rx_at_def s_def c_def rx_env_def)
  obtain n where w: "rx_win s h n" "n + rl_cleaned_count l < rx_size s" using at by (auto simp: rx_at_def s_def rx_env_def rx_size_def)
  have s: "rx_arrays s" using w by (simp add: rx_win_def)
  have x: "x = rx_item s h" "rx_done (rdesc s h)" using queue_head [OF s, of h] q by (simp_all add: s_def)
  have n: "0 < n"
  proof (rule ccontr)
    assume "\<not> 0 < n"
    then have "\<not> rx_done (rdesc s (h + 0))" using w(1) rx_size_positive [OF s] unfolding rx_win_def by blast
    then show False using x(2) by simp
  qed
  then have "rb_data (rbuf s (h + 0)) \<noteq> None" using w(1) unfolding rx_win_def by blast
  then obtain d where d: "rb_data (rbuf s h) = Some d" by auto
  note g = get_rx_slot(1,2) [OF s c_def, of h]
  from take_skb_ends [OF s c_def d, of K "ucast (rd_length (rdesc s h))"] obtain r s1 where
    tk: "take_skb K (slot c h) (ucast (rd_length (rdesc s h))) s = Some (r, s1)"
    and same: "rx_env s1 = rx_env s" "rx_discarding s1 = rx_discarding s" "rx_stat_packets s1 = rx_stat_packets s"
    and none: "r = None \<Longrightarrow> rx_ring s1 = rx_ring s \<and> rx_log s1 = rx_log s \<and> (\<exists>j. \<not> rk_skb K j)" by (auto split: option.splits)
  show ?thesis
  proof (cases r)
    case None
    let ?l = "l\<lparr>rl_st := s1, rl_work := rl_work l + 1\<rparr>"
    have one: "rx_one K l = Some (False, ?l)"
      unfolding rx_one_def Let_def by (simp add: s_def [symmetric] env(2) g d tk None)
    have r1: "rx_ring s1 = rx_ring s" "rx_log s1 = rx_log s" "\<exists>j. \<not> rk_skb K j" using none None by simp_all
    have "rx_win s1 h n" using w(1) r1(1) rx_arrays_cong [OF r1(1)] by (simp add: rx_win_def rx_size_def)
    moreover have it: "rx_item s1 = rx_item s" using rx_arrays_cong [OF r1(1)] by (intro ext) (simp add: rx_item_def)
    have q1: "rx_queue s1 = rx_queue s" using r1(1) by (intro ext) (simp add: rx_queue_def it rx_size_def)
    have o1: "in_order s1 = in_order s"
      using rx_arrays_cong(3) [OF r1(1)] r1(1) q1 by (intro ext) (simp add: in_order_def rx_size_def)
    note q1 o1
    moreover have "balanced s1 = balanced s" using r1 by (simp add: balanced_def held_def)
    moreover have "all_fit s1 = all_fit s"
      using it rx_arrays_cong(3) [OF r1(1)] rx_spec_cong(4) [OF same(1)] by (simp add: all_fit_def)
    ultimately have "rx_at s0 ?l h"
      using at same r1 w(2) env by (auto simp: rx_at_def s_def [symmetric] rx_env_def rx_size_def intro!: exI [of _ n])
    then show ?thesis using one same r1 q q1
      by (intro exI [of _ False] exI [of _ ?l]) (simp add: s_def delivered_def)
  next
    case (Some b)
    obtain keep s2 where j: "judge (rdesc s h) d s1 = (keep, s2)" by force
    have fits: "rx_fits s (rx_item s h)" using f x(1) rx_spec_cong(4) [OF env(1)] by simp
    from frame_ends [OF s c_def d fits tk [unfolded Some] j] obtain s3 where
      s3: "(case keep of None \<Rightarrow> Some (rx_event Skb_free s2) | Some n \<Rightarrow> rx_finish (slot c h) (rdesc s h) d b n s2) = Some s3"
      "get_rdesc (slot c h) s3 = Some (rdesc s h)" and cons: "consumed h s (set_rdesc (slot c h) ((rdesc s h)\<lparr>rd_status := 0\<rparr>) s3)"
      and dl: "delivered s3 = delivered s @ fst (rx_spec s (rx_discarding s) [rx_item s h])"
        "rx_discarding s3 = snd (rx_spec s (rx_discarding s) [rx_item s h])"
        "of_bool (keep \<noteq> None) = length (fst (rx_spec s (rx_discarding s) [rx_item s h]))" by auto
    let ?t = "set_rdesc (slot c h) ((rdesc s h)\<lparr>rd_status := 0\<rparr>) s3"
    from rx_at_round [OF at s_def w n cons q [folded s_def] a refl, of K] obtain cc' u where
      u: "(if rl_cleaned_count l + 1 \<ge> RX_BUFFER_WRITE then Option.bind (alloc_rx_buf K (rl_cleaned_count l + 1) ?t) (\<lambda>u. Some (0, u))
           else Some (rl_cleaned_count l + 1, ?t)) = Some (cc', u)" "posted ?t u" "rx_queue u (Suc h) = xs"
      and at': "\<forall>l'. rl_st l' = u \<longrightarrow> rl_i l' = ring_next (rr_count (rx_ring s)) (rl_i l) \<longrightarrow> rl_cleaned_count l' = cc' \<longrightarrow> rx_at s0 l' (Suc h)" by blast
    have rec: "rx_recycle K (slot c h) (rl_cleaned_count l + 1) s3 = Some (cc', u)"
      unfolding recycle_eq [OF s3(2)] by (rule u(1))
    let ?l = "l\<lparr>rl_st := u, rl_i := ring_next (rr_count (rx_ring s)) (slot c h), rl_work := rl_work l + 1,
            rl_cleaned_count := cc', rl_cleaned := True,
            rl_bytes := (case keep of None \<Rightarrow> rl_bytes l | Some n \<Rightarrow> rl_bytes l + (n - 4)),
            rl_packets := (case keep of None \<Rightarrow> rl_packets l | Some n \<Rightarrow> rl_packets l + 1)\<rparr>"
    have one: "rx_one K l = Some (True, ?l)"
      unfolding env(2) [symmetric]
      by (rule rx_one_eq [OF s_def g(2) [folded env(2)] g(1) [folded env(2)] d tk [folded env(2), unfolded Some] j
            s3(1) [folded env(2)] rec [folded env(2)]])
    have "rx_at s0 ?l (Suc h)" using at' env(2) by simp
    moreover have "delivered u = delivered s3" "rx_discarding u = rx_discarding s3"
      using u(2) by (simp_all add: posted_def2 delivered_def) (simp add: set_rdesc_def map_rx_def)
    moreover have "rl_packets ?l = rl_packets l + of_nat (length (fst (rx_spec s (rx_discarding s) [rx_item s h])))"
      unfolding dl(3) [symmetric] by (cases keep) simp_all
    ultimately show ?thesis using one u(3) dl(1,2) x(1) rx_spec_cong(3) [OF env(1)]
      by (intro exI [of _ True] exI [of _ ?l]) (simp add: s_def [symmetric])
  qed
qed

text \<open>
  The loop takes \<open>k\<close> elements off the queue. It stops when the queue is empty, when the budget is
  used up or when a packet cannot be had.
\<close>

lemma rx_loop_ends:
  assumes "rx_at s0 l h" and "rx_queue (rl_st l) h = q" and "\<forall>x \<in> set q. rx_fits s0 x" and "rx_alloc s0 \<noteq> Rx_jumbo"
  shows "\<exists>k l'. clean_rx_loop (rx_one K) b l = Some l' \<and> k \<le> length q \<and> rx_at s0 l' (h + k) \<and> rx_queue (rl_st l') (h + k) = drop k q
    \<and> delivered (rl_st l') = delivered (rl_st l) @ fst (rx_spec s0 (rx_discarding (rl_st l)) (take k q))
    \<and> rx_discarding (rl_st l') = snd (rx_spec s0 (rx_discarding (rl_st l)) (take k q))
    \<and> rl_packets l' = rl_packets l + of_nat (length (fst (rx_spec s0 (rx_discarding (rl_st l)) (take k q))))
    \<and> (rl_cleaned l' \<longleftrightarrow> rl_cleaned l \<or> 0 < k)
    \<and> (rl_work l' = rl_work l + int k \<and> (k = length q \<or> b \<le> rl_work l')
       \<or> rl_work l' = rl_work l + int k + 1 \<and> rl_work l' \<le> b \<and> (\<exists>j. \<not> rk_skb K j))
    \<and> rl_work l' \<le> max b (rl_work l)"
  using assms
proof (induction q arbitrary: l h)
  case Nil
  have s: "rx_arrays (rl_st l)" "rl_i l = slot (rr_count (rx_ring (rl_st l))) h"
    using Nil.prems(1) by (auto simp: rx_at_def rx_win_def rx_env_def)
  have "\<not> rx_done (rdesc (rl_st l) h)" using queue_head(1) [OF s(1)] Nil.prems(2) by simp
  then have "clean_rx_loop (rx_one K) b l = Some l"
    using get_rx_slot(2) [OF s(1) refl, of h] s(2) by (subst clean_rx_loop.simps) (simp add: rx_done_def)
  then show ?case using Nil.prems by (intro exI [of _ 0] exI [of _ l]) simp
next
  case (Cons x xs)
  let ?d = "rx_discarding (rl_st l)"
  have s: "rx_arrays (rl_st l)" "rl_i l = slot (rr_count (rx_ring (rl_st l))) h"
    using Cons.prems(1) by (auto simp: rx_at_def rx_win_def rx_env_def)
  have dn: "rx_done (rdesc (rl_st l) h)" using queue_head(1) [OF s(1), of h] Cons.prems(2) by simp
  note g = get_rx_slot(2) [OF s(1) refl, of h]
  show ?case
  proof (cases "b \<le> rl_work l")
    case True
    then have "clean_rx_loop (rx_one K) b l = Some l" using g s(2) by (subst clean_rx_loop.simps) simp
    then show ?thesis using Cons.prems True by (intro exI [of _ 0] exI [of _ l]) simp
  next
    case False
    from rx_one_ends [OF Cons.prems(1,2) _ Cons.prems(4), of K] Cons.prems(3) obtain go l1 where
      one: "rx_one K l = Some (go, l1)" "rl_work l1 = rl_work l + 1" and
      on: "go \<Longrightarrow> rx_at s0 l1 (Suc h) \<and> rx_queue (rl_st l1) (Suc h) = xs
         \<and> delivered (rl_st l1) = delivered (rl_st l) @ fst (rx_spec s0 ?d [x]) \<and> rx_discarding (rl_st l1) = snd (rx_spec s0 ?d [x])
         \<and> rl_packets l1 = rl_packets l + of_nat (length (fst (rx_spec s0 ?d [x]))) \<and> rl_cleaned l1" and
      off: "\<not> go \<Longrightarrow> rx_at s0 l1 h \<and> rx_queue (rl_st l1) h = x # xs \<and> delivered (rl_st l1) = delivered (rl_st l)
         \<and> rx_discarding (rl_st l1) = ?d \<and> rl_packets l1 = rl_packets l \<and> rl_cleaned l1 = rl_cleaned l \<and> (\<exists>j. \<not> rk_skb K j)" by auto
    have step: "clean_rx_loop (rx_one K) b l = (if go then clean_rx_loop (rx_one K) b l1 else Some l1)"
      using g s(2) dn False one(1) by (subst clean_rx_loop.simps) (simp add: rx_done_def)
    show ?thesis
    proof (cases go)
      case no: False
      then show ?thesis using step off one(2) False by (intro exI [of _ 0] exI [of _ l1]) simp
    next
      case go: True
      note on = on [OF go]
      have "\<forall>x \<in> set xs. rx_fits s0 x" using Cons.prems(3) by simp
      from Cons.IH [of l1 "Suc h", OF conjunct1 [OF on] _ this Cons.prems(4)] on obtain k l' where
        k: "clean_rx_loop (rx_one K) b l1 = Some l'" "k \<le> length xs" "rx_at s0 l' (Suc h + k)" "rx_queue (rl_st l') (Suc h + k) = drop k xs"
        "delivered (rl_st l') = delivered (rl_st l1) @ fst (rx_spec s0 (rx_discarding (rl_st l1)) (take k xs))"
        "rx_discarding (rl_st l') = snd (rx_spec s0 (rx_discarding (rl_st l1)) (take k xs))"
        "rl_packets l' = rl_packets l1 + of_nat (length (fst (rx_spec s0 (rx_discarding (rl_st l1)) (take k xs))))"
        "rl_cleaned l'" and wk:
        "rl_work l' = rl_work l1 + int k \<and> (k = length xs \<or> b \<le> rl_work l')
         \<or> rl_work l' = rl_work l1 + int k + 1 \<and> rl_work l' \<le> b \<and> (\<exists>j. \<not> rk_skb K j)" "rl_work l' \<le> max b (rl_work l1)" by blast
      have sp: "rx_spec s0 ?d (take (Suc k) (x # xs))
          = (fst (rx_spec s0 ?d [x]) @ fst (rx_spec s0 (snd (rx_spec s0 ?d [x])) (take k xs)),
             snd (rx_spec s0 (snd (rx_spec s0 ?d [x])) (take k xs)))"
        using rx_spec_append [of s0 ?d "[x]" "take k xs"] by (simp add: split_def Let_def del: rx_spec.simps)
      have pk: "rl_packets l' = rl_packets l + of_nat (length (fst (rx_spec s0 ?d (take (Suc k) (x # xs)))))"
        using k(7) on unfolding sp by simp
      have dl: "delivered (rl_st l') = delivered (rl_st l) @ fst (rx_spec s0 ?d (take (Suc k) (x # xs)))"
        "rx_discarding (rl_st l') = snd (rx_spec s0 ?d (take (Suc k) (x # xs)))"
        using k(5,6) on unfolding sp by simp_all
      have "rl_work l' = rl_work l + int (Suc k) \<and> (Suc k = length (x # xs) \<or> b \<le> rl_work l')
         \<or> rl_work l' = rl_work l + int (Suc k) + 1 \<and> rl_work l' \<le> b \<and> (\<exists>j. \<not> rk_skb K j)" "rl_work l' \<le> max b (rl_work l)"
        using wk one(2) False by auto
      then show ?thesis using k(1-4,8) step go pk dl
        by (intro exI [of _ "Suc k"] exI [of _ l']) (simp del: rx_spec.simps)
    qed
  qed
qed

end
