(* ===== verification/Dysco_E1000_Machine.thy ===== *)
theory Dysco_E1000_Machine
  imports Dysco_E1000_Ring
begin

text \<open>
  The module and the driver as one machine: every frame the stack hands over goes through
  \<open>dysco_output\<close> first and, unless the module takes it, into the transmit ring. Properties of the
  driver's transmit path, each an instance of what \<open>Dysco_E1000_Reserve\<close>, \<open>Dysco_E1000_Queue\<close>,
  \<open>Dysco_E1000_Clean\<close> and \<open>Dysco_E1000_Ring\<close> prove.
\<close>

section \<open>The machine\<close>

record nic_state =
  nic_ad :: e1000_adapter
  nic_mod :: mstate
  nic_taken :: "nat list"
  nic_lost :: "nat list"

text \<open>
  A frame \<open>f\<close> whose packet the module has made into \<open>b\<close>. It may be shorter than 60 bytes and the
  module may have lengthened it (by a chain, for instance), unless it is to be segmented.
\<close>

definition tx_ready :: "tx_frame \<Rightarrow> skb \<Rightarrow> bool" where
  "tx_ready f b \<longleftrightarrow> frame_shape f \<and> frame_shape (f\<lparr>f_skb := b\<rparr>)
     \<and> (if frame_mss f = 0 then unat (skb_len b) < unat (skb_len (f_skb f)) + 4096
        else 60 \<le> unat (skb_len b) \<and> unat (skb_len b) \<le> unat (skb_len (f_skb f)))"

text \<open>The module has passed the frame on.\<close>

definition passed_on :: "kapi \<Rightarrow> tx_frame \<Rightarrow> mstate \<Rightarrow> bool" where
  "passed_on K f m = (case dysco_output K (f_skb f) m of
     Some ((TX_CONTINUE, b), _) \<Rightarrow> tx_ready f b
   | _ \<Rightarrow> False)"

text \<open>The module has answered that nothing is to be sent.\<close>

definition swallowed :: "kapi \<Rightarrow> tx_frame \<Rightarrow> mstate \<Rightarrow> bool" where
  "swallowed K f m = (case dysco_output K (f_skb f) m of
     Some ((NETDEV_TX_OK, _), _) \<Rightarrow> True
   | _ \<Rightarrow> False)"

text \<open>
  \<open>nic_taken\<close> are the frames for which the driver has answered that it takes them, \<open>nic_lost\<close> those of
  them that the module has swallowed: they never get to the ring, and the driver does not release
  them either.
\<close>

inductive e1000_step :: "kapi \<Rightarrow> nic_state \<Rightarrow> nic_state \<Rightarrow> bool" for K where
  Swallow: "swallowed K f (nic_mod s)
     \<Longrightarrow> e1000_xmit_frame K N f (nic_ad s, nic_mod s) = Some (E1000_TX_OK, g, a', m')
     \<Longrightarrow> e1000_step K s (s\<lparr>nic_ad := a', nic_mod := m', nic_taken := nic_taken s @ [f_id f], nic_lost := nic_lost s @ [f_id f]\<rparr>)"
| Take: "nic_ok N \<Longrightarrow> passed_on K f (nic_mod s)
     \<Longrightarrow> e1000_xmit_frame K N f (nic_ad s, nic_mod s) = Some (E1000_TX_OK, g, a', m')
     \<Longrightarrow> e1000_step K s (s\<lparr>nic_ad := a', nic_mod := m', nic_taken := nic_taken s @ [f_id f]\<rparr>)"
| Refuse: "nic_ok N \<Longrightarrow> passed_on K f (nic_mod s)
     \<Longrightarrow> e1000_xmit_frame K N f (nic_ad s, nic_mod s) = Some (E1000_TX_BUSY, g, a', m')
     \<Longrightarrow> e1000_step K s (s\<lparr>nic_ad := a', nic_mod := m'\<rparr>)"
| Report: "write_back i (nic_ad s) = Some a' \<Longrightarrow> e1000_step K s (s\<lparr>nic_ad := a'\<rparr>)"
| Reclaim: "e1000_clean_tx_irq N (nic_ad s) = Some (r, a') \<Longrightarrow> e1000_step K s (s\<lparr>nic_ad := a'\<rparr>)"
| Go_down: "e1000_clean_tx_ring (nic_ad s) = Some a' \<Longrightarrow> e1000_step K s (s\<lparr>nic_ad := a'\<rparr>)"

inductive_cases e1000_stepE: "e1000_step K s s'"

definition nic_start :: "nic_state \<Rightarrow> bool" where
  "nic_start s \<longleftrightarrow> nic_taken s = [] \<and> nic_lost s = [] \<and> (\<exists>M a es. e1000_setup_tx_resources M a = (True, nic_ad s, es)
     \<and> tr_count (ad_tx_ring a) \<noteq> 0 \<and> unat (tr_count (ad_tx_ring a)) \<le> 65536 \<and> ad_log a = [])"

text \<open>The ring is a queue, and a frame that was taken is in it, was released or was lost, exactly once.\<close>

definition accounted :: "nic_state \<Rightarrow> bool" where
  "accounted s \<longleftrightarrow> (\<exists>fs. ring_ok (nic_ad s) fs
     \<and> mset (nic_taken s) = mset (freed_ids (ad_log (nic_ad s))) + mset (ids fs) + mset (nic_lost s))"

lemma headlen_of_shape: "frame_shape f \<Longrightarrow> unat (skb_headlen f) = unat (skb_len (f_skb f)) - unat (f_data_len f)"
  unfolding skb_headlen_def frame_shape_def by (intro unat_sub_le) simp

lemma tx_ready_length:
  assumes "tx_ready f b"
  shows "length_known (skb_headlen f) (f\<lparr>f_skb := b\<rparr>)"
proof -
  have s: "frame_shape f" "frame_shape (f\<lparr>f_skb := b\<rparr>)" using assms by (simp_all add: tx_ready_def)
  note h = headlen_of_shape [OF s(1)] headlen_of_shape [OF s(2)]
  have "unat (skb_headlen f) < 2 ^ 30" using h(1) s(1) unfolding frame_shape_def by linarith
  moreover have "unat (f_data_len f) < unat (skb_len (f_skb f))" using s by (simp add: frame_shape_def)
  ultimately show ?thesis using assms h by (auto simp: length_known_def tx_ready_def frame_mss_def split: if_splits)
qed

section \<open>A whole transmission\<close>

lemma xmit_frame_cases:
  assumes r: "ring_ok a fs" and N: "nic_ok N" and p: "passed_on K f m"
  shows "\<exists>x g a' b m'. dysco_output K (f_skb f) m = Some ((TX_CONTINUE, b), m')
     \<and> e1000_xmit_frame K N f (a, m) = Some (x, g, a', m')
     \<and> (case x of
         E1000_TX_BUSY \<Rightarrow> ring_ok a' fs \<and> freed_ids (ad_log a') = freed_ids (ad_log a) \<and> f_id g = f_id f
       | E1000_TX_OK \<Rightarrow> (\<exists>k. ring_ok a' (fs @ [(k, f_id f, False)])) \<and> freed_ids (ad_log a') = freed_ids (ad_log a)
           \<or> ring_ok a' fs \<and> freed_ids (ad_log a') = freed_ids (ad_log a) @ [f_id f])"
proof -
  obtain b m' where o: "dysco_output K (f_skb f) m = Some ((TX_CONTINUE, b), m')"
    and f: "tx_ready f b"
    using p unfolding passed_on_def by (auto split: option.splits prod.splits tx_result.splits)
  let ?f = "f\<lparr>f_skb := b\<rparr>"
  have "e1000_xmit_frame K N f (a, m)
      = Option.bind (e1000_xmit_body N (skb_headlen f) ?f a) (\<lambda>(x, g, a'). Some (x, g, a', m'))"
    by (simp add: e1000_xmit_frame_def o)
  moreover have s: "frame_shape ?f" "unat (skb_len (f_skb ?f)) < 60 \<longrightarrow> frame_mss ?f = 0"
    using f by (auto simp: tx_ready_def frame_mss_def split: if_splits)
  obtain x g a' where "e1000_xmit_body N (skb_headlen f) ?f a = Some (x, g, a')" and
    "case x of
       E1000_TX_BUSY \<Rightarrow> ring_ok a' fs \<and> freed_ids (ad_log a') = freed_ids (ad_log a) \<and> f_id g = f_id ?f
     | E1000_TX_OK \<Rightarrow> (\<exists>k. ring_ok a' (fs @ [(k, f_id ?f, False)])) \<and> freed_ids (ad_log a') = freed_ids (ad_log a)
         \<or> ring_ok a' fs \<and> freed_ids (ad_log a') = freed_ids (ad_log a) @ [f_id ?f]"
    using xmit_cases [OF r s tx_ready_length [OF f] N] by blast
  ultimately show ?thesis
    by (intro exI [of _ x] exI [of _ g] exI [of _ a'] exI [of _ b] exI [of _ m']) (cases x; simp add: o)
qed

lemma xmit_swallowed:
  "dysco_output K (f_skb f) m = Some ((NETDEV_TX_OK, b), m') \<Longrightarrow>
   e1000_xmit_frame K N f (a, m) = Some (E1000_TX_OK, f\<lparr>f_skb := b\<rparr>, a, m')"
  by (simp add: e1000_xmit_frame_def)

lemma swallowedE:
  assumes "swallowed K f m"
  obtains b m' where "e1000_xmit_frame K N f (a, m) = Some (E1000_TX_OK, f\<lparr>f_skb := b\<rparr>, a, m')"
  using assms xmit_swallowed [of K f m _ _ N a] that by (auto simp: swallowed_def split: option.splits prod.splits tx_result.splits)

lemma passed_on_not_swallowed: "passed_on K f m \<Longrightarrow> \<not> swallowed K f m"
  by (auto simp: passed_on_def swallowed_def split: option.splits prod.splits tx_result.splits)

lemma accounted_step: "e1000_step K s s' \<Longrightarrow> accounted s \<Longrightarrow> accounted s'"
proof (erule e1000_stepE)
  assume acc: "accounted s"
  then obtain fs where r: "ring_ok (nic_ad s) fs"
    and m: "mset (nic_taken s) = mset (freed_ids (ad_log (nic_ad s))) + mset (ids fs) + mset (nic_lost s)"
    by (auto simp: accounted_def)
  {
    fix f m' N g a'
    assume "swallowed K f (nic_mod s)" "e1000_xmit_frame K N f (nic_ad s, nic_mod s) = Some (E1000_TX_OK, g, a', m')"
      and s': "s' = s\<lparr>nic_ad := a', nic_mod := m', nic_taken := nic_taken s @ [f_id f], nic_lost := nic_lost s @ [f_id f]\<rparr>"
    then have "a' = nic_ad s" by (metis (no_types) swallowedE option.inject prod.inject)
    then show "accounted s'" using r m s' by (auto simp: accounted_def)
  next
    fix N f g a' m'
    assume N: "nic_ok N" and p: "passed_on K f (nic_mod s)"
      and x: "e1000_xmit_frame K N f (nic_ad s, nic_mod s) = Some (E1000_TX_OK, g, a', m')"
      and s': "s' = s\<lparr>nic_ad := a', nic_mod := m', nic_taken := nic_taken s @ [f_id f]\<rparr>"
    from xmit_frame_cases [OF r N p] x
    have "(\<exists>k. ring_ok a' (fs @ [(k, f_id f, False)])) \<and> freed_ids (ad_log a') = freed_ids (ad_log (nic_ad s))
        \<or> ring_ok a' fs \<and> freed_ids (ad_log a') = freed_ids (ad_log (nic_ad s)) @ [f_id f]" by auto
    then show "accounted s'"
    proof
      assume "(\<exists>k. ring_ok a' (fs @ [(k, f_id f, False)])) \<and> freed_ids (ad_log a') = freed_ids (ad_log (nic_ad s))"
      then obtain k where "ring_ok a' (fs @ [(k, f_id f, False)])" "freed_ids (ad_log a') = freed_ids (ad_log (nic_ad s))" by blast
      then show ?thesis using m s' by (auto simp: accounted_def intro!: exI [of _ "fs @ [(k, f_id f, False)]"])
    next
      assume "ring_ok a' fs \<and> freed_ids (ad_log a') = freed_ids (ad_log (nic_ad s)) @ [f_id f]"
      then show ?thesis using m s' by (auto simp: accounted_def intro!: exI [of _ fs])
    qed
  next
    fix N f g a' m'
    assume N: "nic_ok N" and p: "passed_on K f (nic_mod s)"
      and x: "e1000_xmit_frame K N f (nic_ad s, nic_mod s) = Some (E1000_TX_BUSY, g, a', m')"
      and s': "s' = s\<lparr>nic_ad := a', nic_mod := m'\<rparr>"
    from xmit_frame_cases [OF r N p] x show "accounted s'" using m s' by (auto simp: accounted_def)
  next
    fix i a' assume "write_back i (nic_ad s) = Some a'" and s': "s' = s\<lparr>nic_ad := a'\<rparr>"
    then obtain gs where "ring_ok a' gs" "ids gs = ids fs" "freed_ids (ad_log a') = freed_ids (ad_log (nic_ad s))"
      using write_back_ok [OF r] by blast
    then show "accounted s'" using m s' by (intro accounted_def [THEN iffD2] exI [of _ gs]) (simp flip: mset_map)
  next
    fix N x a' assume "e1000_clean_tx_irq N (nic_ad s) = Some (x, a')" and s': "s' = s\<lparr>nic_ad := a'\<rparr>"
    then have "ring_ok a' (dropWhile sent fs)"
      and fr: "freed_ids (ad_log a') = freed_ids (ad_log (nic_ad s)) @ ids (takeWhile sent fs)"
      using clean_tx_irq_result [OF r, of N] by auto
    moreover have "ids fs = ids (takeWhile sent fs) @ ids (dropWhile sent fs)" by (metis takeWhile_dropWhile_id map_append)
    then have "mset (ids fs) = mset (ids (takeWhile sent fs)) + mset (ids (dropWhile sent fs))" by (metis mset_append)
    ultimately show "accounted s'" using m s'
      by (intro accounted_def [THEN iffD2] exI [of _ "dropWhile sent fs"]) (simp add: ac_simps flip: mset_map)
  next
    fix a' assume "e1000_clean_tx_ring (nic_ad s) = Some a'" and s': "s' = s\<lparr>nic_ad := a'\<rparr>"
    with clean_tx_ring_result [OF r] obtain gone where "ring_ok a' []"
      "freed_ids (ad_log a') = freed_ids (ad_log (nic_ad s)) @ gone" "mset gone = mset (ids fs)" by auto
    then show "accounted s'" using m s' by (intro accounted_def [THEN iffD2] exI [of _ "[]"]) simp
  }
qed

lemma accounted_start: "nic_start s \<Longrightarrow> accounted s"
proof -
  assume "nic_start s"
  then obtain M a es where s: "nic_taken s = [] \<and> nic_lost s = []" "e1000_setup_tx_resources M a = (True, nic_ad s, es)"
    "tr_count (ad_tx_ring a) \<noteq> 0" "unat (tr_count (ad_tx_ring a)) \<le> 65536" "ad_log a = []"
    by (auto simp: nic_start_def)
  have "ad_log (nic_ad s) = ad_log a"
    using arg_cong [OF s(2), of "\<lambda>r. ad_log (fst (snd r))"]
    by (simp add: e1000_setup_tx_resources_def map_tx_def Let_def split: if_splits option.splits)
  then show ?thesis using setup_ring_ok [OF s(2-4)] s by (auto simp: accounted_def)
qed

interpretation nic: invariant_of nic_start "e1000_step K" accounted for K
  by unfold_locales (auto intro: accounted_start accounted_step)

section \<open>A concrete driver\<close>

definition ref_hw :: e1000_hw where
  "ref_hw = \<lparr>hw_mac_type = e1000_82540, hw_media_type = e1000_media_type_copper, hw_bus_type = e1000_bus_type_pci,
     hw_fc = 0, hw_original_fc = 0, hw_max_frame_size = 1518, hw_min_frame_size = 64, hw_autoneg = True,
     hw_autoneg_advertised = 0x2f, hw_mdix = 0, hw_forced_speed_duplex = e1000_10_half, hw_tbi_compatibility_on = False\<rparr>"

definition ref_ring :: "u32 \<Rightarrow> e1000_tx_ring" where
  "ref_ring n = \<lparr>tr_desc = [], tr_count = n, tr_next_to_use = 0, tr_next_to_clean = 0, tr_buffer_info = [],
     tr_last_tx_tso = False\<rparr>"

definition ref_bare :: "u32 \<Rightarrow> e1000_adapter" where
  "ref_bare n = \<lparr>ad_hw = ref_hw, ad_tx_ring = ref_ring n, ad_pcix_82544 = False, ad_link_duplex = 2, ad_link_speed = 1000,
     ad_txd_cmd = 0x0b000000, ad_tx_fifo_head = 0, ad_tx_fifo_size = 0, ad_tx_fifo_stall = False, ad_restart_queue = 0,
     ad_detect_tx_hung = False, ad_tx_timeout_factor = 1, ad_total_tx_bytes = 0, ad_total_tx_packets = 0,
     ad_total_rx_bytes = 0, ad_total_rx_packets = 0, ad_stat_tx_bytes = 0, ad_stat_tx_packets = 0, ad_itr = 0,
     ad_itr_setting = 0, ad_tx_itr = 0, ad_rx_itr = 0, ad_down = False, ad_queue_stopped = False, ad_carrier_ok = True,
     ad_dma_next = 0, ad_log = []\<rparr>"

definition ref_memory :: ring_memory where
  "ref_memory = \<lparr>rm_vzalloc = True, rm_coherent = (\<lambda>_. Some 0x10000)\<rparr>"

definition ref_nic :: "u32 \<Rightarrow> e1000_adapter" where
  "ref_nic n = fst (snd (e1000_setup_tx_resources ref_memory (ref_bare n)))"

text \<open>A short frame becomes one of 60 bytes in one part.\<close>

definition ref_pad :: "tx_frame \<Rightarrow> tx_frame" where
  "ref_pad f = (if 60 \<le> unat (skb_len (f_skb f)) then f
     else f\<lparr>f_skb := (f_skb f)\<lparr>skb_len := 60\<rparr>, f_data_len := 0, f_frags := []\<rparr>)"

text \<open>A kernel whose \<open>n\<close>-th mapping succeeds when \<open>ok n\<close>.\<close>

definition ref_nkernel :: "(nat \<Rightarrow> bool) \<Rightarrow> nic_kernel" where
  "ref_nkernel ok = \<lparr>n_dma = (\<lambda>n. (0x100000 + of_nat n * 0x1000, \<not> ok n)), n_cow_ok = (\<lambda>_. True), n_pad = Some \<circ> ref_pad, n_pull = (\<lambda>_ _. None),
     n_tcpudp_magic = (\<lambda>_ _ _ _ _. 0), n_ipv6_magic = (\<lambda>_. 0), n_jiffies = 1000, n_hz = 250, n_status = 0\<rparr>"

text \<open>A frame of \<open>n\<close> bytes in front and pieces of the lengths \<open>ls\<close> behind.\<close>

definition ref_frame :: "nat \<Rightarrow> u32 \<Rightarrow> u32 list \<Rightarrow> u16 \<Rightarrow> tx_frame" where
  "ref_frame i n ls mss = \<lparr>f_id = i, f_skb = (ref_skb 5 0 (mem_of []) 0)\<lparr>skb_len := n + sum_list ls\<rparr>, f_data = 0x2000,
     f_data_len = sum_list ls, f_frags = map (\<lambda>l. (0x8000, l)) ls, f_gso_size = mss, f_gso_segs = 0, f_gso_v6 = False,
     f_protocol = htons ETH_P_IP, f_nexthdr = 0, f_network_offset = 14, f_transport_offset = 34, f_csum_start = 34,
     f_csum_offset = 16, f_vlan_tag = None, f_no_fcs = False, f_xmit_more = False\<rparr>"

definition no_module :: mstate where
  "no_module = \<lparr>core = fresh_dstate, ns_hash_table = [], ns_hashes = [], tot_namespaces = 0\<rparr>"

lemma ref_nkernel_ok: "nic_ok (ref_nkernel ok)"
  by (auto simp: nic_ok_def ref_nkernel_def ref_pad_def frame_ok_shape frame_shape_def skb_headlen_def)

lemma ref_nic_ok: "n \<noteq> 0 \<Longrightarrow> unat n \<le> 65536 \<Longrightarrow> ring_ok (ref_nic n) []"
  by (rule setup_ring_ok [of ref_memory "ref_bare n" _ "[Vzalloc, Coherent_alloc 0x10000]"])
     (simp_all add: ref_nic_def e1000_setup_tx_resources_def ref_memory_def ref_bare_def ref_ring_def ref_hw_def
       e1000_check_64k_bound_def Let_def)

lemma ref_start: "n \<noteq> 0 \<Longrightarrow> unat n \<le> 65536 \<Longrightarrow> nic_start \<lparr>nic_ad = ref_nic n, nic_mod = m, nic_taken = [], nic_lost = []\<rparr>"
  unfolding nic_start_def
  by (intro conjI exI [of _ ref_memory] exI [of _ "ref_bare n"] exI [of _ "[Vzalloc, Coherent_alloc 0x10000]"])
     (simp_all add: ref_nic_def e1000_setup_tx_resources_def ref_memory_def ref_bare_def ref_ring_def ref_hw_def
       e1000_check_64k_bound_def Let_def)

text \<open>A frame in three pieces.\<close>

abbreviation ref_three :: tx_frame where
  "ref_three \<equiv> ref_frame 7 100 [5000, 300] 0"

lemma ref_output:
  "dysco_output K (f_skb (ref_frame i n ls mss)) no_module = Some ((TX_CONTINUE, f_skb (ref_frame i n ls mss)), no_module)"
  by (simp add: dysco_output_def ref_frame_def ref_skb_def no_module_def dysco_get_hashes_def)

lemma ref_passes: "frame_ok (ref_frame i n ls mss) \<Longrightarrow> passed_on K (ref_frame i n ls mss) no_module"
  by (simp add: passed_on_def ref_output tx_ready_def frame_ok_shape)

lemma ref_three_ok: "frame_ok ref_three"
  by (simp add: frame_ok_def ref_frame_def)

section \<open>Properties of the transmit path\<close>



text \<open>
  \<open>e1000_clean_tx_irq\<close> always returns; it takes the longest prefix of frames the device has sent
  off the queue and releases exactly those, each once and in the order in which they were queued.
\<close>

theorem e1000_reclaims_in_order:
  assumes "ring_ok a fs"
  shows "\<exists>a'. e1000_clean_tx_irq N a = Some (True, a') \<and> ring_ok a' (dropWhile sent fs)
     \<and> freed_ids (ad_log a') = freed_ids (ad_log a) @ ids (takeWhile sent fs)"
  by (rule clean_tx_irq_result [OF assms])

text \<open>The frame is sent, its last descriptor is reported as done, the ring is cleaned.\<close>

definition ref_one_sent :: "e1000_adapter option" where
  "ref_one_sent = do {
     (x, g, a, m) \<leftarrow> e1000_xmit_frame ref_kapi (ref_nkernel (\<lambda>_. True)) ref_three (ref_nic 16, no_module);
     write_back 3 a
   }"

lemma ref_one_sent_ring:
  obtains a k d where "ref_one_sent = Some a" and "ring_ok a [(k, 7, d)]" and "freed_ids (ad_log a) = []"
proof -
  have r: "ring_ok (ref_nic 16) []" by (rule ref_nic_ok) simp_all
  have i: "f_id ref_three = 7" by (simp add: ref_frame_def)
  have v: "map_option (\<lambda>(x, g, a, m). (x, freed_ids (ad_log a)))
      (e1000_xmit_frame ref_kapi (ref_nkernel (\<lambda>_. True)) ref_three (ref_nic 16, no_module)) = Some (E1000_TX_OK, [])"
    and w: "map_option (\<lambda>a. 0::nat) ref_one_sent = Some 0" by code_simp+
  from xmit_frame_cases [OF r ref_nkernel_ok ref_passes [OF ref_three_ok], of ref_kapi "\<lambda>_. True"] obtain x g a m k where
    x: "e1000_xmit_frame ref_kapi (ref_nkernel (\<lambda>_. True)) ref_three (ref_nic 16, no_module) = Some (x, g, a, m)"
    and k: "ring_ok a [(k, 7, False)]" and f: "freed_ids (ad_log a) = []" using v i by (auto simp: ref_nic_def)
  obtain b where b: "ref_one_sent = Some b" "write_back 3 a = Some b" using w x by (auto simp: ref_one_sent_def)
  obtain gs where gs: "ring_ok b gs" "ids gs = [7]" "freed_ids (ad_log b) = []" using write_back_ok [OF k b(2)] f by auto
  then obtain k' d where "gs = [(k', 7, d)]" by (cases gs) (auto simp: comp_def)
  with that b gs show thesis by blast
qed

theorem e1000_reclaims_in_order_witness:
  "\<exists>a b. ref_one_sent = Some a \<and> e1000_clean_tx_irq (ref_nkernel (\<lambda>_. True)) a = Some (True, b)
     \<and> freed_ids (ad_log b) = [7] \<and> ring_ok b []"
proof (rule ref_one_sent_ring)
  fix a k d assume a: "ref_one_sent = Some a" and r: "ring_ok a [(k, 7, d)]" and f: "freed_ids (ad_log a) = []"
  have v: "map_option (freed_ids \<circ> ad_log \<circ> snd) (Option.bind ref_one_sent (e1000_clean_tx_irq (ref_nkernel (\<lambda>_. True)))) = Some [7]"
    by code_simp
  obtain b where b: "e1000_clean_tx_irq (ref_nkernel (\<lambda>_. True)) a = Some (True, b)"
    "ring_ok b (dropWhile sent [(k, 7, d)])" "freed_ids (ad_log b) = ids (takeWhile sent [(k, 7, d)])"
    using e1000_reclaims_in_order [OF r, of "ref_nkernel (\<lambda>_. True)"] f by auto
  have "freed_ids (ad_log b) = [7]" using v [unfolded a] b(1) by simp
  then show ?thesis using a b by (cases d) auto
qed



text \<open>
  C18. The reservation suffices: the descriptors a frame is cut into, with the context descriptor,
  are no more than \<open>e1000_xmit_frame\<close> has counted, for every controller, erratum and layout of the
  frame; the 32-bit sum does not overflow. If the function has counted with the length \<open>len\<close> from
  before the module lengthened the frame or the kernel padded it, the count is short of two at most,
  and two descriptors more than the count are demanded to be free.
\<close>

theorem e1000_reservation_suffices:
  assumes f: "frame_ok f" and a: "arrays_ok a" "tr_next_to_use (ad_tx_ring a) < tr_count (ad_tx_ring a)"
    and m: "e1000_tx_map N f first (max_per_txd (frame_mss f)) (frame_mss f) a = Some (n, a')"
  shows "unat n + of_bool (frame_mss f \<noteq> 0 \<or> ip_summed (f_skb f) = CHECKSUM_PARTIAL)
     \<le> unat (tx_reserve a (skb_headlen f) f)
   \<and> (\<forall>len. length_known len f \<longrightarrow> unat n + of_bool (frame_mss f \<noteq> 0 \<or> ip_summed (f_skb f) = CHECKSUM_PARTIAL)
     \<le> unat (tx_reserve a len f) + 2)"
proof -
  let ?c = "tr_count (ad_tx_ring a)"
  have b: "buffers_ok a" using a(1) by (simp add: arrays_ok_def)
  have nu: "tr_next_to_use (ad_tx_ring a) = slot ?c (unat (tr_next_to_use (ad_tx_ring a)))" using slot_unat [OF a(2)] by simp
  from map_loops [OF f b refl nu, of N] obtain ok1 l1 ok l k where
    l: "map_linear N f (max_per_txd (frame_mss f)) (frame_mss f)
         \<lparr>ml_ad = a, ml_i = tr_next_to_use (ad_tx_ring a), ml_len = skb_headlen f, ml_offset = 0, ml_count = 0\<rparr> = Some (ok1, l1)"
      "(if ok1 then map_frags N (max_per_txd (frame_mss f)) (frame_mss f) (f_frags f) l1 else Some (False, l1)) = Some (ok, l)"
    and k: "k \<le> map_need f a" and ct: "ml_count l = of_nat (if ok then k else k - 1)" by blast
  have "unat (of_nat k :: u32) = k" by (rule unat_of_nat_small) (use k map_need_le [OF f, of a] in linarith)
  then have "unat n \<le> k"
    using m l ct by (cases ok) (auto simp: e1000_tx_map_def bind_eq_Some_conv)
  moreover have res: "unat (tx_reserve a len f) = reserve_nat a len f" if "length_known len f" for len
    unfolding tx_reserve_nat using reserve_nat_less [OF f] that
    by (intro unat_of_nat_small) (metis add_lessD1 length_known_def)
  ultimately show ?thesis
    using k map_need_reserve [of f a] res [OF length_known_self [OF f]] reserve_old_length [of _ f a] res by fastforce
qed

theorem e1000_reservation_suffices_witness:
  "\<exists>n a'. e1000_tx_map (ref_nkernel (\<lambda>_. True)) ref_three 0 (max_per_txd (frame_mss ref_three)) (frame_mss ref_three) (ref_nic 16)
       = Some (n, a') \<and> n = 4 \<and> unat n + 0 \<le> unat (tx_reserve (ref_nic 16) (skb_headlen ref_three) ref_three)"
proof -
  have v: "map_option fst (e1000_tx_map (ref_nkernel (\<lambda>_. True)) ref_three 0 (max_per_txd (frame_mss ref_three))
      (frame_mss ref_three) (ref_nic 16)) = Some 4" by code_simp
  then obtain a' where m: "e1000_tx_map (ref_nkernel (\<lambda>_. True)) ref_three 0 (max_per_txd (frame_mss ref_three))
      (frame_mss ref_three) (ref_nic 16) = Some (4, a')" by auto
  have "ring_ok (ref_nic 16) []" by (rule ref_nic_ok) simp_all
  then have a: "arrays_ok (ref_nic 16)" by (auto simp: ring_ok_def ring_body_def)
  have lt: "tr_next_to_use (ad_tx_ring (ref_nic 16)) < tr_count (ad_tx_ring (ref_nic 16))" by code_simp
  from e1000_reservation_suffices [OF ref_three_ok a lt m] m show ?thesis by auto
qed

text \<open>
  C32. Every operation of the transmit path returns: whatever the kernel answers, the loops that cut a
  frame into descriptors, that take back a failed mapping and that walk the ring end, and no access
  is outside an array.
\<close>

theorem e1000_always_returns:
  assumes "ring_ok a fs" and "nic_ok N" and "passed_on K f m"
  shows "e1000_xmit_frame K N f (a, m) \<noteq> None \<and> e1000_clean_tx_irq N a \<noteq> None \<and> e1000_clean_tx_ring a \<noteq> None"
  using xmit_frame_cases [OF assms] clean_tx_irq_result [OF assms(1), of N] clean_tx_ring_result [OF assms(1)] by auto

theorem e1000_always_returns_witness:
  "e1000_xmit_frame ref_kapi (ref_nkernel (\<lambda>n. n < 2)) ref_three (ref_nic 16, no_module) \<noteq> None
     \<and> e1000_clean_tx_irq (ref_nkernel (\<lambda>n. n < 2)) (ref_nic 16) \<noteq> None \<and> e1000_clean_tx_ring (ref_nic 16) \<noteq> None"
  by (rule e1000_always_returns [OF ref_nic_ok ref_nkernel_ok ref_passes [OF ref_three_ok]]) simp_all

lemma refused:
  assumes N: "nic_ok N" and f: "frame_ok f" and mac: "hw_mac_type (ad_hw a) \<noteq> e1000_82544"
    and long: "tx_unused (ad_tx_ring a) < tx_reserve a (skb_headlen f) f + 2"
  shows "e1000_xmit_body N (skb_headlen f) f a = Some (E1000_TX_BUSY, f, a\<lparr>ad_queue_stopped := True\<rparr>)"
  using N f mac long linorder_not_le [THEN iffD2, OF long]
  by (simp add: e1000_xmit_body_def nic_ok_def pull_header_def e1000_maybe_stop_tx_def Let_def)

lemma tx_reserve_cong:
  "ad_tx_ring b = ad_tx_ring a \<Longrightarrow> ad_hw b = ad_hw a \<Longrightarrow> ad_pcix_82544 b = ad_pcix_82544 a
    \<Longrightarrow> tx_reserve b len f = tx_reserve a len f"
  by (simp only: tx_reserve_nat reserve_nat_cong [of b a])

lemma detect_hang_stopped:
  assumes "unat eop < length (tr_buffer_info (ad_tx_ring a))" and "ad_queue_stopped a"
  shows "\<exists>a'. detect_hang N eop a = Some a' \<and> ad_queue_stopped a' \<and> ad_tx_ring a' = ad_tx_ring a
    \<and> ad_hw a' = ad_hw a \<and> ad_pcix_82544 a' = ad_pcix_82544 a"
  using assms by (simp add: detect_hang_def get_buf_def Let_def)

lemma clean_empty:
  assumes r: "ring_ok a []" and stop: "ad_queue_stopped a"
  shows "\<exists>b. e1000_clean_tx_irq N a = Some (True, b) \<and> ad_queue_stopped b \<and> ad_tx_ring b = ad_tx_ring a
    \<and> ad_hw b = ad_hw a \<and> ad_pcix_82544 b = ad_pcix_82544 a"
proof -
  define c where "c = tr_count (ad_tx_ring a)"
  obtain h where fl: "in_flight a h []" and cl: "tr_next_to_clean (ad_tx_ring a) = slot c h"
    using r by (auto simp: ring_ok_def ring_body_in_flight c_def)
  let ?l = "\<lparr>cl_ad = a, cl_i = tr_next_to_clean (ad_tx_ring a), cl_count = 0, cl_bytes = 0, cl_packets = 0\<rparr>"
  obtain eop where fd: "frame_done ?l = Some (eop, False)" and eop: "unat eop < ring_size a"
    using frame_done_empty [of ?l h c] fl cl by (auto simp: c_def)
  have run: "clean_frames ?l = Some (eop, ?l)" using fd by (subst clean_frames.simps) simp
  have ok: "arrays_ok a" using fl by (simp add: in_flight_def)
  have "map_tx (\<lambda>R. R\<lparr>tr_next_to_clean := tr_next_to_clean (ad_tx_ring a)\<rparr>) a = a" by (simp add: map_tx_def)
  then have w: "wake_queue 0 (map_tx (\<lambda>R. R\<lparr>tr_next_to_clean := tr_next_to_clean (ad_tx_ring a)\<rparr>) a) = a"
    by (simp add: wake_queue_def)
  have "unat eop < length (tr_buffer_info (ad_tx_ring a))" using eop ok by (simp add: arrays_ok_def buffers_ok_def ring_size_def)
  then obtain a2 where dh: "detect_hang N eop a = Some a2" and a2: "ad_queue_stopped a2" "ad_tx_ring a2 = ad_tx_ring a"
    "ad_hw a2 = ad_hw a" "ad_pcix_82544 a2 = ad_pcix_82544 a"
    using detect_hang_stopped [OF _ stop] by blast
  have "0 < tr_count (ad_tx_ring a)" using ok by (simp add: arrays_ok_def buffers_ok_def word_neq_0_conv)
  with run w dh a2 show ?thesis by (simp add: e1000_clean_tx_irq_def Let_def)
qed

text \<open>
  A frame that needs more descriptors than the ring has stops the queue for good: it is refused
  on an empty ring, the queue is stopped, and as nothing is in flight \<open>e1000_clean_tx_irq\<close> never
  wakes the queue again; the next attempt is refused likewise.
\<close>

theorem e1000_too_long_stops_queue:
  assumes r: "ring_ok a []" and N: "nic_ok N" and f: "frame_ok f"
    and mac: "hw_mac_type (ad_hw a) \<noteq> e1000_82544"
    and long: "tx_unused (ad_tx_ring a) < tx_reserve a (skb_headlen f) f + 2"
  shows "\<exists>b. e1000_xmit_body N (skb_headlen f) f a = Some (E1000_TX_BUSY, f, a\<lparr>ad_queue_stopped := True\<rparr>)
     \<and> e1000_clean_tx_irq N (a\<lparr>ad_queue_stopped := True\<rparr>) = Some (True, b) \<and> ad_queue_stopped b \<and> ring_ok b []
     \<and> e1000_xmit_body N (skb_headlen f) f b = Some (E1000_TX_BUSY, f, b\<lparr>ad_queue_stopped := True\<rparr>)"
proof -
  let ?a = "a\<lparr>ad_queue_stopped := True\<rparr>"
  have "ring_ok ?a []" using r ring_ok_same [of ?a a] by simp
  then obtain b where b: "e1000_clean_tx_irq N ?a = Some (True, b)" "ad_queue_stopped b" "ad_tx_ring b = ad_tx_ring a"
    "ad_hw b = ad_hw a" "ad_pcix_82544 b = ad_pcix_82544 a" using clean_empty [of ?a N] by auto
  moreover have "ring_ok b []" using r ring_ok_same [OF b(3)] by simp
  ultimately show ?thesis
    using refused [OF N f mac long] refused [OF N f, of b] mac long tx_reserve_cong [OF b(3-5)] by auto
qed

text \<open>A segmented frame of 65602 bytes with an MSS of 88 bytes, on a ring of the default size 256.\<close>

abbreviation ref_long :: tx_frame where
  "ref_long \<equiv> ref_frame 9 66 (replicate 16 4096) 88"

lemma ref_long_ok: "frame_ok ref_long"
  by (simp add: frame_ok_def ref_frame_def sum_list_replicate)

theorem e1000_too_long_stops_queue_witness:
  "\<exists>b. e1000_xmit_body (ref_nkernel (\<lambda>_. True)) 66 ref_long (ref_nic 256)
       = Some (E1000_TX_BUSY, ref_long, (ref_nic 256)\<lparr>ad_queue_stopped := True\<rparr>)
     \<and> e1000_clean_tx_irq (ref_nkernel (\<lambda>_. True)) ((ref_nic 256)\<lparr>ad_queue_stopped := True\<rparr>) = Some (True, b)
     \<and> ad_queue_stopped b"
proof -
  have r: "ring_ok (ref_nic 256) []" by (rule ref_nic_ok) simp_all
  have m: "hw_mac_type (ad_hw (ref_nic 256)) \<noteq> e1000_82544" by code_simp
  have h: "skb_headlen ref_long = 66" by code_simp
  have "tx_unused (ad_tx_ring (ref_nic 256)) = 255" by code_simp
  moreover have "tx_reserve (ref_nic 256) 66 ref_long = 275" by code_simp
  ultimately have l: "tx_unused (ad_tx_ring (ref_nic 256)) < tx_reserve (ref_nic 256) (skb_headlen ref_long) ref_long + 2"
    by (simp add: h)
  from e1000_too_long_stops_queue [OF r ref_nkernel_ok ref_long_ok m l, of "\<lambda>_. True"] show ?thesis unfolding h by blast
qed

section \<open>What is lost\<close>

text \<open>
  When the third mapping of a frame fails, the second one is released but the first is not: the
  clean-up of \<open>e1000_tx_map\<close> counts one piece too few.
\<close>

lemma failed_mapping_leaks_first:
  "map_option (\<lambda>(x, g, a, m). (x, ad_log a, tr_next_to_use (ad_tx_ring a)))
     (e1000_xmit_frame ref_kapi (ref_nkernel (\<lambda>n. n < 2)) ref_three (ref_nic 16, no_module))
   = Some (E1000_TX_OK, [Dma_map 0x100000 100 False, Dma_map 0x101000 4096 True,
       Dma_unmap 0x101000 4096 True, Kfree_skb 7], 0)"
  by code_simp

text \<open>
  A control message for which \<open>dysco_control_output\<close> reports a failure is swallowed: the driver answers
  that it has taken the frame, but neither sends nor releases it.
\<close>

lemma swallowed_frame_is_lost:
  assumes "ntohs (h_proto (eth (f_skb f))) = ETH_P_IP" and "transport_set (f_skb f)"
    and "dysco_get_hashes m (dev_net (skb_dev (f_skb f))) = Some h"
    and "protocol (iph (f_skb f)) = IPPROTO_UDP"
    and "dysco_control_output K (f_skb f) ((core m)\<lparr>dh := h\<rparr>) = Some (NETDEV_TX_OK, b, s)"
  shows "\<exists>m'. e1000_xmit_frame K N f (a, m) = Some (E1000_TX_OK, f\<lparr>f_skb := b\<rparr>, a, m')"
proof -
  have "\<exists>m'. dysco_output K (f_skb f) m = Some ((NETDEV_TX_OK, b), m')"
    using assms by (simp add: dysco_output_def in_ns_def output_ns_def)
  then show ?thesis using xmit_swallowed by blast
qed

end
