(* ===== verification/Dysco_E1000_Rx_Machine.thy ===== *)
theory Dysco_E1000_Rx_Machine
  imports Dysco_E1000_Receive Dysco_E1000_Machine
begin

text \<open>
  The life of the receive ring: \<open>e1000_setup_rx_resources\<close> makes it, the driver attaches buffers, the
  device fills them, \<open>e1000_clean_rx_irq\<close> hands the frames to the stack, \<open>e1000_clean_rx_ring\<close>
  empties the ring. Each of these steps keeps \<open>rx_ok\<close>: the filled descriptors are a queue, and no
  buffer and no packet is lost or used twice.
\<close>

section \<open>After the loop\<close>

lemma map_ntc_same [simp]:
  "rx_env (map_rx (\<lambda>R. R\<lparr>rr_next_to_clean := x\<rparr>) t) = rx_env t" "rx_arrays (map_rx (\<lambda>R. R\<lparr>rr_next_to_clean := x\<rparr>) t) = rx_arrays t"
  "rbuf (map_rx (\<lambda>R. R\<lparr>rr_next_to_clean := x\<rparr>) t) = rbuf t" "rdesc (map_rx (\<lambda>R. R\<lparr>rr_next_to_clean := x\<rparr>) t) = rdesc t"
  "rx_log (map_rx (\<lambda>R. R\<lparr>rr_next_to_clean := x\<rparr>) t) = rx_log t" "balanced (map_rx (\<lambda>R. R\<lparr>rr_next_to_clean := x\<rparr>) t) = balanced t"
  "rx_size (map_rx (\<lambda>R. R\<lparr>rr_next_to_clean := x\<rparr>) t) = rx_size t"
  "rx_win (map_rx (\<lambda>R. R\<lparr>rr_next_to_clean := x\<rparr>) t) = rx_win t" "rx_queue (map_rx (\<lambda>R. R\<lparr>rr_next_to_clean := x\<rparr>) t) = rx_queue t"
  "in_order (map_rx (\<lambda>R. R\<lparr>rr_next_to_clean := x\<rparr>) t) = in_order t"
  "all_fit (map_rx (\<lambda>R. R\<lparr>rr_next_to_clean := x\<rparr>) t) = all_fit t" "rx_alloc (map_rx (\<lambda>R. R\<lparr>rr_next_to_clean := x\<rparr>) t) = rx_alloc t"
proof -
  let ?m = "map_rx (\<lambda>R. R\<lparr>rr_next_to_clean := x\<rparr>) t"
  show e: "rx_env ?m = rx_env t" "rx_arrays ?m = rx_arrays t" "rbuf ?m = rbuf t" "rdesc ?m = rdesc t" "rx_log ?m = rx_log t"
    "balanced ?m = balanced t" "rx_size ?m = rx_size t" "rx_alloc ?m = rx_alloc t"
    by (simp_all add: map_rx_def rx_env_def rx_arrays_def rx_size_def rbuf_def rdesc_def balanced_def held_def fun_eq_iff)
  have i: "rx_item ?m = rx_item t" by (intro ext) (simp add: rx_item_def e)
  show q: "rx_queue ?m = rx_queue t" by (intro ext) (simp add: rx_queue_def i e)
  show "in_order ?m = in_order t" by (intro ext) (simp add: in_order_def q e)
  show "all_fit ?m = all_fit t" by (simp add: all_fit_def i e rx_spec_cong(4) [OF e(1)])
  show "rx_win ?m = rx_win t" by (intro ext) (simp add: rx_win_def e, simp add: map_rx_def)
qed

lemma same_ring_window:
  assumes r: "rx_ring t = rx_ring s" and e: "rx_env t = rx_env s"
  shows "rx_win t = rx_win s" "rx_queue t = rx_queue s" "in_order t = in_order s" "all_fit t = all_fit s"
proof -
  note a = rx_arrays_cong [OF r]
  have i: "rx_item t = rx_item s" by (intro ext) (simp add: rx_item_def a)
  have z: "rx_size t = rx_size s" by (simp add: rx_size_def r)
  show "rx_win t = rx_win s" by (intro ext) (simp add: rx_win_def a z r)
  show q: "rx_queue t = rx_queue s" by (intro ext) (simp add: rx_queue_def i z)
  show "in_order t = in_order s" by (intro ext) (simp add: in_order_def q a z)
  show "all_fit t = all_fit s" by (simp add: all_fit_def a i rx_spec_cong(4) [OF e])
qed

lemma held_none: "(\<And>b. b \<in> set bs \<Longrightarrow> rb_data b = None) \<Longrightarrow> held_by bs = {#}"
  by (induction bs) (simp_all add: held_by_def)

lemma rx_env_set: "rx_env (set_rbuf i b s) = rx_env s"
  by (simp add: rx_env_def set_rbuf_def map_rx_def)

text \<open>
  The ring between two operations: the filled descriptors are the queue \<open>q\<close>, every buffer and every
  packet is accounted for.
\<close>

definition rx_ok :: "e1000_rx \<Rightarrow> rx_item list \<Rightarrow> bool" where
  "rx_ok s q \<longleftrightarrow> (\<exists>h n. rx_win s h n \<and> rr_next_to_clean (rx_ring s) = slot (rr_count (rx_ring s)) h \<and> rx_queue s h = q \<and> in_order s h)
     \<and> all_fit s \<and> balanced s \<and> skbs_open (skb_events (rx_log s)) = 0 \<and> rx_alloc s \<noteq> Rx_jumbo \<and> \<not> rr_skb_top (rx_ring s) \<and> rx_napi s = No_skb"

lemma rx_env_parts:
  "rx_env t = rx_env s \<Longrightarrow> rx_napi t = rx_napi s" "rx_env t = rx_env s \<Longrightarrow> rx_alloc t = rx_alloc s" "rx_env t = rx_env s \<Longrightarrow> rr_skb_top (rx_ring t) = rr_skb_top (rx_ring s)"
  "rx_env t = rx_env s \<Longrightarrow> rr_count (rx_ring t) = rr_count (rx_ring s)" "rx_env t = rx_env s \<Longrightarrow> rx_size t = rx_size s"
  by (simp_all add: rx_env_def rx_size_def)

text \<open>Attaching as many buffers as there is room for.\<close>

definition rx_unused :: "e1000_rx \<Rightarrow> u32" where
  "rx_unused s = (let R = rx_ring s in E1000_DESC_UNUSED (rr_count R) (rr_next_to_clean R) (rr_next_to_use R))"

text \<open>The receive part of \<open>e1000_configure\<close>.\<close>

definition e1000_configure_rx_ring :: "rx_kernel \<Rightarrow> e1000_rx \<Rightarrow> e1000_rx option" where
  "e1000_configure_rx_ring K s = alloc_rx_buf K (unat (rx_unused s)) s"

lemma rx_unused_exact:
  assumes "rx_win s h n" and "rr_next_to_clean (rx_ring s) = slot (rr_count (rx_ring s)) h"
  shows "unat (rx_unused s) = rx_size s - n - 1"
proof -
  have "rr_count (rx_ring s) \<noteq> 0" "n < unat (rr_count (rx_ring s))" "rr_next_to_use (rx_ring s) = slot (rr_count (rx_ring s)) (h + n)"
    using assms(1) by (simp_all add: rx_win_def rx_arrays_def rx_size_def)
  then show ?thesis using desc_unused_window [of "rr_count (rx_ring s)" n h] assms(2)
    by (simp add: rx_unused_def Let_def rx_size_def)
qed

lemma rx_unused_window:
  "rx_win s h n \<Longrightarrow> rr_next_to_clean (rx_ring s) = slot (rr_count (rx_ring s)) h \<Longrightarrow> n + unat (rx_unused s) < rx_size s"
  using rx_unused_exact [of s h n] by (simp add: rx_win_def)

lemma alloc_ok:
  assumes "rx_ok s q"
  shows "\<exists>t. alloc_rx_buf K (unat (rx_unused s)) s = Some t \<and> rx_ok t q \<and> posted s t"
proof -
  from assms obtain h n where w: "rx_win s h n" "rr_next_to_clean (rx_ring s) = slot (rr_count (rx_ring s)) h" "rx_queue s h = q" "in_order s h"
    and r: "all_fit s" "balanced s" "skbs_open (skb_events (rx_log s)) = 0" "rx_alloc s \<noteq> Rx_jumbo" "\<not> rr_skb_top (rx_ring s)" "rx_napi s = No_skb"
    by (auto simp: rx_ok_def)
  from alloc_rx_ends [OF w(1) rx_unused_window [OF w(1,2)] r(4), of K] obtain j t where
    t: "alloc_rx_buf K (unat (rx_unused s)) s = Some t" "posted s t" "rx_win t h (n + j)" by blast
  have e: "rx_env t = rx_env s" using t(2) by (simp add: posted_def2)
  have "rx_ok t q"
    unfolding rx_ok_def using w r t rx_env_parts [OF e] posted_queue [OF w(1) t(2)] fit_kept(2) [OF r(1) t(2)]
      posted_in_order [OF w(1) t(2) w(4)]
    by (auto simp: posted_def2)
  then show ?thesis using t by blast
qed

text \<open>What \<open>rx_account\<close> leaves alone.\<close>

lemma rx_ok_totals:
  "rx_ok (s\<lparr>rx_ad := (rx_ad s)\<lparr>ad_total_rx_packets := a, ad_total_rx_bytes := b\<rparr>, rx_stat_bytes := c, rx_stat_packets := d\<rparr>) q = rx_ok s q"
proof -
  let ?s = "s\<lparr>rx_ad := (rx_ad s)\<lparr>ad_total_rx_packets := a, ad_total_rx_bytes := b\<rparr>, rx_stat_bytes := c, rx_stat_packets := d\<rparr>"
  have r: "rx_ring ?s = rx_ring s" "rx_env ?s = rx_env s" "rx_log ?s = rx_log s" "rx_alloc ?s = rx_alloc s" by (simp_all add: rx_env_def)
  have "balanced ?s = balanced s" using r by (simp add: balanced_def held_def)
  then show ?thesis using r same_ring_window [OF r(1,2)] by (simp add: rx_ok_def)
qed

lemma account_ends:
  assumes s: "rx_ok s0 q0" and at: "rx_at s0 l h" and q: "rx_queue (rl_st l) h = q"
  shows "\<exists>t. rx_account K l = Some t \<and> rx_ok t q \<and> rx_env t = rx_env s0 \<and> delivered t = delivered (rl_st l)
    \<and> rx_discarding t = rx_discarding (rl_st l) \<and> rx_stat_packets t = rx_stat_packets s0 + ucast (rl_packets l)"
proof -
  let ?s1 = "map_rx (\<lambda>R. R\<lparr>rr_next_to_clean := rl_i l\<rparr>) (rl_st l)"
  have e: "rx_env (rl_st l) = rx_env s0" using at by (simp add: rx_at_def)
  have same: "rr_next_to_clean (rx_ring ?s1) = rl_i l" "rr_count (rx_ring ?s1) = rr_count (rx_ring (rl_st l))" 
    "rr_skb_top (rx_ring ?s1) = rr_skb_top (rx_ring (rl_st l))" "rx_discarding ?s1 = rx_discarding (rl_st l)"
    "rx_napi ?s1 = rx_napi (rl_st l)" "rx_stat_packets ?s1 = rx_stat_packets (rl_st l)"
    by (simp_all add: map_rx_def)
  obtain n where n: "rx_win ?s1 h n" using at by (auto simp: rx_at_def)
  have "rr_next_to_clean (rx_ring ?s1) = slot (rr_count (rx_ring ?s1)) h" "rx_queue ?s1 h = q" "in_order ?s1 h"
    unfolding same(1,2) using at q rx_env_parts [OF e] by (simp_all add: rx_at_def)
  moreover have "all_fit ?s1" "balanced ?s1" "skbs_open (skb_events (rx_log ?s1)) = 0" "rx_alloc ?s1 \<noteq> Rx_jumbo" "\<not> rr_skb_top (rx_ring ?s1)" "rx_napi ?s1 = No_skb"
    using at s rx_env_parts [OF e] same by (auto simp: rx_at_def rx_ok_def)
  ultimately have "rx_ok ?s1 q" unfolding rx_ok_def using n by blast
  from alloc_ok [OF this, of K] obtain t where t: "alloc_rx_buf K (unat (rx_unused ?s1)) ?s1 = Some t" "rx_ok t q" "posted ?s1 t" by blast
  define u where "u = (if rx_unused ?s1 \<noteq> 0 then t else ?s1)"
  have u: "(if rx_unused ?s1 \<noteq> 0 then alloc_rx_buf K (unat (rx_unused ?s1)) ?s1 else Some ?s1) = Some u" "rx_ok u q"
    "rx_env u = rx_env s0" "delivered u = delivered (rl_st l)" "rx_discarding u = rx_discarding (rl_st l)" 
    "rx_stat_packets u = rx_stat_packets s0"
    using t \<open>rx_ok ?s1 q\<close> e same at by (auto simp: u_def posted_def2 delivered_def rx_at_def)
  let ?v = "u\<lparr>rx_ad := (rx_ad u)\<lparr>ad_total_rx_packets := ad_total_rx_packets (rx_ad u) + rl_packets l,
      ad_total_rx_bytes := ad_total_rx_bytes (rx_ad u) + rl_bytes l\<rparr>, rx_stat_bytes := rx_stat_bytes u + ucast (rl_bytes l),
      rx_stat_packets := rx_stat_packets u + ucast (rl_packets l)\<rparr>"
  have "rx_account K l = Some ?v"
    using u(1) unfolding rx_account_def rx_unused_def Let_def by simp
  moreover have "rx_env ?v = rx_env s0" "delivered ?v = delivered (rl_st l)" using u by (simp_all add: rx_env_def delivered_def)
  ultimately show ?thesis using u(2,5,6) rx_ok_totals by (intro exI [of _ ?v]) simp
qed

text \<open>The whole of \<open>e1000_clean_rx_irq\<close>.\<close>

lemma clean_rx_irq_ends:
  assumes s: "rx_ok s q"
  shows "\<exists>k c w t. e1000_clean_rx_irq K 0 b s = Some (c, w, t) \<and> k \<le> length q \<and> rx_ok t (drop k q) \<and> rx_env t = rx_env s
    \<and> delivered t = delivered s @ fst (rx_spec s (rx_discarding s) (take k q))
    \<and> rx_discarding t = snd (rx_spec s (rx_discarding s) (take k q))
    \<and> rx_stat_packets t = rx_stat_packets s + ucast (of_nat (length (fst (rx_spec s (rx_discarding s) (take k q)))) :: u32)
    \<and> (c \<longleftrightarrow> 0 < k)
    \<and> (w = int k \<and> (k = length q \<or> b \<le> int k) \<or> w = int k + 1 \<and> w \<le> b \<and> (\<exists>j. \<not> rk_skb K j)) \<and> w \<le> max b 0"
proof -
  from s obtain h n where w: "rx_win s h n" "rr_next_to_clean (rx_ring s) = slot (rr_count (rx_ring s)) h" "rx_queue s h = q" "in_order s h"
    and r: "all_fit s" "rx_alloc s \<noteq> Rx_jumbo" by (auto simp: rx_ok_def)
  let ?l = "rx_loop_start 0 s"
  have l: "rl_st ?l = s" "rl_packets ?l = 0" "rl_cleaned ?l = False" "rl_work ?l = 0" by (simp_all add: rx_loop_start_def)
  have at: "rx_at s ?l h" using w by (auto simp: rx_at_def rx_loop_start_def rx_win_def)
  have "\<forall>x \<in> set q. rx_fits s x"
  proof
    fix x assume "x \<in> set q"
    then obtain m where "x = rx_item s m" "rx_done (fst x)"
      unfolding w(3) [symmetric] rx_queue_def by (metis (no_types, lifting) set_takeWhileD imageE set_map)
    then show "rx_fits s x" using r(1) by (simp add: all_fit_def rx_item_def rx_done_def)
  qed
  from rx_loop_ends [OF at _ this r(2), of K b] w(3) l obtain k l' where
    k: "clean_rx_loop (rx_one K) b ?l = Some l'" "k \<le> length q" "rx_at s l' (h + k)" "rx_queue (rl_st l') (h + k) = drop k q"
    "delivered (rl_st l') = delivered s @ fst (rx_spec s (rx_discarding s) (take k q))"
    "rx_discarding (rl_st l') = snd (rx_spec s (rx_discarding s) (take k q))"
    "rl_packets l' = of_nat (length (fst (rx_spec s (rx_discarding s) (take k q))))"
    "rl_cleaned l' \<longleftrightarrow> 0 < k" and wk: "rl_work l' = int k \<and> (k = length q \<or> b \<le> rl_work l')
       \<or> rl_work l' = int k + 1 \<and> rl_work l' \<le> b \<and> (\<exists>j. \<not> rk_skb K j)" "rl_work l' \<le> max b 0" by auto
  from account_ends [OF s k(3,4), of K] obtain t where
    t: "rx_account K l' = Some t" "rx_ok t (drop k q)" "rx_env t = rx_env s" "delivered t = delivered (rl_st l')"
    "rx_discarding t = rx_discarding (rl_st l')" "rx_stat_packets t = rx_stat_packets s + ucast (rl_packets l')" by blast
  have "e1000_clean_rx_irq K 0 b s = Some (rl_cleaned l', rl_work l', t)" using k(1) t(1) by (simp add: e1000_clean_rx_irq_def)
  then show ?thesis using k t wk by (intro exI [of _ k] exI [of _ "rl_cleaned l'"] exI [of _ "rl_work l'"] exI [of _ t]) auto
qed

section \<open>Making and emptying the ring\<close>

lemma rx_setup_ok:
  assumes "e1000_setup_rx_resources M a = (True, s, es)" and "rr_count (rx_ring a) \<noteq> 0" and "rx_log a = []" and "rx_alloc a \<noteq> Rx_jumbo"
    and "rx_napi a = No_skb"
  shows "rx_ok s []"
proof -
  have s: "s = map_rx (\<lambda>R. R\<lparr>rr_buffer_info := replicate (unat (rr_count (rx_ring a))) zero_rx_buffer,
      rr_desc := replicate (unat (rr_count (rx_ring a))) zero_rx_desc, rr_next_to_use := 0, rr_next_to_clean := 0, rr_skb_top := False\<rparr>) a"
    using assms(1) by (auto simp: e1000_setup_rx_resources_def Let_def split: if_splits option.splits)
  define n where "n = unat (rr_count (rx_ring a))"
  have z: "rx_size s = n" "0 < n" using assms(2) by (simp_all add: s rx_size_def map_rx_def n_def unat_gt_0)
  have d: "rdesc s m = zero_rx_desc" "rbuf s m = zero_rx_buffer" for m
    using z by (simp_all add: rdesc_def rbuf_def) (simp_all add: s map_rx_def n_def)
  have nd: "\<not> rx_done (rdesc s m)" for m by (simp add: d rx_done_def zero_rx_desc_def)
  have a: "rx_arrays s" using assms(2) z by (simp add: rx_arrays_def) (simp add: s map_rx_def n_def)
  have sl: "slot c 0 = 0" for c by (simp add: slot_def)
  have "rx_win s 0 0" using a z nd sl by (simp add: rx_win_def) (simp add: s map_rx_def)
  moreover have "rx_queue s 0 = []" using queue_head(1) [OF a, of 0] nd by simp
  moreover have "held s = {#}" unfolding held_def by (rule held_none) (auto simp: s map_rx_def zero_rx_buffer_def)
  moreover have "rx_log s = []" "rx_alloc s \<noteq> Rx_jumbo" "rr_next_to_clean (rx_ring s) = 0" "\<not> rr_skb_top (rx_ring s)" "rx_napi s = No_skb"
    using assms by (simp_all add: s map_rx_def)
  ultimately show ?thesis using nd sl
    by (auto simp: rx_ok_def all_fit_def balanced_def in_order_def intro!: exI [of _ 0])
qed

lemma empty_slots_run:
  assumes "rx_arrays s" and "m \<le> rx_size s"
  shows "\<exists>t. empty_slots m s = Some t \<and> rx_arrays t \<and> rx_env t = rx_env s \<and> rr_desc (rx_ring t) = rr_desc (rx_ring s)
    \<and> (\<forall>k < m. rb_data (rbuf t k) = None) \<and> skb_events (rx_log t) = skb_events (rx_log s) \<and> (balanced s \<longrightarrow> balanced t)"
  using assms(2)
proof (induction m)
  case 0
  then show ?case using assms(1) by simp
next
  case (Suc m)
  then obtain t where t: "empty_slots m s = Some t" "rx_arrays t" "rx_env t = rx_env s" "rr_desc (rx_ring t) = rr_desc (rx_ring s)"
    "\<forall>k < m. rb_data (rbuf t k) = None" "skb_events (rx_log t) = skb_events (rx_log s)" "balanced s \<longrightarrow> balanced t" by auto
  let ?c = "rr_count (rx_ring t)"
  have z: "rx_size t = rx_size s" using rx_env_parts [OF t(3)] by simp
  have sl: "slot ?c m = of_nat m" using Suc.prems z by (simp add: slot_def rx_size_def)
  let ?b = "(rbuf t m)\<lparr>rb_data := None, rb_dma := 0\<rparr>"
  let ?v = "(case rb_data (rbuf t m) of None \<Rightarrow> (if rb_dma (rbuf t m) \<noteq> 0 then rx_event (Rx_unmap (rb_dma (rbuf t m))) t else t)
    | Some d \<Rightarrow> e1000_free_frag d (if rb_dma (rbuf t m) \<noteq> 0 then rx_event (Rx_unmap (rb_dma (rbuf t m))) t else t))"
  let ?u = "set_rbuf (slot ?c m) ?b ?v"
  have r: "rx_ring ?v = rx_ring t" "rx_env ?v = rx_env t" by (auto simp: e1000_free_frag_def rx_event_def rx_env_def split: option.split)
  have v: "rx_arrays ?v" "?c = rr_count (rx_ring ?v)" "rx_size ?v = rx_size t" using t(2) rx_arrays_cong [OF r(1)] r by (simp_all add: rx_size_def)
  have "empty_slot (of_nat m) t = Some ?u"
    using get_rx_slot(1) [OF t(2) refl, of m] unfolding sl by (simp add: empty_slot_def Let_def)
  then have "empty_slots (Suc m) s = Some ?u" using t(1) by simp
  moreover have "rx_arrays ?u" "rx_env ?u = rx_env s" "rr_desc (rx_ring ?u) = rr_desc (rx_ring s)"
    using rx_arrays_set(1) [OF v(1)] r t(3,4) by (simp_all only: rx_env_set set_rx_slot)
  moreover have "rb_data (rbuf ?u k) = None" if "k < Suc m" for k
    using rx_slot_set(1) [OF v(1,2), of m ?b k] t(5) that Suc.prems z v(3) rx_arrays_cong(2) [OF r(1)]
    by (auto simp: less_Suc_eq)
  moreover have "skb_events (rx_log ?u) = skb_events (rx_log s)"
    using t(6) by (simp add: e1000_free_frag_def split: option.split)
  moreover have "balanced t \<longrightarrow> balanced ?u"
  proof
    assume bt: "balanced t"
    have "held ?u + held_by [rbuf t m] = held t + held_by [?b]"
      using held_set [OF v(1,2), of m ?b] r(1) rx_arrays_cong(2) [OF r(1)] by (simp add: held_def)
    then show "balanced ?u" using bt
      by (cases "rb_data (rbuf t m)") (auto simp: balanced_def e1000_free_frag_def)
  qed
  ultimately show ?case using t(7) by blast
qed

lemma clean_rx_ring_ends:
  assumes s: "rx_ok s q"
  shows "\<exists>t. e1000_clean_rx_ring s = Some t \<and> rx_ok t [] \<and> rx_env t = rx_env s \<and> held t = {#} \<and> delivered t = delivered s"
proof -
  from s obtain h n where w: "rx_win s h n" by (auto simp: rx_ok_def)
  then have a: "rx_arrays s" by (simp add: rx_win_def)
  from empty_slots_run [OF a order_refl] obtain t where t: "empty_slots (rx_size s) s = Some t" "rx_arrays t" "rx_env t = rx_env s"
    "rr_desc (rx_ring t) = rr_desc (rx_ring s)" "\<forall>k < rx_size s. rb_data (rbuf t k) = None"
    "skb_events (rx_log t) = skb_events (rx_log s)" "balanced s \<longrightarrow> balanced t" by blast
  have z: "rx_size t = rx_size s" "rr_count (rx_ring t) = rr_count (rx_ring s)" "\<not> rr_skb_top (rx_ring t)" "rx_napi t = No_skb" "rx_alloc t = rx_alloc s"
    using rx_env_parts [OF t(3)] s by (simp_all add: rx_ok_def)
  let ?u = "rx_event (Write_rdt 0) (map_rx (\<lambda>R. R\<lparr>rr_buffer_info := replicate (unat (rr_count R)) zero_rx_buffer,
       rr_desc := replicate (length (rr_desc R)) zero_rx_desc, rr_skb_top := False, rr_next_to_use := 0, rr_next_to_clean := 0\<rparr>) t)"
  have u: "e1000_clean_rx_ring s = Some ?u" using t(1) z by (simp add: e1000_clean_rx_ring_def napi_free_frags_def rx_size_def)
  have env: "rx_env ?u = rx_env s" using t(3) z(3) by (simp add: rx_env_def map_rx_def rx_event_def)
  have zu: "rx_size ?u = rx_size s" using rx_env_parts [OF env] by simp
  have pos: "0 < rx_size s" by (rule rx_size_positive [OF a])
  have au: "rx_arrays ?u" using t(2) z zu by (simp add: rx_arrays_def) (simp add: map_rx_def rx_size_def)
  have nd: "\<not> rx_done (rdesc ?u m)" for m
  proof -
    have "length (rr_desc (rx_ring t)) = rx_size s" using t(2) z by (simp add: rx_arrays_def)
    then have "rdesc ?u m = zero_rx_desc" using pos zu by (simp add: rdesc_def) (simp add: map_rx_def)
    then show ?thesis by (simp add: rx_done_def zero_rx_desc_def)
  qed
  have "\<forall>x \<in> set (rr_buffer_info (rx_ring t)). rb_data x = None"
    using t(2,5) z by (auto simp: in_set_conv_nth rbuf_def rx_arrays_def)
  then have "held t = {#}" unfolding held_def by (intro held_none) blast
  moreover have hu: "held ?u = {#}" unfolding held_def by (rule held_none) (auto simp: map_rx_def zero_rx_buffer_def)
  ultimately have bu: "balanced ?u" using t(7) s by (simp add: rx_ok_def balanced_def map_rx_def)
  have sl: "slot c 0 = 0" for c by (simp add: slot_def)
  have "rx_win ?u 0 0" using au pos zu nd sl by (simp add: rx_win_def) (simp add: map_rx_def)
  moreover have "rx_queue ?u 0 = []" using queue_head(1) [OF au, of 0] nd by simp
  moreover have "skb_events (rx_log ?u) = skb_events (rx_log s)" using t(6) by (simp add: map_rx_def)
  moreover have "rr_next_to_clean (rx_ring ?u) = 0" "\<not> rr_skb_top (rx_ring ?u)" "rx_napi ?u = No_skb" using z by (simp_all add: map_rx_def rx_event_def)
  ultimately have "rx_ok ?u [] \<and> delivered ?u = delivered s"
    using s nd bu sl rx_env_parts(1,2) [OF env]
    by (auto simp: rx_ok_def all_fit_def delivered_def in_order_def intro!: exI [of _ 0])
  then show ?thesis using u env hu by blast
qed

section \<open>The device\<close>

text \<open>
  The device fills the next slot it owns with a frame that fits; of the memory nothing is assumed.
  \<open>None\<close> means that it owns no empty slot or that the frame does not fit.
\<close>

definition rx_write_back :: "e1000_rx_desc \<Rightarrow> (u64 \<Rightarrow> u8) \<Rightarrow> e1000_rx \<Rightarrow> e1000_rx option" where
  "rx_write_back d m s = (
     let h = unat (rr_next_to_clean (rx_ring s)); k = length (rx_queue s h) in
     if rx_done d \<and> 5 \<le> rd_length d \<and> ucast (rd_length d) \<le> frag_room s \<and> k + unat (rx_unused s) + 1 < rx_size s
     then Some (set_rdesc (slot (rr_count (rx_ring s)) (h + k)) d (s\<lparr>rx_mem := m\<rparr>))
     else None)"

lemma rx_queue_shift:
  assumes "h mod rx_size s = g mod rx_size s"
  shows "rx_queue s h = rx_queue s g"
proof -
  have "(k + h) mod rx_size s = (k + g) mod rx_size s" for k using assms by (metis mod_add_right_eq)
  then have "rx_item s (k + h) = rx_item s (k + g)" for k by (simp add: rx_item_def rdesc_def rbuf_def)
  moreover have "[h..<h + rx_size s] = map (\<lambda>k. k + h) [0..<rx_size s]" "[g..<g + rx_size s] = map (\<lambda>k. k + g) [0..<rx_size s]"
    by (simp_all add: map_add_upt add.commute)
  ultimately show ?thesis by (simp add: rx_queue_def comp_def)
qed

lemma slot_shift: "h mod unat c = g mod unat c \<Longrightarrow> slot c (h + k) = slot c (g + k)"
  unfolding slot_def by (metis mod_add_left_eq)

text \<open>A filled descriptor joins the queue at its end.\<close>

lemma write_back_queue:
  assumes s: "rx_ok s q" and d: "rx_write_back d m s = Some t"
  shows "\<exists>a. rx_ok t (q @ [(d\<lparr>rd_buffer_addr := 0\<rparr>, a)]) \<and> rx_log t = rx_log s \<and> rx_discarding t = rx_discarding s"
proof -
  from s obtain h n where w: "rx_win s h n" "rr_next_to_clean (rx_ring s) = slot (rr_count (rx_ring s)) h" "rx_queue s h = q" "in_order s h"
    and r: "all_fit s" "balanced s" "skbs_open (skb_events (rx_log s)) = 0" "rx_alloc s \<noteq> Rx_jumbo" "\<not> rr_skb_top (rx_ring s)" "rx_napi s = No_skb"
    by (auto simp: rx_ok_def)
  define c where "c = rr_count (rx_ring s)"
  define k where "k = length q"
  define s1 where "s1 = s\<lparr>rx_mem := m\<rparr>"
  have a: "rx_arrays s" "c \<noteq> 0" using w(1) by (simp_all add: rx_win_def rx_arrays_def c_def)
  have g: "unat (rr_next_to_clean (rx_ring s)) = h mod rx_size s" using get_rx_slot(3) [OF a(1) refl, of h] w(2) by simp
  have q: "rx_queue s (unat (rr_next_to_clean (rx_ring s))) = q" using rx_queue_shift [of "h mod rx_size s" s h] g w(3) by simp
  have sl: "slot c (unat (rr_next_to_clean (rx_ring s)) + k) = slot c (h + k)"
    by (rule slot_shift) (simp add: g c_def rx_size_def)
  have t: "t = set_rdesc (slot c (h + k)) d s1" and fit: "rx_done d" "5 \<le> rd_length d" "ucast (rd_length d) \<le> frag_room s"
    and room: "k + unat (rx_unused s) + 1 < rx_size s"
    using d sl q by (simp_all add: rx_write_back_def Let_def k_def s1_def c_def split: if_splits)
  have kn: "k < n" "n < rx_size s" using room rx_unused_exact [OF w(1,2)] w(1) by (simp_all add: rx_win_def)
  have r1: "rx_ring s1 = rx_ring s" by (simp add: s1_def)
  have a1: "rx_arrays s1" "c = rr_count (rx_ring s1)" "rx_size s1 = rx_size s" using a rx_arrays_cong(1) [OF r1] by (simp_all add: r1 c_def rx_size_def)
  have z: "rx_size t = rx_size s" "rr_count (rx_ring t) = c" using a1 by (simp_all add: t rx_size_def)
  have dt: "rdesc t p = (if p mod rx_size s = (h + k) mod rx_size s then d else rdesc s p)" and bt: "rbuf t p = rbuf s p" for p
    using rx_slot_set(3,4) [OF a1(1,2), of "h + k" d p] rx_arrays_cong [OF r1] a1(3) by (simp_all add: t)
  have other: "rdesc t (h + j) = rdesc s (h + j)" if "j \<noteq> k" "j < rx_size s" for j
    using mod_apart [of "h + k" "h + j" "rx_size s"] mod_apart [of "h + j" "h + k" "rx_size s"] that kn dt
    by (cases "j < k") auto
  have items: "rx_item t (h + j) = rx_item s (h + j)" if "j \<noteq> k" "j < rx_size s" for j
    using other [OF that] bt by (simp add: rx_item_def)
  let ?x = "(d\<lparr>rd_buffer_addr := 0\<rparr>, the (rb_data (rbuf s (h + k))))"
  have x: "rx_item t (h + k) = ?x" using dt bt by (simp add: rx_item_def)
  have front: "q = map (rx_item s) [h..<h + k]"
  proof -
    have "q = take k (map (rx_item s) [h..<h + rx_size s])"
      using takeWhile_eq_take [of "\<lambda>x. rx_done (fst x)" "map (rx_item s) [h..<h + rx_size s]"] w(3) by (simp add: rx_queue_def k_def)
    then show ?thesis using kn by (simp add: take_map take_upt)
  qed
  have all: "\<forall>y \<in> set q. rx_done (fst y)" unfolding w(3) [symmetric] rx_queue_def using set_takeWhileD by metis
  have queue: "rx_queue t h = q @ [?x]"
  proof -
    have "\<not> rx_done (rdesc t (h + Suc k))" using w(4) [unfolded in_order_def w(3), rule_format, of "Suc k"] other [of "Suc k"] kn by (simp add: k_def)
    then have "rx_queue t h = takeWhile (\<lambda>x. rx_done (fst x)) (map (rx_item t) [h..<h + Suc k])"
      using rx_queue_win [of "Suc k" t h] kn z by simp
    also have "map (rx_item t) [h..<h + Suc k] = map (rx_item s) [h..<h + k] @ [?x]"
    proof -
      have "map (rx_item t) [h..<h + k] = map (rx_item s) [h..<h + k]"
      proof (rule map_cong [OF refl])
        fix p assume "p \<in> set [h..<h + k]"
        then show "rx_item t p = rx_item s p" using items [of "p - h"] kn by auto
      qed
      then show ?thesis using x by simp
    qed
    also have "takeWhile (\<lambda>x. rx_done (fst x)) (map (rx_item s) [h..<h + k] @ [?x]) = q @ [?x]"
      unfolding front [symmetric] using all fit(1) by (simp add: rx_done_def)
    finally show ?thesis .
  qed
  have "rx_win t h n"
    using w(1) kn z bt other rx_arrays_set(2) [OF a1(1)] by (auto simp: rx_win_def t r1)
  moreover have "in_order t h"
    using w(3,4) z other unfolding in_order_def queue by (simp add: k_def)
  moreover have "rr_next_to_clean (rx_ring t) = slot (rr_count (rx_ring t)) h" using w(2) z by (simp add: t r1 c_def)
  moreover have "all_fit t"
  proof -
    have "frag_room t = frag_room s" by (simp add: t frag_room_def set_rdesc_def map_rx_def s1_def)
    then show ?thesis using r(1) fit dt unfolding all_fit_def rx_fits_def rx_item_def by simp
  qed
  moreover have "balanced t" using r(2) by (simp add: t balanced_def held_def r1) (simp add: s1_def)
  moreover have l: "rx_log t = rx_log s" "rx_discarding t = rx_discarding s" "rx_alloc t = rx_alloc s" "rr_skb_top (rx_ring t) = rr_skb_top (rx_ring s)"
    "rx_napi t = rx_napi s" by (simp_all add: t set_rdesc_def map_rx_def s1_def)
  ultimately have "rx_ok t (q @ [?x])" using r queue unfolding rx_ok_def l by blast
  then show ?thesis using l by blast
qed

section \<open>The ring after it was made\<close>

definition rx_start :: "e1000_rx \<Rightarrow> bool" where
  "rx_start s \<longleftrightarrow> (\<exists>M a es. e1000_setup_rx_resources M a = (True, s, es) \<and> rr_count (rx_ring a) \<noteq> 0 \<and> rx_log a = []
     \<and> rx_alloc a \<noteq> Rx_jumbo \<and> rx_napi a = No_skb)"

definition rx_sound :: "e1000_rx \<Rightarrow> bool" where
  "rx_sound s \<longleftrightarrow> (\<exists>q. rx_ok s q)"

lemma rx_sound_start: "rx_start s \<Longrightarrow> rx_sound s"
  unfolding rx_start_def rx_sound_def by (blast intro: rx_setup_ok)

section \<open>A concrete receiver\<close>

text \<open>A kernel whose requests all succeed and a ring of \<open>n\<close> descriptors.\<close>

definition ref_rkernel :: rx_kernel where
  "ref_rkernel = \<lparr>rk_frag = (\<lambda>n. Some (0x200000 + of_nat n * 0x1000)), rk_skb = (\<lambda>_. True), rk_dma = (\<lambda>n. (0x40000000 + of_nat n * 0x1000, False))\<rparr>"

definition ref_stats :: e1000_hw_stats where
  "ref_stats = \<lparr>st_crcerrs = 0, st_gprc = 0, st_gorcl = 0, st_gorch = 0, st_bprc = 0, st_mprc = 0, st_roc = 0, st_prc64 = 0,
     st_prc127 = 0, st_prc255 = 0, st_prc511 = 0, st_prc1023 = 0, st_prc1522 = 0\<rparr>"

definition ref_rx_bare :: "u32 \<Rightarrow> rx_function \<Rightarrow> u32 \<Rightarrow> e1000_adapter \<Rightarrow> e1000_rx" where
  "ref_rx_bare n f len a = \<lparr>rx_ad = a, rx_ring = \<lparr>rr_desc = [], rr_count = n, rr_next_to_use = 0, rr_next_to_clean = 0,
     rr_buffer_info = [], rr_skb_top = False\<rparr>, rx_clean = f, rx_alloc = f, rx_buffer_len = len, rx_discarding = False,
     rx_alloc_failed = 0, rx_csum_err = 0, rx_csum_good = 0, rx_stats = ref_stats, rx_keep_fcs = False, rx_keep_bad = False,
     rx_copybreak = 256, rx_stat_bytes = 0, rx_stat_packets = 0, rx_mem = (\<lambda>_. 0), rx_frag_next = 0, rx_skb_next = 0,
     rx_napi = No_skb, rx_log = []\<rparr>"

definition ref_rx :: "u32 \<Rightarrow> rx_function \<Rightarrow> u32 \<Rightarrow> e1000_adapter \<Rightarrow> e1000_rx" where
  "ref_rx n f len a = fst (snd (e1000_setup_rx_resources ref_memory (ref_rx_bare n f len a)))"

lemma ref_rx_start: "n \<noteq> 0 \<Longrightarrow> f \<noteq> Rx_jumbo \<Longrightarrow> hw_mac_type (ad_hw a) = e1000_82540 \<Longrightarrow> rx_start (ref_rx n f len a)"
  unfolding rx_start_def
  by (intro exI [of _ ref_memory] exI [of _ "ref_rx_bare n f len a"] exI [of _ "[Vzalloc, Coherent_alloc 0x10000]"] conjI)
     (simp_all add: ref_rx_def e1000_setup_rx_resources_def ref_memory_def ref_rx_bare_def e1000_check_64k_bound_def Let_def)

text \<open>A filled descriptor: length, status, errors. The bytes of all frames are alike.\<close>

definition ref_desc :: "u16 \<Rightarrow> u8 \<Rightarrow> u8 \<Rightarrow> e1000_rx_desc" where
  "ref_desc n st er = \<lparr>rd_buffer_addr = 0, rd_length = n, rd_csum = 0, rd_status = st, rd_errors = er, rd_special = 0\<rparr>"

primrec ref_fill :: "e1000_rx_desc list \<Rightarrow> e1000_rx \<Rightarrow> e1000_rx option" where
  "ref_fill [] s = Some s"
| "ref_fill (d # ds) s = Option.bind (rx_write_back d (\<lambda>a. ucast a) s) (ref_fill ds)"

text \<open>The ring is filled with buffers, the device has filled some of them.\<close>

definition ref_received :: "u32 \<Rightarrow> rx_function \<Rightarrow> u32 \<Rightarrow> e1000_adapter \<Rightarrow> e1000_rx_desc list \<Rightarrow> e1000_rx option" where
  "ref_received n f len a ds = Option.bind (e1000_configure_rx_ring ref_rkernel (ref_rx n f len a)) (ref_fill ds)"

lemma ref_fill_ok: "ref_fill ds s = Some t \<Longrightarrow> rx_ok s q \<Longrightarrow> \<exists>q'. rx_ok t (q @ q') \<and> map fst q' = map (\<lambda>d. d\<lparr>rd_buffer_addr := 0\<rparr>) ds"
proof (induction ds arbitrary: s q)
  case (Cons d ds)
  from Cons.prems(1) obtain u where u: "rx_write_back d (\<lambda>a. ucast a) s = Some u" "ref_fill ds u = Some t"
    by (auto simp: bind_eq_Some_conv)
  from write_back_queue [OF Cons.prems(2) u(1)] obtain a where a: "rx_ok u (q @ [(d\<lparr>rd_buffer_addr := 0\<rparr>, a)])" by blast
  from Cons.IH [OF u(2) a] obtain q' where "rx_ok t ((q @ [(d\<lparr>rd_buffer_addr := 0\<rparr>, a)]) @ q')"
    "map fst q' = map (\<lambda>d. d\<lparr>rd_buffer_addr := 0\<rparr>) ds" by blast
  then show ?case by (intro exI [of _ "(d\<lparr>rd_buffer_addr := 0\<rparr>, a) # q'"]) simp
qed simp

lemma ref_received_ok:
  assumes "ref_received n f len a ds = Some t" and "n \<noteq> 0" and "f \<noteq> Rx_jumbo" and "hw_mac_type (ad_hw a) = e1000_82540"
  shows "\<exists>q. rx_ok t q \<and> map fst q = map (\<lambda>d. d\<lparr>rd_buffer_addr := 0\<rparr>) ds"
proof -
  have "rx_ok (ref_rx n f len a) []" using ref_rx_start [OF assms(2-4), of len] rx_setup_ok unfolding rx_start_def by blast
  from alloc_ok [OF this, of ref_rkernel] assms(1) obtain u where "rx_ok u []" "ref_fill ds u = Some t"
    by (auto simp: ref_received_def e1000_configure_rx_ring_def)
  from ref_fill_ok [OF this(2,1)] show ?thesis by simp
qed

end
