(* ===== verification/Dysco_E1000_Param.thy ===== *)
theory Dysco_E1000_Param
  imports Dysco_E1000_Machine
begin

text \<open>
  The options of the e1000 driver (\<^verbatim>\<open>e1000_param.c\<close>): what the user gives on the command line is
  checked, and replaced by a default when it is invalid, before the rings are made. A parameter is
  the list of the values given for the boards in order; its length is the code's \<^verbatim>\<open>num_X\<close>.
\<close>

section \<open>One option\<close>

abbreviation (input) OPTION_UNSET :: u32 where "OPTION_UNSET \<equiv> -1"
abbreviation (input) OPTION_DISABLED :: u32 where "OPTION_DISABLED \<equiv> 0"
abbreviation (input) OPTION_ENABLED :: u32 where "OPTION_ENABLED \<equiv> 1"

datatype e1000_option_type = enable_option | range_option u32 u32 | list_option "u32 list"

record e1000_option =
  opt_type :: e1000_option_type
  opt_def :: u32

text \<open>The value stored, and whether the one given was accepted.\<close>

definition e1000_validate_option :: "u32 \<Rightarrow> e1000_option \<Rightarrow> bool \<times> u32" where
  "e1000_validate_option v opt = (
     if v = OPTION_UNSET then (True, opt_def opt)
     else if (case opt_type opt of
         enable_option \<Rightarrow> v = OPTION_ENABLED \<or> v = OPTION_DISABLED
       | range_option lo hi \<Rightarrow> lo \<le> v \<and> v \<le> hi
       | list_option xs \<Rightarrow> v \<in> set xs)
     then (True, v) else (False, opt_def opt))"

definition option_value :: "u32 list \<Rightarrow> nat \<Rightarrow> e1000_option \<Rightarrow> u32" where
  "option_value given bd opt =
     (if length given > bd then snd (e1000_validate_option (given ! bd) opt) else opt_def opt)"

record e1000_params =
  TxDescriptors :: "u32 list"
  RxDescriptors :: "u32 list"
  Speed :: "u32 list"
  Duplex :: "u32 list"
  AutoNeg :: "u32 list"
  FlowControl :: "u32 list"
  XsumRX :: "u32 list"
  TxIntDelay :: "u32 list"
  TxAbsIntDelay :: "u32 list"
  RxIntDelay :: "u32 list"
  RxAbsIntDelay :: "u32 list"
  InterruptThrottleRate :: "u32 list"
  SmartPowerDownEnable :: "u32 list"

text \<open>The adapter with the fields only the options and the link set-up touch.\<close>

record e1000_board =
  bo_ad :: e1000_adapter
  bo_rx_count :: u32
  bo_rx_csum :: bool
  bo_tx_int_delay :: u32
  bo_tx_abs_int_delay :: u32
  bo_rx_int_delay :: u32
  bo_rx_abs_int_delay :: u32
  bo_smart_power_down :: bool
  bo_fc_autoneg :: bool

definition map_hw :: "(e1000_hw \<Rightarrow> e1000_hw) \<Rightarrow> e1000_board \<Rightarrow> e1000_board" where
  "map_hw g b = b\<lparr>bo_ad := (bo_ad b)\<lparr>ad_hw := g (ad_hw (bo_ad b))\<rparr>\<rparr>"

section \<open>The common options\<close>

abbreviation (input) E1000_DEFAULT_TXD :: u32 where "E1000_DEFAULT_TXD \<equiv> 256"
abbreviation (input) E1000_MIN_TXD :: u32 where "E1000_MIN_TXD \<equiv> 48"

definition align8 :: "u32 \<Rightarrow> u32" where
  "align8 x = (x + 7) AND NOT 7"

text \<open>Both rings have the same limits; only a value that was given is rounded up.\<close>

definition ring_option :: "e1000_mac_type \<Rightarrow> e1000_option" where
  "ring_option mac = \<lparr>opt_type = range_option E1000_MIN_TXD (if mac < e1000_82544 then 256 else 4096),
     opt_def = E1000_DEFAULT_TXD\<rparr>"

definition ring_length :: "u32 list \<Rightarrow> nat \<Rightarrow> e1000_mac_type \<Rightarrow> u32" where
  "ring_length given bd mac = (let v = option_value given bd (ring_option mac)
     in if length given > bd then align8 v else v)"

abbreviation (input) E1000_FC_DEFAULT :: u32 where "E1000_FC_DEFAULT \<equiv> 0xFF"

definition fc_option :: e1000_option where
  "fc_option = \<lparr>opt_type = list_option [0, 1, 2, 3, E1000_FC_DEFAULT], opt_def = E1000_FC_DEFAULT\<rparr>"

definition delay_option :: "u32 \<Rightarrow> e1000_option" where
  "delay_option d = \<lparr>opt_type = range_option 0 0xFFFF, opt_def = d\<rparr>"

definition switch_option :: "u32 \<Rightarrow> e1000_option" where
  "switch_option d = \<lparr>opt_type = enable_option, opt_def = d\<rparr>"

definition itr_option :: e1000_option where
  "itr_option = \<lparr>opt_type = range_option 100 100000, opt_def = 3\<rparr>"

text \<open>The rate and the setting; without a parameter, or in one of the modes, the rate is a start value.\<close>

definition check_itr :: "u32 list \<Rightarrow> nat \<Rightarrow> e1000_adapter \<Rightarrow> e1000_adapter" where
  "check_itr given bd a = (
     if length given > bd then
       (let v = given ! bd in
        if v = 0 then a\<lparr>ad_itr := 0\<rparr>
        else if v = 1 \<or> v = 3 then a\<lparr>ad_itr_setting := v, ad_itr := 20000\<rparr>
        else if v = 4 then a\<lparr>ad_itr_setting := v, ad_itr := v\<rparr>
        else let i = snd (e1000_validate_option v itr_option)
             in a\<lparr>ad_itr := i, ad_itr_setting := i AND NOT 3\<rparr>)
     else a\<lparr>ad_itr_setting := opt_def itr_option, ad_itr := 20000\<rparr>)"

section \<open>Copper\<close>

definition e1000_validate_mdi_setting :: "e1000_hw \<Rightarrow> bool \<times> e1000_hw" where
  "e1000_validate_mdi_setting hw = (
     if \<not> hw_autoneg hw \<and> (hw_mdix hw = 0 \<or> hw_mdix hw = 3) then (False, hw\<lparr>hw_mdix := 1\<rparr>)
     else (True, hw))"

abbreviation (input) SPEED_10 :: u32 where "SPEED_10 \<equiv> 10"
abbreviation (input) SPEED_100 :: u32 where "SPEED_100 \<equiv> 100"
abbreviation (input) SPEED_1000 :: u32 where "SPEED_1000 \<equiv> 1000"
abbreviation (input) HALF_DUPLEX :: u32 where "HALF_DUPLEX \<equiv> 1"
abbreviation (input) FULL_DUPLEX :: u32 where "FULL_DUPLEX \<equiv> 2"
abbreviation (input) AUTONEG_ADV_DEFAULT :: u32 where "AUTONEG_ADV_DEFAULT \<equiv> 0x2F"

definition speed_option :: e1000_option where
  "speed_option = \<lparr>opt_type = list_option [0, SPEED_10, SPEED_100, SPEED_1000], opt_def = 0\<rparr>"

definition duplex_option :: e1000_option where
  "duplex_option = \<lparr>opt_type = list_option [0, HALF_DUPLEX, FULL_DUPLEX], opt_def = 0\<rparr>"

definition autoneg_option :: e1000_option where
  "autoneg_option = \<lparr>opt_type = list_option
     ([0x01, 0x02, 0x03, 0x04, 0x05, 0x06, 0x07, 0x08, 0x09, 0x0a, 0x0b, 0x0c, 0x0d, 0x0e, 0x0f]
      @ [0x20, 0x21, 0x22, 0x23, 0x24, 0x25, 0x26, 0x27, 0x28, 0x29, 0x2a, 0x2b, 0x2c, 0x2d, 0x2e, 0x2f]),
     opt_def = AUTONEG_ADV_DEFAULT\<rparr>"

definition negotiate :: "u16 \<Rightarrow> e1000_board \<Rightarrow> e1000_board" where
  "negotiate adv b = map_hw (\<lambda>h. h\<lparr>hw_autoneg := True, hw_autoneg_advertised := adv\<rparr>) (b\<lparr>bo_fc_autoneg := True\<rparr>)"

definition force_link :: "e1000_speed_duplex_type \<Rightarrow> e1000_board \<Rightarrow> e1000_board" where
  "force_link sd b = map_hw (\<lambda>h. h\<lparr>hw_autoneg := False, hw_forced_speed_duplex := sd, hw_autoneg_advertised := 0\<rparr>)
     (b\<lparr>bo_fc_autoneg := False\<rparr>)"

text \<open>The switch over the sum of speed and duplex; \<open>None\<close> is the \<^verbatim>\<open>BUG\<close> of its default case.\<close>

definition link_switch :: "u32 \<Rightarrow> e1000_board \<Rightarrow> e1000_board option" where
  "link_switch n b = (
     if n = 0 then Some (map_hw (\<lambda>h. h\<lparr>hw_autoneg := True\<rparr>) (b\<lparr>bo_fc_autoneg := True\<rparr>))
     else if n = HALF_DUPLEX then Some (negotiate (0x1 OR 0x4) b)
     else if n = FULL_DUPLEX then Some (negotiate (0x2 OR 0x8 OR 0x20) b)
     else if n = SPEED_10 then Some (negotiate (0x1 OR 0x2) b)
     else if n = SPEED_10 + HALF_DUPLEX then Some (force_link e1000_10_half b)
     else if n = SPEED_10 + FULL_DUPLEX then Some (force_link e1000_10_full b)
     else if n = SPEED_100 then Some (negotiate (0x4 OR 0x8) b)
     else if n = SPEED_100 + HALF_DUPLEX then Some (force_link e1000_100_half b)
     else if n = SPEED_100 + FULL_DUPLEX then Some (force_link e1000_100_full b)
     else if n = SPEED_1000 \<or> n = SPEED_1000 + HALF_DUPLEX \<or> n = SPEED_1000 + FULL_DUPLEX
       then Some (negotiate 0x20 b)
     else None)"

definition e1000_check_copper_options :: "e1000_params \<Rightarrow> nat \<Rightarrow> e1000_board \<Rightarrow> e1000_board option" where
  "e1000_check_copper_options P bd b = do {
     let speed = option_value (Speed P) bd speed_option;
     let dplx = option_value (Duplex P) bd duplex_option;
     let adv = (if length (AutoNeg P) > bd \<and> (speed \<noteq> 0 \<or> dplx \<noteq> 0) then AUTONEG_ADV_DEFAULT
                else option_value (AutoNeg P) bd autoneg_option);
     b1 \<leftarrow> link_switch (speed + dplx) (map_hw (\<lambda>h. h\<lparr>hw_autoneg_advertised := ucast adv\<rparr>) b);
     Some (map_hw (\<lambda>h. snd (e1000_validate_mdi_setting h)) b1)
   }"

text \<open>On fiber the code only warns.\<close>

definition e1000_check_fiber_options :: "e1000_params \<Rightarrow> nat \<Rightarrow> e1000_board \<Rightarrow> e1000_board" where
  "e1000_check_fiber_options P bd b = b"

text \<open>The options that do not depend on the medium.\<close>

definition common_options :: "e1000_params \<Rightarrow> nat \<Rightarrow> e1000_board \<Rightarrow> e1000_board" where
  "common_options P bd b = (
     let mac = hw_mac_type (ad_hw (bo_ad b));
         fc = option_value (FlowControl P) bd fc_option;
         a1 = map_tx (\<lambda>R. R\<lparr>tr_count := ring_length (TxDescriptors P) bd mac\<rparr>) (bo_ad b);
         a2 = a1\<lparr>ad_hw := (ad_hw a1)\<lparr>hw_fc := fc, hw_original_fc := fc\<rparr>\<rparr>
     in b\<lparr>bo_ad := check_itr (InterruptThrottleRate P) bd a2,
          bo_rx_count := ring_length (RxDescriptors P) bd mac,
          bo_rx_csum := (option_value (XsumRX P) bd (switch_option OPTION_ENABLED) \<noteq> 0),
          bo_tx_int_delay := option_value (TxIntDelay P) bd (delay_option 8),
          bo_tx_abs_int_delay := option_value (TxAbsIntDelay P) bd (delay_option 32),
          bo_rx_int_delay := option_value (RxIntDelay P) bd (delay_option 0),
          bo_rx_abs_int_delay := option_value (RxAbsIntDelay P) bd (delay_option 8),
          bo_smart_power_down := (option_value (SmartPowerDownEnable P) bd (switch_option OPTION_DISABLED) \<noteq> 0)\<rparr>)"

definition e1000_check_options :: "e1000_params \<Rightarrow> nat \<Rightarrow> e1000_board \<Rightarrow> e1000_board option" where
  "e1000_check_options P bd b = (
     case hw_media_type (ad_hw (bo_ad b)) of
       e1000_media_type_fiber \<Rightarrow> Some (e1000_check_fiber_options P bd (common_options P bd b))
     | e1000_media_type_internal_serdes \<Rightarrow> Some (e1000_check_fiber_options P bd (common_options P bd b))
     | e1000_media_type_copper \<Rightarrow> e1000_check_copper_options P bd (common_options P bd b)
     | e1000_num_media_types \<Rightarrow> None)"

section \<open>Every option ends up valid\<close>

text \<open>
  The contract of an option: its default is acceptable, and so is every value the check accepts.
  Then whatever is given, the value stored is acceptable.
\<close>

locale checked_option =
  fixes opt :: e1000_option and good :: "u32 \<Rightarrow> bool"
  assumes def_good: "good (opt_def opt)"
    and taken_good: "case opt_type opt of
        enable_option \<Rightarrow> good OPTION_DISABLED \<and> good OPTION_ENABLED
      | range_option lo hi \<Rightarrow> (\<forall>v. lo \<le> v \<longrightarrow> v \<le> hi \<longrightarrow> good v)
      | list_option xs \<Rightarrow> (\<forall>v \<in> set xs. good v)"
begin

lemma value_good: "good (option_value given bd opt)"
  using def_good taken_good
  by (cases "opt_type opt") (auto simp: option_value_def e1000_validate_option_def)

end

definition ring_limit :: "e1000_mac_type \<Rightarrow> u32" where
  "ring_limit mac = (if mac < e1000_82544 then 256 else 4096)"

interpretation ring: checked_option "ring_option mac" "\<lambda>v. 48 \<le> v \<and> v \<le> ring_limit mac" for mac
  by unfold_locales (auto simp: ring_option_def ring_limit_def)

interpretation fc: checked_option fc_option "\<lambda>v. v \<in> {0, 1, 2, 3, 0xFF}"
  by unfold_locales (auto simp: fc_option_def)

interpretation delay: checked_option "delay_option d" "\<lambda>v. v \<le> max d 0xFFFF" for d
  by unfold_locales (auto simp: delay_option_def max_def)

interpretation speed: checked_option speed_option "\<lambda>v. v \<in> {0, 10, 100, 1000}"
  by unfold_locales (auto simp: speed_option_def)

interpretation duplex: checked_option duplex_option "\<lambda>v. v \<in> {0, 1, 2}"
  by unfold_locales (auto simp: duplex_option_def)

definition adv_good :: "u16 \<Rightarrow> bool" where
  "adv_good n \<longleftrightarrow> n \<noteq> 0 \<and> n \<le> 0x2F \<and> n AND 0x10 = 0"

interpretation advertised: checked_option autoneg_option "\<lambda>v. adv_good (ucast v)"
  by unfold_locales (simp_all add: autoneg_option_def adv_good_def)

text \<open>A rounded ring length is a multiple of 8 and still within the limit.\<close>

lemma unat_align8: "unat x + 7 < 2 ^ 32 \<Longrightarrow> unat (align8 x) = (unat x + 7) div 8 * 8"
proof -
  assume x: "unat x + 7 < 2 ^ 32"
  then have u: "unat (x + 7) = unat x + 7" by (simp add: unat_word_ariths(1))
  have m: "(7::u32) = mask 3" by (simp add: mask_eq_exp_minus_1)
  have "align8 x = push_bit 3 (drop_bit 3 (x + 7))"
    unfolding align8_def m by (rule bit_word_eqI) (auto simp: bit_simps)
  then have "align8 x = (x + 7) div 8 * 8" by (simp add: push_bit_eq_mult drop_bit_eq_div)
  moreover have d: "unat ((x + 7) div 8) = (unat x + 7) div 8" by (simp add: unat_div u)
  moreover have "(unat x + 7) div 8 * 8 < 2 ^ 32" using x by linarith
  ultimately show ?thesis by (simp add: unat_word_ariths(2) d)
qed

definition ring_length_ok :: "e1000_mac_type \<Rightarrow> u32 \<Rightarrow> bool" where
  "ring_length_ok mac n \<longleftrightarrow> 48 \<le> unat n \<and> unat n \<le> unat (ring_limit mac) \<and> 8 dvd unat n"

lemma ring_length_good: "ring_length_ok mac (ring_length given bd mac)"
proof -
  define v where "v = option_value given bd (ring_option mac)"
  have v: "48 \<le> unat v" "unat v \<le> unat (ring_limit mac)"
    using ring.value_good [of given bd mac] by (simp_all add: v_def word_le_nat_alt)
  have lim: "unat (ring_limit mac) \<le> 4096" "8 dvd unat (ring_limit mac)" by (simp_all add: ring_limit_def)
  show ?thesis
  proof (cases "length given > bd")
    case True
    have "unat (align8 v) = (unat v + 7) div 8 * 8" using v lim by (intro unat_align8) simp
    then show ?thesis
      using True v lim by (auto simp: ring_length_ok_def ring_length_def v_def [symmetric] elim!: dvdE)
  next
    case False
    then have "v = 256" by (simp add: v_def option_value_def ring_option_def)
    then show ?thesis using False v by (simp add: ring_length_ok_def ring_length_def v_def [symmetric])
  qed
qed

text \<open>
  A board whose options are valid: ring lengths within the limits of the controller, delays of 16
  bits, a known flow control, and a link that either negotiates something the controller can do or
  is forced, then without a crossover mode that needs negotiation.
\<close>

definition link_ok :: "e1000_hw \<Rightarrow> bool" where
  "link_ok h \<longleftrightarrow> (if hw_autoneg h
     then adv_good (hw_autoneg_advertised h)
     else hw_autoneg_advertised h = 0 \<and> hw_mdix h \<noteq> 0 \<and> hw_mdix h \<noteq> 3)"

definition board_ok :: "e1000_board \<Rightarrow> bool" where
  "board_ok b \<longleftrightarrow> (let a = bo_ad b; h = ad_hw a in
     ring_length_ok (hw_mac_type h) (tr_count (ad_tx_ring a)) \<and> ring_length_ok (hw_mac_type h) (bo_rx_count b)
     \<and> hw_fc h \<in> {0, 1, 2, 3, 0xFF} \<and> hw_original_fc h = hw_fc h
     \<and> bo_tx_int_delay b \<le> 0xFFFF \<and> bo_tx_abs_int_delay b \<le> 0xFFFF
     \<and> bo_rx_int_delay b \<le> 0xFFFF \<and> bo_rx_abs_int_delay b \<le> 0xFFFF
     \<and> (hw_media_type h = e1000_media_type_copper \<longrightarrow> link_ok h \<and> bo_fc_autoneg b = hw_autoneg h))"

text \<open>The link is configured and, once the crossover mode is checked, valid; nothing else changes.\<close>

definition link_set :: "e1000_board \<Rightarrow> e1000_board \<Rightarrow> bool" where
  "link_set b b' \<longleftrightarrow> (\<exists>h'. let h = ad_hw (bo_ad b) in
     b' = b\<lparr>bo_ad := (bo_ad b)\<lparr>ad_hw := h'\<rparr>, bo_fc_autoneg := hw_autoneg h'\<rparr>
     \<and> hw_mac_type h' = hw_mac_type h \<and> hw_media_type h' = hw_media_type h
     \<and> hw_fc h' = hw_fc h \<and> hw_original_fc h' = hw_original_fc h
     \<and> link_ok (snd (e1000_validate_mdi_setting h')))"

lemma negotiate_set: "adv_good n \<Longrightarrow> link_set b (negotiate n b)"
  unfolding link_set_def
  by (intro exI [of _ "(ad_hw (bo_ad b))\<lparr>hw_autoneg := True, hw_autoneg_advertised := n\<rparr>"])
     (simp add: negotiate_def map_hw_def link_ok_def e1000_validate_mdi_setting_def Let_def)

lemma force_link_set: "link_set b (force_link sd b)"
  unfolding link_set_def
  by (intro exI [of _ "(ad_hw (bo_ad b))\<lparr>hw_autoneg := False, hw_forced_speed_duplex := sd, hw_autoneg_advertised := 0\<rparr>"])
     (simp add: force_link_def map_hw_def link_ok_def e1000_validate_mdi_setting_def Let_def)

lemma link_switch_good:
  assumes s: "speed \<in> {0, 10, 100, 1000}" and d: "dplx \<in> {0, 1, 2}"
    and adv: "adv_good (hw_autoneg_advertised (ad_hw (bo_ad b)))"
  shows "\<exists>b'. link_switch (speed + dplx) b = Some b' \<and> link_set b b'"
proof -
  have "link_set b (map_hw (\<lambda>h. h\<lparr>hw_autoneg := True\<rparr>) (b\<lparr>bo_fc_autoneg := True\<rparr>))"
    unfolding link_set_def using adv
    by (intro exI [of _ "(ad_hw (bo_ad b))\<lparr>hw_autoneg := True\<rparr>"])
       (simp add: map_hw_def link_ok_def e1000_validate_mdi_setting_def Let_def)
  then show ?thesis
    using s d by (elim insertE emptyE) (simp_all add: link_switch_def adv_good_def negotiate_set force_link_set)
qed

text \<open>What the common options leave is valid but for the link.\<close>

lemma check_itr_same [simp]:
  "ad_hw (check_itr given bd a) = ad_hw a" "ad_tx_ring (check_itr given bd a) = ad_tx_ring a"
  by (simp_all add: check_itr_def Let_def)

definition common_ok :: "e1000_board \<Rightarrow> bool" where
  "common_ok b \<longleftrightarrow> (let a = bo_ad b; h = ad_hw a in
     ring_length_ok (hw_mac_type h) (tr_count (ad_tx_ring a)) \<and> ring_length_ok (hw_mac_type h) (bo_rx_count b)
     \<and> hw_fc h \<in> {0, 1, 2, 3, 0xFF} \<and> hw_original_fc h = hw_fc h
     \<and> bo_tx_int_delay b \<le> 0xFFFF \<and> bo_tx_abs_int_delay b \<le> 0xFFFF
     \<and> bo_rx_int_delay b \<le> 0xFFFF \<and> bo_rx_abs_int_delay b \<le> 0xFFFF)"

lemma common_options_ok:
  "common_ok (common_options P bd b)"
  "hw_media_type (ad_hw (bo_ad (common_options P bd b))) = hw_media_type (ad_hw (bo_ad b))"
proof -
  show "hw_media_type (ad_hw (bo_ad (common_options P bd b))) = hw_media_type (ad_hw (bo_ad b))"
    by (simp add: common_options_def map_tx_def Let_def)
  have d: "option_value (TxIntDelay P) bd (delay_option 8) \<le> 0xFFFF"
    "option_value (TxAbsIntDelay P) bd (delay_option 32) \<le> 0xFFFF"
    "option_value (RxIntDelay P) bd (delay_option 0) \<le> 0xFFFF"
    "option_value (RxAbsIntDelay P) bd (delay_option 8) \<le> 0xFFFF"
    using delay.value_good [of _ bd 8] delay.value_good [of _ bd 32] delay.value_good [of _ bd 0] by (simp_all add: max_def)
  show "common_ok (common_options P bd b)"
    using fc.value_good [of "FlowControl P" bd] d ring_length_good
    by (simp add: common_ok_def common_options_def map_tx_def Let_def)
qed

lemma copper_options_ok:
  assumes c: "common_ok b" and m: "hw_media_type (ad_hw (bo_ad b)) = e1000_media_type_copper"
  shows "\<exists>b'. e1000_check_copper_options P bd b = Some b' \<and> board_ok b'"
proof -
  define adv where "adv = (if length (AutoNeg P) > bd
      \<and> (option_value (Speed P) bd speed_option \<noteq> 0 \<or> option_value (Duplex P) bd duplex_option \<noteq> 0)
    then AUTONEG_ADV_DEFAULT else option_value (AutoNeg P) bd autoneg_option)"
  let ?b = "map_hw (\<lambda>h. h\<lparr>hw_autoneg_advertised := ucast adv\<rparr>) b"
  have "adv_good (ucast adv)" using advertised.value_good [of "AutoNeg P" bd] by (simp add: adv_def adv_good_def)
  then obtain b1 where b1: "link_switch (option_value (Speed P) bd speed_option + option_value (Duplex P) bd duplex_option) ?b = Some b1"
    and l: "link_set ?b b1"
    using link_switch_good [OF speed.value_good duplex.value_good, of ?b "Speed P" bd "Duplex P" bd] by (auto simp: map_hw_def)
  define b2 where "b2 = map_hw (\<lambda>h. snd (e1000_validate_mdi_setting h)) b1"
  have "e1000_check_copper_options P bd b = Some b2"
    using b1 by (simp add: e1000_check_copper_options_def adv_def b2_def Let_def cong: if_cong)
  moreover obtain h where h: "b1 = ?b\<lparr>bo_ad := (bo_ad ?b)\<lparr>ad_hw := h\<rparr>, bo_fc_autoneg := hw_autoneg h\<rparr>"
    "hw_mac_type h = hw_mac_type (ad_hw (bo_ad b))" "hw_media_type h = e1000_media_type_copper"
    "hw_fc h = hw_fc (ad_hw (bo_ad b))" "hw_original_fc h = hw_original_fc (ad_hw (bo_ad b))"
    "link_ok (snd (e1000_validate_mdi_setting h))"
    using l m by (auto simp: link_set_def map_hw_def Let_def)
  have "board_ok b2"
    using c h(2-6) unfolding board_ok_def common_ok_def b2_def h(1) Let_def
    by (auto simp: map_hw_def e1000_validate_mdi_setting_def)
  ultimately show ?thesis by blast
qed

lemma board_ring_length: "board_ok b \<Longrightarrow> 48 \<le> unat (tr_count (ad_tx_ring (bo_ad b))) \<and> unat (tr_count (ad_tx_ring (bo_ad b))) \<le> 4096"
  by (auto simp: board_ok_def ring_length_ok_def ring_limit_def Let_def split: if_splits)

section \<open>Which values are taken\<close>

text \<open>
  What the documentation of the options promises: a value that is given and acceptable is taken,
  otherwise the default. \<open>itr_taken\<close> is the exception, for the rate and the setting of the
  interrupt throttling: 0, 1, 3 and 4 are modes, a rate within the limits is taken, and for
  everything else the code stores the rate 3, without a mode.
\<close>

definition taken :: "u32 list \<Rightarrow> nat \<Rightarrow> (u32 \<Rightarrow> bool) \<Rightarrow> u32 \<Rightarrow> u32" where
  "taken given bd good d = (if bd < length given \<and> good (given ! bd) then given ! bd else d)"

definition itr_taken :: "u32 list \<Rightarrow> nat \<Rightarrow> u32 \<Rightarrow> u32 \<times> u32" where
  "itr_taken given bd setting = (
     if length given \<le> bd then (20000, 3)
     else let v = given ! bd in
       if v = 0 then (0, setting)
       else if v \<in> {1, 3} then (20000, v)
       else if v = 4 then (4, 4)
       else if 100 \<le> v \<and> v \<le> 100000 then (v, v AND NOT 3)
       else (3, 0))"

definition options_taken :: "e1000_params \<Rightarrow> nat \<Rightarrow> e1000_board \<Rightarrow> e1000_board \<Rightarrow> bool" where
  "options_taken P bd b b' \<longleftrightarrow> (let a = bo_ad b'; len = \<lambda>v. 48 \<le> v \<and> v \<le> ring_limit (hw_mac_type (ad_hw (bo_ad b)));
       delay = \<lambda>v. v \<le> 0xFFFF in
     tr_count (ad_tx_ring a) = align8 (taken (TxDescriptors P) bd len 256)
     \<and> bo_rx_count b' = align8 (taken (RxDescriptors P) bd len 256)
     \<and> hw_fc (ad_hw a) = taken (FlowControl P) bd (\<lambda>v. v \<in> {0, 1, 2, 3}) 0xFF
     \<and> bo_rx_csum b' = (taken (XsumRX P) bd (\<lambda>v. v = 0) 1 = 1)
     \<and> bo_tx_int_delay b' = taken (TxIntDelay P) bd delay 8
     \<and> bo_tx_abs_int_delay b' = taken (TxAbsIntDelay P) bd delay 32
     \<and> bo_rx_int_delay b' = taken (RxIntDelay P) bd delay 0
     \<and> bo_rx_abs_int_delay b' = taken (RxAbsIntDelay P) bd delay 8
     \<and> bo_smart_power_down b' = (taken (SmartPowerDownEnable P) bd (\<lambda>v. v = 1) 0 = 1)
     \<and> (ad_itr a, ad_itr_setting a) = itr_taken (InterruptThrottleRate P) bd (ad_itr_setting (bo_ad b)))"

lemma unset_out_of_range:
  "\<not> (-1 :: u32) \<le> 256" "\<not> (-1 :: u32) \<le> 4096" "\<not> (-1 :: u32) \<le> 65535" "\<not> (-1 :: u32) \<le> 100000"
  by code_simp+

lemma option_values_taken:
  "option_value given bd (delay_option d) = taken given bd (\<lambda>v. v \<le> 0xFFFF) d"
  "option_value given bd fc_option = taken given bd (\<lambda>v. v \<in> {0, 1, 2, 3}) 0xFF"
  "option_value given bd (ring_option mac) = taken given bd (\<lambda>v. 48 \<le> v \<and> v \<le> ring_limit mac) 256"
  "(option_value given bd (switch_option 1) \<noteq> 0) = (taken given bd (\<lambda>v. v = 0) 1 = 1)"
  "(option_value given bd (switch_option 0) \<noteq> 0) = (taken given bd (\<lambda>v. v = 1) 0 = 1)"
  by (auto simp: option_value_def e1000_validate_option_def taken_def delay_option_def fc_option_def ring_option_def
      switch_option_def ring_limit_def unset_out_of_range)

lemma check_itr_taken: "(ad_itr (check_itr given bd a), ad_itr_setting (check_itr given bd a)) = itr_taken given bd (ad_itr_setting a)"
  by (auto simp: check_itr_def itr_taken_def e1000_validate_option_def itr_option_def Let_def unset_out_of_range)

lemma common_options_taken: "options_taken P bd b (common_options P bd b)"
proof -
  have r: "ring_length given bd mac = align8 (taken given bd (\<lambda>v. 48 \<le> v \<and> v \<le> ring_limit mac) 256)" for given mac
    by (simp add: ring_length_def option_values_taken) (simp add: taken_def align8_def)
  show ?thesis
    using check_itr_taken [of "InterruptThrottleRate P" bd]
    by (simp add: options_taken_def common_options_def map_tx_def Let_def r option_values_taken)
qed

text \<open>The link options leave all this alone.\<close>

lemma options_taken_hw:
  "(\<And>h. hw_fc (g h) = hw_fc h) \<Longrightarrow> options_taken P bd b0 (map_hw g b) = options_taken P bd b0 b"
  "options_taken P bd b0 (b\<lparr>bo_fc_autoneg := f\<rparr>) = options_taken P bd b0 b"
  by (simp_all add: options_taken_def map_hw_def Let_def)

lemma link_switch_keep: "link_switch n b = Some b' \<Longrightarrow> options_taken P bd b0 b' = options_taken P bd b0 b"
  by (auto simp: link_switch_def negotiate_def force_link_def options_taken_hw split: if_splits)

lemma copper_options_keep:
  assumes "e1000_check_copper_options P bd b = Some b'" and "options_taken P bd b0 b"
  shows "options_taken P bd b0 b'"
proof -
  obtain n adv b1 where "link_switch n (map_hw (\<lambda>h. h\<lparr>hw_autoneg_advertised := adv\<rparr>) b) = Some b1"
    "b' = map_hw (\<lambda>h. snd (e1000_validate_mdi_setting h)) b1"
    using assms(1) by (auto simp: e1000_check_copper_options_def Let_def bind_eq_Some_conv)
  then show ?thesis using assms(2) link_switch_keep by (simp add: options_taken_hw e1000_validate_mdi_setting_def)
qed


definition ref_board :: e1000_board where
  "ref_board = \<lparr>bo_ad = ref_bare 0, bo_rx_count = 0, bo_rx_csum = False, bo_tx_int_delay = 0, bo_tx_abs_int_delay = 0,
     bo_rx_int_delay = 0, bo_rx_abs_int_delay = 0, bo_smart_power_down = False, bo_fc_autoneg = False\<rparr>"

text \<open>A ring that is too short, a forced link without a crossover mode and an interrupt rate that is too low.\<close>

definition ref_params :: e1000_params where
  "ref_params = \<lparr>TxDescriptors = [47], RxDescriptors = [100], Speed = [100], Duplex = [2], AutoNeg = [0x10],
     FlowControl = [7], XsumRX = [5], TxIntDelay = [0x10000], TxAbsIntDelay = [-1], RxIntDelay = [], RxAbsIntDelay = [3],
     InterruptThrottleRate = [50], SmartPowerDownEnable = [1]\<rparr>"


end
