(* ===== verification/Dysco_E1000_Link.thy ===== *)
theory Dysco_E1000_Link
  imports Dysco_E1000_Param "HOL-Library.Signed_Division"
begin

text \<open>
  Link speed and interrupt rate of the e1000 driver: \<open>e1000_update_itr\<close> classifies the traffic of the
  last interrupt, \<open>e1000_set_itr\<close> turns the class into a rate, \<open>e1000_set_spd_dplx\<close> forces the link.
\<close>

section \<open>The interrupt rate\<close>

abbreviation (input) lowest_latency :: u16 where "lowest_latency \<equiv> 0"
abbreviation (input) low_latency :: u16 where "low_latency \<equiv> 1"
abbreviation (input) bulk_latency :: u16 where "bulk_latency \<equiv> 2"

text \<open>The counters are 32-bit words the function reads as signed integers; its quotient truncates.\<close>

definition e1000_update_itr :: "e1000_hw \<Rightarrow> u16 \<Rightarrow> int \<Rightarrow> int \<Rightarrow> u16" where
  "e1000_update_itr hw setting packets bytes = (
     if hw_mac_type hw < e1000_82540 \<or> packets = 0 then setting
     else if setting = lowest_latency then
       (if bytes sdiv packets > 8000 then bulk_latency
        else if packets < 5 \<and> bytes > 512 then low_latency
        else setting)
     else if setting = low_latency then
       (if bytes > 10000 then
          (if bytes sdiv packets > 8000 then bulk_latency
           else if packets < 10 \<or> bytes sdiv packets > 1200 then bulk_latency
           else if packets > 35 then lowest_latency
           else setting)
        else if bytes sdiv packets > 2000 then bulk_latency
        else if packets \<le> 2 \<and> bytes < 512 then lowest_latency
        else setting)
     else if setting = bulk_latency then
       (if bytes > 25000 then (if packets > 35 then low_latency else setting)
        else if bytes < 6000 then low_latency
        else setting)
     else setting)"

text \<open>In the conservative mode the highest rate is not used.\<close>

definition conservative :: "u32 \<Rightarrow> u16 \<Rightarrow> u16" where
  "conservative itr_setting x = (if itr_setting = 3 \<and> x = lowest_latency then low_latency else x)"

text \<open>The new rate is written to the device; an increase is made in steps.\<close>

definition change_itr :: "u32 \<Rightarrow> e1000_adapter \<Rightarrow> e1000_adapter" where
  "change_itr new_itr a = (
     if new_itr \<noteq> ad_itr a then
       let n = (if new_itr > ad_itr a then min (ad_itr a + drop_bit 2 new_itr) new_itr else new_itr)
       in nic_log (Write_itr (1000000000 div (n * 256))) (a\<lparr>ad_itr := n\<rparr>)
     else a)"

definition e1000_set_itr :: "e1000_adapter \<Rightarrow> e1000_adapter" where
  "e1000_set_itr a = (
     if hw_mac_type (ad_hw a) < e1000_82540 then a
     else if ad_link_speed a \<noteq> 1000 then change_itr 4000 a
     else
       let a1 = a\<lparr>ad_tx_itr := conservative (ad_itr_setting a) (e1000_update_itr (ad_hw a) (ad_tx_itr a)
                   (sint (ad_total_tx_packets a)) (sint (ad_total_tx_bytes a)))\<rparr>;
           a2 = a1\<lparr>ad_rx_itr := conservative (ad_itr_setting a1) (e1000_update_itr (ad_hw a1) (ad_rx_itr a1)
                   (sint (ad_total_rx_packets a1)) (sint (ad_total_rx_bytes a1)))\<rparr>;
           cur = max (ad_rx_itr a2) (ad_tx_itr a2)
       in change_itr (if cur = lowest_latency then 70000 else if cur = low_latency then 20000
                      else if cur = bulk_latency then 4000 else ad_itr a2) a2)"

section \<open>Forcing the link\<close>

abbreviation (input) DUPLEX_HALF :: u8 where "DUPLEX_HALF \<equiv> 0"
abbreviation (input) DUPLEX_FULL :: u8 where "DUPLEX_FULL \<equiv> 1"

text \<open>The result says whether the request was accepted.\<close>

definition e1000_set_spd_dplx :: "e1000_hw \<Rightarrow> u32 \<Rightarrow> u8 \<Rightarrow> bool \<times> e1000_hw" where
  "e1000_set_spd_dplx hw spd dplx = (
     let h = hw\<lparr>hw_autoneg := False\<rparr>;
         n = spd + ucast dplx;
         accept = (\<lambda>h. (True, h\<lparr>hw_mdix := 0\<rparr>))
     in if spd AND 1 \<noteq> 0 \<or> dplx AND NOT 1 \<noteq> 0 then (False, h)
        else if hw_media_type hw = e1000_media_type_fiber \<and> spd \<noteq> SPEED_1000 \<and> dplx \<noteq> DUPLEX_FULL then (False, h)
        else if n = SPEED_10 + 0 then accept (h\<lparr>hw_forced_speed_duplex := e1000_10_half\<rparr>)
        else if n = SPEED_10 + 1 then accept (h\<lparr>hw_forced_speed_duplex := e1000_10_full\<rparr>)
        else if n = SPEED_100 + 0 then accept (h\<lparr>hw_forced_speed_duplex := e1000_100_half\<rparr>)
        else if n = SPEED_100 + 1 then accept (h\<lparr>hw_forced_speed_duplex := e1000_100_full\<rparr>)
        else if n = SPEED_1000 + 1 then accept (h\<lparr>hw_autoneg := True, hw_autoneg_advertised := 0x20\<rparr>)
        else (False, h))"

section \<open>Properties\<close>

text \<open>A rate the dynamic modes use, and classes that are known.\<close>

definition rate_ok :: "e1000_adapter \<Rightarrow> bool" where
  "rate_ok a \<longleftrightarrow> 4000 \<le> unat (ad_itr a) \<and> unat (ad_itr a) \<le> 70000 \<and> ad_tx_itr a \<in> {0, 1, 2} \<and> ad_rx_itr a \<in> {0, 1, 2}"

lemma class_ok: "s \<in> {0, 1, 2} \<Longrightarrow> conservative m (e1000_update_itr hw s p b) \<in> {0, 1, 2}"
  by (auto simp: conservative_def e1000_update_itr_def)

lemma change_itr_ok:
  assumes n: "new_itr = 4000 \<or> new_itr = 20000 \<or> new_itr = 70000" and i: "4000 \<le> unat (ad_itr a)" "unat (ad_itr a) \<le> 70000"
  shows "4000 \<le> unat (ad_itr (change_itr new_itr a)) \<and> unat (ad_itr (change_itr new_itr a)) \<le> 70000
    \<and> ad_tx_itr (change_itr new_itr a) = ad_tx_itr a \<and> ad_rx_itr (change_itr new_itr a) = ad_rx_itr a
    \<and> (ad_log (change_itr new_itr a) = ad_log a
       \<or> (\<exists>w. ad_log (change_itr new_itr a) = ad_log a @ [Write_itr w] \<and> 55 \<le> unat w \<and> unat w \<le> 976))"
proof (cases "new_itr = ad_itr a")
  case True
  then show ?thesis using i by (simp add: change_itr_def)
next
  case False
  define m where "m = (if new_itr > ad_itr a then min (ad_itr a + drop_bit 2 new_itr) new_itr else new_itr)"
  have up: "unat (ad_itr a + drop_bit 2 new_itr) = unat (ad_itr a) + unat new_itr div 4"
    using n i by (auto simp: unat_word_ariths(1) unat_drop_bit_eq drop_bit_eq_div)
  have m: "4000 \<le> unat m" "unat m \<le> 70000"
    using n i up by (auto simp: m_def unat_min)
  have p: "unat (m * 256) = unat m * 256" using m by (simp add: unat_word_ariths(2))
  have w: "unat (1000000000 div (m * 256)) = 1000000000 div (unat m * 256)" by (simp add: unat_div p)
  have "1000000000 div (70000 * 256) \<le> 1000000000 div (unat m * 256)" by (rule div_le_mono2) (use m in auto)
  moreover have "1000000000 div (unat m * 256) \<le> 1000000000 div (4000 * 256)" by (rule div_le_mono2) (use m in auto)
  ultimately show ?thesis using False m w by (simp add: change_itr_def m_def [symmetric] nic_log_def Let_def)
qed

text \<open>
  The interrupt rate stays between 4000 and 70000 interrupts per second and the classes stay
  known, whatever the traffic; the value written to the throttling register is never a division by
  zero and fits its 16 bits.
\<close>

theorem itr_stays_bounded:
  assumes "rate_ok a"
  shows "rate_ok (e1000_set_itr a) \<and> (ad_log (e1000_set_itr a) = ad_log a
     \<or> (\<exists>w. ad_log (e1000_set_itr a) = ad_log a @ [Write_itr w] \<and> 55 \<le> unat w \<and> unat w \<le> 976))"
proof (cases "hw_mac_type (ad_hw a) < e1000_82540 \<or> ad_link_speed a \<noteq> 1000")
  case True
  then show ?thesis using assms change_itr_ok [of 4000 a] by (auto simp: e1000_set_itr_def rate_ok_def)
next
  case False
  define t where "t = conservative (ad_itr_setting a) (e1000_update_itr (ad_hw a) (ad_tx_itr a)
      (sint (ad_total_tx_packets a)) (sint (ad_total_tx_bytes a)))"
  define r where "r = conservative (ad_itr_setting a) (e1000_update_itr (ad_hw a) (ad_rx_itr a)
      (sint (ad_total_rx_packets a)) (sint (ad_total_rx_bytes a)))"
  define a2 where "a2 = a\<lparr>ad_tx_itr := t, ad_rx_itr := r\<rparr>"
  define n :: u32 where "n = (if max r t = 0 then 70000 else if max r t = 1 then 20000 else 4000)"
  have c: "t \<in> {0, 1, 2}" "r \<in> {0, 1, 2}"
    using assms class_ok by (simp_all add: t_def r_def rate_ok_def)
  then have "max r t \<in> {0, 1, 2}" by (simp add: max_def)
  then have "e1000_set_itr a = change_itr n a2"
    using False by (auto simp: e1000_set_itr_def n_def a2_def t_def r_def Let_def)
  moreover have "n = 4000 \<or> n = 20000 \<or> n = 70000" by (simp add: n_def)
  then have "4000 \<le> unat (ad_itr (change_itr n a2)) \<and> unat (ad_itr (change_itr n a2)) \<le> 70000
    \<and> ad_tx_itr (change_itr n a2) = ad_tx_itr a2 \<and> ad_rx_itr (change_itr n a2) = ad_rx_itr a2
    \<and> (ad_log (change_itr n a2) = ad_log a2
       \<or> (\<exists>w. ad_log (change_itr n a2) = ad_log a2 @ [Write_itr w] \<and> 55 \<le> unat w \<and> unat w \<le> 976))"
    by (rule change_itr_ok) (use assms in \<open>simp_all add: a2_def rate_ok_def\<close>)
  ultimately show ?thesis using c by (simp add: rate_ok_def a2_def)
qed

definition ref_busy :: e1000_adapter where
  "ref_busy = (ref_bare 256)\<lparr>ad_itr := 4000, ad_itr_setting := 1, ad_tx_itr := 2, ad_rx_itr := 1, ad_total_tx_packets := 40,
     ad_total_tx_bytes := 26000, ad_total_rx_packets := 36, ad_total_rx_bytes := 12000\<rparr>"

theorem itr_stays_bounded_witness:
  "rate_ok (e1000_set_itr ref_busy) \<and> ad_itr (e1000_set_itr ref_busy) = 9000 \<and> ad_log (e1000_set_itr ref_busy) = [Write_itr 434]"
proof -
  have r: "rate_ok ref_busy" by (simp add: rate_ok_def ref_busy_def)
  have v: "ad_itr (e1000_set_itr ref_busy) = 9000" "ad_log (e1000_set_itr ref_busy) = [Write_itr 434]" by code_simp+
  from itr_stays_bounded [OF r] v show ?thesis by auto
qed

text \<open>A refused request has already turned the negotiation off, and fiber accepts any speed at full duplex.\<close>

lemma refused_speed_stops_negotiation:
  "e1000_set_spd_dplx hw 1000 0 = (False, hw\<lparr>hw_autoneg := False\<rparr>)"
  by (simp add: e1000_set_spd_dplx_def Let_def)

lemma fiber_forced_to_ten:
  "hw_media_type hw = e1000_media_type_fiber \<Longrightarrow> e1000_set_spd_dplx hw 10 1
     = (True, hw\<lparr>hw_autoneg := False, hw_forced_speed_duplex := e1000_10_full, hw_mdix := 0\<rparr>)"
  by (simp add: e1000_set_spd_dplx_def Let_def)

end
