(* ===== verification/Dysco_E1000_Poll.thy ===== *)
theory Dysco_E1000_Poll
  imports Dysco_E1000_Rx_Machine Dysco_E1000_Link
begin

text \<open>
  Both rings of the e1000 driver under its control (\<^verbatim>\<open>e1000_main.c\<close>): the interrupt handler
  \<open>e1000_intr\<close> schedules the poll function \<open>e1000_clean\<close>, which reclaims sent frames and receives new
  ones; \<open>e1000_up\<close>, \<open>e1000_down\<close> and \<open>e1000_change_mtu\<close> start and stop the device. The registers
  these functions write are left out, apart from the interrupt mask.
\<close>

section \<open>State\<close>

text \<open>
  The receive side, which contains the adapter; the interrupt mask; whether the NAPI instance is
  enabled and scheduled; the work the interrupt handler asks for; the interface.
\<close>

record nic_poll =
  np_rx :: e1000_rx
  np_irq_on :: bool
  np_napi_on :: bool
  np_scheduled :: bool
  np_get_link_status :: bool
  np_watchdog :: bool
  np_running :: bool
  np_mtu :: int

definition np_ad :: "nic_poll \<Rightarrow> e1000_adapter" where
  "np_ad p = rx_ad (np_rx p)"

definition set_ad :: "e1000_adapter \<Rightarrow> nic_poll \<Rightarrow> nic_poll" where
  "set_ad a p = p\<lparr>np_rx := (np_rx p)\<lparr>rx_ad := a\<rparr>\<rparr>"

section \<open>Interrupts and polling\<close>

definition e1000_irq_enable :: "nic_poll \<Rightarrow> nic_poll" where
  "e1000_irq_enable p = p\<lparr>np_irq_on := True\<rparr>"

definition e1000_irq_disable :: "nic_poll \<Rightarrow> nic_poll" where
  "e1000_irq_disable p = p\<lparr>np_irq_on := False\<rparr>"

abbreviation (input) E1000_ICR_LSC :: u32 where "E1000_ICR_LSC \<equiv> 0x04"
abbreviation (input) E1000_ICR_RXSEQ :: u32 where "E1000_ICR_RXSEQ \<equiv> 0x08"

text \<open>The result says whether the interrupt, of which \<open>icr\<close> gives the causes, is the device's.\<close>

definition e1000_intr :: "u32 \<Rightarrow> nic_poll \<Rightarrow> bool \<times> nic_poll" where
  "e1000_intr icr p = (
     if icr = 0 then (False, p)
     else if ad_down (np_ad p) then (True, p)
     else
       let p1 = (if icr AND (E1000_ICR_RXSEQ OR E1000_ICR_LSC) \<noteq> 0
                 then p\<lparr>np_get_link_status := True, np_watchdog := np_watchdog p \<or> \<not> ad_down (np_ad p)\<rparr> else p);
           p2 = e1000_irq_disable p1
       in (True,
         if np_napi_on p2 \<and> \<not> np_scheduled p2
         then (set_ad ((np_ad p2)\<lparr>ad_total_tx_bytes := 0, ad_total_tx_packets := 0, ad_total_rx_bytes := 0,
                 ad_total_rx_packets := 0\<rparr>) p2)\<lparr>np_scheduled := True\<rparr>
         else if \<not> ad_down (np_ad p2) then e1000_irq_enable p2 else p2))"

text \<open>The receive function the adapter points to.\<close>

definition clean_rx :: "rx_kernel \<Rightarrow> int \<Rightarrow> int \<Rightarrow> e1000_rx \<Rightarrow> (bool \<times> int \<times> e1000_rx) option" where
  "clean_rx K work_done work_to_do s = (
     if rx_clean s = Rx_jumbo then e1000_clean_jumbo_rx_irq K work_done work_to_do s
     else e1000_clean_rx_irq K work_done work_to_do s)"

text \<open>The end of a poll that has not used up its budget.\<close>

definition poll_done :: "nic_poll \<Rightarrow> nic_poll" where
  "poll_done p = (
     let p1 = (if ad_itr_setting (np_ad p) AND 3 \<noteq> 0 then set_ad (e1000_set_itr (np_ad p)) p else p);
         p2 = p1\<lparr>np_scheduled := False\<rparr>
     in if \<not> ad_down (np_ad p2) then e1000_irq_enable p2 else p2)"

definition e1000_clean :: "nic_kernel \<Rightarrow> rx_kernel \<Rightarrow> int \<Rightarrow> nic_poll \<Rightarrow> (int \<times> nic_poll) option" where
  "e1000_clean N K budget p = do {
     (tx_complete, a) \<leftarrow> e1000_clean_tx_irq N (np_ad p);
     (c, w, s) \<leftarrow> clean_rx K 0 budget ((np_rx p)\<lparr>rx_ad := a\<rparr>);
     let work_done = (if \<not> tx_complete then budget else w);
     let p1 = p\<lparr>np_rx := s\<rparr>;
     Some (work_done, if work_done < budget then poll_done p1 else p1)
   }"

section \<open>Starting and stopping the device\<close>

definition ETH_DATA_LEN :: int where "ETH_DATA_LEN = 1500"

text \<open>The receive functions depend on the size of frames.\<close>

definition e1000_configure_rx :: "int \<Rightarrow> e1000_rx \<Rightarrow> e1000_rx" where
  "e1000_configure_rx mtu s = (
     if mtu > ETH_DATA_LEN then s\<lparr>rx_clean := Rx_jumbo, rx_alloc := Rx_jumbo\<rparr>
     else s\<lparr>rx_clean := Rx_legacy, rx_alloc := Rx_legacy\<rparr>)"

definition e1000_up :: "rx_kernel \<Rightarrow> nic_poll \<Rightarrow> nic_poll option" where
  "e1000_up K p = do {
     s \<leftarrow> e1000_configure_rx_ring K (e1000_configure_rx (np_mtu p) (np_rx p));
     let p1 = p\<lparr>np_rx := s\<lparr>rx_ad := (rx_ad s)\<lparr>ad_down := False\<rparr>\<rparr>, np_napi_on := True, np_scheduled := False\<rparr>;
     let p2 = e1000_irq_enable p1;
     Some (set_ad ((np_ad p2)\<lparr>ad_queue_stopped := False\<rparr>) p2)
   }"

text \<open>
  \<^verbatim>\<open>napi_disable\<close> waits for a poll that is scheduled: the poll runs once, with the weight the driver
  registered, and is not scheduled again even if it used its budget.
\<close>

abbreviation (input) napi_weight :: int where "napi_weight \<equiv> 64"

definition napi_disable :: "nic_kernel \<Rightarrow> rx_kernel \<Rightarrow> nic_poll \<Rightarrow> nic_poll option" where
  "napi_disable N K p = do {
     p1 \<leftarrow> (if np_scheduled p then map_option snd (e1000_clean N K napi_weight p) else Some p);
     Some (p1\<lparr>np_napi_on := False, np_scheduled := False\<rparr>)
   }"

definition e1000_down :: "nic_kernel \<Rightarrow> rx_kernel \<Rightarrow> nic_poll \<Rightarrow> nic_poll option" where
  "e1000_down N K p = do {
     p1 \<leftarrow> napi_disable N K (set_ad ((np_ad p)\<lparr>ad_carrier_ok := False, ad_queue_stopped := True\<rparr>) p);
     let p2 = e1000_irq_disable p1;
     let p3 = set_ad ((np_ad p2)\<lparr>ad_down := True, ad_link_speed := 0, ad_link_duplex := 0\<rparr>) (p2\<lparr>np_watchdog := False\<rparr>);
     a \<leftarrow> e1000_clean_tx_ring (np_ad p3);
     s \<leftarrow> e1000_clean_rx_ring ((np_rx p3)\<lparr>rx_ad := a\<rparr>);
     Some (p3\<lparr>np_rx := s\<rparr>)
   }"

definition e1000_reinit_locked :: "nic_kernel \<Rightarrow> rx_kernel \<Rightarrow> nic_poll \<Rightarrow> nic_poll option" where
  "e1000_reinit_locked N K p = Option.bind (e1000_down N K p) (e1000_up K)"

abbreviation (input) EINVAL :: int where "EINVAL \<equiv> 22"
abbreviation (input) MAX_JUMBO_FRAME_SIZE :: int where "MAX_JUMBO_FRAME_SIZE \<equiv> 0x3F00"
abbreviation (input) PAGE_SIZE :: u32 where "PAGE_SIZE \<equiv> 4096"

text \<open>The size of buffers for frames of \<open>max_frame\<close> bytes.\<close>

definition mtu_buffer_len :: "e1000_hw \<Rightarrow> int \<Rightarrow> u32" where
  "mtu_buffer_len hw max_frame = (
     if \<not> hw_tbi_compatibility_on hw \<and> (max_frame = 1518 \<or> max_frame = 1522) then 1522
     else if max_frame \<le> 2048 then 2048 else PAGE_SIZE)"

definition e1000_change_mtu :: "nic_kernel \<Rightarrow> rx_kernel \<Rightarrow> int \<Rightarrow> nic_poll \<Rightarrow> (int \<times> nic_poll) option" where
  "e1000_change_mtu N K new_mtu p = (
     let hw = ad_hw (np_ad p); max_frame = new_mtu + 14 + 4
     in if max_frame < 64 \<or> max_frame > MAX_JUMBO_FRAME_SIZE then Some (- EINVAL, p)
        else if hw_mac_type hw \<le> e1000_82542_rev2_1 \<and> max_frame > 1518 then Some (- EINVAL, p)
        else do {
          let p1 = set_ad ((np_ad p)\<lparr>ad_hw := hw\<lparr>hw_max_frame_size := word_of_int max_frame\<rparr>\<rparr>) p;
          p2 \<leftarrow> (if np_running p1 then e1000_down N K (p1\<lparr>np_rx := (np_rx p1)\<lparr>rx_alloc := Rx_dummy\<rparr>\<rparr>) else Some p1);
          let p3 = p2\<lparr>np_rx := (np_rx p2)\<lparr>rx_buffer_len := mtu_buffer_len (ad_hw (np_ad p2)) max_frame\<rparr>, np_mtu := new_mtu\<rparr>;
          p4 \<leftarrow> (if np_running p3 then e1000_up K p3 else Some p3);
          Some (0, p4)
        })"

section \<open>What the rings leave alone\<close>

definition settings where
  "settings a = (ad_hw a, ad_down a, ad_itr a, ad_tx_itr a, ad_rx_itr a)"

lemma settings_simps [simp]:
  "settings (nic_log e a) = settings a" "settings (set_buf i b a) = settings a" "settings (set_desc i d a) = settings a"
  "settings (map_tx g a) = settings a" "settings (wake_queue n a) = settings a"
  by (simp_all add: settings_def nic_log_def set_buf_def set_desc_def map_tx_def wake_queue_def)

lemma unmap_settings: "e1000_unmap_and_free_tx_resource i a = Some b \<Longrightarrow> settings b = settings a"
  by (auto simp: e1000_unmap_and_free_tx_resource_def Let_def bind_eq_Some_conv split: option.split)

lemma clean_slot_settings: "clean_slot eop l = Some l' \<Longrightarrow> settings (cl_ad l') = settings (cl_ad l)"
  by (auto simp: clean_slot_def Let_def bind_eq_Some_conv dest!: unmap_settings)

lemma clean_frame_settings: "clean_frame eop l = Some l' \<Longrightarrow> settings (cl_ad l') = settings (cl_ad l)"
  by (rule clean_frame.raw_induct [of "\<lambda>eop l l'. settings (cl_ad l') = settings (cl_ad l)"])
     (auto simp: bind_eq_Some_conv split: if_splits dest!: clean_slot_settings)

lemma clean_frames_settings: "clean_frames l = Some (eop, l') \<Longrightarrow> settings (cl_ad l') = settings (cl_ad l)"
proof -
  have "clean_frames l = Some r \<Longrightarrow> settings (cl_ad (snd r)) = settings (cl_ad l)" for r
    by (rule clean_frames.raw_induct [of "\<lambda>l r. settings (cl_ad (snd r)) = settings (cl_ad l)"])
       (auto simp: bind_eq_Some_conv split: if_splits dest!: clean_frame_settings)
  then show "clean_frames l = Some (eop, l') \<Longrightarrow> settings (cl_ad l') = settings (cl_ad l)" by fastforce
qed

lemma clean_tx_settings: "e1000_clean_tx_irq N a = Some (r, b) \<Longrightarrow> settings b = settings a"
proof -
  have d: "settings c = settings a" if h: "detect_hang N eop a = Some c" for eop a c
  proof (cases "ad_detect_tx_hung a")
    case True
    let ?b = "a\<lparr>ad_detect_tx_hung := False\<rparr>"
    obtain bi where bi: "get_buf eop ?b = Some bi" using h True by (cases "get_buf eop ?b") (simp_all add: detect_hang_def Let_def)
    have "settings (?b\<lparr>ad_queue_stopped := True\<rparr>) = settings a" "settings ?b = settings a" by (simp_all add: settings_def)
    then show ?thesis using h True bi unfolding detect_hang_def Let_def
      by (simp only: simp_thms if_False Option.bind.simps option.inject) (metis (no_types))
  qed (use h in \<open>simp add: detect_hang_def\<close>)
  have t: "settings (a\<lparr>ad_total_tx_bytes := x, ad_total_tx_packets := y, ad_stat_tx_bytes := z, ad_stat_tx_packets := w\<rparr>) = settings a"
    for a x y z w by (simp add: settings_def)
  assume "e1000_clean_tx_irq N a = Some (r, b)"
  then show ?thesis
    by (auto simp: e1000_clean_tx_irq_def Let_def bind_eq_Some_conv t dest!: clean_frames_settings d)
qed

lemma clean_tx_ring_settings: "e1000_clean_tx_ring a = Some b \<Longrightarrow> settings b = settings a"
proof -
  have "free_slots n a = Some b \<Longrightarrow> settings b = settings a" for n b
    by (induction n arbitrary: b) (auto simp: bind_eq_Some_conv dest: unmap_settings)
  then show "e1000_clean_tx_ring a = Some b \<Longrightarrow> settings b = settings a"
    by (auto simp: e1000_clean_tx_ring_def bind_eq_Some_conv)
qed

lemma rx_env_ad:
  "rx_env t = rx_env s \<Longrightarrow> settings (rx_ad t) = settings (rx_ad s) \<and> ad_tx_ring (rx_ad t) = ad_tx_ring (rx_ad s)
     \<and> ad_log (rx_ad t) = ad_log (rx_ad s) \<and> rx_clean t = rx_clean s \<and> rx_alloc t = rx_alloc s"
  by (simp add: rx_env_def settings_def)

text \<open>
  What the receive ring depends on: apart from the ring itself only on the size of buffers, and when
  it is empty not even on that.
\<close>

lemma rx_ok_cong:
  assumes s: "rx_ok s q" and r: "rx_ring t = rx_ring s" and l: "rx_log t = rx_log s" "rx_napi t = rx_napi s"
    and f: "rx_alloc t \<noteq> Rx_jumbo" and b: "rx_buffer_len t = rx_buffer_len s \<or> q = []"
  shows "rx_ok t q"
proof -
  from s obtain h m where w: "rx_win s h m" "rr_next_to_clean (rx_ring s) = slot (rr_count (rx_ring s)) h" "rx_queue s h = q" "in_order s h"
    by (auto simp: rx_ok_def)
  note a = rx_arrays_cong [OF r]
  have i: "rx_item t = rx_item s" by (intro ext) (simp add: rx_item_def a)
  have z: "rx_size t = rx_size s" by (simp add: rx_size_def r)
  have win: "rx_win t = rx_win s" by (intro ext) (simp add: rx_win_def a z r)
  have qu: "rx_queue t = rx_queue s" by (intro ext) (simp add: rx_queue_def i z)
  have o: "in_order t = in_order s" by (intro ext) (simp add: in_order_def qu a z)
  have "all_fit t"
    using b
  proof
    assume "rx_buffer_len t = rx_buffer_len s"
    then show ?thesis using s by (simp add: rx_ok_def all_fit_def a i rx_fits_def frag_room_def)
  next
    assume q: "q = []"
    have pos: "0 < rx_size s" using w(1) by (simp add: rx_win_def rx_size_positive)
    have "\<not> rx_done (rdesc s k)" for k
    proof -
      define j where "j = (k + (rx_size s - h mod rx_size s)) mod rx_size s"
      have "(h + j) mod rx_size s = (h mod rx_size s + (k + (rx_size s - h mod rx_size s))) mod rx_size s"
        unfolding j_def by (metis mod_add_eq mod_mod_trivial)
      also have "\<dots> = (k + rx_size s) mod rx_size s" using pos by (metis add.left_commute le_add_diff_inverse less_imp_le mod_less_divisor)
      finally have "rdesc s (h + j) = rdesc s k" by (simp add: rdesc_def)
      moreover have "\<not> rx_done (rdesc s (h + j))" using w(3,4) pos q by (simp add: in_order_def j_def)
      ultimately show ?thesis by simp
    qed
    then show ?thesis by (simp add: all_fit_def a)
  qed
  moreover have "balanced t = balanced s" by (simp add: balanced_def held_def r l)
  ultimately show ?thesis using s w f unfolding rx_ok_def win qu o r l by auto
qed

lemma rx_ok_ad: "rx_ok s q \<Longrightarrow> rx_ok (s\<lparr>rx_ad := a\<rparr>) q"
  by (rule rx_ok_cong) (auto simp: rx_ok_def)

section \<open>Polling\<close>

lemma set_itr_keeps:
  "ad_tx_ring (e1000_set_itr a) = ad_tx_ring a" "ad_hw (e1000_set_itr a) = ad_hw a" "ad_down (e1000_set_itr a) = ad_down a"
  by (simp_all add: e1000_set_itr_def change_itr_def nic_log_def Let_def)

lemma set_itr_frees: "freed_ids (ad_log (e1000_set_itr a)) = freed_ids (ad_log a)"
  by (simp add: e1000_set_itr_def change_itr_def nic_log_def Let_def)

lemma np_ad_set [simp]: "np_ad (set_ad a p) = a" "np_ad (p\<lparr>np_rx := s\<rparr>) = rx_ad s"
  by (simp_all add: np_ad_def set_ad_def)

lemma poll_done_same:
  "np_rx (poll_done p) = (np_rx p)\<lparr>rx_ad := np_ad (poll_done p)\<rparr>"
  "np_ad (poll_done p) = e1000_set_itr (np_ad p) \<or> np_ad (poll_done p) = np_ad p"
  "\<not> np_scheduled (poll_done p)" "np_napi_on (poll_done p) = np_napi_on p" "np_running (poll_done p) = np_running p"
  "np_mtu (poll_done p) = np_mtu p" "np_irq_on (poll_done p) \<longleftrightarrow> np_irq_on p \<or> \<not> ad_down (np_ad p)"
  by (auto simp: poll_done_def Let_def e1000_irq_enable_def set_ad_def np_ad_def set_itr_keeps)

lemma poll_done_keeps:
  "ad_down (np_ad (poll_done p)) = ad_down (np_ad p)" "ad_tx_ring (np_ad (poll_done p)) = ad_tx_ring (np_ad p)"
  "ad_hw (np_ad (poll_done p)) = ad_hw (np_ad p)" "freed_ids (ad_log (np_ad (poll_done p))) = freed_ids (ad_log (np_ad p))"
  "rate_ok (np_ad p) \<Longrightarrow> rate_ok (np_ad (poll_done p))"
  using poll_done_same(2) [of p] set_itr_keeps set_itr_frees itr_stays_bounded by metis+

lemma rx_spec_ad:
  assumes "ad_hw a = ad_hw (rx_ad s)"
  shows "rx_spec (s\<lparr>rx_ad := a\<rparr>) = rx_spec s"
proof -
  let ?s = "s\<lparr>rx_ad := a\<rparr>"
  have "rx_accept ?s = rx_accept s" "rx_frame_of ?s = rx_frame_of s"
    using assms by (simp_all add: fun_eq_iff rx_accept_def rx_frame_of_def csum_good_def Let_def)
  then have "rx_spec ?s disc xs = rx_spec s disc xs" for disc xs
    by (induction xs arbitrary: disc) (simp_all split: option.split)
  then show ?thesis by (intro ext)
qed

text \<open>A poll reclaims the frames that were sent and hands over the oldest frames received.\<close>

definition polled :: "rx_kernel \<Rightarrow> int \<Rightarrow> nic_poll \<Rightarrow> flight list \<Rightarrow> rx_item list \<Rightarrow> nat \<Rightarrow> int \<Rightarrow> nic_poll \<Rightarrow> bool" where
  "polled K b p fs q k w t \<longleftrightarrow> k \<le> length q
     \<and> ring_ok (np_ad t) (dropWhile sent fs)
     \<and> freed_ids (ad_log (np_ad t)) = freed_ids (ad_log (np_ad p)) @ ids (takeWhile sent fs)
     \<and> rx_ok (np_rx t) (drop k q)
     \<and> (delivered (np_rx t), rx_discarding (np_rx t)) = apfst ((@) (delivered (np_rx p))) (rx_spec (np_rx p) (rx_discarding (np_rx p)) (take k q))
     \<and> (w = int k \<and> (k = length q \<or> b \<le> int k) \<or> w = int k + 1 \<and> w \<le> b \<and> (\<exists>j. \<not> rk_skb K j)) \<and> w \<le> max b 0
     \<and> (if w < b then \<not> np_scheduled t \<and> (np_irq_on t \<or> ad_down (np_ad t)) else np_scheduled t = np_scheduled p \<and> np_irq_on t = np_irq_on p)"

lemma clean_ends:
  assumes tx: "ring_ok (np_ad p) fs" and rx: "rx_ok (np_rx p) q" and c: "rx_clean (np_rx p) \<noteq> Rx_jumbo"
  shows "\<exists>k w t. e1000_clean N K b p = Some (w, t) \<and> polled K b p fs q k w t \<and> ad_down (np_ad t) = ad_down (np_ad p)
    \<and> ad_hw (np_ad t) = ad_hw (np_ad p) \<and> (rate_ok (np_ad p) \<longrightarrow> rate_ok (np_ad t)) \<and> rx_clean (np_rx t) = rx_clean (np_rx p)
    \<and> np_napi_on t = np_napi_on p \<and> np_running t = np_running p \<and> np_mtu t = np_mtu p"
proof -
  from clean_tx_irq_result [OF tx, of N] obtain a where a: "e1000_clean_tx_irq N (np_ad p) = Some (True, a)"
    "ring_ok a (dropWhile sent fs)" "freed_ids (ad_log a) = freed_ids (ad_log (np_ad p)) @ ids (takeWhile sent fs)" by blast
  have sa: "settings a = settings (np_ad p)" by (rule clean_tx_settings [OF a(1)])
  let ?s = "(np_rx p)\<lparr>rx_ad := a\<rparr>"
  have "rx_ok ?s q" by (rule rx_ok_ad [OF rx])
  from clean_rx_irq_ends [OF this, of K b] obtain k cl w s where
    s: "e1000_clean_rx_irq K 0 b ?s = Some (cl, w, s)" "k \<le> length q" "rx_ok s (drop k q)" "rx_env s = rx_env ?s"
    "delivered s = delivered ?s @ fst (rx_spec ?s (rx_discarding ?s) (take k q))"
    "rx_discarding s = snd (rx_spec ?s (rx_discarding ?s) (take k q))"
    "w = int k \<and> (k = length q \<or> b \<le> int k) \<or> w = int k + 1 \<and> w \<le> b \<and> (\<exists>j. \<not> rk_skb K j)" "w \<le> max b 0" by blast
  have sp: "rx_spec ?s = rx_spec (np_rx p)" using sa by (intro rx_spec_ad) (simp add: settings_def np_ad_def)
  have dl: "(delivered s, rx_discarding s) = apfst ((@) (delivered (np_rx p))) (rx_spec (np_rx p) (rx_discarding (np_rx p)) (take k q))"
    using s(5,6) unfolding sp by (simp add: delivered_def apfst_def map_prod_def split_def)
  have e: "settings (rx_ad s) = settings (np_ad p)" "ad_tx_ring (rx_ad s) = ad_tx_ring a" "ad_log (rx_ad s) = ad_log a"
    "rx_clean s = rx_clean (np_rx p)"
    using rx_env_ad [OF s(4)] sa by simp_all
  let ?p = "p\<lparr>np_rx := s\<rparr>"
  define t where "t = (if w < b then poll_done ?p else ?p)"
  have "e1000_clean N K b p = Some (w, t)" using a(1) s(1) c by (simp add: e1000_clean_def clean_rx_def t_def)
  moreover have "ad_tx_ring (np_ad t) = ad_tx_ring a" "freed_ids (ad_log (np_ad t)) = freed_ids (ad_log a)"
    "ad_down (np_ad t) = ad_down (np_ad p)" "ad_hw (np_ad t) = ad_hw (np_ad p)" "rate_ok (np_ad p) \<longrightarrow> rate_ok (np_ad t)"
    using e poll_done_keeps [of ?p] by (auto simp: t_def settings_def rate_ok_def)
  moreover have "np_rx t = s\<lparr>rx_ad := np_ad t\<rparr>" "np_napi_on t = np_napi_on p" "np_running t = np_running p" "np_mtu t = np_mtu p"
    using poll_done_same [of ?p] by (auto simp: t_def np_ad_def)
  moreover have "if w < b then \<not> np_scheduled t \<and> (np_irq_on t \<or> ad_down (np_ad t)) else np_scheduled t = np_scheduled p \<and> np_irq_on t = np_irq_on p"
    using poll_done_same [of ?p] poll_done_keeps(1) [of ?p] by (simp add: t_def)
  ultimately show ?thesis
    using s(2,3,7,8) a(2,3) dl e(4) ring_ok_same [of "np_ad t" a] rx_ok_ad [OF s(3), of "np_ad t"]
    by (intro exI [of _ k] exI [of _ w] exI [of _ t]) (simp add: polled_def delivered_def)
qed

section \<open>Going down and up\<close>

lemma napi_disable_ends:
  assumes tx: "ring_ok (np_ad p) fs" and rx: "rx_ok (np_rx p) q" and c: "rx_clean (np_rx p) \<noteq> Rx_jumbo"
  shows "\<exists>gone left k u. napi_disable N K p = Some u \<and> fs = gone @ left \<and> ring_ok (np_ad u) left
    \<and> freed_ids (ad_log (np_ad u)) = freed_ids (ad_log (np_ad p)) @ ids gone
    \<and> rx_ok (np_rx u) (drop k q) \<and> ad_hw (np_ad u) = ad_hw (np_ad p) \<and> (rate_ok (np_ad p) \<longrightarrow> rate_ok (np_ad u))
    \<and> rx_clean (np_rx u) = rx_clean (np_rx p) \<and> np_running u = np_running p \<and> np_mtu u = np_mtu p"
proof (cases "np_scheduled p")
  case True
  from clean_ends [OF assms, of N K napi_weight] obtain k w t where t: "e1000_clean N K napi_weight p = Some (w, t)"
    "polled K napi_weight p fs q k w t" "ad_hw (np_ad t) = ad_hw (np_ad p)" "rate_ok (np_ad p) \<longrightarrow> rate_ok (np_ad t)"
    "rx_clean (np_rx t) = rx_clean (np_rx p)" "np_running t = np_running p" "np_mtu t = np_mtu p" by blast
  then show ?thesis
    using True by (intro exI [of _ "takeWhile sent fs"] exI [of _ "dropWhile sent fs"] exI [of _ k]
      exI [of _ "t\<lparr>np_napi_on := False, np_scheduled := False\<rparr>"]) (simp add: napi_disable_def polled_def np_ad_def)
next
  case False
  then show ?thesis
    using assms by (intro exI [of _ "[]"] exI [of _ fs] exI [of _ 0]
      exI [of _ "p\<lparr>np_napi_on := False, np_scheduled := False\<rparr>"]) (simp add: napi_disable_def np_ad_def)
qed

lemma down_ends:
  assumes tx: "ring_ok (np_ad p) fs" and rx: "rx_ok (np_rx p) q" and c: "rx_clean (np_rx p) \<noteq> Rx_jumbo"
  shows "\<exists>gone t. e1000_down N K p = Some t \<and> ring_ok (np_ad t) [] \<and> rx_ok (np_rx t) [] \<and> held (np_rx t) = {#}
    \<and> freed_ids (ad_log (np_ad t)) = freed_ids (ad_log (np_ad p)) @ gone \<and> mset gone = mset (ids fs)
    \<and> ad_down (np_ad t) \<and> ad_hw (np_ad t) = ad_hw (np_ad p)
    \<and> (rate_ok (np_ad p) \<longrightarrow> rate_ok (np_ad t)) \<and> rx_clean (np_rx t) = rx_clean (np_rx p)
    \<and> np_running t = np_running p \<and> np_mtu t = np_mtu p \<and> \<not> np_irq_on t \<and> \<not> np_scheduled t"
proof -
  let ?p = "set_ad ((np_ad p)\<lparr>ad_carrier_ok := False, ad_queue_stopped := True\<rparr>) p"
  have p: "ring_ok (np_ad ?p) fs" "rx_ok (np_rx ?p) q" "rx_clean (np_rx ?p) \<noteq> Rx_jumbo" "ad_log (np_ad ?p) = ad_log (np_ad p)"
    "ad_hw (np_ad ?p) = ad_hw (np_ad p)" "rate_ok (np_ad ?p) = rate_ok (np_ad p)" "rx_clean (np_rx ?p) = rx_clean (np_rx p)"
    "np_running ?p = np_running p" "np_mtu ?p = np_mtu p"
    using tx c ring_ok_same [of "np_ad ?p" "np_ad p"] rx_ok_ad [OF rx] by (simp_all add: set_ad_def np_ad_def rate_ok_def)
  from napi_disable_ends [OF p(1-3), of N K] obtain g left k u where u: "napi_disable N K ?p = Some u" "fs = g @ left"
    "ring_ok (np_ad u) left" "freed_ids (ad_log (np_ad u)) = freed_ids (ad_log (np_ad ?p)) @ ids g" "rx_ok (np_rx u) (drop k q)"
    "ad_hw (np_ad u) = ad_hw (np_ad ?p)" "rate_ok (np_ad ?p) \<longrightarrow> rate_ok (np_ad u)" "rx_clean (np_rx u) = rx_clean (np_rx ?p)"
    "np_running u = np_running ?p" "np_mtu u = np_mtu ?p" by blast
  have sch: "\<not> np_scheduled u" using u(1) by (auto simp: napi_disable_def bind_eq_Some_conv)
  define a where "a = (np_ad u)\<lparr>ad_down := True, ad_link_speed := 0, ad_link_duplex := 0\<rparr>"
  have a: "ring_ok a left" "ad_log a = ad_log (np_ad u)" "ad_down a" "ad_hw a = ad_hw (np_ad u)" "rate_ok a = rate_ok (np_ad u)"
    using u(3) ring_ok_same [of a "np_ad u"] by (simp_all add: a_def rate_ok_def)
  from clean_tx_ring_result [OF a(1)] obtain b h where
    b: "e1000_clean_tx_ring a = Some b" "ring_ok b []" "freed_ids (ad_log b) = freed_ids (ad_log a) @ h" "mset h = mset (ids left)" by blast
  have sb: "settings b = settings a" by (rule clean_tx_ring_settings [OF b(1)])
  let ?s = "(np_rx u)\<lparr>rx_ad := b\<rparr>"
  from clean_rx_ring_ends [OF rx_ok_ad [OF u(5)]] obtain s where
    s: "e1000_clean_rx_ring ?s = Some s" "rx_ok s []" "rx_env s = rx_env ?s" "held s = {#}" by blast
  note e = rx_env_ad [OF s(3)]
  let ?t = "u\<lparr>np_irq_on := False, np_watchdog := False, np_rx := s\<rparr>"
  have "e1000_down N K p = Some ?t"
    using u(1) b(1) s(1) by (simp add: e1000_down_def a_def e1000_irq_disable_def set_ad_def np_ad_def Let_def)
  moreover have "ring_ok (np_ad ?t) []" using b(2) e ring_ok_same [of "rx_ad s" b] by simp
  moreover have "ad_down (np_ad ?t)" "ad_hw (np_ad ?t) = ad_hw (np_ad p)" "rate_ok (np_ad p) \<longrightarrow> rate_ok (np_ad ?t)"
    using e sb a u(6,7) p by (simp_all add: settings_def rate_ok_def)
  moreover have "freed_ids (ad_log (np_ad ?t)) = freed_ids (ad_log (np_ad p)) @ ids g @ h" "mset (ids g @ h) = mset (ids fs)"
    using e a(2) b(3,4) u(2,4) p(4) by simp_all
  ultimately show ?thesis using s e sch u p by (intro exI [of _ "ids g @ h"] exI [of _ ?t]) simp
qed

lemma up_ends:
  assumes tx: "ring_ok (np_ad p) fs" and rx: "rx_ok (np_rx p) q" and m: "np_mtu p \<le> ETH_DATA_LEN"
  shows "\<exists>t. e1000_up K p = Some t \<and> ring_ok (np_ad t) fs \<and> rx_ok (np_rx t) q \<and> rx_clean (np_rx t) \<noteq> Rx_jumbo
    \<and> freed_ids (ad_log (np_ad t)) = freed_ids (ad_log (np_ad p)) \<and> delivered (np_rx t) = delivered (np_rx p)
    \<and> rx_buffer_len (np_rx t) = rx_buffer_len (np_rx p)
    \<and> \<not> ad_down (np_ad t) \<and> ad_hw (np_ad t) = ad_hw (np_ad p) \<and> rate_ok (np_ad t) = rate_ok (np_ad p)
    \<and> np_running t = np_running p \<and> np_mtu t = np_mtu p \<and> np_irq_on t \<and> np_napi_on t"
proof -
  let ?s = "(np_rx p)\<lparr>rx_clean := Rx_legacy, rx_alloc := Rx_legacy\<rparr>"
  have c: "e1000_configure_rx (np_mtu p) (np_rx p) = ?s" using m by (simp add: e1000_configure_rx_def)
  have "rx_ok ?s q" by (rule rx_ok_cong [OF rx]) simp_all
  from alloc_ok [OF this, of K] obtain s where
    s: "e1000_configure_rx_ring K ?s = Some s" "rx_ok s q" "posted ?s s" by (auto simp: e1000_configure_rx_ring_def)
  have env: "rx_env s = rx_env ?s" "skb_events (rx_log s) = skb_events (rx_log ?s)" using s(3) by (simp_all add: posted_def2)
  note e = rx_env_ad [OF env(1)]
  have bl: "rx_buffer_len s = rx_buffer_len (np_rx p)" using env(1) by (simp add: rx_env_def)
  let ?a = "(rx_ad s)\<lparr>ad_down := False, ad_queue_stopped := False\<rparr>"
  let ?t = "p\<lparr>np_rx := s\<lparr>rx_ad := ?a\<rparr>, np_napi_on := True, np_scheduled := False, np_irq_on := True\<rparr>"
  have "e1000_up K p = Some ?t"
    using s(1) unfolding e1000_up_def c by (simp add: e1000_irq_enable_def set_ad_def np_ad_def Let_def)
  moreover have "ring_ok (np_ad ?t) fs" using tx e ring_ok_same [of ?a "np_ad p"] by (simp add: np_ad_def)
  moreover have "rx_ok (np_rx ?t) q" using rx_ok_ad [OF s(2)] by simp
  moreover have "delivered (np_rx ?t) = delivered (np_rx p)" using env(2) by (simp add: delivered_def)
  moreover have "freed_ids (ad_log (np_ad ?t)) = freed_ids (ad_log (np_ad p))" "ad_hw (np_ad ?t) = ad_hw (np_ad p)"
    "rate_ok (np_ad ?t) = rate_ok (np_ad p)" "rx_clean (np_rx ?t) \<noteq> Rx_jumbo"
    "\<not> ad_down (np_ad ?t)"
    using e by (simp_all add: np_ad_def settings_def rate_ok_def)
  ultimately show ?thesis using bl by (intro exI [of _ ?t]) simp
qed

text \<open>
  With large frames the ring is filled with pages. This returns from every state with sound arrays,
  and changes neither the settings nor the transmit side.
\<close>

lemma rx_parts_same:
  "rx_env (set_rbuf i b s) = rx_env s" "rx_env (set_rdesc i d s) = rx_env s" "rx_env (rx_event e s) = rx_env s"
  "rx_env (rx_failure s) = rx_env s" "rx_env (s\<lparr>rx_frag_next := x\<rparr>) = rx_env s"
  "rx_env (s\<lparr>rx_ad := (rx_ad s)\<lparr>ad_dma_next := x\<rparr>\<rparr>) = rx_env s"
  "rx_arrays (set_rbuf i b s) = rx_arrays s" "rx_arrays (set_rdesc i d s) = rx_arrays s" "rx_arrays (rx_event e s) = rx_arrays s"
  "rx_arrays (rx_failure s) = rx_arrays s" "rx_arrays (s\<lparr>rx_frag_next := x\<rparr>) = rx_arrays s"
  "rx_arrays (s\<lparr>rx_ad := a\<rparr>) = rx_arrays s"
  by (simp_all add: rx_env_def rx_arrays_def rx_size_def set_rbuf_def set_rdesc_def map_rx_def rx_event_def rx_failure_def)

lemma jumbo_slot_returns:
  assumes s: "rx_arrays s" and c: "c = rr_count (rx_ring s)"
  shows "\<exists>ok t. jumbo_slot K (slot c m) s = Some (ok, t) \<and> rx_arrays t \<and> rx_env t = rx_env s"
proof -
  have g: "\<exists>b. get_rbuf (slot c m) u = Some b" "\<exists>d. get_rdesc (slot c m) u = Some d" if "rx_arrays u" "rx_env u = rx_env s" for u
    using get_rx_slot [OF that(1), of c m] rx_env_parts(4) [OF that(2)] c by simp_all
  have fin: "\<exists>ok t. (do { d \<leftarrow> get_rdesc (slot c m) u; b \<leftarrow> get_rbuf (slot c m) u;
      Some (True, set_rdesc (slot c m) (d\<lparr>rd_buffer_addr := rb_dma b\<rparr>) u) }) = Some (ok, t) \<and> rx_arrays t \<and> rx_env t = rx_env s"
    if "rx_arrays u" "rx_env u = rx_env s" for u
    using g [OF that] that by (auto simp: rx_parts_same)
  from g(1) [OF s refl] obtain b where b: "get_rbuf (slot c m) s = Some b" by blast
  define pu where "pu = (if rb_data b \<noteq> None then (rb_data b, s)
       else case rk_frag K (rx_frag_next s) of
           None \<Rightarrow> (None, s\<lparr>rx_frag_next := Suc (rx_frag_next s)\<rparr>)
         | Some p \<Rightarrow> (Some p, set_rbuf (slot c m) (b\<lparr>rb_data := Some p\<rparr>)
             (rx_event (Frag_alloc p) (s\<lparr>rx_frag_next := Suc (rx_frag_next s)\<rparr>))))"
  obtain page u where pu: "pu = (page, u)" by (cases pu)
  have u: "rx_arrays u" "rx_env u = rx_env s"
    using pu s by (auto simp: pu_def Let_def rx_parts_same split: if_splits option.splits)
  from g(1) [OF u] obtain b1 where b1: "get_rbuf (slot c m) u = Some b1" by blast
  note def = jumbo_slot_def [of K "slot c m" s, unfolded b Option.bind.simps Let_def, folded pu_def, unfolded pu prod.case]
  show ?thesis
  proof (cases page)
    case None
    then show ?thesis unfolding def using u by (intro exI [of _ False] exI [of _ "rx_failure u"]) (simp add: rx_parts_same)
  next
    case (Some q)
    show ?thesis
    proof (cases "rb_dma b1 \<noteq> 0")
      case True
      then show ?thesis unfolding def using Some b1 fin [OF u] by (simp add: split_def)
    next
      case F: False
      let ?t = "u\<lparr>rx_ad := (rx_ad u)\<lparr>ad_dma_next := Suc (ad_dma_next (rx_ad u))\<rparr>\<rparr>"
      let ?d = "rk_dma K (ad_dma_next (rx_ad u))"
      let ?v = "set_rbuf (slot c m) (b1\<lparr>rb_dma := fst ?d\<rparr>) (rx_event (Rx_map (fst ?d)) ?t)"
      have v: "rx_arrays ?v" "rx_env ?v = rx_env s" using u by (simp_all add: rx_parts_same)
      show ?thesis unfolding def using Some F b1 fin [OF v] u by (cases "snd ?d") (auto simp: split_def rx_parts_same)
    qed
  qed
qed

lemma jumbo_refill_returns:
  assumes "rx_arrays s" and "c = rr_count (rx_ring s)"
  shows "\<exists>i t. refill (jumbo_slot K) n (slot c m) s = Some (i, t) \<and> rx_arrays t \<and> rx_env t = rx_env s"
  using assms
proof (induction n arbitrary: m s)
  case (Suc n)
  from jumbo_slot_returns [OF Suc.prems, of K m] obtain ok t where
    t: "jumbo_slot K (slot c m) s = Some (ok, t)" "rx_arrays t" "rx_env t = rx_env s" by blast
  have c: "c = rr_count (rx_ring t)" "c \<noteq> 0" using rx_env_parts(4) [OF t(3)] t(2) Suc.prems(2) by (simp_all add: rx_arrays_def)
  from Suc.IH [OF t(2) c(1), of "Suc m"] show ?case using t ring_next_slot [OF c(2), of m] c(1) by (cases ok) simp_all
qed simp

lemma jumbo_up_returns:
  assumes a: "rx_arrays (np_rx p)" and u: "rr_next_to_use (rx_ring (np_rx p)) = slot (rr_count (rx_ring (np_rx p))) m"
    and m: "ETH_DATA_LEN < np_mtu p"
  shows "\<exists>t. e1000_up K p = Some t \<and> \<not> ad_down (np_ad t) \<and> np_irq_on t \<and> np_mtu t = np_mtu p \<and> ad_hw (np_ad t) = ad_hw (np_ad p)
    \<and> rx_clean (np_rx t) = Rx_jumbo \<and> rx_alloc (np_rx t) = Rx_jumbo \<and> rx_buffer_len (np_rx t) = rx_buffer_len (np_rx p)"
proof -
  let ?s = "(np_rx p)\<lparr>rx_clean := Rx_jumbo, rx_alloc := Rx_jumbo\<rparr>"
  have c: "e1000_configure_rx (np_mtu p) (np_rx p) = ?s" using m by (simp add: e1000_configure_rx_def)
  have "rx_arrays ?s" using a by (simp add: rx_arrays_def rx_size_def)
  from jumbo_refill_returns [OF this refl, of K "unat (rx_unused ?s)" m] obtain i s where
    s: "refill (jumbo_slot K) (unat (rx_unused ?s)) (rr_next_to_use (rx_ring ?s)) ?s = Some (i, s)" "rx_env s = rx_env ?s"
    using u by auto
  let ?v = "publish i s"
  have v: "e1000_configure_rx_ring K ?s = Some ?v" "rx_env ?v = rx_env ?s"
    using s by (simp_all add: e1000_configure_rx_ring_def alloc_rx_buf_def e1000_alloc_jumbo_rx_buffers_def publish_same)
  then show ?thesis
    unfolding e1000_up_def c
    by (simp add: e1000_irq_enable_def set_ad_def np_ad_def Let_def) (simp add: rx_env_def)
qed

section \<open>The whole driver\<close>

text \<open>
  The steps between \<^verbatim>\<open>e1000_open\<close> and \<^verbatim>\<open>e1000_close\<close>, with frames of the usual size: the device
  is never configured for more than 1500 bytes, so that the receive routine is the legacy one. (With
  larger frames the routine is another, which this machine does not contain.) Interrupts may be
  shared, so the handler runs at any time; a poll runs when it was scheduled; the device comes up
  when it is down. \<open>Transmit\<close> stands for what the other machine does: the transmit ring stays a queue
  and the settings are left alone.
\<close>

inductive driver_step :: "nic_kernel \<Rightarrow> rx_kernel \<Rightarrow> nic_poll \<Rightarrow> nic_poll \<Rightarrow> bool" for N K where
  Interrupt: "driver_step N K p (snd (e1000_intr icr p))"
| Poll: "np_scheduled p \<Longrightarrow> e1000_clean N K budget p = Some (w, t) \<Longrightarrow> driver_step N K p t"
| Filled: "rx_write_back d m (np_rx p) = Some s \<Longrightarrow> driver_step N K p (p\<lparr>np_rx := s\<rparr>)"
| Transmit: "ring_ok a gs \<Longrightarrow> settings a = settings (np_ad p) \<Longrightarrow> driver_step N K p (set_ad a p)"
| Up: "ad_down (np_ad p) \<Longrightarrow> \<not> np_scheduled p \<Longrightarrow> e1000_up K p = Some t \<Longrightarrow> driver_step N K p t"
| Down: "e1000_down N K p = Some t \<Longrightarrow> driver_step N K p t"
| Mtu: "new_mtu \<le> ETH_DATA_LEN \<Longrightarrow> e1000_change_mtu N K new_mtu p = Some (r, t) \<Longrightarrow> driver_step N K p t"

definition awake :: "nic_poll \<Rightarrow> bool" where
  "awake p \<longleftrightarrow> ad_down (np_ad p) \<or> np_irq_on p \<or> np_scheduled p"

definition driver_ok :: "nic_poll \<Rightarrow> bool" where
  "driver_ok p \<longleftrightarrow> (\<exists>fs. ring_ok (np_ad p) fs) \<and> rx_sound (np_rx p) \<and> rx_clean (np_rx p) \<noteq> Rx_jumbo
     \<and> np_mtu p \<le> ETH_DATA_LEN \<and> np_running p \<and> rate_ok (np_ad p) \<and> awake p"

definition driver_start :: "nic_poll \<Rightarrow> bool" where
  "driver_start p \<longleftrightarrow> ring_ok (np_ad p) [] \<and> rx_start (np_rx p) \<and> rx_clean (np_rx p) \<noteq> Rx_jumbo \<and> np_mtu p \<le> ETH_DATA_LEN
     \<and> np_running p \<and> rate_ok (np_ad p) \<and> ad_down (np_ad p) \<and> \<not> np_scheduled p"

lemma intr_keeps:
  assumes "driver_ok p"
  shows "driver_ok (snd (e1000_intr icr p))"
proof -
  let ?t = "snd (e1000_intr icr p)"
  have "np_rx ?t = (np_rx p)\<lparr>rx_ad := np_ad ?t\<rparr>" "np_mtu ?t = np_mtu p" "np_running ?t = np_running p"
    "ad_tx_ring (np_ad ?t) = ad_tx_ring (np_ad p)" "rate_ok (np_ad ?t) = rate_ok (np_ad p)" "awake p \<longrightarrow> awake ?t"
    by (auto simp: e1000_intr_def Let_def e1000_irq_disable_def e1000_irq_enable_def set_ad_def np_ad_def rate_ok_def awake_def)
  then show ?thesis
    using assms ring_ok_same [of "np_ad ?t" "np_ad p"] rx_ok_ad [of "np_rx p" _ "np_ad ?t"]
    by (auto simp: driver_ok_def rx_sound_def)
qed

text \<open>The sizes of frames the device is not configured for.\<close>

definition mtu_refused :: "e1000_hw \<Rightarrow> int \<Rightarrow> bool" where
  "mtu_refused hw mtu \<longleftrightarrow> mtu + 18 < 64 \<or> MAX_JUMBO_FRAME_SIZE < mtu + 18 \<or> hw_mac_type hw \<le> e1000_82542_rev2_1 \<and> 1518 < mtu + 18"

lemma change_mtu_refused: "mtu_refused (ad_hw (np_ad p)) mtu \<Longrightarrow> e1000_change_mtu N K mtu p = Some (- EINVAL, p)"
  by (auto simp: e1000_change_mtu_def mtu_refused_def Let_def)

lemma mtu_fits: "mtu + 18 \<le> uint (mtu_buffer_len hw (mtu + 18)) \<or> mtu_buffer_len hw (mtu + 18) = PAGE_SIZE \<and> ETH_DATA_LEN < mtu"
  by (auto simp: mtu_buffer_len_def ETH_DATA_LEN_def)

lemma change_mtu_ends:
  assumes ok: "driver_ok p" and lim: "\<not> mtu_refused (ad_hw (np_ad p)) mtu"
  shows "\<exists>t. e1000_change_mtu N K mtu p = Some (0, t) \<and> (mtu \<le> ETH_DATA_LEN \<longrightarrow> driver_ok t) \<and> np_mtu t = mtu
      \<and> \<not> ad_down (np_ad t) \<and> np_irq_on t
      \<and> uint (hw_max_frame_size (ad_hw (np_ad t))) = mtu + 18
      \<and> (mtu + 18 \<le> uint (rx_buffer_len (np_rx t)) \<or> rx_buffer_len (np_rx t) = PAGE_SIZE \<and> ETH_DATA_LEN < mtu)
      \<and> (rx_clean (np_rx t) = Rx_jumbo \<longleftrightarrow> ETH_DATA_LEN < mtu)"
proof -
  have lim': "64 \<le> mtu + 18" "mtu + 18 \<le> MAX_JUMBO_FRAME_SIZE" "\<not> (hw_mac_type (ad_hw (np_ad p)) \<le> e1000_82542_rev2_1 \<and> 1518 < mtu + 18)"
    using lim by (auto simp: mtu_refused_def)
  let ?h = "(ad_hw (np_ad p))\<lparr>hw_max_frame_size := word_of_int (mtu + 18)\<rparr>"
  let ?p = "(set_ad ((np_ad p)\<lparr>ad_hw := ?h\<rparr>) p)\<lparr>np_rx := (np_rx (set_ad ((np_ad p)\<lparr>ad_hw := ?h\<rparr>) p))\<lparr>rx_alloc := Rx_dummy\<rparr>\<rparr>"
  from ok obtain fs q where o: "ring_ok (np_ad p) fs" "rx_ok (np_rx p) q" "np_running p" "rate_ok (np_ad p)" "rx_clean (np_rx p) \<noteq> Rx_jumbo"
    by (auto simp: driver_ok_def rx_sound_def)
  have "ring_ok (np_ad ?p) fs" using o ring_ok_same [of "np_ad ?p" "np_ad p"] by (simp add: set_ad_def)
  moreover have "rx_ok (np_rx ?p) q" by (rule rx_ok_cong [OF o(2)]) (simp_all add: set_ad_def)
  moreover have "rx_clean (np_rx ?p) \<noteq> Rx_jumbo" using o(5) by (simp add: set_ad_def)
  ultimately obtain t where t: "e1000_down N K ?p = Some t" "ring_ok (np_ad t) []" "rx_ok (np_rx t) []" "ad_hw (np_ad t) = ad_hw (np_ad ?p)"
    "rate_ok (np_ad ?p) \<longrightarrow> rate_ok (np_ad t)" "np_running t = np_running ?p" using down_ends by blast
  let ?n = "mtu_buffer_len (ad_hw (np_ad t)) (mtu + 18)"
  let ?u = "t\<lparr>np_rx := (np_rx t)\<lparr>rx_buffer_len := ?n\<rparr>, np_mtu := mtu\<rparr>"
  have run: "np_running ?p" "np_running ?u" using o(3) t(6) by (simp_all add: set_ad_def)
  have ch: "e1000_change_mtu N K mtu p = Some (0, v)" if "e1000_up K ?u = Some v" for v
    using lim' t(1) that run o(3) by (simp add: e1000_change_mtu_def Let_def set_ad_def np_ad_def add.commute) (simp add: add.assoc)?
  have size: "uint (hw_max_frame_size h) = mtu + 18" if "h = ad_hw (np_ad ?u)" for h
  proof -
    have "uint (word_of_int (mtu + 18) :: u32) = mtu + 18"
      unfolding uint_word_of_int_eq by (rule take_bit_int_eq_self) (use lim' in simp_all)
    then show ?thesis using that t(4) by (simp add: np_ad_def set_ad_def)
  qed
  show ?thesis
  proof (cases "mtu \<le> ETH_DATA_LEN")
    case True
    have "ring_ok (np_ad ?u) []" using t(2) by (simp add: np_ad_def)
    moreover have "rx_ok (np_rx ?u) []" by (rule rx_ok_cong [OF t(3)]) (use t(3) in \<open>simp_all add: rx_ok_def\<close>)
    moreover have "np_mtu ?u \<le> ETH_DATA_LEN" using True by simp
    ultimately obtain v where v: "e1000_up K ?u = Some v" "ring_ok (np_ad v) []" "rx_ok (np_rx v) []" "rx_clean (np_rx v) \<noteq> Rx_jumbo"
      "\<not> ad_down (np_ad v)" "ad_hw (np_ad v) = ad_hw (np_ad ?u)" "rate_ok (np_ad v) = rate_ok (np_ad ?u)" "np_running v = np_running ?u"
      "np_mtu v = mtu" "np_irq_on v" "rx_buffer_len (np_rx v) = ?n" using up_ends [of ?u "[]" "[]" K] by auto
    have "rate_ok (np_ad ?p)" using o(4) by (simp add: np_ad_def set_ad_def) (simp add: rate_ok_def)
    then have "rate_ok (np_ad v)" using v(7) t(5) by (simp add: np_ad_def)
    then have "driver_ok v"
      unfolding driver_ok_def rx_sound_def awake_def using v(2-4,8-10) run(2) True by simp blast
    then show ?thesis using ch [OF v(1)] v(4,5,9-11) size [OF v(6)] mtu_fits [of mtu "ad_hw (np_ad t)"] True by auto
  next
    case False
    have "rx_arrays (np_rx ?u)" "\<exists>m. rr_next_to_use (rx_ring (np_rx ?u)) = slot (rr_count (rx_ring (np_rx ?u))) m"
      using t(3) by (auto simp: rx_ok_def rx_win_def rx_arrays_def rx_size_def)
    moreover have "ETH_DATA_LEN < np_mtu ?u" using False by simp
    ultimately obtain v where v: "e1000_up K ?u = Some v" "\<not> ad_down (np_ad v)" "np_irq_on v" "np_mtu v = np_mtu ?u"
      "ad_hw (np_ad v) = ad_hw (np_ad ?u)" "rx_clean (np_rx v) = Rx_jumbo" "rx_buffer_len (np_rx v) = rx_buffer_len (np_rx ?u)"
      using jumbo_up_returns [of ?u _ K] by blast
    then show ?thesis using ch [OF v(1)] size [OF v(5)] mtu_fits [of mtu "ad_hw (np_ad t)"] False by auto
  qed
qed

lemma driver_start_ok: "driver_start p \<Longrightarrow> driver_ok p"
  using rx_sound_start by (auto simp: driver_start_def driver_ok_def awake_def)

lemma driver_step_ok:
  assumes st: "driver_step N K p t" and ok: "driver_ok p"
  shows "driver_ok t"
  using st
proof cases
  from ok obtain fs q where o: "ring_ok (np_ad p) fs" "rx_ok (np_rx p) q" "rx_clean (np_rx p) \<noteq> Rx_jumbo" "np_mtu p \<le> ETH_DATA_LEN"
    "np_running p" "rate_ok (np_ad p)" "awake p" by (auto simp: driver_ok_def rx_sound_def)
  {
    case (Interrupt icr)
    then show ?thesis using intr_keeps [OF ok] by simp
  next
    case (Poll b w)
    from clean_ends [OF o(1-3), of N K b] Poll(2) obtain k where
      p: "polled K b p fs q k w t" "ad_down (np_ad t) = ad_down (np_ad p)" "rate_ok (np_ad t)" "rx_clean (np_rx t) = rx_clean (np_rx p)"
      "np_running t = np_running p" "np_mtu t = np_mtu p" using o(6) by auto
    have "awake t" using p(1,2) Poll(1) by (auto simp: polled_def awake_def split: if_splits)
    then show ?thesis using p o unfolding driver_ok_def rx_sound_def polled_def by auto
  next
    case (Filled d m s)
    from write_back_queue [OF o(2) Filled(2)] obtain q' where q': "rx_ok s q'" by blast
    have s: "rx_ad s = np_ad p" "rx_clean s = rx_clean (np_rx p)"
      using Filled(2) by (auto simp: rx_write_back_def Let_def set_rdesc_def map_rx_def np_ad_def split: if_splits)
    then show ?thesis
      unfolding Filled(1) driver_ok_def rx_sound_def awake_def np_ad_set using o q' by (auto simp: awake_def)
  next
    case (Transmit a gs)
    have "rx_ok ((np_rx p)\<lparr>rx_ad := a\<rparr>) q" by (rule rx_ok_ad [OF o(2)])
    then show ?thesis
      using Transmit o by (auto simp: driver_ok_def rx_sound_def awake_def set_ad_def settings_def rate_ok_def)
  next
    case Up
    from up_ends [OF o(1,2,4), of K] Up(3) show ?thesis using o by (auto simp: driver_ok_def rx_sound_def awake_def)
  next
    case Down
    from down_ends [OF o(1-3), of N K] Down show ?thesis using o by (auto simp: driver_ok_def rx_sound_def awake_def)
  next
    case (Mtu m r)
    then show ?thesis
      using change_mtu_ends [OF ok, of m N K] change_mtu_refused [of p m N K] ok by (cases "mtu_refused (ad_hw (np_ad p)) m") auto
  }
qed

interpretation nic_driver: invariant_of driver_start "driver_step N K" driver_ok for N K
  by unfold_locales (auto intro: driver_start_ok driver_step_ok)

section \<open>Properties of the driver\<close>

text \<open>
  C12. One poll of the driver with the receive routine for frames of at most 1500 bytes:
  \<open>e1000_clean\<close> returns. It takes exactly the frames the device has
  sent off the transmit queue and releases them in order, and it hands to the stack what the
  specification \<open>rx_spec\<close> says of the oldest received descriptors, in order. When packets can be had
  it takes the smaller of its budget and the number of filled descriptors; and it enables the
  interrupts again if and only if it took fewer than the budget.
\<close>

theorem e1000_poll_refines_queues:
  assumes "ring_ok (np_ad p) fs" and "rx_ok (np_rx p) q" and "rx_clean (np_rx p) \<noteq> Rx_jumbo"
  shows "\<exists>k w t. e1000_clean N K b p = Some (w, t) \<and> k \<le> length q
     \<and> ring_ok (np_ad t) (dropWhile sent fs)
     \<and> freed_ids (ad_log (np_ad t)) = freed_ids (ad_log (np_ad p)) @ ids (takeWhile sent fs)
     \<and> rx_ok (np_rx t) (drop k q)
     \<and> delivered (np_rx t) = delivered (np_rx p) @ fst (rx_spec (np_rx p) (rx_discarding (np_rx p)) (take k q))
     \<and> rx_discarding (np_rx t) = snd (rx_spec (np_rx p) (rx_discarding (np_rx p)) (take k q))
     \<and> ((\<forall>j. rk_skb K j) \<longrightarrow> k = min (nat b) (length q) \<and> w = int k)
     \<and> (if w < b then \<not> np_scheduled t \<and> (np_irq_on t \<or> ad_down (np_ad t))
        else np_scheduled t = np_scheduled p \<and> np_irq_on t = np_irq_on p)"
proof -
  from clean_ends [OF assms, of N K b] obtain k w t where t: "e1000_clean N K b p = Some (w, t)" and p: "polled K b p fs q k w t" by blast
  have "(\<forall>j. rk_skb K j) \<longrightarrow> k = min (nat b) (length q) \<and> w = int k" using p unfolding polled_def by auto
  then show ?thesis using p t by (intro exI [of _ k] exI [of _ w] exI [of _ t]) (simp add: polled_def apfst_def map_prod_def split_def)
qed

text \<open>A device with 16 and 8 descriptors that is down.\<close>

definition ref_driver :: nic_poll where
  "ref_driver = \<lparr>np_rx = ref_rx 8 Rx_legacy 1522 ((ref_nic 16)\<lparr>ad_down := True, ad_itr := 20000, ad_tx_itr := 1, ad_rx_itr := 1\<rparr>),
     np_irq_on = False, np_napi_on = False, np_scheduled = False, np_get_link_status = False, np_watchdog = False,
     np_running = True, np_mtu = 1500\<rparr>"

lemma ref_driver_start: "driver_start ref_driver"
proof -
  let ?a = "(ref_nic 16)\<lparr>ad_down := True, ad_itr := 20000, ad_tx_itr := 1, ad_rx_itr := 1\<rparr>"
  have a: "np_ad ref_driver = ?a" "rx_clean (np_rx ref_driver) = Rx_legacy"
    by (simp_all add: ref_driver_def np_ad_def ref_rx_def e1000_setup_rx_resources_def ref_rx_bare_def ref_memory_def
        e1000_check_64k_bound_def ref_nic_def e1000_setup_tx_resources_def ref_bare_def ref_hw_def map_rx_def map_tx_def Let_def)
  have "ring_ok ?a []" using ref_nic_ok [of 16] ring_ok_same [of ?a "ref_nic 16"] by simp
  moreover have "hw_mac_type (ad_hw ?a) = e1000_82540"
    by (simp add: ref_nic_def e1000_setup_tx_resources_def ref_bare_def ref_memory_def ref_hw_def e1000_check_64k_bound_def map_tx_def Let_def)
  then have "rx_start (np_rx ref_driver)" unfolding ref_driver_def by (simp add: ref_rx_start)
  ultimately show ?thesis unfolding driver_start_def a by (simp add: rate_ok_def) (simp add: ref_driver_def ETH_DATA_LEN_def)
qed

text \<open>
  The device comes up, receives two whole frames and the first piece of a long one, and raises an
  interrupt.
\<close>

definition ref_busy_driver :: "nic_poll option" where
  "ref_busy_driver = do {
     p \<leftarrow> e1000_up ref_rkernel ref_driver;
     s \<leftarrow> ref_fill [ref_desc 16 3 0, ref_desc 20 3 0, ref_desc 1514 1 0] (np_rx p);
     Some (snd (e1000_intr 0x80 (p\<lparr>np_rx := s\<rparr>)))
   }"

lemma ref_busy_ok:
  obtains p q where "ref_busy_driver = Some p" and "ring_ok (np_ad p) []" and "rx_ok (np_rx p) q" and "length q = 3"
    and "rx_clean (np_rx p) \<noteq> Rx_jumbo" and "reach driver_start (driver_step N ref_rkernel) p"
proof -
  have "driver_ok ref_driver" by (rule driver_start_ok [OF ref_driver_start])
  have st: "ring_ok (np_ad ref_driver) []" "np_mtu ref_driver \<le> ETH_DATA_LEN" using ref_driver_start by (simp_all add: driver_start_def)
  have "rx_ok (np_rx ref_driver) []"
    using ref_driver_start rx_setup_ok unfolding driver_start_def rx_start_def by blast
  from up_ends [OF st(1) this st(2), of ref_rkernel] obtain p where
    p: "e1000_up ref_rkernel ref_driver = Some p" "ring_ok (np_ad p) []" "rx_ok (np_rx p) []" "rx_clean (np_rx p) \<noteq> Rx_jumbo" by blast
  have v: "map_option (\<lambda>p. (0::nat)) ref_busy_driver = Some 0" by code_simp
  let ?ds = "[ref_desc 16 3 0, ref_desc 20 3 0, ref_desc 1514 1 0]"
  from v p(1) obtain s where s: "ref_fill ?ds (np_rx p) = Some s"
    by (cases "ref_fill ?ds (np_rx p)") (simp_all add: ref_busy_driver_def del: ref_fill.simps)
  from ref_fill_ok [OF s p(3)] obtain q where q: "rx_ok s q" "map fst q = map (\<lambda>d. d\<lparr>rd_buffer_addr := 0\<rparr>) ?ds" by auto
  have l: "length q = 3" using arg_cong [OF q(2), of length] by simp
  let ?p = "p\<lparr>np_rx := s\<rparr>"
  let ?t = "snd (e1000_intr 0x80 ?p)"
  have r0: "reach driver_start (driver_step N ref_rkernel) p"
    by (rule reach_step [where s = ref_driver]) (rule reach_start, rule ref_driver_start, rule Up, use ref_driver_start p(1) in \<open>simp_all add: driver_start_def\<close>)
  have filled: "reach driver_start (driver_step N ref_rkernel) (p\<lparr>np_rx := u\<rparr>) \<and> rx_ad u = rx_ad (np_rx p) \<and> rx_clean u = rx_clean (np_rx p)"
    if "ref_fill ds v = Some u" "reach driver_start (driver_step N ref_rkernel) (p\<lparr>np_rx := v\<rparr>)" "rx_ad v = rx_ad (np_rx p)"
      "rx_clean v = rx_clean (np_rx p)" for ds u v
    using that
  proof (induction ds arbitrary: v)
    case (Cons d ds)
    then obtain w where w: "rx_write_back d (\<lambda>a. ucast a) v = Some w" "ref_fill ds w = Some u" by (auto simp: bind_eq_Some_conv)
    have "driver_step N ref_rkernel (p\<lparr>np_rx := v\<rparr>) ((p\<lparr>np_rx := v\<rparr>)\<lparr>np_rx := w\<rparr>)" by (rule Filled) (use w in simp)
    then have "reach driver_start (driver_step N ref_rkernel) (p\<lparr>np_rx := w\<rparr>)" using Cons.prems(2) by (auto intro: reach_step)
    moreover have "rx_ad w = rx_ad v" "rx_clean w = rx_clean v"
      using w(1) by (auto simp: rx_write_back_def Let_def set_rdesc_def map_rx_def split: if_splits)
    ultimately show ?case using Cons.IH [OF w(2)] Cons.prems by simp
  qed simp
  have r1: "reach driver_start (driver_step N ref_rkernel) ?p" and same: "rx_ad s = rx_ad (np_rx p)" "rx_clean s = rx_clean (np_rx p)"
    using filled [OF s] r0 by simp_all
  have it: "np_rx ?t = s\<lparr>rx_ad := np_ad ?t\<rparr>" "ad_tx_ring (np_ad ?t) = ad_tx_ring (np_ad ?p)"
    by (auto simp: e1000_intr_def Let_def e1000_irq_disable_def e1000_irq_enable_def set_ad_def np_ad_def)
  have "ring_ok (np_ad ?t) []" using p(2) it(2) same ring_ok_same [of "np_ad ?t" "np_ad p"] by (simp add: np_ad_def)
  moreover have "rx_ok (np_rx ?t) q" "rx_clean (np_rx ?t) \<noteq> Rx_jumbo" unfolding it(1) using rx_ok_ad [OF q(1)] p(4) same by simp_all
  moreover have "ref_busy_driver = Some ?t" using p(1) s by (simp add: ref_busy_driver_def del: ref_fill.simps)
  ultimately show thesis using that l reach_step [OF r1 Interrupt] by blast
qed

text \<open>A poll with a budget of two takes the two whole frames and stays scheduled.\<close>

theorem e1000_poll_refines_queues_witness:
  "\<exists>p q t. ref_busy_driver = Some p \<and> length q = 3 \<and> e1000_clean (ref_nkernel (\<lambda>_. True)) ref_rkernel 2 p = Some (2, t)
     \<and> rx_ok (np_rx t) (drop 2 q) \<and> np_scheduled t \<and> length (delivered (np_rx t)) = 2"
proof (rule ref_busy_ok)
  fix p q assume p: "ref_busy_driver = Some p" "ring_ok (np_ad p) []" "rx_ok (np_rx p) q" "length q = 3" "rx_clean (np_rx p) \<noteq> Rx_jumbo"
  let ?N = "ref_nkernel (\<lambda>_. True)"
  have v: "map_option (\<lambda>p. map_option (\<lambda>(w, t). (w, np_scheduled t, length (delivered (np_rx t)))) (e1000_clean ?N ref_rkernel 2 p)) ref_busy_driver
      = Some (Some (2, True, 2))" by code_simp
  have mem: "\<forall>j. rk_skb ref_rkernel j" by (simp add: ref_rkernel_def)
  from e1000_poll_refines_queues [OF p(2,3,5), of ?N ref_rkernel 2] mem p(4) obtain w t where
    t: "e1000_clean ?N ref_rkernel 2 p = Some (w, t)" "rx_ok (np_rx t) (drop 2 q)" "w = 2" by auto
  moreover have "np_scheduled t" "length (delivered (np_rx t)) = 2" using v t(1) unfolding p(1) by simp_all
  ultimately show ?thesis using p(1,4) by blast
qed

text \<open>
  C13. With frames of at most 1500 bytes, whatever the order of interrupts, polls, frames received
  (in pieces of at least 5 bytes that fit their buffers) and sent, going up and down and changes of
  the frame size up to 1500: every buffer the receive path ever obtained is in the ring, was released
  or became a packet, each exactly once; every packet was handed over or released; and going down
  leaves no buffer in the ring.
\<close>

theorem receive_buffers_accounted:
  assumes "reach driver_start (driver_step N K) p"
  shows "mset (frags_made (rx_log (np_rx p))) = mset (frags_gone (rx_log (np_rx p))) + held (np_rx p)
     \<and> skbs_open (skb_events (rx_log (np_rx p))) = 0
     \<and> (\<exists>t. e1000_down N K p = Some t \<and> mset (frags_made (rx_log (np_rx t))) = mset (frags_gone (rx_log (np_rx t))))"
proof -
  from nic_driver.reach_inv [OF assms] obtain fs q where o: "ring_ok (np_ad p) fs" "rx_ok (np_rx p) q"
    "rx_clean (np_rx p) \<noteq> Rx_jumbo" by (auto simp: driver_ok_def rx_sound_def)
  from down_ends [OF o, of N K] obtain t where t: "e1000_down N K p = Some t" "rx_ok (np_rx t) []" "held (np_rx t) = {#}" by blast
  show ?thesis using o(2) t by (simp add: rx_ok_def balanced_def)
qed

theorem receive_buffers_accounted_witness:
  "\<exists>p. ref_busy_driver = Some p \<and> size (held (np_rx p)) = 7
     \<and> mset (frags_made (rx_log (np_rx p))) = mset (frags_gone (rx_log (np_rx p))) + held (np_rx p)"
proof (rule ref_busy_ok)
  fix p q assume p: "ref_busy_driver = Some p" "reach driver_start (driver_step (ref_nkernel (\<lambda>_. True)) ref_rkernel) p"
  have v: "map_option (\<lambda>p. (length (frags_made (rx_log (np_rx p))), length (frags_gone (rx_log (np_rx p))))) ref_busy_driver = Some (7, 0)"
    by code_simp
  have e: "mset (frags_made (rx_log (np_rx p))) = mset (frags_gone (rx_log (np_rx p))) + held (np_rx p)"
    using receive_buffers_accounted [OF p(2)] by blast
  have "length (frags_made (rx_log (np_rx p))) = 7" "frags_gone (rx_log (np_rx p)) = []" using v unfolding p(1) by simp_all
  then have "size (held (np_rx p)) = 7" using arg_cong [OF e, of size] by simp
  then show ?thesis using p e by blast
qed

text \<open>
  C29. With frames of at most 1500 bytes the driver never falls asleep: in every reachable state of
  this machine the device is down, or its interrupts are enabled, or a poll is scheduled; a poll
  always returns, and when it used less than its budget the interrupts are enabled again.
\<close>

theorem driver_stays_awake:
  assumes "reach driver_start (driver_step N K) p"
  shows "(ad_down (np_ad p) \<or> np_irq_on p \<or> np_scheduled p)
     \<and> (\<exists>w t. e1000_clean N K b p = Some (w, t) \<and> (b \<le> w \<or> np_irq_on t \<or> ad_down (np_ad t)))"
proof -
  have ok: "driver_ok p" by (rule nic_driver.reach_inv [OF assms])
  then obtain fs q where o: "ring_ok (np_ad p) fs" "rx_ok (np_rx p) q" "rx_clean (np_rx p) \<noteq> Rx_jumbo"
    by (auto simp: driver_ok_def rx_sound_def)
  from clean_ends [OF o, of N K b] obtain k w t where "e1000_clean N K b p = Some (w, t)" "polled K b p fs q k w t" by blast
  then show ?thesis using ok by (auto simp: driver_ok_def awake_def polled_def split: if_splits)
qed

theorem driver_stays_awake_witness:
  "\<exists>p w t. ref_busy_driver = Some p \<and> np_scheduled p \<and> \<not> np_irq_on p
     \<and> e1000_clean (ref_nkernel (\<lambda>_. True)) ref_rkernel 64 p = Some (w, t) \<and> np_irq_on t \<and> \<not> np_scheduled t"
proof (rule ref_busy_ok)
  fix p q assume p: "ref_busy_driver = Some p" "reach driver_start (driver_step (ref_nkernel (\<lambda>_. True)) ref_rkernel) p"
  let ?N = "ref_nkernel (\<lambda>_. True)"
  have v: "map_option (\<lambda>p. (np_scheduled p, np_irq_on p, ad_down (np_ad p), map_option (\<lambda>(w, t). (np_scheduled t, np_irq_on t))
      (e1000_clean ?N ref_rkernel 64 p))) ref_busy_driver = Some (True, False, False, Some (False, True))" by code_simp
  from driver_stays_awake [OF p(2), of 64] obtain w t where t: "e1000_clean ?N ref_rkernel 64 p = Some (w, t)" by blast
  moreover have "np_scheduled p" "\<not> np_irq_on p" "\<not> np_scheduled t" "np_irq_on t" using v t unfolding p(1) by simp_all
  ultimately show ?thesis using p(1) by blast
qed

text \<open>
  C31. Changing the size of frames, from every reachable state of this machine and for every size: a
  size is refused, with nothing changed, if and only if its frames are shorter than 64 bytes, longer
  than 16128, or longer than 1518 on one of the oldest controllers. Any other size is accepted: the
  change returns, the device is up again with its interrupts enabled and accepts frames up to exactly
  this size; the largest of them fits into one receive buffer, or the buffers are pages for large
  frames; and the receive routine for large frames is chosen exactly for more than 1500 bytes.
\<close>

theorem change_mtu_fits:
  assumes "reach driver_start (driver_step N K) p"
  shows "if new_mtu + 18 < 64 \<or> 16128 < new_mtu + 18 \<or> hw_mac_type (ad_hw (np_ad p)) \<le> e1000_82542_rev2_1 \<and> 1518 < new_mtu + 18
     then e1000_change_mtu N K new_mtu p = Some (- EINVAL, p)
     else (\<exists>t. e1000_change_mtu N K new_mtu p = Some (0, t) \<and> np_mtu t = new_mtu \<and> \<not> ad_down (np_ad t) \<and> np_irq_on t
        \<and> uint (hw_max_frame_size (ad_hw (np_ad t))) = new_mtu + 18
        \<and> (new_mtu + 18 \<le> uint (rx_buffer_len (np_rx t)) \<or> rx_buffer_len (np_rx t) = PAGE_SIZE \<and> ETH_DATA_LEN < new_mtu)
        \<and> (rx_clean (np_rx t) = Rx_jumbo \<longleftrightarrow> ETH_DATA_LEN < new_mtu))"
  using change_mtu_ends [OF nic_driver.reach_inv [OF assms], of new_mtu N K] change_mtu_refused [of p new_mtu N K]
  unfolding mtu_refused_def by auto

theorem change_mtu_fits_witness:
  "\<exists>p t u. ref_busy_driver = Some p \<and> e1000_change_mtu (ref_nkernel (\<lambda>_. True)) ref_rkernel 1400 p = Some (0, t)
     \<and> uint (hw_max_frame_size (ad_hw (np_ad t))) = 1418 \<and> np_irq_on t \<and> rx_buffer_len (np_rx t) = 2048
     \<and> e1000_change_mtu (ref_nkernel (\<lambda>_. True)) ref_rkernel 9000 p = Some (0, u) \<and> rx_clean (np_rx u) = Rx_jumbo
     \<and> e1000_change_mtu (ref_nkernel (\<lambda>_. True)) ref_rkernel 16111 p = Some (- 22, p)"
proof (rule ref_busy_ok)
  fix p q assume p: "ref_busy_driver = Some p" "reach driver_start (driver_step (ref_nkernel (\<lambda>_. True)) ref_rkernel) p"
  let ?N = "ref_nkernel (\<lambda>_. True)"
  have v: "map_option (\<lambda>p. (hw_mac_type (ad_hw (np_ad p)) \<le> e1000_82542_rev2_1,
      map_option (\<lambda>(r, t). rx_buffer_len (np_rx t)) (e1000_change_mtu ?N ref_rkernel 1400 p))) ref_busy_driver
      = Some (False, Some 2048)" by code_simp
  then have mac: "\<not> hw_mac_type (ad_hw (np_ad p)) \<le> e1000_82542_rev2_1" unfolding p(1) by simp
  from change_mtu_fits [OF p(2), of 1400] mac obtain t where t:
    "e1000_change_mtu ?N ref_rkernel 1400 p = Some (0, t)" "uint (hw_max_frame_size (ad_hw (np_ad t))) = 1418" "np_irq_on t"
    by auto
  from change_mtu_fits [OF p(2), of 9000] mac obtain u where u:
    "e1000_change_mtu ?N ref_rkernel 9000 p = Some (0, u)" "rx_clean (np_rx u) = Rx_jumbo" by (auto simp: ETH_DATA_LEN_def)
  have "e1000_change_mtu ?N ref_rkernel 16111 p = Some (- 22, p)" using change_mtu_fits [OF p(2), of 16111] by simp
  moreover have "rx_buffer_len (np_rx t) = 2048" using v t(1) unfolding p(1) by simp
  ultimately show ?thesis using p(1) t u by blast
qed

end
