(* ===== verification/Dysco_E1000_Jumbo.thy ===== *)
theory Dysco_E1000_Jumbo
  imports Dysco_E1000_Rx_Machine
begin

text \<open>
  Jumbo frames: a bad page in the middle of a chain of pages. The chain is released, but the NAPI
  instance of the kernel keeps its pointer to it, which the next frame uses.
\<close>

section \<open>Jumbo frames\<close>

text \<open>The first round of the loop over pages drops the chain, the second needs a packet.\<close>

lemma jumbo_drop_round:
  assumes s: "rx_arrays s" "c = rr_count (rx_ring s)" "rl_st l = s" "rl_i l = slot c h" "rl_cleaned_count l = 0"
    and page: "rb_data (rbuf s h) = Some page" and top: "rr_skb_top (rx_ring s)"
    and bad: "rd_status (rdesc s h) AND RXD_STAT_EOP \<noteq> 0" "rd_errors (rdesc s h) AND RXD_ERR_FRAME_ERR_MASK \<noteq> 0"
      "\<not> hw_tbi_compatibility_on (ad_hw (rx_ad s))" "\<not> rx_keep_bad s"
  shows "\<exists>l'. jumbo_one K l = Some (True, l') \<and> rl_i l' = slot c (Suc h) \<and> rl_work l' = rl_work l + 1
    \<and> rx_arrays (rl_st l') \<and> rr_count (rx_ring (rl_st l')) = c \<and> rx_napi (rl_st l') = Freed_skb
    \<and> \<not> rr_skb_top (rx_ring (rl_st l')) \<and> rx_copybreak (rl_st l') = rx_copybreak s
    \<and> (\<forall>m. m mod rx_size s \<noteq> h mod rx_size s \<longrightarrow> rdesc (rl_st l') m = rdesc s m \<and> rbuf (rl_st l') m = rbuf s m)"
proof -
  have c: "c \<noteq> 0" using s by (simp add: rx_arrays_def)
  let ?d = "rdesc s h" and ?i = "slot c h"
  let ?b = "(rbuf s h)\<lparr>rb_dma := 0\<rparr>"
  let ?e = "rx_event (Rx_unmap (rb_dma (rbuf s h))) s"
  define s1 where "s1 = set_rbuf ?i ?b ?e"
  have re: "rx_ring ?e = rx_ring s" "rx_size ?e = rx_size s" by (simp_all add: rx_size_def)
  have ea: "rx_arrays ?e" "c = rr_count (rx_ring ?e)" using s rx_arrays_cong [OF re(1)] by simp_all
  have s1: "rx_arrays s1" "rx_size s1 = rx_size s" "rr_count (rx_ring s1) = c" "rx_copybreak s1 = rx_copybreak s" "rr_skb_top (rx_ring s1)"
    using rx_arrays_set(1) [OF ea(1)] s top by (simp_all add: s1_def rx_size_def) (simp_all add: set_rbuf_def map_rx_def rx_event_def)
  have same1: "rdesc s1 m = rdesc s m" "m mod rx_size s \<noteq> h mod rx_size s \<Longrightarrow> rbuf s1 m = rbuf s m" for m
    using rx_slot_set(1,2) [OF ea, of h ?b m] rx_arrays_cong [OF re(1)] re by (simp_all add: s1_def)
  have "e1000_tbi_should_accept (rd_status ?d) (rd_errors ?d) n page s1 = (False, s1)" for n
    using bad(3) by (simp add: e1000_tbi_should_accept_def TBI_ACCEPT_def s1_def Let_def)
  moreover have "\<not> rx_keep_bad s1" using bad(4) by (simp add: s1_def set_rbuf_def map_rx_def rx_event_def)
  ultimately have j: "jumbo_page K ?i ?d page s1 = Some (Next_desc, drop_chain s1)"
    using bad(1,2) by (simp add: jumbo_page_def Let_def)
  define s2 where "s2 = drop_chain s1"
  have d2: "rx_napi s2 = Freed_skb" "\<not> rr_skb_top (rx_ring s2)" "rr_desc (rx_ring s2) = rr_desc (rx_ring s1)"
    "rr_buffer_info (rx_ring s2) = rr_buffer_info (rx_ring s1)" "rr_count (rx_ring s2) = c" "rx_copybreak s2 = rx_copybreak s"
    using s1 by (simp_all add: s2_def drop_chain_def set_top_def map_rx_def rx_event_def)
  have a2: "rx_arrays s2" "c = rr_count (rx_ring s2)" "rdesc s2 = rdesc s1" "rbuf s2 = rbuf s1" "rx_size s2 = rx_size s"
    using s1 d2 s(2) by (simp_all add: rx_arrays_def rx_size_def rdesc_def rbuf_def fun_eq_iff)
  define s3 where "s3 = set_rdesc ?i (?d\<lparr>rd_status := 0\<rparr>) s2"
  have "get_rdesc ?i s2 = Some ?d" using get_rx_slot(2) [OF a2(1,2), of h] a2(3) same1 by simp
  then have r: "rx_recycle K ?i (rl_cleaned_count l + 1) s2 = Some (1, s3)" using s(5) by (simp add: recycle_eq s3_def)
  have g: "get_rdesc ?i s = Some ?d" "get_rbuf ?i s = Some (rbuf s h)" using get_rx_slot(1,2) [OF s(1,2), of h] by simp_all
  let ?l = "l\<lparr>rl_i := ring_next c ?i, rl_work := rl_work l + 1, rl_cleaned := True, rl_st := s3, rl_cleaned_count := 1\<rparr>"
  have "jumbo_one K l = Some (True, ?l)"
    unfolding jumbo_one_def using g page j r s(3,4) by (simp add: s1_def [symmetric] s2_def [symmetric] s(2) [symmetric])
  moreover have "rx_arrays s3" "rr_count (rx_ring s3) = c" using rx_arrays_set(2) [OF a2(1)] d2 by (simp_all add: s3_def)
  moreover have "rx_napi s3 = Freed_skb" "\<not> rr_skb_top (rx_ring s3)" "rx_copybreak s3 = rx_copybreak s"
    using d2 by (simp_all add: s3_def set_rdesc_def map_rx_def)
  moreover have "rdesc s3 m = rdesc s m \<and> rbuf s3 m = rbuf s m" if "m mod rx_size s \<noteq> h mod rx_size s" for m
    using rx_slot_set(3,4) [OF a2(1,2), of h _ m] that a2 same1 by (simp add: s3_def)
  ultimately show ?thesis using ring_next_slot [OF c, of h] by (intro exI [of _ ?l]) simp
qed

lemma jumbo_released_round:
  assumes s: "rx_arrays s" "c = rr_count (rx_ring s)" "rl_st l = s" "rl_i l = slot c h"
    and f: "rx_napi s = Freed_skb" "\<not> rr_skb_top (rx_ring s)"
    and d: "rd_status (rdesc s h) AND RXD_STAT_EOP \<noteq> 0" "rd_errors (rdesc s h) AND RXD_ERR_FRAME_ERR_MASK = 0"
      "rx_copybreak s < ucast (rd_length (rdesc s h))"
  shows "jumbo_one K l = None"
proof (cases "rb_data (rbuf s h)")
  case None
  then show ?thesis unfolding jumbo_one_def using get_rx_slot(1,2) [OF s(1,2), of h] s(3,4) by simp
next
  case (Some page)
  have "jumbo_page K (slot c h) (rdesc s h) page (set_rbuf (slot c h) b (rx_event e s)) = None" for b e
  proof -
    let ?t = "set_rbuf (slot c h) b (rx_event e s)"
    have "rx_napi ?t = Freed_skb" "\<not> rr_skb_top (rx_ring ?t)" "rx_copybreak ?t = rx_copybreak s"
      using f by (simp_all add: set_rbuf_def map_rx_def rx_event_def)
    moreover have "\<not> ucast (rd_length (rdesc s h)) \<le> rx_copybreak s" using d(3) by (simp only: not_le)
    ultimately show ?thesis using d by (simp add: jumbo_page_def page_end_def napi_get_frags_def Let_def)
  qed
  then show ?thesis unfolding jumbo_one_def using get_rx_slot(1,2) [OF s(1,2), of h] s(3,4) Some by simp
qed

text \<open>
  C30. A bad page that ends a chain of pages makes the next frame fault: the driver releases the chain
  but the packet it was collected in stays the packet of the NAPI instance, and \<^verbatim>\<open>napi_get_frags\<close>
  returns it for the next frame that is not copied.
\<close>

theorem jumbo_error_uses_released_packet:
  assumes "rx_arrays s" and "2 \<le> rx_size s" and "2 \<le> b"
    and "rr_next_to_clean (rx_ring s) = slot (rr_count (rx_ring s)) h" and "rr_skb_top (rx_ring s)" and "rb_data (rbuf s h) \<noteq> None"
    and "rx_done (rdesc s h)" and "rd_status (rdesc s h) AND RXD_STAT_EOP \<noteq> 0"
    and "rd_errors (rdesc s h) AND RXD_ERR_FRAME_ERR_MASK \<noteq> 0"
    and "\<not> hw_tbi_compatibility_on (ad_hw (rx_ad s))" and "\<not> rx_keep_bad s"
    and "rx_done (rdesc s (Suc h))" and "rd_status (rdesc s (Suc h)) AND RXD_STAT_EOP \<noteq> 0"
    and "rd_errors (rdesc s (Suc h)) AND RXD_ERR_FRAME_ERR_MASK = 0" and "rx_copybreak s < ucast (rd_length (rdesc s (Suc h)))"
  shows "e1000_clean_jumbo_rx_irq K 0 b s = None"
proof -
  define c where "c = rr_count (rx_ring s)"
  let ?l = "rx_loop_start 0 s"
  have l: "rl_st ?l = s" "rl_i ?l = slot c h" "rl_cleaned_count ?l = 0" "rl_work ?l = 0"
    using assms(4) by (simp_all add: rx_loop_start_def c_def)
  from assms(6) obtain page where "rb_data (rbuf s h) = Some page" by auto
  from jumbo_drop_round [OF assms(1) c_def l(1,2,3) this assms(5,8-11), of K] obtain l1 where
    l1: "jumbo_one K ?l = Some (True, l1)" "rl_i l1 = slot c (Suc h)" "rl_work l1 = 1" "rx_arrays (rl_st l1)"
    "rr_count (rx_ring (rl_st l1)) = c" "rx_napi (rl_st l1) = Freed_skb" "\<not> rr_skb_top (rx_ring (rl_st l1))"
    "rx_copybreak (rl_st l1) = rx_copybreak s"
    and same: "\<And>m. m mod rx_size s \<noteq> h mod rx_size s \<Longrightarrow> rdesc (rl_st l1) m = rdesc s m" using l(4) by auto
  have next_: "rdesc (rl_st l1) (Suc h) = rdesc s (Suc h)"
    using same mod_apart [of h "Suc h" "rx_size s"] assms(2) by simp
  have "jumbo_one K l1 = None"
    by (rule jumbo_released_round [OF l1(4) l1(5) [symmetric] refl l1(2,6,7)]) (simp_all add: next_ assms l1(8))
  then have "clean_rx_loop (jumbo_one K) b l1 = None"
    using get_rx_slot(2) [OF l1(4) l1(5) [symmetric], of "Suc h"] l1(2,3) assms(3,12) next_
    by (subst clean_rx_loop.simps) (simp add: rx_done_def)
  then have "clean_rx_loop (jumbo_one K) b ?l = None"
    using get_rx_slot(2) [OF assms(1) c_def, of h] l l1(1) assms(3,7)
    by (subst clean_rx_loop.simps) (simp add: rx_done_def)
  then show ?thesis by (simp add: e1000_clean_jumbo_rx_irq_def)
qed

text \<open>A first page is received; then the device fills a bad last page and another frame.\<close>

definition ref_chain :: "e1000_rx option" where
  "ref_chain = do {
     s \<leftarrow> ref_received 8 Rx_jumbo 4096 (ref_nic 16) [ref_desc 4096 1 0];
     (c, w, s1) \<leftarrow> e1000_clean_jumbo_rx_irq ref_rkernel 0 64 s;
     ref_fill [ref_desc 100 3 1, ref_desc 1500 3 0] s1
   }"

theorem jumbo_error_uses_released_packet_witness:
  "\<exists>s. ref_chain = Some s \<and> e1000_clean_jumbo_rx_irq ref_rkernel 0 64 s = None"
proof -
  have v: "map_option (\<lambda>s. (rx_arrays s, rx_size s, rr_next_to_clean (rx_ring s) = slot (rr_count (rx_ring s)) 1, rr_skb_top (rx_ring s),
      rb_data (rbuf s 1) \<noteq> None, rx_done (rdesc s 1), rd_status (rdesc s 1), rd_errors (rdesc s 1))) ref_chain
    = Some (True, 8, True, True, True, True, 3, 1)"
    and w: "map_option (\<lambda>s. (hw_tbi_compatibility_on (ad_hw (rx_ad s)), rx_keep_bad s, rx_done (rdesc s 2), rd_status (rdesc s 2),
      rd_errors (rdesc s 2), rx_copybreak s < ucast (rd_length (rdesc s 2)))) ref_chain = Some (False, False, True, 3, 0, True)"
    by code_simp+
  from v obtain s where s: "ref_chain = Some s" by auto
  have "e1000_clean_jumbo_rx_irq ref_rkernel 0 64 s = None"
    by (rule jumbo_error_uses_released_packet [where h = 1])
       (use v w in \<open>simp_all add: s RXD_ERR_FRAME_ERR_MASK_def numeral_2_eq_2\<close>)
  then show ?thesis using s by blast
qed

end
