(* ===== verification/Dysco_E1000_Eeprom.thy ===== *)
theory Dysco_E1000_Eeprom
  imports Dysco_E1000
begin

text \<open>
  The EEPROM of the e1000 driver (\<^verbatim>\<open>e1000_hw.c\<close>): the driver moves bits through the register EECD one
  clock at a time, and builds commands of the Microwire and of the SPI protocol, the checksum and
  the station address on top. The device is a parameter: a function that answers a read of EECD from
  the whole history of the register. Delays have no effect of their own; the device sees the number
  of reads in the history. The kernel is not built for PA-RISC.
\<close>

section \<open>State\<close>

datatype e1000_eeprom_type =
    e1000_eeprom_uninitialized | e1000_eeprom_spi | e1000_eeprom_microwire | e1000_eeprom_flash
  | e1000_eeprom_none | e1000_num_eeprom_types

record e1000_eeprom_info =
  ee_type :: e1000_eeprom_type
  ee_word_size :: u16
  ee_opcode_bits :: u16
  ee_address_bits :: u16
  ee_delay_usec :: u16
  ee_page_size :: u16

text \<open>What happens at the register EECD, in order.\<close>

datatype ee_event = Wr u32 | Rd u32

type_synonym ee_device = "ee_event list \<Rightarrow> u32"

text \<open>
  The fields of \<open>e1000_hw\<close> these functions use; \<open>eh_lock\<close> is the spin lock \<open>e1000_eeprom_lock\<close> and
  \<open>eh_flash\<close> the configuration memory of a CE4100, byte by byte from its base.
\<close>

record ee_hw =
  eh_mac_type :: e1000_mac_type
  eh_eeprom :: e1000_eeprom_info
  eh_log :: "ee_event list"
  eh_lock :: bool
  eh_flash :: "nat \<Rightarrow> u8"
  eh_perm_mac_addr :: "u8 list"
  eh_mac_addr :: "u8 list"

datatype ee_error = E1000_ERR_EEPROM

abbreviation (input) E1000_EECD_SK :: u32 where "E1000_EECD_SK \<equiv> 0x1"
abbreviation (input) E1000_EECD_CS :: u32 where "E1000_EECD_CS \<equiv> 0x2"
abbreviation (input) E1000_EECD_DI :: u32 where "E1000_EECD_DI \<equiv> 0x4"
abbreviation (input) E1000_EECD_DO :: u32 where "E1000_EECD_DO \<equiv> 0x8"
abbreviation (input) E1000_EECD_REQ :: u32 where "E1000_EECD_REQ \<equiv> 0x40"
abbreviation (input) E1000_EECD_GNT :: u32 where "E1000_EECD_GNT \<equiv> 0x80"
abbreviation (input) E1000_EECD_SIZE :: u32 where "E1000_EECD_SIZE \<equiv> 0x200"
abbreviation (input) E1000_EECD_ADDR_BITS :: u32 where "E1000_EECD_ADDR_BITS \<equiv> 0x400"
abbreviation (input) E1000_EECD_TYPE :: u32 where "E1000_EECD_TYPE \<equiv> 0x2000"

definition er32_eecd :: "ee_device \<Rightarrow> ee_hw \<Rightarrow> u32 \<times> ee_hw" where
  "er32_eecd dev h = (let v = dev (eh_log h) in (v, h\<lparr>eh_log := eh_log h @ [Rd v]\<rparr>))"

definition ew32_eecd :: "u32 \<Rightarrow> ee_hw \<Rightarrow> ee_hw" where
  "ew32_eecd v h = h\<lparr>eh_log := eh_log h @ [Wr v]\<rparr>"

abbreviation ee_is :: "e1000_eeprom_type \<Rightarrow> ee_hw \<Rightarrow> bool" where
  "ee_is t h \<equiv> ee_type (eh_eeprom h) = t"

section \<open>Bits\<close>

definition e1000_raise_ee_clk :: "u32 \<Rightarrow> ee_hw \<Rightarrow> u32 \<times> ee_hw" where
  "e1000_raise_ee_clk eecd h = (let e = eecd OR E1000_EECD_SK in (e, ew32_eecd e h))"

definition e1000_lower_ee_clk :: "u32 \<Rightarrow> ee_hw \<Rightarrow> u32 \<times> ee_hw" where
  "e1000_lower_ee_clk eecd h = (let e = eecd AND NOT E1000_EECD_SK in (e, ew32_eecd e h))"

text \<open>One round of the sending loop, and the loop, which ends when the mask is shifted out.\<close>

definition shift_out_bit :: "u16 \<Rightarrow> u32 \<Rightarrow> u32 \<Rightarrow> ee_hw \<Rightarrow> u32 \<times> ee_hw" where
  "shift_out_bit data m eecd h = (
     let e1 = eecd AND NOT E1000_EECD_DI;
         e2 = (if ucast data AND m \<noteq> 0 then e1 OR E1000_EECD_DI else e1);
         (e3, h3) = e1000_raise_ee_clk e2 (ew32_eecd e2 h)
     in e1000_lower_ee_clk e3 h3)"

lemma drop_bit_1_less: "drop_bit (Suc 0) m \<noteq> 0 \<Longrightarrow> unat (drop_bit (Suc 0) m) < unat (m::u32)"
  by (cases "unat m = 0") (auto simp: unat_drop_bit_eq drop_bit_Suc unat_eq_zero unat_div unat_gt_0 intro!: div_less_dividend)

function shift_out_bits :: "u16 \<Rightarrow> u32 \<Rightarrow> u32 \<Rightarrow> ee_hw \<Rightarrow> u32 \<times> ee_hw" where
  "shift_out_bits data m eecd h = (
     let (e, h1) = shift_out_bit data m eecd h;
         m1 = drop_bit 1 m
     in if m1 \<noteq> 0 then shift_out_bits data m1 e h1 else (e, h1))"
  by pat_completeness auto
termination
  by (relation "measure (\<lambda>(_, m, _, _). unat m)") (simp_all add: drop_bit_1_less)

declare shift_out_bits.simps [simp del]

definition e1000_shift_out_ee_bits :: "ee_device \<Rightarrow> u16 \<Rightarrow> u16 \<Rightarrow> ee_hw \<Rightarrow> ee_hw" where
  "e1000_shift_out_ee_bits dev data count h = (
     let m = push_bit (unat count - 1) 1;
         (eecd, h1) = er32_eecd dev h;
         e0 = (if ee_is e1000_eeprom_microwire h then eecd AND NOT E1000_EECD_DO
               else if ee_is e1000_eeprom_spi h then eecd OR E1000_EECD_DO else eecd);
         (e, h2) = shift_out_bits data m e0 h1
     in ew32_eecd (e AND NOT E1000_EECD_DI) h2)"

primrec shift_in_bits :: "ee_device \<Rightarrow> nat \<Rightarrow> u16 \<Rightarrow> u32 \<Rightarrow> ee_hw \<Rightarrow> u16 \<times> ee_hw" where
  "shift_in_bits dev 0 data eecd h = (data, h)"
| "shift_in_bits dev (Suc n) data eecd h = (
     let d1 = push_bit 1 data;
         (e1, h1) = e1000_raise_ee_clk eecd h;
         (e2, h2) = er32_eecd dev h1;
         e3 = e2 AND NOT E1000_EECD_DI;
         d2 = (if e3 AND E1000_EECD_DO \<noteq> 0 then d1 OR 1 else d1);
         (e4, h4) = e1000_lower_ee_clk e3 h2
     in shift_in_bits dev n d2 e4 h4)"

definition e1000_shift_in_ee_bits :: "ee_device \<Rightarrow> nat \<Rightarrow> ee_hw \<Rightarrow> u16 \<times> ee_hw" where
  "e1000_shift_in_ee_bits dev count h = (
     let (eecd, h1) = er32_eecd dev h
     in shift_in_bits dev count 0 (eecd AND NOT (E1000_EECD_DO OR E1000_EECD_DI)) h1)"

section \<open>Taking and releasing the device\<close>

primrec await_grant :: "ee_device \<Rightarrow> nat \<Rightarrow> u32 \<Rightarrow> ee_hw \<Rightarrow> u32 \<times> ee_hw" where
  "await_grant dev 0 eecd h = (eecd, h)"
| "await_grant dev (Suc n) eecd h = (
     if eecd AND E1000_EECD_GNT = 0 then (let (e, h1) = er32_eecd dev h in await_grant dev n e h1)
     else (eecd, h))"

definition select_eeprom :: "u32 \<Rightarrow> ee_hw \<Rightarrow> ee_hw" where
  "select_eeprom eecd h = (
     if ee_is e1000_eeprom_microwire h then
       (let e1 = eecd AND NOT (E1000_EECD_DI OR E1000_EECD_SK);
            e2 = e1 OR E1000_EECD_CS
        in ew32_eecd e2 (ew32_eecd e1 h))
     else if ee_is e1000_eeprom_spi h then ew32_eecd (eecd AND NOT (E1000_EECD_CS OR E1000_EECD_SK)) h
     else h)"

text \<open>The result says whether the EEPROM was granted; the register is read 1000 times for that.\<close>

definition e1000_acquire_eeprom :: "ee_device \<Rightarrow> ee_hw \<Rightarrow> bool \<times> ee_hw" where
  "e1000_acquire_eeprom dev h = (
     let (eecd, h0) = er32_eecd dev h
     in if eh_mac_type h > e1000_82544 then
          (let (e1, h1) = er32_eecd dev (ew32_eecd (eecd OR E1000_EECD_REQ) h0);
               (e2, h2) = await_grant dev 1000 e1 h1
           in if e2 AND E1000_EECD_GNT = 0 then (False, ew32_eecd (e2 AND NOT E1000_EECD_REQ) h2)
              else (True, select_eeprom e2 h2))
        else (True, select_eeprom eecd h0))"

definition e1000_standby_eeprom :: "ee_device \<Rightarrow> ee_hw \<Rightarrow> ee_hw" where
  "e1000_standby_eeprom dev h = (
     let (eecd, h0) = er32_eecd dev h
     in if ee_is e1000_eeprom_microwire h then
          (let e1 = eecd AND NOT (E1000_EECD_CS OR E1000_EECD_SK);
               e2 = e1 OR E1000_EECD_SK;
               e3 = e2 OR E1000_EECD_CS;
               e4 = e3 AND NOT E1000_EECD_SK
           in ew32_eecd e4 (ew32_eecd e3 (ew32_eecd e2 (ew32_eecd e1 h0))))
        else if ee_is e1000_eeprom_spi h then
          (let e1 = eecd OR E1000_EECD_CS;
               e2 = e1 AND NOT E1000_EECD_CS
           in ew32_eecd e2 (ew32_eecd e1 h0))
        else h0)"

definition e1000_release_eeprom :: "ee_device \<Rightarrow> ee_hw \<Rightarrow> ee_hw" where
  "e1000_release_eeprom dev h = (
     let (eecd, h0) = er32_eecd dev h;
         (e, h1) =
           (if ee_is e1000_eeprom_spi h then
              (let e1 = (eecd OR E1000_EECD_CS) AND NOT E1000_EECD_SK in (e1, ew32_eecd e1 h0))
            else if ee_is e1000_eeprom_microwire h then
              (let e1 = eecd AND NOT (E1000_EECD_CS OR E1000_EECD_DI);
                   e2 = e1 OR E1000_EECD_SK;
                   e3 = e2 AND NOT E1000_EECD_SK
               in (e3, ew32_eecd e3 (ew32_eecd e2 (ew32_eecd e1 h0))))
            else (eecd, h0))
     in if eh_mac_type h > e1000_82544 then ew32_eecd (e AND NOT E1000_EECD_REQ) h1 else h1)"

section \<open>Reading\<close>

abbreviation (input) EEPROM_MAX_RETRY_SPI :: nat where "EEPROM_MAX_RETRY_SPI \<equiv> 5000"

text \<open>The result is the final retry count.\<close>

function spi_ready_loop :: "ee_device \<Rightarrow> nat \<Rightarrow> ee_hw \<Rightarrow> nat \<times> ee_hw" where
  "spi_ready_loop dev retry_count h = (
     let h1 = e1000_shift_out_ee_bits dev 0x05 (ee_opcode_bits (eh_eeprom h)) h;
         (stat, h2) = e1000_shift_in_ee_bits dev 8 h1
     in if (ucast stat :: u8) AND 1 = 0 then (retry_count, h2)
        else
          let h3 = e1000_standby_eeprom dev h2
          in if retry_count + 5 < EEPROM_MAX_RETRY_SPI then spi_ready_loop dev (retry_count + 5) h3
             else (retry_count + 5, h3))"
  by pat_completeness auto
termination
  by (relation "measure (\<lambda>(_, r, _). EEPROM_MAX_RETRY_SPI - r)") simp_all

declare spi_ready_loop.simps [simp del]

definition e1000_spi_eeprom_ready :: "ee_device \<Rightarrow> ee_hw \<Rightarrow> bool \<times> ee_hw" where
  "e1000_spi_eeprom_ready dev h = (
     let (r, h1) = spi_ready_loop dev 0 h in (r < EEPROM_MAX_RETRY_SPI, h1))"

primrec read_spi_words :: "ee_device \<Rightarrow> nat \<Rightarrow> ee_hw \<Rightarrow> u16 list \<times> ee_hw" where
  "read_spi_words dev 0 h = ([], h)"
| "read_spi_words dev (Suc n) h = (
     let (w, h1) = e1000_shift_in_ee_bits dev 16 h;
         (ws, h2) = read_spi_words dev n h1
     in (bswap16 w # ws, h2))"

primrec read_microwire_words :: "ee_device \<Rightarrow> nat \<Rightarrow> u16 \<Rightarrow> ee_hw \<Rightarrow> u16 list \<times> ee_hw" where
  "read_microwire_words dev 0 offset h = ([], h)"
| "read_microwire_words dev (Suc n) offset h = (
     let h1 = e1000_shift_out_ee_bits dev 0x6 (ee_opcode_bits (eh_eeprom h)) h;
         h2 = e1000_shift_out_ee_bits dev offset (ee_address_bits (eh_eeprom h)) h1;
         (w, h3) = e1000_shift_in_ee_bits dev 16 h2;
         (ws, h4) = read_microwire_words dev n (offset + 1) (e1000_standby_eeprom dev h3)
     in (w # ws, h4))"

text \<open>The opcode carries the ninth address bit of the chips that have only eight in the address.\<close>

definition spi_opcode :: "u16 \<Rightarrow> ee_hw \<Rightarrow> u16 \<Rightarrow> u16" where
  "spi_opcode opcode h offset =
     (if ee_address_bits (eh_eeprom h) = 8 \<and> offset \<ge> 128 then opcode OR 0x08 else opcode)"

definition read_spi :: "ee_device \<Rightarrow> u16 \<Rightarrow> u16 \<Rightarrow> ee_hw \<Rightarrow> (ee_error + u16 list) \<times> ee_hw" where
  "read_spi dev offset words h = (
     let (ready, h1) = e1000_spi_eeprom_ready dev h
     in if \<not> ready then (Inl E1000_ERR_EEPROM, h1)
        else
          let h2 = e1000_standby_eeprom dev h1;
              h3 = e1000_shift_out_ee_bits dev (spi_opcode 0x03 h2 offset) (ee_opcode_bits (eh_eeprom h2)) h2;
              h4 = e1000_shift_out_ee_bits dev (offset * 2) (ee_address_bits (eh_eeprom h3)) h3;
              (ws, h5) = read_spi_words dev (unat words) h4
          in (Inr ws, h5))"

definition out_of_bounds :: "u16 \<Rightarrow> u16 \<Rightarrow> ee_hw \<Rightarrow> bool" where
  "out_of_bounds offset words h \<longleftrightarrow>
     offset \<ge> ee_word_size (eh_eeprom h)
     \<or> unat words > unat (ee_word_size (eh_eeprom h)) - unat offset \<or> words = 0"

text \<open>
  From the check of the arguments on. A chip that is neither SPI nor Microwire transfers nothing:
  the words of the buffer are left as they were, here the result \<open>buf\<close> the caller passed.
\<close>

definition read_words :: "ee_device \<Rightarrow> u16 list \<Rightarrow> u16 \<Rightarrow> u16 \<Rightarrow> ee_hw \<Rightarrow> (ee_error + u16 list) \<times> ee_hw" where
  "read_words dev buf offset words h = (
     if out_of_bounds offset words h then (Inl E1000_ERR_EEPROM, h)
     else
       let (granted, h1) = e1000_acquire_eeprom dev h
       in if \<not> granted then (Inl E1000_ERR_EEPROM, h1)
          else
            let (r, h2) =
                  (if ee_is e1000_eeprom_spi h1 then read_spi dev offset words h1
                   else if ee_is e1000_eeprom_microwire h1 then
                     (let (ws, h2) = read_microwire_words dev (unat words) offset h1 in (Inr ws, h2))
                   else (Inr buf, h1))
            in (r, e1000_release_eeprom dev h2))"

text \<open>
  The configuration memory of a CE4100: \<open>ioread16_rep\<close> and \<open>iowrite16_rep\<close> access one address once
  for each word; the read is at twice the offset, the write at the offset.
\<close>

definition flash_word :: "(nat \<Rightarrow> u8) \<Rightarrow> nat \<Rightarrow> u16" where
  "flash_word fl a = ucast (fl a) OR push_bit 8 (ucast (fl (a + 1)))"

definition GBE_CONFIG_FLASH_READ :: "(nat \<Rightarrow> u8) \<Rightarrow> u16 \<Rightarrow> u16 \<Rightarrow> u16 list" where
  "GBE_CONFIG_FLASH_READ fl offset count = replicate (unat count) (flash_word fl (2 * unat offset))"

definition GBE_CONFIG_FLASH_WRITE :: "(nat \<Rightarrow> u8) \<Rightarrow> u16 \<Rightarrow> u16 list \<Rightarrow> nat \<Rightarrow> u8" where
  "GBE_CONFIG_FLASH_WRITE fl offset data =
     foldl (\<lambda>fl w. fl(unat offset := ucast w, unat offset + 1 := ucast (drop_bit 8 w))) fl data"

text \<open>The function once the size of the EEPROM is known.\<close>

definition read_sized :: "ee_device \<Rightarrow> u16 list \<Rightarrow> u16 \<Rightarrow> u16 \<Rightarrow> ee_hw \<Rightarrow> (ee_error + u16 list) \<times> ee_hw" where
  "read_sized dev buf offset words h =
     (if eh_mac_type h = e1000_ce4100 then (Inr (GBE_CONFIG_FLASH_READ (eh_flash h) offset words), h)
      else read_words dev buf offset words h)"

text \<open>A second \<open>spin_lock\<close> by the holder never returns: the result is \<open>None\<close>.\<close>

definition with_eeprom_lock :: "(ee_hw \<Rightarrow> ('a \<times> ee_hw) option) \<Rightarrow> ee_hw \<Rightarrow> ('a \<times> ee_hw) option" where
  "with_eeprom_lock f h = (
     if eh_lock h then None
     else case f (h\<lparr>eh_lock := True\<rparr>) of
       None \<Rightarrow> None
     | Some (r, h1) \<Rightarrow> Some (r, h1\<lparr>eh_lock := False\<rparr>))"

section \<open>Detection\<close>

definition microwire_chip :: "u16 \<Rightarrow> u16 \<Rightarrow> e1000_eeprom_info \<Rightarrow> e1000_eeprom_info" where
  "microwire_chip words bits e = e\<lparr>ee_type := e1000_eeprom_microwire, ee_word_size := words, ee_opcode_bits := 3,
     ee_address_bits := bits, ee_delay_usec := 50\<rparr>"

definition spi_chip :: "u16 \<Rightarrow> u16 \<Rightarrow> e1000_eeprom_info \<Rightarrow> e1000_eeprom_info" where
  "spi_chip page bits e = e\<lparr>ee_type := e1000_eeprom_spi, ee_opcode_bits := 8, ee_delay_usec := 1,
     ee_page_size := page, ee_address_bits := bits\<rparr>"

definition detect_eeprom :: "e1000_mac_type \<Rightarrow> u32 \<Rightarrow> e1000_eeprom_info \<Rightarrow> e1000_eeprom_info" where
  "detect_eeprom mac eecd e = (
     if mac \<in> {e1000_82542_rev2_0, e1000_82542_rev2_1, e1000_82543, e1000_82544} then microwire_chip 64 6 e
     else if mac \<in> {e1000_82540, e1000_82545, e1000_82545_rev_3, e1000_82546, e1000_82546_rev_3} then
       (if eecd AND E1000_EECD_SIZE \<noteq> 0 then microwire_chip 256 8 e else microwire_chip 64 6 e)
     else if mac \<in> {e1000_82541, e1000_82541_rev_2, e1000_82547, e1000_82547_rev_2} then
       (if eecd AND E1000_EECD_TYPE \<noteq> 0 then
          (if eecd AND E1000_EECD_ADDR_BITS \<noteq> 0 then spi_chip 32 16 e else spi_chip 8 8 e)
        else if eecd AND E1000_EECD_ADDR_BITS \<noteq> 0 then microwire_chip 256 8 e else microwire_chip 64 6 e)
     else e)"

text \<open>The size of an SPI chip is a field of its word 0x12.\<close>

definition spi_word_size :: "u16 \<Rightarrow> u16" where
  "spi_word_size w = (
     let n = drop_bit 10 (w AND 0x1C00);
         n1 = (if n \<noteq> 0 then n + 1 else n)
     in push_bit (unat n1 + 6) 1)"

definition set_word_size :: "u16 \<Rightarrow> ee_hw \<Rightarrow> ee_hw" where
  "set_word_size n h = h\<lparr>eh_eeprom := (eh_eeprom h)\<lparr>ee_word_size := n\<rparr>\<rparr>"

text \<open>
  The inner \<open>e1000_read_eeprom\<close> runs with the size set to 64, so that it does not detect the chip
  again; the variable it fills has no value before, here \<open>junk\<close>.
\<close>

definition e1000_init_eeprom_params :: "ee_device \<Rightarrow> u16 \<Rightarrow> ee_hw \<Rightarrow> ((ee_error + unit) \<times> ee_hw) option" where
  "e1000_init_eeprom_params dev junk h = (
     let (eecd, h0) = er32_eecd dev h;
         h1 = h0\<lparr>eh_eeprom := detect_eeprom (eh_mac_type h0) eecd (eh_eeprom h0)\<rparr>
     in if ee_is e1000_eeprom_spi h1 then
          (case with_eeprom_lock (\<lambda>h. Some (read_sized dev [junk] 0x12 1 h)) (set_word_size 64 h1) of
             None \<Rightarrow> None
           | Some (Inl e, h2) \<Rightarrow> Some (Inl e, h2)
           | Some (Inr ws, h2) \<Rightarrow> Some (Inr (), set_word_size (spi_word_size (hd ws)) h2))
        else Some (Inr (), h1))"

definition detected :: "ee_device \<Rightarrow> u16 \<Rightarrow> ee_hw \<Rightarrow> ee_hw option" where
  "detected dev junk h =
     (if ee_word_size (eh_eeprom h) = 0 then map_option snd (e1000_init_eeprom_params dev junk h) else Some h)"

definition e1000_do_read_eeprom :: "ee_device \<Rightarrow> u16 list \<Rightarrow> u16 \<Rightarrow> u16 \<Rightarrow> ee_hw
    \<Rightarrow> ((ee_error + u16 list) \<times> ee_hw) option" where
  "e1000_do_read_eeprom dev buf offset words h = (
     if eh_mac_type h = e1000_ce4100 then Some (read_sized dev buf offset words h)
     else case detected dev (hd buf) h of
       None \<Rightarrow> None
     | Some h1 \<Rightarrow> Some (read_sized dev buf offset words h1))"

definition e1000_read_eeprom :: "ee_device \<Rightarrow> u16 list \<Rightarrow> u16 \<Rightarrow> u16 \<Rightarrow> ee_hw
    \<Rightarrow> ((ee_error + u16 list) \<times> ee_hw) option" where
  "e1000_read_eeprom dev buf offset words = with_eeprom_lock (e1000_do_read_eeprom dev buf offset words)"

section \<open>Writing\<close>

text \<open>The words of one page; the result is the number of words written and what is left.\<close>

fun write_spi_page :: "ee_device \<Rightarrow> u16 \<Rightarrow> nat \<Rightarrow> u16 list \<Rightarrow> ee_hw \<Rightarrow> nat \<times> u16 list \<times> ee_hw" where
  "write_spi_page dev offset widx [] h = (widx, [], h)"
| "write_spi_page dev offset widx (w # ws) h = (
     let h1 = e1000_shift_out_ee_bits dev (bswap16 w) 16 h
     in if (unat offset + (widx + 1)) * 2 mod unat (ee_page_size (eh_eeprom h)) = 0
        then (widx + 1, ws, e1000_standby_eeprom dev h1)
        else write_spi_page dev offset (widx + 1) ws h1)"

lemma write_spi_page_le: "length (fst (snd (write_spi_page dev offset widx ws h))) \<le> length ws"
  by (induction dev offset widx ws h rule: write_spi_page.induct) (auto simp: Let_def intro: le_SucI)

lemma write_spi_page_less:
  "ws \<noteq> [] \<Longrightarrow> (case write_spi_page dev offset widx ws h of (i, ws1, h1) \<Rightarrow> length ws1) < length ws"
  by (cases ws) (simp_all add: Let_def le_imp_less_Suc write_spi_page_le case_prod_beta)

function write_spi_loop :: "ee_device \<Rightarrow> u16 \<Rightarrow> nat \<Rightarrow> u16 list \<Rightarrow> ee_hw \<Rightarrow> (ee_error + unit) \<times> ee_hw" where
  "write_spi_loop dev offset widx ws h = (
     if ws = [] then (Inr (), h)
     else
       let (ready, h1) = e1000_spi_eeprom_ready dev h
       in if \<not> ready then (Inl E1000_ERR_EEPROM, h1)
          else
            let bits = ee_opcode_bits (eh_eeprom h1);
                h2 = e1000_shift_out_ee_bits dev 0x06 bits (e1000_standby_eeprom dev h1);
                h3 = e1000_standby_eeprom dev h2;
                h4 = e1000_shift_out_ee_bits dev (spi_opcode 0x02 h3 offset) bits h3;
                h5 = e1000_shift_out_ee_bits dev ((offset + of_nat widx) * 2) (ee_address_bits (eh_eeprom h4)) h4
            in case write_spi_page dev offset widx ws h5 of
                 (widx1, ws1, h6) \<Rightarrow> write_spi_loop dev offset widx1 ws1 h6)"
  by pat_completeness auto
termination
proof (relation "measure (\<lambda>(_, _, _, ws, _). length ws)", goal_cases)
  case 1
  show ?case by simp
next
  case (2 dev offset widx ws)
  then show ?case by (clarsimp simp: write_spi_page_less)
qed

declare write_spi_loop.simps [simp del]

definition e1000_write_eeprom_spi :: "ee_device \<Rightarrow> u16 \<Rightarrow> u16 list \<Rightarrow> ee_hw \<Rightarrow> (ee_error + unit) \<times> ee_hw" where
  "e1000_write_eeprom_spi dev offset data h = write_spi_loop dev offset 0 data h"

text \<open>The driver waits for a Microwire chip until it raises DO, for at most 200 reads.\<close>

primrec await_write :: "ee_device \<Rightarrow> nat \<Rightarrow> ee_hw \<Rightarrow> bool \<times> ee_hw" where
  "await_write dev 0 h = (False, h)"
| "await_write dev (Suc n) h = (
     let (eecd, h1) = er32_eecd dev h
     in if eecd AND E1000_EECD_DO \<noteq> 0 then (True, h1) else await_write dev n h1)"

primrec write_microwire_words :: "ee_device \<Rightarrow> u16 \<Rightarrow> u16 list \<Rightarrow> ee_hw \<Rightarrow> (ee_error + unit) \<times> ee_hw" where
  "write_microwire_words dev offset [] h = (Inr (), h)"
| "write_microwire_words dev offset (w # ws) h = (
     let h1 = e1000_shift_out_ee_bits dev 0x5 (ee_opcode_bits (eh_eeprom h)) h;
         h2 = e1000_shift_out_ee_bits dev offset (ee_address_bits (eh_eeprom h)) h1;
         h3 = e1000_shift_out_ee_bits dev w 16 h2;
         (written, h4) = await_write dev 200 (e1000_standby_eeprom dev h3)
     in if \<not> written then (Inl E1000_ERR_EEPROM, h4)
        else write_microwire_words dev (offset + 1) ws (e1000_standby_eeprom dev h4))"

definition e1000_write_eeprom_microwire :: "ee_device \<Rightarrow> u16 \<Rightarrow> u16 list \<Rightarrow> ee_hw \<Rightarrow> (ee_error + unit) \<times> ee_hw" where
  "e1000_write_eeprom_microwire dev offset data h = (
     let op = ee_opcode_bits (eh_eeprom h) + 2;
         ad = ee_address_bits (eh_eeprom h) - 2;
         h1 = e1000_shift_out_ee_bits dev 0 ad (e1000_shift_out_ee_bits dev 0x13 op h);
         (r, h2) = write_microwire_words dev offset data (e1000_standby_eeprom dev h1)
     in case r of
          Inl e \<Rightarrow> (Inl e, h2)
        | Inr _ \<Rightarrow> (Inr (), e1000_shift_out_ee_bits dev 0 ad (e1000_shift_out_ee_bits dev 0x10 op h2)))"

text \<open>\<open>data\<close> holds as many words as the caller asks to write.\<close>

definition write_words :: "ee_device \<Rightarrow> u16 \<Rightarrow> u16 list \<Rightarrow> ee_hw \<Rightarrow> (ee_error + unit) \<times> ee_hw" where
  "write_words dev offset data h = (
     if out_of_bounds offset (of_nat (length data)) h then (Inl E1000_ERR_EEPROM, h)
     else
       let (granted, h1) = e1000_acquire_eeprom dev h
       in if \<not> granted then (Inl E1000_ERR_EEPROM, h1)
          else
            let (r, h2) = (if ee_is e1000_eeprom_microwire h1 then e1000_write_eeprom_microwire dev offset data h1
                           else e1000_write_eeprom_spi dev offset data h1)
            in (r, e1000_release_eeprom dev h2))"

definition e1000_do_write_eeprom :: "ee_device \<Rightarrow> u16 \<Rightarrow> u16 \<Rightarrow> u16 list \<Rightarrow> ee_hw
    \<Rightarrow> ((ee_error + unit) \<times> ee_hw) option" where
  "e1000_do_write_eeprom dev junk offset data h = (
     if eh_mac_type h = e1000_ce4100 then
       Some (Inr (), h\<lparr>eh_flash := GBE_CONFIG_FLASH_WRITE (eh_flash h) offset data\<rparr>)
     else case detected dev junk h of
       None \<Rightarrow> None
     | Some h1 \<Rightarrow> Some (write_words dev offset data h1))"

definition e1000_write_eeprom :: "ee_device \<Rightarrow> u16 \<Rightarrow> u16 \<Rightarrow> u16 list \<Rightarrow> ee_hw
    \<Rightarrow> ((ee_error + unit) \<times> ee_hw) option" where
  "e1000_write_eeprom dev junk offset data = with_eeprom_lock (e1000_do_write_eeprom dev junk offset data)"

section \<open>Checksum and station address\<close>

abbreviation (input) EEPROM_SUM :: u16 where "EEPROM_SUM \<equiv> 0xBABA"
abbreviation (input) EEPROM_CHECKSUM_REG :: u16 where "EEPROM_CHECKSUM_REG \<equiv> 0x3F"

text \<open>The sum of \<open>n\<close> words from \<open>i\<close> on, each read by a call of its own into \<open>eeprom_data\<close>.\<close>

primrec sum_words :: "ee_device \<Rightarrow> nat \<Rightarrow> u16 \<Rightarrow> u16 \<Rightarrow> u16 \<Rightarrow> ee_hw \<Rightarrow> ((ee_error + u16) \<times> ee_hw) option" where
  "sum_words dev 0 i eeprom_data checksum h = Some (Inr checksum, h)"
| "sum_words dev (Suc n) i eeprom_data checksum h = (
     case e1000_read_eeprom dev [eeprom_data] i 1 h of
       None \<Rightarrow> None
     | Some (Inl e, h1) \<Rightarrow> Some (Inl e, h1)
     | Some (Inr ws, h1) \<Rightarrow> sum_words dev n (i + 1) (hd ws) (checksum + hd ws) h1)"

definition e1000_validate_eeprom_checksum :: "ee_device \<Rightarrow> u16 \<Rightarrow> ee_hw \<Rightarrow> ((ee_error + unit) \<times> ee_hw) option" where
  "e1000_validate_eeprom_checksum dev junk h = (
     case sum_words dev (unat EEPROM_CHECKSUM_REG + 1) 0 junk 0 h of
       None \<Rightarrow> None
     | Some (Inl e, h1) \<Rightarrow> Some (Inl E1000_ERR_EEPROM, h1)
     | Some (Inr checksum, h1) \<Rightarrow> Some (if checksum = EEPROM_SUM then Inr () else Inl E1000_ERR_EEPROM, h1))"

definition e1000_update_eeprom_checksum :: "ee_device \<Rightarrow> u16 \<Rightarrow> ee_hw \<Rightarrow> ((ee_error + unit) \<times> ee_hw) option" where
  "e1000_update_eeprom_checksum dev junk h = (
     case sum_words dev (unat EEPROM_CHECKSUM_REG) 0 junk 0 h of
       None \<Rightarrow> None
     | Some (Inl e, h1) \<Rightarrow> Some (Inl E1000_ERR_EEPROM, h1)
     | Some (Inr checksum, h1) \<Rightarrow>
         (case e1000_write_eeprom dev junk EEPROM_CHECKSUM_REG [EEPROM_SUM - checksum] h1 of
            None \<Rightarrow> None
          | Some (Inl e, h2) \<Rightarrow> Some (Inl E1000_ERR_EEPROM, h2)
          | Some (Inr _, h2) \<Rightarrow> Some (Inr (), h2)))"

text \<open>The address is read word by word, the low byte first.\<close>

primrec read_mac_words :: "ee_device \<Rightarrow> nat \<Rightarrow> nat \<Rightarrow> u16 \<Rightarrow> ee_hw \<Rightarrow> ((ee_error + unit) \<times> ee_hw) option" where
  "read_mac_words dev 0 i eeprom_data h = Some (Inr (), h)"
| "read_mac_words dev (Suc n) i eeprom_data h = (
     case e1000_read_eeprom dev [eeprom_data] (of_nat (i div 2)) 1 h of
       None \<Rightarrow> None
     | Some (Inl e, h1) \<Rightarrow> Some (Inl E1000_ERR_EEPROM, h1)
     | Some (Inr ws, h1) \<Rightarrow>
         read_mac_words dev n (i + 2) (hd ws)
           (h1\<lparr>eh_perm_mac_addr := (eh_perm_mac_addr h1)[i := ucast (hd ws AND 0xFF), i + 1 := ucast (drop_bit 8 (hd ws))]\<rparr>))"

definition e1000_read_mac_addr :: "ee_device \<Rightarrow> u32 \<Rightarrow> u16 \<Rightarrow> ee_hw \<Rightarrow> ((ee_error + unit) \<times> ee_hw) option" where
  "e1000_read_mac_addr dev status junk h = (
     case read_mac_words dev 3 0 junk h of
       None \<Rightarrow> None
     | Some (Inl e, h1) \<Rightarrow> Some (Inl e, h1)
     | Some (Inr _, h1) \<Rightarrow>
         let perm = (if eh_mac_type h1 \<in> {e1000_82546, e1000_82546_rev_3} \<and> status AND 0x4 \<noteq> 0
                     then (eh_perm_mac_addr h1)[5 := eh_perm_mac_addr h1 ! 5 XOR 0x01] else eh_perm_mac_addr h1)
         in Some (Inr (), h1\<lparr>eh_perm_mac_addr := perm, eh_mac_addr := perm\<rparr>))"

end
