(* ===== verification/Dysco_E1000_Wire.thy ===== *)
theory Dysco_E1000_Wire
  imports Dysco_E1000_Eeprom
begin

text \<open>
  What an EEPROM chip sees of the driver: the level of its select input, its clock, and the bits it
  takes at the rising edges of the clock while it is selected. The bits between two changes of the
  select input are a frame. The lemmas give the effect of each bit operation of the driver on the
  wire, for a chip selected by a high level (Microwire) or by a low level (SPI).
\<close>

section \<open>The wire\<close>

record ee_wire =
  wi_sel :: bool
  wi_clk :: bool
  wi_sent :: "bool list"
  wi_frames :: "bool list list"

definition wire_idle :: "bool \<Rightarrow> ee_wire" where
  "wire_idle lvl = \<lparr>wi_sel = \<not> lvl, wi_clk = False, wi_sent = [], wi_frames = []\<rparr>"

fun wire_step :: "bool \<Rightarrow> ee_wire \<Rightarrow> ee_event \<Rightarrow> ee_wire" where
  "wire_step lvl w (Rd v) = w"
| "wire_step lvl w (Wr v) = (
     if bit v 1 = lvl then
       w\<lparr>wi_sel := True, wi_clk := bit v 0,
         wi_sent := (if bit v 0 \<and> \<not> wi_clk w then wi_sent w @ [bit v 2] else wi_sent w)\<rparr>
     else \<lparr>wi_sel = False, wi_clk = bit v 0, wi_sent = [],
           wi_frames = (if wi_sent w = [] then wi_frames w else wi_frames w @ [wi_sent w])\<rparr>)"

definition wire :: "bool \<Rightarrow> ee_event list \<Rightarrow> ee_wire" where
  "wire lvl log = foldl (wire_step lvl) (wire_idle lvl) log"

lemma wire_append [simp]: "wire lvl (log @ es) = foldl (wire_step lvl) (wire lvl log) es"
  by (simp add: wire_def)

text \<open>The value last written to the register, all zero after a reset.\<close>

definition eecd_last :: "ee_event list \<Rightarrow> u32" where
  "eecd_last log = foldl (\<lambda>r e. case e of Wr v \<Rightarrow> v | Rd v \<Rightarrow> r) 0 log"

lemma eecd_last_append [simp]:
  "eecd_last (log @ es @ [Wr v]) = v" "eecd_last (log @ [Wr v]) = v" "eecd_last (log @ [Rd v]) = eecd_last log"
  by (simp_all add: eecd_last_def)

lemma wire_level: "wi_sel (wire lvl log) = (bit (eecd_last log) 1 = lvl)" "wi_clk (wire lvl log) = bit (eecd_last log) 0"
proof (induction log rule: rev_induct)
  case Nil
  { case 1 show ?case by (simp add: wire_def wire_idle_def eecd_last_def) }
  { case 2 show ?case by (simp add: wire_def wire_idle_def eecd_last_def) }
next
  case (snoc e log)
  { case 1 show ?case using snoc by (cases e) simp_all }
  { case 2 show ?case using snoc by (cases e) simp_all }
qed

text \<open>
  The device keeps the bits the driver writes: clock, select, data and request read back as they
  were last written.
\<close>

definition keeps_bits :: "ee_device \<Rightarrow> bool" where
  "keeps_bits dev \<longleftrightarrow> (\<forall>log. \<forall>i \<in> {0, 1, 2, 6}. bit (dev log) i = bit (eecd_last log) i)"

lemma keeps_bitsD:
  "keeps_bits dev \<Longrightarrow> bit (dev log) 0 = wi_clk (wire lvl log)"
  "keeps_bits dev \<Longrightarrow> (bit (dev log) (Suc 0) = lvl) = wi_sel (wire lvl log)"
  "keeps_bits dev \<Longrightarrow> bit (dev log) 6 = bit (eecd_last log) 6"
  by (simp_all add: keeps_bits_def wire_level)

text \<open>A state with the chip selected, the clock low and \<open>s\<close> the bits of the open frame.\<close>

definition on_wire :: "bool \<Rightarrow> bool list \<Rightarrow> bool list list \<Rightarrow> ee_hw \<Rightarrow> bool" where
  "on_wire lvl s fs h \<longleftrightarrow> wire lvl (eh_log h) = \<lparr>wi_sel = True, wi_clk = False, wi_sent = s, wi_frames = fs\<rparr>"

text \<open>A state between two commands: no open frame, the clock low.\<close>

definition off_wire :: "bool \<Rightarrow> bool list list \<Rightarrow> ee_hw \<Rightarrow> bool" where
  "off_wire lvl fs h \<longleftrightarrow> (\<exists>sel. wire lvl (eh_log h) = \<lparr>wi_sel = sel, wi_clk = False, wi_sent = [], wi_frames = fs\<rparr>)"

text \<open>The level that selects the chip.\<close>

definition select_level :: "ee_hw \<Rightarrow> bool" where
  "select_level h = ee_is e1000_eeprom_microwire h"

section \<open>Registers\<close>

named_theorems eecd_bits \<open>bits of the register after a step of the driver\<close>

lemma and_bit [eecd_bits]:
  "(v :: u32) AND 0x8 = 0 \<longleftrightarrow> \<not> bit v 3" "(v :: u32) AND 0x80 = 0 \<longleftrightarrow> \<not> bit v 7"
  using and_exp_eq_0_iff_not_bit [of v 3] and_exp_eq_0_iff_not_bit [of v 7] by simp_all

lemma and_exp [eecd_bits]: "(v :: 'a::len word) AND push_bit k 1 = 0 \<longleftrightarrow> \<not> bit v k"
  by (simp add: push_bit_eq_mult and_exp_eq_0_iff_not_bit)

lemma er32_wire:
  "wire lvl (eh_log (snd (er32_eecd dev h))) = wire lvl (eh_log h)"
  "eecd_last (eh_log (snd (er32_eecd dev h))) = eecd_last (eh_log h)"
  by (simp_all add: er32_eecd_def Let_def)

text \<open>The operations leave everything but the register alone.\<close>

definition same_hw :: "ee_hw \<Rightarrow> ee_hw \<Rightarrow> bool" where
  "same_hw h1 h \<longleftrightarrow> h1 = h\<lparr>eh_log := eh_log h1\<rparr>"

lemma same_hw_refl [simp]: "same_hw h h"
  by (simp add: same_hw_def)

lemma same_hw_trans: "same_hw h2 h1 \<Longrightarrow> same_hw h1 h \<Longrightarrow> same_hw h2 h"
  by (cases h; cases h1; cases h2) (simp add: same_hw_def)

lemma same_hw_write [simp]: "same_hw (ew32_eecd v h1) h = same_hw h1 h"
  by (cases h; cases h1) (auto simp: same_hw_def ew32_eecd_def)

lemma same_hw_log [simp]: "same_hw (h1\<lparr>eh_log := l\<rparr>) h = same_hw h1 h"
  by (cases h; cases h1) (auto simp: same_hw_def)

lemma same_hw_log_right [simp]: "same_hw h1 (h\<lparr>eh_log := l\<rparr>) = same_hw h1 h"
  by (cases h; cases h1) (auto simp: same_hw_def)

lemma same_hwD:
  assumes "same_hw h1 h"
  shows "eh_eeprom h1 = eh_eeprom h" "eh_mac_type h1 = eh_mac_type h" "eh_lock h1 = eh_lock h"
    "eh_flash h1 = eh_flash h" "eh_perm_mac_addr h1 = eh_perm_mac_addr h" "eh_mac_addr h1 = eh_mac_addr h"
  using assms by (cases h; cases h1; simp add: same_hw_def)+

section \<open>Sending bits\<close>

definition ee_bits :: "nat \<Rightarrow> u16 \<Rightarrow> bool list" where
  "ee_bits n d = map (bit d) (rev [0..<n])"

lemma ee_bits_Suc [simp]: "ee_bits (Suc n) d = bit d n # ee_bits n d"
  by (simp add: ee_bits_def)

lemma ee_bits_0 [simp]: "ee_bits 0 d = []"
  by (simp add: ee_bits_def)

lemma length_ee_bits [simp]: "length (ee_bits n d) = n"
  by (simp add: ee_bits_def)

lemmas ew32_wire = ew32_eecd_def on_wire_def

lemma shift_out_bit_wire:
  assumes w: "on_wire lvl s fs h" and e: "bit e (Suc 0) = lvl" and k: "k < 32"
    and r: "shift_out_bit data (push_bit k 1) e h = (e1, h1)"
  shows "on_wire lvl (s @ [bit data k]) fs h1 \<and> bit e1 (Suc 0) = lvl \<and> \<not> bit e1 0 \<and> same_hw h1 h"
proof -
  have d: "bit (ucast data :: u32) k = bit data k"
    by (auto simp: bit_simps dest: bit_imp_le_length)
  show ?thesis
    using w e k r by (auto simp: shift_out_bit_def e1000_raise_ee_clk_def e1000_lower_ee_clk_def Let_def
      ew32_wire bit_simps and_exp [unfolded push_bit_of_1] d split: if_splits)
qed

lemma shift_out_bits_wire:
  "on_wire lvl s fs h \<Longrightarrow> bit e (Suc 0) = lvl \<Longrightarrow> k < 32 \<Longrightarrow> shift_out_bits data (push_bit k 1) e h = (e1, h1)
    \<Longrightarrow> on_wire lvl (s @ ee_bits (Suc k) data) fs h1 \<and> bit e1 (Suc 0) = lvl \<and> \<not> bit e1 0 \<and> same_hw h1 h"
proof (induction k arbitrary: s e h)
  case 0
  obtain e2 h2 where r: "shift_out_bit data (push_bit 0 1) e h = (e2, h2)" by fastforce
  have "drop_bit 1 (push_bit 0 1 :: u32) = 0" by simp
  then show ?case
    using 0 r shift_out_bit_wire [OF 0(1-3) r] by (simp add: shift_out_bits.simps)
next
  case (Suc k)
  obtain e2 h2 where r: "shift_out_bit data (push_bit (Suc k) 1) e h = (e2, h2)" by fastforce
  note w = shift_out_bit_wire [OF Suc.prems(1-3) r]
  have m: "drop_bit 1 (push_bit (Suc k) 1 :: u32) = push_bit k 1"
    using Suc.prems(3) by (auto intro!: bit_word_eqI simp: bit_simps)
  have nz: "(push_bit k 1 :: u32) \<noteq> 0"
    using Suc.prems(3) by simp
  have "shift_out_bits data (push_bit k 1) e2 h2 = (e1, h1)"
    using Suc.prems(4) r m nz by (subst (asm) shift_out_bits.simps) simp
  with Suc.IH [of "s @ [bit data (Suc k)]" h2 e2] w Suc.prems(3) show ?case
    by (auto dest: same_hw_trans)
qed

lemma shift_out_wire:
  assumes dev: "keeps_bits dev" and w: "on_wire lvl s fs h" and n: "0 < unat count" "unat count \<le> 32"
  shows "on_wire lvl (s @ ee_bits (unat count) data) fs (e1000_shift_out_ee_bits dev data count h)"
    and "same_hw (e1000_shift_out_ee_bits dev data count h) h"
proof -
  define e0 where "e0 = dev (eh_log h)"
  define h0 where "h0 = snd (er32_eecd dev h)"
  have w0: "on_wire lvl s fs h0" and s0: "same_hw h0 h"
    using w er32_wire(1) [of lvl dev h] by (simp_all add: h0_def on_wire_def er32_eecd_def Let_def)
  have e0: "bit e0 (Suc 0) = lvl"
    using w keeps_bitsD(2) [OF dev, where log="eh_log h" and lvl=lvl] by (simp add: e0_def on_wire_def)
  define e2 where "e2 = (if ee_is e1000_eeprom_microwire h then e0 AND NOT E1000_EECD_DO
     else if ee_is e1000_eeprom_spi h then e0 OR E1000_EECD_DO else e0)"
  have e2: "bit e2 (Suc 0) = lvl" using e0 by (simp add: e2_def bit_simps)
  obtain e3 h3 where r: "shift_out_bits data (push_bit (unat count - 1) 1) e2 h0 = (e3, h3)" by fastforce
  have k: "Suc (unat count - 1) = unat count" "unat count - 1 < 32" using n by simp_all
  note g = shift_out_bits_wire [OF w0 e2 k(2) r, unfolded k(1)]
  have out: "e1000_shift_out_ee_bits dev data count h = ew32_eecd (e3 AND NOT E1000_EECD_DI) h3"
    using r by (auto simp: e1000_shift_out_ee_bits_def Let_def er32_eecd_def e0_def h0_def e2_def split: if_splits)
  show "on_wire lvl (s @ ee_bits (unat count) data) fs (e1000_shift_out_ee_bits dev data count h)"
    and "same_hw (e1000_shift_out_ee_bits dev data count h) h"
    using g s0 by (auto simp: out ew32_wire bit_simps dest: same_hw_trans)
qed

section \<open>Receiving bits\<close>

text \<open>One clock of the receiving loop: what it reads, and what the chip sees.\<close>

lemma shift_in_step:
  assumes dev: "keeps_bits dev" and w: "on_wire lvl s fs h" and e: "bit e (Suc 0) = lvl" "\<not> bit e 2"
  obtains v e1 h1 where
    "\<And>n d. shift_in_bits dev (Suc n) d e h
       = shift_in_bits dev n (if bit v 3 then push_bit 1 d OR 1 else push_bit 1 d) e1 h1"
    "\<exists>log. v = dev log \<and> wire lvl log = \<lparr>wi_sel = True, wi_clk = True, wi_sent = s @ [False], wi_frames = fs\<rparr>"
    "on_wire lvl (s @ [False]) fs h1" "bit e1 (Suc 0) = lvl" "\<not> bit e1 2" "same_hw h1 h"
proof
  define l1 where "l1 = eh_log h @ [Wr (e OR E1000_EECD_SK)]"
  define v where "v = dev l1"
  define e1 where "e1 = (v AND NOT E1000_EECD_DI) AND NOT E1000_EECD_SK"
  define h1 where "h1 = h\<lparr>eh_log := l1 @ [Rd v, Wr e1]\<rparr>"
  have l1: "wire lvl l1 = \<lparr>wi_sel = True, wi_clk = True, wi_sent = s @ [False], wi_frames = fs\<rparr>"
    using w e by (simp add: l1_def on_wire_def bit_simps)
  have v: "bit v (Suc 0) = lvl"
    using keeps_bitsD(2) [OF dev, where log=l1 and lvl=lvl] l1 by (simp add: v_def)
  show "shift_in_bits dev (Suc n) d e h
       = shift_in_bits dev n (if bit v 3 then push_bit 1 d OR 1 else push_bit 1 d) e1 h1" for n d
    by (simp add: e1000_raise_ee_clk_def e1000_lower_ee_clk_def er32_eecd_def ew32_eecd_def Let_def
        eecd_bits bit_simps l1_def v_def e1_def h1_def)
  show "\<exists>log. v = dev log \<and> wire lvl log = \<lparr>wi_sel = True, wi_clk = True, wi_sent = s @ [False], wi_frames = fs\<rparr>"
    using l1 by (auto simp: v_def)
  show "on_wire lvl (s @ [False]) fs h1"
    using l1 v by (simp add: on_wire_def h1_def e1_def bit_simps)
  show "bit e1 (Suc 0) = lvl" "\<not> bit e1 2" "same_hw h1 h"
    using v by (simp_all add: e1_def h1_def bit_simps)
qed

lemma shift_in_bits_wire:
  assumes dev: "keeps_bits dev"
  shows "on_wire lvl s fs h \<Longrightarrow> bit e (Suc 0) = lvl \<Longrightarrow> \<not> bit e 2 \<Longrightarrow> shift_in_bits dev n d e h = (d1, h1)
    \<Longrightarrow> on_wire lvl (s @ replicate n False) fs h1 \<and> same_hw h1 h"
proof (induction n arbitrary: s d e h)
  case 0
  then show ?case by simp
next
  case (Suc n)
  from dev Suc.prems(1-3) obtain v e2 h2 where
    step: "\<And>n d. shift_in_bits dev (Suc n) d e h
       = shift_in_bits dev n (if bit v 3 then push_bit 1 d OR 1 else push_bit 1 d) e2 h2"
    and "\<exists>log. v = dev log \<and> wire lvl log = \<lparr>wi_sel = True, wi_clk = True, wi_sent = s @ [False], wi_frames = fs\<rparr>"
    and w: "on_wire lvl (s @ [False]) fs h2" "bit e2 (Suc 0) = lvl" "\<not> bit e2 2" "same_hw h2 h"
    by (rule shift_in_step) blast
  have sh: "(s @ [False]) @ replicate n False = s @ replicate (Suc n) False" by simp
  show ?case
    using Suc.IH [OF w(1-3), unfolded sh] Suc.prems(4) w(4)
    by (auto simp only: step intro: same_hw_trans)
qed

text \<open>A chip that puts out the bits of \<open>m\<close>, the highest first, is read as \<open>m\<close>.\<close>

definition sends :: "ee_device \<Rightarrow> bool \<Rightarrow> bool list \<Rightarrow> bool list list \<Rightarrow> nat \<Rightarrow> u16 \<Rightarrow> bool" where
  "sends dev lvl s fs n m \<longleftrightarrow> (\<forall>log. \<forall>k<n.
     wire lvl log = \<lparr>wi_sel = True, wi_clk = True, wi_sent = s @ replicate (Suc k) False, wi_frames = fs\<rparr>
     \<longrightarrow> bit (dev log) 3 = bit m (n - 1 - k))"

lemma sends_Suc:
  assumes "sends dev lvl s fs (Suc n) m"
  shows "sends dev lvl (s @ [False]) fs n m"
  unfolding sends_def
proof (intro allI impI)
  fix log k
  assume k: "k < n" and w: "wire lvl log = \<lparr>wi_sel = True, wi_clk = True,
    wi_sent = (s @ [False]) @ replicate (Suc k) False, wi_frames = fs\<rparr>"
  have "wire lvl log = \<lparr>wi_sel = True, wi_clk = True, wi_sent = s @ replicate (Suc (Suc k)) False, wi_frames = fs\<rparr>"
    using w by simp
  with assms k show "bit (dev log) 3 = bit m (n - 1 - k)"
    unfolding sends_def by (metis Suc_less_eq diff_Suc_1 diff_Suc_Suc diff_diff_left plus_1_eq_Suc)
qed

lemma shift_in_word:
  assumes "n < 16"
  shows "(if bit m n then push_bit 1 (drop_bit (Suc n) m) OR 1 else push_bit 1 (drop_bit (Suc n) m)) = drop_bit n (m :: u16)"
proof (rule bit_word_eqI)
  fix i
  assume "i < LENGTH(16)"
  then show "bit (if bit m n then push_bit 1 (drop_bit (Suc n) m) OR 1 else push_bit 1 (drop_bit (Suc n) m)) i
    = bit (drop_bit n m) i"
    by (cases i) (simp_all only: bit_or_iff bit_push_bit_iff bit_drop_bit_eq bit_1_iff o_apply if_distrib
      [of "\<lambda>w. bit w _"] possible_bit_word, auto)
qed

lemma shift_in_bits_value:
  assumes dev: "keeps_bits dev"
  shows "on_wire lvl s fs h \<Longrightarrow> bit e (Suc 0) = lvl \<Longrightarrow> \<not> bit e 2 \<Longrightarrow> n \<le> 16 \<Longrightarrow> sends dev lvl s fs n m
    \<Longrightarrow> fst (shift_in_bits dev n (drop_bit n m) e h) = m"
proof (induction n arbitrary: s e h)
  case 0
  then show ?case by simp
next
  case (Suc n)
  from dev Suc.prems(1-3) obtain v e2 h2 where
    step: "\<And>n d. shift_in_bits dev (Suc n) d e h
       = shift_in_bits dev n (if bit v 3 then push_bit 1 d OR 1 else push_bit 1 d) e2 h2"
    and v: "\<exists>log. v = dev log \<and> wire lvl log = \<lparr>wi_sel = True, wi_clk = True, wi_sent = s @ [False], wi_frames = fs\<rparr>"
    and w: "on_wire lvl (s @ [False]) fs h2" "bit e2 (Suc 0) = lvl" "\<not> bit e2 2" "same_hw h2 h"
    by (rule shift_in_step) blast
  from v obtain log where l: "v = dev log"
    "wire lvl log = \<lparr>wi_sel = True, wi_clk = True, wi_sent = s @ replicate (Suc 0) False, wi_frames = fs\<rparr>"
    by auto
  have v3: "bit v 3 = bit m n"
    using Suc.prems(5) l unfolding sends_def by (metis diff_Suc_1 minus_nat.diff_0 zero_less_Suc)
  have "(if bit v 3 then push_bit 1 (drop_bit (Suc n) m) OR 1 else push_bit 1 (drop_bit (Suc n) m)) = drop_bit n m"
    using shift_in_word [of n m] Suc.prems(4) by (simp only: v3 Suc_le_eq)
  then show ?case
    using Suc.IH [OF w(1-3) _ sends_Suc [OF Suc.prems(5)]] Suc.prems(4)
    by (simp add: step del: shift_in_bits.simps)
qed

lemma shift_in_wire:
  assumes dev: "keeps_bits dev" and w: "on_wire lvl s fs h" and r: "e1000_shift_in_ee_bits dev n h = (d, h1)"
  shows "on_wire lvl (s @ replicate n False) fs h1" "same_hw h1 h"
    and "n = 16 \<Longrightarrow> sends dev lvl s fs 16 m \<Longrightarrow> d = m"
proof -
  define h0 where "h0 = snd (er32_eecd dev h)"
  define e where "e = dev (eh_log h) AND NOT (E1000_EECD_DO OR E1000_EECD_DI)"
  have w0: "on_wire lvl s fs h0" and s0: "same_hw h0 h"
    using w er32_wire(1) [of lvl dev h] by (simp_all add: h0_def on_wire_def er32_eecd_def Let_def)
  have e: "bit e (Suc 0) = lvl" "\<not> bit e 2"
    using w keeps_bitsD(2) [OF dev, where log="eh_log h" and lvl=lvl] by (simp_all add: e_def on_wire_def bit_simps)
  have r': "shift_in_bits dev n 0 e h0 = (d, h1)"
    using r by (simp add: e1000_shift_in_ee_bits_def er32_eecd_def Let_def h0_def e_def)
  show "on_wire lvl (s @ replicate n False) fs h1" "same_hw h1 h"
    using shift_in_bits_wire [OF dev w0 e r'] s0 by (auto dest: same_hw_trans)
  assume "n = 16" "sends dev lvl s fs 16 m"
  moreover have "drop_bit 16 m = 0"
    by (rule bit_word_eqI) (simp add: bit_simps)
  ultimately show "d = m"
    using shift_in_bits_value [OF dev w0 e, of 16 m] r' by simp
qed

section \<open>Frames\<close>

text \<open>The frames once the chip is no longer selected.\<close>

definition close_frame :: "bool list list \<Rightarrow> bool list \<Rightarrow> bool list list" where
  "close_frame fs s = (if s = [] then fs else fs @ [s])"

lemma close_frame_simps [simp]:
  "close_frame fs [] = fs" "s \<noteq> [] \<Longrightarrow> close_frame fs s = fs @ [s]"
  by (simp_all add: close_frame_def)

text \<open>A chip the driver can talk to.\<close>

definition serial_chip :: "ee_hw \<Rightarrow> bool" where
  "serial_chip h \<longleftrightarrow> ee_is e1000_eeprom_microwire h \<or> ee_is e1000_eeprom_spi h"

lemma standby_wire:
  assumes dev: "keeps_bits dev" and c: "serial_chip h" and w: "on_wire (select_level h) s fs h"
  shows "on_wire (select_level h) [] (close_frame fs s) (e1000_standby_eeprom dev h)"
    and "same_hw (e1000_standby_eeprom dev h) h"
  using w c keeps_bitsD(1,2) [OF dev, where log="eh_log h" and lvl="select_level h"]
  by (auto simp: serial_chip_def select_level_def e1000_standby_eeprom_def er32_eecd_def Let_def on_wire_def ew32_eecd_def
      close_frame_def bit_simps)

lemma release_wire:
  assumes dev: "keeps_bits dev" and c: "serial_chip h" and w: "on_wire (select_level h) s fs h"
  shows "off_wire (select_level h) (close_frame fs s) (e1000_release_eeprom dev h)"
    and "same_hw (e1000_release_eeprom dev h) h"
  using w c keeps_bitsD(1,2) [OF dev, where log="eh_log h" and lvl="select_level h"]
  by (auto simp: serial_chip_def select_level_def e1000_release_eeprom_def er32_eecd_def Let_def on_wire_def ew32_eecd_def
      off_wire_def close_frame_def bit_simps)

text \<open>A device whose firmware does not hold the EEPROM grants every request.\<close>

definition grants :: "ee_device \<Rightarrow> bool" where
  "grants dev \<longleftrightarrow> (\<forall>log. bit (eecd_last log) 6 \<longrightarrow> bit (dev log) 7)"

lemma await_grant_wire:
  assumes dev: "keeps_bits dev"
  shows "(\<forall>i \<in> {0, 1, 2, 6}. bit e i = bit (eecd_last (eh_log h)) i) \<Longrightarrow> await_grant dev n e h = (e1, h1)
    \<Longrightarrow> (\<forall>i \<in> {0, 1, 2, 6}. bit e1 i = bit (eecd_last (eh_log h1)) i) \<and> same_hw h1 h
      \<and> wire lvl (eh_log h1) = wire lvl (eh_log h) \<and> eecd_last (eh_log h1) = eecd_last (eh_log h)
      \<and> (bit e 7 \<longrightarrow> bit e1 7)"
proof (induction n arbitrary: e h)
  case 0
  then show ?case by simp
next
  case (Suc n)
  show ?case
  proof (cases "bit e 7")
    case True
    then show ?thesis using Suc.prems by (simp add: eecd_bits)
  next
    case False
    define h2 where "h2 = h\<lparr>eh_log := eh_log h @ [Rd (dev (eh_log h))]\<rparr>"
    have "await_grant dev n (dev (eh_log h)) h2 = (e1, h1)"
      using Suc.prems(2) False by (simp add: eecd_bits er32_eecd_def h2_def Let_def)
    moreover have "\<forall>i \<in> {0, 1, 2, 6}. bit (dev (eh_log h)) i = bit (eecd_last (eh_log h2)) i"
      using dev by (simp add: keeps_bits_def h2_def)
    ultimately have "(\<forall>i \<in> {0, 1, 2, 6}. bit e1 i = bit (eecd_last (eh_log h1)) i) \<and> same_hw h1 h2
      \<and> wire lvl (eh_log h1) = wire lvl (eh_log h2) \<and> eecd_last (eh_log h1) = eecd_last (eh_log h2)"
      using Suc.IH by blast
    then show ?thesis using False by (auto simp: h2_def intro: same_hw_trans)
  qed
qed

lemma select_wire:
  assumes c: "serial_chip h" and w: "off_wire (select_level h) fs h"
    and e: "bit e 0 = bit (eecd_last (eh_log h)) 0" "bit e 1 = bit (eecd_last (eh_log h)) 1"
  shows "on_wire (select_level h) [] fs (select_eeprom e h)" "same_hw (select_eeprom e h) h"
  using c w e
  by (auto simp: serial_chip_def select_level_def select_eeprom_def Let_def on_wire_def off_wire_def ew32_eecd_def bit_simps)

lemma off_wire_keep:
  assumes "off_wire lvl fs h" and "bit v 0 = bit (eecd_last (eh_log h)) 0" "bit v 1 = bit (eecd_last (eh_log h)) 1"
  shows "off_wire lvl fs (ew32_eecd v h)"
  using assms wire_level [of lvl "eh_log h"] by (auto simp: off_wire_def ew32_eecd_def)

lemma off_wire_log: "off_wire lvl fs h \<Longrightarrow> wire lvl (eh_log h1) = wire lvl (eh_log h) \<Longrightarrow> off_wire lvl fs h1"
  by (simp add: off_wire_def)

lemma select_level_same: "same_hw h1 h \<Longrightarrow> select_level h1 = select_level h" "same_hw h1 h \<Longrightarrow> serial_chip h1 = serial_chip h"
  by (simp_all add: select_level_def serial_chip_def same_hwD)

text \<open>Taking the device selects the chip, or leaves the wire as it was.\<close>

lemma acquire_wire:
  assumes dev: "keeps_bits dev" and c: "serial_chip h" and w: "off_wire (select_level h) fs h"
    and r: "e1000_acquire_eeprom dev h = (ok, h1)"
  shows "same_hw h1 h"
    and "ok \<Longrightarrow> on_wire (select_level h) [] fs h1"
    and "\<not> ok \<Longrightarrow> off_wire (select_level h) fs h1"
    and "grants dev \<Longrightarrow> ok"
proof -
  define e0 where "e0 = dev (eh_log h)"
  define h0 where "h0 = h\<lparr>eh_log := eh_log h @ [Rd e0]\<rparr>"
  have w0: "off_wire (select_level h) fs h0" and s0: "same_hw h0 h"
    using w by (simp_all add: h0_def off_wire_def)
  have e0: "\<forall>i \<in> {0, 1, 2, 6}. bit e0 i = bit (eecd_last (eh_log h0)) i"
    using dev by (simp add: keeps_bits_def e0_def h0_def)
  have "same_hw h1 h \<and> (ok \<longrightarrow> on_wire (select_level h) [] fs h1) \<and> (\<not> ok \<longrightarrow> off_wire (select_level h) fs h1)
    \<and> (grants dev \<longrightarrow> ok)"
  proof (cases "eh_mac_type h > e1000_82544")
    case False
    then have "ok" "h1 = select_eeprom e0 h0"
      using r by (simp_all add: e1000_acquire_eeprom_def er32_eecd_def Let_def e0_def h0_def)
    with select_wire [of h0 fs e0] c w0 e0 s0 show ?thesis
      by (auto simp: select_level_same [OF s0] dest: same_hw_trans)
  next
    case True
    define hr where "hr = ew32_eecd (e0 OR E1000_EECD_REQ) h0"
    define ea where "ea = dev (eh_log hr)"
    define ha where "ha = hr\<lparr>eh_log := eh_log hr @ [Rd ea]\<rparr>"
    obtain eb hb where g: "await_grant dev 1000 ea ha = (eb, hb)" by fastforce
    have wr: "off_wire (select_level h) fs hr"
      unfolding hr_def by (rule off_wire_keep [OF w0]) (use e0 in \<open>simp_all add: bit_simps\<close>)
    have wa: "off_wire (select_level h) fs ha" and sa: "same_hw ha h"
      using wr s0 by (simp_all add: ha_def off_wire_def hr_def)
    have ea: "\<forall>i \<in> {0, 1, 2, 6}. bit ea i = bit (eecd_last (eh_log ha)) i"
      using dev by (simp add: keeps_bits_def ea_def ha_def)
    have ga: "grants dev \<longrightarrow> bit ea 7"
      by (simp add: grants_def ea_def hr_def ew32_eecd_def bit_simps)
    note b = await_grant_wire [OF dev ea g, of "select_level h"]
    have wb: "off_wire (select_level h) fs hb" using wa b by (auto intro: off_wire_log)
    have sb: "same_hw hb h" using b sa by (auto dest: same_hw_trans)
    have res: "(ok, h1) = (if bit eb 7 then (True, select_eeprom eb hb)
      else (False, ew32_eecd (eb AND NOT E1000_EECD_REQ) hb))"
      using r True g by (auto simp: e1000_acquire_eeprom_def er32_eecd_def Let_def e0_def h0_def hr_def ea_def ha_def
        eecd_bits split: if_splits)
    show ?thesis
    proof (cases "bit eb 7")
      case True
      with res select_wire [of hb fs eb] c wb b sb show ?thesis
        by (auto simp: select_level_same [OF sb] dest: same_hw_trans)
    next
      case False
      have "off_wire (select_level h) fs (ew32_eecd (eb AND NOT E1000_EECD_REQ) hb)"
        by (rule off_wire_keep [OF wb]) (use b in \<open>simp_all add: bit_simps\<close>)
      with False res sb b ga show ?thesis by simp
    qed
  qed
  then show "same_hw h1 h" "ok \<Longrightarrow> on_wire (select_level h) [] fs h1" "\<not> ok \<Longrightarrow> off_wire (select_level h) fs h1"
    "grants dev \<Longrightarrow> ok"
    by blast+
qed

section \<open>Numbers on the wire\<close>

text \<open>A list of bits as a number, the highest bit first.\<close>

definition bits_nat :: "bool list \<Rightarrow> nat" where
  "bits_nat bs = horner_sum of_bool 2 (rev bs)"

lemma bits_nat_ee_bits: "bits_nat (ee_bits n d) = unat (take_bit n d)"
proof -
  have "map (bit d) [0..<n] = map (bit (unat d)) [0..<n]"
    by (auto simp: bit_unsigned_iff dest: bit_imp_le_length)
  then show ?thesis
    by (simp only: bits_nat_def ee_bits_def rev_map rev_rev_ident horner_sum_bit_eq_take_bit unsigned_take_bit_eq)
qed

lemma bits_nat_word: "of_nat (bits_nat (ee_bits 16 w)) = w"
  using take_bit_length_eq [of w] by (simp add: bits_nat_ee_bits)

lemma bits_nat_address: "unat d < 2 ^ n \<Longrightarrow> bits_nat (ee_bits n d) = unat d"
  by (simp add: bits_nat_ee_bits unsigned_take_bit_eq take_bit_nat_eq_self_iff)

end
