(* ===== verification/Dysco_E1000_Microwire.thy ===== *)
theory Dysco_E1000_Microwire
  imports Dysco_E1000_Wire
begin

text \<open>
  A Microwire EEPROM behind the driver. The memory of the chip is what its frames made of it; the
  device is any one that keeps the bits the driver writes and answers a read command with the
  bits of the addressed cell. Under these laws the routines of the driver are an array of words:
  a read returns cells, a write replaces them, and the checksum that was updated is valid.
\<close>

section \<open>The chip\<close>

text \<open>
  What a frame does to a chip with \<open>ab\<close> address bits: the cells and the latch that enables
  programming. These are the commands the driver uses.
\<close>

definition mw_exec :: "nat \<Rightarrow> (nat \<Rightarrow> u16) \<times> bool \<Rightarrow> bool list \<Rightarrow> (nat \<Rightarrow> u16) \<times> bool" where
  "mw_exec ab c fr = (
     case c of (mem, en) \<Rightarrow>
       if take 3 fr = [True, False, True] \<and> length fr = 3 + ab + 16 \<and> en
       then (mem(bits_nat (take ab (drop 3 fr)) := of_nat (bits_nat (drop (3 + ab) fr))), en)
       else if take 5 fr = [True, False, False, True, True] then (mem, True)
       else if take 5 fr = [True, False, False, False, False] then (mem, False)
       else (mem, en))"

definition mw_state :: "nat \<Rightarrow> (nat \<Rightarrow> u16) \<Rightarrow> bool list list \<Rightarrow> (nat \<Rightarrow> u16) \<times> bool" where
  "mw_state ab mem0 fs = foldl (mw_exec ab) (mem0, False) fs"

lemma mw_state_snoc [simp]: "mw_state ab mem0 (fs @ [fr]) = mw_exec ab (mw_state ab mem0 fs) fr"
  by (simp add: mw_state_def)

definition microwire_eeprom :: "nat \<Rightarrow> (nat \<Rightarrow> u16) \<Rightarrow> ee_device \<Rightarrow> bool" where
  "microwire_eeprom ab mem0 dev \<longleftrightarrow> keeps_bits dev \<and>
     (\<forall>log a fs. \<forall>k<16. length a = ab \<and>
        wire True log = \<lparr>wi_sel = True, wi_clk = True,
          wi_sent = [True, True, False] @ a @ replicate (Suc k) False, wi_frames = fs\<rparr>
        \<longrightarrow> bit (dev log) 3 = bit (fst (mw_state ab mem0 fs) (bits_nat a)) (15 - k))"

text \<open>A chip that finishes programming within the reads the driver makes.\<close>

primrec polls :: "ee_device \<Rightarrow> nat \<Rightarrow> ee_event list \<Rightarrow> ee_event list" where
  "polls dev 0 log = log"
| "polls dev (Suc n) log = polls dev n (log @ [Rd (dev log)])"

definition prompt :: "ee_device \<Rightarrow> bool" where
  "prompt dev \<longleftrightarrow> (\<forall>log. wi_sel (wire True log) \<and> \<not> wi_clk (wire True log) \<and> wi_sent (wire True log) = []
     \<longrightarrow> (\<exists>n<200. bit (dev (polls dev n log)) 3))"

text \<open>The driver has detected a chip of \<open>2 ^ ab\<close> words.\<close>

definition mw_params :: "nat \<Rightarrow> ee_hw \<Rightarrow> bool" where
  "mw_params ab h \<longleftrightarrow> ee_is e1000_eeprom_microwire h \<and> ee_opcode_bits (eh_eeprom h) = 3
     \<and> unat (ee_address_bits (eh_eeprom h)) = ab \<and> unat (ee_word_size (eh_eeprom h)) = 2 ^ ab
     \<and> 2 < ab \<and> ab < 16"

lemma mw_params_same: "same_hw h1 h \<Longrightarrow> mw_params ab h1 = mw_params ab h"
  by (simp add: mw_params_def same_hwD)

lemma mw_paramsD:
  assumes "mw_params ab h"
  shows "serial_chip h" "select_level h" "unat (ee_opcode_bits (eh_eeprom h)) = 3"
  using assms by (simp_all add: mw_params_def serial_chip_def select_level_def)

section \<open>Reading\<close>

lemma mw_read_frame:
  "mw_exec ab c ([True, True, False] @ a) = c"
  by (cases c) (simp add: mw_exec_def)

lemma ee_bits_opcodes:
  "ee_bits 3 6 = [True, True, False]" "ee_bits 3 5 = [True, False, True]"
  "ee_bits 5 0x13 = [True, False, False, True, True]" "ee_bits 5 0x10 = [True, False, False, False, False]"
  by (simp_all add: ee_bits_def upt_rec bit_simps)

lemma read_microwire_word:
  assumes dev: "microwire_eeprom ab mem0 dev" and p: "mw_params ab h" and w: "on_wire True [] fs h"
    and o: "unat offset < 2 ^ ab"
    and st: "mw_state ab mem0 fs = (mem, en)"
  obtains h1 fs1 where
    "\<And>n. read_microwire_words dev (Suc n) offset h
       = (let (ws, h2) = read_microwire_words dev n (offset + 1) h1 in (mem (unat offset) # ws, h2))"
    "on_wire True [] fs1 h1" "mw_state ab mem0 fs1 = (mem, en)" "same_hw h1 h"
proof
  have k: "keeps_bits dev" using dev by (simp add: microwire_eeprom_def)
  have ab: "unat (ee_address_bits (eh_eeprom h)) = ab" "2 < ab" "ab < 16" using p by (simp_all add: mw_params_def)
  define a where "a = ee_bits ab offset"
  define ha where "ha = e1000_shift_out_ee_bits dev 0x6 (ee_opcode_bits (eh_eeprom h)) h"
  define hb where "hb = e1000_shift_out_ee_bits dev offset (ee_address_bits (eh_eeprom h)) ha"
  define r where "r = e1000_shift_in_ee_bits dev 16 hb"
  define h1 where "h1 = e1000_standby_eeprom dev (snd r)"
  define fr where "fr = [True, True, False] @ a @ replicate 16 False"
  have wa: "on_wire True [True, True, False] fs ha" "same_hw ha h"
    using shift_out_wire [OF k w, of "ee_opcode_bits (eh_eeprom h)" 6] mw_paramsD [OF p]
    by (simp_all add: ha_def ee_bits_opcodes)
  have wb: "on_wire True ([True, True, False] @ a) fs hb" "same_hw hb ha"
    using shift_out_wire [OF k wa(1), of "ee_address_bits (eh_eeprom h)" offset] ab
    by (simp_all add: hb_def a_def)
  have "sends dev True ([True, True, False] @ a) fs 16 (mem (unat offset))"
    unfolding sends_def
  proof (intro allI impI)
    fix log k
    assume k: "k < 16" and l: "wire True log = \<lparr>wi_sel = True, wi_clk = True,
      wi_sent = ([True, True, False] @ a) @ replicate (Suc k) False, wi_frames = fs\<rparr>"
    have "length a = ab" by (simp add: a_def)
    with k l dev have "bit (dev log) 3 = bit (fst (mw_state ab mem0 fs) (bits_nat a)) (15 - k)"
      unfolding microwire_eeprom_def append_assoc by blast
    then show "bit (dev log) 3 = bit (mem (unat offset)) (16 - 1 - k)"
      using bits_nat_address [OF o] st by (simp add: a_def)
  qed
  then have wr: "fst r = mem (unat offset)" "on_wire True fr fs (snd r)" "same_hw (snd r) hb"
    using shift_in_wire [OF k wb(1), of 16 "fst r" "snd r"] by (simp_all add: r_def fr_def)
  have s: "same_hw (snd r) h" using wr(3) wb(2) wa(2) by (blast intro: same_hw_trans)
  have lv: "select_level (snd r)" "serial_chip (snd r)"
    using mw_paramsD [OF p] select_level_same [OF s] by simp_all
  show "on_wire True [] (fs @ [fr]) h1" "same_hw h1 h"
    using standby_wire [OF k lv(2), of fr fs] wr(2) lv s same_hw_trans
    by (auto simp: h1_def fr_def)
  show "mw_state ab mem0 (fs @ [fr]) = (mem, en)"
    by (simp add: st fr_def mw_read_frame [simplified])
  show "read_microwire_words dev (Suc n) offset h
       = (let (ws, h2) = read_microwire_words dev n (offset + 1) h1 in (mem (unat offset) # ws, h2))" for n
    using wr(1) by (simp add: Let_def h1_def r_def hb_def ha_def case_prod_beta)
qed

lemma read_microwire_words_cells:
  assumes dev: "microwire_eeprom ab mem0 dev"
  shows "mw_params ab h \<Longrightarrow> on_wire True [] fs h \<Longrightarrow> unat offset + n \<le> 2 ^ ab \<Longrightarrow> mw_state ab mem0 fs = (mem, en)
    \<Longrightarrow> \<exists>h1 fs1. read_microwire_words dev n offset h = (map mem [unat offset..<unat offset + n], h1)
      \<and> on_wire True [] fs1 h1 \<and> mw_state ab mem0 fs1 = (mem, en) \<and> same_hw h1 h"
proof (induction n arbitrary: offset fs h)
  case 0
  then show ?case by auto
next
  case (Suc n)
  have o: "unat offset < 2 ^ ab" using Suc.prems(3) by simp
  from dev Suc.prems(1,2) o Suc.prems(4) obtain h1 fs1 where
    step: "\<And>n. read_microwire_words dev (Suc n) offset h
       = (let (ws, h2) = read_microwire_words dev n (offset + 1) h1 in (mem (unat offset) # ws, h2))"
    and w: "on_wire True [] fs1 h1" "mw_state ab mem0 fs1 = (mem, en)" "same_hw h1 h"
    by (rule read_microwire_word) blast
  have "2 ^ ab < (2::nat) ^ 16" using Suc.prems(1) unfolding mw_params_def by (intro power_strict_increasing) auto
  then have o1: "unat (offset + 1) = Suc (unat offset)" using o by (simp add: unat_word_ariths)
  have p1: "mw_params ab h1" using Suc.prems(1) mw_params_same [OF w(3)] by simp
  obtain h2 fs2 where "read_microwire_words dev n (offset + 1) h1 = (map mem [unat (offset + 1)..<unat (offset + 1) + n], h2)"
      "on_wire True [] fs2 h2" "mw_state ab mem0 fs2 = (mem, en)" "same_hw h2 h1"
    using Suc.IH [OF p1 w(1) _ w(2), of "offset + 1"] Suc.prems(3) o1 by auto
  then show ?case
    unfolding step using w(3) o1 by (auto simp: upt_conv_Cons simp del: upt_Suc dest: same_hw_trans)
qed

section \<open>Writing\<close>

lemma await_write_wire:
  assumes "\<exists>k<n. bit (dev (polls dev k (eh_log h))) 3"
  shows "\<exists>h1. await_write dev n h = (True, h1) \<and> wire lvl (eh_log h1) = wire lvl (eh_log h) \<and> same_hw h1 h"
  using assms
proof (induction n arbitrary: h)
  case 0
  then show ?case by simp
next
  case (Suc n)
  define h2 where "h2 = h\<lparr>eh_log := eh_log h @ [Rd (dev (eh_log h))]\<rparr>"
  show ?case
  proof (cases "bit (dev (eh_log h)) 3")
    case True
    then show ?thesis by (simp add: er32_eecd_def eecd_bits Let_def)
  next
    case False
    obtain k where k: "k < Suc n" "bit (dev (polls dev k (eh_log h))) 3" using Suc.prems by blast
    with False obtain j where "k = Suc j" by (cases k) auto
    with k have "\<exists>k<n. bit (dev (polls dev k (eh_log h2))) 3" by (auto simp: h2_def)
    from Suc.IH [OF this] False show ?thesis
      by (auto simp: er32_eecd_def eecd_bits h2_def Let_def dest: same_hw_trans)
  qed
qed

lemma mw_write_frame:
  assumes "length a = ab"
  shows "mw_exec ab (mem, True) ([True, False, True] @ a @ ee_bits 16 w) = (mem(bits_nat a := w), True)"
proof -
  have "drop (3 + ab) ([True, False, True] @ a @ ee_bits 16 w) = ee_bits 16 w"
    using assms by (simp add: eval_nat_numeral)
  then show ?thesis
    using assms by (simp add: mw_exec_def bits_nat_word)
qed

lemma mw_latch_frames:
  "mw_exec ab (mem, en) ([True, False, False, True, True] @ a) = (mem, True)"
  "mw_exec ab (mem, en) ([True, False, False, False, False] @ a) = (mem, False)"
  by (simp_all add: mw_exec_def)

text \<open>The cells after \<open>ws\<close> is stored from \<open>i\<close> on.\<close>

primrec store_words :: "(nat \<Rightarrow> u16) \<Rightarrow> nat \<Rightarrow> u16 list \<Rightarrow> nat \<Rightarrow> u16" where
  "store_words mem i [] = mem"
| "store_words mem i (w # ws) = store_words (mem(i := w)) (Suc i) ws"

lemma store_words_nth:
  "store_words mem i ws j = (if i \<le> j \<and> j < i + length ws then ws ! (j - i) else mem j)"
  by (induction ws arbitrary: mem i) (auto simp: nth_Cons')

lemma write_microwire_word:
  assumes dev: "microwire_eeprom ab mem0 dev" "prompt dev" and p: "mw_params ab h" and w: "on_wire True [] fs h"
    and o: "unat offset < 2 ^ ab" and st: "mw_state ab mem0 fs = (mem, True)"
  obtains h1 fs1 where
    "\<And>ws. write_microwire_words dev offset (v # ws) h = write_microwire_words dev (offset + 1) ws h1"
    "on_wire True [] fs1 h1" "mw_state ab mem0 fs1 = (mem(unat offset := v), True)" "same_hw h1 h"
proof -
  have k: "keeps_bits dev" using dev by (simp add: microwire_eeprom_def)
  have ab: "unat (ee_address_bits (eh_eeprom h)) = ab" "2 < ab" "ab < 16" using p by (simp_all add: mw_params_def)
  define a where "a = ee_bits ab offset"
  define fr where "fr = [True, False, True] @ a @ ee_bits 16 v"
  define ha where "ha = e1000_shift_out_ee_bits dev 0x5 (ee_opcode_bits (eh_eeprom h)) h"
  define hb where "hb = e1000_shift_out_ee_bits dev offset (ee_address_bits (eh_eeprom h)) ha"
  define hc where "hc = e1000_shift_out_ee_bits dev v 16 hb"
  define hd where "hd = e1000_standby_eeprom dev hc"
  have wa: "on_wire True [True, False, True] fs ha" "same_hw ha h"
    using shift_out_wire [OF k w, of "ee_opcode_bits (eh_eeprom h)" 5] mw_paramsD [OF p]
    by (simp_all add: ha_def ee_bits_opcodes)
  have wb: "on_wire True ([True, False, True] @ a) fs hb" "same_hw hb ha"
    using shift_out_wire [OF k wa(1), of "ee_address_bits (eh_eeprom h)" offset] ab
    by (simp_all add: hb_def a_def)
  have wc: "on_wire True fr fs hc" "same_hw hc hb"
    using shift_out_wire [OF k wb(1), of 16 v] by (simp_all add: hc_def fr_def)
  have sc: "same_hw hc h" using wc(2) wb(2) wa(2) by (blast intro: same_hw_trans)
  have lc: "select_level hc" "serial_chip hc" using mw_paramsD [OF p] select_level_same [OF sc] by simp_all
  have wd: "on_wire True [] (fs @ [fr]) hd" "same_hw hd h"
    using standby_wire [OF k lc(2), of fr fs] wc(1) lc sc same_hw_trans by (auto simp: hd_def fr_def)
  have "\<exists>n<200. bit (dev (polls dev n (eh_log hd))) 3"
    using dev(2) wd(1) unfolding prompt_def on_wire_def by simp
  then obtain he where e: "await_write dev 200 hd = (True, he)" "wire True (eh_log he) = wire True (eh_log hd)" "same_hw he hd"
    using await_write_wire by blast
  have se: "same_hw he h" using e(3) wd(2) by (rule same_hw_trans)
  have le: "select_level he" "serial_chip he" using mw_paramsD [OF p] select_level_same [OF se] by simp_all
  have we: "on_wire True [] (fs @ [fr]) he" using wd(1) e(2) by (simp add: on_wire_def)
  show thesis
  proof
    show "write_microwire_words dev offset (v # ws) h
        = write_microwire_words dev (offset + 1) ws (e1000_standby_eeprom dev he)" for ws
      using e(1) by (simp add: Let_def ha_def hb_def hc_def hd_def)
    show "on_wire True [] (fs @ [fr]) (e1000_standby_eeprom dev he)" "same_hw (e1000_standby_eeprom dev he) h"
      using standby_wire [OF k le(2), of "[]" "fs @ [fr]"] we le se same_hw_trans by auto
    show "mw_state ab mem0 (fs @ [fr]) = (mem(unat offset := v), True)"
      using mw_write_frame [of a ab mem v] bits_nat_address [OF o] by (simp add: st fr_def a_def)
  qed
qed

lemma write_microwire_words_cells:
  assumes dev: "microwire_eeprom ab mem0 dev" "prompt dev"
  shows "mw_params ab h \<Longrightarrow> on_wire True [] fs h \<Longrightarrow> unat offset + length ws \<le> 2 ^ ab
    \<Longrightarrow> mw_state ab mem0 fs = (mem, True)
    \<Longrightarrow> \<exists>h1 fs1. write_microwire_words dev offset ws h = (Inr (), h1)
      \<and> on_wire True [] fs1 h1 \<and> mw_state ab mem0 fs1 = (store_words mem (unat offset) ws, True) \<and> same_hw h1 h"
proof (induction ws arbitrary: offset fs h mem)
  case Nil
  then show ?case by auto
next
  case (Cons v ws)
  have o: "unat offset < 2 ^ ab" using Cons.prems(3) by simp
  from dev Cons.prems(1,2) o Cons.prems(4) obtain h1 fs1 where
    step: "\<And>ws. write_microwire_words dev offset (v # ws) h = write_microwire_words dev (offset + 1) ws h1"
    and w: "on_wire True [] fs1 h1" "mw_state ab mem0 fs1 = (mem(unat offset := v), True)" "same_hw h1 h"
    by (rule write_microwire_word) blast
  have "2 ^ ab < (2::nat) ^ 16" using Cons.prems(1) unfolding mw_params_def by (intro power_strict_increasing) auto
  then have o1: "unat (offset + 1) = Suc (unat offset)" using o by (simp add: unat_word_ariths)
  have p1: "mw_params ab h1" using Cons.prems(1) mw_params_same [OF w(3)] by simp
  have "unat (offset + 1) + length ws \<le> 2 ^ ab" using Cons.prems(3) o1 by simp
  from Cons.IH [OF p1 w(1) this w(2)] obtain h2 fs2 where
    "write_microwire_words dev (offset + 1) ws h1 = (Inr (), h2)" "on_wire True [] fs2 h2"
    "mw_state ab mem0 fs2 = (store_words (mem(unat offset := v)) (Suc (unat offset)) ws, True)" "same_hw h2 h1"
    unfolding o1 by blast
  then show ?case
    unfolding step store_words.simps using w(3) same_hw_trans by blast
qed

text \<open>The command that opens or closes programming, with the rest of its address.\<close>

lemma latch_command_wire:
  fixes op :: u16
  assumes k: "keeps_bits dev" and p: "mw_params ab h" and w: "on_wire True [] fs h"
  defines "h1 \<equiv> e1000_shift_out_ee_bits dev 0 (ee_address_bits (eh_eeprom h) - 2)
     (e1000_shift_out_ee_bits dev op (ee_opcode_bits (eh_eeprom h) + 2) h)"
  shows "on_wire True (ee_bits 5 op @ ee_bits (ab - 2) 0) fs h1" "same_hw h1 h"
proof -
  have ab: "unat (ee_address_bits (eh_eeprom h)) = ab" "2 < ab" "ab < 16" and op: "ee_opcode_bits (eh_eeprom h) = 3"
    using p by (simp_all add: mw_params_def)
  have "(2 :: u16) \<le> ee_address_bits (eh_eeprom h)" using ab by (simp add: word_le_nat_alt)
  then have m: "unat (ee_address_bits (eh_eeprom h) - 2) = ab - 2" using ab by (simp add: unat_sub)
  have n: "0 < ab - 2" "ab - 2 \<le> 32" using ab by simp_all
  define ha where "ha = e1000_shift_out_ee_bits dev op (ee_opcode_bits (eh_eeprom h) + 2) h"
  have wa: "on_wire True (ee_bits 5 op) fs ha" "same_hw ha h"
    using shift_out_wire [OF k w, of "ee_opcode_bits (eh_eeprom h) + 2" op] by (simp_all add: ha_def op)
  show "on_wire True (ee_bits 5 op @ ee_bits (ab - 2) 0) fs h1" "same_hw h1 h"
    using shift_out_wire [OF k wa(1), of "ee_address_bits (eh_eeprom h) - 2" 0, unfolded m, OF n] wa(2) same_hw_trans
    unfolding h1_def ha_def [symmetric] by blast+
qed

lemma write_microwire_cells:
  assumes dev: "microwire_eeprom ab mem0 dev" "prompt dev" and p: "mw_params ab h" and w: "on_wire True [] fs h"
    and o: "unat offset + length ws \<le> 2 ^ ab" and st: "mw_state ab mem0 fs = (mem, en)"
  shows "\<exists>h1 fs1 s1. e1000_write_eeprom_microwire dev offset ws h = (Inr (), h1)
    \<and> on_wire True s1 fs1 h1 \<and> mw_state ab mem0 (close_frame fs1 s1) = (store_words mem (unat offset) ws, False)
    \<and> same_hw h1 h"
proof -
  have k: "keeps_bits dev" using dev by (simp add: microwire_eeprom_def)
  define op where "op = ee_opcode_bits (eh_eeprom h) + 2"
  define ad where "ad = ee_address_bits (eh_eeprom h) - 2"
  define h1 where "h1 = e1000_shift_out_ee_bits dev 0 ad (e1000_shift_out_ee_bits dev 0x13 op h)"
  note a = latch_command_wire [OF k p w, of "0x13", folded op_def ad_def, folded h1_def]
  have l1: "select_level h1" "serial_chip h1" using mw_paramsD [OF p] select_level_same [OF a(2)] by simp_all
  define h2 where "h2 = e1000_standby_eeprom dev h1"
  define f1 where "f1 = fs @ [ee_bits 5 0x13 @ ee_bits (ab - 2) 0]"
  have w2: "on_wire True [] f1 h2" and s2: "same_hw h2 h"
    using standby_wire [OF k l1(2), of "ee_bits 5 0x13 @ ee_bits (ab - 2) 0" fs] a l1 same_hw_trans
    by (auto simp: h2_def f1_def ee_bits_opcodes)
  have st1: "mw_state ab mem0 f1 = (mem, True)"
    using mw_latch_frames(1) by (simp add: f1_def st ee_bits_opcodes)
  have p2: "mw_params ab h2" using p mw_params_same [OF s2] by simp
  obtain h3 f3 where r: "write_microwire_words dev offset ws h2 = (Inr (), h3)" "on_wire True [] f3 h3"
      "mw_state ab mem0 f3 = (store_words mem (unat offset) ws, True)" "same_hw h3 h2"
    using write_microwire_words_cells [OF dev p2 w2 o st1] by blast
  have s3: "same_hw h3 h" using r(4) s2 by (rule same_hw_trans)
  have p3: "mw_params ab h3" using p mw_params_same [OF s3] by simp
  define h4 where "h4 = e1000_shift_out_ee_bits dev 0 ad (e1000_shift_out_ee_bits dev 0x10 op h3)"
  have eq: "ee_opcode_bits (eh_eeprom h3) + 2 = op" "ee_address_bits (eh_eeprom h3) - 2 = ad"
    using s3 by (simp_all add: op_def ad_def same_hwD)
  note c = latch_command_wire [OF k p3 r(2), of "0x10", unfolded eq, folded h4_def]
  have "e1000_write_eeprom_microwire dev offset ws h = (Inr (), h4)"
    using r(1) by (simp add: e1000_write_eeprom_microwire_def Let_def h1_def h2_def op_def ad_def h4_def)
  moreover have "mw_state ab mem0 (close_frame f3 (ee_bits 5 0x10 @ ee_bits (ab - 2) 0)) = (store_words mem (unat offset) ws, False)"
    using mw_latch_frames(2) by (simp add: r(3) ee_bits_opcodes)
  ultimately show ?thesis using c s3 by (blast intro: same_hw_trans)
qed

section \<open>The interface of the driver\<close>

text \<open>A detected chip, no command under way, and \<open>mem\<close> the cells the commands so far have left.\<close>

definition mw_at :: "nat \<Rightarrow> (nat \<Rightarrow> u16) \<Rightarrow> (nat \<Rightarrow> u16) \<Rightarrow> ee_hw \<Rightarrow> bool" where
  "mw_at ab mem0 mem h \<longleftrightarrow> mw_params ab h \<and> eh_mac_type h \<noteq> e1000_ce4100 \<and> \<not> eh_lock h \<and>
     (\<exists>fs. off_wire True fs h \<and> fst (mw_state ab mem0 fs) = mem)"

definition in_range :: "nat \<Rightarrow> u16 \<Rightarrow> nat \<Rightarrow> bool" where
  "in_range ab offset n \<longleftrightarrow> 0 < n \<and> unat offset + n \<le> 2 ^ ab"

lemma mw_params_bound: "mw_params ab h \<Longrightarrow> 2 ^ ab < (65536 :: nat)"
  using power_strict_increasing [of ab 16 "2 :: nat"] by (simp add: mw_params_def)

lemma in_range_bounds:
  assumes "mw_params ab h"
  shows "n < 65536 \<Longrightarrow> out_of_bounds offset (of_nat n) h \<longleftrightarrow> \<not> in_range ab offset n"
  using assms by (auto simp: out_of_bounds_def in_range_def mw_params_def word_le_nat_alt unat_of_nat word_unat_eq_iff)

lemma with_lock:
  assumes "\<not> eh_lock h" and f: "f (h\<lparr>eh_lock := True\<rparr>) = Some (r, h1)" and s: "same_hw h1 (h\<lparr>eh_lock := True\<rparr>)"
  shows "with_eeprom_lock f h = Some (r, h1\<lparr>eh_lock := False\<rparr>)" "same_hw (h1\<lparr>eh_lock := False\<rparr>) h"
  using assms by (cases h; cases h1; simp add: with_eeprom_lock_def same_hw_def)+

lemma locked_fields:
  "mw_params ab (h\<lparr>eh_lock := b\<rparr>) = mw_params ab h" "off_wire lvl fs (h\<lparr>eh_lock := b\<rparr>) = off_wire lvl fs h"
  "out_of_bounds offset words (h\<lparr>eh_lock := b\<rparr>) = out_of_bounds offset words h"
  by (simp_all add: mw_params_def off_wire_def out_of_bounds_def)

lemma detected_same:
  assumes "mw_params ab h" shows "detected dev junk h = Some h"
  using assms by (auto simp: detected_def mw_params_def)

lemma mw_params_not_spi: "mw_params ab h \<Longrightarrow> \<not> ee_is e1000_eeprom_spi h" "mw_params ab h \<Longrightarrow> ee_is e1000_eeprom_microwire h"
  by (auto simp: mw_params_def)

text \<open>A transfer between taking and releasing the device.\<close>

lemma read_words_cells:
  assumes dev: "microwire_eeprom ab mem0 dev" "grants dev" and p: "mw_params ab h" and w: "off_wire True fs h"
    and st: "fst (mw_state ab mem0 fs) = mem" and r: "in_range ab offset n"
  shows "\<exists>h1 fs1. read_words dev buf offset (of_nat n) h = (Inr (map mem [unat offset..<unat offset + n]), h1)
    \<and> off_wire True fs1 h1 \<and> fst (mw_state ab mem0 fs1) = mem \<and> same_hw h1 h"
proof -
  have k: "keeps_bits dev" using dev by (simp add: microwire_eeprom_def)
  note lv = mw_paramsD(1,2) [OF p]
  have n: "n < 65536" using r mw_params_bound [OF p] by (simp add: in_range_def)
  obtain ok h1 where a: "e1000_acquire_eeprom dev h = (ok, h1)" by fastforce
  have s1: "same_hw h1 h" and w1: "on_wire True [] fs h1" and "ok"
    using acquire_wire [OF k lv(1) _ a, of fs] w lv dev(2) by auto
  have p1: "mw_params ab h1" using p mw_params_same [OF s1] by simp
  obtain h2 f2 where b: "read_microwire_words dev n offset h1 = (map mem [unat offset..<unat offset + n], h2)"
    "on_wire True [] f2 h2" "mw_state ab mem0 f2 = (mem, snd (mw_state ab mem0 fs))" "same_hw h2 h1"
    using read_microwire_words_cells [OF dev(1) p1 w1, of offset n mem "snd (mw_state ab mem0 fs)"] r st
    by (metis in_range_def prod.collapse)
  have s2: "same_hw h2 h" using b(4) s1 by (rule same_hw_trans)
  have lv2: "serial_chip h2" "select_level h2" using lv select_level_same [OF s2] by simp_all
  have "off_wire True f2 (e1000_release_eeprom dev h2)" "same_hw (e1000_release_eeprom dev h2) h"
    using release_wire [OF k lv2(1), of "[]" f2] lv2 b(2) s2 same_hw_trans by auto
  moreover have "read_words dev buf offset (of_nat n) h
      = (Inr (map mem [unat offset..<unat offset + n]), e1000_release_eeprom dev h2)"
    using in_range_bounds [OF p n] r a \<open>ok\<close> b(1) n mw_params_not_spi [OF p1]
    by (simp add: read_words_def unat_of_nat)
  ultimately show ?thesis using b(3) by auto
qed

lemma write_words_cells:
  assumes dev: "microwire_eeprom ab mem0 dev" "grants dev" "prompt dev" and p: "mw_params ab h" and w: "off_wire True fs h"
    and st: "fst (mw_state ab mem0 fs) = mem" and r: "in_range ab offset (length ws)"
  shows "\<exists>h1 fs1. write_words dev offset ws h = (Inr (), h1)
    \<and> off_wire True fs1 h1 \<and> fst (mw_state ab mem0 fs1) = store_words mem (unat offset) ws \<and> same_hw h1 h"
proof -
  have k: "keeps_bits dev" using dev by (simp add: microwire_eeprom_def)
  note lv = mw_paramsD(1,2) [OF p]
  have n: "length ws < 65536" using r mw_params_bound [OF p] by (simp add: in_range_def)
  obtain ok h1 where a: "e1000_acquire_eeprom dev h = (ok, h1)" by fastforce
  have s1: "same_hw h1 h" and w1: "on_wire True [] fs h1" and "ok"
    using acquire_wire [OF k lv(1) _ a, of fs] w lv dev(2) by auto
  have p1: "mw_params ab h1" using p mw_params_same [OF s1] by simp
  obtain h2 f2 t where b: "e1000_write_eeprom_microwire dev offset ws h1 = (Inr (), h2)"
    "on_wire True t f2 h2" "mw_state ab mem0 (close_frame f2 t) = (store_words mem (unat offset) ws, False)" "same_hw h2 h1"
    using write_microwire_cells [OF dev(1,3) p1 w1, of offset ws mem "snd (mw_state ab mem0 fs)"] r st
    by (metis in_range_def prod.collapse)
  have s2: "same_hw h2 h" using b(4) s1 by (rule same_hw_trans)
  have lv2: "serial_chip h2" "select_level h2" using lv select_level_same [OF s2] by simp_all
  have "off_wire True (close_frame f2 t) (e1000_release_eeprom dev h2)" "same_hw (e1000_release_eeprom dev h2) h"
    using release_wire [OF k lv2(1), of t f2] lv2 b(2) s2 same_hw_trans by auto
  moreover have "write_words dev offset ws h = (Inr (), e1000_release_eeprom dev h2)"
    using in_range_bounds [OF p n] r a \<open>ok\<close> b(1) mw_params_not_spi [OF p1] by (simp add: write_words_def)
  ultimately show ?thesis using b(3) by auto
qed

lemma mw_at_locked:
  assumes "mw_at ab mem0 mem h"
  obtains fs where "mw_params ab (h\<lparr>eh_lock := True\<rparr>)" "off_wire True fs (h\<lparr>eh_lock := True\<rparr>)"
    "fst (mw_state ab mem0 fs) = mem" "eh_mac_type h \<noteq> e1000_ce4100" "\<not> eh_lock h"
  using assms by (auto simp: mw_at_def locked_fields)

lemma mw_at_unlock:
  assumes "mw_at ab mem0 mem h" "same_hw h1 (h\<lparr>eh_lock := True\<rparr>)" "off_wire True fs h1" "fst (mw_state ab mem0 fs) = mem'"
  shows "mw_at ab mem0 mem' (h1\<lparr>eh_lock := False\<rparr>)"
  using assms mw_params_same [OF assms(2)] by (auto simp: mw_at_def locked_fields same_hwD)

lemma read_eeprom_cells:
  assumes dev: "microwire_eeprom ab mem0 dev" "grants dev" and a: "mw_at ab mem0 mem h" and r: "in_range ab offset n"
  shows "\<exists>h1. e1000_read_eeprom dev buf offset (of_nat n) h = Some (Inr (map mem [unat offset..<unat offset + n]), h1)
    \<and> mw_at ab mem0 mem h1"
proof -
  from a obtain fs where l: "mw_params ab (h\<lparr>eh_lock := True\<rparr>)" "off_wire True fs (h\<lparr>eh_lock := True\<rparr>)"
    "fst (mw_state ab mem0 fs) = mem" "eh_mac_type h \<noteq> e1000_ce4100" "\<not> eh_lock h" by (rule mw_at_locked)
  from read_words_cells [OF dev l(1-3) r] obtain h1 f1 where
    b: "read_words dev buf offset (of_nat n) (h\<lparr>eh_lock := True\<rparr>) = (Inr (map mem [unat offset..<unat offset + n]), h1)"
    "off_wire True f1 h1" "fst (mw_state ab mem0 f1) = mem" "same_hw h1 (h\<lparr>eh_lock := True\<rparr>)" by blast
  have "e1000_do_read_eeprom dev buf offset (of_nat n) (h\<lparr>eh_lock := True\<rparr>)
      = Some (Inr (map mem [unat offset..<unat offset + n]), h1)"
    using b(1) l(4) detected_same [OF l(1)] by (simp add: e1000_do_read_eeprom_def read_sized_def)
  from with_lock(1) [where f="e1000_do_read_eeprom dev buf offset (of_nat n)", OF l(5) this b(4)] mw_at_unlock [OF a b(4,2,3)] show ?thesis
    by (auto simp: e1000_read_eeprom_def)
qed

lemma write_eeprom_cells:
  assumes dev: "microwire_eeprom ab mem0 dev" "grants dev" "prompt dev" and a: "mw_at ab mem0 mem h"
    and r: "in_range ab offset (length ws)"
  shows "\<exists>h1. e1000_write_eeprom dev junk offset ws h = Some (Inr (), h1)
    \<and> mw_at ab mem0 (store_words mem (unat offset) ws) h1"
proof -
  from a obtain fs where l: "mw_params ab (h\<lparr>eh_lock := True\<rparr>)" "off_wire True fs (h\<lparr>eh_lock := True\<rparr>)"
    "fst (mw_state ab mem0 fs) = mem" "eh_mac_type h \<noteq> e1000_ce4100" "\<not> eh_lock h" by (rule mw_at_locked)
  from write_words_cells [OF dev l(1-3) r] obtain h1 f1 where
    b: "write_words dev offset ws (h\<lparr>eh_lock := True\<rparr>) = (Inr (), h1)"
    "off_wire True f1 h1" "fst (mw_state ab mem0 f1) = store_words mem (unat offset) ws"
    "same_hw h1 (h\<lparr>eh_lock := True\<rparr>)" by blast
  have "e1000_do_write_eeprom dev junk offset ws (h\<lparr>eh_lock := True\<rparr>) = Some (Inr (), h1)"
    using b(1) l(4) detected_same [OF l(1)] by (simp add: e1000_do_write_eeprom_def)
  from with_lock(1) [where f="e1000_do_write_eeprom dev junk offset ws", OF l(5) this b(4)] mw_at_unlock [OF a b(4,2,3)] show ?thesis
    by (auto simp: e1000_write_eeprom_def)
qed

text \<open>A request outside the chip fails before the device is touched.\<close>

lemma access_out_of_range:
  assumes a: "mw_at ab mem0 mem h" and n: "n < 65536" and r: "\<not> in_range ab offset n"
  shows "e1000_read_eeprom dev buf offset (of_nat n) h = Some (Inl E1000_ERR_EEPROM, h)"
    and "length ws = n \<Longrightarrow> e1000_write_eeprom dev junk offset ws h = Some (Inl E1000_ERR_EEPROM, h)"
proof -
  from a obtain fs where l: "mw_params ab (h\<lparr>eh_lock := True\<rparr>)" "off_wire True fs (h\<lparr>eh_lock := True\<rparr>)"
    "fst (mw_state ab mem0 fs) = mem" "eh_mac_type h \<noteq> e1000_ce4100" "\<not> eh_lock h" by (rule mw_at_locked)
  have o: "out_of_bounds offset (of_nat n) (h\<lparr>eh_lock := True\<rparr>)"
    using in_range_bounds [OF l(1) n] r by simp
  show "e1000_read_eeprom dev buf offset (of_nat n) h = Some (Inl E1000_ERR_EEPROM, h)"
    using l(4,5) o detected_same [OF l(1)]
    by (cases h) (simp add: e1000_read_eeprom_def with_eeprom_lock_def e1000_do_read_eeprom_def read_sized_def read_words_def)
  show "e1000_write_eeprom dev junk offset ws h = Some (Inl E1000_ERR_EEPROM, h)" if "length ws = n"
    using l(4,5) o detected_same [OF l(1)] that
    by (cases h) (simp add: e1000_write_eeprom_def with_eeprom_lock_def e1000_do_write_eeprom_def write_words_def)
qed

section \<open>The checksum\<close>

definition cells_sum :: "(nat \<Rightarrow> u16) \<Rightarrow> nat \<Rightarrow> nat \<Rightarrow> u16" where
  "cells_sum mem i n = sum_list (map mem [i..<i + n])"

lemma sum_words_cells:
  assumes dev: "microwire_eeprom ab mem0 dev" "grants dev"
  shows "mw_at ab mem0 mem h \<Longrightarrow> unat i + n \<le> 2 ^ ab
    \<Longrightarrow> \<exists>h1. sum_words dev n i junk c h = Some (Inr (c + cells_sum mem (unat i) n), h1) \<and> mw_at ab mem0 mem h1"
proof (induction n arbitrary: i junk c h)
  case 0
  then show ?case by (simp add: cells_sum_def)
next
  case (Suc n)
  have r: "in_range ab i 1" using Suc.prems(2) by (simp add: in_range_def)
  obtain h1 where b: "e1000_read_eeprom dev [junk] i 1 h = Some (Inr [mem (unat i)], h1)" "mw_at ab mem0 mem h1"
    using read_eeprom_cells [OF dev Suc.prems(1) r] by auto
  have "2 ^ ab < (65536 :: nat)" using Suc.prems(1) mw_params_bound by (auto simp: mw_at_def)
  then have o1: "unat (i + 1) = Suc (unat i)" using Suc.prems(2) by (simp add: unat_word_ariths)
  have "unat (i + 1) + n \<le> 2 ^ ab" using Suc.prems(2) o1 by simp
  from Suc.IH [OF b(2) this, of "mem (unat i)" "c + mem (unat i)"] b(1) o1 show ?case
    by (simp add: cells_sum_def upt_conv_Cons add.assoc del: upt_Suc)
qed

lemma cells_sum_last: "cells_sum mem 0 (Suc n) = cells_sum mem 0 n + mem n"
  by (simp add: cells_sum_def)

lemma cells_sum_upd: "n \<le> k \<Longrightarrow> cells_sum (mem(k := v)) 0 n = cells_sum mem 0 n"
  by (simp add: cells_sum_def)

lemma update_checksum_cells:
  assumes dev: "microwire_eeprom ab mem0 dev" "grants dev" "prompt dev" and a: "mw_at ab mem0 mem h" and ab: "6 \<le> ab"
  shows "\<exists>h1. e1000_update_eeprom_checksum dev junk h = Some (Inr (), h1)
    \<and> mw_at ab mem0 (mem(63 := 0xBABA - cells_sum mem 0 63)) h1"
proof -
  have sz: "64 \<le> (2 :: nat) ^ ab" using power_increasing [OF ab, of "2 :: nat"] by simp
  obtain h1 where s: "sum_words dev 63 0 junk 0 h = Some (Inr (cells_sum mem 0 63), h1)" "mw_at ab mem0 mem h1"
    using sum_words_cells [OF dev(1,2) a, of 0 63 junk 0] sz by auto
  have "in_range ab 0x3F (length [0xBABA - cells_sum mem 0 63])" using sz by (simp add: in_range_def)
  from write_eeprom_cells [OF dev s(2) this, of junk] s(1) show ?thesis
    by (auto simp: e1000_update_eeprom_checksum_def)
qed

lemma validate_checksum_cells:
  assumes dev: "microwire_eeprom ab mem0 dev" "grants dev" and a: "mw_at ab mem0 mem h" and ab: "6 \<le> ab"
  shows "\<exists>h1. e1000_validate_eeprom_checksum dev junk h
      = Some (if cells_sum mem 0 64 = 0xBABA then Inr () else Inl E1000_ERR_EEPROM, h1) \<and> mw_at ab mem0 mem h1"
proof -
  have "64 \<le> (2 :: nat) ^ ab" using power_increasing [OF ab, of "2 :: nat"] by simp
  then obtain h1 where "sum_words dev 64 0 junk 0 h = Some (Inr (cells_sum mem 0 64), h1)" "mw_at ab mem0 mem h1"
    using sum_words_cells [OF dev(1,2) a, of 0 64 junk 0] by auto
  then show ?thesis by (simp add: e1000_validate_eeprom_checksum_def)
qed

section \<open>A chip\<close>

text \<open>
  A device that keeps all these laws: it grants at once, reports the end of programming at once and
  puts out the cell a read command addresses.
\<close>

definition chip_out :: "nat \<Rightarrow> (nat \<Rightarrow> u16) \<Rightarrow> ee_event list \<Rightarrow> bool" where
  "chip_out ab mem0 log = (
     let w = wire True log; s = wi_sent w in
     s = [] \<or> bit (fst (mw_state ab mem0 (wi_frames w)) (bits_nat (take ab (drop 3 s)))) (15 - (length s - ab - 4)))"

definition chip_reply :: "nat \<Rightarrow> (nat \<Rightarrow> u16) \<Rightarrow> ee_device" where
  "chip_reply ab mem0 log = (eecd_last log AND 0x47) OR (if chip_out ab mem0 log then 0x88 else 0x80)"

lemma chip_reply_bits:
  "bit (chip_reply ab mem0 log) 3 = chip_out ab mem0 log" "bit (chip_reply ab mem0 log) 7"
  "i \<in> {0, 1, 2, 6} \<Longrightarrow> bit (chip_reply ab mem0 log) i = bit (eecd_last log) i"
  by (auto simp: chip_reply_def bit_simps)

lemma chip_reply_ok: "microwire_eeprom ab mem0 (chip_reply ab mem0)"
  unfolding microwire_eeprom_def keeps_bits_def
  by (auto simp: chip_reply_bits chip_out_def Let_def)

lemma chip_reply_grants: "grants (chip_reply ab mem0)"
  by (simp add: grants_def chip_reply_bits)

lemma chip_reply_prompt: "prompt (chip_reply ab mem0)"
  unfolding prompt_def
proof (intro allI impI)
  fix log
  assume "wi_sel (wire True log) \<and> \<not> wi_clk (wire True log) \<and> wi_sent (wire True log) = []"
  then have "bit (chip_reply ab mem0 (polls (chip_reply ab mem0) 0 log)) 3"
    by (simp add: chip_reply_bits chip_out_def)
  then show "\<exists>n<200. bit (chip_reply ab mem0 (polls (chip_reply ab mem0) n log)) 3" by (rule exI [of _ 0, OF conjI, rotated]) simp
qed

text \<open>An 82540 with a chip of 64 words, after a reset.\<close>

definition reset_hw :: ee_hw where
  "reset_hw = \<lparr>eh_mac_type = e1000_82540, eh_eeprom = \<lparr>ee_type = e1000_eeprom_microwire, ee_word_size = 64,
     ee_opcode_bits = 3, ee_address_bits = 6, ee_delay_usec = 50, ee_page_size = 0\<rparr>, eh_log = [], eh_lock = False,
     eh_flash = (\<lambda>_. 0), eh_perm_mac_addr = replicate 6 0, eh_mac_addr = replicate 6 0\<rparr>"

lemma reset_hw_at: "mw_at 6 mem0 mem0 reset_hw"
  by (simp add: mw_at_def mw_params_def reset_hw_def off_wire_def wire_def wire_idle_def mw_state_def) blast

section \<open>Properties\<close>

text \<open>
  C27. Over any Microwire chip that keeps the protocol, grants the bus and finishes programming in
  time, the bit-banging routines refine an array of words: a read in range returns the cells and
  leaves them, a write in range replaces exactly the words asked for, and both leave the chip idle
  and the lock free. A request out of range fails without an access.
\<close>

theorem eeprom_is_word_array:
  assumes "microwire_eeprom ab mem0 dev" and "grants dev" and "prompt dev" and "mw_at ab mem0 mem h"
    and "n < 65536"
  shows "(in_range ab offset n \<longrightarrow>
      (\<exists>h1. e1000_read_eeprom dev buf offset (of_nat n) h = Some (Inr (map mem [unat offset..<unat offset + n]), h1)
        \<and> mw_at ab mem0 mem h1)
      \<and> (\<forall>data. length data = n \<longrightarrow> (\<exists>h1. e1000_write_eeprom dev junk offset data h = Some (Inr (), h1)
        \<and> mw_at ab mem0 (\<lambda>i. if unat offset \<le> i \<and> i < unat offset + n then data ! (i - unat offset) else mem i) h1)))
    \<and> (\<not> in_range ab offset n \<longrightarrow>
      e1000_read_eeprom dev buf offset (of_nat n) h = Some (Inl E1000_ERR_EEPROM, h)
      \<and> (\<forall>data. length data = n \<longrightarrow> e1000_write_eeprom dev junk offset data h = Some (Inl E1000_ERR_EEPROM, h)))"
proof (cases "in_range ab offset n")
  case True
  have st: "store_words mem (unat offset) data
      = (\<lambda>i. if unat offset \<le> i \<and> i < unat offset + length data then data ! (i - unat offset) else mem i)" for data
    by (rule ext) (rule store_words_nth)
  show ?thesis
    using True read_eeprom_cells [OF assms(1,2,4), of offset n buf] write_eeprom_cells [OF assms(1-4), of offset _ junk]
    by (auto simp: st)
next
  case False
  then show ?thesis using access_out_of_range [OF assms(4,5)] by blast
qed

theorem eeprom_is_word_array_witness:
  "\<exists>h1. e1000_read_eeprom (chip_reply 6 (\<lambda>_. 7)) [0] 62 2 reset_hw = Some (Inr [7, 7], h1)"
proof -
  have "in_range 6 62 2" by (simp add: in_range_def)
  then show ?thesis
    using eeprom_is_word_array [OF chip_reply_ok chip_reply_grants chip_reply_prompt reset_hw_at, of 2 62 "\<lambda>_. 7" "[0]" 0]
    by (auto simp: upt_rec)
qed

text \<open>
  C38. Updating the checksum makes the contents valid, over a Microwire chip of at least 64 words that
  grants the bus and finishes programming in time: the update succeeds, it changes word 63 alone,
  and the validation that follows accepts. (It says nothing of SPI chips; on a CE4100 the update
  does not reach word 63.)
\<close>

theorem checksum_update_validates:
  assumes "microwire_eeprom ab mem0 dev" and "grants dev" and "prompt dev" and "mw_at ab mem0 mem h" and "6 \<le> ab"
  shows "\<exists>h1 h2. e1000_update_eeprom_checksum dev junk h = Some (Inr (), h1)
    \<and> mw_at ab mem0 (mem(63 := 0xBABA - cells_sum mem 0 63)) h1
    \<and> e1000_validate_eeprom_checksum dev junk1 h1 = Some (Inr (), h2)"
proof -
  define mem1 where "mem1 = mem(63 := 0xBABA - cells_sum mem 0 63)"
  obtain h1 where h1: "e1000_update_eeprom_checksum dev junk h = Some (Inr (), h1)" "mw_at ab mem0 mem1 h1"
    using update_checksum_cells [OF assms] by (auto simp: mem1_def)
  have "cells_sum mem1 0 64 = cells_sum mem1 0 63 + mem1 63"
    using cells_sum_last [of mem1 63] by simp
  then have "cells_sum mem1 0 64 = 0xBABA"
    using cells_sum_upd [of 63 63 mem] by (simp add: mem1_def)
  with validate_checksum_cells [OF assms(1,2) h1(2) assms(5)] h1 show ?thesis
    by (auto simp: mem1_def)
qed

theorem checksum_update_validates_witness:
  "\<exists>h1 h2. e1000_update_eeprom_checksum (chip_reply 6 (\<lambda>_. 5)) 0 reset_hw = Some (Inr (), h1)
    \<and> e1000_validate_eeprom_checksum (chip_reply 6 (\<lambda>_. 5)) 0 h1 = Some (Inr (), h2)"
  using checksum_update_validates [OF chip_reply_ok chip_reply_grants chip_reply_prompt reset_hw_at, of "\<lambda>_. 5" 0 0]
  by auto

end
