(* ===== verification/Dysco_E1000_Spi.thy ===== *)
theory Dysco_E1000_Spi
  imports Dysco_E1000_Wire
begin

text \<open>
  Writing an SPI EEPROM. A chip with eight address bits and more than 128 words takes the ninth bit
  of a byte address from the opcode; the driver sets it by the first word of the request, not by the
  first word of the page, so a request that crosses word 128 goes on at the start of the chip. The
  detection of an SPI chip reads a word of it, and cannot do so under the lock a read already holds.
  The memory of a CE4100 is written at another address than it is read from.
\<close>

section \<open>Waiting for the chip\<close>

definition spi_params :: "ee_hw \<Rightarrow> bool" where
  "spi_params h \<longleftrightarrow> ee_is e1000_eeprom_spi h \<and> ee_opcode_bits (eh_eeprom h) = 8
     \<and> ee_address_bits (eh_eeprom h) = 8 \<and> ee_page_size (eh_eeprom h) = 8"

lemma spi_params_same: "same_hw h1 h \<Longrightarrow> spi_params h1 = spi_params h"
  by (simp add: spi_params_def same_hwD)

lemma spi_paramsD:
  assumes "spi_params h"
  shows "serial_chip h" "\<not> select_level h" "\<not> ee_is e1000_eeprom_microwire h"
  using assms by (auto simp: spi_params_def serial_chip_def select_level_def)

lemma spi_out:
  assumes "keeps_bits dev" and "spi_params h" and "on_wire False s fs h"
  shows "on_wire False (s @ ee_bits 8 d) fs (e1000_shift_out_ee_bits dev d 8 h)"
    and "same_hw (e1000_shift_out_ee_bits dev d 8 h) h"
  using shift_out_wire [OF assms(1,3), of 8 d] by simp_all

lemma spi_standby:
  assumes "keeps_bits dev" and "spi_params h" and "on_wire False s fs h"
  shows "on_wire False [] (close_frame fs s) (e1000_standby_eeprom dev h)"
    and "same_hw (e1000_standby_eeprom dev h) h"
  using standby_wire [OF assms(1), of h s fs] spi_paramsD [OF assms(2)] assms(3) by simp_all

lemma spi_ready_loop_wire:
  "keeps_bits dev \<Longrightarrow> spi_params h \<Longrightarrow> on_wire False [] fs h \<Longrightarrow> spi_ready_loop dev r h = (r1, h1)
    \<Longrightarrow> \<exists>s1 fs1. on_wire False s1 (fs @ fs1) h1 \<and> same_hw h1 h"
proof (induction dev r h arbitrary: fs r1 h1 rule: spi_ready_loop.induct)
  case (1 dev r h)
  note k = "1.prems"(1) and p = "1.prems"(2) and w = "1.prems"(3)
  have op: "ee_opcode_bits (eh_eeprom h) = 8" using p by (simp add: spi_params_def)
  define ha where "ha = e1000_shift_out_ee_bits dev 0x05 8 h"
  obtain stat hb where b: "e1000_shift_in_ee_bits dev 8 ha = (stat, hb)" by fastforce
  have wa: "on_wire False (ee_bits 8 5) fs ha" "same_hw ha h"
    using spi_out [OF k p w, of 5] by (simp_all add: ha_def)
  have wb: "on_wire False (ee_bits 8 5 @ replicate 8 False) fs hb" "same_hw hb h"
    using shift_in_wire(1,2) [OF k wa(1) b] wa(2) by (auto dest: same_hw_trans)
  show ?case
  proof (cases "(ucast stat :: u8) AND 1 = 0")
    case True
    then have "h1 = hb" using "1.prems"(4) b by (subst (asm) spi_ready_loop.simps) (simp add: Let_def op ha_def)
    with wb show ?thesis by (metis append_Nil2)
  next
    case False
    define hc where "hc = e1000_standby_eeprom dev hb"
    define fc where "fc = close_frame fs (ee_bits 8 5 @ replicate 8 False)"
    have pb: "spi_params hb" using p spi_params_same [OF wb(2)] by simp
    have wc: "on_wire False [] fc hc" "same_hw hc h"
      using spi_standby [OF k pb wb(1)] wb(2) same_hw_trans by (auto simp: hc_def fc_def)
    have fc: "fc = fs @ [ee_bits 8 5 @ replicate 8 False]" by (simp add: fc_def close_frame_def)
    show ?thesis
    proof (cases "r + 5 < 5000")
      case True
      then have "spi_ready_loop dev (r + 5) hc = (r1, h1)"
        using False "1.prems"(4) b by (subst (asm) spi_ready_loop.simps) (simp add: Let_def op ha_def hc_def)
      moreover have "spi_params hc" using p spi_params_same [OF wc(2)] by simp
      moreover have "ha = e1000_shift_out_ee_bits dev 5 (ee_opcode_bits (eh_eeprom h)) h" by (simp add: ha_def op)
      ultimately obtain s1 fs1 where "on_wire False s1 (fc @ fs1) h1" "same_hw h1 hc"
        using "1.IH" [OF _ refl b [symmetric] False hc_def True k _ wc(1)] by blast
      then show ?thesis using wc(2) fc same_hw_trans by auto
    next
      case 2: False
      then have "h1 = hc"
        using False "1.prems"(4) b by (subst (asm) spi_ready_loop.simps) (simp add: Let_def op ha_def hc_def)
      with wc fc show ?thesis by auto
    qed
  qed
qed

lemma spi_ready_wire:
  assumes "keeps_bits dev" and "spi_params h" and "on_wire False [] fs h"
    and "e1000_spi_eeprom_ready dev h = (ok, h1)"
  obtains s1 fs1 where "on_wire False s1 (fs @ fs1) h1" "same_hw h1 h"
  using assms(4) spi_ready_loop_wire [OF assms(1-3), of 0]
  by (auto simp: e1000_spi_eeprom_ready_def split: prod.splits)

section \<open>Pages\<close>

text \<open>
  One page: words are sent until the next word starts a page, where the frame is closed, or until the
  request ends, where it stays open.
\<close>

lemma write_spi_page_wire:
  "keeps_bits dev \<Longrightarrow> spi_params h \<Longrightarrow> on_wire False s fs h \<Longrightarrow> s \<noteq> [] \<Longrightarrow> ws \<noteq> []
    \<Longrightarrow> write_spi_page dev offset widx ws h = (widx1, ws1, h1)
    \<Longrightarrow> \<exists>rest. (\<exists>s1 fs1. on_wire False s1 fs1 h1 \<and> close_frame fs1 s1 = fs @ [s @ ee_bits 16 (bswap16 (hd ws)) @ rest]
        \<and> (ws1 \<noteq> [] \<longrightarrow> s1 = []))
      \<and> same_hw h1 h \<and> widx1 + length ws1 = widx + length ws \<and> widx < widx1
      \<and> (\<forall>j. widx < j \<and> (unat offset + j) * 2 mod 8 = 0 \<and> j \<le> widx + length ws \<longrightarrow> widx1 \<le> j)
      \<and> ws1 = drop (widx1 - widx) ws"
proof (induction dev offset widx ws h arbitrary: s rule: write_spi_page.induct)
  case (1 dev offset widx h)
  then show ?case by simp
next
  case (2 dev offset widx w ws h)
  note k = "2.prems"(1) and p = "2.prems"(2) and w = "2.prems"(3)
  define ha where "ha = e1000_shift_out_ee_bits dev (bswap16 w) 16 h"
  have wa: "on_wire False (s @ ee_bits 16 (bswap16 w)) fs ha" "same_hw ha h"
    using shift_out_wire [OF k w, of 16 "bswap16 w"] by (simp_all add: ha_def)
  have pa: "spi_params ha" using p spi_params_same [OF wa(2)] by simp
  have page: "unat (ee_page_size (eh_eeprom h)) = 8" using p by (simp add: spi_params_def)
  show ?case
  proof (cases "(unat offset + (widx + 1)) * 2 mod 8 = 0")
    case True
    then have r: "widx1 = widx + 1" "ws1 = ws" "h1 = e1000_standby_eeprom dev ha"
      using "2.prems"(6) page by (simp_all add: ha_def Let_def)
    have "on_wire False [] (fs @ [s @ ee_bits 16 (bswap16 w)]) h1" "same_hw h1 h"
      using spi_standby [OF k pa wa(1)] wa(2) "2.prems"(4) same_hw_trans by (auto simp: r)
    then have "\<exists>s1 fs1. on_wire False s1 fs1 h1 \<and> close_frame fs1 s1 = fs @ [s @ ee_bits 16 (bswap16 w)] \<and> (ws1 \<noteq> [] \<longrightarrow> s1 = [])"
      by (intro exI [of _ "[]"] exI [of _ "fs @ [s @ ee_bits 16 (bswap16 w)]"]) simp
    then show ?thesis using r(1,2) \<open>same_hw h1 h\<close> by (intro exI [of _ "[]"]) auto
  next
    case False
    then have eq: "write_spi_page dev offset (widx + 1) ws ha = (widx1, ws1, h1)"
      using "2.prems"(6) page by (simp add: ha_def Let_def)
    show ?thesis
    proof (cases "ws = []")
      case True
      then have r: "widx1 = widx + 1" "ws1 = []" "h1 = ha" using eq by simp_all
      then show ?thesis using wa True "2.prems"(4)
        by (intro exI [of _ "[]"] conjI exI [of _ "s @ ee_bits 16 (bswap16 w)"] exI [of _ fs]) auto
    next
      case ws: False
      have "s @ ee_bits 16 (bswap16 w) \<noteq> []" using "2.prems"(4) by simp
      have "\<not> (unat offset + (widx + 1)) * 2 mod unat (ee_page_size (eh_eeprom h)) = 0" using False page by simp
      note "2.IH" [OF ha_def this k pa wa(1) \<open>s @ ee_bits 16 (bswap16 w) \<noteq> []\<close> ws eq]
      then obtain rest where
        i: "\<exists>s1 fs1. on_wire False s1 fs1 h1
          \<and> close_frame fs1 s1 = fs @ [(s @ ee_bits 16 (bswap16 w)) @ ee_bits 16 (bswap16 (hd ws)) @ rest] \<and> (ws1 \<noteq> [] \<longrightarrow> s1 = [])"
        and s: "same_hw h1 ha" and l: "widx1 + length ws1 = widx + 1 + length ws" "widx + 1 < widx1"
        and j: "\<forall>j. widx + 1 < j \<and> (unat offset + j) * 2 mod 8 = 0 \<and> j \<le> widx + 1 + length ws \<longrightarrow> widx1 \<le> j"
        and d: "ws1 = drop (widx1 - (widx + 1)) ws"
        by blast
      have "ws1 = drop (widx1 - widx) (w # ws)" using d l(2) by (simp add: drop_Cons' )
      moreover have "widx1 \<le> j" if "widx < j" "(unat offset + j) * 2 mod 8 = 0" "j \<le> widx + length (w # ws)" for j
        using j that False by (cases "j = widx + 1") auto
      ultimately show ?thesis
        using i s l wa(2) by (intro exI [of _ "ee_bits 16 (bswap16 (hd ws)) @ rest"]) (auto dest: same_hw_trans)
    qed
  qed
qed

text \<open>
  One turn of the outer loop: the frame of the page carries the opcode chosen by the first word of
  the request and the low byte of the byte address.
\<close>

lemma write_spi_turn:
  assumes k: "keeps_bits dev" and p: "spi_params h" and w: "on_wire False [] fs h" and ws: "ws \<noteq> []"
    and r: "write_spi_loop dev offset widx ws h = (Inr (), h9)"
  obtains h1 widx1 ws1 s1 fs1 rest where
    "write_spi_loop dev offset widx1 ws1 h1 = (Inr (), h9)" "same_hw h1 h"
    "on_wire False s1 fs1 h1" "ws1 \<noteq> [] \<longrightarrow> s1 = []" "ws1 = drop (widx1 - widx) ws"
    "widx1 + length ws1 = widx + length ws" "widx < widx1"
    "\<forall>j. widx < j \<and> (unat offset + j) * 2 mod 8 = 0 \<and> j \<le> widx + length ws \<longrightarrow> widx1 \<le> j"
    "(ee_bits 8 (if offset \<ge> 128 then 0x0A else 0x02) @ ee_bits 8 ((offset + of_nat widx) * 2)
      @ ee_bits 16 (bswap16 (hd ws)) @ rest) \<in> set (close_frame fs1 s1)"
    "set fs \<subseteq> set (close_frame fs1 s1)"
proof -
  obtain ok ha where a: "e1000_spi_eeprom_ready dev h = (ok, ha)" by fastforce
  obtain sa fa where wa: "on_wire False sa (fs @ fa) ha" "same_hw ha h"
    using spi_ready_wire [OF k p w a] by blast
  have ok: ok
    using r a ws by (subst (asm) write_spi_loop.simps) (auto split: if_splits)
  have pa: "spi_params ha" using p spi_params_same [OF wa(2)] by simp
  define hb where "hb = e1000_standby_eeprom dev ha"
  define fb where "fb = close_frame (fs @ fa) sa"
  have wb: "on_wire False [] fb hb" "same_hw hb h"
    using spi_standby [OF k pa wa(1)] wa(2) same_hw_trans by (auto simp: hb_def fb_def)
  define hc where "hc = e1000_shift_out_ee_bits dev 0x06 8 hb"
  have pb: "spi_params hb" using p spi_params_same [OF wb(2)] by simp
  have wc: "on_wire False (ee_bits 8 6) fb hc" "same_hw hc h"
    using spi_out [OF k pb wb(1), of 6] wb(2) same_hw_trans by (auto simp: hc_def)
  have pc: "spi_params hc" using p spi_params_same [OF wc(2)] by simp
  define hd' where "hd' = e1000_standby_eeprom dev hc"
  define fd where "fd = close_frame fb (ee_bits 8 6)"
  have wd: "on_wire False [] fd hd'" "same_hw hd' h"
    using spi_standby [OF k pc wc(1)] wc(2) same_hw_trans by (auto simp: hd'_def fd_def)
  have pd: "spi_params hd'" using p spi_params_same [OF wd(2)] by simp
  define op where "op = (if offset \<ge> 128 then 0x0A else 0x02 :: u16)"
  define he where "he = e1000_shift_out_ee_bits dev op 8 hd'"
  have we: "on_wire False (ee_bits 8 op) fd he" "same_hw he h"
    using spi_out [OF k pd wd(1), of op] wd(2) same_hw_trans by (auto simp: he_def)
  have pe: "spi_params he" using p spi_params_same [OF we(2)] by simp
  define hf where "hf = e1000_shift_out_ee_bits dev ((offset + of_nat widx) * 2) 8 he"
  define s where "s = ee_bits 8 op @ ee_bits 8 ((offset + of_nat widx) * 2)"
  have wf: "on_wire False s fd hf" "same_hw hf h"
    using spi_out [OF k pe we(1), of "(offset + of_nat widx) * 2"] we(2) same_hw_trans by (auto simp: hf_def s_def)
  have pf: "spi_params hf" using p spi_params_same [OF wf(2)] by simp
  obtain widx1 ws1 h1 where g: "write_spi_page dev offset widx ws hf = (widx1, ws1, h1)" by (metis prod_cases3)
  have bits: "ee_opcode_bits (eh_eeprom ha) = 8" "ee_address_bits (eh_eeprom he) = 8" using pa pe by (simp_all add: spi_params_def)
  have opd: "spi_opcode 0x02 hd' offset = op" using pd by (simp add: spi_opcode_def spi_params_def op_def)
  have next_turn: "write_spi_loop dev offset widx1 ws1 h1 = (Inr (), h9)"
    using r ws a ok g bits opd
    by (subst (asm) write_spi_loop.simps) (simp add: Let_def hb_def hc_def hd'_def he_def hf_def)
  have "s \<noteq> []" by (simp add: s_def flip: length_0_conv)
  from write_spi_page_wire [OF k pf wf(1) this ws g] obtain rest s1 fs1 where
    c: "on_wire False s1 fs1 h1" "close_frame fs1 s1 = fd @ [s @ ee_bits 16 (bswap16 (hd ws)) @ rest]" "ws1 \<noteq> [] \<longrightarrow> s1 = []"
      "same_hw h1 hf" "widx1 + length ws1 = widx + length ws" "widx < widx1"
      "\<forall>j. widx < j \<and> (unat offset + j) * 2 mod 8 = 0 \<and> j \<le> widx + length ws \<longrightarrow> widx1 \<le> j"
      "ws1 = drop (widx1 - widx) ws"
    by blast
  have "set fs \<subseteq> set fd" by (auto simp: fd_def fb_def close_frame_def)
  moreover have "same_hw h1 h" using c(4) wf(2) by (rule same_hw_trans)
  ultimately show thesis
    using that [OF next_turn _ c(1,3) c(8) c(5,6,7), of rest] c(2) by (simp add: s_def op_def subset_insertI2)
qed

text \<open>Later pages keep the frames of the earlier ones.\<close>

lemma write_spi_loop_frames:
  assumes k: "keeps_bits dev"
  shows "spi_params h \<Longrightarrow> on_wire False s fs h \<Longrightarrow> (ws \<noteq> [] \<longrightarrow> s = []) \<Longrightarrow> write_spi_loop dev offset widx ws h = (Inr (), h1)
    \<Longrightarrow> \<exists>s1 fs1. on_wire False s1 fs1 h1 \<and> set (close_frame fs s) \<subseteq> set (close_frame fs1 s1) \<and> same_hw h1 h"
proof (induction "length ws" arbitrary: s fs ws widx h rule: less_induct)
  case less
  show ?case
  proof (cases "ws = []")
    case True
    then have "h1 = h" using less.prems(4) by (subst (asm) write_spi_loop.simps) simp
    then show ?thesis using less.prems(2) by auto
  next
    case False
    with less.prems(3) have s: "s = []" by simp
    with less.prems(2) have w: "on_wire False [] fs h" by simp
    from k less.prems(1) w False less.prems(4) obtain h2 i ws1 s1 fs1 rest where
      n: "write_spi_loop dev offset i ws1 h2 = (Inr (), h1)" "same_hw h2 h" "on_wire False s1 fs1 h2"
        "ws1 \<noteq> [] \<longrightarrow> s1 = []" "i + length ws1 = widx + length ws" "widx < i" "set fs \<subseteq> set (close_frame fs1 s1)"
      by (rule write_spi_turn) blast
    have "length ws1 < length ws" using n(5,6) by simp
    from less.hyps [OF this _ n(3,4,1)] less.prems(1) spi_params_same [OF n(2)] n(2,7) s show ?thesis
      by (fastforce intro: same_hw_trans)
  qed
qed

text \<open>A request that starts below word 128 and goes beyond it.\<close>

lemma write_spi_loop_crossing:
  assumes k: "keeps_bits dev" and o: "offset < 128"
  shows "spi_params h \<Longrightarrow> on_wire False [] fs h \<Longrightarrow> write_spi_loop dev offset widx ws h = (Inr (), h1)
    \<Longrightarrow> unat offset + widx \<le> 128 \<Longrightarrow> 128 < unat offset + widx + length ws
    \<Longrightarrow> \<exists>s1 fs1 rest. on_wire False s1 fs1 h1 \<and> same_hw h1 h \<and>
      (ee_bits 8 0x02 @ ee_bits 8 0 @ ee_bits 16 (bswap16 (ws ! (128 - (unat offset + widx)))) @ rest) \<in> set (close_frame fs1 s1)"
proof (induction "length ws" arbitrary: fs ws widx h rule: less_induct)
  case less
  have ne: "ws \<noteq> []" using less.prems(4,5) by auto
  from k less.prems(1,2) ne less.prems(3) obtain h2 i ws1 s1 fs1 rest where
    n: "write_spi_loop dev offset i ws1 h2 = (Inr (), h1)" "same_hw h2 h" "on_wire False s1 fs1 h2"
      "ws1 \<noteq> [] \<longrightarrow> s1 = []" "ws1 = drop (i - widx) ws" "i + length ws1 = widx + length ws" "widx < i"
      "\<forall>j. widx < j \<and> (unat offset + j) * 2 mod 8 = 0 \<and> j \<le> widx + length ws \<longrightarrow> i \<le> j"
      "(ee_bits 8 (if offset \<ge> 128 then 0x0A else 0x02) @ ee_bits 8 ((offset + of_nat widx) * 2)
        @ ee_bits 16 (bswap16 (hd ws)) @ rest) \<in> set (close_frame fs1 s1)"
    by (rule write_spi_turn) blast
  have p2: "spi_params h2" using less.prems(1) spi_params_same [OF n(2)] by simp
  show ?case
  proof (cases "unat offset + widx = 128")
    case True
    then have "offset + of_nat widx = 128"
      by (simp add: word_unat_eq_iff unat_word_ariths unat_of_nat)
    then have a: "ee_bits 8 ((offset + of_nat widx) * 2) = ee_bits 8 0"
      by (simp only:) (simp add: ee_bits_def upt_rec bit_simps)
    from write_spi_loop_frames [OF k p2 n(3,4,1)] obtain s3 fs3 where
      "on_wire False s3 fs3 h1" "set (close_frame fs1 s1) \<subseteq> set (close_frame fs3 s3)" "same_hw h1 h2" by blast
    moreover have "hd ws = ws ! (128 - (unat offset + widx))" using True ne by (simp add: hd_conv_nth)
    moreover have "(ee_bits 8 0x02 @ ee_bits 8 0 @ ee_bits 16 (bswap16 (hd ws)) @ rest) \<in> set (close_frame fs1 s1)"
      using n(9) o unfolding a by (simp add: not_le [symmetric])
    moreover have "same_hw h1 h" using \<open>same_hw h1 h2\<close> n(2) by (rule same_hw_trans)
    ultimately show ?thesis by auto
  next
    case False
    define j where "j = 128 - unat offset"
    have "unat offset < 128" using o by (simp add: word_less_nat_alt)
    then have jo: "unat offset + j = 128" by (simp add: j_def)
    then have j: "widx < j" "j \<le> widx + length ws" "(unat offset + j) * 2 mod 8 = 0"
      using False less.prems(4,5) by simp_all
    from n(8) [rule_format, OF conjI [OF j(1) conjI [OF j(3,2)]]] have le: "i \<le> j" .
    then have i: "unat offset + i \<le> 128" "128 < unat offset + i + length ws1"
      using jo n(6) less.prems(5) by linarith+
    then have ne1: "ws1 \<noteq> []" by auto
    with n(4,3) have w2: "on_wire False [] fs1 h2" by simp
    have "length ws1 < length ws" using n(6,7) by simp
    from less.hyps [OF this p2 w2 n(1) i] n(2) have "\<exists>s3 fs3 rest. on_wire False s3 fs3 h1 \<and> same_hw h1 h \<and>
      (ee_bits 8 0x02 @ ee_bits 8 0 @ ee_bits 16 (bswap16 (ws1 ! (128 - (unat offset + i)))) @ rest) \<in> set (close_frame fs3 s3)"
      using same_hw_trans by blast
    moreover have "ws1 ! (128 - (unat offset + i)) = ws ! (128 - (unat offset + widx))"
    proof -
      have "i - widx + (128 - (unat offset + i)) = 128 - (unat offset + widx)" using i(1) n(7) by arith
      moreover have "ws1 ! (128 - (unat offset + i)) = ws ! (i - widx + (128 - (unat offset + i)))"
      proof -
        have "i - widx \<le> length ws" using n(6,7) by linarith
        from nth_drop [OF this] show ?thesis unfolding n(5) .
      qed
      ultimately show ?thesis by simp
    qed
    ultimately show ?thesis by simp
  qed
qed

section \<open>A chip that is always ready\<close>

lemma shift_in_bits_zero:
  assumes "\<And>log. \<not> bit (dev log) 3"
  shows "fst (shift_in_bits dev n 0 e h) = 0"
  using assms by (induction n arbitrary: e h)
    (simp_all add: e1000_raise_ee_clk_def e1000_lower_ee_clk_def er32_eecd_def Let_def eecd_bits bit_simps)

lemma shift_in_zero:
  assumes "\<And>log. \<not> bit (dev log) 3"
  shows "fst (e1000_shift_in_ee_bits dev n h) = 0"
  using shift_in_bits_zero [OF assms] by (simp add: e1000_shift_in_ee_bits_def er32_eecd_def Let_def)

lemma spi_always_ready:
  assumes "\<And>log. \<not> bit (dev log) 3"
  obtains h1 where "e1000_spi_eeprom_ready dev h = (True, h1)"
proof -
  define ha where "ha = e1000_shift_out_ee_bits dev 0x05 (ee_opcode_bits (eh_eeprom h)) h"
  obtain stat hb where b: "e1000_shift_in_ee_bits dev 8 ha = (stat, hb)" by fastforce
  then have "stat = 0" using shift_in_zero [of dev 8 ha, OF assms] by simp
  then have "spi_ready_loop dev 0 h = (0, hb)"
    using b by (subst spi_ready_loop.simps) (simp add: Let_def ha_def)
  then show thesis using that by (simp add: e1000_spi_eeprom_ready_def)
qed

lemma write_spi_loop_ready:
  assumes "\<And>log. \<not> bit (dev log) 3"
  shows "fst (write_spi_loop dev offset widx ws h) = Inr ()"
proof (induction "length ws" arbitrary: widx ws h rule: less_induct)
  case less
  obtain h1 where r: "e1000_spi_eeprom_ready dev h = (True, h1)" using assms by (rule spi_always_ready)
  show ?case
  proof (cases "ws = []")
    case True
    then show ?thesis by (subst write_spi_loop.simps) simp
  next
    case False
    define h4 where "h4 = e1000_standby_eeprom dev (e1000_shift_out_ee_bits dev 0x06 (ee_opcode_bits (eh_eeprom h1))
      (e1000_standby_eeprom dev h1))"
    define h5 where "h5 = e1000_shift_out_ee_bits dev (spi_opcode 0x02 h4 offset) (ee_opcode_bits (eh_eeprom h1)) h4"
    define h6 where "h6 = e1000_shift_out_ee_bits dev ((offset + of_nat widx) * 2) (ee_address_bits (eh_eeprom h5)) h5"
    obtain i ws1 h7 where g: "write_spi_page dev offset widx ws h6 = (i, ws1, h7)" by (metis prod_cases3)
    have "length ws1 < length ws" using write_spi_page_less [OF False, of dev offset widx h6] by (simp add: g)
    moreover have "write_spi_loop dev offset widx ws h = write_spi_loop dev offset i ws1 h7"
      using False g by (subst write_spi_loop.simps) (simp add: r Let_def h4_def h5_def h6_def)
    ultimately show ?thesis using less by simp
  qed
qed

definition ready_reply :: ee_device where
  "ready_reply log = (eecd_last log AND 0x47) OR 0x2080"

lemma ready_reply_bits: "keeps_bits ready_reply" "\<not> bit (ready_reply log) 3" "bit (ready_reply log) 7" "bit (ready_reply log) 13"
  by (auto simp: keeps_bits_def ready_reply_def bit_simps)

text \<open>An 82541 with an SPI chip of 256 words, after a reset.\<close>

definition spi_hw :: "u16 \<Rightarrow> ee_hw" where
  "spi_hw words = \<lparr>eh_mac_type = e1000_82541, eh_eeprom = \<lparr>ee_type = e1000_eeprom_spi, ee_word_size = words,
     ee_opcode_bits = 8, ee_address_bits = 8, ee_delay_usec = 1, ee_page_size = 8\<rparr>, eh_log = [], eh_lock = False,
     eh_flash = (\<lambda>_. 0), eh_perm_mac_addr = replicate 6 0, eh_mac_addr = replicate 6 0\<rparr>"

section \<open>Properties\<close>

text \<open>
  What a chip with nine address bits takes a frame for: a write command, the byte address (the high bit
  comes from the opcode) and the bits that follow.
\<close>

definition spi_write_cmd :: "bool list \<Rightarrow> (nat \<times> bool list) option" where
  "spi_write_cmd fr = (
     if 16 \<le> length fr \<and> take 4 fr = [False, False, False, False] \<and> take 3 (drop 5 fr) = [False, True, False]
     then Some ((if fr ! 4 then 256 else 0) + bits_nat (take 8 (drop 8 fr)), drop 16 fr) else None)"

lemma spi_write_cmd_low:
  "spi_write_cmd (ee_bits 8 0x02 @ ee_bits 8 0 @ ee_bits 16 v @ rest) = Some (0, ee_bits 16 v @ rest)"
proof -
  have op: "ee_bits 8 0x02 = [False, False, False, False, False, False, True, False]"
    by (simp add: ee_bits_def upt_rec bit_simps)
  have "bits_nat (ee_bits 8 0) = 0" by (simp add: bits_nat_ee_bits)
  then show ?thesis by (simp add: spi_write_cmd_def op)
qed



text \<open>
  C33. Detection under the lock: on a controller with an SPI chip whose size is not known, a read or
  a write takes the lock and detects the chip, the detection reads a word and takes the lock again; the call
  never returns, though the detection called on its own does.
\<close>

theorem detection_under_lock_hangs:
  assumes "eh_mac_type h \<in> {e1000_82541, e1000_82541_rev_2, e1000_82547, e1000_82547_rev_2}"
    and "ee_word_size (eh_eeprom h) = 0" and "bit (dev (eh_log h)) 13" and "\<not> eh_lock h"
  shows "e1000_read_eeprom dev buf offset words h = None \<and> e1000_write_eeprom dev junk offset data h = None
    \<and> e1000_init_eeprom_params dev junk h \<noteq> None"
proof -
  have b: "(dev (eh_log h) AND 0x2000) \<noteq> 0"
    using and_exp_eq_0_iff_not_bit [of "dev (eh_log h)" 13] assms(3) by simp
  have t: "ee_type (detect_eeprom (eh_mac_type h) (dev (eh_log h)) (eh_eeprom h)) = e1000_eeprom_spi"
    using assms(1) b by (auto simp: detect_eeprom_def spi_chip_def)
  have "detected dev j (h\<lparr>eh_lock := True\<rparr>) = None" for j
    using assms(2) t by (simp add: detected_def e1000_init_eeprom_params_def er32_eecd_def Let_def with_eeprom_lock_def set_word_size_def)
  then have "e1000_read_eeprom dev buf offset words h = None" "e1000_write_eeprom dev junk offset data h = None"
    using assms(1,4) by (auto simp: e1000_read_eeprom_def e1000_write_eeprom_def with_eeprom_lock_def
      e1000_do_read_eeprom_def e1000_do_write_eeprom_def)
  moreover have "e1000_init_eeprom_params dev junk h \<noteq> None"
    using assms(4) t by (auto simp: e1000_init_eeprom_params_def er32_eecd_def Let_def with_eeprom_lock_def set_word_size_def
      split: option.splits sum.splits prod.splits)
  ultimately show ?thesis by simp
qed

theorem detection_under_lock_hangs_witness:
  "e1000_read_eeprom ready_reply [0] 0 1 (spi_hw 0) = None \<and> e1000_init_eeprom_params ready_reply 0 (spi_hw 0) \<noteq> None"
  using detection_under_lock_hangs [of "spi_hw 0" ready_reply "[0]" 0 1 0 "[]"]
  by (simp add: spi_hw_def ready_reply_bits)

text \<open>
  On a CE4100 the update of the checksum does not reach the checksum: it reports success, the word
  it should replace reads as before, and what it changes are the two bytes at offsets 63 and 64, which belong to
  the words 31 and 32.
\<close>

definition flash_sum :: "(nat \<Rightarrow> u8) \<Rightarrow> nat \<Rightarrow> nat \<Rightarrow> u16" where
  "flash_sum fl i n = sum_list (map (\<lambda>j. flash_word fl (2 * j)) [i..<i + n])"

lemma ce4100_read:
  assumes "eh_mac_type h = e1000_ce4100" and "\<not> eh_lock h"
  shows "e1000_read_eeprom dev buf i 1 h = Some (Inr [flash_word (eh_flash h) (2 * unat i)], h)"
  using assms by (cases h)
    (simp add: e1000_read_eeprom_def with_eeprom_lock_def e1000_do_read_eeprom_def read_sized_def GBE_CONFIG_FLASH_READ_def)

lemma ce4100_sum:
  assumes h: "eh_mac_type h = e1000_ce4100" "\<not> eh_lock h"
  shows "unat i + n < 65536 \<Longrightarrow> sum_words dev n i junk c h = Some (Inr (c + flash_sum (eh_flash h) (unat i) n), h)"
proof (induction n arbitrary: i junk c)
  case 0
  then show ?case by (simp add: flash_sum_def)
next
  case (Suc n)
  have o1: "unat (i + 1) = Suc (unat i)" using Suc.prems by (simp add: unat_word_ariths)
  have "unat (i + 1) + n < 65536" using Suc.prems o1 by simp
  from Suc.IH [OF this] o1 show ?case
    by (simp add: ce4100_read [OF h] flash_sum_def upt_conv_Cons add.assoc del: upt_Suc)
qed

lemma flash_word_halves: "ucast (ucast w :: u8) OR push_bit 8 (ucast (ucast (drop_bit 8 w) :: u8)) = (w :: u16)"
  by (rule bit_word_eqI) (auto simp: bit_simps)

lemma ce4100_write:
  assumes "eh_mac_type h = e1000_ce4100" and "\<not> eh_lock h"
  shows "e1000_write_eeprom dev junk offset [w] h = Some (Inr (), h\<lparr>eh_flash := (eh_flash h)
    (unat offset := ucast w, unat offset + 1 := ucast (drop_bit 8 w))\<rparr>)"
  using assms by (cases h)
    (simp add: e1000_write_eeprom_def with_eeprom_lock_def e1000_do_write_eeprom_def GBE_CONFIG_FLASH_WRITE_def)

theorem ce4100_checksum_not_updated:
  assumes "eh_mac_type h = e1000_ce4100" and "\<not> eh_lock h"
  shows "\<exists>h1 c. e1000_update_eeprom_checksum dev junk h = Some (Inr (), h1)
    \<and> e1000_read_eeprom dev buf 63 1 h = Some (Inr [c], h)
    \<and> e1000_read_eeprom dev buf 63 1 h1 = Some (Inr [c], h1)
    \<and> (\<forall>a. a \<noteq> 63 \<and> a \<noteq> 64 \<longrightarrow> eh_flash h1 a = eh_flash h a)
    \<and> flash_word (eh_flash h1) 63 = 0xBABA - flash_sum (eh_flash h) 0 63"
proof -
  define w where "w = 0xBABA - flash_sum (eh_flash h) 0 63"
  define h1 where "h1 = h\<lparr>eh_flash := (eh_flash h)(63 := ucast w, 64 := ucast (drop_bit 8 w))\<rparr>"
  have u: "e1000_update_eeprom_checksum dev junk h = Some (Inr (), h1)"
    using ce4100_sum [OF assms, of 0 63 dev junk 0] ce4100_write [OF assms, of dev junk 63 w]
    by (simp add: e1000_update_eeprom_checksum_def w_def h1_def)
  have h1: "eh_mac_type h1 = e1000_ce4100" "\<not> eh_lock h1" using assms by (simp_all add: h1_def)
  have "e1000_read_eeprom dev buf 63 1 h1 = Some (Inr [flash_word (eh_flash h) 126], h1)"
    using ce4100_read [OF h1, of dev buf 63] by (simp add: h1_def flash_word_def)
  moreover have "e1000_read_eeprom dev buf 63 1 h = Some (Inr [flash_word (eh_flash h) 126], h)"
    using ce4100_read [OF assms, of dev buf 63] by simp
  moreover have "flash_word (eh_flash h1) 63 = w"
    using flash_word_halves [of w] by (simp add: h1_def flash_word_def)
  ultimately show ?thesis using u by (auto simp: h1_def w_def)
qed

theorem ce4100_checksum_not_updated_witness:
  "\<exists>h1 c. e1000_update_eeprom_checksum ready_reply 0 ((spi_hw 0)\<lparr>eh_mac_type := e1000_ce4100\<rparr>) = Some (Inr (), h1)
    \<and> e1000_read_eeprom ready_reply [0] 63 1 h1 = Some (Inr [c], h1) \<and> flash_word (eh_flash h1) 63 \<noteq> c"
proof -
  have z: "flash_sum (\<lambda>_. 0) 0 n = 0" for n by (induction n) (simp_all add: flash_sum_def flash_word_def)
  define h where "h = (spi_hw 0)\<lparr>eh_mac_type := e1000_ce4100\<rparr>"
  have h: "eh_mac_type h = e1000_ce4100" "\<not> eh_lock h" "eh_flash h = (\<lambda>_. 0)" by (simp_all add: h_def spi_hw_def)
  obtain h1 c where "e1000_update_eeprom_checksum ready_reply 0 h = Some (Inr (), h1)"
    "e1000_read_eeprom ready_reply [0] 63 1 h = Some (Inr [c], h)" "e1000_read_eeprom ready_reply [0] 63 1 h1 = Some (Inr [c], h1)"
    "flash_word (eh_flash h1) 63 = 0xBABA"
    using ce4100_checksum_not_updated [OF h(1,2), of ready_reply 0 "[0]"] h(3) z by auto
  moreover from this(2) have "c = 0" using ce4100_read [OF h(1,2), of ready_reply "[0]" 63] h(3) by (simp add: flash_word_def)
  ultimately show ?thesis by (auto simp: h_def)
qed

end
