(* ===== verification/Spec2Isabelle.thy ===== *)
theory Spec2Isabelle
  imports Dysco_Management Dysco_Paths Dysco_Handshake Dysco_Veth Dysco_Proc Dysco_E1000_Poll Dysco_E1000_Jumbo
    Dysco_E1000_Microwire Dysco_E1000_Spi
begin

text \<open>
  Dysco is a Linux kernel module that steers TCP sessions through chains of middleboxes and
  changes the chain of a running session. The hosts of a chain rewrite addresses, ports, sequence
  numbers and options so that the end hosts see one TCP session while the packets travel over
  several \<^emph>\<open>subsessions\<close>. This development models the module (\<^verbatim>\<open>src/kernel/common\<close>), its
  Netfilter front end (\<^verbatim>\<open>src/kernel/nf/d.c\<close>) and two drivers that embed it: virtual Ethernet
  (\<^verbatim>\<open>src/kernel/veth/v.c\<close>) and the part of Intel e1000 that lies around its calls of the module
  (\<^verbatim>\<open>src/kernel/e1000\<close>).

  \<^bold>\<open>The program.\<close> A device driver or the Netfilter hooks hand every packet to \<open>dysco_input\<close> or
  \<open>dysco_output\<close>. TCP packets go through the data path: a table of the namespace maps a
  five-tuple to a control block, which says how to rewrite the header. The SYN of a session
  carries the chain of middleboxes as payload; every host takes itself off the chain, and a
  middlebox keeps the rest in a pending block until its application sends the SYN on. UDP
  packets to the control port carry the messages of a reconfiguration (\<open>DYSCO_SYN\<close>,
  \<open>DYSCO_SYN_ACK\<close>, \<open>DYSCO_ACK\<close>, \<open>DYSCO_STATE_TRANSFERRED\<close>) between its two anchors, which then
  use an old and a new path together until everything sent on the old one is acknowledged. The
  daemon installs policies and asks for reports over netlink.

  \<^bold>\<open>Models, one theory per part, in the order of the code.\<close>
  \<^item> \<open>Dysco_Prelude\<close>: integer types, byte order (a little-endian host), serial number comparison,
    packet memory, invariants of step relations. \<open>Dysco_Kernel\<close>: headers, devices, sockets.
    \<open>Dysco_Types\<close>: the enumerations and structures of \<^verbatim>\<open>dysco.h\<close>. \<open>Dysco_State\<close>: packet buffers, the
    kernel services \<open>kapi\<close>, the stores of control blocks and the tables \<open>dysco_hashes\<close>.
  \<^item> \<open>Dysco_Base\<close>: the inline functions of \<^verbatim>\<open>dysco.h\<close> that keep state: port allocation, lookup of a
    namespace, links and lookups of the tables. \<open>Dysco_Checksum\<close>: the incremental checksums.
  \<^item> \<open>Dysco_Options\<close>: TCP options (\<^verbatim>\<open>dysco_tcp.c\<close>), the search for a timestamp, the session tag, the
    translation of SACK blocks. \<open>Dysco_Rewrite\<close>: the header rewriting of both directions.
  \<^item> \<open>Dysco_Input\<close> (\<^verbatim>\<open>dysco_input.c\<close>) and \<open>Dysco_Output\<close> (\<^verbatim>\<open>dysco_output.c\<close>): the TCP data path.
    \<open>Dysco_Control_Out\<close> (\<^verbatim>\<open>dysco_control_output.c\<close>) and \<open>Dysco_Control_In\<close>
    (\<^verbatim>\<open>dysco_control_input.c\<close>): control messages. \<open>Dysco_Datapath\<close>: the entry points and the hooks of
    \<^verbatim>\<open>nf/d.c\<close>. \<open>Dysco_Main\<close> (\<^verbatim>\<open>dysco_main.c\<close>): policies, reports, namespaces. \<open>Dysco_Veth\<close>
    (\<^verbatim>\<open>veth/v.c\<close>): the driver of a pair of devices. \<open>Dysco_Proc\<close> (\<^verbatim>\<open>dysco_proc.c\<close>): the files of
    measurement samples, whose start and end functions nothing calls.
  \<^item> \<open>Dysco_E1000\<close> (\<^verbatim>\<open>e1000.h\<close>, \<^verbatim>\<open>e1000_hw.h\<close>): the adapter, its transmit ring, the frame and the kernel
    as the driver sees it. \<open>Dysco_E1000_Tx\<close> (\<^verbatim>\<open>e1000_main.c\<close>): the transmit path, from
    \<open>e1000_xmit_frame\<close> with its call of \<open>dysco_output\<close> over offloads, cutting a frame into
    descriptors and errata to \<open>e1000_clean_tx_irq\<close>. \<open>Dysco_E1000_Ring\<close>: making the ring.
    \<open>Dysco_E1000_Param\<close> (\<^verbatim>\<open>e1000_param.c\<close>): the options. \<open>Dysco_E1000_Link\<close>: interrupt rate and
    forced link. \<open>Dysco_E1000_Rx\<close>: the receive path, for usual and for jumbo frames, up to the stack,
    where the receive handler of the module takes the frames. \<open>Dysco_E1000_Poll\<close>: interrupt handler
    and poll function over both rings, starting and stopping the device, changing the frame size.
    \<open>Dysco_E1000_Eeprom\<close> (\<^verbatim>\<open>e1000_hw.c\<close>): the EEPROM, from the bits the driver moves over the register
    EECD to the checksum and the station address.

  \<^bold>\<open>How state and operations correspond.\<close> A structure is a record whose fields carry a prefix, a
  pointer is an \<open>addr option\<close>, and \<open>dstate\<close> holds one store per kind of block; an address
  without a block is freed or was never allocated. An operation is a function of the state that
  returns \<open>None\<close> when the code would fault: a dereference of NULL or of a released block, a
  double free, a buffer overrun, the use of an error pointer (a route lookup that fails in
  \<open>dysco_arp\<close>). Errors the code reports are results. Every allocation asks
  \<open>k_alloc\<close> whether it succeeds, so all error paths are reachable; memory that is not cleared holds
  the values \<open>k_junk_in\<close>, \<open>k_junk_rcb\<close>, \<open>k_junk_out\<close>, \<open>k_junk_pos\<close> and \<open>k_junk_tag\<close> give. Machine integers
  keep their width and wrap. A step of the module runs under the lock of its table, so steps are
  atomic; interleavings of packets, messages and commands are sequences of steps.

  \<^bold>\<open>What is shown.\<close>
  \<^item> \<open>Dysco_Residue\<close>: every rewrite of the data path keeps the checksums of the packet right, for all
    blocks and for packets whose checksum is not left to the hardware and whose SACK blocks and
    timestamps lie at even offsets; where the rewriting itself is wrong is characterised exactly.
  \<^item> \<open>Dysco_Chain\<close>: the chain of a SYN is sent and received unchanged and taking it off restores the
    SYN; a middlebox passes on exactly the rest if it has a route; the blocks of a first SYN are created completely or not at all.
  \<^item> \<open>Dysco_Translation\<close>: the numbers of both directions are translated by maps that are inverse to
    each other and keep the wrap-around order, after a reconfiguration by the formula the
    comments of the code give; the rescaled window.
  \<^item> \<open>Dysco_Paths\<close>: the cutoff is the highest end sent on the old path, data and
    acknowledgments are divided between the paths as an abstract specification says, the old path
    is given up exactly when all of it is acknowledged, the throttled window is bounded.
  \<^item> \<open>Dysco_Reconfig\<close>: from prepared anchors \<open>DYSCO_SYN_ACK\<close> and \<open>DYSCO_ACK\<close> exchange the cutoffs and
    establish both anchors; what retransmitted messages do. \<open>Dysco_Handshake\<close>: the whole handshake,
    with the \<open>DYSCO_SYN\<close> that prepares them, between two hosts that only know the session (no state
    transfer, no data in between).
  \<^item> \<open>Dysco_Invariant\<close>, \<open>Dysco_Safety\<close>, \<open>Dysco_Progress\<close>: the module as a state machine over packets,
    control messages and commands. The invariant \<open>heap_ok\<close> (tables and pointers lead to live
    blocks, two paths only in the three states of a reconfiguration) holds in every reachable
    state, and there a segment of a known session is handled without a fault, both ways.
  \<^item> \<open>Dysco_Management\<close>: order and removal of policies, size of reports, creation and destruction
    of tables. \<open>Dysco_Veth\<close>: devices stay in pairs, no frame is lost by the accounts.
  \<^item> \<open>Dysco_E1000_Pieces\<close>, \<open>_Map\<close> and \<open>_Reserve\<close>: the loops that cut a frame into pieces end, fill
    consecutive slots and need no more descriptors than were reserved. \<open>Dysco_E1000_Queue\<close> and
    \<open>_Clean\<close>: the ring is a queue of frames in flight (\<open>ring_ok\<close>), sending appends to it, cleaning
    takes the frames the device has sent off its front. \<open>Dysco_E1000_Machine\<close>: module and driver as
    one machine; in every interleaving each frame taken is in flight, was released or was swallowed
    by the module (and so lost), exactly once. Frames may be shorter than 60 bytes or be lengthened by
    the module: the reservation, which is made for the old length, is short of two descriptors at
    most, and these are kept free. \<open>Dysco_E1000_Refill\<close>, \<open>_Receive\<close> and \<open>_Rx_Machine\<close>: the filled descriptors are a queue
    (\<open>rx_ok\<close>), of which the driver delivers what \<open>rx_spec\<close> says, and no buffer is lost or used twice.
    \<open>Dysco_E1000_Poll\<close>: both rings under interrupts, polls, going down (which waits for a scheduled
    poll) and changes of the frame size up to 1500 bytes; the driver never sleeps with its interrupts
    disabled. A change to any other size is refused or returns, but the machine ends there. \<open>Dysco_E1000_Jumbo\<close>: a bad page in a chain of pages
    makes the driver use a released packet. \<open>Dysco_E1000_Wire\<close>: what a chip sees of the bit operations.
    \<open>Dysco_E1000_Microwire\<close>: over a Microwire chip reading and writing refine an array of words, and an
    updated checksum is valid. \<open>Dysco_E1000_Spi\<close>: which bytes a write over word 128 of an SPI chip
    reaches, a detection that waits for its own lock, a checksum a CE4100 never stores.
    \<open>Dysco_E1000_Param\<close>: no choice of options leads to an invalid configuration, but for the interrupt
    rate, which becomes 3 when it is out of range.
  \<^item> \<open>Dysco_Base\<close>, \<open>Dysco_Checksum\<close>, \<open>Dysco_Options\<close>: ports do not repeat, incremental checksums are
    right, options are read inside their area and mean what they encode.

  \<^bold>\<open>Interfaces.\<close> The locales state what one part relies on and are interpreted on the model:
  \<open>node_table\<close> (a hash table of nodes) and \<open>fresh_source\<close> (port allocation) in \<open>Dysco_Base\<close>,
  \<open>seq_translation\<close> and \<open>seq_translation_pair\<close> (a number translation and its inverse) in
  \<open>Dysco_Translation\<close>, \<open>invariant_of\<close> (an invariant of a step relation) in \<open>Dysco_Safety\<close> for the
  module, in \<open>Dysco_Veth\<close>, \<open>Dysco_E1000_Machine\<close> and \<open>Dysco_E1000_Poll\<close> for the drivers, \<open>piece_sizes\<close> (how long the next
  piece of a frame may be) and \<open>piece_loop\<close> (a loop that maps pieces) in \<open>Dysco_E1000_Pieces\<close> and
  \<open>_Map\<close> for the linear part and for the fragments, \<open>checked_option\<close> (an option with a valid
  default) in \<open>Dysco_E1000_Param\<close>. Named hypotheses about the kernel are the checksum
  library (\<open>Dysco_Checksum\<close>), \<open>sockets_exist\<close> (a socket the kernel returns exists) and
  \<open>errors_negative\<close> (its error codes are negative), \<open>nic_ok\<close> (padding leaves a frame of at least 60
  bytes alone and brings a shorter one to 60 bytes, pulling a header loses nothing); \<open>ref_kapi\<close>, \<open>ref_core\<close> and \<open>ref_nkernel\<close> satisfy them.

  \<^bold>\<open>Bounds and fuel.\<close> The loops over options and over policies are recursions with a measure, so
  no fuel is used. The walks over tables are finite lists of what the iterator yields, of any
  length. The allocator of ports is covered up to its first wrap, 555405534 draws. The loops of the
  e1000 driver are partial functions shown to return. Its frames (\<open>frame_shape\<close>) have less than \<open>2^30\<close>
  bytes and at most 17 fragments (once padded, \<open>frame_ok\<close>, at least 60 bytes); the module lengthens a frame by less
  than 4096 bytes, and none that is to be segmented, as the kernel guarantees for every buffer, its rings at most
  65536 slots, which is what a 16-bit \<open>next_to_watch\<close> can name; the options allow 4096. Of the device
  the receive path assumes that it fills the slots it owns in order, with frames of 5 bytes at
  least that fit into a buffer (\<open>rx_write_back\<close>); nothing is assumed of the bytes it writes.

  \<^bold>\<open>Not modelled.\<close> The insertion into a hash table is taken to succeed: the module ignores the result
  of \<^verbatim>\<open>rhashtable_insert_fast\<close>, and a block whose insertion fails for lack of memory would be lost. Tables
  are independent lists; that a pending block is linked into two tables through the same list node,
  so that the second insertion overwrites the successor in the first table, is outside the model. Of the vendored driver under \<^verbatim>\<open>kernel/e1000\<close>: opening and closing the
  interface, the other registers and the PHY, ethtool, watchdog, VLAN filters and power management. All
  of \<^verbatim>\<open>kernel/ixgbe\<close>, which only calls the module. Locks and RCU, whose effect is that a step is
  atomic; the transport of netlink messages; the user-space daemon and the scripts. Concurrency inside a step is outside
  the model: two processors in the data path of one session at the same time are not covered.
\<close>

end
